(* ===== verification/Khazar_Prelude.thy ===== *)
theory Khazar_Prelude
  imports Main "HOL-Library.Word" "HOL-Library.Monad_Syntax"
begin

text \<open>
  The vocabulary the component theories share: names for the machine integers of
  \<^verbatim>\<open>kernel/include/libk/types.h\<close>, the named theorem collections of the development,
  and the generic facts on words, searches over index ranges and list updates that carry
  the component proofs.

  Conventions of the whole development:
  \<^item> \<^verbatim>\<open>uint8_t\<close>, \<^verbatim>\<open>uint16_t\<close>, \<^verbatim>\<open>uint32_t\<close>, \<^verbatim>\<open>uint64_t\<close> and \<^verbatim>\<open>size_t\<close> (32 bits) are
    \<open>w word\<close>; a C \<^verbatim>\<open>int\<close> is a 32-bit word read with \<open>sint\<close> where its sign matters;
  \<^item> a pointer is its 32-bit address and \<^verbatim>\<open>NULL\<close> is 0;
  \<^item> a C loop that may run forever is a \<^theory_text>\<open>partial_function (option)\<close>; \<open>None\<close> is
    "does not return";
  \<^item> diagnostics (\<^verbatim>\<open>kprintf\<close>, \<^verbatim>\<open>serial_write_string\<close>, \<^verbatim>\<open>LOG_*\<close>) only append to the
    console, which no component reads back; they are left out of the component models.
\<close>

unbundle bit_operations_syntax

type_synonym u8 = "8 word"
type_synonym u16 = "16 word"
type_synonym u32 = "32 word"
type_synonym u64 = "64 word"
type_synonym addr = "32 word"

named_theorems kz_bits \<comment> \<open>facts on single bits of machine words\<close>
named_theorems kz_frame \<comment> \<open>what an operation leaves unchanged\<close>
named_theorems kz_inv \<comment> \<open>preservation of component invariants\<close>

subsection \<open>Words\<close>

text \<open>\<^verbatim>\<open>1 << n\<close> is \<open>push_bit n 1\<close>, which the simplifier turns into \<open>2 ^ n\<close>.\<close>

lemma bit_and_exp [kz_bits]:
  "(w AND 2 ^ n = (0 :: 'a::len word)) \<longleftrightarrow> \<not> bit w n"
  by (simp add: and_exp_eq_0_iff_not_bit)

lemma bit_or_exp [kz_bits]:
  "bit (w OR 2 ^ n :: 'a::len word) k \<longleftrightarrow> k < LENGTH('a) \<and> (bit w k \<or> k = n)"
  by (auto simp: bit_or_iff bit_exp_iff dest: bit_imp_le_length)

lemma bit_and_not_exp [kz_bits]:
  "bit (w AND NOT (2 ^ n) :: 'a::len word) k \<longleftrightarrow> bit w k \<and> k \<noteq> n"
  by (auto simp: bit_and_iff bit_not_iff bit_exp_iff dest: bit_imp_le_length)

lemma word_eq_all_ones_iff:
  "(w = (-1 :: 'a::len word)) \<longleftrightarrow> (\<forall>j < LENGTH('a). bit w j)"
  by (auto simp: bit_eq_iff [of w])

lemma max_u32: "(0xFFFFFFFF :: u32) = - 1"
  by simp

lemma unat_u32_bound: "unat (w :: u32) < 4294967296"
proof -
  have "unat w < 2 ^ LENGTH(32)" by (rule unsigned_less)
  then show ?thesis by simp
qed

lemma unat_u16_bound: "unat (w :: u16) < 65536"
proof -
  have "unat w < 2 ^ LENGTH(16)" by (rule unsigned_less)
  then show ?thesis by simp
qed

lemma unat_u8_bound: "unat (w :: u8) < 256"
proof -
  have "unat w < 2 ^ LENGTH(8)" by (rule unsigned_less)
  then show ?thesis by simp
qed

lemma unat_of_nat_less: "n < 2 ^ LENGTH('a) \<Longrightarrow> unat (of_nat n :: 'a::len word) = n"
  by (simp add: unat_of_nat take_bit_nat_eq_self)

lemma of_nat_word_inj:
  "\<lbrakk>of_nat m = (of_nat n :: 'a::len word); m < 2 ^ LENGTH('a); n < 2 ^ LENGTH('a)\<rbrakk> \<Longrightarrow> m = n"
  by (metis unat_of_nat_less)

lemma unat_plus_no_wrap:
  "unat (a :: 'a::len word) + unat b < 2 ^ LENGTH('a) \<Longrightarrow> unat (a + b) = unat a + unat b"
  by (simp add: unat_word_ariths)

lemma unat_minus_no_wrap:
  "(b :: 'a::len word) \<le> a \<Longrightarrow> unat (a - b) = unat a - unat b"
  by (simp add: unat_sub)

text \<open>Clearing low bits rounds down.\<close>

lemma and_not_mask: "w AND NOT (mask n) = (push_bit n (drop_bit n w) :: 'a::len word)"
  by (rule bit_eqI) (auto simp: bit_simps dest: bit_imp_le_length)

lemma unat_and_not_mask: "unat (w AND NOT (mask n) :: 'a::len word) = unat w div 2 ^ n * 2 ^ n"
proof -
  have "w AND NOT (mask n) = w - take_bit n w"
    using bits_ident [of n w] by (simp add: and_not_mask algebra_simps)
  moreover have t: "unat (take_bit n w) = unat w mod 2 ^ n"
    unfolding unsigned_take_bit_eq by (simp only: take_bit_eq_mod)
  then have "take_bit n w \<le> w" by (simp only: word_le_nat_alt mod_less_eq_dividend)
  ultimately have "unat (w AND NOT (mask n)) = unat w - unat w mod 2 ^ n"
    using t by (simp only: unat_minus_no_wrap)
  then show ?thesis by (simp only: minus_mod_eq_div_mult)
qed

text \<open>The low 12 bits of an address are its offset in a 4 KB page.\<close>

lemma unat_and_FFF: "unat (a AND (0xFFF :: u32)) = unat a mod 4096"
proof -
  have "a AND 0xFFF = take_bit 12 a" by (simp add: take_bit_eq_mask mask_eq_exp_minus_1)
  then show ?thesis by (simp add: take_bit_eq_mod unat_mod)
qed

lemma page_aligned_iff: "a AND (0xFFF :: u32) = 0 \<longleftrightarrow> 4096 dvd unat a"
  using unat_and_FFF [of a] by (metis dvd_eq_mod_eq_0 unat_eq_zero)

subsection \<open>Pages\<close>

definition page_of :: "u32 \<Rightarrow> u32" where "page_of a = a AND NOT 0xFFF"

lemma page_mask: "(0xFFF :: u32) = mask 12"
  by (simp add: mask_eq_exp_minus_1)

lemma page_of_0 [simp]: "page_of 0 = 0"
  by (simp add: page_of_def)

lemma page_of_aligned [simp]: "page_of a AND 0xFFF = 0"
  by (simp add: page_of_def bit_eq_iff bit_simps)

lemma aligned_page_of: "p AND 0xFFF = 0 \<Longrightarrow> page_of p = p"
proof -
  assume "p AND 0xFFF = (0 :: u32)"
  moreover have "p = (p AND 0xFFF) OR (p AND NOT 0xFFF)"
    by (simp add: bit_eq_iff bit_simps) blast
  ultimately show ?thesis by (simp add: page_of_def)
qed

lemma unat_page_plus:
  assumes "p AND 0xFFF = 0" "unat (x :: u32) < 4096"
  shows "unat (p + x) = unat p + unat x"
proof -
  have "4096 dvd unat p" using assms(1) by (simp add: page_aligned_iff)
  then have "unat p + 4096 \<le> 4294967296" using unat_u32_bound [of p] by (auto elim!: dvdE)
  then show ?thesis using assms(2) by (intro unat_plus_no_wrap) simp
qed

lemma unat_drop_bit: "unat (drop_bit n w :: 'a::len word) = unat w div 2 ^ n"
  by (simp add: unsigned_drop_bit_eq take_bit_nat_eq_self flip: drop_bit_eq_div)

lemma page_of_eq_iff: "page_of u = page_of v \<longleftrightarrow> unat u div 4096 = unat v div 4096"
proof -
  have bits: "page_of w = push_bit 12 (drop_bit 12 w)" for w
    by (rule bit_eqI) (auto simp: page_of_def bit_simps page_mask)
  have "page_of u = page_of v \<longleftrightarrow> drop_bit 12 u = drop_bit 12 v"
  proof
    assume "page_of u = page_of v"
    then have "drop_bit 12 (page_of u) = drop_bit 12 (page_of v)" by simp
    moreover have "drop_bit 12 (page_of w) = drop_bit 12 w" for w
      by (rule bit_eqI) (auto simp: page_of_def bit_simps page_mask dest: bit_imp_le_length)
    ultimately show "drop_bit 12 u = drop_bit 12 v" by simp
  qed (simp add: bits)
  also have "\<dots> \<longleftrightarrow> unat u div 4096 = unat v div 4096"
    using unat_drop_bit [of 12 u] unat_drop_bit [of 12 v] by (simp add: word_unat_eq_iff)
  finally show ?thesis .
qed

text \<open>Two aligned pages overlap only when they are the same page.\<close>

lemma page_plus_eq:
  assumes "p AND 0xFFF = 0" "q AND 0xFFF = 0" "unat (x :: u32) < 4096" "unat y < 4096"
  shows "p + x = q + y \<longleftrightarrow> p = q \<and> x = y"
proof
  assume "p + x = q + y"
  then have *: "unat p + unat x = unat q + unat y"
    using unat_page_plus [OF assms(1,3)] unat_page_plus [OF assms(2,4)] by simp
  then have "(unat p + unat x) mod 4096 = (unat q + unat y) mod 4096" by simp
  moreover have "4096 dvd unat p" "4096 dvd unat q" using assms by (simp_all add: page_aligned_iff)
  ultimately have "unat x = unat y" using assms(3,4) by (auto elim!: dvdE)
  then show "p = q \<and> x = y" using * by (simp add: word_unat_eq_iff)
qed simp

lemma in_page_iff:
  assumes "p AND 0xFFF = 0" "q AND 0xFFF = 0" "unat (y :: u32) < 4096"
  shows "q + y - p < 4096 \<longleftrightarrow> q = p"
proof
  assume "q + y - p < 4096"
  then have "unat (q + y - p) < 4096" by (simp add: word_less_nat_alt)
  moreover have "p + (q + y - p) = q + y" by simp
  ultimately show "q = p" using page_plus_eq [OF assms(1,2) _ assms(3)] by blast
next
  assume "q = p"
  then show "q + y - p < 4096" using assms(3) by (simp add: word_less_nat_alt)
qed

subsection \<open>Searching an index range\<close>

text \<open>\<^verbatim>\<open>for (i = m; i < n; i++) if (P(i)) ...; break;\<close> is \<open>find P [m..<n]\<close>.\<close>

lemma find_append:
  "find P (xs @ ys) = (case find P xs of None \<Rightarrow> find P ys | Some x \<Rightarrow> Some x)"
  by (induction xs) auto

lemma find_upt_snoc:
  "find P [m..<Suc n] =
     (case find P [m..<n] of
        None \<Rightarrow> if m \<le> n \<and> P n then Some n else None
      | Some i \<Rightarrow> Some i)"
  by (auto simp: find_append split: option.splits)

lemma find_upt_None_iff: "find P [m..<n] = None \<longleftrightarrow> (\<forall>i. m \<le> i \<and> i < n \<longrightarrow> \<not> P i)"
  by (auto simp: find_None_iff)

lemma find_upt_Some_iff:
  "find P [m..<n] = Some i \<longleftrightarrow> m \<le> i \<and> i < n \<and> P i \<and> (\<forall>j. m \<le> j \<and> j < i \<longrightarrow> \<not> P j)"
proof (induction n arbitrary: i)
  case 0
  then show ?case by simp
next
  case (Suc n)
  show ?case
  proof (cases "find P [m..<n]")
    case None
    then have "\<forall>j. m \<le> j \<and> j < n \<longrightarrow> \<not> P j" by (simp add: find_upt_None_iff)
    then show ?thesis
      using None by (auto simp add: find_upt_snoc less_Suc_eq simp del: upt_Suc)
  next
    case (Some k)
    then have k: "m \<le> k" "k < n" "P k" "\<forall>j. m \<le> j \<and> j < k \<longrightarrow> \<not> P j"
      using Suc.IH [of k] by auto
    show ?thesis
      using Some k by (auto simp add: find_upt_snoc less_Suc_eq simp del: upt_Suc) (metis nat_neq_iff)
  qed
qed


lemma find_upt_None_D: "\<lbrakk>find P [m..<n] = None; m \<le> i; i < n\<rbrakk> \<Longrightarrow> \<not> P i"
  by (simp add: find_upt_None_iff)

end
