(* ===== verification/Khazar_Terminal.thy ===== *)
theory Khazar_Terminal
  imports Khazar_Prelude
begin

text \<open>
  The text console, \<^verbatim>\<open>kernel/drivers/gpu/vga.c\<close>, with the formatting engine behind
  \<^verbatim>\<open>kprintf\<close>, \<^verbatim>\<open>ksprintf\<close> and \<^verbatim>\<open>ksnprintf\<close>, and the serial port,
  \<^verbatim>\<open>kernel/drivers/char/serial.c\<close>. Terminals are numbered; number 0 is
  \<^verbatim>\<open>default_terminal\<close>. \<open>vga_mem\<close> is the hardware text buffer, \<open>serial_out\<close> the bytes sent,
  latest last.
\<close>

subsection \<open>State\<close>

definition VGA_WIDTH :: nat where "VGA_WIDTH = 80"
definition VGA_HEIGHT :: nat where "VGA_HEIGHT = 25"

definition vga_entry_color :: "u8 \<Rightarrow> u8 \<Rightarrow> u8" where
  "vga_entry_color fg bg = fg OR push_bit 4 bg"

definition vga_entry :: "u8 \<Rightarrow> u8 \<Rightarrow> u16" where
  "vga_entry c color = ucast c OR push_bit 8 (ucast color)"

record virtual_terminal_t =
  vrow :: nat
  vcolumn :: nat
  vcolor :: u8
  vbuffer :: "u16 list"

record console =
  terms :: "nat \<Rightarrow> virtual_terminal_t"
  active_terminal :: nat
  terminal_buffer :: nat
  vga_mem :: "u16 list"
  cursor :: u16
  serial_ready :: bool
  serial_out :: "u8 list"

abbreviation act :: "console \<Rightarrow> virtual_terminal_t" where
  "act s \<equiv> terms s (active_terminal s)"

text \<open>\<^verbatim>\<open>terminal_buffer\<close> is a pointer to the buffer of one terminal.\<close>

definition upd_term :: "nat \<Rightarrow> (virtual_terminal_t \<Rightarrow> virtual_terminal_t) \<Rightarrow> console \<Rightarrow> console" where
  "upd_term n f s = s\<lparr>terms := (terms s)(n := f (terms s n))\<rparr>"

definition tbuf :: "console \<Rightarrow> u16 list" where
  "tbuf s = vbuffer (terms s (terminal_buffer s))"

definition set_tbuf :: "(u16 list \<Rightarrow> u16 list) \<Rightarrow> console \<Rightarrow> console" where
  "set_tbuf f s = upd_term (terminal_buffer s) (\<lambda>t. t\<lparr>vbuffer := f (vbuffer t)\<rparr>) s"

subsection \<open>The serial port\<close>

text \<open>
  The wait for the transmitter ends after a bounded number of polls, and the byte is sent in
  any case.
\<close>

definition serial_init :: "console \<Rightarrow> console" where
  "serial_init s = s\<lparr>serial_ready := True\<rparr>"

definition serial_write_char :: "u8 \<Rightarrow> console \<Rightarrow> console" where
  "serial_write_char c s =
     (if \<not> serial_ready s then s
      else s\<lparr>serial_out := serial_out s @ (if c = 10 then [13] else []) @ [c]\<rparr>)"

definition serial_write_string :: "u8 list \<Rightarrow> console \<Rightarrow> console" where
  "serial_write_string str s = fold serial_write_char str s"

fun uint_digits :: "nat \<Rightarrow> nat \<Rightarrow> nat list" where
  "uint_digits base v = (if base < 2 \<or> v = 0 then [] else (v mod base) # uint_digits base (v div base))"

declare uint_digits.simps [simp del]

definition serial_write_uint :: "u32 \<Rightarrow> nat \<Rightarrow> console \<Rightarrow> console" where
  "serial_write_uint v base s =
     (if v = 0 then serial_write_char 48 s
      else fold (\<lambda>d. serial_write_char (if d < 10 then 48 + of_nat d else 97 + of_nat d - 10))
             (rev (uint_digits base (unat v))) s)"

definition serial_write_int :: "u32 \<Rightarrow> console \<Rightarrow> console" where
  "serial_write_int v s =
     (if sint v < 0 then serial_write_uint (- v) 10 (serial_write_char 45 s) else serial_write_uint v 10 s)"

subsection \<open>Cursor, scrolling, clearing\<close>

definition update_cursor :: "u8 \<Rightarrow> u8 \<Rightarrow> console \<Rightarrow> console" where
  "update_cursor x y s = s\<lparr>cursor := ucast y * 80 + ucast x\<rparr>"

definition cursor_at_active :: "console \<Rightarrow> console" where
  "cursor_at_active s = update_cursor (of_nat (vcolumn (act s))) (of_nat (vrow (act s))) s"

definition terminal_init_virtual :: "virtual_terminal_t \<Rightarrow> virtual_terminal_t" where
  "terminal_init_virtual t =
     (let color = vga_entry_color 7 0
      in t\<lparr>vrow := 0, vcolumn := 0, vcolor := color,
           vbuffer := fold (\<lambda>i b. b[i := vga_entry 32 color]) [0..<VGA_HEIGHT * VGA_WIDTH] (vbuffer t)\<rparr>)"

definition terminal_flush_to_hardware :: "console \<Rightarrow> console" where
  "terminal_flush_to_hardware s =
     cursor_at_active (s\<lparr>vga_mem := fold (\<lambda>i m. m[i := vbuffer (act s) ! i]) [0..<VGA_WIDTH * VGA_HEIGHT] (vga_mem s)\<rparr>)"

text \<open>A null terminal selects the default one, number 0.\<close>

definition terminal_set_active :: "nat option \<Rightarrow> console \<Rightarrow> console" where
  "terminal_set_active term s =
     (let n = (case term of None \<Rightarrow> 0 | Some n \<Rightarrow> n)
      in terminal_flush_to_hardware (s\<lparr>active_terminal := n, terminal_buffer := n\<rparr>))"

definition terminal_initialize :: "console \<Rightarrow> console" where
  "terminal_initialize s =
     (let s1 = terminal_set_active (Some 0) (upd_term 0 terminal_init_virtual s);
          s2 = set_tbuf (\<lambda>b. fold (\<lambda>i b. b[i := vbuffer (terms s1 0) ! i]) [0..<VGA_HEIGHT * VGA_WIDTH] b) s1;
          s3 = s2\<lparr>vga_mem := fold (\<lambda>i m. m[i := tbuf s2 ! i]) [0..<VGA_HEIGHT * VGA_WIDTH] (vga_mem s2)\<rparr>
      in update_cursor 0 0 s3)"

definition terminal_setcolor :: "u8 \<Rightarrow> console \<Rightarrow> console" where
  "terminal_setcolor color s = upd_term (active_terminal s) (\<lambda>t. t\<lparr>vcolor := color\<rparr>) s"

definition terminal_clear :: "console \<Rightarrow> console" where
  "terminal_clear s =
     (let blank = vga_entry 32 (vcolor (act s));
          s1 = set_tbuf (\<lambda>b. fold (\<lambda>i b. b[i := blank]) [0..<VGA_HEIGHT * VGA_WIDTH] b) s;
          s2 = s1\<lparr>vga_mem := fold (\<lambda>i m. m[i := blank]) [0..<VGA_HEIGHT * VGA_WIDTH] (vga_mem s1)\<rparr>
      in update_cursor 0 0 (upd_term (active_terminal s2) (\<lambda>t. t\<lparr>vrow := 0, vcolumn := 0\<rparr>) s2))"

text \<open>
  The two loops of \<^verbatim>\<open>terminal_scroll\<close> on one buffer: cells move up by a line in ascending
  order, then the last line is blanked. The hardware buffer gets the same values when the
  buffer belongs to the active terminal.
\<close>

definition scroll_cells :: "u16 \<Rightarrow> u16 list \<Rightarrow> u16 list" where
  "scroll_cells blank b =
     fold (\<lambda>i b. b[i := blank]) [(VGA_HEIGHT - 1) * VGA_WIDTH..<VGA_HEIGHT * VGA_WIDTH]
       (fold (\<lambda>i b. b[i := b ! (i + VGA_WIDTH)]) [0..<(VGA_HEIGHT - 1) * VGA_WIDTH] b)"

definition copy_cells :: "u16 list \<Rightarrow> nat list \<Rightarrow> u16 list \<Rightarrow> u16 list" where
  "copy_cells src is m = fold (\<lambda>i m. m[i := src ! i]) is m"

definition terminal_scroll :: "console \<Rightarrow> console" where
  "terminal_scroll s =
     (let b = scroll_cells (vga_entry 32 (vcolor (act s))) (tbuf s);
          s1 = set_tbuf (\<lambda>_. b) s
      in if terminal_buffer s = active_terminal s
         then s1\<lparr>vga_mem := copy_cells b [0..<VGA_HEIGHT * VGA_WIDTH] (vga_mem s1)\<rparr> else s1)"

subsection \<open>Writing characters\<close>

definition terminal_putentryat :: "u8 \<Rightarrow> u8 \<Rightarrow> nat \<Rightarrow> nat \<Rightarrow> console \<Rightarrow> console" where
  "terminal_putentryat c color x y s =
     (let index = y * VGA_WIDTH + x;
          s1 = set_tbuf (\<lambda>b. b[index := vga_entry c color]) s
      in if terminal_buffer s1 = active_terminal s1
         then s1\<lparr>vga_mem := (vga_mem s1)[index := tbuf s1 ! index]\<rparr> else s1)"

text \<open>The end of a line: \<^verbatim>\<open>column = 0; if (++row == VGA_HEIGHT) { scroll; row = VGA_HEIGHT - 1; }\<close>.\<close>

definition next_line :: "console \<Rightarrow> console" where
  "next_line s =
     (let s1 = upd_term (active_terminal s) (\<lambda>t. t\<lparr>vcolumn := 0, vrow := vrow t + 1\<rparr>) s
      in if vrow (act s1) = VGA_HEIGHT
         then upd_term (active_terminal s) (\<lambda>t. t\<lparr>vrow := VGA_HEIGHT - 1\<rparr>) (terminal_scroll s1) else s1)"

definition terminal_putchar :: "u8 \<Rightarrow> console \<Rightarrow> console" where
  "terminal_putchar c s =
     (if c = 8 then
        let s1 = (if vcolumn (act s) > 0
                  then upd_term (active_terminal s) (\<lambda>t. t\<lparr>vcolumn := vcolumn t - 1\<rparr>) s
                  else if vrow (act s) > 0
                  then upd_term (active_terminal s) (\<lambda>t. t\<lparr>vrow := vrow t - 1, vcolumn := VGA_WIDTH - 1\<rparr>) s
                  else s)
        in cursor_at_active (terminal_putentryat 32 (vcolor (act s1)) (vcolumn (act s1)) (vrow (act s1)) s1)
      else if c = 10 then cursor_at_active (next_line s)
      else if c = 9 then
        let col = (vcolumn (act s) + 4) div 4 * 4;
            s1 = upd_term (active_terminal s) (\<lambda>t. t\<lparr>vcolumn := col\<rparr>) s
        in cursor_at_active (if col \<ge> VGA_WIDTH then next_line s1 else s1)
      else
        let s1 = terminal_putentryat c (vcolor (act s)) (vcolumn (act s)) (vrow (act s)) s;
            s2 = upd_term (active_terminal s1) (\<lambda>t. t\<lparr>vcolumn := vcolumn t + 1\<rparr>) s1;
            s3 = (if vcolumn (act s2) = VGA_WIDTH then next_line s2 else s2)
        in serial_write_char c (cursor_at_active s3))"

definition terminal_write :: "u8 list \<Rightarrow> console \<Rightarrow> console" where
  "terminal_write data s = fold terminal_putchar data s"

definition terminal_writestring :: "u8 list \<Rightarrow> console \<Rightarrow> console" where
  "terminal_writestring data s = terminal_write data s"

definition terminal_get_buffer :: "console \<Rightarrow> u16 list" where "terminal_get_buffer s = vbuffer (act s)"
definition terminal_get_row :: "console \<Rightarrow> nat" where "terminal_get_row s = vrow (act s)"
definition terminal_get_column :: "console \<Rightarrow> nat" where "terminal_get_column s = vcolumn (act s)"

subsection \<open>Formatting\<close>

text \<open>
  The digits of \<^verbatim>\<open>itoa\<close>, last one first. Negating the least 32-bit integer wraps to itself;
  the remainders are then negative, which the flag \<open>neg\<close> stands for.
\<close>

fun itoa_loop :: "bool \<Rightarrow> nat \<Rightarrow> string" where
  "itoa_loop neg n =
     (if n = 0 then []
      else char_of (if neg then 48 - n mod 10 else 48 + n mod 10 :: nat) # itoa_loop neg (n div 10))"

declare itoa_loop.simps [simp del]

definition itoa :: "u32 \<Rightarrow> string" where
  "itoa num =
     (let v = sint num
      in if v = 0 then ''0''
         else rev (itoa_loop (v = - (2 ^ 31)) (nat \<bar>v\<bar>) @ (if v < 0 then ''-'' else [])))"

definition hex_chars :: string where "hex_chars = ''0123456789ABCDEF''"

text \<open>\<open>k\<close> hexadecimal digits, as the loops of \<^verbatim>\<open>itoh\<close> (8) and of \<^verbatim>\<open>%llx\<close> (16) store them.\<close>

definition hex_digits :: "nat \<Rightarrow> 'a::len word \<Rightarrow> string" where
  "hex_digits k num = map (\<lambda>i. hex_chars ! unat (drop_bit (4 * (k - 1 - i)) num AND 15)) [0..<k]"

definition itoh :: "u32 \<Rightarrow> string" where "itoh num = hex_digits 8 num"

text \<open>
  A variadic argument. \<open>None\<close> is the result where C leaves the behaviour undefined: an
  argument is missing or of the wrong type, or the format ends after \<^verbatim>\<open>%\<close> and digits.
\<close>

datatype fmt_arg = Arg32 u32 | Arg64 u64 | ArgStr "string option"

definition is_digit :: "char \<Rightarrow> bool" where
  "is_digit c \<longleftrightarrow> (48 :: nat) \<le> of_char c \<and> of_char c \<le> (57 :: nat)"

text \<open>One conversion: the output and the remaining arguments.\<close>

definition convert :: "char \<Rightarrow> fmt_arg list \<Rightarrow> (string \<times> fmt_arg list) option" where
  "convert c args =
     (if c = CHR ''d'' then (case args of Arg32 n # as \<Rightarrow> Some (itoa n, as) | _ \<Rightarrow> None)
      else if c = CHR ''x'' then (case args of Arg32 n # as \<Rightarrow> Some (itoh n, as) | _ \<Rightarrow> None)
      else if c = CHR ''s'' then
        (case args of ArgStr None # as \<Rightarrow> Some (''(null)'', as) | ArgStr (Some t) # as \<Rightarrow> Some (t, as) | _ \<Rightarrow> None)
      else if c = CHR ''c'' then (case args of Arg32 n # as \<Rightarrow> Some ([char_of (unat n mod 256)], as) | _ \<Rightarrow> None)
      else if c = CHR ''%'' then Some (''%'', args)
      else Some ([CHR ''%'', c], args))"

lemma dropWhile_tail: "dropWhile P f = d # r \<Longrightarrow> length r < length f"
  using length_dropWhile_le [of P f] by simp

function kvprintf :: "string \<Rightarrow> fmt_arg list \<Rightarrow> string option" where
  "kvprintf [] args = Some []"
| "kvprintf (c # f) args =
     (if c = CHR ''%'' \<and> f \<noteq> [] then
        (case dropWhile is_digit f of
           [] \<Rightarrow> None
         | d # r \<Rightarrow>
             if d = CHR ''l'' then
               (if take 2 r = ''lx''
                then (case args of
                        Arg64 n # as \<Rightarrow> map_option (\<lambda>out. hex_digits 16 n @ out) (kvprintf (drop 2 r) as)
                      | _ \<Rightarrow> None)
                else kvprintf r args)
             else (case convert d args of
                     None \<Rightarrow> None
                   | Some (out, as) \<Rightarrow> map_option (\<lambda>o2. out @ o2) (kvprintf r as)))
      else map_option (\<lambda>out. c # out) (kvprintf f args))"
  by pat_completeness auto
termination
  by (relation "measure (\<lambda>(f, _). length f)") (auto dest: dropWhile_tail simp: less_Suc_eq)

declare kvprintf.simps(2) [simp del]

definition kprintf :: "string \<Rightarrow> fmt_arg list \<Rightarrow> console \<Rightarrow> console option" where
  "kprintf format args s = map_option (\<lambda>out. terminal_write (map of_char out) s) (kvprintf format args)"

text \<open>The bytes \<^verbatim>\<open>ksprintf\<close> stores, with the terminating zero.\<close>

definition ksprintf :: "string \<Rightarrow> fmt_arg list \<Rightarrow> u8 list option" where
  "ksprintf format args = map_option (\<lambda>out. map of_char out @ [0]) (kvprintf format args)"

text \<open>\<^verbatim>\<open>ksnprintf_putc\<close> on the stored bytes and the remaining room.\<close>

fun ksnprintf_putc :: "char \<Rightarrow> u8 list \<times> nat \<Rightarrow> u8 list \<times> nat" where
  "ksnprintf_putc c (out, remaining) =
     (if remaining > 1 then (out @ [of_char c], remaining - 1) else (out, remaining))"

definition ksnprintf :: "nat \<Rightarrow> string \<Rightarrow> fmt_arg list \<Rightarrow> u8 list option" where
  "ksnprintf n format args =
     (if n = 0 then Some []
      else map_option (\<lambda>out. fst (fold ksnprintf_putc out ([], n)) @ [0]) (kvprintf format args))"

text \<open>
  The serial port has a formatter of its own: no width, \<^verbatim>\<open>%u\<close> besides \<^verbatim>\<open>%d\<close>, and \<^verbatim>\<open>%x\<close> with a
  prefix. Again \<open>None\<close> is undefined behaviour.
\<close>

definition serial_convert :: "char \<Rightarrow> fmt_arg list \<Rightarrow> console \<Rightarrow> (console \<times> fmt_arg list) option" where
  "serial_convert c args s =
     (if c = CHR ''d'' then (case args of Arg32 n # as \<Rightarrow> Some (serial_write_int n s, as) | _ \<Rightarrow> None)
      else if c = CHR ''u'' then (case args of Arg32 n # as \<Rightarrow> Some (serial_write_uint n 10 s, as) | _ \<Rightarrow> None)
      else if c = CHR ''x'' then
        (case args of
           Arg32 n # as \<Rightarrow> Some (serial_write_uint n 16 (serial_write_string (map of_char ''0x'') s), as)
         | _ \<Rightarrow> None)
      else if c = CHR ''s'' then
        (case args of
           ArgStr t # as \<Rightarrow>
             Some (serial_write_string (map of_char (case t of None \<Rightarrow> ''(null)'' | Some u \<Rightarrow> u)) s, as)
         | _ \<Rightarrow> None)
      else if c = CHR ''c'' then (case args of Arg32 n # as \<Rightarrow> Some (serial_write_char (ucast n) s, as) | _ \<Rightarrow> None)
      else if c = CHR ''%'' then Some (serial_write_char 37 s, args)
      else Some (serial_write_char (of_char c) (serial_write_char 37 s), args))"

fun serial_format :: "string \<Rightarrow> fmt_arg list \<Rightarrow> console \<Rightarrow> console option" where
  "serial_format [] args s = Some s"
| "serial_format (c # f) args s =
     (if c \<noteq> CHR ''%'' then serial_format f args (serial_write_char (of_char c) s)
      else (case f of
              [] \<Rightarrow> None
            | d # r \<Rightarrow> (case serial_convert d args s of None \<Rightarrow> None | Some (s1, as) \<Rightarrow> serial_format r as s1)))"

definition serial_kprintf :: "string \<Rightarrow> fmt_arg list \<Rightarrow> console \<Rightarrow> console option" where
  "serial_kprintf format args s = (if \<not> serial_ready s then Some s else serial_format format args s)"

subsection \<open>Cell arrays\<close>

lemma length_fold_update [simp]: "length (fold (\<lambda>i b. b[i := f i b]) is b) = length b"
  by (induction "is" arbitrary: b) auto

lemma fold_set_cells:
  "n \<le> length m \<Longrightarrow> fold (\<lambda>i m. m[i := f i]) [0..<n] m = map f [0..<n] @ drop n m"
proof (induction n)
  case (Suc n)
  then have "drop n m = m ! n # drop (Suc n) m" by (simp add: Cons_nth_drop_Suc)
  then show ?case using Suc by (simp add: list_update_append)
qed simp

lemma fold_shift_cells:
  "n + w \<le> length b \<Longrightarrow> fold (\<lambda>i b. b[i := b ! (i + w)]) [0..<n] b = take n (drop w b) @ drop n b"
proof (induction n)
  case (Suc n)
  have "(take n (drop w b) @ drop n b) ! (n + w) = b ! (n + w)"
    using Suc.prems by (simp add: nth_append)
  moreover have "take n (drop w b) @ [b ! (n + w)] = take (Suc n) (drop w b)"
    using Suc.prems by (simp add: take_Suc_conv_app_nth add.commute)
  moreover have "drop n b = b ! n # drop (Suc n) b" using Suc.prems by (simp add: Cons_nth_drop_Suc)
  ultimately show ?case using Suc by (simp add: list_update_append)
qed simp

lemma fold_blank_cells:
  "k \<le> n \<Longrightarrow> n \<le> length b \<Longrightarrow> fold (\<lambda>i b. b[i := x]) [k..<n] b = take k b @ replicate (n - k) x @ drop n b"
proof (induction "n - k" arbitrary: n)
  case (Suc d)
  then obtain m where m: "n = Suc m" "k \<le> m" by (cases n) auto
  then have "fold (\<lambda>i b. b[i := x]) [k..<m] b = take k b @ replicate (m - k) x @ drop m b"
    using Suc by simp
  moreover have "drop m b = b ! m # drop (Suc m) b" using Suc.prems m by (simp add: Cons_nth_drop_Suc)
  ultimately show ?case using m Suc.prems
    by (simp add: list_update_append Suc_diff_le replicate_append_same [symmetric])
qed simp

lemma copy_cells_all: "\<lbrakk>length src = n; length m = n\<rbrakk> \<Longrightarrow> copy_cells src [0..<n] m = src"
  unfolding copy_cells_def using map_nth [of src] by (simp add: fold_set_cells)

text \<open>Scrolling drops the first line and appends a blank one.\<close>

lemma scroll_cells_eq:
  "length b = 2000 \<Longrightarrow> scroll_cells blank b = drop 80 b @ replicate 80 blank"
  unfolding scroll_cells_def VGA_HEIGHT_def VGA_WIDTH_def
  using fold_shift_cells [of 1920 80 b]
    fold_blank_cells [of 1920 2000 "take 1920 (drop 80 b) @ drop 1920 b" blank]
  by simp

subsection \<open>The screen shows the active terminal\<close>

definition coherent :: "console \<Rightarrow> bool" where
  "coherent s \<longleftrightarrow> terminal_buffer s = active_terminal s \<and> length (vbuffer (act s)) = 2000 \<and>
     vga_mem s = vbuffer (act s) \<and> vrow (act s) < 25 \<and> vcolumn (act s) < 80"

definition cursor_ok :: "console \<Rightarrow> bool" where
  "cursor_ok s \<longleftrightarrow> unat (cursor s) = vrow (act s) * 80 + vcolumn (act s)"

lemma cursor_at_active_ok:
  assumes "vrow (act s) < 25" "vcolumn (act s) < 80"
  shows "cursor_ok (cursor_at_active s)"
proof -
  have "unat (ucast (of_nat (vrow (act s)) :: u8) * 80 + ucast (of_nat (vcolumn (act s)) :: u8) :: u16) =
      vrow (act s) * 80 + vcolumn (act s)"
    using assms by (simp add: unat_word_ariths unsigned_ucast_eq unat_of_nat_less take_bit_nat_eq_self)
  then show ?thesis by (simp add: cursor_ok_def cursor_at_active_def update_cursor_def)
qed

lemma cursor_at_active_simps [simp]:
  "coherent (cursor_at_active s) = coherent s" "act (cursor_at_active s) = act s"
  by (simp_all add: coherent_def cursor_at_active_def update_cursor_def)

lemma serial_write_char_simps [simp]:
  "coherent (serial_write_char c s) = coherent s" "cursor_ok (serial_write_char c s) = cursor_ok s"
  by (simp_all add: coherent_def cursor_ok_def serial_write_char_def)

lemma coherent_scroll: "coherent s \<Longrightarrow> coherent (terminal_scroll s)"
  by (simp add: coherent_def terminal_scroll_def Let_def set_tbuf_def upd_term_def tbuf_def scroll_cells_eq
      copy_cells_all VGA_HEIGHT_def VGA_WIDTH_def)

lemma coherent_putentry: "coherent s \<Longrightarrow> coherent (terminal_putentryat c col x y s)"
  by (cases "y * VGA_WIDTH + x < 2000")
    (auto simp: coherent_def terminal_putentryat_def Let_def set_tbuf_def upd_term_def tbuf_def list_update_beyond)

lemma act_putentry [simp]:
  "vrow (act (terminal_putentryat c col x y s)) = vrow (act s)"
  "vcolumn (act (terminal_putentryat c col x y s)) = vcolumn (act s)"
  "active_terminal (terminal_putentryat c col x y s) = active_terminal s"
  by (auto simp: terminal_putentryat_def Let_def set_tbuf_def upd_term_def)

lemma coherent_upd:
  "\<lbrakk>coherent s; vbuffer (f (act s)) = vbuffer (act s); vrow (f (act s)) < 25; vcolumn (f (act s)) < 80\<rbrakk> \<Longrightarrow>
     coherent (upd_term (active_terminal s) f s)"
  by (simp add: coherent_def upd_term_def)

lemma act_upd [simp]:
  "act (upd_term (active_terminal s) f s) = f (act s)" "active_terminal (upd_term n f s) = active_terminal s"
  by (simp_all add: upd_term_def)

lemma coherent_next_line:
  assumes "coherent (upd_term (active_terminal s) (\<lambda>t. t\<lparr>vcolumn := 0\<rparr>) s)"
  shows "coherent (next_line s)"
proof -
  let ?s = "upd_term (active_terminal s) (\<lambda>t. t\<lparr>vcolumn := 0, vrow := vrow t + 1\<rparr>) s"
  have c: "terminal_buffer s = active_terminal s" "length (vbuffer (act s)) = 2000" "vga_mem s = vbuffer (act s)"
    "vrow (act s) < 25" using assms by (simp_all add: coherent_def upd_term_def)
  show ?thesis
  proof (cases "vrow (act ?s) = VGA_HEIGHT")
    case True
    then have "next_line s = upd_term (active_terminal s) (\<lambda>t. t\<lparr>vrow := VGA_HEIGHT - 1\<rparr>) (terminal_scroll ?s)"
      by (simp add: next_line_def Let_def)
    then show ?thesis using c
      by (simp add: coherent_def terminal_scroll_def Let_def set_tbuf_def upd_term_def tbuf_def scroll_cells_eq
          copy_cells_all VGA_HEIGHT_def VGA_WIDTH_def)
  next
    case False
    then show ?thesis using c
      by (simp add: next_line_def coherent_def upd_term_def VGA_HEIGHT_def Let_def)
  qed
qed

lemma coherent_advance:
  fixes u
  defines "v \<equiv> upd_term (active_terminal u) (\<lambda>t. t\<lparr>vcolumn := vcolumn t + 1\<rparr>) u"
  assumes "coherent u"
  shows "coherent (if vcolumn (act v) = VGA_WIDTH then next_line v else v)"
proof -
  have "coherent (upd_term (active_terminal v) (\<lambda>t. t\<lparr>vcolumn := 0\<rparr>) v)"
    using assms by (simp add: coherent_def upd_term_def)
  from coherent_next_line [OF this]
  moreover have "coherent v" if "vcolumn (act v) \<noteq> VGA_WIDTH"
    using assms that by (simp add: coherent_def upd_term_def VGA_WIDTH_def)
  ultimately show ?thesis by simp
qed

lemma coherent_putchar:
  assumes "coherent s"
  shows "coherent (terminal_putchar c s) \<and> cursor_ok (terminal_putchar c s)"
proof -
  have fin: "coherent (cursor_at_active u) \<and> cursor_ok (cursor_at_active u)" if "coherent u" for u
    using that cursor_at_active_ok [of u] by (auto simp: coherent_def [of u])
  have rc: "vrow (act s) < 25" "vcolumn (act s) < 80" using assms by (simp_all add: coherent_def)
  consider "c = 8" | "c = 10" | "c = 9" | "c \<noteq> 8" "c \<noteq> 10" "c \<noteq> 9" by blast
  then show ?thesis
  proof cases
    case 1
    let ?s = "if vcolumn (act s) > 0 then upd_term (active_terminal s) (\<lambda>t. t\<lparr>vcolumn := vcolumn t - 1\<rparr>) s
      else if vrow (act s) > 0
      then upd_term (active_terminal s) (\<lambda>t. t\<lparr>vrow := vrow t - 1, vcolumn := VGA_WIDTH - 1\<rparr>) s else s"
    have "coherent ?s" using assms rc by (auto intro!: coherent_upd simp: VGA_WIDTH_def)
    then show ?thesis using 1 fin [OF coherent_putentry] by (simp add: terminal_putchar_def Let_def)
  next
    case 2
    then show ?thesis using fin [OF coherent_next_line] assms rc
      by (simp add: terminal_putchar_def coherent_upd)
  next
    case 3
    let ?col = "(vcolumn (act s) + 4) div 4 * 4"
    let ?s = "upd_term (active_terminal s) (\<lambda>t. t\<lparr>vcolumn := ?col\<rparr>) s"
    have "coherent (upd_term (active_terminal ?s) (\<lambda>t. t\<lparr>vcolumn := 0\<rparr>) ?s)"
      using assms by (simp add: coherent_def upd_term_def)
    then have "coherent (if ?col \<ge> VGA_WIDTH then next_line ?s else ?s)"
      using assms rc coherent_next_line [of ?s] by (auto intro!: coherent_upd simp: VGA_WIDTH_def)
    then show ?thesis using 3 fin by (simp add: terminal_putchar_def Let_def)
  next
    case 4
    let ?s1 = "terminal_putentryat c (vcolor (act s)) (vcolumn (act s)) (vrow (act s)) s"
    let ?s2 = "upd_term (active_terminal ?s1) (\<lambda>t. t\<lparr>vcolumn := vcolumn t + 1\<rparr>) ?s1"
    have c1: "coherent ?s1" by (rule coherent_putentry [OF assms])
    have "coherent (if vcolumn (act ?s2) = VGA_WIDTH then next_line ?s2 else ?s2)"
      by (rule coherent_advance [OF c1])
    from fin [OF this] show ?thesis using 4
      by (simp only: terminal_putchar_def Let_def if_False serial_write_char_simps)
  qed
qed

text \<open>
  C40. Screen coherence: whatever bytes are written, control characters and scrolling
  included, the hardware text buffer stays equal to the active terminal's buffer, the cursor
  position stays inside the 80x25 screen, and the hardware cursor is at that position after
  every non-empty write.
\<close>

theorem terminal_write_coherent:
  assumes "coherent s"
  shows "coherent (terminal_write data s) \<and> (data \<noteq> [] \<longrightarrow> cursor_ok (terminal_write data s))"
proof (cases data rule: rev_cases)
  case Nil
  then show ?thesis using assms by (simp add: terminal_write_def)
next
  case (snoc ds d)
  have "coherent (fold terminal_putchar ds t)" if "coherent t" for t
    using that by (induction ds arbitrary: t) (auto simp: coherent_putchar)
  then show ?thesis using assms snoc coherent_putchar by (simp add: terminal_write_def)
qed

text \<open>A blank console with the default terminal active.\<close>

definition console_example :: console where
  "console_example = \<lparr>terms = (\<lambda>_. \<lparr>vrow = 24, vcolumn = 79, vcolor = 7, vbuffer = replicate 2000 0\<rparr>),
     active_terminal = 0, terminal_buffer = 0, vga_mem = replicate 2000 0, cursor = 0, serial_ready = True,
     serial_out = []\<rparr>"

lemma coherent_example [simp]: "coherent console_example"
  by (simp add: coherent_def console_example_def)

theorem terminal_write_coherent_witness:
  "coherent (terminal_write [65, 10, 8] console_example) \<and> cursor_ok (terminal_write [65, 10, 8] console_example)"
  using terminal_write_coherent [OF coherent_example, of "[65, 10, 8]"] by simp

subsection \<open>Numbers and bounded output\<close>

text \<open>Reading a decimal number back.\<close>

fun dec_value :: "string \<Rightarrow> int" where
  "dec_value s = foldl (\<lambda>v c. 10 * v + (int (of_char c) - 48)) 0 s"

definition read_dec :: "string \<Rightarrow> int" where
  "read_dec s = (if s \<noteq> [] \<and> hd s = CHR ''-'' then - dec_value (tl s) else dec_value s)"

lemma itoa_loop_value: "dec_value (rev (itoa_loop False n)) = int n"
proof (induction "False" n rule: itoa_loop.induct)
  case (1 n)
  show ?case
  proof (cases "n = 0")
    case True
    then show ?thesis by (simp add: itoa_loop.simps [of _ 0])
  next
    case False
    then have "dec_value (rev (itoa_loop False n)) = 10 * int (n div 10) + (int (48 + n mod 10) - 48)"
      using 1 by (subst itoa_loop.simps) (simp add: of_char_of)
    moreover have "int n = 10 * int (n div 10) + int (n mod 10)"
      using of_nat_add [of "10 * (n div 10)" "n mod 10", where 'a = int] by simp
    ultimately show ?thesis by simp
  qed
qed

lemma itoa_loop_digits: "c \<in> set (itoa_loop False n) \<Longrightarrow> (48 :: nat) \<le> of_char c"
proof (induction "False" n rule: itoa_loop.induct)
  case (1 n)
  show ?case
  proof (cases "n = 0")
    case True
    then show ?thesis using 1(2) by (simp add: itoa_loop.simps [of _ 0])
  next
    case False
    have "c = char_of (48 + n mod 10) \<or> c \<in> set (itoa_loop False (n div 10))"
      using 1(2) False by (subst (asm) itoa_loop.simps) simp
    then show ?thesis using 1(1) [OF False] by (auto simp: of_char_of)
  qed
qed

lemma itoa_loop_nonempty: "n \<noteq> 0 \<Longrightarrow> itoa_loop b n \<noteq> []"
  by (subst itoa_loop.simps) simp

text \<open>
  \<^verbatim>\<open>itoa\<close> prints the decimal representation: reading the digits back gives the number,
  for every 32-bit integer but the least one, whose negation overflows.
\<close>

theorem itoa_roundtrip:
  assumes "sint num \<noteq> - (2 ^ 31)"
  shows "read_dec (itoa num) = sint num"
proof -
  let ?v = "sint num"
  let ?d = "rev (itoa_loop False (nat \<bar>?v\<bar>))"
  have hd: "hd ?d \<noteq> CHR ''-''" if "?v \<noteq> 0"
  proof -
    have "?d \<noteq> []" using that itoa_loop_nonempty by simp
    then have "hd ?d \<in> set (itoa_loop False (nat \<bar>?v\<bar>))" using hd_in_set by fastforce
    from itoa_loop_digits [OF this] show ?thesis by auto
  qed
  consider "?v = 0" | "?v > 0" | "?v < 0" by linarith
  then show ?thesis
  proof cases
    case 1
    then show ?thesis by (simp add: itoa_def read_dec_def)
  next
    case 2
    then have "itoa num = ?d" by (simp add: itoa_def)
    then show ?thesis using 2 hd itoa_loop_value [of "nat \<bar>?v\<bar>"] by (simp add: read_dec_def del: dec_value.simps)
  next
    case 3
    then have "itoa num = CHR ''-'' # ?d" using assms by (simp add: itoa_def)
    then show ?thesis using 3 itoa_loop_value [of "nat \<bar>?v\<bar>"] by (simp add: read_dec_def del: dec_value.simps)
  qed
qed

theorem itoa_roundtrip_witness: "read_dec (itoa (- 40)) = - 40"
proof -
  have "sint (- 40 :: u32) = - 40" by simp
  then show ?thesis using itoa_roundtrip [of "- 40"] by simp
qed

lemma ksnprintf_fold:
  "0 < r \<Longrightarrow> fold ksnprintf_putc cs (out, r) = (out @ map of_char (take (r - 1) cs), max 1 (r - length cs))"
proof (induction cs arbitrary: out r)
  case (Cons c cs)
  show ?case
  proof (cases "r > 1")
    case True
    then obtain m where "r = Suc (Suc m)" by (metis One_nat_def Suc_lessE less_imp_Suc_add)
    then show ?thesis using Cons.IH [of "Suc m" "out @ [of_char c]"] by simp
  next
    case False
    then have "r = 1" using Cons.prems by simp
    then show ?thesis using Cons.IH [of 1 out] by simp
  qed
qed simp

lemma ksnprintf_text:
  "kvprintf format args = Some out \<Longrightarrow> 0 < n \<Longrightarrow>
   ksnprintf n format args = Some (map of_char (take (n - 1) out) @ [0])"
  by (simp add: ksnprintf_def ksnprintf_fold)

text \<open>
  \<^verbatim>\<open>ksnprintf\<close> never overruns its buffer: whenever the formatting is defined it stores at
  most \<open>n\<close> bytes, the first \<open>n - 1\<close> of the formatted text followed by a zero byte.
\<close>

theorem ksnprintf_bounded:
  assumes "kvprintf format args = Some out" "0 < n"
  shows "ksnprintf n format args = Some (map of_char (take (n - 1) out) @ [0]) \<and>
    length (map of_char (take (n - 1) out) @ [0 :: u8]) \<le> n"
  using assms by (simp add: ksnprintf_text)

theorem ksnprintf_bounded_witness:
  "ksnprintf 4 ''pid %d'' [Arg32 7] = Some (map of_char ''pid'' @ [0])"
proof -
  have "itoa 7 = ''7''" by (simp add: itoa_def itoa_loop.simps char_of_eq_iff take_bit_eq_mod)
  then have "kvprintf ''pid %d'' [Arg32 7] = Some ''pid 7''"
    by (simp add: kvprintf.simps(2) is_digit_def convert_def)
  then show ?thesis using ksnprintf_bounded [of "''pid %d''" "[Arg32 7]" "''pid 7''" 4] by simp
qed

end
