(* ===== verification/Khazar_Vfs.thy ===== *)
theory Khazar_Vfs
  imports Khazar_Terminal
begin

text \<open>
  The virtual file system, \<^verbatim>\<open>kernel/fs/vfs/vfs.c\<close>, and the device file system,
  \<^verbatim>\<open>kernel/fs/devfs/devfs.c\<close>. Nodes are objects of a store indexed by address. A function
  pointer of a node is a tag that names the file system whose function it holds, \<open>FN_NULL\<close>
  for a null pointer; the functions behind the tags are a record \<open>fs_ops\<close>, an argument of
  the dispatching operations. \<open>'w\<close> is the state the file systems keep.
\<close>

subsection \<open>Nodes\<close>

definition VFS_FILE :: u32 where "VFS_FILE = 1"
definition VFS_DIRECTORY :: u32 where "VFS_DIRECTORY = 2"
definition VFS_CHAR_DEVICE :: u32 where "VFS_CHAR_DEVICE = 3"
definition VFS_BLOCK_DEVICE :: u32 where "VFS_BLOCK_DEVICE = 4"

datatype vfs_fn = FN_NULL | FN_FAT32 | FN_DEVFS | FN_NETINFO | FN_AHCI

record vfs_node_t =
  vname :: string
  vmask :: u32
  vuid :: u32
  vgid :: u32
  vflags :: u32
  vinode :: u32
  vlength :: u32
  vimpl :: u32
  fread :: vfs_fn
  fwrite :: vfs_fn
  fopen :: vfs_fn
  fclose :: vfs_fn
  freaddir :: vfs_fn
  ffinddir :: vfs_fn
  fcreate :: vfs_fn
  funlink :: vfs_fn
  fmkdir :: vfs_fn
  vptr :: addr
  device_data :: addr

definition zero_node :: vfs_node_t where
  "zero_node = \<lparr>vname = [], vmask = 0, vuid = 0, vgid = 0, vflags = 0, vinode = 0, vlength = 0, vimpl = 0,
     fread = FN_NULL, fwrite = FN_NULL, fopen = FN_NULL, fclose = FN_NULL, freaddir = FN_NULL,
     ffinddir = FN_NULL, fcreate = FN_NULL, funlink = FN_NULL, fmkdir = FN_NULL, vptr = 0, device_data = 0\<rparr>"

text \<open>An entry of \<^verbatim>\<open>vfs_mounts\<close> is its path and root; an empty path marks a free entry.\<close>

definition MAX_MOUNTS :: nat where "MAX_MOUNTS = 8"

record 'w vfs_state =
  nodes :: "addr \<Rightarrow> vfs_node_t"
  vfs_root :: addr
  vfs_mounts :: "(string \<times> addr) list"
  world :: 'w

record 'w fs_ops =
  op_read :: "vfs_fn \<Rightarrow> addr \<Rightarrow> u32 \<Rightarrow> u32 \<Rightarrow> 'w vfs_state \<Rightarrow> u8 list \<times> 'w vfs_state"
  op_write :: "vfs_fn \<Rightarrow> addr \<Rightarrow> u32 \<Rightarrow> u8 list \<Rightarrow> 'w vfs_state \<Rightarrow> u32 \<times> 'w vfs_state"
  op_open :: "vfs_fn \<Rightarrow> addr \<Rightarrow> 'w vfs_state \<Rightarrow> 'w vfs_state"
  op_close :: "vfs_fn \<Rightarrow> addr \<Rightarrow> 'w vfs_state \<Rightarrow> 'w vfs_state"
  op_readdir :: "vfs_fn \<Rightarrow> addr \<Rightarrow> u32 \<Rightarrow> 'w vfs_state \<Rightarrow> addr \<times> 'w vfs_state"
  op_finddir :: "vfs_fn \<Rightarrow> addr \<Rightarrow> string \<Rightarrow> 'w vfs_state \<Rightarrow> addr \<times> 'w vfs_state"
  op_create :: "vfs_fn \<Rightarrow> addr \<Rightarrow> string \<Rightarrow> 'w vfs_state \<Rightarrow> addr \<times> 'w vfs_state"
  op_unlink :: "vfs_fn \<Rightarrow> addr \<Rightarrow> string \<Rightarrow> 'w vfs_state \<Rightarrow> bool \<times> 'w vfs_state"
  op_mkdir :: "vfs_fn \<Rightarrow> addr \<Rightarrow> string \<Rightarrow> 'w vfs_state \<Rightarrow> addr \<times> 'w vfs_state"

subsection \<open>Dispatch\<close>

text \<open>\<^verbatim>\<open>vfs_read\<close> returns the bytes stored in the buffer; the C result is their number.\<close>

definition vfs_read :: "'w fs_ops \<Rightarrow> addr \<Rightarrow> u32 \<Rightarrow> u32 \<Rightarrow> 'w vfs_state \<Rightarrow> u8 list \<times> 'w vfs_state" where
  "vfs_read fs node offset sz s =
     (if node = 0 then ([], s)
      else if fread (nodes s node) \<noteq> FN_NULL then op_read fs (fread (nodes s node)) node offset sz s
      else ([], s))"

definition vfs_write :: "'w fs_ops \<Rightarrow> addr \<Rightarrow> u32 \<Rightarrow> u8 list \<Rightarrow> 'w vfs_state \<Rightarrow> u32 \<times> 'w vfs_state" where
  "vfs_write fs node offset buf s =
     (if node = 0 then (0, s)
      else if fwrite (nodes s node) \<noteq> FN_NULL then op_write fs (fwrite (nodes s node)) node offset buf s
      else (0, s))"

definition vfs_open :: "'w fs_ops \<Rightarrow> addr \<Rightarrow> 'w vfs_state \<Rightarrow> 'w vfs_state" where
  "vfs_open fs node s =
     (if node = 0 then s
      else if fopen (nodes s node) \<noteq> FN_NULL then op_open fs (fopen (nodes s node)) node s else s)"

definition vfs_close :: "'w fs_ops \<Rightarrow> addr \<Rightarrow> 'w vfs_state \<Rightarrow> 'w vfs_state" where
  "vfs_close fs node s =
     (if node = 0 then s
      else if fclose (nodes s node) \<noteq> FN_NULL then op_close fs (fclose (nodes s node)) node s else s)"

definition is_dir :: "vfs_node_t \<Rightarrow> bool" where
  "is_dir n \<longleftrightarrow> vflags n AND 7 = VFS_DIRECTORY"

definition vfs_readdir :: "'w fs_ops \<Rightarrow> addr \<Rightarrow> u32 \<Rightarrow> 'w vfs_state \<Rightarrow> addr \<times> 'w vfs_state" where
  "vfs_readdir fs node index s =
     (if node = 0 then (0, s)
      else if is_dir (nodes s node) \<and> freaddir (nodes s node) \<noteq> FN_NULL
      then op_readdir fs (freaddir (nodes s node)) node index s else (0, s))"

definition vfs_finddir :: "'w fs_ops \<Rightarrow> addr \<Rightarrow> string \<Rightarrow> 'w vfs_state \<Rightarrow> addr \<times> 'w vfs_state" where
  "vfs_finddir fs node name s =
     (if node = 0 then (0, s)
      else if is_dir (nodes s node) \<and> ffinddir (nodes s node) \<noteq> FN_NULL
      then op_finddir fs (ffinddir (nodes s node)) node name s else (0, s))"

definition vfs_create :: "'w fs_ops \<Rightarrow> addr \<Rightarrow> string \<Rightarrow> 'w vfs_state \<Rightarrow> addr \<times> 'w vfs_state" where
  "vfs_create fs node name s =
     (if node = 0 then (0, s)
      else if is_dir (nodes s node) \<and> fcreate (nodes s node) \<noteq> FN_NULL
      then op_create fs (fcreate (nodes s node)) node name s else (0, s))"

definition vfs_unlink :: "'w fs_ops \<Rightarrow> addr \<Rightarrow> string \<Rightarrow> 'w vfs_state \<Rightarrow> bool \<times> 'w vfs_state" where
  "vfs_unlink fs node name s =
     (if node = 0 then (False, s)
      else if is_dir (nodes s node) \<and> funlink (nodes s node) \<noteq> FN_NULL
      then op_unlink fs (funlink (nodes s node)) node name s else (False, s))"

definition vfs_mkdir :: "'w fs_ops \<Rightarrow> addr \<Rightarrow> string \<Rightarrow> 'w vfs_state \<Rightarrow> addr \<times> 'w vfs_state" where
  "vfs_mkdir fs node name s =
     (if node = 0 then (0, s)
      else if is_dir (nodes s node) \<and> fmkdir (nodes s node) \<noteq> FN_NULL
      then op_mkdir fs (fmkdir (nodes s node)) node name s else (0, s))"

subsection \<open>Paths and mounts\<close>

definition vfs_check_mount :: "addr \<Rightarrow> 'w vfs_state \<Rightarrow> addr" where
  "vfs_check_mount node s =
     (if node = 0 then 0 else if vptr (nodes s node) \<noteq> 0 then vptr (nodes s node) else node)"

text \<open>The length of the first component, at most 127 characters.\<close>

definition component_length :: "string \<Rightarrow> nat" where
  "component_length path = min 127 (length (takeWhile (\<lambda>c. c \<noteq> CHR ''/'') path))"

function vfs_find_path :: "'w fs_ops \<Rightarrow> addr \<Rightarrow> string \<Rightarrow> 'w vfs_state \<Rightarrow> addr \<times> 'w vfs_state" where
  "vfs_find_path fs root path s =
     (if path = [] then (vfs_check_mount root s, s)
      else if hd path = CHR ''/'' \<and> tl path = [] then (vfs_check_mount (vfs_root s) s, s)
      else
        let root = (if hd path = CHR ''/'' then vfs_root s else root);
            path' = (if hd path = CHR ''/'' then tl path else path)
        in if root = 0 then (0, s)
           else
             let i = component_length path';
                 (nxt, s') = vfs_finddir fs (vfs_check_mount root s) (take i path') s
             in if nxt = 0 then (0, s')
                else if i < length path' \<and> path' ! i = CHR ''/'' then vfs_find_path fs nxt (drop (i + 1) path') s'
                else (vfs_check_mount nxt s', s'))"
  by pat_completeness auto
termination
  by (relation "measure (\<lambda>(_, _, p, _). length p)") auto

declare vfs_find_path.simps [simp del]

definition vfs_mount :: "'w fs_ops \<Rightarrow> string \<Rightarrow> addr \<Rightarrow> 'w vfs_state \<Rightarrow> bool \<times> 'w vfs_state" where
  "vfs_mount fs path root_node s =
     (case find (\<lambda>i. fst (vfs_mounts s ! i) = []) [0..<MAX_MOUNTS] of
        None \<Rightarrow> (False, s)
      | Some i \<Rightarrow>
          let s1 = s\<lparr>vfs_mounts := (vfs_mounts s)[i := (take 127 path, root_node)]\<rparr>;
              (target, s2) = vfs_find_path fs (vfs_root s1) path s1
          in (True, if target \<noteq> 0
                    then s2\<lparr>nodes := (nodes s2)(target := (nodes s2 target)\<lparr>vptr := root_node\<rparr>)\<rparr> else s2))"

subsection \<open>The device file system\<close>

definition MAX_DEVICES :: nat where "MAX_DEVICES = 32"

definition devfs_readdir :: "addr list \<Rightarrow> u32 \<Rightarrow> addr" where
  "devfs_readdir devices index = (if index \<ge> of_nat (length devices) then 0 else devices ! unat index)"

text \<open>\<^verbatim>\<open>strncmp(a, b, 127) == 0\<close> on C strings.\<close>

definition devfs_finddir :: "addr list \<Rightarrow> (addr \<Rightarrow> vfs_node_t) \<Rightarrow> string \<Rightarrow> addr" where
  "devfs_finddir devices ns name =
     (case find (\<lambda>d. take 127 (vname (ns d)) = take 127 name) devices of Some d \<Rightarrow> d | None \<Rightarrow> 0)"

definition devfs_register_device ::
    "string \<Rightarrow> addr \<Rightarrow> addr list \<Rightarrow> (addr \<Rightarrow> vfs_node_t) \<Rightarrow> addr list \<times> (addr \<Rightarrow> vfs_node_t)" where
  "devfs_register_device name node devices ns =
     (if length devices \<ge> MAX_DEVICES then (devices, ns)
      else (devices @ [node], ns(node := (ns node)\<lparr>vname := take 127 name\<rparr>)))"

text \<open>
  \<^verbatim>\<open>devfs_init\<close>: \<open>root\<close> and \<open>netinfo\<close> are the two nodes the heap returned (NULL if it is full);
  the first allocation is not checked.
\<close>

definition devfs_init ::
    "'w fs_ops \<Rightarrow> addr \<Rightarrow> addr \<Rightarrow> addr list \<Rightarrow> 'w vfs_state \<Rightarrow> addr list \<times> 'w vfs_state" where
  "devfs_init fs root netinfo devices s =
     (let s = s\<lparr>nodes := (nodes s)(root := zero_node\<lparr>vname := ''dev'', vflags := VFS_DIRECTORY,
                  freaddir := FN_DEVFS, ffinddir := FN_DEVFS\<rparr>)\<rparr>;
          (dev_dir, s) = vfs_find_path fs (vfs_root s) ''/dev'' s;
          (dev_dir, s) = (if dev_dir = 0 then vfs_mkdir fs (vfs_root s) ''dev'' s else (dev_dir, s));
          s = (if dev_dir \<noteq> 0 then snd (vfs_mount fs ''/dev'' root s) else s)
      in if netinfo \<noteq> 0
         then let s = s\<lparr>nodes := (nodes s)(netinfo := zero_node\<lparr>vname := ''netinfo'',
                    vflags := VFS_CHAR_DEVICE, fread := FN_NETINFO\<rparr>)\<rparr>;
                  (devices, ns) = devfs_register_device ''netinfo'' netinfo devices (nodes s)
              in (devices, s\<lparr>nodes := ns\<rparr>)
         else (devices, s))"

text \<open>
  \<^verbatim>\<open>netinfo_read\<close>: \<open>info\<close> is the vendor id and MAC address of the ethernet device, \<open>None\<close>
  without one. The text is formatted into a 128-byte buffer; at most \<open>sz\<close> bytes of it are
  returned, and only at offset 0.
\<close>

definition netinfo_name :: "u16 \<Rightarrow> string" where
  "netinfo_name vendor =
     (if vendor = 0x10EC then ''Realtek RTL8136'' else if vendor = 0x8086 then ''Intel E1000'' else ''Unknown'')"

definition netinfo_format :: string where
  "netinfo_format = ''%s (%02X:%02X:%02X:%02X:%02X:%02X)''"

definition netinfo_text :: "(u16 \<times> u8 list) option \<Rightarrow> u8 list option" where
  "netinfo_text info =
     (case info of
        None \<Rightarrow> Some (map of_char ''None'')
      | Some (vendor, mac) \<Rightarrow>
          map_option (takeWhile (\<lambda>b. b \<noteq> 0))
            (ksnprintf 128 netinfo_format
               (ArgStr (Some (netinfo_name vendor)) # map (\<lambda>i. Arg32 (ucast (mac ! i))) [0..<6])))"

definition netinfo_read :: "(u16 \<times> u8 list) option \<Rightarrow> u32 \<Rightarrow> u32 \<Rightarrow> u8 list option" where
  "netinfo_read info offset sz =
     (if offset > 0 then Some [] else map_option (take (unat sz)) (netinfo_text info))"

subsection \<open>Path resolution\<close>

text \<open>The specification: each component is looked up in the directory found so far.\<close>

fun walk :: "'w fs_ops \<Rightarrow> addr \<Rightarrow> string list \<Rightarrow> 'w vfs_state \<Rightarrow> addr \<times> 'w vfs_state" where
  "walk fs node [] s = (vfs_check_mount node s, s)"
| "walk fs node (c # cs) s =
     (case vfs_finddir fs (vfs_check_mount node s) c s of
        (n, s') \<Rightarrow> if n = 0 then (0, s') else walk fs n cs s')"

fun join_path :: "string list \<Rightarrow> string" where
  "join_path [] = []"
| "join_path [c] = c"
| "join_path (c # cs) = c @ CHR ''/'' # join_path cs"

definition component_ok :: "string \<Rightarrow> bool" where
  "component_ok c \<longleftrightarrow> c \<noteq> [] \<and> CHR ''/'' \<notin> set c \<and> length c \<le> 127"

lemma component_length_app:
  assumes "component_ok c" "r = [] \<or> hd r = CHR ''/''"
  shows "component_length (c @ r) = length c"
proof -
  have "takeWhile (\<lambda>x. x \<noteq> CHR ''/'') (c @ r) = c"
    using assms by (cases r) (auto simp: component_ok_def takeWhile_append takeWhile_eq_all_conv)
  then show ?thesis using assms by (simp add: component_length_def component_ok_def)
qed

lemma component_ok_hd: "component_ok c \<Longrightarrow> c @ r \<noteq> [] \<and> hd (c @ r) \<noteq> CHR ''/''"
  by (cases c) (auto simp: component_ok_def)

lemma join_path_first:
  assumes "component_ok c"
  shows "join_path (c # cs) = c @ (if cs = [] then [] else CHR ''/'' # join_path cs)"
  by (cases cs) auto

lemma find_path_relative:
  assumes "list_all component_ok cs" "root \<noteq> 0" "cs \<noteq> []"
  shows "vfs_find_path fs root (join_path cs) s = walk fs root cs s"
  using assms
proof (induction cs arbitrary: root s)
  case (Cons c cs)
  let ?r = "if cs = [] then [] else CHR ''/'' # join_path cs"
  have c: "component_ok c" and p: "join_path (c # cs) = c @ ?r" using Cons.prems join_path_first by auto
  have len: "component_length (c @ ?r) = length c" by (rule component_length_app [OF c]) simp
  have hd: "c @ ?r \<noteq> []" "hd (c @ ?r) \<noteq> CHR ''/''" using component_ok_hd [OF c] by blast+
  show ?case
  proof (cases "cs = []")
    case True
    then show ?thesis using p len hd Cons.prems
      by (subst vfs_find_path.simps) (simp add: Let_def split: prod.splits)
  next
    case False
    have "walk fs root (c # cs) s =
      (case vfs_finddir fs (vfs_check_mount root s) c s of
        (n, s') \<Rightarrow> if n = 0 then (0, s') else vfs_find_path fs n (join_path cs) s')"
      using Cons.IH Cons.prems False by (simp split: prod.splits)
    then show ?thesis using p len hd Cons.prems False
      by (subst vfs_find_path.simps) (simp add: Let_def nth_append split: prod.splits)
  qed
qed simp

lemma absolute_path:
  assumes "list_all component_ok cs" "vfs_root s \<noteq> 0"
  shows "vfs_find_path fs root (CHR ''/'' # join_path cs) s = walk fs (vfs_root s) cs s"
proof (cases cs)
  case Nil
  then show ?thesis by (subst vfs_find_path.simps) simp
next
  case (Cons c cs')
  have ok: "component_ok c" using assms(1) Cons by simp
  have hd: "join_path cs \<noteq> []" "hd (join_path cs) \<noteq> CHR ''/''"
    using component_ok_hd [OF ok] join_path_first [OF ok] Cons by metis+
  have "vfs_find_path fs root (CHR ''/'' # join_path cs) s = vfs_find_path fs (vfs_root s) (join_path cs) s"
    using hd by (subst (1 2) vfs_find_path.simps) simp
  then show ?thesis using find_path_relative [OF assms] Cons by (simp del: walk.simps)
qed

text \<open>A slash at the start of what is left of the path begins at the root again.\<close>

lemma find_path_any_root: "vfs_find_path fs r1 (CHR ''/'' # p) s = vfs_find_path fs r2 (CHR ''/'' # p) s"
  by (subst (1 2) vfs_find_path.simps) (simp add: Let_def)

lemma find_path_restart:
  assumes "list_all component_ok cs" "root \<noteq> 0" "cs \<noteq> []"
  shows "vfs_find_path fs root (join_path cs @ ''//'' @ r) s =
    (case walk fs root cs s of (n, s') \<Rightarrow> if n = 0 then (0, s') else vfs_find_path fs 0 (CHR ''/'' # r) s')"
  using assms
proof (induction cs arbitrary: root s)
  case (Cons c cs)
  let ?r = "if cs = [] then ''//'' @ r else CHR ''/'' # join_path cs @ ''//'' @ r"
  have c: "component_ok c" and p: "join_path (c # cs) @ ''//'' @ r = c @ ?r" using Cons.prems join_path_first by auto
  have len: "component_length (c @ ?r) = length c" by (rule component_length_app [OF c]) simp
  have hd: "c @ ?r \<noteq> []" "hd (c @ ?r) \<noteq> CHR ''/''" using component_ok_hd [OF c] by blast+
  have ne: "vfs_check_mount n s' = 0 \<longleftrightarrow> n = 0" for n s' by (simp add: vfs_check_mount_def)
  show ?case
  proof (cases "cs = []")
    case True
    have "vfs_find_path fs n (CHR ''/'' # r) s' = vfs_find_path fs 0 (CHR ''/'' # r) s'" for n s' by (rule find_path_any_root)
    then show ?thesis unfolding p using len hd Cons.prems True
      by (subst vfs_find_path.simps) (simp add: Let_def nth_append ne split: prod.splits)
  next
    case False
    then show ?thesis unfolding p using len hd Cons.prems Cons.IH
      by (subst vfs_find_path.simps) (simp add: Let_def nth_append split: prod.splits)
  qed
qed simp

text \<open>
  C39. Path resolution: an absolute path made of non-empty components of at most 127
  characters, separated by single slashes, resolves to the node reached from the root of the file
  system by looking up one component after the other, following the mount pointer of every
  directory on the way; the lookup stops with NULL at the first missing component. A double slash
  is not one separator: when the components before it exist, the rest of the path is resolved from
  the root again.
\<close>

theorem vfs_find_path_walk:
  assumes "list_all component_ok cs" "vfs_root s \<noteq> 0"
  shows "vfs_find_path fs root (CHR ''/'' # join_path cs) s = walk fs (vfs_root s) cs s \<and>
    (cs \<noteq> [] \<longrightarrow> vfs_find_path fs root (CHR ''/'' # join_path cs @ ''//'' @ r) s =
       (case walk fs (vfs_root s) cs s of (n, s') \<Rightarrow> if n = 0 then (0, s') else vfs_find_path fs 0 (CHR ''/'' # r) s'))"
proof (intro conjI impI)
  show "vfs_find_path fs root (CHR ''/'' # join_path cs) s = walk fs (vfs_root s) cs s" using assms by (rule absolute_path)
  assume ne: "cs \<noteq> []"
  then obtain c q where c: "component_ok c" "join_path cs = c @ q" using assms(1) join_path_first by (cases cs) auto
  have "join_path cs @ ''//'' @ r \<noteq> [] \<and> hd (join_path cs @ ''//'' @ r) \<noteq> CHR ''/''"
    using component_ok_hd [OF c(1), of "q @ ''//'' @ r"] c(2) by simp
  then show "vfs_find_path fs root (CHR ''/'' # join_path cs @ ''//'' @ r) s =
      (case walk fs (vfs_root s) cs s of (n, s') \<Rightarrow> if n = 0 then (0, s') else vfs_find_path fs 0 (CHR ''/'' # r) s')"
    unfolding find_path_restart [OF assms ne, symmetric] by (subst (1 2) vfs_find_path.simps) simp
qed

text \<open>
  A host file system whose directories all contain \<^verbatim>\<open>dev\<close>; like the FAT driver, each lookup
  returns a new node. The state is the address of the next one.
\<close>

definition host_finddir :: "vfs_fn \<Rightarrow> addr \<Rightarrow> string \<Rightarrow> addr vfs_state \<Rightarrow> addr \<times> addr vfs_state" where
  "host_finddir fn d name s =
     (if name \<noteq> ''dev'' then (0, s)
      else (world s, s\<lparr>nodes := (nodes s)(world s := zero_node\<lparr>vname := name, vflags := VFS_DIRECTORY,
              ffinddir := FN_FAT32\<rparr>), world := world s + 16\<rparr>))"

definition host_fs :: "addr fs_ops" where
  "host_fs = \<lparr>op_read = (\<lambda>_ _ _ _ s. ([], s)), op_write = (\<lambda>_ _ _ _ s. (0, s)), op_open = (\<lambda>_ _ s. s),
     op_close = (\<lambda>_ _ s. s), op_readdir = (\<lambda>_ _ _ s. (0, s)), op_finddir = host_finddir,
     op_create = (\<lambda>_ _ _ s. (0, s)), op_unlink = (\<lambda>_ _ _ s. (False, s)), op_mkdir = (\<lambda>_ _ _ s. (0, s))\<rparr>"

definition host_state :: "addr vfs_state" where
  "host_state = \<lparr>nodes = (\<lambda>_. zero_node)(16 := zero_node\<lparr>vflags := VFS_DIRECTORY, ffinddir := FN_FAT32\<rparr>),
     vfs_root = 16, vfs_mounts = replicate 8 ([], 0), world = 64\<rparr>"

theorem vfs_find_path_walk_witness:
  "fst (vfs_find_path host_fs 0 ''/dev/dev'' host_state) = 80"
proof -
  have ok: "list_all component_ok [''dev'', ''dev'']" by (simp add: component_ok_def)
  have p: "''/dev/dev'' = CHR ''/'' # join_path [''dev'', ''dev'']" by simp
  have "vfs_root host_state \<noteq> 0" by (simp add: host_state_def)
  from vfs_find_path_walk [OF ok this, of host_fs 0, THEN conjunct1] show ?thesis
    unfolding p [symmetric]
    by (simp add: host_state_def host_fs_def host_finddir_def vfs_finddir_def vfs_check_mount_def is_dir_def
        zero_node_def VFS_DIRECTORY_def)
qed

text \<open>
  A mount is not followed: when the directories of the host file system return a new,
  unmounted node from every lookup, looking the mount point up after \<^verbatim>\<open>vfs_mount\<close> still gives
  the host's own node; the root of the mounted file system is reached from no path below the
  root directory.
\<close>

theorem vfs_mount_not_followed:
  assumes fresh: "\<And>fn d name t n t'. op_finddir fs fn d name t = (n, t') \<Longrightarrow> n \<noteq> 0 \<Longrightarrow> vptr (nodes t' n) = 0"
    and mnt: "vfs_mount fs (CHR ''/'' # name) root_node s = (ok, s1)" "vfs_root s1 \<noteq> 0"
    and "component_ok name"
  shows "fst (vfs_find_path fs (vfs_root s1) (CHR ''/'' # name) s1) =
    fst (vfs_finddir fs (vfs_check_mount (vfs_root s1) s1) name s1)"
proof -
  obtain n s2 where f: "vfs_finddir fs (vfs_check_mount (vfs_root s1) s1) name s1 = (n, s2)" by fastforce
  have "vfs_find_path fs (vfs_root s1) (CHR ''/'' # join_path [name]) s1 = walk fs (vfs_root s1) [name] s1"
    by (rule absolute_path) (use assms(4) mnt(2) in simp_all)
  moreover have "vptr (nodes s2 n) = 0" if "n \<noteq> 0"
    using f that fresh by (auto simp: vfs_finddir_def split: if_splits)
  ultimately show ?thesis using f by (simp add: vfs_check_mount_def)
qed

theorem vfs_mount_not_followed_witness:
  "vfs_root (snd (vfs_mount host_fs ''/dev'' 4096 host_state)) = 16 \<and>
   fst (vfs_find_path host_fs 16 ''/dev'' (snd (vfs_mount host_fs ''/dev'' 4096 host_state))) = 80"
proof -
  have ok: "component_ok ''dev''" by (simp add: component_ok_def)
  have fresh: "vptr (nodes t' n) = 0" if "op_finddir host_fs fn d name t = (n, t')" "n \<noteq> 0" for fn d name t n t'
    using that by (auto simp: host_fs_def host_finddir_def zero_node_def split: if_splits)
  have "vfs_find_path host_fs 16 ''/dev'' t = walk host_fs 16 [''dev''] t" if "vfs_root t = 16" for t
    using absolute_path [of "[''dev'']" t host_fs 16] ok that by simp
  moreover obtain okr s1 where m: "vfs_mount host_fs ''/dev'' 4096 host_state = (okr, s1)" by fastforce
  ultimately have s1: "vfs_root s1 = 16 \<and> vptr (nodes s1 16) = 0 \<and> is_dir (nodes s1 16) \<and> world s1 = 80 \<and>
      ffinddir (nodes s1 16) = FN_FAT32"
    by (simp add: vfs_mount_def host_state_def host_fs_def host_finddir_def vfs_finddir_def vfs_check_mount_def
        is_dir_def zero_node_def VFS_DIRECTORY_def MAX_MOUNTS_def upt_rec split: if_splits) (auto simp: is_dir_def)
  have "fst (vfs_find_path host_fs (vfs_root s1) ''/dev'' s1) =
    fst (vfs_finddir host_fs (vfs_check_mount (vfs_root s1) s1) ''dev'' s1)"
    by (rule vfs_mount_not_followed [OF fresh m _ ok]) (use s1 in simp_all)
  then show ?thesis using s1 m
    by (simp add: vfs_finddir_def vfs_check_mount_def host_fs_def host_finddir_def)
qed

subsection \<open>Devices\<close>

text \<open>
  Registering a device under a new name of at most 127 characters makes it the last entry
  of the directory and the result of looking its name up, and leaves every other lookup as it
  was; a device beyond the 32nd is dropped.
\<close>

theorem devfs_register_find:
  assumes "node \<notin> set devices" "length name \<le> 127"
    and "\<forall>d \<in> set devices. take 127 (vname (ns d)) \<noteq> name"
    and "devfs_register_device name node devices ns = (devices', ns')"
  shows "if length devices < MAX_DEVICES
    then devfs_finddir devices' ns' name = node \<and>
      devfs_readdir devices' (of_nat (length devices)) = node \<and>
      (\<forall>other. take 127 other \<noteq> name \<longrightarrow> devfs_finddir devices' ns' other = devfs_finddir devices ns other)
    else devices' = devices \<and> ns' = ns"
proof (cases "length devices < MAX_DEVICES")
  case True
  then have d: "devices' = devices @ [node]" "ns' = ns(node := (ns node)\<lparr>vname := name\<rparr>)"
    using assms(2,4) by (auto simp: devfs_register_device_def)
  have old: "find (\<lambda>d. take 127 (vname (ns' d)) = t) devices = find (\<lambda>d. take 127 (vname (ns d)) = t) devices" for t
    using assms(1) d(2) by (intro find_cong) auto
  have none: "find (\<lambda>d. take 127 (vname (ns d)) = name) devices = None"
    using assms(3) by (auto simp: find_None_iff)
  have "unat (of_nat (length devices) :: u32) = length devices"
    using True by (simp add: unat_of_nat MAX_DEVICES_def)
  moreover have "(of_nat (length devices) :: u32) < of_nat (length devices')"
    using True d unat_of_nat [of "Suc (length devices)", where 'a = 32]
    by (simp add: word_less_nat_alt unat_of_nat MAX_DEVICES_def)
  ultimately show ?thesis using True d old none assms(2)
    by (auto simp: devfs_finddir_def devfs_readdir_def find_append not_le split: option.splits)
next
  case False
  then show ?thesis using assms(4) by (simp add: devfs_register_device_def)
qed

theorem devfs_register_find_witness:
  "devfs_finddir (fst (devfs_register_device ''netinfo'' 64 [16] (\<lambda>_. zero_node)))
     (snd (devfs_register_device ''netinfo'' 64 [16] (\<lambda>_. zero_node))) ''netinfo'' = 64"
  using devfs_register_find [of 64 "[16]" "''netinfo''" "\<lambda>_. zero_node"
    "fst (devfs_register_device ''netinfo'' 64 [16] (\<lambda>_. zero_node))"
    "snd (devfs_register_device ''netinfo'' 64 [16] (\<lambda>_. zero_node))"]
  by (simp add: zero_node_def MAX_DEVICES_def)

text \<open>
  The network information file: with an adapter its text is the adapter's name followed
  by \<^verbatim>\<open>(%X:%X:%X:%X:%X:%X)\<close>, whatever the MAC address is, because the formatting engine has no
  upper case hexadecimal conversion; a read returns at most the requested number of bytes and
  nothing beyond offset 0.
\<close>

theorem netinfo_read_text:
  "netinfo_read (Some (vendor, mac)) offset sz =
     Some (if offset = 0 then take (unat sz) (map of_char (netinfo_name vendor @ '' (%X:%X:%X:%X:%X:%X)'')) else [])"
proof -
  let ?args = "ArgStr (Some (netinfo_name vendor)) # map (\<lambda>i. Arg32 (ucast (mac ! i))) [0..<6]"
  have "kvprintf netinfo_format ?args = Some (netinfo_name vendor @ '' (%X:%X:%X:%X:%X:%X)'')"
    by (simp add: netinfo_format_def kvprintf.simps(2) is_digit_def convert_def)
  moreover have "length (netinfo_name vendor) \<le> 15" "0 \<notin> (of_char :: char \<Rightarrow> u8) ` set (netinfo_name vendor)"
    by (auto simp: netinfo_name_def)
  ultimately have "netinfo_text (Some (vendor, mac)) = Some (map of_char (netinfo_name vendor @ '' (%X:%X:%X:%X:%X:%X)''))"
    by (simp add: netinfo_text_def ksnprintf_text takeWhile_append image_iff)
  then show ?thesis by (simp add: netinfo_read_def word_neq_0_conv)
qed

end
