(* ===== verification/Khazar_String.thy ===== *)
theory Khazar_String
  imports Khazar_Prelude
begin

text \<open>
  The kernel's memory and string routines, \<^verbatim>\<open>kernel/include/libk/string.h\<close>, on a byte
  memory \<open>addr \<Rightarrow> u8\<close>. \<^verbatim>\<open>memset\<close> and \<^verbatim>\<open>memcpy\<close> work on 32-bit words first; the theorems show
  that they agree with the byte-wise reference. Loops that end only at a terminating zero
  byte are partial.
\<close>

type_synonym mem = "addr \<Rightarrow> u8"

subsection \<open>Little-endian words in a byte memory\<close>

definition byte :: "u32 \<Rightarrow> nat \<Rightarrow> u8" where "byte w j = ucast (drop_bit (8 * j) w)"

definition join32 :: "u8 \<Rightarrow> u8 \<Rightarrow> u8 \<Rightarrow> u8 \<Rightarrow> u32" where
  "join32 a b c d = ucast a OR push_bit 8 (ucast b) OR push_bit 16 (ucast c) OR push_bit 24 (ucast d)"

definition store32 :: "addr \<Rightarrow> u32 \<Rightarrow> mem \<Rightarrow> mem" where
  "store32 a w m = m(a := byte w 0, a + 1 := byte w 1, a + 2 := byte w 2, a + 3 := byte w 3)"

definition load32 :: "addr \<Rightarrow> mem \<Rightarrow> u32" where
  "load32 a m = join32 (m a) (m (a + 1)) (m (a + 2)) (m (a + 3))"

subsection \<open>Operations\<close>

partial_function (option) strlen_loop :: "mem \<Rightarrow> addr \<Rightarrow> u32 \<Rightarrow> u32 option" where
  "strlen_loop m str len = (if m (str + len) \<noteq> 0 then strlen_loop m str (len + 1) else Some len)"

definition strlen :: "mem \<Rightarrow> addr \<Rightarrow> u32 option" where "strlen m str = strlen_loop m str 0"

definition memset :: "addr \<Rightarrow> u32 \<Rightarrow> u32 \<Rightarrow> mem \<Rightarrow> mem" where
  "memset dest val count m =
     (let v = ucast val;
          v32 = join32 v v v v;
          dwords = unat (count div 4);
          m1 = fold (\<lambda>i. store32 (dest + 4 * of_nat i) v32) [0..<dwords] m
      in fold (\<lambda>i m. m(dest + of_nat i := v)) [dwords * 4..<unat count] m1)"

definition memcpy :: "addr \<Rightarrow> addr \<Rightarrow> u32 \<Rightarrow> mem \<Rightarrow> mem" where
  "memcpy dest src count m =
     (let dwords = unat (count div 4);
          m1 = fold (\<lambda>i m. store32 (dest + 4 * of_nat i) (load32 (src + 4 * of_nat i) m) m) [0..<dwords] m
      in fold (\<lambda>i m. m(dest + of_nat i := m (src + of_nat i))) [dwords * 4..<unat count] m1)"

definition memmove :: "addr \<Rightarrow> addr \<Rightarrow> u32 \<Rightarrow> mem \<Rightarrow> mem" where
  "memmove dest src count m =
     (if dest < src
      then fold (\<lambda>i m. m(dest + of_nat i := m (src + of_nat i))) [0..<unat count] m
      else fold (\<lambda>i m. m(dest + of_nat i := m (src + of_nat i))) (rev [0..<unat count]) m)"

text \<open>The results of the comparisons are C \<^verbatim>\<open>int\<close>s: differences of two unsigned bytes.\<close>

definition byte_diff :: "u8 \<Rightarrow> u8 \<Rightarrow> u32" where "byte_diff a b = ucast a - ucast b"

partial_function (option) strcmp :: "mem \<Rightarrow> addr \<Rightarrow> addr \<Rightarrow> u32 option" where
  "strcmp m s1 s2 =
     (if m s1 \<noteq> 0 \<and> m s1 = m s2 then strcmp m (s1 + 1) (s2 + 1) else Some (byte_diff (m s1) (m s2)))"

fun strncmp_loop :: "mem \<Rightarrow> addr \<Rightarrow> addr \<Rightarrow> nat \<Rightarrow> u32" where
  "strncmp_loop m s1 s2 0 = 0"
| "strncmp_loop m s1 s2 (Suc n) =
     (if m s1 \<noteq> 0 \<and> m s1 = m s2 then strncmp_loop m (s1 + 1) (s2 + 1) n else byte_diff (m s1) (m s2))"

text \<open>
  \<^verbatim>\<open>n--\<close> leaves \<^verbatim>\<open>n == (size_t)-1\<close> exactly when the count ran out, which is when the
  function returns 0.
\<close>

definition strncmp :: "mem \<Rightarrow> addr \<Rightarrow> addr \<Rightarrow> u32 \<Rightarrow> u32" where
  "strncmp m s1 s2 n = strncmp_loop m s1 s2 (unat n)"

definition memcmp :: "mem \<Rightarrow> addr \<Rightarrow> addr \<Rightarrow> u32 \<Rightarrow> u32" where
  "memcmp m s1 s2 n =
     (case find (\<lambda>i. m (s1 + of_nat i) \<noteq> m (s2 + of_nat i)) [0..<unat n] of
        Some i \<Rightarrow> byte_diff (m (s1 + of_nat i)) (m (s2 + of_nat i))
      | None \<Rightarrow> 0)"

partial_function (option) strcpy :: "addr \<Rightarrow> addr \<Rightarrow> mem \<Rightarrow> mem option" where
  "strcpy d src m =
     (let m1 = m(d := m src)
      in if m src \<noteq> 0 then strcpy (d + 1) (src + 1) m1 else Some m1)"

partial_function (option) match_here :: "mem \<Rightarrow> addr \<Rightarrow> addr \<Rightarrow> addr option" where
  "match_here m h n =
     (if m h \<noteq> 0 \<and> m n \<noteq> 0 \<and> m h = m n then match_here m (h + 1) (n + 1) else Some n)"

partial_function (option) strstr_loop :: "mem \<Rightarrow> addr \<Rightarrow> addr \<Rightarrow> addr option" where
  "strstr_loop m haystack needle =
     (if m haystack = 0 then Some 0
      else case match_here m haystack needle of
             None \<Rightarrow> None
           | Some n \<Rightarrow> if m n = 0 then Some haystack else strstr_loop m (haystack + 1) needle)"

definition strstr :: "mem \<Rightarrow> addr \<Rightarrow> addr \<Rightarrow> addr option" where
  "strstr m haystack needle = (if m needle = 0 then Some haystack else strstr_loop m haystack needle)"

text \<open>\<open>i\<close> is the first index below \<open>n\<close> with a zero source byte, or \<open>n\<close>.\<close>

fun kstrncpy_loop :: "addr \<Rightarrow> addr \<Rightarrow> nat list \<Rightarrow> mem \<Rightarrow> nat list \<times> mem" where
  "kstrncpy_loop dest src [] m = ([], m)"
| "kstrncpy_loop dest src (i # is) m =
     (if m (src + of_nat i) \<noteq> 0 then kstrncpy_loop dest src is (m(dest + of_nat i := m (src + of_nat i)))
      else (i # is, m))"

definition kstrncpy :: "addr \<Rightarrow> addr \<Rightarrow> u32 \<Rightarrow> mem \<Rightarrow> mem" where
  "kstrncpy dest src n m =
     (case kstrncpy_loop dest src [0..<unat n] m of
        (rest, m1) \<Rightarrow> fold (\<lambda>i m. m(dest + of_nat i := 0)) rest m1)"

subsection \<open>Bytes of words\<close>

lemma byte_join32:
  "byte (join32 a b c d) 0 = a" "byte (join32 a b c d) 1 = b"
  "byte (join32 a b c d) 2 = c" "byte (join32 a b c d) 3 = d"
  by (rule bit_eqI; auto simp: byte_def join32_def bit_simps dest: bit_imp_le_length)+

lemma offset_cases: "(x :: u32) < 4 \<longleftrightarrow> x = 0 \<or> x = 1 \<or> x = 2 \<or> x = 3"
proof
  assume "x < 4"
  then have "unat x < 4" by (simp add: word_less_nat_alt)
  then have "unat x = 0 \<or> unat x = 1 \<or> unat x = 2 \<or> unat x = 3" by linarith
  then show "x = 0 \<or> x = 1 \<or> x = 2 \<or> x = 3" by (auto simp: word_unat_eq_iff)
qed auto

lemma store32_apply: "store32 a w m b = (if b - a < 4 then byte w (unat (b - a)) else m b)"
proof -
  have "b - a = 1 \<longleftrightarrow> b = a + 1" "b - a = 2 \<longleftrightarrow> b = a + 2" "b - a = 3 \<longleftrightarrow> b = a + 3" "b - a = 0 \<longleftrightarrow> b = a"
    by (auto simp: algebra_simps)
  then show ?thesis unfolding store32_def offset_cases by auto
qed

lemma byte_load32: "unat x < 4 \<Longrightarrow> byte (load32 a m) (unat x) = m (a + x)"
  using offset_cases [of x] byte_join32 by (auto simp: load32_def word_less_nat_alt)

subsection \<open>Writes to a range\<close>

text \<open>\<open>b - a\<close>, taken modulo \<open>2\<^sup>32\<close>, is the offset of \<open>b\<close> in a region that starts at \<open>a\<close>.\<close>

lemma offset_eq: "k < 2 ^ 32 \<Longrightarrow> b = a + of_nat k \<longleftrightarrow> unat (b - a :: u32) = k"
proof -
  assume k: "k < 2 ^ 32"
  have "b = a + of_nat k \<longleftrightarrow> b - a = of_nat k" by (auto simp: algebra_simps)
  also have "\<dots> \<longleftrightarrow> unat (b - a) = k" using k by (auto simp: unat_of_nat_less)
  finally show ?thesis .
qed

lemma offset_self: "a + of_nat (unat (b - a)) = (b :: u32)"
  by simp

lemma word_step:
  assumes "4 * k + 4 \<le> 2 ^ 32"
  shows "(b :: u32) - (a + 4 * of_nat k) < 4 \<longleftrightarrow> 4 * k \<le> unat (b - a) \<and> unat (b - a) < 4 * k + 4"
proof
  let ?y = "b - (a + 4 * of_nat k)"
  have k: "unat (of_nat (4 * k) :: u32) = 4 * k" using assms by (intro unat_of_nat_less) simp
  have ba: "b - a = of_nat (4 * k) + ?y" by simp
  show "4 * k \<le> unat (b - a) \<and> unat (b - a) < 4 * k + 4" if "?y < 4"
    using that assms k unat_plus_no_wrap [of "of_nat (4 * k)" ?y] unfolding ba
    by (simp add: word_less_nat_alt del: of_nat_mult)
  show "?y < 4" if "4 * k \<le> unat (b - a) \<and> unat (b - a) < 4 * k + 4"
  proof -
    have y: "?y = (b - a) - of_nat (4 * k)" by simp
    have "of_nat (4 * k) \<le> b - a" using that k by (simp only: word_le_nat_alt)
    from unat_minus_no_wrap [OF this] have "unat ?y = unat (b - a) - 4 * k" unfolding y k .
    then have "unat ?y < 4" using that by linarith
    then show ?thesis by (simp only: word_less_nat_alt) simp
  qed
qed

lemma set_fold:
  "(\<forall>i \<in> set xs. i < 2 ^ 32) \<Longrightarrow>
     fold (\<lambda>i m. m(dest + of_nat i := v)) xs m b = (if unat (b - dest) \<in> set xs then v else m (b :: u32))"
proof (induction xs arbitrary: m)
  case (Cons x xs)
  then show ?case using offset_eq [of x b dest] by auto
qed simp

lemma copy_fold:
  "\<lbrakk>\<forall>i \<in> set xs. i < 2 ^ 32; sorted_wrt (\<lambda>l i. src + of_nat i \<noteq> dest + of_nat l) xs\<rbrakk> \<Longrightarrow>
     fold (\<lambda>i m. m(dest + of_nat i := m (src + of_nat i))) xs m b =
       (if unat (b - dest) \<in> set xs then m (src + (b - dest)) else m (b :: u32))"
proof (induction xs arbitrary: m)
  case (Cons x xs)
  let ?m = "m(dest + of_nat x := m (src + of_nat x))"
  have IH: "fold (\<lambda>i m. m(dest + of_nat i := m (src + of_nat i))) xs ?m b =
      (if unat (b - dest) \<in> set xs then ?m (src + (b - dest)) else ?m b)"
    by (rule Cons.IH) (use Cons.prems in auto)
  have "src + (b - dest) \<noteq> dest + of_nat x" if "unat (b - dest) \<in> set xs"
    using Cons.prems(2) that offset_self [of 0 "b - dest"] by (auto dest!: bspec [where x = "unat (b - dest)"])
  moreover have "b = dest + of_nat x \<longleftrightarrow> unat (b - dest) = x" using Cons.prems(1) by (intro offset_eq) simp
  ultimately show ?case
    unfolding fold_Cons o_apply IH by (simp only: fun_upd_apply list.set) auto
qed simp

lemma set_words_fold:
  "4 * k \<le> 2 ^ 32 \<Longrightarrow>
     fold (\<lambda>i. store32 (dest + 4 * of_nat i) (join32 v v v v)) [0..<k] m b =
       (if unat (b - dest) < 4 * k then v else m b)"
proof (induction k)
  case (Suc k)
  have "byte (join32 v v v v) (unat x) = v" if "x < 4" for x :: u32
    using that [unfolded offset_cases] byte_join32 [of v v v v] by auto
  then show ?case
    using Suc word_step [of k b dest] by (auto simp: store32_apply)
qed simp

lemma copy_words_fold:
  assumes "4 * k \<le> 2 ^ 32" "\<forall>i < 4 * k. \<forall>j < 4 * k. src + of_nat i \<noteq> dest + of_nat j"
  shows "fold (\<lambda>i m. store32 (dest + 4 * of_nat i) (load32 (src + 4 * of_nat i) m) m) [0..<k] m b =
     (if unat (b - dest) < 4 * k then m (src + (b - dest)) else m b)"
  using assms
proof (induction k arbitrary: b)
  case (Suc k)
  let ?m = "fold (\<lambda>i m. store32 (dest + 4 * of_nat i) (load32 (src + 4 * of_nat i) m) m) [0..<k] m"
  have IH: "?m b = (if unat (b - dest) < 4 * k then m (src + (b - dest)) else m b)" for b
    using Suc by simp
  have src: "?m (src + x) = m (src + x)" if "unat x < 4 * Suc k" for x
  proof -
    have "\<not> unat (src + x - dest) < 4 * k"
    proof
      assume "unat (src + x - dest) < 4 * k"
      then have "src + of_nat (unat x) \<noteq> dest + of_nat (unat (src + x - dest))"
        by (intro Suc.prems(2) [rule_format]) (use that in simp_all)
      then show False by simp
    qed
    then show ?thesis using IH [of "src + x"] by auto
  qed
  have unf: "fold (\<lambda>i m. store32 (dest + 4 * of_nat i) (load32 (src + 4 * of_nat i) m) m) [0..<Suc k] m b =
      (if b - (dest + 4 * of_nat k) < 4
       then byte (load32 (src + 4 * of_nat k) ?m) (unat (b - (dest + 4 * of_nat k))) else ?m b)"
    by (simp add: store32_apply [of "dest + 4 * of_nat k" "load32 (src + 4 * of_nat k) ?m" ?m b])
  show ?case
  proof (cases "b - (dest + 4 * of_nat k) < 4")
    case True
    let ?x = "b - (dest + 4 * of_nat k)"
    have w: "4 * k \<le> unat (b - dest)" "unat (b - dest) < 4 * k + 4" using word_step [of k b dest] True Suc.prems(1) by auto
    have "byte (load32 (src + 4 * of_nat k) ?m) (unat ?x) = ?m (src + 4 * of_nat k + ?x)"
      using True by (intro byte_load32) (simp add: word_less_nat_alt)
    also have "src + 4 * of_nat k + ?x = src + (b - dest)" by simp
    finally show ?thesis using w src [of "b - dest"] True unf by simp
  next
    case False
    then show ?thesis using word_step [of k b dest] Suc.prems(1) IH [of b] unf by auto
  qed
qed simp

subsection \<open>Strings as lists\<close>

text \<open>The zero-terminated string at \<open>s\<close> is \<open>xs\<close>.\<close>

fun cstr :: "mem \<Rightarrow> addr \<Rightarrow> u8 list \<Rightarrow> bool" where
  "cstr m s [] \<longleftrightarrow> m s = 0"
| "cstr m s (x # xs) \<longleftrightarrow> m s = x \<and> x \<noteq> 0 \<and> cstr m (s + 1) xs"

lemma strlen_loop_cstr: "cstr m (s + len) xs \<Longrightarrow> strlen_loop m s len = Some (len + of_nat (length xs))"
proof (induction xs arbitrary: len)
  case Nil
  then show ?case by (simp add: strlen_loop.simps)
next
  case (Cons x xs)
  then have "cstr m (s + (len + 1)) xs" by (simp add: add.assoc)
  then show ?case using Cons by (subst strlen_loop.simps) (simp add: add.commute add.left_commute)
qed

text \<open>Lexicographic comparison of byte lists, as a three-way result.\<close>

fun byte_lex :: "u8 list \<Rightarrow> u8 list \<Rightarrow> int" where
  "byte_lex [] [] = 0"
| "byte_lex [] (y # ys) = - uint y"
| "byte_lex (x # xs) [] = uint x"
| "byte_lex (x # xs) (y # ys) = (if x = y then byte_lex xs ys else uint x - uint y)"

lemma uint_u8_bound: "uint (x :: u8) < 256"
  using uint_lt2p [of x] by simp

lemma sint_small: "- 256 < k \<Longrightarrow> k < 256 \<Longrightarrow> sint (word_of_int k :: u32) = k"
  by (simp add: signed_of_int signed_take_bit_int_eq_self)

lemma sint_byte_diff: "sint (byte_diff x y) = uint x - uint y"
proof -
  have "byte_diff x y = word_of_int (uint x - uint y)"
    by (simp add: byte_diff_def)
  moreover have "- 256 < uint x - uint y" "uint x - uint y < 256"
    using uint_u8_bound [of x] uint_u8_bound [of y] uint_ge_0 [of x] uint_ge_0 [of y] by linarith+
  ultimately show ?thesis using sint_small [of "uint x - uint y"] by metis
qed

lemma strcmp_cstr:
  "\<lbrakk>cstr m s1 xs; cstr m s2 ys\<rbrakk> \<Longrightarrow> \<exists>r. strcmp m s1 s2 = Some r \<and> sint r = byte_lex xs ys"
proof (induction xs ys arbitrary: s1 s2 rule: byte_lex.induct)
  case (4 x xs y ys)
  then show ?case by (subst strcmp.simps) (auto simp: sint_byte_diff)
qed (subst strcmp.simps; auto simp: sint_byte_diff)+

lemma byte_lex_eq_0: "\<lbrakk>0 \<notin> set xs; 0 \<notin> set ys\<rbrakk> \<Longrightarrow> byte_lex xs ys = 0 \<longleftrightarrow> xs = ys"
  by (induction xs ys rule: byte_lex.induct) (auto simp: word_uint_eq_iff)

lemma cstr_nonzero: "cstr m s xs \<Longrightarrow> 0 \<notin> set xs"
  by (induction xs arbitrary: s) auto

lemma unat_div_4: "unat (count div (4 :: u32)) * 4 \<le> unat count" "unat (count div (4 :: u32)) = unat count div 4"
  by (simp_all add: unat_div)

subsection \<open>Properties\<close>

text \<open>
  The word-at-a-time \<^verbatim>\<open>memset\<close> agrees with setting each byte: it writes \<^verbatim>\<open>(uint8_t)val\<close> to
  exactly the \<^verbatim>\<open>count\<close> bytes from \<^verbatim>\<open>dest\<close> on, whatever the alignment of \<^verbatim>\<open>dest\<close> and also
  across the end of the address space.
\<close>

theorem memset_bytewise:
  "memset dest val count m b = (if b - dest < count then ucast val else m b)"
proof -
  let ?k = "unat count div 4"
  have "4 * ?k \<le> 2 ^ 32" "\<forall>i \<in> set [?k * 4..<unat count]. i < 2 ^ 32"
    using unat_u32_bound [of count] by auto
  moreover have "unat (b - dest) < 4 * ?k \<or> unat (b - dest) \<in> set [?k * 4..<unat count] \<longleftrightarrow> b - dest < count"
    using unat_div_4(1) [of count] by (auto simp: word_less_nat_alt unat_div)
  ultimately show ?thesis
    by (simp add: memset_def Let_def unat_div_4(2) set_fold set_words_fold) linarith
qed

text \<open>
  The word-at-a-time \<^verbatim>\<open>memcpy\<close> agrees with copying each byte when the two regions do not
  overlap: the destination gets the old source bytes and nothing else changes.
\<close>

theorem memcpy_bytewise:
  assumes "\<forall>i < unat count. \<forall>j < unat count. src + of_nat i \<noteq> dest + of_nat j"
  shows "memcpy dest src count m b = (if b - dest < count then m (src + (b - dest)) else m b)"
proof -
  let ?k = "unat count div 4"
  define m1 where "m1 = fold (\<lambda>i m. store32 (dest + 4 * of_nat i) (load32 (src + 4 * of_nat i) m) m) [0..<?k] m"
  have k: "4 * ?k \<le> unat count" "4 * ?k \<le> 2 ^ 32" using unat_u32_bound [of count] by auto
  then have m1: "m1 b = (if unat (b - dest) < 4 * ?k then m (src + (b - dest)) else m b)" for b
    unfolding m1_def using assms by (intro copy_words_fold) auto
  have src: "m1 (src + x) = m (src + x)" if "unat x < unat count" for x
  proof -
    have "\<not> unat (src + x - dest) < 4 * ?k"
    proof
      assume "unat (src + x - dest) < 4 * ?k"
      then have "src + of_nat (unat x) \<noteq> dest + of_nat (unat (src + x - dest))"
        by (intro assms [rule_format]) (use that k in simp_all)
      then show False by simp
    qed
    then show ?thesis using m1 [of "src + x"] by auto
  qed
  have "memcpy dest src count m b =
      (if unat (b - dest) \<in> set [?k * 4..<unat count] then m1 (src + (b - dest)) else m1 b)"
    unfolding memcpy_def Let_def unat_div_4(2) m1_def [symmetric]
    by (rule copy_fold) (use assms unat_u32_bound [of count] in \<open>auto simp: sorted_wrt_iff_nth_less\<close>)
  then show ?thesis using m1 [of b] src [of "b - dest"] k(1) by (auto simp: word_less_nat_alt)
qed

theorem memcpy_bytewise_witness:
  "memcpy 0x2000 0x1000 5 (\<lambda>a. ucast a) 0x2004 = 0x04"
proof -
  have "(0x1000 :: u32) + of_nat i \<noteq> 0x2000 + of_nat j" if "i < 5" "j < 5" for i j
  proof -
    have "(0x1000 :: u32) + of_nat i = of_nat (0x1000 + i)" "(0x2000 :: u32) + of_nat j = of_nat (0x2000 + j)"
      by simp_all
    then show ?thesis using of_nat_word_inj [of "0x1000 + i" "0x2000 + j", where 'a = 32] that by auto
  qed
  then show ?thesis using memcpy_bytewise [of 5 "0x1000" "0x2000"] by simp
qed

text \<open>
  \<^verbatim>\<open>memmove\<close> is safe for overlapping regions: for any two regions that end within the
  address space, the destination gets the bytes the source had before the call.
\<close>

theorem memmove_overlap:
  assumes "unat dest + unat count \<le> 2 ^ 32" "unat src + unat count \<le> 2 ^ 32"
  shows "memmove dest src count m b = (if b - dest < count then m (src + (b - dest)) else m b)"
proof -
  have addr: "unat (dest + of_nat i) = unat dest + i" "unat (src + of_nat i) = unat src + i"
    if "i < unat count" for i
    using that assms unat_u32_bound [of count] unat_plus_no_wrap [of dest "of_nat i"] unat_plus_no_wrap [of src "of_nat i"]
    by (simp_all add: unat_of_nat_less)
  have ne: "src + of_nat i \<noteq> dest + of_nat l"
    if "i < unat count" "l < unat count" "dest < src \<and> l < i \<or> \<not> dest < src \<and> i < l" for i l
    using addr [of i] addr [of l] that by (auto simp: word_unat_eq_iff word_less_nat_alt)
  have "memmove dest src count m b =
      (if unat (b - dest) \<in> set [0..<unat count] then m (src + (b - dest)) else m b)"
  proof (cases "dest < src")
    case True
    then show ?thesis unfolding memmove_def if_P [OF True]
      by (intro copy_fold) (use ne True unat_u32_bound [of count] in \<open>auto simp: sorted_wrt_iff_nth_less\<close>)
  next
    case False
    have "fold (\<lambda>i m. m(dest + of_nat i := m (src + of_nat i))) (rev [0..<unat count]) m b =
      (if unat (b - dest) \<in> set (rev [0..<unat count]) then m (src + (b - dest)) else m b)"
    proof (rule copy_fold)
      show "sorted_wrt (\<lambda>l i. src + of_nat i \<noteq> dest + of_nat l) (rev [0..<unat count])"
        unfolding sorted_wrt_rev using ne False by (auto simp: sorted_wrt_iff_nth_less)
    qed (use unat_u32_bound [of count] in auto)
    then show ?thesis using False by (simp add: memmove_def)
  qed
  then show ?thesis by (simp add: word_less_nat_alt)
qed

theorem memmove_overlap_witness:
  "memmove 0x1001 0x1000 8 (\<lambda>a. ucast a) 0x1004 = 0x03"
  using memmove_overlap [of "0x1001" 8 "0x1000" "\<lambda>a. ucast a" "0x1004"] by simp

text \<open>
  On zero-terminated strings \<^verbatim>\<open>strlen\<close> returns the length and \<^verbatim>\<open>strcmp\<close> returns, and its
  result as a signed integer is the difference of the first bytes that differ (unsigned),
  so it is 0 exactly for equal strings.
\<close>

theorem strlen_strcmp_strings:
  assumes "cstr m s1 xs" "cstr m s2 ys"
  shows "strlen m s1 = Some (of_nat (length xs)) \<and>
    (\<exists>r. strcmp m s1 s2 = Some r \<and> sint r = byte_lex xs ys \<and> (r = 0 \<longleftrightarrow> xs = ys))"
proof -
  obtain r where r: "strcmp m s1 s2 = Some r" "sint r = byte_lex xs ys" using strcmp_cstr [OF assms] by blast
  have "r = 0 \<longleftrightarrow> sint r = 0" by (simp add: signed_eq_0_iff)
  then show ?thesis
    using r strlen_loop_cstr [of m s1 0 xs] assms byte_lex_eq_0 [of xs ys] cstr_nonzero
    by (auto simp: strlen_def)
qed

theorem strlen_strcmp_strings_witness:
  "strlen (\<lambda>a. if a = 0x1000 then 0x41 else 0) 0x1000 = Some 1"
  using strlen_strcmp_strings [of "\<lambda>a. if a = 0x1000 then 0x41 else 0" "0x1000" "[0x41]" "0x2000" "[]"] by simp

end
