(* ===== verification/Khazar_Bytes.thy ===== *)
theory Khazar_Bytes
  imports Khazar_String
begin

text \<open>
  Packed structures in byte buffers: little-endian fields of 16 and 32 bits, the byte swap
  between host and network order, parts of a buffer, and the reads that stay inside one. The
  disk, network and executable formats are built on them.
\<close>

subsection \<open>Fields\<close>

definition join16 :: "u8 \<Rightarrow> u8 \<Rightarrow> u16" where "join16 a b = ucast a OR push_bit 8 (ucast b)"
definition lo8 :: "u16 \<Rightarrow> u8" where "lo8 w = ucast w"
definition hi8 :: "u16 \<Rightarrow> u8" where "hi8 w = ucast (drop_bit 8 w)"

definition le16 :: "u8 list \<Rightarrow> nat \<Rightarrow> u16" where "le16 b i = join16 (b ! i) (b ! (i + 1))"

definition le32 :: "u8 list \<Rightarrow> nat \<Rightarrow> u32" where
  "le32 b i = join32 (b ! i) (b ! (i + 1)) (b ! (i + 2)) (b ! (i + 3))"

definition put32 :: "u8 list \<Rightarrow> nat \<Rightarrow> u32 \<Rightarrow> u8 list" where
  "put32 b i w = b[i := byte w 0, i + 1 := byte w 1, i + 2 := byte w 2, i + 3 := byte w 3]"

definition slice :: "nat \<Rightarrow> nat \<Rightarrow> 'a list \<Rightarrow> 'a list" where
  "slice i n xs = take n (drop i xs)"

definition enc16 :: "u16 \<Rightarrow> u8 list" where "enc16 w = [lo8 w, hi8 w]"
definition enc32 :: "u32 \<Rightarrow> u8 list" where "enc32 w = [byte w 0, byte w 1, byte w 2, byte w 3]"

subsection \<open>Facts\<close>

lemma join32_bytes: "join32 (byte w 0) (byte w 1) (byte w 2) (byte w 3) = w"
proof (rule bit_word_eqI)
  fix n
  assume "n < LENGTH(32)"
  then consider "n < 8" | "8 \<le> n" "n < 16" | "16 \<le> n" "n < 24" | "24 \<le> n" "n < 32" by fastforce
  then show "bit (join32 (byte w 0) (byte w 1) (byte w 2) (byte w 3)) n = bit w n"
    by cases (auto simp: byte_def join32_def bit_simps)
qed

lemma join16_bytes: "join16 (lo8 w) (hi8 w) = w"
  by (rule bit_eqI) (auto simp: lo8_def hi8_def join16_def bit_simps dest: bit_imp_le_length)

lemma bytes_join16: "lo8 (join16 a b) = a" "hi8 (join16 a b) = b"
  by (rule bit_eqI; auto simp: lo8_def hi8_def join16_def bit_simps dest: bit_imp_le_length)+

lemma length_put32 [simp]: "length (put32 b i w) = length b"
  by (simp add: put32_def)

lemma le32_put32_same: "i + 4 \<le> length b \<Longrightarrow> le32 (put32 b i w) i = w"
  by (simp add: le32_def put32_def join32_bytes [simplified] nth_list_update)

lemma le32_put32_other: "j + 4 \<le> i \<or> i + 4 \<le> j \<Longrightarrow> le32 (put32 b i w) j = le32 b j"
  by (auto simp: le32_def put32_def nth_list_update)

lemma slice_app:
  "i + n \<le> length a \<Longrightarrow> slice i n (a @ b) = slice i n a"
  "i \<le> length a \<Longrightarrow> length a \<le> i + n \<Longrightarrow> slice i n (a @ b) = drop i a @ slice 0 (n - (length a - i)) b"
  by (simp_all add: slice_def)

lemma length_slice: "length (slice i n xs) = min n (length xs - i)"
  by (simp add: slice_def)

text \<open>Characters as bytes.\<close>

lemma unat_of_char_u8: "unat (of_char c :: u8) = of_char c"
  by (simp add: of_char_def)

lemma of_char_zero_u8: "(of_char ch :: u8) = 0 \<longleftrightarrow> ch = char_of (0 :: nat)"
proof
  assume "(of_char ch :: u8) = 0"
  then have "(of_char ch :: nat) = 0" using unat_of_char_u8 [of ch] by (metis unat_0)
  then show "ch = char_of (0 :: nat)" by (metis char_of_char)
next
  assume "ch = char_of (0 :: nat)"
  then have "unat (of_char ch :: u8) = 0" by (simp add: unat_of_char_u8)
  then show "(of_char ch :: u8) = 0" by (simp add: unat_eq_zero)
qed

lemma slice_append_mid: "length a = i \<Longrightarrow> length b = n \<Longrightarrow> slice i n (a @ b @ c) = b"
  by (simp add: slice_def)


end
