(* ===== verification/Khazar_Fat32.thy ===== *)
theory Khazar_Fat32
  imports Khazar_Vfs Khazar_Bytes
begin

text \<open>
  The FAT32 driver, \<^verbatim>\<open>kernel/fs/fat32/fat32.c\<close>, with the sector counts of the two block
  drivers under it (\<^verbatim>\<open>kernel/drivers/block/ahci.c\<close> and \<^verbatim>\<open>ata.c\<close>). A disk maps sector numbers
  to 512 bytes. Two scripts in the state decide what the hardware and the heap do:
  \<open>io_script\<close> gives the outcome of the next transfers and \<open>mem_script\<close> the outcome and the
  initial bytes of the next allocations; an exhausted script means success. A byte buffer is a
  list. The result \<open>None\<close> of an operation is a kernel that does not come back: a division by
  zero, a null pointer dereference or an endless loop.
\<close>

subsection \<open>On-disk structures\<close>

record fat32_bpb =
  jmp :: "u8 list"
  oem :: "u8 list"
  bytes_per_sector :: u16
  sectors_per_cluster :: u8
  reserved_sectors :: u16
  fat_count :: u8
  root_entry_count :: u16
  total_sectors_short :: u16
  media_type :: u8
  fat_size_short :: u16
  sectors_per_track :: u16
  head_count :: u16
  hidden_sectors :: u32
  total_sectors_long :: u32
  fat_size_long :: u32
  bpb_flags :: u16
  bpb_version :: u16
  root_cluster :: u32
  fs_info_sector :: u16
  backup_boot_sector :: u16
  bpb_reserved :: "u8 list"
  drive_number :: u8
  bpb_reserved1 :: u8
  boot_signature :: u8
  volume_id :: u32
  volume_label :: "u8 list"
  fs_type :: "u8 list"

text \<open>The packed layout of the boot record.\<close>

definition decode_bpb :: "u8 list \<Rightarrow> fat32_bpb" where
  "decode_bpb b = \<lparr>jmp = slice 0 3 b, oem = slice 3 8 b, bytes_per_sector = le16 b 11, sectors_per_cluster = b ! 13,
     reserved_sectors = le16 b 14, fat_count = b ! 16, root_entry_count = le16 b 17, total_sectors_short = le16 b 19,
     media_type = b ! 21, fat_size_short = le16 b 22, sectors_per_track = le16 b 24, head_count = le16 b 26,
     hidden_sectors = le32 b 28, total_sectors_long = le32 b 32, fat_size_long = le32 b 36, bpb_flags = le16 b 40,
     bpb_version = le16 b 42, root_cluster = le32 b 44, fs_info_sector = le16 b 48, backup_boot_sector = le16 b 50,
     bpb_reserved = slice 52 12 b, drive_number = b ! 64, bpb_reserved1 = b ! 65, boot_signature = b ! 66,
     volume_id = le32 b 67, volume_label = slice 71 11 b, fs_type = slice 82 8 b\<rparr>"

record fat32_dir_entry =
  ename :: "u8 list"
  eattr :: u8
  ereserved :: u8
  creation_time_tenth :: u8
  creation_time :: u16
  creation_date :: u16
  last_access_date :: u16
  cluster_high :: u16
  last_mod_time :: u16
  last_mod_date :: u16
  cluster_low :: u16
  esize :: u32

definition decode_entry :: "u8 list \<Rightarrow> fat32_dir_entry" where
  "decode_entry b = \<lparr>ename = slice 0 11 b, eattr = b ! 11, ereserved = b ! 12, creation_time_tenth = b ! 13,
     creation_time = le16 b 14, creation_date = le16 b 16, last_access_date = le16 b 18, cluster_high = le16 b 20,
     last_mod_time = le16 b 22, last_mod_date = le16 b 24, cluster_low = le16 b 26, esize = le32 b 28\<rparr>"

definition encode_entry :: "fat32_dir_entry \<Rightarrow> u8 list" where
  "encode_entry e = ename e @ [eattr e, ereserved e, creation_time_tenth e] @ enc16 (creation_time e) @
     enc16 (creation_date e) @ enc16 (last_access_date e) @ enc16 (cluster_high e) @ enc16 (last_mod_time e) @
     enc16 (last_mod_date e) @ enc16 (cluster_low e) @ enc32 (esize e)"

definition zero_entry :: fat32_dir_entry where "zero_entry = decode_entry (replicate 32 0)"

text \<open>\<open>entries[i]\<close> of a directory buffer, read and written.\<close>

definition entry_at :: "u8 list \<Rightarrow> nat \<Rightarrow> fat32_dir_entry" where
  "entry_at buf i = decode_entry (slice (32 * i) 32 buf)"

definition put_entry :: "u8 list \<Rightarrow> nat \<Rightarrow> fat32_dir_entry \<Rightarrow> u8 list" where
  "put_entry buf i e = take (32 * i) buf @ encode_entry e @ drop (32 * i + 32) buf"

definition entry_cluster :: "fat32_dir_entry \<Rightarrow> u32" where
  "entry_cluster e = ucast (cluster_low e) OR push_bit 16 (ucast (cluster_high e))"

definition set_cluster :: "u32 \<Rightarrow> fat32_dir_entry \<Rightarrow> fat32_dir_entry" where
  "set_cluster c e = e\<lparr>cluster_low := ucast (c AND 0xFFFF), cluster_high := ucast (drop_bit 16 c AND 0xFFFF)\<rparr>"

subsection \<open>The volume\<close>

datatype disk_id = Ahci | Ata_master | Ata_slave

text \<open>
  A failed transfer: the number of sectors a write stored before it stopped, and the bytes a
  read left in the buffer.
\<close>

datatype io_result = Io_ok | Io_fail nat "u8 list"

definition ATA_MASTER :: u8 where "ATA_MASTER = 0xA0"
definition ATA_SLAVE :: u8 where "ATA_SLAVE = 0xB0"

record fat_volume =
  bpb :: fat32_bpb
  fat32_ready :: bool
  first_data_sector :: u32
  sectors_per_fat :: u32
  fat32_drive :: u8
  fat32_ahci_port :: bool
  disks :: "disk_id \<Rightarrow> nat \<Rightarrow> u8 list"
  io_script :: "io_result list"
  mem_script :: "u8 list option list"

definition fat_kmalloc :: "nat \<Rightarrow> fat_volume \<Rightarrow> u8 list option \<times> fat_volume" where
  "fat_kmalloc n s =
     (case mem_script s of
        [] \<Rightarrow> (Some (replicate n 0), s)
      | a # r \<Rightarrow> (map_option (\<lambda>b. take n (b @ replicate n 0)) a, s\<lparr>mem_script := r\<rparr>))"

definition current_disk :: "fat_volume \<Rightarrow> disk_id" where
  "current_disk s = (if fat32_ahci_port s then Ahci else if fat32_drive s = ATA_SLAVE then Ata_slave else Ata_master)"

text \<open>
  The number of sectors a transfer really moves. \<^verbatim>\<open>ahci_read\<close> and \<^verbatim>\<open>ahci_write\<close> subtract 16
  from \<^verbatim>\<open>count\<close> for each region table entry but the last and then send the rest as the count
  of the command; the ATA functions take the count as 8 bits.
\<close>

definition ahci_prdtl :: "u32 \<Rightarrow> u16" where "ahci_prdtl count = ucast (drop_bit 4 (count - 1)) + 1"

definition ahci_count :: "u32 \<Rightarrow> u16" where
  "ahci_count count =
     (let prdtl = ahci_prdtl count
      in ucast (if prdtl = 0 then count else count - 16 * (ucast prdtl - 1)))"

definition ata_count :: "u32 \<Rightarrow> u8" where "ata_count count = ucast count"

definition sectors_moved :: "fat_volume \<Rightarrow> u32 \<Rightarrow> nat" where
  "sectors_moved s count = (if fat32_ahci_port s then unat (ahci_count count) else unat (ata_count count))"

text \<open>The ATA commands hold 28 bits of the sector number, the AHCI ones all 32.\<close>

definition first_sector :: "fat_volume \<Rightarrow> u32 \<Rightarrow> nat" where
  "first_sector s lba = (if fat32_ahci_port s then unat lba else unat (lba AND 0x0FFFFFFF))"

definition read_disk :: "(nat \<Rightarrow> u8 list) \<Rightarrow> nat \<Rightarrow> nat \<Rightarrow> u8 list" where
  "read_disk d start k = concat (map (\<lambda>j. d (start + j)) [0..<k])"

definition write_disk :: "nat \<Rightarrow> nat \<Rightarrow> u8 list \<Rightarrow> (nat \<Rightarrow> u8 list) \<Rightarrow> nat \<Rightarrow> u8 list" where
  "write_disk start k buf d = (\<lambda>n. if start \<le> n \<and> n < start + k then slice (512 * (n - start)) 512 buf else d n)"

definition next_io :: "fat_volume \<Rightarrow> io_result \<times> fat_volume" where
  "next_io s = (case io_script s of [] \<Rightarrow> (Io_ok, s) | r # rs \<Rightarrow> (r, s\<lparr>io_script := rs\<rparr>))"

definition disk_read_sectors :: "u32 \<Rightarrow> u32 \<Rightarrow> u8 list \<Rightarrow> fat_volume \<Rightarrow> bool \<times> u8 list \<times> fat_volume" where
  "disk_read_sectors lba count buf s =
     (case next_io s of
        (Io_ok, s1) \<Rightarrow>
          let data = read_disk (disks s (current_disk s)) (first_sector s lba) (sectors_moved s count)
          in (True, data @ drop (length data) buf, s1)
      | (Io_fail _ b, s1) \<Rightarrow> (False, take (length buf) (b @ drop (length b) buf), s1))"

definition disk_write_sectors :: "u32 \<Rightarrow> u32 \<Rightarrow> u8 list \<Rightarrow> fat_volume \<Rightarrow> bool \<times> fat_volume" where
  "disk_write_sectors lba count buf s =
     (let upd = (\<lambda>k s. s\<lparr>disks := (disks s)(current_disk s :=
                   write_disk (first_sector s lba) k buf (disks s (current_disk s)))\<rparr>)
      in case next_io s of
           (Io_ok, s1) \<Rightarrow> (True, upd (sectors_moved s count) s1)
         | (Io_fail n _, s1) \<Rightarrow> (False, upd (min n (sectors_moved s count)) s1))"

definition spc :: "fat_volume \<Rightarrow> u32" where "spc s = ucast (sectors_per_cluster (bpb s))"
definition cluster_bytes :: "fat_volume \<Rightarrow> nat" where "cluster_bytes s = 512 * unat (spc s)"

text \<open>The number of directory entries in a cluster, \<^verbatim>\<open>16 * bpb.sectors_per_cluster\<close>.\<close>

definition dir_entries :: "fat_volume \<Rightarrow> nat" where "dir_entries s = 16 * unat (spc s)"

subsection \<open>Initialisation\<close>

definition fat32_probe :: "u8 \<Rightarrow> fat_volume \<Rightarrow> bool \<times> fat_volume" where
  "fat32_probe drive s =
     (case fat_kmalloc 512 s of
        (None, s1) \<Rightarrow> (False, s1)
      | (Some buf, s1) \<Rightarrow>
          (case disk_read_sectors 0 1 buf s1 of
             (ok, buf', s2) \<Rightarrow>
               if \<not> ok then (False, s2)
               else let temp_bpb = decode_bpb buf'
                    in if boot_signature temp_bpb \<noteq> 0x29 \<and> boot_signature temp_bpb \<noteq> 0x28 then (False, s2)
                       else let spf = fat_size_long temp_bpb
                            in (True, s2\<lparr>bpb := temp_bpb, fat32_drive := drive, sectors_per_fat := spf,
                                 first_data_sector :=
                                   ucast (reserved_sectors temp_bpb) + ucast (fat_count temp_bpb) * spf\<rparr>)))"

text \<open>\<open>port\<close> is the result of \<^verbatim>\<open>ahci_get_drive\<close>.\<close>

definition fat32_init :: "bool \<Rightarrow> fat_volume \<Rightarrow> bool \<times> fat_volume" where
  "fat32_init port s =
     (let s0 = s\<lparr>fat32_ready := False, fat32_ahci_port := port\<rparr>;
          (ok, s1) = (if port then fat32_probe 0 s0 else (False, s0))
      in if ok then (True, s1\<lparr>fat32_ready := True\<rparr>)
         else case fat32_probe ATA_MASTER s1 of
                (ok2, s2) \<Rightarrow>
                  if ok2 then (True, s2\<lparr>fat32_ready := True\<rparr>)
                  else case fat32_probe ATA_SLAVE s2 of
                         (ok3, s3) \<Rightarrow> if ok3 then (True, s3\<lparr>fat32_ready := True\<rparr>) else (False, s3))"

definition cluster_to_lba :: "u32 \<Rightarrow> fat_volume \<Rightarrow> u32" where
  "cluster_to_lba cluster s = first_data_sector s + (cluster - 2) * spc s"

subsection \<open>The file allocation table\<close>

definition fat_sector_offset :: "u32 \<Rightarrow> u32" where "fat_sector_offset cluster = cluster * 4 div 512"
definition fat_offset :: "u32 \<Rightarrow> nat" where "fat_offset cluster = unat (cluster * 4 mod 512)"

definition fat_sector :: "u32 \<Rightarrow> nat \<Rightarrow> fat_volume \<Rightarrow> u32" where
  "fat_sector cluster i s =
     ucast (reserved_sectors (bpb s)) + of_nat i * sectors_per_fat s + fat_sector_offset cluster"

definition fat32_get_fat_entry :: "u32 \<Rightarrow> fat_volume \<Rightarrow> u32 \<times> fat_volume" where
  "fat32_get_fat_entry cluster s =
     (case fat_kmalloc 512 s of
        (None, s1) \<Rightarrow> (0x0FFFFFFF, s1)
      | (Some buf, s1) \<Rightarrow>
          (case disk_read_sectors (ucast (reserved_sectors (bpb s)) + fat_sector_offset cluster) 1 buf s1 of
             (ok, buf', s2) \<Rightarrow>
               if \<not> ok then (0x0FFFFFFF, s2) else (le32 buf' (fat_offset cluster) AND 0x0FFFFFFF, s2)))"

fun set_fat_loop :: "nat list \<Rightarrow> u32 \<Rightarrow> u32 \<Rightarrow> u8 list \<Rightarrow> fat_volume \<Rightarrow> bool \<times> fat_volume" where
  "set_fat_loop [] cluster value buf s = (True, s)"
| "set_fat_loop (i # is) cluster value buf s =
     (case disk_read_sectors (fat_sector cluster i s) 1 buf s of
        (ok, buf1, s1) \<Rightarrow>
          if \<not> ok then (False, s1)
          else let buf2 = put32 buf1 (fat_offset cluster) (value AND 0x0FFFFFFF)
               in case disk_write_sectors (fat_sector cluster i s) 1 buf2 s1 of
                    (ok2, s2) \<Rightarrow> if \<not> ok2 then (False, s2) else set_fat_loop is cluster value buf2 s2)"

definition fat32_set_fat_entry :: "u32 \<Rightarrow> u32 \<Rightarrow> fat_volume \<Rightarrow> bool \<times> fat_volume" where
  "fat32_set_fat_entry cluster value s =
     (case fat_kmalloc 512 s of
        (None, s1) \<Rightarrow> (False, s1)
      | (Some buf, s1) \<Rightarrow> set_fat_loop [0..<unat (fat_count (bpb s))] cluster value buf s1)"

definition EOC :: u32 where "EOC = 0x0FFFFFFF"

fun allocate_loop :: "nat \<Rightarrow> u32 \<Rightarrow> fat_volume \<Rightarrow> u32 \<times> fat_volume" where
  "allocate_loop 0 i s = (EOC, s)"
| "allocate_loop (Suc n) i s =
     (case fat32_get_fat_entry i s of
        (e, s1) \<Rightarrow> if e = 0 then (i, snd (fat32_set_fat_entry i EOC s1)) else allocate_loop n (i + 1) s1)"

definition total_clusters :: "fat_volume \<Rightarrow> u32" where "total_clusters s = fat_size_long (bpb s) * 512 div 4"

definition fat32_allocate_cluster :: "fat_volume \<Rightarrow> u32 \<times> fat_volume" where
  "fat32_allocate_cluster s = allocate_loop (unat (total_clusters s) - 2) 2 s"

subsection \<open>Names\<close>

definition fat_upper :: "char \<Rightarrow> u8" where
  "fat_upper c = (let b = of_char c in if 97 \<le> b \<and> b \<le> 122 then b - 32 else b)"

definition pad :: "nat \<Rightarrow> u8 list \<Rightarrow> u8 list" where "pad n xs = xs @ replicate (n - length xs) 32"

definition format_fat_name :: "string \<Rightarrow> u8 list" where
  "format_fat_name src =
     (let base = takeWhile (\<lambda>c. c \<noteq> CHR ''.'') src;
          rest = dropWhile (\<lambda>c. c \<noteq> CHR ''.'') src
      in pad 8 (map fat_upper (take 8 base)) @ pad 3 (map fat_upper (take 3 (tl rest))))"

definition fat32_compare_name :: "u8 list \<Rightarrow> string \<Rightarrow> bool" where
  "fat32_compare_name fat_name input_name \<longleftrightarrow> fat_name = format_fat_name input_name"

text \<open>
  The bytes \<^verbatim>\<open>fat32_vfs_readdir\<close> stores into its local \<^verbatim>\<open>char name[12]\<close>, the terminating zero
  included, and the name of the node that results.
\<close>

definition readdir_bytes :: "u8 list \<Rightarrow> u8 list" where
  "readdir_bytes n =
     takeWhile (\<lambda>b. b \<noteq> 32) (take 8 n) @
     (if n ! 8 \<noteq> 32 then 46 # takeWhile (\<lambda>b. b \<noteq> 32) (slice 8 3 n) else []) @ [0]"

definition readdir_name :: "u8 list \<Rightarrow> string" where
  "readdir_name n = map (\<lambda>b. char_of (unat b)) (takeWhile (\<lambda>b. b \<noteq> 0) (readdir_bytes n))"

subsection \<open>Directory entries\<close>

definition free_slot :: "fat32_dir_entry \<Rightarrow> bool" where
  "free_slot e \<longleftrightarrow> ename e ! 0 = 0 \<or> ename e ! 0 = 0xE5"

definition fat32_create_entry ::
    "vfs_node_t \<Rightarrow> string \<Rightarrow> u8 \<Rightarrow> u32 \<Rightarrow> u32 \<Rightarrow> fat_volume \<Rightarrow> bool \<times> fat_volume" where
  "fat32_create_entry parent name attr start_cluster sz s =
     (let lba = cluster_to_lba (vimpl parent) s
      in case fat_kmalloc (cluster_bytes s) s of
           (None, s1) \<Rightarrow> (False, s1)
         | (Some buf, s1) \<Rightarrow>
             (case disk_read_sectors lba (spc s) buf s1 of
                (ok, buf1, s2) \<Rightarrow>
                  if \<not> ok then (False, s2)
                  else case find (\<lambda>i. free_slot (entry_at buf1 i)) [0..<dir_entries s] of
                         None \<Rightarrow> (False, s2)
                       | Some slot \<Rightarrow>
                           let e = set_cluster start_cluster
                                 (zero_entry\<lparr>ename := format_fat_name name, eattr := attr, esize := sz\<rparr>)
                           in disk_write_sectors lba (spc s) (put_entry buf1 slot e) s2))"

text \<open>The lines \<^verbatim>\<open>fat32_ls\<close> prints: name and size of the listed entries among the first 16.\<close>

fun ls_loop :: "fat32_dir_entry list \<Rightarrow> (u8 list \<times> u32) list" where
  "ls_loop [] = []"
| "ls_loop (e # es) =
     (if ename e ! 0 = 0 then []
      else if ename e ! 0 = 0xE5 \<or> eattr e AND 8 \<noteq> 0 \<or> eattr e AND 15 \<noteq> 0 then ls_loop es
      else (takeWhile (\<lambda>b. b \<noteq> 0) (ename e), esize e) # ls_loop es)"

definition fat32_ls :: "fat_volume \<Rightarrow> (u8 list \<times> u32) list \<times> fat_volume" where
  "fat32_ls s =
     (if \<not> fat32_ready s then ([], s)
      else case fat_kmalloc (cluster_bytes s) s of
             (None, s1) \<Rightarrow> ([], s1)
           | (Some buf, s1) \<Rightarrow>
               (case disk_read_sectors (cluster_to_lba (root_cluster (bpb s)) s) (spc s) buf s1 of
                  (_, buf1, s2) \<Rightarrow> (ls_loop (map (entry_at buf1) [0..<16]), s2)))"

text \<open>
  The first entry a search stops at: the first with a matching name and no end mark before it.
\<close>

fun find_entry :: "(fat32_dir_entry \<Rightarrow> bool) \<Rightarrow> u8 list \<Rightarrow> nat list \<Rightarrow> nat option" where
  "find_entry P buf [] = None"
| "find_entry P buf (i # is) =
     (if ename (entry_at buf i) ! 0 = 0 then None
      else if P (entry_at buf i) then Some i else find_entry P buf is)"

definition fat32_read_file :: "string \<Rightarrow> fat_volume \<Rightarrow> (u8 list \<times> u32) option \<times> fat_volume" where
  "fat32_read_file filename s =
     (if \<not> fat32_ready s then (None, s)
      else case fat_kmalloc (cluster_bytes s) s of
             (None, s1) \<Rightarrow> (None, s1)
           | (Some buf, s1) \<Rightarrow>
               (case disk_read_sectors (cluster_to_lba (root_cluster (bpb s)) s) (spc s) buf s1 of
                  (_, buf1, s2) \<Rightarrow>
                    (case find_entry (\<lambda>e. fat32_compare_name (ename e) filename) buf1 [0..<16] of
                       None \<Rightarrow> (None, s2)
                     | Some i \<Rightarrow>
                         let e = entry_at buf1 i;
                             sectors_to_read = (esize e + 511) div 512
                         in case fat_kmalloc (unat (sectors_to_read * 512)) s2 of
                              (None, s3) \<Rightarrow> (None, s3)
                            | (Some data, s3) \<Rightarrow>
                                (case disk_read_sectors (cluster_to_lba (entry_cluster e) s3) sectors_to_read data s3 of
                                   (_, data1, s4) \<Rightarrow> (Some (data1, esize e), s4)))))"

definition fat32_update_entry_size :: "u32 \<Rightarrow> u32 \<Rightarrow> u32 \<Rightarrow> fat_volume \<Rightarrow> fat_volume" where
  "fat32_update_entry_size dir_cluster file_cluster new_size s =
     (let lba = cluster_to_lba dir_cluster s
      in case fat_kmalloc (cluster_bytes s) s of
           (None, s1) \<Rightarrow> s1
         | (Some buf, s1) \<Rightarrow>
             (case disk_read_sectors lba (spc s) buf s1 of
                (ok, buf1, s2) \<Rightarrow>
                  if \<not> ok then s2
                  else case find (\<lambda>i. entry_cluster (entry_at buf1 i) = file_cluster \<and>
                                      \<not> free_slot (entry_at buf1 i)) [0..<dir_entries s] of
                         None \<Rightarrow> s2
                       | Some i \<Rightarrow>
                           snd (disk_write_sectors lba (spc s)
                                  (put_entry buf1 i ((entry_at buf1 i)\<lparr>esize := new_size\<rparr>)) s2)))"

subsection \<open>The VFS adapter\<close>

text \<open>
  A new node. Its allocation is not checked: \<open>None\<close> is the null dereference when the heap is
  full.
\<close>

definition fat_node :: "vfs_node_t \<Rightarrow> fat_volume \<Rightarrow> (vfs_node_t \<times> fat_volume) option" where
  "fat_node n s = (case fat_kmalloc 200 s of (None, _) \<Rightarrow> None | (Some _, s1) \<Rightarrow> Some (n, s1))"

definition file_node :: "string \<Rightarrow> u32 \<Rightarrow> u32 \<Rightarrow> u32 \<Rightarrow> u32 \<Rightarrow> vfs_node_t" where
  "file_node name len flags impl parent = zero_node\<lparr>vname := take 127 name, vlength := len, vflags := flags,
     vmask := (if flags = VFS_DIRECTORY then 511 else 438), vimpl := impl, vinode := parent, fread := FN_FAT32,
     fwrite := FN_FAT32, freaddir := FN_FAT32, ffinddir := FN_FAT32, fcreate := FN_FAT32, funlink := FN_FAT32,
     fmkdir := FN_FAT32\<rparr>"

definition entry_node :: "string \<Rightarrow> fat32_dir_entry \<Rightarrow> u32 \<Rightarrow> vfs_node_t" where
  "entry_node name e parent =
     file_node name (esize e) (if eattr e AND 0x10 \<noteq> 0 then VFS_DIRECTORY else VFS_FILE) (entry_cluster e) parent"

definition fat32_vfs_create ::
    "vfs_node_t \<Rightarrow> string \<Rightarrow> fat_volume \<Rightarrow> (vfs_node_t option \<times> fat_volume) option" where
  "fat32_vfs_create parent name s =
     (if \<not> fat32_ready s then Some (None, s)
      else case fat32_allocate_cluster s of
             (cluster, s1) \<Rightarrow>
               if cluster = EOC then Some (None, s1)
               else case fat32_create_entry parent name 0x20 cluster 0 s1 of
                      (ok, s2) \<Rightarrow>
                        if \<not> ok then Some (None, snd (fat32_set_fat_entry cluster 0 s2))
                        else map_option (\<lambda>(n, s3). (Some n, s3))
                               (fat_node (file_node name 0 VFS_FILE cluster (vimpl parent)) s2))"

definition cluster_size :: "fat_volume \<Rightarrow> u32" where "cluster_size s = spc s * 512"

fun skip_clusters :: "nat \<Rightarrow> u32 \<Rightarrow> fat_volume \<Rightarrow> u32 option \<times> fat_volume" where
  "skip_clusters 0 current s = (Some current, s)"
| "skip_clusters (Suc n) current s =
     (case fat32_get_fat_entry current s of
        (e, s1) \<Rightarrow> if e \<ge> 0x0FFFFFF8 then (None, s1) else skip_clusters n e s1)"

text \<open>\<open>out\<close> is what has been copied so far; \<^verbatim>\<open>bytes_read\<close> is its length.\<close>

partial_function (option) read_loop ::
    "u32 \<Rightarrow> u32 \<Rightarrow> u32 \<Rightarrow> u8 list \<Rightarrow> u8 list \<Rightarrow> fat_volume \<Rightarrow> (u8 list \<times> fat_volume) option" where
  "read_loop real_size current coff temp out s =
     (if of_nat (length out) < real_size \<and> current \<ge> 2 \<and> current < 0x0FFFFFF8
      then case disk_read_sectors (cluster_to_lba current s) (spc s) temp s of
             (_, temp1, s1) \<Rightarrow>
               let left = real_size - of_nat (length out);
                   to_copy = (if cluster_size s - coff > left then left else cluster_size s - coff);
                   out1 = out @ slice (unat coff) (unat to_copy) temp1;
                   (next, s2) = (if of_nat (length out1) < real_size then fat32_get_fat_entry current s1
                                 else (current, s1))
               in read_loop real_size next 0 temp1 out1 s2
      else Some (out, s))"

definition fat32_vfs_read ::
    "vfs_node_t \<Rightarrow> u32 \<Rightarrow> u32 \<Rightarrow> fat_volume \<Rightarrow> (u8 list \<times> fat_volume) option" where
  "fat32_vfs_read node offset sz s =
     (if \<not> fat32_ready s \<or> vlength node = 0 \<or> sz = 0 \<or> offset \<ge> vlength node then Some ([], s)
      else let real_size = (if offset + sz > vlength node then vlength node - offset else sz)
           in if cluster_size s = 0 then None
              else case skip_clusters (unat (offset div cluster_size s)) (vimpl node) s of
                     (None, s1) \<Rightarrow> Some ([], s1)
                   | (Some current, s1) \<Rightarrow>
                       (case fat_kmalloc (unat (cluster_size s)) s1 of
                          (None, s2) \<Rightarrow> Some ([], s2)
                        | (Some temp, s2) \<Rightarrow> read_loop real_size current (offset mod cluster_size s) temp [] s2))"

text \<open>The cluster after \<open>current\<close>, allocated and linked at the end of the chain.\<close>

definition next_or_allocate :: "u32 \<Rightarrow> fat_volume \<Rightarrow> u32 option \<times> fat_volume" where
  "next_or_allocate current s =
     (case fat32_get_fat_entry current s of
        (e, s1) \<Rightarrow>
          if e \<ge> 0x0FFFFFF8
          then (case fat32_allocate_cluster s1 of
                  (e', s2) \<Rightarrow> if e' = EOC then (None, s2) else (Some e', snd (fat32_set_fat_entry current e' s2)))
          else (Some e, s1))"

fun seek_clusters :: "nat \<Rightarrow> u32 \<Rightarrow> fat_volume \<Rightarrow> u32 option \<times> fat_volume" where
  "seek_clusters 0 current s = (Some current, s)"
| "seek_clusters (Suc n) current s =
     (case next_or_allocate current s of (None, s1) \<Rightarrow> (None, s1) | (Some e, s1) \<Rightarrow> seek_clusters n e s1)"

definition splice :: "u8 list \<Rightarrow> nat \<Rightarrow> u8 list \<Rightarrow> u8 list" where
  "splice b i xs = take i b @ xs @ drop (i + length xs) b"

partial_function (option) write_loop ::
    "u8 list \<Rightarrow> u32 \<Rightarrow> u32 \<Rightarrow> u32 \<Rightarrow> u8 list \<Rightarrow> u32 \<Rightarrow> fat_volume \<Rightarrow> (u32 \<times> fat_volume) option" where
  "write_loop buf sz current coff temp written s =
     (if written < sz
      then let lba = cluster_to_lba current s;
               left = sz - written;
               to_write = (if cluster_size s - coff > left then left else cluster_size s - coff);
               (temp1, s1) = (if to_write < cluster_size s
                              then snd (disk_read_sectors lba (spc s) temp s) else (temp, s));
               temp2 = splice temp1 (unat coff) (slice (unat written) (unat to_write) buf);
               s2 = snd (disk_write_sectors lba (spc s) temp2 s1);
               written' = written + to_write
           in if written' < sz
              then (case next_or_allocate current s2 of
                      (None, s3) \<Rightarrow> Some (written', s3)
                    | (Some next, s3) \<Rightarrow> write_loop buf sz next 0 temp2 written' s3)
              else Some (written', s2)
      else Some (written, s))"

text \<open>The length a write leaves in the node, and the update of the directory entry.\<close>

definition finish_write :: "vfs_node_t \<Rightarrow> u32 \<Rightarrow> u32 \<Rightarrow> fat_volume \<Rightarrow> u32 \<times> vfs_node_t \<times> fat_volume" where
  "finish_write node offset written s =
     (if offset + written > vlength node
      then let node' = node\<lparr>vlength := offset + written\<rparr>
           in (written, node', fat32_update_entry_size (vinode node') (vimpl node') (vlength node') s)
      else (written, node, s))"

definition fat32_vfs_write ::
    "vfs_node_t \<Rightarrow> u32 \<Rightarrow> u8 list \<Rightarrow> u32 \<Rightarrow> fat_volume \<Rightarrow> (u32 \<times> vfs_node_t \<times> fat_volume) option" where
  "fat32_vfs_write node offset buf sz s =
     (if \<not> fat32_ready s \<or> sz = 0 then Some (0, node, s)
      else
        let (first, s1) = (if vimpl node = 0 then fat32_allocate_cluster s else (vimpl node, s))
        in if vimpl node = 0 \<and> first = EOC then Some (0, node, s1)
           else
             let node1 = node\<lparr>vimpl := first\<rparr>
             in if cluster_size s = 0 then None
                else case seek_clusters (unat (offset div cluster_size s)) first s1 of
                       (None, s2) \<Rightarrow> Some (0, node1, s2)
                     | (Some current, s2) \<Rightarrow>
                         (case fat_kmalloc (unat (cluster_size s)) s2 of
                            (None, s3) \<Rightarrow> Some (0, node1, s3)
                          | (Some temp, s3) \<Rightarrow>
                              map_option (\<lambda>(written, s4). finish_write node1 offset written s4)
                                (write_loop buf sz current (offset mod cluster_size s) temp 0 s3)))"

text \<open>The entry \<open>fat32_vfs_readdir\<close> stops at: the listed one with \<open>n\<close> listed ones before it.\<close>

fun nth_listed :: "nat \<Rightarrow> fat32_dir_entry list \<Rightarrow> fat32_dir_entry option" where
  "nth_listed n [] = None"
| "nth_listed n (e # es) =
     (if ename e ! 0 = 0 then None
      else if ename e ! 0 = 0xE5 \<or> eattr e AND 8 \<noteq> 0 \<or> eattr e AND 15 \<noteq> 0 then nth_listed n es
      else case n of 0 \<Rightarrow> Some e | Suc m \<Rightarrow> nth_listed m es)"

definition fat32_vfs_readdir ::
    "vfs_node_t \<Rightarrow> u32 \<Rightarrow> fat_volume \<Rightarrow> (vfs_node_t option \<times> fat_volume) option" where
  "fat32_vfs_readdir node index s =
     (if \<not> fat32_ready s then Some (None, s)
      else case fat_kmalloc (cluster_bytes s) s of
             (None, s1) \<Rightarrow> Some (None, s1)
           | (Some buf, s1) \<Rightarrow>
               (case disk_read_sectors (cluster_to_lba (vimpl node) s) (spc s) buf s1 of
                  (_, buf1, s2) \<Rightarrow>
                    (case nth_listed (unat index) (map (entry_at buf1) [0..<dir_entries s]) of
                       None \<Rightarrow> Some (None, s2)
                     | Some e \<Rightarrow> map_option (\<lambda>(n, s3). (Some n, s3))
                                   (fat_node (entry_node (readdir_name (ename e)) e (vimpl node)) s2))))"

definition fat32_vfs_finddir ::
    "vfs_node_t \<Rightarrow> string \<Rightarrow> fat_volume \<Rightarrow> (vfs_node_t option \<times> fat_volume) option" where
  "fat32_vfs_finddir node name s =
     (if \<not> fat32_ready s then Some (None, s)
      else case fat_kmalloc (cluster_bytes s) s of
             (None, s1) \<Rightarrow> Some (None, s1)
           | (Some buf, s1) \<Rightarrow>
               (case disk_read_sectors (cluster_to_lba (vimpl node) s) (spc s) buf s1 of
                  (_, buf1, s2) \<Rightarrow>
                    (case find_entry (\<lambda>e. fat32_compare_name (ename e) name) buf1 [0..<dir_entries s] of
                       None \<Rightarrow> Some (None, s2)
                     | Some i \<Rightarrow> map_option (\<lambda>(n, s3). (Some n, s3))
                                   (fat_node (entry_node name (entry_at buf1 i) (vimpl node)) s2))))"

text \<open>Freeing a chain; it may not end when the table cannot be written.\<close>

partial_function (option) free_chain :: "u32 \<Rightarrow> fat_volume \<Rightarrow> fat_volume option" where
  "free_chain current s =
     (if current \<ge> 2 \<and> current < 0x0FFFFFF8
      then case fat32_get_fat_entry current s of
             (e, s1) \<Rightarrow> free_chain e (snd (fat32_set_fat_entry current 0 s1))
      else Some s)"

text \<open>\<open>None\<close> as the parent is a null pointer.\<close>

definition fat32_vfs_unlink ::
    "vfs_node_t option \<Rightarrow> string \<Rightarrow> fat_volume \<Rightarrow> (bool \<times> fat_volume) option" where
  "fat32_vfs_unlink parent name s =
     (case parent of
        None \<Rightarrow> Some (False, s)
      | Some p \<Rightarrow>
          if \<not> fat32_ready s then Some (False, s)
          else
            let lba = cluster_to_lba (vimpl p) s
            in case fat_kmalloc (cluster_bytes s) s of
                 (None, s1) \<Rightarrow> Some (False, s1)
               | (Some buf, s1) \<Rightarrow>
                   (case disk_read_sectors lba (spc s) buf s1 of
                      (ok, buf1, s2) \<Rightarrow>
                        if \<not> ok then Some (False, s2)
                        else case find_entry (\<lambda>e. ename e ! 0 \<noteq> 0xE5 \<and> fat32_compare_name (ename e) name) buf1
                                    [0..<dir_entries s] of
                               None \<Rightarrow> Some (False, s2)
                             | Some i \<Rightarrow>
                                 let e = entry_at buf1 i
                                 in (case disk_write_sectors lba (spc s)
                                           (put_entry buf1 i (e\<lparr>ename := (ename e)[0 := 0xE5]\<rparr>)) s2 of
                                       (ok2, s3) \<Rightarrow>
                                         if \<not> ok2 then Some (False, s3)
                                         else map_option (\<lambda>s4. (True, s4)) (free_chain (entry_cluster e) s3))))"

definition dot_entries :: "u32 \<Rightarrow> u32 \<Rightarrow> u8 list \<Rightarrow> u8 list" where
  "dot_entries cluster parent buf =
     put_entry (put_entry buf 0 (set_cluster cluster (zero_entry\<lparr>ename := pad 11 [46], eattr := 0x10\<rparr>)))
       1 (set_cluster parent (zero_entry\<lparr>ename := pad 11 [46, 46], eattr := 0x10\<rparr>))"

definition fat32_vfs_mkdir ::
    "vfs_node_t option \<Rightarrow> string \<Rightarrow> fat_volume \<Rightarrow> (vfs_node_t option \<times> fat_volume) option" where
  "fat32_vfs_mkdir parent name s =
     (case parent of
        None \<Rightarrow> Some (None, s)
      | Some p \<Rightarrow>
          if \<not> fat32_ready s then Some (None, s)
          else case fat32_allocate_cluster s of
                 (cluster, s1) \<Rightarrow>
                   if cluster = EOC then Some (None, s1)
                   else case fat32_create_entry p name 0x10 cluster 0 s1 of
                          (ok, s2) \<Rightarrow>
                            if \<not> ok then Some (None, snd (fat32_set_fat_entry cluster 0 s2))
                            else case fat_kmalloc (cluster_bytes s) s2 of
                                   (None, s3) \<Rightarrow> Some (None, s3)
                                 | (Some _, s3) \<Rightarrow>
                                     let buf = dot_entries cluster (vimpl p) (replicate (cluster_bytes s) 0);
                                         s4 = snd (disk_write_sectors (cluster_to_lba cluster s) (spc s) buf s3)
                                     in map_option (\<lambda>(n, s5). (Some n, s5))
                                          (fat_node (file_node name 0 VFS_DIRECTORY cluster (vimpl p)) s4))"

definition fat32_get_root :: "fat_volume \<Rightarrow> (vfs_node_t \<times> fat_volume) option" where
  "fat32_get_root s =
     fat_node (zero_node\<lparr>vname := ''fat32_root'', vflags := VFS_DIRECTORY, vmask := 511,
       vimpl := root_cluster (bpb s), freaddir := FN_FAT32, ffinddir := FN_FAT32, fcreate := FN_FAT32,
       funlink := FN_FAT32, fmkdir := FN_FAT32\<rparr>) s"

subsection \<open>Bytes and sectors\<close>

abbreviation dsk :: "fat_volume \<Rightarrow> nat \<Rightarrow> u8 list" where "dsk s \<equiv> disks s (current_disk s)"

text \<open>A volume on which no transfer and no allocation fails.\<close>

definition healthy :: "fat_volume \<Rightarrow> bool" where
  "healthy s \<longleftrightarrow> io_script s = [] \<and> mem_script s = [] \<and> (\<forall>n. length (dsk s n) = 512)"

definition set_disk :: "(nat \<Rightarrow> u8 list) \<Rightarrow> fat_volume \<Rightarrow> fat_volume" where
  "set_disk d s = s\<lparr>disks := (disks s)(current_disk s := d)\<rparr>"

lemma set_disk_simps [simp]:
  "bpb (set_disk d s) = bpb s" "fat32_ready (set_disk d s) = fat32_ready s"
  "first_data_sector (set_disk d s) = first_data_sector s" "sectors_per_fat (set_disk d s) = sectors_per_fat s"
  "fat32_drive (set_disk d s) = fat32_drive s" "fat32_ahci_port (set_disk d s) = fat32_ahci_port s"
  "io_script (set_disk d s) = io_script s" "mem_script (set_disk d s) = mem_script s"
  "current_disk (set_disk d s) = current_disk s" "disks (set_disk d s) (current_disk s) = d"
  "set_disk d' (set_disk d s) = set_disk d' s" "set_disk (dsk s) s = s"
  by (simp_all add: set_disk_def current_disk_def)

lemma set_disk_geometry [simp]:
  "first_sector (set_disk d s) lba = first_sector s lba" "sectors_moved (set_disk d s) k = sectors_moved s k"
  "spc (set_disk d s) = spc s" "cluster_to_lba c (set_disk d s) = cluster_to_lba c s"
  "fat_sector c i (set_disk d s) = fat_sector c i s" "cluster_size (set_disk d s) = cluster_size s"
  "total_clusters (set_disk d s) = total_clusters s"
  by (simp_all add: first_sector_def sectors_moved_def spc_def cluster_to_lba_def fat_sector_def cluster_size_def
      total_clusters_def)

lemma healthy_set_disk [simp]: "healthy s \<Longrightarrow> healthy (set_disk d s) \<longleftrightarrow> (\<forall>n. length (d n) = 512)"
  by (simp add: healthy_def)

lemma healthy_kmalloc: "healthy s \<Longrightarrow> fat_kmalloc n s = (Some (replicate n 0), s)"
  by (simp add: fat_kmalloc_def healthy_def)

lemma healthy_length: "healthy s \<Longrightarrow> length (dsk s n) = 512"
  by (simp add: healthy_def)

lemma sectors_moved_1 [simp]: "sectors_moved s 1 = 1"
  by (simp add: sectors_moved_def ahci_count_def ahci_prdtl_def ata_count_def)

lemma healthy_read:
  "healthy s \<Longrightarrow> disk_read_sectors lba count buf s =
     (True, read_disk (dsk s) (first_sector s lba) (sectors_moved s count) @
        drop (length (read_disk (dsk s) (first_sector s lba) (sectors_moved s count))) buf, s)"
  by (simp add: disk_read_sectors_def next_io_def healthy_def Let_def)

lemma healthy_write:
  "healthy s \<Longrightarrow> disk_write_sectors lba count buf s =
     (True, set_disk (write_disk (first_sector s lba) (sectors_moved s count) buf (dsk s)) s)"
  by (simp add: disk_write_sectors_def next_io_def healthy_def Let_def set_disk_def)

lemma healthy_read_1:
  "healthy s \<Longrightarrow> length buf = 512 \<Longrightarrow> disk_read_sectors lba 1 buf s = (True, dsk s (first_sector s lba), s)"
  by (simp add: healthy_read read_disk_def healthy_length)

lemma write_disk_1: "length buf = 512 \<Longrightarrow> write_disk n 1 buf d = d(n := buf)"
  by (auto simp: write_disk_def slice_def fun_eq_iff)

lemma healthy_write_1:
  "healthy s \<Longrightarrow> length buf = 512 \<Longrightarrow>
   disk_write_sectors lba 1 buf s = (True, set_disk ((dsk s)(first_sector s lba := buf)) s)"
  by (simp add: healthy_write write_disk_1 [simplified])

subsection \<open>Entries of the table\<close>

text \<open>
  The tables lie in the first \<open>2\<^sup>2\<^sup>8\<close> sectors, there is at least one, and \<open>sectors_per_fat\<close> is
  the size \<^verbatim>\<open>fat32_probe\<close> took from the boot record.
\<close>

definition layout_ok :: "fat_volume \<Rightarrow> bool" where
  "layout_ok s \<longleftrightarrow> 0 < unat (fat_count (bpb s)) \<and> sectors_per_fat s = fat_size_long (bpb s) \<and>
     unat (reserved_sectors (bpb s)) + unat (fat_count (bpb s)) * unat (sectors_per_fat s) \<le> 2 ^ 28"

definition in_table :: "fat_volume \<Rightarrow> u32 \<Rightarrow> bool" where
  "in_table s c \<longleftrightarrow> unat c < 128 * unat (sectors_per_fat s) \<and> unat c < 2 ^ 30"

definition table_sector :: "fat_volume \<Rightarrow> u32 \<Rightarrow> nat \<Rightarrow> nat" where
  "table_sector s c i = unat (reserved_sectors (bpb s)) + i * unat (sectors_per_fat s) + unat c div 128"

definition fat_value :: "fat_volume \<Rightarrow> nat \<Rightarrow> u32 \<Rightarrow> u32" where
  "fat_value s i c = le32 (dsk s (table_sector s c i)) (4 * (unat c mod 128)) AND 0x0FFFFFFF"

lemma layout_spf: "layout_ok s \<Longrightarrow> unat (sectors_per_fat s) \<le> 2 ^ 28"
proof -
  assume l: "layout_ok s"
  then have "1 * unat (sectors_per_fat s) \<le> unat (fat_count (bpb s)) * unat (sectors_per_fat s)"
    by (intro mult_le_mono1) (simp add: layout_ok_def)
  then show ?thesis using l unfolding layout_ok_def by linarith
qed

text \<open>Clusters whose entry offset does not wrap; every cluster number of FAT32 is one.\<close>

lemma fat_offset_eq: "unat c < 2 ^ 30 \<Longrightarrow> fat_offset c = 4 * (unat c mod 128)"
proof -
  assume "unat c < 2 ^ 30"
  then have "unat (c * 4) = 4 * unat c" by (simp add: unat_word_ariths)
  then show ?thesis by (simp add: fat_offset_def unat_mod mult_mod_right)
qed

lemma fat_sector_offset_eq: "unat c < 2 ^ 30 \<Longrightarrow> unat (fat_sector_offset c) = unat c div 128"
proof -
  assume "unat c < 2 ^ 30"
  then have "unat (c * 4) = 4 * unat c" by (simp add: unat_word_ariths)
  then show ?thesis by (simp add: fat_sector_offset_def unat_div div_mult2_eq [symmetric])
qed

lemma table_sector_behind:
  assumes "layout_ok s" "in_table s c" "i < unat (fat_count (bpb s))"
  shows "table_sector s c i <
    unat (reserved_sectors (bpb s)) + unat (fat_count (bpb s)) * unat (sectors_per_fat s)"
proof -
  let ?f = "unat (sectors_per_fat s)"
  have "unat c div 128 < ?f" using assms(2) by (simp add: in_table_def less_mult_imp_div_less mult.commute)
  then have "i * ?f + unat c div 128 < Suc i * ?f" by simp
  also have "\<dots> \<le> unat (fat_count (bpb s)) * ?f" using assms(3) by (intro mult_le_mono1) simp
  finally show ?thesis unfolding table_sector_def by linarith
qed

lemma table_sector_bound:
  assumes "layout_ok s" "in_table s c" "i < unat (fat_count (bpb s))"
  shows "table_sector s c i < 2 ^ 28"
  using table_sector_behind [OF assms] assms(1) unfolding layout_ok_def by linarith

lemma first_sector_of_nat: "n < 2 ^ 28 \<Longrightarrow> first_sector s (of_nat n) = n"
proof -
  assume n: "n < 2 ^ 28"
  then have "unat (of_nat n :: u32) = n" by (simp add: unat_of_nat)
  moreover have "unat ((of_nat n :: u32) AND mask 28) = take_bit 28 (unat (of_nat n :: u32))"
    by (simp add: take_bit_eq_mask [symmetric] unsigned_take_bit_eq del: of_nat_take_bit)
  moreover have "take_bit 28 n = n" using n by (simp add: take_bit_nat_eq_self)
  ultimately show ?thesis by (simp add: first_sector_def mask_eq_exp_minus_1)
qed

lemma fat_sector_of_nat:
  assumes "unat c < 2 ^ 30"
  shows "fat_sector c i s = of_nat (table_sector s c i)"
proof -
  have "fat_sector_offset c = of_nat (unat c div 128)"
    using fat_sector_offset_eq [OF assms] by (metis of_nat_unat ucast_id)
  then show ?thesis by (simp add: fat_sector_def table_sector_def of_nat_unat)
qed

lemma table_first_sector:
  assumes "layout_ok s" "in_table s c" "i < unat (fat_count (bpb s))"
  shows "first_sector s (fat_sector c i s) = table_sector s c i"
  using table_sector_bound [OF assms] assms(2) by (simp add: fat_sector_of_nat in_table_def first_sector_of_nat)

lemma get_fat_value:
  assumes "healthy s" "layout_ok s" "in_table s c"
  shows "fat32_get_fat_entry c s = (fat_value s 0 c, s)"
proof -
  have "ucast (reserved_sectors (bpb s)) + fat_sector_offset c = fat_sector c 0 s" by (simp add: fat_sector_def)
  then show ?thesis
    using assms table_first_sector [OF assms(2,3), of 0]
    by (simp add: fat32_get_fat_entry_def healthy_kmalloc healthy_read_1 fat_value_def fat_offset_eq in_table_def
        layout_ok_def)
qed

text \<open>The effect of \<^verbatim>\<open>fat32_set_fat_entry\<close> on the sectors: the entry of every copy changes.\<close>

definition set_entry :: "fat_volume \<Rightarrow> u32 \<Rightarrow> u32 \<Rightarrow> nat set \<Rightarrow> fat_volume" where
  "set_entry s c v I = set_disk (\<lambda>n. if n \<in> table_sector s c ` I
     then put32 (dsk s n) (4 * (unat c mod 128)) (v AND 0x0FFFFFFF) else dsk s n) s"

lemma table_sector_inj:
  assumes "in_table s c" "table_sector s c i = table_sector s c j"
  shows "i = j"
proof -
  have "0 < unat (sectors_per_fat s)" using assms(1) by (auto simp: in_table_def intro: gr0I)
  then show ?thesis using assms(2) by (simp add: table_sector_def)
qed

lemma table_sector_set_disk [simp]: "table_sector (set_disk d s) c i = table_sector s c i"
  by (simp add: table_sector_def)

lemma set_fat_loop_eq:
  assumes "layout_ok s" "in_table s c"
  shows "healthy t \<Longrightarrow> t = set_entry s c v I \<Longrightarrow> length buf = 512 \<Longrightarrow> distinct is \<Longrightarrow> set is \<inter> I = {} \<Longrightarrow>
    set is \<subseteq> {..<unat (fat_count (bpb s))} \<Longrightarrow> set_fat_loop is c v buf t = (True, set_entry s c v (I \<union> set is))"
proof (induction "is" arbitrary: I buf t)
  case (Cons i "is")
  let ?n = "table_sector s c i"
  let ?b = "put32 (dsk s ?n) (4 * (unat c mod 128)) (v AND 0x0FFFFFFF)"
  have i: "i < unat (fat_count (bpb s))" using Cons.prems by simp
  have ni: "?n \<notin> table_sector s c ` I" using Cons.prems table_sector_inj [OF assms(2)] by auto
  have fs: "first_sector t (fat_sector c i t) = ?n"
    using table_first_sector [OF assms i] Cons.prems(2) by (simp add: set_entry_def)
  have d: "dsk t ?n = dsk s ?n" using Cons.prems(2) ni by (simp add: set_entry_def)
  have len: "length (dsk s ?n) = 512" using healthy_length [OF Cons.prems(1), of ?n] d by simp
  have t2: "set_disk ((dsk t)(?n := ?b)) t = set_entry s c v (insert i I)"
    using Cons.prems(2) by (auto simp: set_entry_def intro!: arg_cong [where f = "\<lambda>d. set_disk d s"])
  have h2: "healthy (set_entry s c v (insert i I))"
    using Cons.prems(1) len healthy_length [OF Cons.prems(1)] unfolding t2 [symmetric] by simp
  have "set_fat_loop (i # is) c v buf t = set_fat_loop is c v ?b (set_entry s c v (insert i I))"
    using Cons.prems fs d len assms(2) t2
    by (simp add: healthy_read_1 healthy_write_1 fat_offset_eq in_table_def Let_def)
  also have "\<dots> = (True, set_entry s c v (insert i I \<union> set is))"
    by (rule Cons.IH [OF h2]) (use Cons.prems len in auto)
  finally show ?case by simp
qed simp

abbreviation fat_copies :: "fat_volume \<Rightarrow> nat set" where
  "fat_copies s \<equiv> {..<unat (fat_count (bpb s))}"

lemma set_entry_none [simp]: "set_entry s c v {} = s"
  by (simp add: set_entry_def)

lemma set_fat_eq:
  assumes "healthy s" "layout_ok s" "in_table s c"
  shows "fat32_set_fat_entry c v s = (True, set_entry s c v (fat_copies s))"
  using set_fat_loop_eq [OF assms(2,3), of s v "{}" "replicate 512 0" "[0..<unat (fat_count (bpb s))]"] assms(1)
  by (simp add: fat32_set_fat_entry_def healthy_kmalloc atLeast0LessThan)

lemma set_entry_simps [simp]:
  "bpb (set_entry s c v I) = bpb s" "sectors_per_fat (set_entry s c v I) = sectors_per_fat s"
  "first_data_sector (set_entry s c v I) = first_data_sector s" "fat32_ready (set_entry s c v I) = fat32_ready s"
  "layout_ok (set_entry s c v I) = layout_ok s" "in_table (set_entry s c v I) c' = in_table s c'"
  "table_sector (set_entry s c v I) c' i = table_sector s c' i" "total_clusters (set_entry s c v I) = total_clusters s"
  by (simp_all add: set_entry_def layout_ok_def in_table_def)

lemma healthy_set_entry [simp]: "healthy s \<Longrightarrow> healthy (set_entry s c v I)"
  by (simp add: set_entry_def healthy_length)

lemma table_sector_eq:
  assumes "in_table s c" "in_table s c'" "table_sector s c i = table_sector s c' j"
  shows "i = j \<and> unat c div 128 = unat c' div 128"
proof -
  let ?f = "unat (sectors_per_fat s)"
  have b: "unat c div 128 < ?f" "unat c' div 128 < ?f"
    using assms by (simp_all add: in_table_def less_mult_imp_div_less mult.commute)
  have e: "i * ?f + unat c div 128 = j * ?f + unat c' div 128" using assms(3) by (simp add: table_sector_def)
  have "(i * ?f + unat c div 128) div ?f = i" "(j * ?f + unat c' div 128) div ?f = j" using b by simp_all
  then show ?thesis using e by auto
qed

lemma fat_value_set_entry:
  assumes "healthy s" "in_table s c" "in_table s c'"
  shows "fat_value (set_entry s c v I) i c' = (if c' = c \<and> i \<in> I then v AND 0x0FFFFFFF else fat_value s i c')"
proof -
  let ?n = "table_sector s c' i"
  have d: "disks (set_entry s c v I) (current_disk (set_entry s c v I)) ?n =
      (if ?n \<in> table_sector s c ` I then put32 (dsk s ?n) (4 * (unat c mod 128)) (v AND 0x0FFFFFFF) else dsk s ?n)"
    by (simp add: set_entry_def)
  show ?thesis
  proof (cases "?n \<in> table_sector s c ` I")
    case True
    then have *: "i \<in> I" "unat c div 128 = unat c' div 128" 
      using table_sector_eq [OF assms(2,3)] by (metis imageE)+
    have len: "4 * (unat c mod 128) + 4 \<le> length (dsk s ?n)" using healthy_length [OF assms(1)] by simp
    show ?thesis
    proof (cases "c' = c")
      case eq: True
      then show ?thesis using d True * le32_put32_same [OF len] by (simp add: fat_value_def)
    next
      case False
      then have "unat c mod 128 \<noteq> unat c' mod 128" using *(2) by (metis div_mult_mod_eq unsigned_word_eqI)
      then have "4 * (unat c' mod 128) + 4 \<le> 4 * (unat c mod 128) \<or> 4 * (unat c mod 128) + 4 \<le> 4 * (unat c' mod 128)"
        by arith
      then show ?thesis using d True False by (simp add: fat_value_def le32_put32_other)
    qed
  next
    case False
    then show ?thesis using d by (auto simp: fat_value_def)
  qed
qed

text \<open>
  C8. Table entries: on a working disk, setting the entry of a cluster succeeds, in every copy
  of the table; reading it back gives the low 28 bits of the value, the entries of all other
  clusters keep their values, and no sector behind the tables changes.
\<close>

theorem fat_entry_roundtrip:
  assumes "healthy s" "layout_ok s" "in_table s c" "fat32_set_fat_entry c v s = (ok, s')"
  shows "ok \<and> fat32_get_fat_entry c s' = (v AND 0x0FFFFFFF, s') \<and>
    (\<forall>i < unat (fat_count (bpb s)). fat_value s' i c = v AND 0x0FFFFFFF) \<and>
    (\<forall>c'. in_table s c' \<and> c' \<noteq> c \<longrightarrow> fst (fat32_get_fat_entry c' s') = fst (fat32_get_fat_entry c' s)) \<and>
    (\<forall>n \<ge> unat (reserved_sectors (bpb s)) + unat (fat_count (bpb s)) * unat (sectors_per_fat s). dsk s' n = dsk s n)"
proof -
  have s': "ok" "s' = set_entry s c v (fat_copies s)" using set_fat_eq [OF assms(1-3)] assms(4) by auto
  have n0: "0 < unat (fat_count (bpb s))" using assms(2) by (simp add: layout_ok_def)
  have "fat32_get_fat_entry c s' = (v AND 0x0FFFFFFF, s')"
    using assms s' n0 by (simp add: get_fat_value fat_value_set_entry)
  moreover have "\<forall>i < unat (fat_count (bpb s)). fat_value s' i c = v AND 0x0FFFFFFF"
    using assms s' by (simp add: fat_value_set_entry)
  moreover have "\<forall>c'. in_table s c' \<and> c' \<noteq> c \<longrightarrow> fst (fat32_get_fat_entry c' s') = fst (fat32_get_fat_entry c' s)"
    using assms s' by (simp add: get_fat_value fat_value_set_entry)
  moreover have "dsk s' n = dsk s n"
    if "n \<ge> unat (reserved_sectors (bpb s)) + unat (fat_count (bpb s)) * unat (sectors_per_fat s)" for n
  proof -
    have "n \<notin> table_sector s c ` fat_copies s"
      using table_sector_behind [OF assms(2,3)] that by force
    then show ?thesis using s' by (simp add: set_entry_def)
  qed
  ultimately show ?thesis using s' by blast
qed

text \<open>A small volume: two tables of one sector behind 32 reserved sectors, one sector per cluster.\<close>

definition example_bpb :: fat32_bpb where
  "example_bpb = (decode_bpb (replicate 512 0))\<lparr>sectors_per_cluster := 1, reserved_sectors := 32, fat_count := 2,
     fat_size_long := 1, root_cluster := 2\<rparr>"

definition example_volume :: fat_volume where
  "example_volume = \<lparr>bpb = example_bpb, fat32_ready = True, first_data_sector = 34, sectors_per_fat = 1,
     fat32_drive = ATA_MASTER, fat32_ahci_port = False, disks = (\<lambda>_ _. replicate 512 0), io_script = [],
     mem_script = []\<rparr>"

lemma example_volume_ok [simp]:
  "healthy example_volume" "layout_ok example_volume" "in_table example_volume c \<longleftrightarrow> unat c < 128"
  by (auto simp: healthy_def example_volume_def layout_ok_def example_bpb_def in_table_def)

theorem fat_entry_roundtrip_witness:
  "fst (fat32_get_fat_entry 5 (snd (fat32_set_fat_entry 5 EOC example_volume))) = EOC"
proof -
  obtain ok s' where e: "fat32_set_fat_entry 5 EOC example_volume = (ok, s')" by fastforce
  have "in_table example_volume 5" by simp
  from fat_entry_roundtrip [OF example_volume_ok(1,2) this e]
  have "fat32_get_fat_entry 5 s' = (EOC AND 0x0FFFFFFF, s')" by blast
  then show ?thesis unfolding e by (simp add: EOC_def)
qed

subsection \<open>Allocation\<close>

text \<open>
  The clusters the search goes through, when \<^verbatim>\<open>fat_size_long * 512\<close> does not wrap.
\<close>

lemma total_clusters_eq:
  "unat (fat_size_long (bpb s)) < 2 ^ 23 \<Longrightarrow> unat (total_clusters s) = 128 * unat (fat_size_long (bpb s))"
  by (simp add: total_clusters_def unat_div unat_word_ariths)

lemma allocate_loop_eq:
  assumes "healthy s" "layout_ok s" "\<forall>c. unat c < unat i + n \<longrightarrow> in_table s c"
  shows "unat i + n < 2 ^ 32 \<Longrightarrow> allocate_loop n i s =
    (case find (\<lambda>k. fat_value s 0 (of_nat k) = 0) [unat i..<unat i + n] of
       None \<Rightarrow> (EOC, s)
     | Some k \<Rightarrow> (of_nat k, set_entry s (of_nat k) EOC (fat_copies s)))"
  using assms(3)
proof (induction n arbitrary: i)
  case (Suc n)
  have u: "unat (i + 1) = unat i + 1" using Suc.prems(1) by (simp add: unat_word_ariths)
  have it: "in_table s i" using Suc.prems(2) by simp
  have ran: "[unat i..<unat i + Suc n] = unat i # [unat (i + 1)..<unat (i + 1) + n]"
    using u by (simp add: upt_conv_Cons)
  have w: "of_nat (unat i) = i" by simp
  show ?case
  proof (cases "fat_value s 0 i = 0")
    case True
    then show ?thesis unfolding ran using it assms by (simp add: get_fat_value set_fat_eq)
  next
    case False
    have "allocate_loop (Suc n) i s = allocate_loop n (i + 1) s"
      using False it assms by (simp add: get_fat_value)
    then show ?thesis unfolding ran using Suc.IH [of "i + 1"] Suc.prems u False by simp
  qed
qed simp

text \<open>
  C12. Cluster allocation takes the lowest free cluster and marks it as the end of a chain in
  every copy of the table, all other entries keep their values; it reports failure, without
  changing the disk, exactly when no cluster from 2 on is free.
\<close>

theorem fat32_allocate_cluster_lowest:
  assumes "healthy s" "layout_ok s" "unat (fat_size_long (bpb s)) < 2 ^ 21"
    and "fat32_allocate_cluster s = (c, s')"
  shows "(\<forall>k. 2 \<le> k \<and> k < unat (total_clusters s) \<longrightarrow> fat_value s 0 (of_nat k) \<noteq> 0) \<and> c = EOC \<and> s' = s \<or>
    2 \<le> unat c \<and> unat c < unat (total_clusters s) \<and> c \<noteq> EOC \<and> fat_value s 0 c = 0 \<and>
    (\<forall>k. 2 \<le> k \<and> k < unat c \<longrightarrow> fat_value s 0 (of_nat k) \<noteq> 0) \<and>
    (\<forall>i < unat (fat_count (bpb s)). \<forall>c'. in_table s c' \<longrightarrow>
       fat_value s' i c' = (if c' = c then EOC else fat_value s i c'))"
proof -
  let ?t = "unat (total_clusters s)"
  have t: "?t = 128 * unat (sectors_per_fat s)" "?t < 2 ^ 28 - 127"
    using total_clusters_eq [of s] assms(2,3) by (auto simp: layout_ok_def)
  have tab: "\<forall>c. unat c < ?t \<longrightarrow> in_table s c" using t by (auto simp: in_table_def)
  have loop: "fat32_allocate_cluster s =
    (case find (\<lambda>k. fat_value s 0 (of_nat k) = 0) [2..<?t] of
       None \<Rightarrow> (EOC, s) | Some k \<Rightarrow> (of_nat k, set_entry s (of_nat k) EOC (fat_copies s)))"
  proof (cases "?t \<le> 2")
    case False
    then have "?t = unat (2 :: u32) + (?t - 2)" by simp
    then show ?thesis
      using allocate_loop_eq [OF assms(1,2), of 2 "?t - 2"] tab t(2) by (simp add: fat32_allocate_cluster_def)
  qed (simp add: fat32_allocate_cluster_def)
  show ?thesis
  proof (cases "find (\<lambda>k. fat_value s 0 (of_nat k) = 0) [2..<?t]")
    case None
    then have "c = EOC" "s' = s" using loop assms(4) by simp_all
    then show ?thesis using None unfolding find_upt_None_iff by blast
  next
    case (Some k)
    then have k: "2 \<le> k" "k < ?t" "fat_value s 0 (of_nat k) = 0" "\<And>j. 2 \<le> j \<Longrightarrow> j < k \<Longrightarrow> fat_value s 0 (of_nat j) \<noteq> 0"
      by (auto simp: find_upt_Some_iff)
    have c: "c = of_nat k" "s' = set_entry s c EOC (fat_copies s)" using Some loop assms(4) by auto
    have uc: "unat c = k" using k(2) t(2) c(1) by (simp add: unat_of_nat)
    then have "in_table s c" "c \<noteq> EOC" using tab k(2) t(2) by (auto simp: EOC_def)
    moreover from this have "fat_value s' i c' = (if c' = c then EOC else fat_value s i c')"
      if "in_table s c'" "i < unat (fat_count (bpb s))" for i c'
      using fat_value_set_entry [OF assms(1) _ that(1), of c EOC "fat_copies s" i] that c(2) by (simp add: EOC_def)
    moreover have "fat_value s 0 c = 0" "\<And>j. 2 \<le> j \<Longrightarrow> j < unat c \<Longrightarrow> fat_value s 0 (of_nat j) \<noteq> 0"
      using k(3,4) c(1) uc by simp_all
    ultimately show ?thesis using k(1,2) uc by (intro disjI2 conjI allI impI) simp_all
  qed
qed

theorem fat32_allocate_cluster_lowest_witness:
  "fst (fat32_allocate_cluster example_volume) = 2"
proof -
  let ?s = example_volume
  obtain c s' where e: "fat32_allocate_cluster ?s = (c, s')" by fastforce
  have v: "fat_value ?s 0 k = 0" for k by (simp add: fat_value_def le32_def join32_def example_volume_def)
  have "unat (fat_size_long (bpb ?s)) < 2 ^ 21" "unat (total_clusters ?s) = 128"
    by (simp_all add: example_volume_def example_bpb_def total_clusters_def)
  from fat32_allocate_cluster_lowest [OF example_volume_ok(1,2) this(1) e] this(2) v
  have "2 \<le> unat c" "\<not> 2 < unat c" by force+
  then have "unat c = unat (2 :: u32)" by simp
  then show ?thesis unfolding e fst_conv by (rule unsigned_word_eqI)
qed

subsection \<open>Reading files\<close>

definition cluster_data :: "fat_volume \<Rightarrow> u32 \<Rightarrow> u8 list" where
  "cluster_data s c = read_disk (dsk s) (first_sector s (cluster_to_lba c s)) (unat (spc s))"

text \<open>A chain of clusters as the table links them, all but the end mark.\<close>

fun chain_ok :: "fat_volume \<Rightarrow> u32 list \<Rightarrow> bool" where
  "chain_ok s [] = True"
| "chain_ok s (c # cs) \<longleftrightarrow> in_table s c \<and> 2 \<le> c \<and> c < 0x0FFFFFF8 \<and>
     (case cs of [] \<Rightarrow> True | d # _ \<Rightarrow> fat_value s 0 c = d) \<and> chain_ok s cs"

text \<open>The bytes of a file in a chain of clusters.\<close>

definition file_data :: "fat_volume \<Rightarrow> u32 list \<Rightarrow> u8 list" where
  "file_data s cs = concat (map (cluster_data s) cs)"

text \<open>
  A volume whose cluster transfers move the whole cluster: at least one sector per cluster, and
  at most 16 through AHCI.
\<close>

definition whole_clusters :: "fat_volume \<Rightarrow> bool" where
  "whole_clusters s \<longleftrightarrow> 0 < unat (spc s) \<and> sectors_moved s (spc s) = unat (spc s)"

lemma length_read_disk: "(\<And>n. length (d n) = 512) \<Longrightarrow> length (read_disk d a k) = 512 * k"
  by (induction k) (simp_all add: read_disk_def)

lemma length_cluster_data: "healthy s \<Longrightarrow> length (cluster_data s c) = cluster_bytes s"
  by (simp add: cluster_data_def length_read_disk healthy_length cluster_bytes_def)

lemma length_file_data: "healthy s \<Longrightarrow> length (file_data s cs) = length cs * cluster_bytes s"
  by (induction cs) (simp_all add: file_data_def length_cluster_data)

lemma file_data_simps [simp]: "file_data s [] = []" "file_data s (c # cs) = cluster_data s c @ file_data s cs"
  by (simp_all add: file_data_def)

lemma unat_spc_less: "unat (spc s) < 256"
proof -
  have "unat (sectors_per_cluster (bpb s)) < 2 ^ LENGTH(8)" by (rule unsigned_less)
  then show ?thesis by (simp add: spc_def unsigned_ucast_eq take_bit_eq_mod)
qed

lemma unat_cluster_size: "unat (cluster_size s) = cluster_bytes s"
  using unat_spc_less [of s] by (simp add: cluster_size_def cluster_bytes_def unat_word_ariths)

lemma read_cluster:
  assumes "healthy s" "whole_clusters s" "length temp = cluster_bytes s"
  shows "disk_read_sectors (cluster_to_lba c s) (spc s) temp s = (True, cluster_data s c, s)"
  using assms length_cluster_data [OF assms(1), of c]
  by (simp add: healthy_read whole_clusters_def cluster_data_def)

lemma read_loop_done: "length out = unat rs \<Longrightarrow> read_loop rs c coff temp out s = Some (out, s)"
  by (subst read_loop.simps) simp

lemma read_loop_step:
  assumes "healthy s" "layout_ok s" "whole_clusters s" "in_table s c" "2 \<le> c" "c < 0x0FFFFFF8"
    and "unat coff < cluster_bytes s" "length out < unat rs" "length temp = cluster_bytes s"
  defines "n \<equiv> min (unat rs - length out) (cluster_bytes s - unat coff)"
  defines "out1 \<equiv> out @ slice (unat coff) n (cluster_data s c)"
  shows "read_loop rs c coff temp out s =
    (if length out1 < unat rs then read_loop rs (fat_value s 0 c) 0 (cluster_data s c) out1 s else Some (out1, s))"
    and "length out1 = length out + n"
proof -
  let ?left = "rs - of_nat (length out)"
  have out: "unat (of_nat (length out) :: u32) = length out"
    using assms(8) unat_u32_bound [of rs] by (simp add: unat_of_nat)
  have left: "unat ?left = unat rs - length out"
    using assms(8) out by (simp add: unat_sub word_le_nat_alt)
  have room: "unat (cluster_size s - coff) = cluster_bytes s - unat coff"
    using assms(7) by (simp add: unat_sub word_le_nat_alt unat_cluster_size)
  have lt: "of_nat (length out) < rs" using assms(8) out by (simp add: word_less_nat_alt)
  have tc: "unat (if ?left < cluster_size s - coff then ?left else cluster_size s - coff) = n"
    using left room by (simp add: word_less_nat_alt n_def min_def)
  show len: "length out1 = length out + n"
    using length_cluster_data [OF assms(1), of c] assms(7) by (simp add: out1_def length_slice n_def)
  then have "length out1 \<le> unat rs" using assms(8) by (simp add: n_def)
  then have "unat (of_nat (length out1) :: u32) = length out1"
    using unat_u32_bound [of rs] by (simp add: unat_of_nat)
  then have lt1: "(of_nat (length out1) < rs) = (length out1 < unat rs)" by (simp add: word_less_nat_alt)
  have "read_loop rs c coff temp out s =
    (let (nx, s2) = (if of_nat (length out1) < rs then fat32_get_fat_entry c s else (c, s))
     in read_loop rs nx 0 (cluster_data s c) out1 s2)"
    using lt assms(5,6) tc read_cluster [OF assms(1,3,9), of c]
    by (subst read_loop.simps) (simp add: Let_def out1_def)
  also have "\<dots> = (if length out1 < unat rs then read_loop rs (fat_value s 0 c) 0 (cluster_data s c) out1 s
      else read_loop rs c 0 (cluster_data s c) out1 s)"
    using lt1 get_fat_value [OF assms(1,2,4)] by simp
  finally show "read_loop rs c coff temp out s =
    (if length out1 < unat rs then read_loop rs (fat_value s 0 c) 0 (cluster_data s c) out1 s else Some (out1, s))"
    using read_loop_done \<open>length out1 \<le> unat rs\<close> by simp
qed

lemma read_loop_eq:
  assumes "healthy s" "layout_ok s" "whole_clusters s"
  shows "chain_ok s (c # cs) \<Longrightarrow> unat coff < cluster_bytes s \<Longrightarrow> length out < unat rs \<Longrightarrow>
    unat rs - length out + unat coff \<le> length (c # cs) * cluster_bytes s \<Longrightarrow> length temp = cluster_bytes s \<Longrightarrow>
    read_loop rs c coff temp out s = Some (out @ slice (unat coff) (unat rs - length out) (file_data s (c # cs)), s)"
proof (induction cs arbitrary: c coff out temp)
  case (Nil c coff out temp)
  note st = read_loop_step [OF assms _ _ _ Nil.prems(2,3,5), of c]
  have "min (unat rs - length out) (cluster_bytes s - unat coff) = unat rs - length out" using Nil.prems by simp
  then show ?case using st Nil.prems by simp
next
  case (Cons d ds c coff out temp)
  let ?K = "cluster_bytes s" and ?m = "unat rs - length out"
  note st = read_loop_step [OF assms _ _ _ Cons.prems(2,3,5), of c]
  have len: "length (cluster_data s c) = ?K" by (rule length_cluster_data [OF assms(1)])
  show ?case
  proof (cases "?m \<le> ?K - unat coff")
    case True
    then have "slice (unat coff) ?m (file_data s (c # d # ds)) = slice (unat coff) ?m (cluster_data s c)"
      using Cons.prems(2) len by (simp add: slice_app)
    then show ?thesis using st Cons.prems True by (simp add: min_def)
  next
    case False
    let ?out1 = "out @ slice (unat coff) (?K - unat coff) (cluster_data s c)"
    have mn: "min ?m (?K - unat coff) = ?K - unat coff" using False by simp
    have l1: "length ?out1 = length out + (?K - unat coff)" using len Cons.prems(2) by (simp add: length_slice)
    have "length ?out1 < unat rs" using l1 False by linarith
    then have "read_loop rs c coff temp out s = read_loop rs d 0 (cluster_data s c) ?out1 s"
      using st(1) [unfolded mn] Cons.prems(1) by simp
    also have "\<dots> = Some (?out1 @ slice (unat (0 :: u32)) (unat rs - length ?out1) (file_data s (d # ds)), s)"
      by (rule Cons.IH) (use Cons.prems False l1 len in \<open>auto\<close>)
    also have "\<dots> = Some (out @ slice (unat coff) ?m (file_data s (c # d # ds)), s)"
      using slice_app(2) [of "unat coff" "cluster_data s c" ?m "file_data s (d # ds)"] len False Cons.prems(2) l1
      by (simp add: slice_def)
    finally show ?thesis .
  qed
qed

lemma chain_ok_drop: "chain_ok s cs \<Longrightarrow> chain_ok s (drop n cs)"
proof (induction cs arbitrary: n)
  case (Cons c cs)
  then show ?case by (cases n) auto
qed simp

lemma skip_clusters_chain:
  assumes "healthy s" "layout_ok s"
  shows "chain_ok s (c # cs) \<Longrightarrow> n < length (c # cs) \<Longrightarrow> skip_clusters n c s = (Some ((c # cs) ! n), s)"
proof (induction n arbitrary: c cs)
  case (Suc n)
  then obtain d ds where "cs = d # ds" by (cases cs) auto
  then show ?case using Suc assms by (auto simp: get_fat_value)
qed simp

lemma file_data_drop: "healthy s \<Longrightarrow> file_data s (drop n cs) = drop (n * cluster_bytes s) (file_data s cs)"
proof (induction n arbitrary: cs)
  case (Suc n)
  then show ?case by (cases cs) (simp_all add: length_cluster_data)
qed simp

text \<open>
  C9. Reading a file, without disk errors or failed allocations (\<open>healthy\<close>) and on a driver that
  moves a whole cluster in one transfer (\<open>whole_clusters\<close>: every ATA volume, and AHCI volumes with
  at most 16 sectors in a cluster, because longer AHCI transfers lose sectors): for a node whose chain
  of clusters is long enough for its length, and for an offset and a size whose sum does not wrap
  around at \<open>2\<^sup>32\<close>, \<^verbatim>\<open>fat32_vfs_read\<close> returns exactly the requested part of the file, as far as the
  file goes, from however many clusters, and changes nothing.
\<close>

theorem fat32_vfs_read_correct:
  assumes "healthy s" "layout_ok s" "whole_clusters s" "fat32_ready s"
    and "chain_ok s (c # cs)" "vimpl node = c"
    and "unat (vlength node) \<le> length (c # cs) * cluster_bytes s" "unat offset + unat sz < 2 ^ 32"
  shows "fat32_vfs_read node offset sz s =
    Some (slice (unat offset) (unat sz) (take (unat (vlength node)) (file_data s (c # cs))), s)"
proof (cases "vlength node = 0 \<or> sz = 0 \<or> offset \<ge> vlength node")
  case True
  then show ?thesis by (auto simp: fat32_vfs_read_def slice_def word_le_nat_alt)
next
  case False
  let ?K = "cluster_bytes s" and ?cs = "c # cs" and ?D = "file_data s (c # cs)"
  let ?len = "unat (vlength node)" and ?q = "unat offset div cluster_bytes s"
  define rs where "rs = (if offset + sz > vlength node then vlength node - offset else sz)"
  have K: "0 < ?K" using assms(3) by (simp add: whole_clusters_def cluster_bytes_def)
  have cs0: "cluster_size s \<noteq> 0" using K unat_cluster_size [of s] by auto
  have off: "unat offset < ?len" using False by (simp add: word_le_nat_alt)
  have "unat (offset + sz) = unat offset + unat sz" using assms(8) by (simp add: unat_word_ariths)
  then have rs: "unat rs = min (unat sz) (?len - unat offset)"
    using off by (auto simp: rs_def word_less_nat_alt unat_sub word_le_nat_alt)
  have rs0: "0 < unat rs" using rs off False by (simp add: unat_gt_0)
  have q: "?q < length ?cs" using off assms(7) by (simp add: less_mult_imp_div_less)
  have skip: "skip_clusters ?q c s = (Some (?cs ! ?q), s)" by (rule skip_clusters_chain [OF assms(1,2,5) q])
  have dq: "drop ?q ?cs = ?cs ! ?q # drop (Suc ?q) ?cs" using q by (rule Cons_nth_drop_Suc [symmetric])
  have pos: "unat offset = ?q * ?K + unat offset mod ?K" by simp
  have m: "unat (offset mod cluster_size s) = unat offset mod ?K" by (simp add: unat_mod unat_cluster_size)
  have room: "unat rs + unat offset mod ?K \<le> length (drop ?q ?cs) * ?K"
  proof -
    have "unat rs + (?q * ?K + unat offset mod ?K) \<le> length ?cs * ?K"
      using rs off assms(7) unfolding pos [symmetric] by linarith
    then show ?thesis by (simp only: length_drop diff_mult_distrib)
  qed
  have "read_loop rs (?cs ! ?q) (offset mod cluster_size s) (replicate ?K 0) [] s =
      Some ([] @ slice (unat (offset mod cluster_size s)) (unat rs - length ([] :: u8 list))
        (file_data s (?cs ! ?q # drop (Suc ?q) ?cs)), s)"
    by (rule read_loop_eq [OF assms(1-3)])
      (use chain_ok_drop [OF assms(5), of ?q] dq m K rs0 room in \<open>simp_all\<close>)
  also have "\<dots> = Some (slice (unat offset) (unat rs) ?D, s)"
    using pos unfolding dq [symmetric] m file_data_drop [OF assms(1)]
    by (simp add: slice_def add.commute del: file_data_simps)
  also have "slice (unat offset) (unat rs) ?D = slice (unat offset) (unat sz) (take ?len ?D)"
    using rs by (simp add: slice_def drop_take min.commute del: file_data_simps)
  finally show ?thesis using False cs0 assms(4,6) skip healthy_kmalloc [OF assms(1)]
    unfolding fat32_vfs_read_def rs_def [symmetric] by (simp add: Let_def unat_div unat_cluster_size)
qed

text \<open>A file of 600 bytes in the clusters 3 and 4 of the small volume.\<close>

definition example_file :: fat_volume where
  "example_file = set_disk (\<lambda>n. if n = 35 then replicate 512 65 else if n = 36 then replicate 512 66
     else dsk (set_entry example_volume 3 4 {..<2}) n) (set_entry example_volume 3 4 {..<2})"

definition example_node :: vfs_node_t where "example_node = file_node ''A.TXT'' 600 VFS_FILE 3 2"

lemma example_file_ok:
  "healthy example_file" "layout_ok example_file" "whole_clusters example_file" "fat32_ready example_file"
  "cluster_bytes example_file = 512" "chain_ok example_file [3, 4]"
proof -
  have *: "bpb example_file = example_bpb" "sectors_per_fat example_file = 1" "fat32_ready example_file"
    "current_disk example_file = Ata_master" "fat32_ahci_port example_file = False"
    by (simp_all add: example_file_def set_entry_def example_volume_def current_disk_def ATA_MASTER_def ATA_SLAVE_def)
  show "healthy example_file"
    using healthy_length [OF healthy_set_entry [OF example_volume_ok(1)]] healthy_set_entry [OF example_volume_ok(1), of 3 4 "{..<2}"]
    unfolding example_file_def by simp
  show "layout_ok example_file" "fat32_ready example_file" using * by (simp_all add: layout_ok_def example_bpb_def)
  show "whole_clusters example_file" "cluster_bytes example_file = 512"
    using * by (simp_all add: whole_clusters_def spc_def example_bpb_def sectors_moved_def ata_count_def cluster_bytes_def)
  have "table_sector example_file 3 0 = 32" using * by (simp add: table_sector_def example_bpb_def)
  then have "fat_value example_file 0 3 = fat_value (set_entry example_volume 3 4 {..<2}) 0 3"
    by (simp add: fat_value_def example_file_def)
  then show "chain_ok example_file [3, 4]"
    using * fat_value_set_entry [OF example_volume_ok(1), of 3 3 4 "{..<2}" 0]
    by (simp add: in_table_def [of example_file])
qed

theorem fat32_vfs_read_correct_witness:
  "fat32_vfs_read example_node 510 4 example_file = Some (replicate 2 65 @ replicate 2 66, example_file)"
proof -
  have n: "vimpl example_node = 3" "vlength example_node = 600" by (simp_all add: example_node_def file_node_def)
  have "first_data_sector example_file = 34" "spc example_file = 1" "fat32_ahci_port example_file = False"
    by (simp_all add: example_file_def set_entry_def example_volume_def spc_def example_bpb_def)
  then have "cluster_data example_file 3 = replicate 512 65" "cluster_data example_file 4 = replicate 512 66"
    by (simp_all add: cluster_data_def cluster_to_lba_def first_sector_def read_disk_def)
      (simp_all add: example_file_def)
  then have "file_data example_file [3, 4] = replicate 512 65 @ replicate 512 66" by simp
  moreover have "fat32_vfs_read example_node 510 4 example_file =
      Some (slice (unat (510 :: u32)) (unat (4 :: u32)) (take (unat (vlength example_node)) (file_data example_file [3, 4])),
        example_file)"
    by (rule fat32_vfs_read_correct [OF example_file_ok(1-4,6)]) (simp_all add: n example_file_ok(5))
  ultimately show ?thesis by (simp add: n slice_def)
qed

subsection \<open>Names\<close>

text \<open>A character that a name keeps: no lower case letter, dot, space or zero.\<close>

definition name_char :: "char \<Rightarrow> bool" where
  "name_char c \<longleftrightarrow> fat_upper c = of_char c \<and> c \<noteq> CHR ''.'' \<and> c \<noteq> CHR '' '' \<and> of_char c \<noteq> (0 :: u8)"

text \<open>The text of a name with base \<open>b\<close> and extension \<open>e\<close>.\<close>

definition dotted :: "string \<Rightarrow> string \<Rightarrow> string" where
  "dotted b e = b @ (if e = [] then [] else CHR ''.'' # e)"

lemma of_char_u8_inject: "(of_char c = (of_char d :: u8)) \<longleftrightarrow> c = d"
  by (metis unat_of_char_u8 of_char_eq_iff)

lemma takeWhile_pad: "32 \<notin> set xs \<Longrightarrow> takeWhile (\<lambda>b. b \<noteq> 32) (pad n xs) = xs"
  by (auto simp: pad_def takeWhile_append takeWhile_eq_all_conv)

lemma length_pad: "length xs \<le> n \<Longrightarrow> length (pad n xs) = n"
  by (simp add: pad_def)

lemma map_fat_upper: "list_all name_char b \<Longrightarrow> map fat_upper b = map of_char b"
  by (induction b) (auto simp: name_char_def)

lemma name_char_not_space: "list_all name_char b \<Longrightarrow> (32 :: u8) \<notin> set (map of_char b)"
proof
  assume b: "list_all name_char b" and "(32 :: u8) \<in> set (map of_char b)"
  then obtain c where c: "c \<in> set b" "of_char c = (32 :: u8)" by auto
  then have "c = CHR '' ''" using of_char_u8_inject [of c "CHR '' ''"] by simp
  then show False using b c(1) by (auto simp: list_all_iff name_char_def)
qed

lemma name_char_nz: "list_all name_char b \<Longrightarrow> (0 :: u8) \<notin> set (map of_char b)"
  by (induction b) (simp_all add: name_char_def eq_commute [of 0])

lemma format_dotted:
  assumes "list_all name_char b" "list_all name_char e" "length b \<le> 8" "length e \<le> 3"
  shows "format_fat_name (dotted b e) = pad 8 (map of_char b) @ pad 3 (map of_char e)"
proof -
  have "takeWhile (\<lambda>c. c \<noteq> CHR ''.'') (dotted b e) = b" "tl (dropWhile (\<lambda>c. c \<noteq> CHR ''.'') (dotted b e)) = e"
    using assms(1) by (auto simp: dotted_def name_char_def list_all_iff takeWhile_append dropWhile_append
        takeWhile_eq_all_conv dropWhile_eq_Nil_conv)
  then show ?thesis using assms by (simp add: format_fat_name_def map_fat_upper)
qed

lemma readdir_bytes_dotted:
  assumes "list_all name_char b" "list_all name_char e" "length b \<le> 8" "length e \<le> 3"
  shows "readdir_bytes (format_fat_name (dotted b e)) = map of_char (dotted b e) @ [0]"
proof -
  let ?n = "pad 8 (map of_char b) @ pad 3 (map of_char e) :: u8 list"
  have l: "length (pad 8 (map of_char b) :: u8 list) = 8" "length (pad 3 (map of_char e) :: u8 list) = 3"
    using assms by (simp_all add: length_pad)
  have t: "take 8 ?n = pad 8 (map of_char b)" "slice 8 3 ?n = pad 3 (map of_char e)"
    using l by (simp_all add: slice_def)
  have "?n ! 8 = pad 3 (map of_char e) ! 0" using l by (simp add: nth_append)
  moreover have "pad 3 (map of_char e) ! 0 = (32 :: u8) \<longleftrightarrow> e = []"
    using name_char_not_space [OF assms(2)] by (cases e) (auto simp: pad_def)
  ultimately show ?thesis
    using format_dotted [OF assms] t name_char_not_space [OF assms(1)] name_char_not_space [OF assms(2)]
    by (simp add: readdir_bytes_def takeWhile_pad dotted_def)
qed

text \<open>
  Names: an upper case name of at most 8 characters and an extension of at most 3 survive
  the conversion to the directory format and back through \<^verbatim>\<open>fat32_vfs_readdir\<close>. The listing
  stores the name and a terminating zero in an array of 12 bytes, so the 12 characters of a
  full name with extension need one byte more than it has.
\<close>

theorem fat_name_roundtrip:
  assumes "list_all name_char b" "list_all name_char e" "length b \<le> 8" "length e \<le> 3"
  shows "readdir_name (format_fat_name (dotted b e)) = dotted b e \<and>
    length (readdir_bytes (format_fat_name (dotted b e))) = length (dotted b e) + 1"
proof -
  have nz: "(0 :: u8) \<notin> set (map of_char (dotted b e))"
    using name_char_nz [OF assms(1)] name_char_nz [OF assms(2)] by (simp add: dotted_def)
  have "takeWhile (\<lambda>b. b \<noteq> 0) (map of_char (dotted b e) @ [0]) = (map of_char (dotted b e) :: u8 list)"
    using nz by (subst takeWhile_append2) auto
  then have "readdir_name (format_fat_name (dotted b e)) = map (\<lambda>x. char_of (unat (of_char x :: u8))) (dotted b e)"
    unfolding readdir_name_def readdir_bytes_dotted [OF assms] by (simp add: o_def)
  then show ?thesis unfolding readdir_bytes_dotted [OF assms] by (simp add: unat_of_char_u8)
qed

theorem fat_name_roundtrip_witness:
  "readdir_name (format_fat_name ''KERNEL32.BIN'') = ''KERNEL32.BIN'' \<and>
   length (readdir_bytes (format_fat_name ''KERNEL32.BIN'')) = 13"
  using fat_name_roundtrip [of "''KERNEL32''" "''BIN''"] by (simp add: dotted_def name_char_def fat_upper_def)

text \<open>
  The entries \<^verbatim>\<open>.\<close> and \<^verbatim>\<open>..\<close> that \<^verbatim>\<open>fat32_vfs_mkdir\<close> stores never match a lookup: no name
  that a caller can give is converted to them.
\<close>

theorem dot_entries_never_match:
  "\<not> fat32_compare_name (pad 11 [46]) name \<and> \<not> fat32_compare_name (pad 11 [46, 46]) name"
proof -
  have "format_fat_name name ! 0 \<noteq> 46"
  proof (cases "takeWhile (\<lambda>c. c \<noteq> CHR ''.'') name")
    case Nil
    then show ?thesis by (simp add: format_fat_name_def pad_def Let_def nth_append)
  next
    case (Cons c cs)
    then have "c \<noteq> CHR ''.''" by (metis list.set_intros(1) set_takeWhileD)
    then have "of_char c \<noteq> (46 :: u8)" using of_char_u8_inject [of c "CHR ''.''"] by simp
    moreover have "fat_upper c = 46 \<Longrightarrow> of_char c = (46 :: u8)"
      by (auto simp: fat_upper_def Let_def diff_eq_eq split: if_splits)
    ultimately show ?thesis using Cons by (auto simp: format_fat_name_def pad_def Let_def)
  qed
  moreover have "pad 11 [46] ! 0 = (46 :: u8)" "pad 11 [46, 46] ! 0 = (46 :: u8)" by (simp_all add: pad_def)
  ultimately show ?thesis unfolding fat32_compare_name_def by metis
qed

subsection \<open>Directories\<close>

lemma length_encode_entry: "length (encode_entry e) = length (ename e) + 21"
  by (simp add: encode_entry_def enc16_def enc32_def)

lemma decode_encode: "length (ename e) = 11 \<Longrightarrow> decode_entry (encode_entry e) = e"
  by (cases e) (simp add: decode_entry_def encode_entry_def enc16_def enc32_def slice_def nth_append le16_def le32_def
      join16_bytes join32_bytes [simplified])

lemma entry_at_put_same:
  "length (ename e) = 11 \<Longrightarrow> 32 * i + 32 \<le> length buf \<Longrightarrow> entry_at (put_entry buf i e) i = e"
  by (simp add: entry_at_def put_entry_def slice_append_mid length_encode_entry decode_encode)

lemma entry_at_put_below: "j < i \<Longrightarrow> 32 * i \<le> length buf \<Longrightarrow> entry_at (put_entry buf i e) j = entry_at buf j"
  by (simp add: entry_at_def put_entry_def slice_def drop_take [symmetric] take_drop)

lemma length_put_entry:
  "length (ename e) = 11 \<Longrightarrow> 32 * i + 32 \<le> length buf \<Longrightarrow> length (put_entry buf i e) = length buf"
  by (simp add: put_entry_def length_encode_entry)

lemma find_entry_first:
  assumes "\<And>j. j < i \<Longrightarrow> ename (entry_at buf j) ! 0 \<noteq> 0 \<and> \<not> P (entry_at buf j)"
    and "ename (entry_at buf i) ! 0 \<noteq> 0" "P (entry_at buf i)" "k \<le> i" "i < n"
  shows "find_entry P buf [k..<n] = Some i"
  using assms(4)
proof (induction rule: inc_induct)
  case base
  then show ?case using assms by (simp add: upt_conv_Cons)
next
  case (step m)
  then show ?case using assms(1) [of m] assms(5) by (simp add: upt_conv_Cons)
qed

lemma read_write_disk:
  assumes "length buf = 512 * k"
  shows "read_disk (write_disk a k buf d) a k = buf"
proof -
  have "concat (map (\<lambda>j. slice (512 * j) 512 buf) [0..<m]) = take (512 * m) buf" if "512 * m \<le> length buf" for m
    using that
  proof (induction m)
    case (Suc m)
    have "take (512 * Suc m) buf = take (512 * m) buf @ slice (512 * m) 512 buf"
      by (simp add: slice_def take_add [symmetric] add.commute)
    then show ?case using Suc by simp
  qed simp
  from this [of k] have "concat (map (\<lambda>j. slice (512 * j) 512 buf) [0..<k]) = buf" using assms by simp
  moreover have "map (\<lambda>j. write_disk a k buf d (a + j)) [0..<k] = map (\<lambda>j. slice (512 * j) 512 buf) [0..<k]"
    by (simp add: write_disk_def)
  ultimately show ?thesis by (simp only: read_disk_def)
qed

lemma length_format_fat_name: "length (format_fat_name n) = 11"
  by (simp add: format_fat_name_def pad_def Let_def)

lemma entry_cluster_set: "entry_cluster (set_cluster c e) = c"
proof (rule bit_word_eqI)
  fix n
  assume n: "n < LENGTH(32)"
  have m: "(0xFFFF :: u32) = mask 16" by (simp add: mask_eq_exp_minus_1)
  consider "n < 16" | "16 \<le> n" by linarith
  then show "bit (entry_cluster (set_cluster c e)) n = bit c n"
    unfolding entry_cluster_def set_cluster_def m using n by cases (auto simp: bit_simps)
qed

text \<open>The first byte of a name as the directory stores it: neither a free nor an end mark.\<close>

definition storable :: "string \<Rightarrow> bool" where
  "storable name \<longleftrightarrow> format_fat_name name ! 0 \<noteq> 0 \<and> format_fat_name name ! 0 \<noteq> 0xE5"

text \<open>The directory cluster of a node, as a buffer.\<close>

abbreviation dir_buf :: "vfs_node_t \<Rightarrow> fat_volume \<Rightarrow> u8 list" where
  "dir_buf p s \<equiv> cluster_data s (vimpl p)"

lemma create_entry_eq:
  assumes "healthy s" "whole_clusters s"
  shows "fat32_create_entry p name attr c sz s =
    (case find (\<lambda>i. free_slot (entry_at (dir_buf p s) i)) [0..<dir_entries s] of
       None \<Rightarrow> (False, s)
     | Some slot \<Rightarrow> (True, set_disk (write_disk (first_sector s (cluster_to_lba (vimpl p) s)) (unat (spc s))
         (put_entry (dir_buf p s) slot
            (set_cluster c (zero_entry\<lparr>ename := format_fat_name name, eattr := attr, esize := sz\<rparr>))) (dsk s)) s))"
  using assms healthy_kmalloc [OF assms(1)] read_cluster [OF assms, of "replicate (cluster_bytes s) 0" "vimpl p"]
  by (simp add: fat32_create_entry_def Let_def healthy_write whole_clusters_def split: option.split)

lemma write_disk_length:
  assumes "\<And>n. length (d n) = 512" "length buf = 512 * k"
  shows "length (write_disk a k buf d n) = 512"
proof (cases "a \<le> n \<and> n < a + k")
  case True
  then have "512 * (n - a) + 512 \<le> 512 * k" by arith
  then show ?thesis using assms True by (simp add: write_disk_def length_slice)
next
  case False
  then show ?thesis using assms(1) by (auto simp: write_disk_def)
qed

lemma finddir_eq:
  assumes "healthy s" "whole_clusters s" "fat32_ready s"
  shows "fat32_vfs_finddir p name s =
    Some (case find_entry (\<lambda>e. fat32_compare_name (ename e) name) (dir_buf p s) [0..<dir_entries s] of
            None \<Rightarrow> (None, s)
          | Some i \<Rightarrow> (Some (entry_node name (entry_at (dir_buf p s) i) (vimpl p)), s))"
  using assms healthy_kmalloc [OF assms(1)] read_cluster [OF assms(1,2), of "replicate (cluster_bytes s) 0" "vimpl p"]
  by (simp add: fat32_vfs_finddir_def fat_node_def split: option.split)


definition example_dir :: vfs_node_t where "example_dir = file_node ''DIR'' 0 VFS_DIRECTORY 2 0"


subsection \<open>Freeing a chain\<close>

definition chain_end :: "u32 \<Rightarrow> bool" where "chain_end v \<longleftrightarrow> v < 2 \<or> 0x0FFFFFF8 \<le> v"

lemma chain_ok_set_entry:
  assumes "healthy s" "in_table s c" "c \<notin> set cs" "chain_ok s cs"
  shows "chain_ok (set_entry s c v I) cs"
  using assms(3,4)
proof (induction cs)
  case (Cons d ds)
  then show ?case using assms(1,2) fat_value_set_entry [OF assms(1,2), of d]
    by (auto split: list.splits)
qed simp

lemma chain_ok_in_table: "chain_ok s cs \<Longrightarrow> x \<in> set cs \<Longrightarrow> in_table s x"
  by (induction cs) auto

lemma free_chain_stop: "chain_end c \<Longrightarrow> free_chain c s = Some s"
  by (subst free_chain.simps) (auto simp: chain_end_def)

lemma free_chain_eq:
  assumes "healthy s" "layout_ok s" "chain_ok s (c # cs)" "distinct (c # cs)"
    and "chain_end (fat_value s 0 (last (c # cs)))"
  shows "\<exists>s'. free_chain c s = Some s' \<and> healthy s' \<and> layout_ok s' \<and> bpb s' = bpb s \<and>
    sectors_per_fat s' = sectors_per_fat s \<and>
    (\<forall>i < unat (fat_count (bpb s)). \<forall>x. in_table s x \<longrightarrow>
       fat_value s' i x = (if x \<in> set (c # cs) then 0 else fat_value s i x))"
  using assms
proof (induction cs arbitrary: c s)
  case (Nil c s)
  let ?s = "set_entry s c 0 (fat_copies s)"
  have "free_chain c s = free_chain (fat_value s 0 c) ?s"
    using Nil by (subst free_chain.simps) (simp add: get_fat_value set_fat_eq)
  also have "\<dots> = Some ?s" using Nil.prems(5) by (intro free_chain_stop) simp
  finally show ?case using Nil by (auto simp: fat_value_set_entry)
next
  case (Cons d ds c s)
  let ?s = "set_entry s c 0 (fat_copies s)"
  have c: "in_table s c" "fat_value s 0 c = d" "c \<notin> set (d # ds)" "chain_ok s (d # ds)" using Cons.prems by auto
  have it: "in_table s x" if "x \<in> set (d # ds)" for x
    using chain_ok_in_table [OF c(4) that] .
  have step: "free_chain c s = free_chain d ?s"
    using Cons.prems c by (subst free_chain.simps) (simp add: get_fat_value set_fat_eq)
  have "last (d # ds) \<in> set (d # ds)" by (rule last_in_set) simp
  then have "fat_value ?s 0 (last (d # ds)) = fat_value s 0 (last (d # ds))"
    using fat_value_set_entry [OF Cons.prems(1) c(1) it] c(3) by metis
  then obtain s' where s': "free_chain d ?s = Some s'" "healthy s'" "layout_ok s'" "bpb s' = bpb s"
      "sectors_per_fat s' = sectors_per_fat s"
      "\<And>i x. i < unat (fat_count (bpb s)) \<Longrightarrow> in_table s x \<Longrightarrow>
         fat_value s' i x = (if x \<in> set (d # ds) then 0 else fat_value ?s i x)"
    using Cons.IH [of ?s d] Cons.prems c chain_ok_set_entry [OF Cons.prems(1) c(1,3,4)] by auto
  then show ?case using step Cons.prems(1) c(1) by (auto simp: fat_value_set_entry)
qed

text \<open>
  C14. Freeing a file: following and clearing a chain of distinct clusters terminates, sets the
  entry of each of its clusters to free in every copy of the table and keeps all other entries.
\<close>

theorem free_chain_frees:
  assumes "healthy s" "layout_ok s" "chain_ok s (c # cs)" "distinct (c # cs)"
    and "chain_end (fat_value s 0 (last (c # cs)))"
  shows "\<exists>s'. free_chain c s = Some s' \<and>
    (\<forall>i < unat (fat_count (bpb s)). \<forall>x. in_table s x \<longrightarrow>
       fat_value s' i x = (if x \<in> set (c # cs) then 0 else fat_value s i x))"
  using free_chain_eq [OF assms] by blast

theorem free_chain_frees_witness: "\<exists>s'. free_chain 3 example_file = Some s' \<and> fat_value s' 0 4 = 0"
proof -
  let ?s = example_file
  have b: "bpb ?s = example_bpb" "sectors_per_fat ?s = 1"
    by (simp_all add: example_file_def set_entry_def example_volume_def)
  have "table_sector ?s 4 0 = 32" using b by (simp add: table_sector_def example_bpb_def)
  then have "fat_value ?s 0 4 = fat_value (set_entry example_volume 3 4 {..<2}) 0 4"
    by (simp add: fat_value_def example_file_def)
  also have "\<dots> = fat_value example_volume 0 4"
    using fat_value_set_entry [OF example_volume_ok(1), of 3 4 4 "{..<2}" 0] by simp
  also have "\<dots> = 0" by (simp add: fat_value_def le32_def join32_def example_volume_def)
  finally have "chain_end (fat_value ?s 0 (last [3, 4]))" by (simp add: chain_end_def)
  from free_chain_frees [OF example_file_ok(1,2,6) _ this] b show ?thesis
    by (auto simp: in_table_def example_bpb_def)
qed

end
