(* ===== verification/Khazar_Ata.thy ===== *)
theory Khazar_Ata
  imports Khazar_Fat32
begin

text \<open>
  The driver of the primary ATA bus, \<^verbatim>\<open>kernel/drivers/block/ata.c\<close>: programmed input and output of
  whole sectors and the identification of the drives. The bus is an argument, four functions on
  the state of the hardware; \<open>ata_drive\<close> below states the documented behaviour of a drive that the
  data theorems rely on.
\<close>

section \<open>The bus\<close>

record 'd bus =
  bin8 :: "u16 \<Rightarrow> 'd \<Rightarrow> u8 \<times> 'd"
  bout8 :: "u16 \<Rightarrow> u8 \<Rightarrow> 'd \<Rightarrow> 'd"
  bin16 :: "u16 \<Rightarrow> 'd \<Rightarrow> u16 \<times> 'd"
  bout16 :: "u16 \<Rightarrow> u16 \<Rightarrow> 'd \<Rightarrow> 'd"

definition ATA_DATA :: u16 where "ATA_DATA = 0x1F0"
definition ATA_FEATURES :: u16 where "ATA_FEATURES = 0x1F1"
definition ATA_SECTOR_COUNT :: u16 where "ATA_SECTOR_COUNT = 0x1F2"
definition ATA_LBA_LOW :: u16 where "ATA_LBA_LOW = 0x1F3"
definition ATA_LBA_MID :: u16 where "ATA_LBA_MID = 0x1F4"
definition ATA_LBA_HIGH :: u16 where "ATA_LBA_HIGH = 0x1F5"
definition ATA_DRIVE_SELECT :: u16 where "ATA_DRIVE_SELECT = 0x1F6"
definition ATA_COMMAND :: u16 where "ATA_COMMAND = 0x1F7"
definition ATA_STATUS :: u16 where "ATA_STATUS = 0x1F7"
definition ATA_ALT_STATUS :: u16 where "ATA_ALT_STATUS = 0x3F6"
definition ATA_DEV_CTRL :: u16 where "ATA_DEV_CTRL = 0x3F6"
definition ATA_CMD_READ_PIO :: u8 where "ATA_CMD_READ_PIO = 0x20"
definition ATA_CMD_WRITE_PIO :: u8 where "ATA_CMD_WRITE_PIO = 0x30"
definition ATA_CMD_CACHE_FLUSH :: u8 where "ATA_CMD_CACHE_FLUSH = 0xE7"
definition ATA_CMD_IDENTIFY :: u8 where "ATA_CMD_IDENTIFY = 0xEC"
definition ATA_STATUS_BSY :: u8 where "ATA_STATUS_BSY = 0x80"
definition ATA_STATUS_DF :: u8 where "ATA_STATUS_DF = 0x20"
definition ATA_STATUS_DRQ :: u8 where "ATA_STATUS_DRQ = 0x08"
definition ATA_STATUS_ERR :: u8 where "ATA_STATUS_ERR = 0x01"

section \<open>Waiting\<close>

definition ata_io_wait :: "'d bus \<Rightarrow> 'd \<Rightarrow> 'd" where
  "ata_io_wait B d = ((\<lambda>d. snd (bin8 B ATA_ALT_STATUS d)) ^^ 4) d"

primrec wait_bsy_loop :: "'d bus \<Rightarrow> nat \<Rightarrow> 'd \<Rightarrow> bool \<times> 'd" where
  "wait_bsy_loop B 0 d = (False, d)"
| "wait_bsy_loop B (Suc timeout) d =
     (let (st, d1) = bin8 B ATA_STATUS d
      in if st AND ATA_STATUS_BSY = 0 then (True, d1) else wait_bsy_loop B timeout d1)"

definition ata_wait_bsy :: "'d bus \<Rightarrow> 'd \<Rightarrow> bool \<times> 'd" where
  "ata_wait_bsy B d = wait_bsy_loop B 100000 d"

primrec wait_drq_loop :: "'d bus \<Rightarrow> nat \<Rightarrow> 'd \<Rightarrow> bool \<times> 'd" where
  "wait_drq_loop B 0 d = (False, d)"
| "wait_drq_loop B (Suc timeout) d =
     (let (st, d1) = bin8 B ATA_STATUS d
      in if st AND ATA_STATUS_ERR \<noteq> 0 then (False, d1)
         else if st AND ATA_STATUS_DRQ \<noteq> 0 then (True, d1)
         else wait_drq_loop B timeout d1)"

definition ata_wait_drq :: "'d bus \<Rightarrow> 'd \<Rightarrow> bool \<times> 'd" where
  "ata_wait_drq B d = wait_drq_loop B 100000 d"

section \<open>Reading and writing sectors\<close>

text \<open>Selecting the drive and issuing a command, the same lines in both functions.\<close>

definition ata_issue :: "'d bus \<Rightarrow> u8 \<Rightarrow> u32 \<Rightarrow> u8 \<Rightarrow> u8 \<Rightarrow> 'd \<Rightarrow> 'd" where
  "ata_issue B drive lba cnt cmd d =
     (let drive_sel = 0xE0 OR (if drive = ATA_SLAVE then 0x10 else 0x00) OR ucast (drop_bit 24 lba AND 0x0F);
          d = ata_io_wait B (bout8 B ATA_DRIVE_SELECT drive_sel d);
          d = bout8 B ATA_FEATURES 0x00 d;
          d = bout8 B ATA_SECTOR_COUNT cnt d;
          d = bout8 B ATA_LBA_LOW (ucast lba) d;
          d = bout8 B ATA_LBA_MID (ucast (drop_bit 8 lba)) d;
          d = bout8 B ATA_LBA_HIGH (ucast (drop_bit 16 lba)) d
      in bout8 B ATA_COMMAND cmd d)"

definition read_sector_words :: "'d bus \<Rightarrow> nat \<Rightarrow> u16 list \<times> 'd \<Rightarrow> u16 list \<times> 'd" where
  "read_sector_words B j =
     fold (\<lambda>i (buf, d). let (w, d1) = bin16 B ATA_DATA d in (buf[j * 256 + i := w], d1)) [0..<256]"

text \<open>The rounds \<open>j\<close> to \<open>j + n - 1\<close> of the loop over the sectors.\<close>

primrec ata_read_loop :: "'d bus \<Rightarrow> nat \<Rightarrow> nat \<Rightarrow> u16 list \<Rightarrow> 'd \<Rightarrow> bool \<times> u16 list \<times> 'd" where
  "ata_read_loop B 0 j buf d = (True, buf, d)"
| "ata_read_loop B (Suc n) j buf d =
     (let (ok, d1) = ata_wait_bsy B d
      in if \<not> ok then (False, buf, d1)
         else let (ok, d2) = ata_wait_drq B d1
              in if \<not> ok then (False, buf, d2)
                 else let (st, d3) = bin8 B ATA_STATUS d2
                      in if st AND ATA_STATUS_DF \<noteq> 0 then (False, buf, d3)
                         else let (buf1, d4) = read_sector_words B j (buf, d3)
                              in ata_read_loop B n (j + 1) buf1 (ata_io_wait B d4))"

definition ata_read_sectors :: "'d bus \<Rightarrow> u8 \<Rightarrow> u32 \<Rightarrow> u8 \<Rightarrow> u16 list \<Rightarrow> 'd \<Rightarrow> bool \<times> u16 list \<times> 'd" where
  "ata_read_sectors B drive lba cnt buf d =
     (let (ok, d1) = ata_wait_bsy B d
      in if \<not> ok then (False, buf, d1)
         else ata_read_loop B (unat cnt) 0 buf (ata_issue B drive lba cnt ATA_CMD_READ_PIO d1))"

primrec ata_write_loop :: "'d bus \<Rightarrow> nat \<Rightarrow> nat \<Rightarrow> u16 list \<Rightarrow> 'd \<Rightarrow> bool \<times> 'd" where
  "ata_write_loop B 0 j buf d = (True, d)"
| "ata_write_loop B (Suc n) j buf d =
     (let (ok, d1) = ata_wait_bsy B d
      in if \<not> ok then (False, d1)
         else let (ok, d2) = ata_wait_drq B d1
              in if \<not> ok then (False, d2)
                 else ata_write_loop B n (j + 1) buf
                        (ata_io_wait B (fold (\<lambda>i. bout16 B ATA_DATA (buf ! (j * 256 + i))) [0..<256] d2)))"

definition ata_write_sectors :: "'d bus \<Rightarrow> u8 \<Rightarrow> u32 \<Rightarrow> u8 \<Rightarrow> u16 list \<Rightarrow> 'd \<Rightarrow> bool \<times> 'd" where
  "ata_write_sectors B drive lba cnt buf d =
     (let (ok, d1) = ata_wait_bsy B d
      in if \<not> ok then (False, d1)
         else let (ok, d2) = ata_write_loop B (unat cnt) 0 buf (ata_issue B drive lba cnt ATA_CMD_WRITE_PIO d1)
              in if \<not> ok then (False, d2)
                 else ata_wait_bsy B (bout8 B ATA_COMMAND ATA_CMD_CACHE_FLUSH d2))"

section \<open>Identification\<close>

record ata_drive_info_t =
  present :: bool
  total_sectors :: u32
  model :: "u8 list"
  serial :: "u8 list"
  cylinders :: u16
  heads :: u16
  sectors_per_track :: u16

text \<open>
  The two bytes of each word in the order of the text, then the terminating zero; trailing blanks
  become zeros. The rest of the destination keeps its contents.
\<close>

fun trim_blanks :: "nat \<Rightarrow> u8 list \<Rightarrow> u8 list" where
  "trim_blanks 0 dst = dst"
| "trim_blanks (Suc i) dst = (if dst ! i = 32 then trim_blanks i (dst[i := 0]) else dst)"

definition ata_copy_string :: "u8 list \<Rightarrow> u16 list \<Rightarrow> nat \<Rightarrow> nat \<Rightarrow> u8 list" where
  "ata_copy_string dst words word_start word_count =
     (let (dst1, di) =
        fold (\<lambda>i (dst, di). (dst[di := ucast (drop_bit 8 (words ! i)), di + 1 := ucast (words ! i AND 0xFF)], di + 2))
          [word_start..<word_start + word_count] (dst, 0 :: nat)
      in trim_blanks di (dst1[di := 0]))"

definition drive_index :: "u8 \<Rightarrow> nat" where "drive_index drive = (if drive = ATA_SLAVE then 1 else 0)"

definition parse_identify :: "u16 list \<Rightarrow> ata_drive_info_t \<Rightarrow> ata_drive_info_t" where
  "parse_identify ws info =
     info\<lparr>present := True, cylinders := ws ! 1, heads := ws ! 3, sectors_per_track := ws ! 6,
       total_sectors := ucast (ws ! 60) OR push_bit 16 (ucast (ws ! 61)),
       model := ata_copy_string (model info) ws 27 20,
       serial := ata_copy_string (serial info) ws 10 10\<rparr>"

definition ata_identify :: "'d bus \<Rightarrow> u8 \<Rightarrow> ata_drive_info_t list \<Rightarrow> 'd \<Rightarrow> ata_drive_info_t list \<times> 'd" where
  "ata_identify B drive infos d =
     (let idx = drive_index drive;
          infos = infos[idx := (infos ! idx)\<lparr>present := False\<rparr>];
          d = ata_io_wait B (bout8 B ATA_DRIVE_SELECT drive d);
          d = bout8 B ATA_SECTOR_COUNT 0 d;
          d = bout8 B ATA_LBA_LOW 0 d;
          d = bout8 B ATA_LBA_MID 0 d;
          d = bout8 B ATA_LBA_HIGH 0 d;
          d = ata_io_wait B (bout8 B ATA_COMMAND ATA_CMD_IDENTIFY d);
          (st, d) = bin8 B ATA_STATUS d
      in if st = 0 \<or> st = 0xFF then (infos, d)
         else let (ok, d) = ata_wait_bsy B d
              in if \<not> ok then (infos, d)
                 else let (mid, d) = bin8 B ATA_LBA_MID d;
                          (hi, d) = bin8 B ATA_LBA_HIGH d
                      in if mid \<noteq> 0 \<or> hi \<noteq> 0 then (infos, d)
                         else let (ok, d) = ata_wait_drq B d
                              in if \<not> ok then (infos, d)
                                 else let (ws, d) = read_sector_words B 0 (replicate 256 0, d)
                                      in (infos[idx := parse_identify ws (infos ! idx)], d))"

definition ata_get_drive_info :: "u8 \<Rightarrow> ata_drive_info_t list \<Rightarrow> ata_drive_info_t option" where
  "ata_get_drive_info drive infos =
     (let i = infos ! drive_index drive in if present i then Some i else None)"

definition ata_get_sector_count :: "u8 \<Rightarrow> ata_drive_info_t list \<Rightarrow> u32" where
  "ata_get_sector_count drive infos =
     (let i = infos ! drive_index drive in if present i then total_sectors i else 0)"

definition ata_init :: "'d bus \<Rightarrow> ata_drive_info_t list \<Rightarrow> 'd \<Rightarrow> ata_drive_info_t list \<times> 'd" where
  "ata_init B infos d =
     (let d = ata_io_wait B (bout8 B ATA_DEV_CTRL 0x04 d);
          d = ata_io_wait B (bout8 B ATA_DEV_CTRL 0x00 d);
          (infos, d) = ata_identify B ATA_MASTER infos d
      in ata_identify B ATA_SLAVE infos d)"

section \<open>The drives\<close>

text \<open>
  What the driver relies on: the registers of the bus, the number of status reads for which the
  selected drive is still busy, the number of further ones until it requests data, the words it has
  to deliver or to receive, and the words on the two drives by their index.
\<close>

record drive =
  dsel :: u8
  dcount :: u8
  dlow :: u8
  dmid :: u8
  dhigh :: u8
  busy :: nat
  lag :: nat
  pending :: "u16 list"
  wpos :: nat
  wleft :: nat
  media :: "bool \<Rightarrow> nat \<Rightarrow> u16"

definition slave_of :: "drive \<Rightarrow> bool" where "slave_of a \<longleftrightarrow> dsel a AND 0x10 \<noteq> 0"

definition lba_of :: "drive \<Rightarrow> nat" where
  "lba_of a = unat (dsel a AND 0x0F) * 16777216 + unat (dhigh a) * 65536 + unat (dmid a) * 256 + unat (dlow a)"

definition words_of :: "drive \<Rightarrow> nat" where
  "words_of a = 256 * (if dcount a = 0 then 256 else unat (dcount a))"

definition idle :: "drive \<Rightarrow> bool" where
  "idle a \<longleftrightarrow> busy a < 100000 \<and> pending a = [] \<and> wleft a = 0"

text \<open>
  The documented behaviour, for an abstraction \<open>\<alpha>\<close> of the hardware's state: status bits, registers,
  the three commands, and the data port. Only the status may be read while the drive is busy: the
  laws of the registers and of the commands hold for a drive that is not busy, those of the data
  port for one that also requests data. A drive may be busy after a command and after each sector,
  for any number of polls below the driver's limit, and may then take time to request data.
\<close>

definition ata_status_law :: "'d bus \<Rightarrow> ('d \<Rightarrow> drive) \<Rightarrow> bool" where
  "ata_status_law B \<alpha> \<longleftrightarrow> (\<forall>d. let (st, d1) = bin8 B ATA_STATUS d in
     if 0 < busy (\<alpha> d) then st AND ATA_STATUS_BSY \<noteq> 0 \<and> \<alpha> d1 = (\<alpha> d)\<lparr>busy := busy (\<alpha> d) - 1\<rparr>
     else st AND ATA_STATUS_BSY = 0 \<and> st AND ATA_STATUS_ERR = 0 \<and> st AND ATA_STATUS_DF = 0 \<and>
       (st AND ATA_STATUS_DRQ \<noteq> 0 \<longleftrightarrow> lag (\<alpha> d) = 0 \<and> (pending (\<alpha> d) \<noteq> [] \<or> 0 < wleft (\<alpha> d))) \<and>
       \<alpha> d1 = (\<alpha> d)\<lparr>lag := lag (\<alpha> d) - 1\<rparr>)"

definition ata_register_law :: "'d bus \<Rightarrow> ('d \<Rightarrow> drive) \<Rightarrow> bool" where
  "ata_register_law B \<alpha> \<longleftrightarrow> (\<forall>d. \<alpha> (snd (bin8 B ATA_ALT_STATUS d)) = \<alpha> d) \<and>
     (\<forall>d v. busy (\<alpha> d) = 0 \<longrightarrow> \<alpha> (bout8 B ATA_FEATURES v d) = \<alpha> d \<and>
     \<alpha> (bout8 B ATA_DRIVE_SELECT v d) = (\<alpha> d)\<lparr>dsel := v\<rparr> \<and>
     \<alpha> (bout8 B ATA_SECTOR_COUNT v d) = (\<alpha> d)\<lparr>dcount := v\<rparr> \<and>
     \<alpha> (bout8 B ATA_LBA_LOW v d) = (\<alpha> d)\<lparr>dlow := v\<rparr> \<and>
     \<alpha> (bout8 B ATA_LBA_MID v d) = (\<alpha> d)\<lparr>dmid := v\<rparr> \<and>
     \<alpha> (bout8 B ATA_LBA_HIGH v d) = (\<alpha> d)\<lparr>dhigh := v\<rparr>)"

definition ata_command_law :: "'d bus \<Rightarrow> ('d \<Rightarrow> drive) \<Rightarrow> bool" where
  "ata_command_law B \<alpha> \<longleftrightarrow> (\<forall>d. idle (\<alpha> d) \<and> busy (\<alpha> d) = 0 \<longrightarrow>
     (\<exists>b<100000. \<exists>l<100000. \<alpha> (bout8 B ATA_COMMAND ATA_CMD_READ_PIO d) = (\<alpha> d)\<lparr>busy := b, lag := l,
        pending := map (\<lambda>i. media (\<alpha> d) (slave_of (\<alpha> d)) (lba_of (\<alpha> d) * 256 + i)) [0..<words_of (\<alpha> d)]\<rparr>) \<and>
     (\<exists>b<100000. \<exists>l<100000. \<alpha> (bout8 B ATA_COMMAND ATA_CMD_WRITE_PIO d) = (\<alpha> d)\<lparr>busy := b, lag := l,
        wpos := lba_of (\<alpha> d) * 256, wleft := words_of (\<alpha> d)\<rparr>) \<and>
     (\<exists>b<100000. \<exists>l<100000. \<alpha> (bout8 B ATA_COMMAND ATA_CMD_CACHE_FLUSH d) = (\<alpha> d)\<lparr>busy := b, lag := l\<rparr>))"

definition store_word :: "u16 \<Rightarrow> drive \<Rightarrow> drive" where
  "store_word w a = a\<lparr>media := (media a)(slave_of a := (media a (slave_of a))(wpos a := w)),
     wpos := wpos a + 1, wleft := wleft a - 1\<rparr>"

definition ata_data_law :: "'d bus \<Rightarrow> ('d \<Rightarrow> drive) \<Rightarrow> bool" where
  "ata_data_law B \<alpha> \<longleftrightarrow>
     (\<forall>d w ws. busy (\<alpha> d) = 0 \<and> lag (\<alpha> d) = 0 \<and> pending (\<alpha> d) = w # ws \<longrightarrow> fst (bin16 B ATA_DATA d) = w \<and>
        (\<exists>b<100000. \<exists>l<100000. (length ws mod 256 \<noteq> 0 \<longrightarrow> b = 0 \<and> l = 0) \<and>
           \<alpha> (snd (bin16 B ATA_DATA d)) = (\<alpha> d)\<lparr>pending := ws, busy := b, lag := l\<rparr>)) \<and>
     (\<forall>d w. busy (\<alpha> d) = 0 \<and> lag (\<alpha> d) = 0 \<and> 0 < wleft (\<alpha> d) \<longrightarrow>
        (\<exists>b<100000. \<exists>l<100000. ((wleft (\<alpha> d) - 1) mod 256 \<noteq> 0 \<longrightarrow> b = 0 \<and> l = 0) \<and>
           \<alpha> (bout16 B ATA_DATA w d) = (store_word w (\<alpha> d))\<lparr>busy := b, lag := l\<rparr>))"

definition ata_drive :: "'d bus \<Rightarrow> ('d \<Rightarrow> drive) \<Rightarrow> bool" where
  "ata_drive B \<alpha> \<longleftrightarrow> ata_status_law B \<alpha> \<and> ata_register_law B \<alpha> \<and> ata_command_law B \<alpha> \<and> ata_data_law B \<alpha>"

text \<open>
  \<^verbatim>\<open>ata_write_sectors\<close> sends the flush command without waiting for the last sector; it relies on a
  drive that is not busy behind the last word of a write.
\<close>

definition ata_settles :: "'d bus \<Rightarrow> ('d \<Rightarrow> drive) \<Rightarrow> bool" where
  "ata_settles B \<alpha> \<longleftrightarrow> (\<forall>d w. busy (\<alpha> d) = 0 \<and> lag (\<alpha> d) = 0 \<and> wleft (\<alpha> d) = 1 \<longrightarrow> busy (\<alpha> (bout16 B ATA_DATA w d)) = 0)"

section \<open>Transfers\<close>

lemma ata_io_wait_drive [simp]: "ata_drive B \<alpha> \<Longrightarrow> \<alpha> (ata_io_wait B d) = \<alpha> d"
  by (simp add: ata_drive_def ata_register_law_def ata_io_wait_def numeral_eq_Suc)

lemma ata_status:
  "ata_drive B \<alpha> \<Longrightarrow> let (st, d1) = bin8 B ATA_STATUS d in
     if 0 < busy (\<alpha> d) then st AND ATA_STATUS_BSY \<noteq> 0 \<and> \<alpha> d1 = (\<alpha> d)\<lparr>busy := busy (\<alpha> d) - 1\<rparr>
     else st AND ATA_STATUS_BSY = 0 \<and> st AND ATA_STATUS_ERR = 0 \<and> st AND ATA_STATUS_DF = 0 \<and>
       (st AND ATA_STATUS_DRQ \<noteq> 0 \<longleftrightarrow> lag (\<alpha> d) = 0 \<and> (pending (\<alpha> d) \<noteq> [] \<or> 0 < wleft (\<alpha> d))) \<and>
       \<alpha> d1 = (\<alpha> d)\<lparr>lag := lag (\<alpha> d) - 1\<rparr>"
  unfolding ata_drive_def ata_status_law_def by blast

lemma wait_bsy_loop_ready:
  "\<lbrakk>ata_drive B \<alpha>; busy (\<alpha> d) < n\<rbrakk> \<Longrightarrow>
     \<exists>d'. wait_bsy_loop B n d = (True, d') \<and> \<alpha> d' = (\<alpha> d)\<lparr>busy := 0, lag := lag (\<alpha> d) - 1\<rparr>"
proof (induction n arbitrary: d)
  case (Suc n)
  obtain st d1 where r: "bin8 B ATA_STATUS d = (st, d1)" by fastforce
  have law: "if 0 < busy (\<alpha> d) then st AND ATA_STATUS_BSY \<noteq> 0 \<and> \<alpha> d1 = (\<alpha> d)\<lparr>busy := busy (\<alpha> d) - 1\<rparr>
     else st AND ATA_STATUS_BSY = 0 \<and> \<alpha> d1 = (\<alpha> d)\<lparr>lag := lag (\<alpha> d) - 1\<rparr>"
    using ata_status [OF Suc.prems(1), of d] r by (simp split: if_splits)
  show ?case
  proof (cases "0 < busy (\<alpha> d)")
    case True
    then show ?thesis using law Suc.IH [OF Suc.prems(1), of d1] Suc.prems(2) r by auto
  next
    case False
    then show ?thesis using law r by simp
  qed
qed simp

lemma ata_wait_bsy_ready:
  "\<lbrakk>ata_drive B \<alpha>; busy (\<alpha> d) < 100000\<rbrakk> \<Longrightarrow>
     \<exists>d'. ata_wait_bsy B d = (True, d') \<and> \<alpha> d' = (\<alpha> d)\<lparr>busy := 0, lag := lag (\<alpha> d) - 1\<rparr>"
  unfolding ata_wait_bsy_def by (rule wait_bsy_loop_ready)

lemma ready_status:
  assumes "ata_drive B \<alpha>" "busy (\<alpha> d) = 0"
  shows "\<exists>st d1. bin8 B ATA_STATUS d = (st, d1) \<and> \<alpha> d1 = (\<alpha> d)\<lparr>lag := lag (\<alpha> d) - 1\<rparr> \<and> st AND ATA_STATUS_ERR = 0 \<and>
    st AND ATA_STATUS_DF = 0 \<and>
    (st AND ATA_STATUS_DRQ \<noteq> 0 \<longleftrightarrow> lag (\<alpha> d) = 0 \<and> (pending (\<alpha> d) \<noteq> [] \<or> 0 < wleft (\<alpha> d)))"
proof -
  obtain st d1 where r: "bin8 B ATA_STATUS d = (st, d1)" by fastforce
  then show ?thesis using ata_status [OF assms(1), of d] assms(2) by simp
qed

lemma wait_drq_loop_ready:
  "\<lbrakk>ata_drive B \<alpha>; busy (\<alpha> d) = 0; pending (\<alpha> d) \<noteq> [] \<or> 0 < wleft (\<alpha> d); lag (\<alpha> d) < n\<rbrakk> \<Longrightarrow>
     \<exists>d'. wait_drq_loop B n d = (True, d') \<and> \<alpha> d' = (\<alpha> d)\<lparr>lag := 0\<rparr>"
proof (induction n arbitrary: d)
  case (Suc n)
  obtain st d1 where st: "bin8 B ATA_STATUS d = (st, d1)" "\<alpha> d1 = (\<alpha> d)\<lparr>lag := lag (\<alpha> d) - 1\<rparr>" "st AND ATA_STATUS_ERR = 0"
    "st AND ATA_STATUS_DRQ \<noteq> 0 \<longleftrightarrow> lag (\<alpha> d) = 0"
    using ready_status [OF Suc.prems(1,2)] Suc.prems(3) by blast
  show ?case
  proof (cases "lag (\<alpha> d)")
    case 0
    then show ?thesis using st by simp
  next
    case (Suc l)
    then have "\<exists>d'. wait_drq_loop B n d1 = (True, d') \<and> \<alpha> d' = (\<alpha> d1)\<lparr>lag := 0\<rparr>"
      using st(2) Suc.prems by (intro Suc.IH) simp_all
    then show ?thesis using st Suc by auto
  qed
qed simp

lemma ata_wait_drq_ready:
  assumes "ata_drive B \<alpha>" "busy (\<alpha> d) = 0" "pending (\<alpha> d) \<noteq> [] \<or> 0 < wleft (\<alpha> d)" "lag (\<alpha> d) < 100000"
  shows "\<exists>d'. ata_wait_drq B d = (True, d') \<and> \<alpha> d' = (\<alpha> d)\<lparr>lag := 0\<rparr>"
  unfolding ata_wait_drq_def using assms by (rule wait_drq_loop_ready)

text \<open>Words of one sector: the drive stays ready up to the last of them.\<close>

lemma read_words:
  assumes "ata_drive B \<alpha>" "busy (\<alpha> d) = 0" "lag (\<alpha> d) = 0" "pending (\<alpha> d) = ws @ rest" "n = length ws" "n \<le> 256"
    "(n + length rest) mod 256 = 0" "j * 256 + n \<le> length buf"
  shows "\<exists>d' b l. fold (\<lambda>i (buf, d). let (w, d1) = bin16 B ATA_DATA d in (buf[j * 256 + i := w], d1)) [0..<n] (buf, d) =
      (take (j * 256) buf @ ws @ drop (j * 256 + n) buf, d') \<and> \<alpha> d' = (\<alpha> d)\<lparr>pending := rest, busy := b, lag := l\<rparr> \<and>
      b < 100000 \<and> l < 100000 \<and> (n < 256 \<longrightarrow> b = 0 \<and> l = 0)"
  using assms(4-8)
proof (induction n arbitrary: ws rest)
  case 0
  then have "\<alpha> d = (\<alpha> d)\<lparr>pending := rest, busy := 0, lag := 0\<rparr>" using assms(2,3) by simp
  then show ?case using 0 by (intro exI [of _ d] exI [of _ "0 :: nat"]) simp
next
  case (Suc n)
  then obtain us w where ws: "ws = us @ [w]" "length us = n" by (metis length_Suc_conv_rev)
  let ?f = "\<lambda>i (buf, d). let (w, d1) = bin16 B ATA_DATA d in (buf[j * 256 + i := w], d1)"
  obtain d1 where IH: "fold ?f [0..<n] (buf, d) = (take (j * 256) buf @ us @ drop (j * 256 + n) buf, d1)"
    "\<alpha> d1 = (\<alpha> d)\<lparr>pending := w # rest, busy := 0, lag := 0\<rparr>"
    using Suc.IH [of us "w # rest"] Suc.prems ws by auto
  have "pending (\<alpha> d1) = w # rest" "busy (\<alpha> d1) = 0" "lag (\<alpha> d1) = 0" by (simp_all add: IH(2))
  then obtain b l where b: "fst (bin16 B ATA_DATA d1) = w" "b < 100000" "l < 100000" "length rest mod 256 \<noteq> 0 \<longrightarrow> b = 0 \<and> l = 0"
      "\<alpha> (snd (bin16 B ATA_DATA d1)) = (\<alpha> d1)\<lparr>pending := rest, busy := b, lag := l\<rparr>"
    using assms(1) unfolding ata_drive_def ata_data_law_def by blast
  have "length rest mod 256 \<noteq> 0" if "Suc n < 256"
  proof
    assume "length rest mod 256 = 0"
    then have "(Suc n + length rest) mod 256 = Suc n mod 256" by (metis add.right_neutral mod_add_right_eq)
    then show False using Suc.prems(4) that by simp
  qed
  moreover have len: "j * 256 + n < length buf" using Suc.prems(5) by simp
  have "(take (j * 256) buf @ us @ drop (j * 256 + n) buf)[j * 256 + n := w] =
      take (j * 256) buf @ ws @ drop (j * 256 + Suc n) buf"
    using len ws by (simp add: list_update_append Cons_nth_drop_Suc [symmetric])
  then have "fold ?f [0..<Suc n] (buf, d) = (take (j * 256) buf @ ws @ drop (j * 256 + Suc n) buf, snd (bin16 B ATA_DATA d1))"
    using IH(1) b(1) by (simp add: Let_def split_beta)
  moreover have "\<alpha> (snd (bin16 B ATA_DATA d1)) = (\<alpha> d)\<lparr>pending := rest, busy := b, lag := l\<rparr>" using b(5) IH(2) by simp
  ultimately show ?case using b(2-4) by blast
qed

lemma ata_read_loop_reads:
  assumes B: "ata_drive B \<alpha>"
  shows "\<lbrakk>pending (\<alpha> d) = ws; length ws = n * 256; wleft (\<alpha> d) = 0; busy (\<alpha> d) < 100000; lag (\<alpha> d) < 100000;
      j * 256 + n * 256 \<le> length buf\<rbrakk> \<Longrightarrow>
    \<exists>d'. ata_read_loop B n j buf d = (True, take (j * 256) buf @ ws @ drop (j * 256 + n * 256) buf, d') \<and>
      idle (\<alpha> d') \<and> media (\<alpha> d') = media (\<alpha> d)"
proof (induction n arbitrary: j buf d ws)
  case 0
  then show ?case by (simp add: idle_def)
next
  case (Suc n)
  obtain d1 where d1: "ata_wait_bsy B d = (True, d1)" "\<alpha> d1 = (\<alpha> d)\<lparr>busy := 0, lag := lag (\<alpha> d) - 1\<rparr>"
    using ata_wait_bsy_ready [OF B Suc.prems(4)] by blast
  have "pending (\<alpha> d1) \<noteq> []" "lag (\<alpha> d1) < 100000" using Suc.prems d1(2) by auto
  then obtain d2 where d2: "ata_wait_drq B d1 = (True, d2)" "\<alpha> d2 = (\<alpha> d)\<lparr>busy := 0, lag := 0\<rparr>"
    using ata_wait_drq_ready [OF B, of d1] d1(2) by auto
  obtain st d3 where d3: "bin8 B ATA_STATUS d2 = (st, d3)" "\<alpha> d3 = (\<alpha> d)\<lparr>busy := 0, lag := 0\<rparr>" "st AND ATA_STATUS_DF = 0"
    using ready_status [OF B, of d2] d2(2) by auto
  let ?u = "take 256 ws" and ?r = "drop 256 ws"
  have p: "pending (\<alpha> d3) = ?u @ ?r" "busy (\<alpha> d3) = 0" "lag (\<alpha> d3) = 0" using d3(2) Suc.prems(1) by simp_all
  have u: "256 = length ?u" "(256 + length ?r) mod 256 = 0" using Suc.prems(2) by simp_all
  obtain d4 b l where d4: "read_sector_words B j (buf, d3) = (take (j * 256) buf @ ?u @ drop (j * 256 + 256) buf, d4)"
    "\<alpha> d4 = (\<alpha> d3)\<lparr>pending := ?r, busy := b, lag := l\<rparr>" "b < 100000" "l < 100000"
    using read_words [OF B p(2,3,1) u(1) _ u(2), of j buf] Suc.prems(6) unfolding read_sector_words_def by auto
  let ?buf = "take (j * 256) buf @ ?u @ drop (j * 256 + 256) buf"
  let ?d = "ata_io_wait B d4"
  have a: "\<alpha> ?d = (\<alpha> d)\<lparr>pending := ?r, busy := b, lag := l\<rparr>" using d4(2) d3(2) B by simp
  have jb: "(j + 1) * 256 + n * 256 \<le> length ?buf" using Suc.prems(2,6) by simp
  have "\<exists>d'. ata_read_loop B n (j + 1) ?buf ?d = (True, take ((j + 1) * 256) ?buf @ ?r @ drop ((j + 1) * 256 + n * 256) ?buf, d') \<and>
      idle (\<alpha> d') \<and> media (\<alpha> d') = media (\<alpha> ?d)"
    using a d4(3,4) jb Suc.prems(2,3) by (intro Suc.IH) (simp_all only: drive.simps length_drop, simp_all)
  then obtain d' where d': "ata_read_loop B n (j + 1) ?buf ?d = (True, take ((j + 1) * 256) ?buf @ ?r @ drop ((j + 1) * 256 + n * 256) ?buf, d')"
    "idle (\<alpha> d')" "media (\<alpha> d') = media (\<alpha> ?d)"
    by blast
  have t: "take ((j + 1) * 256) ?buf = take (j * 256) buf @ ?u" using Suc.prems(2,6) by simp
  have dr: "drop ((j + 1) * 256 + n * 256) ?buf = drop (j * 256 + Suc n * 256) buf"
    using Suc.prems(2,6) by (simp add: ac_simps)
  have "ata_read_loop B (Suc n) j buf d = ata_read_loop B n (j + 1) ?buf ?d"
    using d1(1) d2(1) d3(1,3) d4(1) by simp
  then show ?case using d'(1,2,3) a unfolding t dr by simp
qed

text \<open>The registers a command is issued with.\<close>

lemma unat_ucast8: "unat (ucast (x :: u32) :: u8) = unat x mod 256"
  by (simp add: unsigned_ucast_eq take_bit_eq_mod)

definition issued :: "u8 \<Rightarrow> u32 \<Rightarrow> u8 \<Rightarrow> drive \<Rightarrow> drive" where
  "issued drv lba cnt a = a\<lparr>dsel := 0xE0 OR (if drv = ATA_SLAVE then 0x10 else 0x00) OR ucast (drop_bit 24 lba AND 0x0F),
     dcount := cnt, dlow := ucast lba, dmid := ucast (drop_bit 8 lba), dhigh := ucast (drop_bit 16 lba)\<rparr>"

lemma ata_issue_registers:
  assumes "ata_drive B \<alpha>" "busy (\<alpha> d) = 0"
  shows "\<exists>d'. ata_issue B drv lba cnt cmd d = bout8 B ATA_COMMAND cmd d' \<and> \<alpha> d' = issued drv lba cnt (\<alpha> d)"
proof -
  have "ata_register_law B \<alpha>" using assms(1) by (simp add: ata_drive_def)
  then show ?thesis using assms
    by (auto simp: ata_issue_def Let_def issued_def ata_register_law_def)
qed

lemma select_bits:
  fixes k :: u8
  assumes "k AND 0x0F = k"
  shows "(0xE0 OR (if s then 0x10 else 0x00) OR k) AND 0x0F = k" "(0xE0 OR (if s then 0x10 else 0x00) OR k) AND 0x10 \<noteq> 0 \<longleftrightarrow> s"
proof -
  have "k AND 0x10 = (k AND 0x0F) AND 0x10" using assms by simp
  also have "\<dots> = k AND (0x0F AND 0x10)" by (simp only: and.assoc)
  finally have k: "k AND 0x10 = 0" by simp
  show "(0xE0 OR (if s then 0x10 else 0x00) OR k) AND 0x0F = k"
    using assms by (simp add: bit.conj_disj_distrib2)
  show "(0xE0 OR (if s then 0x10 else 0x00) OR k) AND 0x10 \<noteq> 0 \<longleftrightarrow> s"
    using k by (simp add: bit.conj_disj_distrib2)
qed

lemma issued_address:
  assumes "unat lba < 2 ^ 28"
  shows "lba_of (issued drv lba cnt a) = unat lba" "slave_of (issued drv lba cnt a) = (drv = ATA_SLAVE)"
proof -
  let ?k = "ucast (drop_bit 24 lba AND 0x0F) :: u8"
  have low: "drop_bit 24 lba AND 0x0F = take_bit 4 (drop_bit 24 lba)"
    by (simp add: take_bit_eq_mask mask_eq_exp_minus_1)
  have "?k AND 0x0F = ?k"
  proof -
    have "?k AND 0x0F = take_bit 4 ?k" by (simp add: take_bit_eq_mask mask_eq_exp_minus_1)
    moreover have "take_bit 4 ?k = ?k" unfolding low by (rule bit_word_eqI) (auto simp: bit_simps)
    ultimately show ?thesis by simp
  qed
  note sel = select_bits [OF this, of "drv = ATA_SLAVE"]
  have k: "unat ?k = unat lba div 16777216"
    using assms unfolding unat_ucast8 low by (simp add: take_bit_eq_mod unat_mod unat_drop_bit)
  have "unat lba = unat lba div 16777216 * 16777216 + unat lba div 65536 mod 256 * 65536 +
      unat lba div 256 mod 256 * 256 + unat lba mod 256"
  proof -
    have e: "n = n div 256 * 256 + n mod 256" "n div 256 div 256 = n div 65536" "n div 65536 div 256 = n div 16777216" for n :: nat
      by (simp_all add: div_mult2_eq [symmetric])
    show ?thesis using e(1) [of "unat lba"] e(1) [of "unat lba div 256"] e(1) [of "unat lba div 65536"] e(2,3) [of "unat lba"]
      by (simp only:)
  qed
  then show "lba_of (issued drv lba cnt a) = unat lba"
    by (simp add: lba_of_def issued_def sel(1) k [unfolded unat_ucast8] unat_ucast8 unat_drop_bit)
  show "slave_of (issued drv lba cnt a) = (drv = ATA_SLAVE)"
    using sel(2) by (simp add: slave_of_def issued_def)
qed

lemma words_issued: "cnt \<noteq> 0 \<Longrightarrow> words_of (issued drv lba cnt a) = unat cnt * 256"
  by (simp add: words_of_def issued_def)

lemma media_issued [simp]: "media (issued drv lba cnt a) = media a" "idle (issued drv lba cnt a) = idle a"
  "pending (issued drv lba cnt a) = pending a" "wleft (issued drv lba cnt a) = wleft a" "busy (issued drv lba cnt a) = busy a"
  by (simp_all add: issued_def idle_def)

lemma idle_ready: "idle a \<Longrightarrow> idle (a\<lparr>busy := 0, lag := l\<rparr>)"
  by (simp add: idle_def)

lemma ata_read_sectors_reads:
  assumes B: "ata_drive B \<alpha>" and idle: "idle (\<alpha> d)" and lba: "unat lba < 2 ^ 28" and cnt: "cnt \<noteq> 0"
    and buf: "length buf = unat cnt * 256"
  shows "\<exists>d'. ata_read_sectors B drv lba cnt buf d =
      (True, map (\<lambda>i. media (\<alpha> d) (drv = ATA_SLAVE) (unat lba * 256 + i)) [0..<unat cnt * 256], d') \<and>
      idle (\<alpha> d') \<and> media (\<alpha> d') = media (\<alpha> d)"
proof -
  obtain d1 l1 where d1: "ata_wait_bsy B d = (True, d1)" "\<alpha> d1 = (\<alpha> d)\<lparr>busy := 0, lag := l1\<rparr>"
    using ata_wait_bsy_ready [OF B, of d] idle unfolding idle_def by blast
  have r1: "busy (\<alpha> d1) = 0" by (simp add: d1(2))
  obtain d2 where d2: "ata_issue B drv lba cnt ATA_CMD_READ_PIO d1 = bout8 B ATA_COMMAND ATA_CMD_READ_PIO d2"
    "\<alpha> d2 = issued drv lba cnt ((\<alpha> d)\<lparr>busy := 0, lag := l1\<rparr>)"
    using ata_issue_registers [OF B r1] d1(2) by metis
  let ?ws = "map (\<lambda>i. media (\<alpha> d) (drv = ATA_SLAVE) (unat lba * 256 + i)) [0..<unat cnt * 256]"
  have "idle (\<alpha> d2) \<and> busy (\<alpha> d2) = 0" using idle idle_ready by (simp add: d2(2))
  then obtain b l where b0: "b < 100000" "l < 100000" "\<alpha> (bout8 B ATA_COMMAND ATA_CMD_READ_PIO d2) = (\<alpha> d2)\<lparr>busy := b, lag := l,
      pending := map (\<lambda>i. media (\<alpha> d2) (slave_of (\<alpha> d2)) (lba_of (\<alpha> d2) * 256 + i)) [0..<words_of (\<alpha> d2)]\<rparr>"
    using B unfolding ata_drive_def ata_command_law_def by blast
  have regs: "slave_of (\<alpha> d2) = (drv = ATA_SLAVE)" "lba_of (\<alpha> d2) = unat lba" "words_of (\<alpha> d2) = unat cnt * 256"
    "media (\<alpha> d2) = media (\<alpha> d)"
    using issued_address [OF lba] words_issued [OF cnt] by (simp_all add: d2(2))
  have b: "b < 100000" "l < 100000" "\<alpha> (bout8 B ATA_COMMAND ATA_CMD_READ_PIO d2) = (\<alpha> d2)\<lparr>busy := b, lag := l, pending := ?ws\<rparr>"
    using b0 unfolding regs by blast+
  obtain d' where "ata_read_loop B (unat cnt) 0 buf (bout8 B ATA_COMMAND ATA_CMD_READ_PIO d2) =
      (True, take (0 * 256) buf @ ?ws @ drop (0 * 256 + unat cnt * 256) buf, d')" "idle (\<alpha> d')" "media (\<alpha> d') = media (\<alpha> d)"
    using ata_read_loop_reads [OF B, of "bout8 B ATA_COMMAND ATA_CMD_READ_PIO d2" ?ws "unat cnt" 0 buf] b d2(2) idle buf
    by (auto simp: idle_def)
  then show ?thesis using d1(1) d2(1) buf by (simp add: ata_read_sectors_def)
qed

section \<open>Writing\<close>

lemma store_words:
  "fold store_word ws a = a\<lparr>media := (media a)(slave_of a := (\<lambda>k. if wpos a \<le> k \<and> k < wpos a + length ws
     then ws ! (k - wpos a) else media a (slave_of a) k)), wpos := wpos a + length ws, wleft := wleft a - length ws\<rparr>"
proof (induction ws arbitrary: a)
  case Nil
  have "(media a)(slave_of a := (\<lambda>k. if wpos a \<le> k \<and> k < wpos a + length [] then [] ! (k - wpos a)
      else media a (slave_of a) k)) = media a"
    by (intro ext) auto
  then show ?case by simp
next
  case (Cons w ws)
  have "slave_of (store_word w a) = slave_of a" by (simp add: slave_of_def store_word_def)
  then show ?case using Cons [of "store_word w a"]
    by (simp add: store_word_def fun_eq_iff nth_Cons')
qed

lemma store_words_busy:
  "fold store_word ws (a\<lparr>busy := b, lag := l\<rparr>) = (fold store_word ws a)\<lparr>busy := b, lag := l\<rparr>"
  by (simp add: store_words slave_of_def cong: if_cong)

lemma write_words:
  assumes B: "ata_drive B \<alpha>" and ready: "busy (\<alpha> d) = 0" "lag (\<alpha> d) = 0" and left: "wleft (\<alpha> d) mod 256 = 0"
  shows "n \<le> 256 \<Longrightarrow> n \<le> wleft (\<alpha> d) \<Longrightarrow>
    \<exists>b l. \<alpha> (fold (\<lambda>i. bout16 B ATA_DATA (f i)) [0..<n] d) = (fold store_word (map f [0..<n]) (\<alpha> d))\<lparr>busy := b, lag := l\<rparr> \<and>
      b < 100000 \<and> l < 100000 \<and> (n < 256 \<longrightarrow> b = 0 \<and> l = 0) \<and> (ata_settles B \<alpha> \<and> n = wleft (\<alpha> d) \<longrightarrow> b = 0)"
proof (induction n)
  case 0
  have "\<alpha> d = (\<alpha> d)\<lparr>busy := 0, lag := 0\<rparr>" using ready by simp
  then show ?case by (intro exI [of _ "0 :: nat"]) simp
next
  case (Suc n)
  let ?d = "fold (\<lambda>i. bout16 B ATA_DATA (f i)) [0..<n] d"
  have b: "\<alpha> ?d = (fold store_word (map f [0..<n]) (\<alpha> d))\<lparr>busy := 0, lag := 0\<rparr>" using Suc by auto
  then have w: "wleft (\<alpha> ?d) = wleft (\<alpha> d) - n" "busy (\<alpha> ?d) = 0" "lag (\<alpha> ?d) = 0" by (simp_all add: store_words)
  moreover have "0 < wleft (\<alpha> ?d)" using w(1) Suc.prems(2) by simp
  ultimately obtain b' l' where b': "b' < 100000" "l' < 100000" "(wleft (\<alpha> ?d) - 1) mod 256 \<noteq> 0 \<longrightarrow> b' = 0 \<and> l' = 0"
    "\<alpha> (bout16 B ATA_DATA (f n) ?d) = (store_word (f n) (\<alpha> ?d))\<lparr>busy := b', lag := l'\<rparr>"
    using B unfolding ata_drive_def ata_data_law_def by blast
  obtain q where q: "wleft (\<alpha> d) = 256 * q" using left by (auto elim: dvdE)
  have "(wleft (\<alpha> ?d) - 1) mod 256 \<noteq> 0" if "Suc n < 256"
  proof -
    have "wleft (\<alpha> ?d) - 1 = 256 * (q - 1) + (256 - Suc n)" using Suc.prems w(1) q that by (cases q) auto
    then have "(wleft (\<alpha> ?d) - 1) mod 256 = (256 - Suc n) mod 256" by (simp only: mod_mult_self4)
    then show ?thesis using that by simp
  qed
  then have "Suc n < 256 \<longrightarrow> b' = 0 \<and> l' = 0" using b'(3) by blast
  moreover have "ata_settles B \<alpha> \<and> Suc n = wleft (\<alpha> d) \<longrightarrow> b' = 0"
  proof (intro impI, elim conjE)
    assume "ata_settles B \<alpha>" "Suc n = wleft (\<alpha> d)"
    then have "busy (\<alpha> ?d) = 0 \<and> lag (\<alpha> ?d) = 0 \<and> wleft (\<alpha> ?d) = 1" using w by simp
    then have "busy (\<alpha> (bout16 B ATA_DATA (f n) ?d)) = 0" using \<open>ata_settles B \<alpha>\<close> unfolding ata_settles_def by blast
    then show "b' = 0" by (simp add: b'(4))
  qed
  moreover have "\<alpha> (fold (\<lambda>i. bout16 B ATA_DATA (f i)) [0..<Suc n] d) = (fold store_word (map f [0..<Suc n]) (\<alpha> d))\<lparr>busy := b', lag := l'\<rparr>"
    using b' b store_words_busy [of "[f n]"] by simp
  ultimately show ?case using b'(1,2) by blast
qed

lemma ata_write_sector:
  assumes B: "ata_drive B \<alpha>" and settles: "ata_settles B \<alpha>"
    and left: "wleft (\<alpha> d) = Suc n * 256" and rest: "busy (\<alpha> d) < 100000" "lag (\<alpha> d) < 100000"
  shows "\<exists>d' b l. ata_write_loop B (Suc m) j buf d = ata_write_loop B m (j + 1) buf d' \<and>
    \<alpha> d' = (fold store_word (map (\<lambda>i. buf ! (j * 256 + i)) [0..<256]) (\<alpha> d))\<lparr>busy := b, lag := l\<rparr> \<and>
    b < 100000 \<and> l < 100000 \<and> (n = 0 \<longrightarrow> b = 0)"
proof -
  obtain d1 where d1: "ata_wait_bsy B d = (True, d1)" "\<alpha> d1 = (\<alpha> d)\<lparr>busy := 0, lag := lag (\<alpha> d) - 1\<rparr>"
    using ata_wait_bsy_ready [OF B rest(1)] by blast
  have "lag (\<alpha> d1) < 100000" using rest(2) by (simp add: d1(2))
  then obtain d2 where d2: "ata_wait_drq B d1 = (True, d2)" "\<alpha> d2 = (\<alpha> d)\<lparr>busy := 0, lag := 0\<rparr>"
    using ata_wait_drq_ready [OF B, of d1] d1(2) left by auto
  let ?f = "\<lambda>i. buf ! (j * 256 + i)"
  let ?d = "ata_io_wait B (fold (\<lambda>i. bout16 B ATA_DATA (?f i)) [0..<256] d2)"
  have w: "busy (\<alpha> d2) = 0" "lag (\<alpha> d2) = 0" "wleft (\<alpha> d2) mod 256 = 0" "256 \<le> wleft (\<alpha> d2)"
    "256 = wleft (\<alpha> d2) \<longleftrightarrow> n = 0" using d2(2) left by simp_all
  obtain b l where b: "\<alpha> ?d = (fold store_word (map ?f [0..<256]) (\<alpha> d2))\<lparr>busy := b, lag := l\<rparr>" "b < 100000" "l < 100000"
    "n = 0 \<longrightarrow> b = 0"
    using write_words [OF B w(1-3), of 256 ?f] w(4,5) B settles by auto
  then have "\<alpha> ?d = (fold store_word (map ?f [0..<256]) (\<alpha> d))\<lparr>busy := b, lag := l\<rparr>"
    using d2(2) by (simp only: store_words_busy) simp
  moreover have "ata_write_loop B (Suc m) j buf d = ata_write_loop B m (j + 1) buf ?d" using d1(1) d2(1) by simp
  ultimately show ?thesis using b(2-4) by blast
qed

lemma ata_write_loop_writes:
  assumes B: "ata_drive B \<alpha>" and settles: "ata_settles B \<alpha>"
  shows "\<lbrakk>wleft (\<alpha> d) = n * 256; busy (\<alpha> d) < 100000; lag (\<alpha> d) < 100000\<rbrakk> \<Longrightarrow>
    \<exists>d' b l. ata_write_loop B n j buf d = (True, d') \<and>
      \<alpha> d' = (fold store_word (map (\<lambda>i. buf ! (j * 256 + i)) [0..<n * 256]) (\<alpha> d))\<lparr>busy := b, lag := l\<rparr> \<and>
      (0 < n \<longrightarrow> b = 0) \<and> (n = 0 \<longrightarrow> b = busy (\<alpha> d))"
proof (induction n arbitrary: j d)
  case 0
  then show ?case by (intro exI [of _ d] exI [of _ "busy (\<alpha> d)"] exI [of _ "lag (\<alpha> d)"]) simp
next
  case (Suc n)
  let ?f = "\<lambda>i. buf ! (j * 256 + i)"
  obtain d1 b1 l1 where d1: "ata_write_loop B (Suc n) j buf d = ata_write_loop B n (j + 1) buf d1"
    "\<alpha> d1 = (fold store_word (map ?f [0..<256]) (\<alpha> d))\<lparr>busy := b1, lag := l1\<rparr>" "b1 < 100000" "l1 < 100000" "n = 0 \<longrightarrow> b1 = 0"
    using ata_write_sector [OF B settles Suc.prems] by blast
  have "wleft (\<alpha> d1) = n * 256" "busy (\<alpha> d1) < 100000" "lag (\<alpha> d1) < 100000"
    using d1 Suc.prems by (simp_all add: store_words)
  then obtain d' b l where d': "ata_write_loop B n (j + 1) buf d1 = (True, d')" "0 < n \<longrightarrow> b = 0" "n = 0 \<longrightarrow> b = busy (\<alpha> d1)"
    "\<alpha> d' = (fold store_word (map (\<lambda>i. buf ! ((j + 1) * 256 + i)) [0..<n * 256]) (\<alpha> d1))\<lparr>busy := b, lag := l\<rparr>"
    using Suc.IH [of d1 "j + 1"] by blast
  have "[0..<Suc n * 256] = [0..<256] @ map (\<lambda>i. 256 + i) [0..<n * 256]"
    using upt_add_eq_append [of 0 256 "n * 256"] map_add_upt [of 256 "n * 256"] by (simp add: add.commute)
  then have "map ?f [0..<Suc n * 256] = map ?f [0..<256] @ map (\<lambda>i. buf ! ((j + 1) * 256 + i)) [0..<n * 256]"
    by (simp only: map_append map_map comp_def) (simp add: ac_simps)
  then have "\<alpha> d' = (fold store_word (map ?f [0..<Suc n * 256]) (\<alpha> d))\<lparr>busy := b, lag := l\<rparr>"
    using d'(4) d1(2) by (simp only: fold_append comp_def store_words_busy) simp
  moreover have "b = 0" using d'(2,3) d1(2,5) by (cases n) auto
  ultimately show ?case using d1(1) d'(1) by auto
qed

lemma ata_write_sectors_writes:
  assumes B: "ata_drive B \<alpha>" and settles: "ata_settles B \<alpha>" and idle: "idle (\<alpha> d)" and lba: "unat lba < 2 ^ 28"
    and cnt: "cnt \<noteq> 0" and buf: "length buf = unat cnt * 256"
  shows "\<exists>d'. ata_write_sectors B drv lba cnt buf d = (True, d') \<and> idle (\<alpha> d') \<and>
    media (\<alpha> d') = (media (\<alpha> d))((drv = ATA_SLAVE) := (\<lambda>k. if unat lba * 256 \<le> k \<and> k < unat lba * 256 + unat cnt * 256
      then buf ! (k - unat lba * 256) else media (\<alpha> d) (drv = ATA_SLAVE) k))"
proof -
  obtain d1 l1 where d1: "ata_wait_bsy B d = (True, d1)" "\<alpha> d1 = (\<alpha> d)\<lparr>busy := 0, lag := l1\<rparr>"
    using ata_wait_bsy_ready [OF B, of d] idle unfolding idle_def by blast
  have r1: "busy (\<alpha> d1) = 0" by (simp add: d1(2))
  obtain d2 where d2: "ata_issue B drv lba cnt ATA_CMD_WRITE_PIO d1 = bout8 B ATA_COMMAND ATA_CMD_WRITE_PIO d2"
    "\<alpha> d2 = issued drv lba cnt ((\<alpha> d)\<lparr>busy := 0, lag := l1\<rparr>)"
    using ata_issue_registers [OF B r1] d1(2) by metis
  have "idle (\<alpha> d2) \<and> busy (\<alpha> d2) = 0" using idle idle_ready by (simp add: d2(2))
  then obtain b l where b0: "b < 100000" "l < 100000" "\<alpha> (bout8 B ATA_COMMAND ATA_CMD_WRITE_PIO d2) =
      (\<alpha> d2)\<lparr>busy := b, lag := l, wpos := lba_of (\<alpha> d2) * 256, wleft := words_of (\<alpha> d2)\<rparr>"
    using B unfolding ata_drive_def ata_command_law_def by blast
  have regs: "lba_of (\<alpha> d2) = unat lba" "words_of (\<alpha> d2) = unat cnt * 256"
    using issued_address [OF lba] words_issued [OF cnt] by (simp_all add: d2(2))
  have b: "b < 100000" "l < 100000" "\<alpha> (bout8 B ATA_COMMAND ATA_CMD_WRITE_PIO d2) =
      (\<alpha> d2)\<lparr>busy := b, lag := l, wpos := unat lba * 256, wleft := unat cnt * 256\<rparr>"
    using b0 unfolding regs by blast+
  let ?d = "bout8 B ATA_COMMAND ATA_CMD_WRITE_PIO d2"
  have "0 < unat cnt" using cnt by (simp add: unat_gt_0)
  then obtain d3 l3 where d3: "ata_write_loop B (unat cnt) 0 buf ?d = (True, d3)"
    "\<alpha> d3 = (fold store_word (map (\<lambda>i. buf ! (0 * 256 + i)) [0..<unat cnt * 256]) (\<alpha> ?d))\<lparr>busy := 0, lag := l3\<rparr>"
    using ata_write_loop_writes [OF B settles, of ?d "unat cnt" 0 buf] b by auto
  have words: "map (\<lambda>i. buf ! (0 * 256 + i)) [0..<unat cnt * 256] = buf"
    using buf by (intro nth_equalityI) simp_all
  have sl: "slave_of (\<alpha> ?d) = (drv = ATA_SLAVE)"
    using issued_address(2) [OF lba] by (simp add: b(3) d2(2) slave_of_def)
  have m3: "media (\<alpha> d3) = (media (\<alpha> d))((drv = ATA_SLAVE) := (\<lambda>k. if unat lba * 256 \<le> k \<and> k < unat lba * 256 + unat cnt * 256
      then buf ! (k - unat lba * 256) else media (\<alpha> d) (drv = ATA_SLAVE) k))"
    unfolding d3(2) words store_words sl by (simp add: b(3) d2(2) buf cong: if_cong)
  have "idle (\<alpha> d3) \<and> busy (\<alpha> d3) = 0" unfolding d3(2) words store_words using idle by (simp add: idle_def b(3) d2(2) buf)
  then obtain b4 l4 where b4: "b4 < 100000" "\<alpha> (bout8 B ATA_COMMAND ATA_CMD_CACHE_FLUSH d3) = (\<alpha> d3)\<lparr>busy := b4, lag := l4\<rparr>"
    using B unfolding ata_drive_def ata_command_law_def by blast
  obtain d' l' where "ata_wait_bsy B (bout8 B ATA_COMMAND ATA_CMD_CACHE_FLUSH d3) = (True, d')" "\<alpha> d' = (\<alpha> d3)\<lparr>busy := 0, lag := l'\<rparr>"
    using ata_wait_bsy_ready [OF B, of "bout8 B ATA_COMMAND ATA_CMD_CACHE_FLUSH d3"] b4 by auto
  then show ?thesis using d1(1) d2(1) d3(1) m3 \<open>idle (\<alpha> d3) \<and> busy (\<alpha> d3) = 0\<close> by (simp add: ata_write_sectors_def idle_def)
qed


text \<open>
  A drive that is busy for three polls after each command and between sectors and then takes two
  more to request data. While it is busy it ignores commands and register writes, and its data port
  is not connected.
\<close>

definition example_bus :: "drive bus" where
  "example_bus = \<lparr>
     bin8 = (\<lambda>port a. if port = ATA_STATUS
       then if 0 < busy a then (0x80, a\<lparr>busy := busy a - 1\<rparr>)
            else (if lag a = 0 \<and> (pending a \<noteq> [] \<or> 0 < wleft a) then 0x58 else 0x50, a\<lparr>lag := lag a - 1\<rparr>)
       else (0, a)),
     bout8 = (\<lambda>port v a.
       if 0 < busy a then a
       else if port = ATA_DRIVE_SELECT then a\<lparr>dsel := v\<rparr> else if port = ATA_SECTOR_COUNT then a\<lparr>dcount := v\<rparr>
       else if port = ATA_LBA_LOW then a\<lparr>dlow := v\<rparr> else if port = ATA_LBA_MID then a\<lparr>dmid := v\<rparr>
       else if port = ATA_LBA_HIGH then a\<lparr>dhigh := v\<rparr>
       else if port = ATA_COMMAND then
         if v = ATA_CMD_READ_PIO
         then a\<lparr>busy := 3, lag := 2, pending := map (\<lambda>i. media a (slave_of a) (lba_of a * 256 + i)) [0..<words_of a]\<rparr>
         else if v = ATA_CMD_WRITE_PIO then a\<lparr>busy := 3, lag := 2, wpos := lba_of a * 256, wleft := words_of a\<rparr>
         else a\<lparr>busy := 3, lag := 2\<rparr>
       else a),
     bin16 = (\<lambda>port a. if 0 < busy a \<or> 0 < lag a then (0xFFFF, a) else case pending a of [] \<Rightarrow> (0xFFFF, a)
       | w # ws \<Rightarrow> (w, if length ws mod 256 = 0 then a\<lparr>pending := ws, busy := 3, lag := 2\<rparr>
           else a\<lparr>pending := ws, busy := 0, lag := 0\<rparr>)),
     bout16 = (\<lambda>port w a. if 0 < busy a \<or> 0 < lag a then a
       else if wleft a \<noteq> 1 \<and> (wleft a - 1) mod 256 = 0 then (store_word w a)\<lparr>busy := 3, lag := 2\<rparr>
       else (store_word w a)\<lparr>busy := 0, lag := 0\<rparr>)\<rparr>"

lemma example_drive: "ata_drive example_bus (\<lambda>a. a)" "ata_settles example_bus (\<lambda>a. a)"
proof -
  note ports = ATA_STATUS_def ATA_ALT_STATUS_def ATA_FEATURES_def ATA_DRIVE_SELECT_def ATA_SECTOR_COUNT_def
    ATA_LBA_LOW_def ATA_LBA_MID_def ATA_LBA_HIGH_def ATA_COMMAND_def
  have "ata_status_law example_bus (\<lambda>a. a)"
    by (simp add: ata_status_law_def example_bus_def ATA_STATUS_BSY_def ATA_STATUS_ERR_def ATA_STATUS_DF_def ATA_STATUS_DRQ_def)
  moreover have "ata_register_law example_bus (\<lambda>a. a)"
    by (simp add: ata_register_law_def example_bus_def ports)
  moreover have "ata_command_law example_bus (\<lambda>a. a)"
    unfolding ata_command_law_def
    by (intro allI impI conjI exI [of _ 3] exI [of _ 2])
      (simp_all add: example_bus_def ports ATA_CMD_READ_PIO_def ATA_CMD_WRITE_PIO_def ATA_CMD_CACHE_FLUSH_def)
  moreover have "ata_data_law example_bus (\<lambda>a. a)"
  proof -
    have "\<exists>b<100000. \<exists>l<100000. (length ws mod 256 \<noteq> 0 \<longrightarrow> b = 0 \<and> l = 0) \<and>
        snd (bin16 example_bus ATA_DATA d) = d\<lparr>pending := ws, busy := b, lag := l\<rparr>"
      if "busy d = 0" "lag d = 0" "pending d = w # ws" for d w ws
    proof (cases "length ws mod 256 = 0")
      case True
      then show ?thesis using that by (intro exI [of _ 3] exI [of _ 2] conjI) (simp_all add: example_bus_def)
    next
      case False
      then show ?thesis using that by (intro exI [of _ 0] conjI) (simp_all add: example_bus_def)
    qed
    moreover have "\<exists>b<100000. \<exists>l<100000. ((wleft d - 1) mod 256 \<noteq> 0 \<longrightarrow> b = 0 \<and> l = 0) \<and>
        bout16 example_bus ATA_DATA w d = (store_word w d)\<lparr>busy := b, lag := l\<rparr>"
      if "busy d = 0" "lag d = 0" for d w
    proof (cases "wleft d \<noteq> 1 \<and> (wleft d - 1) mod 256 = 0")
      case True
      then show ?thesis using that by (intro exI [of _ 3] exI [of _ 2] conjI) (simp_all add: example_bus_def)
    next
      case False
      then show ?thesis using that by (intro exI [of _ 0] conjI) (auto simp: example_bus_def)
    qed
    moreover have "fst (bin16 example_bus ATA_DATA d) = w" if "busy d = 0" "lag d = 0" "pending d = w # ws" for d w ws
      using that by (simp add: example_bus_def)
    ultimately show ?thesis unfolding ata_data_law_def by blast
  qed
  ultimately show "ata_drive example_bus (\<lambda>a. a)" by (simp add: ata_drive_def)
  show "ata_settles example_bus (\<lambda>a. a)" by (simp add: ata_settles_def example_bus_def)
qed

definition drive_example :: drive where
  "drive_example = \<lparr>dsel = 0xA0, dcount = 0, dlow = 0, dmid = 0, dhigh = 0, busy = 7, lag = 0, pending = [], wpos = 0,
     wleft = 0, media = (\<lambda>_ _. 0)\<rparr>"


text \<open>
  A drive fault: when the status shows the fault bit with the data request, reading stops with a
  failure before the first word; writing does not look at the bit and reports success.
\<close>

theorem ata_drive_fault:
  assumes "\<And>d. fst (bin8 B ATA_STATUS d) = 0x78" "cnt \<noteq> 0"
  shows "\<exists>d'. ata_read_sectors B drv lba cnt buf d = (False, buf, d')"
    "\<exists>d'. ata_write_sectors B drv lba cnt buf d = (True, d')"
proof -
  have st: "\<exists>d1. bin8 B ATA_STATUS d = (0x78, d1)" for d using assms(1) [of d] by (metis prod.collapse)
  have bsy: "\<exists>d'. ata_wait_bsy B d = (True, d')" for d
  proof -
    obtain d1 where "bin8 B ATA_STATUS d = (0x78, d1)" using st by blast
    then have "wait_bsy_loop B (Suc n) d = (True, d1)" for n by (simp add: ATA_STATUS_BSY_def)
    from this [of 99999] show ?thesis by (simp add: ata_wait_bsy_def)
  qed
  have drq: "\<exists>d'. ata_wait_drq B d = (True, d')" for d
  proof -
    obtain d1 where "bin8 B ATA_STATUS d = (0x78, d1)" using st by blast
    then have "wait_drq_loop B (Suc n) d = (True, d1)" for n by (simp add: ATA_STATUS_ERR_def ATA_STATUS_DRQ_def)
    from this [of 99999] show ?thesis by (simp add: ata_wait_drq_def)
  qed
  obtain n where n: "unat cnt = Suc n" using assms(2) by (metis not0_implies_Suc unat_eq_zero)
  show "\<exists>d'. ata_read_sectors B drv lba cnt buf d = (False, buf, d')"
  proof -
    obtain d1 where d1: "ata_wait_bsy B d = (True, d1)" using bsy by blast
    let ?d = "ata_issue B drv lba cnt ATA_CMD_READ_PIO d1"
    obtain d2 d3 d4 where "ata_wait_bsy B ?d = (True, d2)" "ata_wait_drq B d2 = (True, d3)" "bin8 B ATA_STATUS d3 = (0x78, d4)"
      using bsy drq st by metis
    then show ?thesis using d1 by (simp add: ata_read_sectors_def n ATA_STATUS_DF_def)
  qed
  have loop: "\<exists>d'. ata_write_loop B m j buf d = (True, d')" for m j d
  proof (induction m arbitrary: j d)
    case (Suc m)
    obtain d1 d2 where "ata_wait_bsy B d = (True, d1)" "ata_wait_drq B d1 = (True, d2)" using bsy drq by metis
    then show ?case using Suc by simp
  qed simp
  show "\<exists>d'. ata_write_sectors B drv lba cnt buf d = (True, d')"
  proof -
    obtain d1 where "ata_wait_bsy B d = (True, d1)" using bsy by blast
    moreover obtain d2 where "ata_write_loop B (unat cnt) 0 buf (ata_issue B drv lba cnt ATA_CMD_WRITE_PIO d1) = (True, d2)"
      using loop by blast
    ultimately show ?thesis using bsy by (simp add: ata_write_sectors_def)
  qed
qed

end
