(* ===== verification/Khazar_Pci.thy ===== *)
theory Khazar_Pci
  imports Khazar_Bytes
begin

text \<open>
  The PCI bus, \<^verbatim>\<open>kernel/drivers/pci.c\<close>. The configuration space is a function from the address
  written to port 0xCF8 to the 32-bit register behind port 0xCFC; reading does not change it.
\<close>

subsection \<open>Devices and configuration space\<close>

type_synonym pci_config = "u32 \<Rightarrow> u32"

record pci_device_t =
  pbus :: u8
  pdev :: u8
  pfunc :: u8
  vendor_id :: u16
  device_id :: u16
  class_code :: u8
  sub_class :: u8
  prog_if :: u8
  revision :: u8

definition PCI_MAX_DEVICES :: nat where "PCI_MAX_DEVICES = 128"

definition pci_make_addr :: "u8 \<Rightarrow> u8 \<Rightarrow> u8 \<Rightarrow> u8 \<Rightarrow> u32" where
  "pci_make_addr bus dev func offset =
     push_bit 31 1 OR push_bit 16 (ucast bus) OR push_bit 11 (ucast dev) OR push_bit 8 (ucast func) OR
     ucast (offset AND 0xFC)"

definition pci_read32 :: "pci_config \<Rightarrow> u8 \<Rightarrow> u8 \<Rightarrow> u8 \<Rightarrow> u8 \<Rightarrow> u32" where
  "pci_read32 cfg bus dev func offset = cfg (pci_make_addr bus dev func offset)"

definition pci_read16 :: "pci_config \<Rightarrow> u8 \<Rightarrow> u8 \<Rightarrow> u8 \<Rightarrow> u8 \<Rightarrow> u16" where
  "pci_read16 cfg bus dev func offset =
     (let v = pci_read32 cfg bus dev func offset;
          shift = (if offset AND 2 \<noteq> 0 then 16 else 0)
      in ucast (drop_bit shift v AND 0xFFFF))"

definition pci_write32 :: "u8 \<Rightarrow> u8 \<Rightarrow> u8 \<Rightarrow> u8 \<Rightarrow> u32 \<Rightarrow> pci_config \<Rightarrow> pci_config" where
  "pci_write32 bus dev func offset val cfg = cfg(pci_make_addr bus dev func offset := val)"

definition pci_write16 :: "u8 \<Rightarrow> u8 \<Rightarrow> u8 \<Rightarrow> u8 \<Rightarrow> u16 \<Rightarrow> pci_config \<Rightarrow> pci_config" where
  "pci_write16 bus dev func offset val cfg =
     (let v = pci_read32 cfg bus dev func offset;
          v' = (if offset AND 2 \<noteq> 0 then (v AND 0x0000FFFF) OR push_bit 16 (ucast val)
                else (v AND 0xFFFF0000) OR ucast val)
      in pci_write32 bus dev func offset v' cfg)"

definition pci_read8 :: "pci_config \<Rightarrow> u8 \<Rightarrow> u8 \<Rightarrow> u8 \<Rightarrow> u8 \<Rightarrow> u8" where
  "pci_read8 cfg bus dev func offset =
     ucast (drop_bit (unat (offset AND 3) * 8) (pci_read32 cfg bus dev func offset) AND 0xFF)"

subsection \<open>The scan\<close>

definition pci_device :: "pci_config \<Rightarrow> u8 \<Rightarrow> u8 \<Rightarrow> u8 \<Rightarrow> pci_device_t" where
  "pci_device cfg bus dev func = \<lparr>pbus = bus, pdev = dev, pfunc = func,
     vendor_id = pci_read16 cfg bus dev func 0x00, device_id = pci_read16 cfg bus dev func 0x02,
     class_code = pci_read8 cfg bus dev func 0x0B, sub_class = pci_read8 cfg bus dev func 0x0A,
     prog_if = pci_read8 cfg bus dev func 0x09, revision = pci_read8 cfg bus dev func 0x08\<rparr>"

text \<open>The device table is the list of its first \<^verbatim>\<open>pci_device_count\<close> entries.\<close>

definition pci_try_add :: "pci_config \<Rightarrow> u8 \<Rightarrow> u8 \<Rightarrow> u8 \<Rightarrow> pci_device_t list \<Rightarrow> pci_device_t list" where
  "pci_try_add cfg bus dev func devs =
     (if pci_read16 cfg bus dev func 0x00 = 0xFFFF then devs
      else if length devs \<ge> PCI_MAX_DEVICES then devs
      else devs @ [pci_device cfg bus dev func])"

definition pci_scan_slot :: "pci_config \<Rightarrow> u8 \<Rightarrow> u8 \<Rightarrow> pci_device_t list \<Rightarrow> pci_device_t list" where
  "pci_scan_slot cfg bus dev devs =
     (if pci_read16 cfg bus dev 0 0x00 = 0xFFFF then devs
      else let multi = pci_read8 cfg bus dev 0 0x0E AND 0x80;
               devs1 = pci_try_add cfg bus dev 0 devs
           in if multi \<noteq> 0 then fold (\<lambda>f. pci_try_add cfg bus dev (of_nat f)) [1..<8] devs1 else devs1)"

definition pci_init :: "pci_config \<Rightarrow> pci_device_t list" where
  "pci_init cfg =
     fold (\<lambda>bus. fold (\<lambda>dev. pci_scan_slot cfg (of_nat bus) (of_nat dev)) [0..<32]) [0..<256] []"

definition pci_get_device_count :: "pci_device_t list \<Rightarrow> u32" where
  "pci_get_device_count devs = of_nat (length devs)"

definition pci_get_device :: "pci_device_t list \<Rightarrow> u32 \<Rightarrow> pci_device_t option" where
  "pci_get_device devs idx = (if idx \<ge> pci_get_device_count devs then None else Some (devs ! unat idx))"

definition pci_find_class :: "u8 \<Rightarrow> u8 \<Rightarrow> pci_device_t list \<Rightarrow> pci_device_t option" where
  "pci_find_class cc sc devs = find (\<lambda>d. class_code d = cc \<and> sub_class d = sc) devs"

definition pci_find_device :: "u16 \<Rightarrow> u16 \<Rightarrow> pci_device_t list \<Rightarrow> pci_device_t option" where
  "pci_find_device vid did devs = find (\<lambda>d. vendor_id d = vid \<and> device_id d = did) devs"

subsection \<open>Completeness of the scan\<close>

text \<open>The functions of a slot that answer: function 0 first, the others for a multifunction device.\<close>

definition present :: "pci_config \<Rightarrow> u8 \<Rightarrow> u8 \<Rightarrow> u8 \<Rightarrow> bool" where
  "present cfg bus dev func \<longleftrightarrow> pci_read16 cfg bus dev func 0x00 \<noteq> 0xFFFF"

definition slot_functions :: "pci_config \<Rightarrow> u8 \<Rightarrow> u8 \<Rightarrow> u8 list" where
  "slot_functions cfg bus dev =
     (if present cfg bus dev 0
      then 0 # (if pci_read8 cfg bus dev 0 0x0E AND 0x80 \<noteq> 0
                then filter (present cfg bus dev) (map of_nat [1..<8]) else [])
      else [])"

definition slot_devices :: "pci_config \<Rightarrow> nat \<Rightarrow> nat \<Rightarrow> pci_device_t list" where
  "slot_devices cfg bus dev =
     map (pci_device cfg (of_nat bus) (of_nat dev)) (slot_functions cfg (of_nat bus) (of_nat dev))"

lemma try_add_eq:
  "pci_try_add cfg bus dev f (take PCI_MAX_DEVICES xs) =
     take PCI_MAX_DEVICES (xs @ (if present cfg bus dev f then [pci_device cfg bus dev f] else []))"
  by (simp add: pci_try_add_def present_def min_def)

lemma fold_try_add_eq:
  "fold (\<lambda>f. pci_try_add cfg bus dev (of_nat f)) fs (take PCI_MAX_DEVICES xs) =
     take PCI_MAX_DEVICES (xs @ map (pci_device cfg bus dev) (filter (present cfg bus dev) (map of_nat fs)))"
  by (induction fs arbitrary: xs) (simp_all add: try_add_eq del: take_append)

lemma scan_slot_eq:
  "pci_scan_slot cfg (of_nat bus) (of_nat dev) (take PCI_MAX_DEVICES xs) =
     take PCI_MAX_DEVICES (xs @ slot_devices cfg bus dev)"
proof (cases "present cfg (of_nat bus) (of_nat dev) 0")
  case True
  then show ?thesis
    by (simp add: pci_scan_slot_def slot_devices_def slot_functions_def present_def [of _ _ _ 0] try_add_eq
        fold_try_add_eq del: upt_rec_numeral take_append)
next
  case False
  then show ?thesis by (simp add: pci_scan_slot_def slot_devices_def slot_functions_def present_def)
qed

lemma fold_scan_eq:
  assumes "\<And>x xs. f x (take n xs) = take n (xs @ g x)"
  shows "fold f ys (take n xs) = take n (xs @ concat (map g ys))"
  by (induction ys arbitrary: xs) (simp_all add: assms del: take_append)

text \<open>
  The bus scan finds every function that answers: the device table is the list of all
  functions with a vendor id, in the order of bus, device and function number, as long as it
  has room for them.
\<close>

theorem pci_init_complete:
  "pci_init cfg = take PCI_MAX_DEVICES (concat (map (\<lambda>bus. concat (map (slot_devices cfg bus) [0..<32])) [0..<256]))"
proof -
  have "fold (\<lambda>dev. pci_scan_slot cfg (of_nat bus) (of_nat dev)) [0..<32] (take PCI_MAX_DEVICES xs) =
      take PCI_MAX_DEVICES (xs @ concat (map (slot_devices cfg bus) [0..<32]))" for bus xs
    by (rule fold_scan_eq) (rule scan_slot_eq)
  from fold_scan_eq [of "\<lambda>bus. fold (\<lambda>dev. pci_scan_slot cfg (of_nat bus) (of_nat dev)) [0..<32]"
      PCI_MAX_DEVICES "\<lambda>bus. concat (map (slot_devices cfg bus) [0..<32])" "[0..<256]" "[]", OF this]
  show ?thesis unfolding pci_init_def by (simp del: upt_rec_numeral)
qed

end
