(* ===== verification/Khazar_Ethernet.thy ===== *)
theory Khazar_Ethernet
  imports Khazar_Pci
begin

text \<open>
  The network adapters: the driver for the Intel E1000 and the common interface in
  \<^verbatim>\<open>kernel/net/ethernet/ethernet.c\<close>, and the driver for the Realtek RTL8169 family,
  \<^verbatim>\<open>kernel/drivers/net/rtl8169.c\<close>. Writes to device registers and ports are appended to logs.
  What the hardware answers is a record \<open>nic_hw\<close>, an argument of the initialisation; the
  addresses at which the linker placed the rings and buffers are a record \<open>nic_layout\<close>.
  \<open>sent\<close> collects the frames handed to the adapter, the bytes of the transmit buffer that the
  descriptor covers, \<open>rtl_behind\<close> are the bytes the linker placed behind the receive buffers of the
  RTL8169, and \<open>tx_polls\<close> is the number of times the driver will see the current
  transmit descriptor of the RTL8169 still owned by the adapter.
\<close>

subsection \<open>State\<close>

definition NUM_RX_DESC :: nat where "NUM_RX_DESC = 16"
definition NUM_TX_DESC :: nat where "NUM_TX_DESC = 16"
definition PACKET_SIZE :: nat where "PACKET_SIZE = 2048"
definition RTL_PACKET_SIZE :: nat where "RTL_PACKET_SIZE = 1536"

record e1000_rx_desc_t =
  rx_address :: u64
  rx_length :: u16
  rx_checksum :: u16
  rx_status :: u8
  rx_errors :: u8
  rx_special :: u16

record e1000_tx_desc_t =
  tx_address :: u64
  tx_length :: u16
  tx_cso :: u8
  tx_cmd :: u8
  tx_status :: u8
  tx_css :: u8
  tx_special :: u16

record rtl8169_desc_t =
  rtl_command :: u32
  rtl_vlan :: u32
  rtl_low_buf :: u32
  rtl_high_buf :: u32

record rtl_state =
  rtl_ready :: bool
  rtl_io_base :: u32
  rtl_mac :: "u8 list"
  rtl_rx_descs :: "rtl8169_desc_t list"
  rtl_tx_descs :: "rtl8169_desc_t list"
  rtl_rx_buf :: "u8 list list"
  rtl_tx_buf :: "u8 list list"
  rtl_rx_cur :: nat
  rtl_tx_cur :: nat
  rtl_ports :: "(u32 \<times> u32) list"
  rtl_config :: "(u32 \<times> u32) list"
  rtl_behind :: "nat \<Rightarrow> u8"

record eth_state =
  eth_pci_dev :: "pci_device_t option"
  eth_mmio_base :: u32
  eth_mac :: "u8 list"
  eth_initialized :: bool
  net_driver_type :: nat
  rx_descs :: "e1000_rx_desc_t list"
  tx_descs :: "e1000_tx_desc_t list"
  rx_buf :: "u8 list list"
  tx_buf :: "u8 list list"
  rx_cur :: nat
  tx_cur :: nat
  e1000_regs :: "(u32 \<times> u32) list"
  mmio_pages :: "u32 list"
  config_writes :: "(u32 \<times> u32) list"
  rtl :: rtl_state
  sent :: "u8 list list"
  tx_polls :: nat

record nic_hw =
  hw_config :: pci_config
  hw_eeprom :: "u8 \<Rightarrow> u32"
  hw_ctrl :: u32
  hw_rtl_port :: "u32 \<Rightarrow> u8"

record nic_layout =
  at_rx_descs :: u32
  at_tx_descs :: u32
  at_rx_buf :: u32
  at_tx_buf :: u32
  at_rtl_rx_descs :: u32
  at_rtl_tx_descs :: u32
  at_rtl_rx_buf :: u32
  at_rtl_tx_buf :: u32

definition v2p :: "u32 \<Rightarrow> u32" where "v2p a = a - 0xC0000000"

text \<open>The write that sets the bus master bit in the command register of a device.\<close>

definition bus_master :: "nic_hw \<Rightarrow> pci_device_t \<Rightarrow> u32 \<times> u32" where
  "bus_master hw d =
     (let a = pci_make_addr (pbus d) (pdev d) (pfunc d) 0x04 in (a, hw_config hw a OR 0x04))"

subsection \<open>The E1000\<close>

definition e1000_w :: "u32 \<Rightarrow> u32 \<Rightarrow> eth_state \<Rightarrow> eth_state" where
  "e1000_w reg val s = s\<lparr>e1000_regs := e1000_regs s @ [(reg, val)]\<rparr>"

definition e1000_ws :: "(u32 \<times> u32) list \<Rightarrow> eth_state \<Rightarrow> eth_state" where
  "e1000_ws ws s = fold (\<lambda>(r, v). e1000_w r v) ws s"

definition e1000_eeprom_read :: "nic_hw \<Rightarrow> u8 \<Rightarrow> eth_state \<Rightarrow> u16 \<times> eth_state" where
  "e1000_eeprom_read hw a s =
     (ucast (drop_bit 16 (hw_eeprom hw a) AND 0xFFFF), e1000_w 0x14 (1 OR push_bit 8 (ucast a)) s)"

definition e1000_read_mac :: "nic_hw \<Rightarrow> eth_state \<Rightarrow> u8 list \<times> eth_state" where
  "e1000_read_mac hw s =
     (let (w0, s1) = e1000_eeprom_read hw 0 s;
          (w1, s2) = e1000_eeprom_read hw 1 s1;
          (w2, s3) = e1000_eeprom_read hw 2 s2
      in ([lo8 w0, hi8 w0, lo8 w1, hi8 w1, lo8 w2, hi8 w2], s3))"

definition e1000_init_rx :: "nic_layout \<Rightarrow> eth_state \<Rightarrow> eth_state" where
  "e1000_init_rx lay s =
     e1000_ws [(0x2800, v2p (at_rx_descs lay)), (0x2804, 0), (0x2808, of_nat (NUM_RX_DESC * 16)), (0x2810, 0),
               (0x2818, of_nat (NUM_RX_DESC - 1)), (0x0100, 0x04008006)]
       (s\<lparr>rx_descs := map (\<lambda>i. (rx_descs s ! i)\<lparr>rx_address := ucast (v2p (at_rx_buf lay + of_nat (i * PACKET_SIZE))),
             rx_status := 0\<rparr>) [0..<NUM_RX_DESC]\<rparr>)"

definition e1000_init_tx :: "nic_layout \<Rightarrow> eth_state \<Rightarrow> eth_state" where
  "e1000_init_tx lay s =
     e1000_ws [(0x3800, v2p (at_tx_descs lay)), (0x3804, 0), (0x3808, of_nat (NUM_TX_DESC * 16)), (0x3810, 0),
               (0x3818, 0), (0x0400, 0x000400FA)]
       (s\<lparr>tx_descs := map (\<lambda>i. (tx_descs s ! i)\<lparr>tx_address := ucast (v2p (at_tx_buf lay + of_nat (i * PACKET_SIZE))),
             tx_status := 1\<rparr>) [0..<NUM_TX_DESC]\<rparr>)"

definition pci_read_bar0 :: "nic_hw \<Rightarrow> pci_device_t \<Rightarrow> u32" where
  "pci_read_bar0 hw d = pci_read32 (hw_config hw) (pbus d) (pdev d) (pfunc d) 0x10"

text \<open>
  The two receive address registers: the first four bytes of the MAC address, and the last two
  with the valid bit.
\<close>

definition mac_low :: "u8 list \<Rightarrow> u32" where "mac_low mac = join32 (mac ! 0) (mac ! 1) (mac ! 2) (mac ! 3)"
definition mac_high :: "u8 list \<Rightarrow> u32" where "mac_high mac = ucast (join16 (mac ! 4) (mac ! 5)) OR push_bit 31 1"

definition is_e1000 :: "pci_device_t \<Rightarrow> bool" where
  "is_e1000 d \<longleftrightarrow> vendor_id d = 0x8086 \<and> device_id d \<in> {0x100E, 0x100F, 0x1010, 0x1016}"

definition is_rtl :: "pci_device_t \<Rightarrow> bool" where
  "is_rtl d \<longleftrightarrow> vendor_id d = 0x10EC \<and> device_id d \<in> {0x8136, 0x8168, 0x8169}"

text \<open>
  Reset, link up, cleared multicast table, interrupts off. The values read back from the
  control register are \<open>hw_ctrl\<close>.
\<close>

definition e1000_reset :: "nic_hw \<Rightarrow> eth_state \<Rightarrow> eth_state" where
  "e1000_reset hw s =
     e1000_ws ([(0, hw_ctrl hw OR push_bit 26 1), (0, hw_ctrl hw OR push_bit 6 1)] @
       map (\<lambda>i. (0x5200 + of_nat (i * 4), 0)) [0..<128] @ [(0xD8, 0xFFFFFFFF)]) s"

definition e1000_setup :: "nic_hw \<Rightarrow> nic_layout \<Rightarrow> pci_device_t \<Rightarrow> eth_state \<Rightarrow> bool \<times> eth_state" where
  "e1000_setup hw lay d s =
     (let bar0 = pci_read_bar0 hw d
      in if bar0 AND 1 \<noteq> 0 then (False, s)
         else
           let base = bar0 AND 0xFFFFFFF0;
               s1 = s\<lparr>eth_mmio_base := base, eth_pci_dev := Some d,
                      mmio_pages := mmio_pages s @ map (\<lambda>pg. base + of_nat (pg * 4096)) [0..<32],
                      config_writes := config_writes s @ [bus_master hw d]\<rparr>;
               s2 = e1000_reset hw s1;
               (mac, s3) = e1000_read_mac hw s2;
               s4 = e1000_ws [(0x5400, mac_low mac), (0x5404, mac_high mac)] (s3\<lparr>eth_mac := mac\<rparr>);
               s5 = e1000_init_tx lay (e1000_init_rx lay s4)
           in (True, s5\<lparr>net_driver_type := 1, eth_initialized := True\<rparr>))"

subsection \<open>The RTL8169\<close>

definition rtl_out :: "u32 \<Rightarrow> u32 \<Rightarrow> rtl_state \<Rightarrow> rtl_state" where
  "rtl_out reg val s = s\<lparr>rtl_ports := rtl_ports s @ [(rtl_io_base s + reg, val)]\<rparr>"

definition rtl_own :: u32 where "rtl_own = push_bit 31 1"
definition rtl_eor :: u32 where "rtl_eor = push_bit 30 1"

definition rtl_init_rx_descs :: "nic_layout \<Rightarrow> rtl8169_desc_t list" where
  "rtl_init_rx_descs lay =
     map (\<lambda>i. \<lparr>rtl_command = rtl_own OR of_nat RTL_PACKET_SIZE OR (if i = NUM_RX_DESC - 1 then rtl_eor else 0),
               rtl_vlan = 0, rtl_low_buf = v2p (at_rtl_rx_buf lay + of_nat (i * RTL_PACKET_SIZE)), rtl_high_buf = 0\<rparr>)
       [0..<NUM_RX_DESC]"

definition rtl_init_tx_descs :: "nic_layout \<Rightarrow> rtl8169_desc_t list" where
  "rtl_init_tx_descs lay =
     map (\<lambda>i. \<lparr>rtl_command = (if i = NUM_TX_DESC - 1 then rtl_eor else 0),
               rtl_vlan = 0, rtl_low_buf = v2p (at_rtl_tx_buf lay + of_nat (i * RTL_PACKET_SIZE)), rtl_high_buf = 0\<rparr>)
       [0..<NUM_TX_DESC]"

text \<open>
  The port writes of \<^verbatim>\<open>rtl8169_init\<close> in order; the polling of the reset bit ends after a bounded
  number of reads.
\<close>

definition rtl8169_init :: "nic_hw \<Rightarrow> nic_layout \<Rightarrow> pci_device_t option \<Rightarrow> rtl_state \<Rightarrow> bool \<times> rtl_state" where
  "rtl8169_init hw lay dev s =
     (case dev of
        None \<Rightarrow> (False, s)
      | Some d \<Rightarrow>
          let bar0 = pci_read32 (hw_config hw) (pbus d) (pdev d) (pfunc d) 0x10
          in if bar0 AND 1 = 0 then (False, s)
             else
               let base = bar0 AND NOT 3;
                   s1 = fold (\<lambda>(r, v). rtl_out r v)
                     [(0x37, 0x10), (0x50, 0xC0), (0xDA, of_nat RTL_PACKET_SIZE), (0xEC, 0x3F)]
                     (s\<lparr>rtl_io_base := base, rtl_config := rtl_config s @ [bus_master hw d]\<rparr>);
                   s2 = s1\<lparr>rtl_rx_descs := rtl_init_rx_descs lay, rtl_tx_descs := rtl_init_tx_descs lay\<rparr>;
                   s3 = fold (\<lambda>(r, v). rtl_out r v)
                     [(0x20, v2p (at_rtl_tx_descs lay)), (0x24, 0), (0xE4, v2p (at_rtl_rx_descs lay)), (0xE8, 0),
                      (0x40, 0x03000700), (0x44, 0x070F), (0x50, 0), (0x3C, 0), (0x3E, 0xFFFF)] s2;
                   s4 = s3\<lparr>rtl_mac := map (\<lambda>i. hw_rtl_port hw (base + of_nat i)) [0..<6]\<rparr>;
                   s5 = rtl_out 0x37 0x0C s4
               in (True, s5\<lparr>rtl_rx_cur := 0, rtl_tx_cur := 0, rtl_ready := True\<rparr>))"

text \<open>
  The value of \<^verbatim>\<open>timeout\<close> after the polling loop \<^verbatim>\<open>while (owned && timeout--)\<close> when the descriptor
  is seen owned \<open>polls\<close> times before it is free: the counter wraps when it runs out.
\<close>

definition rtl_timeout :: "nat \<Rightarrow> u32" where
  "rtl_timeout polls = (if polls \<le> 1000000 then 1000000 - of_nat polls else 0xFFFFFFFF)"

definition eth_header :: "u8 list \<Rightarrow> u8 list \<Rightarrow> u16 \<Rightarrow> u8 list" where
  "eth_header dst src ethertype = take 6 dst @ take 6 src @ [hi8 ethertype, lo8 ethertype]"

text \<open>A transmit buffer after the frame has been written to its start.\<close>

definition put_frame :: "u8 list \<Rightarrow> u8 list \<Rightarrow> u8 list" where
  "put_frame frame buf = frame @ drop (length frame) buf"

definition rtl8169_send ::
    "nat \<Rightarrow> u8 list \<Rightarrow> u16 \<Rightarrow> u8 list \<Rightarrow> u16 \<Rightarrow> rtl_state \<Rightarrow> bool \<times> u8 list option \<times> rtl_state" where
  "rtl8169_send polls dst ethertype payload len s =
     (if \<not> rtl_ready s then (False, None, s)
      else if rtl_timeout polls = 0 then (False, None, s)
      else
        let total = min (14 + unat len) RTL_PACKET_SIZE;
            frame = eth_header dst (rtl_mac s) ethertype @ take (total - 14) payload;
            cmd = rtl_own OR push_bit 29 1 OR push_bit 28 1 OR of_nat total OR
                  (if rtl_tx_cur s = NUM_TX_DESC - 1 then rtl_eor else 0);
            cur = rtl_tx_cur s;
            s1 = s\<lparr>rtl_tx_buf := (rtl_tx_buf s)[cur := put_frame frame (rtl_tx_buf s ! cur)],
                   rtl_tx_descs := (rtl_tx_descs s)[cur := (rtl_tx_descs s ! cur)\<lparr>rtl_command := cmd\<rparr>]\<rparr>
        in (True, Some frame, (rtl_out 0x38 0x40 s1)\<lparr>rtl_tx_cur := (cur + 1) mod NUM_TX_DESC\<rparr>))"

text \<open>
  The result of a receive: \<open>None\<close> is -1, otherwise the bytes stored. The length field of a descriptor
  has 14 bits and is not compared with the size of the buffer: \<^verbatim>\<open>memcpy\<close> reads on into the next
  buffers and what lies behind them.
\<close>

definition rtl_rx_bytes :: "nat \<Rightarrow> nat \<Rightarrow> rtl_state \<Rightarrow> u8 list" where
  "rtl_rx_bytes cur len s = take len (concat (drop cur (rtl_rx_buf s)) @ map (rtl_behind s) [0..<0x4000])"

definition rtl8169_receive :: "u16 \<Rightarrow> rtl_state \<Rightarrow> u8 list option \<times> rtl_state" where
  "rtl8169_receive maxlen s =
     (if \<not> rtl_ready s then (None, s)
      else
        let cur = rtl_rx_cur s;
            cmd = rtl_command (rtl_rx_descs s ! cur)
        in if cmd AND rtl_own \<noteq> 0 then (Some [], s)
           else
             let len = min (unat (cmd AND 0x3FFF)) (unat maxlen);
                 restore = rtl_own OR of_nat RTL_PACKET_SIZE OR (if cur = NUM_RX_DESC - 1 then rtl_eor else 0)
             in (Some (rtl_rx_bytes cur len s),
                 s\<lparr>rtl_rx_descs := (rtl_rx_descs s)[cur := (rtl_rx_descs s ! cur)\<lparr>rtl_command := restore\<rparr>],
                   rtl_rx_cur := (cur + 1) mod NUM_RX_DESC\<rparr>))"

definition rtl8169_is_ready :: "rtl_state \<Rightarrow> bool" where "rtl8169_is_ready s = rtl_ready s"
definition rtl8169_get_mac :: "rtl_state \<Rightarrow> u8 list" where "rtl8169_get_mac s = map (\<lambda>i. rtl_mac s ! i) [0..<6]"

subsection \<open>The common interface\<close>

definition ethernet_init :: "nic_hw \<Rightarrow> nic_layout \<Rightarrow> pci_device_t list \<Rightarrow> eth_state \<Rightarrow> bool \<times> eth_state" where
  "ethernet_init hw lay devs s =
     (case find is_e1000 devs of
        Some d \<Rightarrow> e1000_setup hw lay d s
      | None \<Rightarrow>
          (case find is_rtl devs of
             Some d \<Rightarrow>
               (case rtl8169_init hw lay (Some d) (rtl s) of
                  (True, r) \<Rightarrow> (True, s\<lparr>rtl := r, net_driver_type := 2, eth_pci_dev := Some d,
                                 eth_mac := rtl8169_get_mac r, eth_initialized := True\<rparr>)
                | (False, r) \<Rightarrow> (False, s\<lparr>rtl := r\<rparr>))
           | None \<Rightarrow> (False, s)))"

text \<open>
  \<open>None\<close> is the copy of a negative number of bytes, when \<^verbatim>\<open>14 + len\<close> wraps in 16 bits.
\<close>

definition e1000_send :: "u8 list \<Rightarrow> u16 \<Rightarrow> u8 list \<Rightarrow> u16 \<Rightarrow> eth_state \<Rightarrow> (bool \<times> eth_state) option" where
  "e1000_send dst ethertype payload len s =
     (let total0 = unat (14 + len);
          total = min total0 PACKET_SIZE
      in if total < 14 then None
         else
           let cur = tx_cur s;
               frame = eth_header dst (eth_mac s) ethertype @ take (total - 14) payload;
               s1 = s\<lparr>tx_buf := (tx_buf s)[cur := put_frame frame (tx_buf s ! cur)],
                      tx_descs := (tx_descs s)[cur := (tx_descs s ! cur)\<lparr>tx_length := of_nat total, tx_cmd := 0x0B,
                                     tx_status := 0\<rparr>],
                      tx_cur := (cur + 1) mod NUM_TX_DESC, sent := sent s @ [frame]\<rparr>
           in Some (True, e1000_w 0x3818 (of_nat (tx_cur s1)) s1))"

definition ethernet_send :: "u8 list \<Rightarrow> u16 \<Rightarrow> u8 list \<Rightarrow> u16 \<Rightarrow> eth_state \<Rightarrow> (bool \<times> eth_state) option" where
  "ethernet_send dst ethertype payload len s =
     (if \<not> eth_initialized s then Some (False, s)
      else if net_driver_type s = 1 then e1000_send dst ethertype payload len s
      else if net_driver_type s = 2 then
        (case rtl8169_send (tx_polls s) dst ethertype payload len (rtl s) of
           (ok, frame, r) \<Rightarrow> Some (ok, s\<lparr>rtl := r, sent := sent s @ (case frame of None \<Rightarrow> [] | Some f \<Rightarrow> [f])\<rparr>))
      else Some (False, s))"

definition ethernet_receive :: "u16 \<Rightarrow> eth_state \<Rightarrow> u8 list option \<times> eth_state" where
  "ethernet_receive maxlen s =
     (if \<not> eth_initialized s then (None, s)
      else if net_driver_type s = 1 then
        let cur = rx_cur s;
            d = rx_descs s ! cur
        in if rx_status d AND 1 = 0 then (Some [], s)
           else
             let len = min (unat (rx_length d)) (unat maxlen);
                 s1 = s\<lparr>rx_descs := (rx_descs s)[cur := d\<lparr>rx_status := 0\<rparr>]\<rparr>;
                 s2 = e1000_w 0x2818 (of_nat cur) s1
             in (Some (take len (rx_buf s ! cur)), s2\<lparr>rx_cur := (cur + 1) mod NUM_RX_DESC\<rparr>)
      else if net_driver_type s = 2 then
        (case rtl8169_receive maxlen (rtl s) of (r, rs) \<Rightarrow> (r, s\<lparr>rtl := rs\<rparr>))
      else (None, s))"

definition ethernet_is_ready :: "eth_state \<Rightarrow> bool" where
  "ethernet_is_ready s =
     (if net_driver_type s = 1 then eth_initialized s
      else if net_driver_type s = 2 then rtl8169_is_ready (rtl s) else False)"

text \<open>\<^verbatim>\<open>ethernet_get_device\<close> gives its callers the MAC address.\<close>

definition ethernet_get_device :: "eth_state \<Rightarrow> u8 list option" where
  "ethernet_get_device s = (if eth_initialized s then Some (eth_mac s) else None)"

subsection \<open>The rings keep their shape\<close>

definition e1000_ok :: "eth_state \<Rightarrow> bool" where
  "e1000_ok s \<longleftrightarrow> length (rx_descs s) = NUM_RX_DESC \<and> length (tx_descs s) = NUM_TX_DESC \<and>
     length (rx_buf s) = NUM_RX_DESC \<and> length (tx_buf s) = NUM_TX_DESC \<and>
     (\<forall>b \<in> set (rx_buf s). length b = PACKET_SIZE) \<and> (\<forall>b \<in> set (tx_buf s). length b = PACKET_SIZE) \<and>
     rx_cur s < NUM_RX_DESC \<and> tx_cur s < NUM_TX_DESC \<and> length (eth_mac s) = 6"

definition rtl_ok :: "rtl_state \<Rightarrow> bool" where
  "rtl_ok s \<longleftrightarrow> length (rtl_rx_descs s) = NUM_RX_DESC \<and> length (rtl_tx_descs s) = NUM_TX_DESC \<and>
     length (rtl_rx_buf s) = NUM_RX_DESC \<and> length (rtl_tx_buf s) = NUM_TX_DESC \<and>
     (\<forall>b \<in> set (rtl_rx_buf s). length b = RTL_PACKET_SIZE) \<and> (\<forall>b \<in> set (rtl_tx_buf s). length b = RTL_PACKET_SIZE) \<and>
     rtl_rx_cur s < NUM_RX_DESC \<and> rtl_tx_cur s < NUM_TX_DESC \<and> length (rtl_mac s) = 6"

definition eth_ok :: "eth_state \<Rightarrow> bool" where "eth_ok s \<longleftrightarrow> e1000_ok s \<and> rtl_ok (rtl s)"

lemma e1000_w_fields [simp]:
  "rx_descs (e1000_w r v s) = rx_descs s" "tx_descs (e1000_w r v s) = tx_descs s" "rx_buf (e1000_w r v s) = rx_buf s"
  "tx_buf (e1000_w r v s) = tx_buf s" "rx_cur (e1000_w r v s) = rx_cur s" "tx_cur (e1000_w r v s) = tx_cur s"
  "eth_mac (e1000_w r v s) = eth_mac s" "rtl (e1000_w r v s) = rtl s" "sent (e1000_w r v s) = sent s"
  "eth_initialized (e1000_w r v s) = eth_initialized s" "net_driver_type (e1000_w r v s) = net_driver_type s"
  "eth_ok (e1000_w r v s) = eth_ok s"
  by (simp_all add: e1000_w_def eth_ok_def e1000_ok_def)

lemma e1000_ws_ok [simp]:
  "eth_ok (e1000_ws ws s) = eth_ok s" "rx_descs (e1000_ws ws s) = rx_descs s" "tx_descs (e1000_ws ws s) = tx_descs s"
  unfolding e1000_ws_def by (induction ws arbitrary: s) auto

lemma rtl_out_ok [simp]: "rtl_ok (rtl_out r v s) = rtl_ok s"
  by (simp add: rtl_out_def rtl_ok_def)

lemma fold_rtl_out_ok [simp]: "rtl_ok (fold (\<lambda>(r, v). rtl_out r v) ws s) = rtl_ok s"
proof (induction ws arbitrary: s)
  case (Cons w ws)
  then show ?case by (cases w) simp
qed simp

lemma length_eth_header: "length dst = 6 \<Longrightarrow> length src = 6 \<Longrightarrow> length (eth_header dst src t) = 14"
  by (simp add: eth_header_def)

lemma length_put_frame: "length f \<le> length b \<Longrightarrow> length (put_frame f b) = length b"
  by (simp add: put_frame_def)

lemma all_lengths_update:
  "\<forall>b \<in> set xs. length b = n \<Longrightarrow> length y = n \<Longrightarrow> \<forall>b \<in> set (xs[i := y]). length b = n"
  by (auto dest!: set_update_subset_insert [THEN subsetD])

lemma rtl8169_init_ok:
  assumes "rtl_ok s"
  shows "rtl_ok (snd (rtl8169_init hw lay dev s))"
proof (cases dev)
  case (Some d)
  have upd: "rtl_ok (t\<lparr>rtl_rx_descs := rtl_init_rx_descs lay, rtl_tx_descs := rtl_init_tx_descs lay\<rparr>)" if "rtl_ok t" for t
    using that by (simp add: rtl_ok_def rtl_init_rx_descs_def rtl_init_tx_descs_def)
  have mac: "rtl_ok (t\<lparr>rtl_mac := map f [0..<6]\<rparr>)" if "rtl_ok t" for t f using that by (simp add: rtl_ok_def)
  have fin: "rtl_ok (t\<lparr>rtl_rx_cur := 0, rtl_tx_cur := 0, rtl_ready := True\<rparr>)" if "rtl_ok t" for t
    using that by (simp add: rtl_ok_def NUM_RX_DESC_def NUM_TX_DESC_def)
  have start: "rtl_ok (s\<lparr>rtl_io_base := b, rtl_config := c\<rparr>)" for b c using assms by (simp add: rtl_ok_def)
  show ?thesis using Some assms
    by (simp add: rtl8169_init_def Let_def fin mac upd start del: fold_simps upt_rec_numeral)
qed (use assms in \<open>simp add: rtl8169_init_def\<close>)

lemma eth_ok_upd:
  assumes "eth_ok s"
  shows "eth_ok (s\<lparr>rtl := r\<rparr>) = rtl_ok r" "eth_ok (s\<lparr>sent := x\<rparr>)" "eth_ok (s\<lparr>net_driver_type := n\<rparr>)"
    "eth_ok (s\<lparr>eth_pci_dev := d\<rparr>)" "eth_ok (s\<lparr>eth_initialized := b\<rparr>)" "eth_ok (s\<lparr>eth_mac := m\<rparr>) = (length m = 6)"
    "eth_ok (s\<lparr>eth_mmio_base := a\<rparr>)" "eth_ok (s\<lparr>mmio_pages := p\<rparr>)" "eth_ok (s\<lparr>config_writes := c\<rparr>)"
    "eth_ok (s\<lparr>rx_descs := rd\<rparr>) = (length rd = NUM_RX_DESC)" "eth_ok (s\<lparr>tx_descs := td\<rparr>) = (length td = NUM_TX_DESC)"
    "eth_ok (s\<lparr>tx_cur := k\<rparr>) = (k < NUM_TX_DESC)" "eth_ok (s\<lparr>rx_cur := k\<rparr>) = (k < NUM_RX_DESC)"
  using assms by (auto simp: eth_ok_def e1000_ok_def)

lemma eth_ok_buf:
  assumes "eth_ok s" "length b = PACKET_SIZE"
  shows "eth_ok (s\<lparr>tx_buf := (tx_buf s)[i := b]\<rparr>)" "eth_ok (s\<lparr>rx_buf := (rx_buf s)[i := b]\<rparr>)"
proof -
  have "\<forall>x \<in> set (tx_buf s). length x = PACKET_SIZE" "\<forall>x \<in> set (rx_buf s). length x = PACKET_SIZE"
    using assms(1) by (simp_all add: eth_ok_def e1000_ok_def)
  note u = this [THEN all_lengths_update, OF assms(2), of i]
  show "eth_ok (s\<lparr>tx_buf := (tx_buf s)[i := b]\<rparr>)" using assms(1) u(1) by (simp add: eth_ok_def e1000_ok_def)
  show "eth_ok (s\<lparr>rx_buf := (rx_buf s)[i := b]\<rparr>)" using assms(1) u(2) by (simp add: eth_ok_def e1000_ok_def)
qed

lemma eth_ok_lengths:
  "eth_ok s \<Longrightarrow> length (rx_descs s) = NUM_RX_DESC" "eth_ok s \<Longrightarrow> length (tx_descs s) = NUM_TX_DESC"
  "eth_ok s \<Longrightarrow> i < NUM_RX_DESC \<Longrightarrow> length (rx_buf s ! i) = PACKET_SIZE" "eth_ok s \<Longrightarrow> rx_cur s < NUM_RX_DESC"
  "eth_ok s \<Longrightarrow> length (tx_buf s ! tx_cur s) = PACKET_SIZE" "eth_ok s \<Longrightarrow> length (eth_mac s) = 6"
  "eth_ok s \<Longrightarrow> rtl_ok (rtl s)" "eth_ok s \<Longrightarrow> length (rx_buf s) = NUM_RX_DESC"
  by (simp_all add: eth_ok_def e1000_ok_def)

lemma mod_ring: "n mod NUM_RX_DESC < NUM_RX_DESC" "n mod NUM_TX_DESC < NUM_TX_DESC"
  by (simp_all add: NUM_RX_DESC_def NUM_TX_DESC_def)

lemma e1000_init_ok:
  assumes "eth_ok s"
  shows "eth_ok (e1000_init_tx lay (e1000_init_rx lay s))"
  using assms by (simp add: e1000_init_tx_def e1000_init_rx_def eth_ok_upd)

lemma e1000_read_mac_ok:
  assumes "eth_ok s" "e1000_read_mac hw s = (mac, s')"
  shows "eth_ok s' \<and> length mac = 6"
  using assms by (auto simp: e1000_read_mac_def e1000_eeprom_read_def Let_def)

lemma e1000_setup_ok:
  assumes "eth_ok s"
  shows "eth_ok (snd (e1000_setup hw lay d s))"
proof -
  let ?s1 = "s\<lparr>eth_mmio_base := pci_read_bar0 hw d AND 0xFFFFFFF0, eth_pci_dev := Some d,
    mmio_pages := mmio_pages s @ map (\<lambda>pg. (pci_read_bar0 hw d AND 0xFFFFFFF0) + of_nat (pg * 4096)) [0..<32],
    config_writes := config_writes s @ [bus_master hw d]\<rparr>"
  obtain mac s3 where m: "e1000_read_mac hw (e1000_reset hw ?s1) = (mac, s3)" by fastforce
  have "eth_ok (e1000_reset hw ?s1)" using assms by (simp add: e1000_reset_def eth_ok_upd)
  then have "eth_ok s3 \<and> length mac = 6" using m e1000_read_mac_ok by blast
  then show ?thesis using assms m
    by (simp add: e1000_setup_def Let_def eth_ok_upd e1000_init_ok del: upt_rec_numeral)
qed

lemma ethernet_init_ok:
  assumes "eth_ok s"
  shows "eth_ok (snd (ethernet_init hw lay devs s))"
proof -
  have r: "rtl_ok (snd (rtl8169_init hw lay dev (rtl s)))" for dev
    by (rule rtl8169_init_ok) (rule eth_ok_lengths(7) [OF assms])
  consider d where "find is_e1000 devs = Some d" | d where "find is_e1000 devs = None" "find is_rtl devs = Some d"
    | "find is_e1000 devs = None" "find is_rtl devs = None" by fastforce
  then show ?thesis
  proof cases
    case 1 then show ?thesis using e1000_setup_ok [OF assms] by (simp add: ethernet_init_def)
  next
    case 2
    then show ?thesis using assms r [of "Some d"]
      by (cases "rtl8169_init hw lay (Some d) (rtl s)")
        (simp add: ethernet_init_def eth_ok_upd rtl8169_get_mac_def split: bool.split)
  next
    case 3 then show ?thesis using assms by (simp add: ethernet_init_def)
  qed
qed

lemma e1000_send_ok:
  assumes "eth_ok s" "length dst = 6" "e1000_send dst t payload len s = Some (ok, s')"
  shows "eth_ok s'"
proof -
  define n where "n = min (unat (14 + len)) PACKET_SIZE"
  define f where "f = eth_header dst (eth_mac s) t @ take (n - 14) payload"
  have n: "14 \<le> n" using assms(3) by (simp add: e1000_send_def Let_def n_def [symmetric] split: if_splits)
  have "length (eth_header dst (eth_mac s) t) = 14"
    using assms(2) eth_ok_lengths(6) [OF assms(1)] by (simp add: length_eth_header)
  then have "length f \<le> PACKET_SIZE" using n by (simp add: PACKET_SIZE_def f_def n_def)
  then have b: "length (put_frame f (tx_buf s ! tx_cur s)) = PACKET_SIZE"
    using eth_ok_lengths(5) [OF assms(1)] by (simp add: length_put_frame)
  have "s' = e1000_w 0x3818 (of_nat ((tx_cur s + 1) mod NUM_TX_DESC))
      (s\<lparr>tx_buf := (tx_buf s)[tx_cur s := put_frame f (tx_buf s ! tx_cur s)],
        tx_descs := (tx_descs s)[tx_cur s := (tx_descs s ! tx_cur s)\<lparr>tx_length := of_nat n, tx_cmd := 0x0B, tx_status := 0\<rparr>],
        tx_cur := (tx_cur s + 1) mod NUM_TX_DESC, sent := sent s @ [f]\<rparr>)"
    using assms(3) n by (simp add: e1000_send_def Let_def n_def [symmetric] f_def [symmetric])
  then show ?thesis using eth_ok_buf(1) [OF assms(1) b] eth_ok_lengths(2) [OF assms(1)]
    by (simp add: eth_ok_upd mod_ring)
qed

lemma rtl_ok_send:
  assumes "rtl_ok s" "length b = RTL_PACKET_SIZE"
  shows "rtl_ok (s\<lparr>rtl_tx_buf := (rtl_tx_buf s)[i := b], rtl_tx_descs := (rtl_tx_descs s)[j := d]\<rparr>)"
    "rtl_ok (s\<lparr>rtl_tx_cur := k mod NUM_TX_DESC\<rparr>)"
  using assms all_lengths_update [of "rtl_tx_buf s" RTL_PACKET_SIZE b i] mod_ring by (auto simp: rtl_ok_def)

lemma rtl8169_send_ok:
  assumes "rtl_ok s" "length dst = 6"
  shows "rtl_ok (snd (snd (rtl8169_send polls dst t payload len s)))"
proof -
  define n where "n = min (14 + unat len) RTL_PACKET_SIZE"
  define f where "f = eth_header dst (rtl_mac s) t @ take (n - 14) payload"
  have "length (eth_header dst (rtl_mac s) t) = 14" using assms by (simp add: length_eth_header rtl_ok_def)
  then have "length f \<le> RTL_PACKET_SIZE" by (simp add: RTL_PACKET_SIZE_def f_def n_def)
  moreover have "length (rtl_tx_buf s ! rtl_tx_cur s) = RTL_PACKET_SIZE" using assms by (simp add: rtl_ok_def)
  ultimately have b: "length (put_frame f (rtl_tx_buf s ! rtl_tx_cur s)) = RTL_PACKET_SIZE" by (simp add: length_put_frame)
  note st = rtl_ok_send(1) [OF assms(1) b]
  show ?thesis unfolding rtl8169_send_def Let_def n_def [symmetric] f_def [symmetric]
    using assms(1) rtl_ok_send(2) [OF _ b] st by simp
qed

lemma ethernet_send_ok:
  assumes "eth_ok s" "length dst = 6" "ethernet_send dst t payload len s = Some (ok, s')"
  shows "eth_ok s'"
proof (cases "eth_initialized s \<and> net_driver_type s = 2")
  case True
  obtain o1 f r where r: "rtl8169_send (tx_polls s) dst t payload len (rtl s) = (o1, f, r)" by (metis prod_cases3)
  then have "rtl_ok r" using rtl8169_send_ok [OF eth_ok_lengths(7) [OF assms(1)] assms(2)] by (metis snd_conv)
  then show ?thesis using True assms r by (auto simp: ethernet_send_def eth_ok_upd)
next
  case False
  then show ?thesis using assms e1000_send_ok [OF assms(1,2)] by (auto simp: ethernet_send_def split: if_splits)
qed

lemma rtl8169_receive_ok: "rtl_ok s \<Longrightarrow> rtl_ok (snd (rtl8169_receive maxlen s))"
  using mod_ring by (auto simp: rtl8169_receive_def Let_def rtl_ok_def)

lemma ethernet_receive_ok:
  assumes "eth_ok s"
  shows "eth_ok (snd (ethernet_receive maxlen s))"
  using assms rtl8169_receive_ok [OF eth_ok_lengths(7) [OF assms], of maxlen] eth_ok_lengths(1) [OF assms]
  by (cases "rtl8169_receive maxlen (rtl s)") (simp add: ethernet_receive_def Let_def eth_ok_upd mod_ring)

text \<open>
  The value last written to a register of the E1000, and what the adapter is told of the rings: the
  transmit tail is the index of the next frame the driver will send, the receive tail is the
  descriptor before the next one the driver will read, so that all others belong to the adapter.
  Before the initialisation both indices are zero.
\<close>

definition reg_value :: "u32 \<Rightarrow> eth_state \<Rightarrow> u32 option" where
  "reg_value r s = map_of (rev (e1000_regs s)) r"

definition tails_ok :: "eth_state \<Rightarrow> bool" where
  "tails_ok s \<longleftrightarrow>
     (if \<not> eth_initialized s then rx_cur s = 0 \<and> tx_cur s = 0
      else net_driver_type s = 1 \<longrightarrow> reg_value 0x3818 s = Some (of_nat (tx_cur s)) \<and>
             reg_value 0x2818 s = Some (of_nat ((rx_cur s + NUM_RX_DESC - 1) mod NUM_RX_DESC)))"

lemma reg_value_w [simp]: "reg_value r (e1000_w r' v s) = (if r = r' then Some v else reg_value r s)"
  by (simp add: reg_value_def e1000_w_def)

lemma reg_value_ws: "reg_value r (e1000_ws ws s) = (case map_of (rev ws) r of None \<Rightarrow> reg_value r s | Some v \<Rightarrow> Some v)"
proof -
  have "e1000_regs (e1000_ws ws s) = e1000_regs s @ ws"
    unfolding e1000_ws_def by (induction ws arbitrary: s) (auto simp: e1000_w_def)
  then show ?thesis by (simp add: reg_value_def map_add_def split: option.splits)
qed

lemma e1000_ws_cur [simp]: "rx_cur (e1000_ws ws s) = rx_cur s" "tx_cur (e1000_ws ws s) = tx_cur s"
  unfolding e1000_ws_def by (induction ws arbitrary: s) auto

lemma reg_value_upd [simp]:
  "reg_value r (s\<lparr>rx_descs := a\<rparr>) = reg_value r s" "reg_value r (s\<lparr>tx_descs := b\<rparr>) = reg_value r s"
  "reg_value r (s\<lparr>rx_buf := c\<rparr>) = reg_value r s" "reg_value r (s\<lparr>tx_buf := c\<rparr>) = reg_value r s"
  "reg_value r (s\<lparr>rx_cur := n\<rparr>) = reg_value r s" "reg_value r (s\<lparr>tx_cur := n\<rparr>) = reg_value r s"
  "reg_value r (s\<lparr>sent := d\<rparr>) = reg_value r s" "reg_value r (s\<lparr>net_driver_type := n\<rparr>) = reg_value r s"
  "reg_value r (s\<lparr>eth_initialized := i\<rparr>) = reg_value r s"
  by (simp_all add: reg_value_def)

lemma e1000_setup_tails:
  assumes "tails_ok s" "\<not> eth_initialized s"
  shows "tails_ok (snd (e1000_setup hw lay d s))"
proof -
  have c: "rx_cur s = 0" "tx_cur s = 0" using assms by (simp_all add: tails_ok_def)
  obtain mac s3 where m: "e1000_read_mac hw (e1000_reset hw (s\<lparr>eth_mmio_base := pci_read_bar0 hw d AND 0xFFFFFFF0, eth_pci_dev := Some d,
    mmio_pages := mmio_pages s @ map (\<lambda>pg. (pci_read_bar0 hw d AND 0xFFFFFFF0) + of_nat (pg * 4096)) [0..<32],
    config_writes := config_writes s @ [bus_master hw d]\<rparr>)) = (mac, s3)" by fastforce
  then have "rx_cur s3 = 0" "tx_cur s3 = 0"
    using c by (auto simp: e1000_read_mac_def e1000_eeprom_read_def e1000_reset_def Let_def simp del: upt_rec_numeral)
  then have "reg_value 0x3818 (e1000_init_tx lay (e1000_init_rx lay t)) = Some 0 \<and> reg_value 0x2818 (e1000_init_tx lay (e1000_init_rx lay t)) = Some 15 \<and>
      rx_cur (e1000_init_tx lay (e1000_init_rx lay t)) = 0 \<and> tx_cur (e1000_init_tx lay (e1000_init_rx lay t)) = 0"
    if "rx_cur t = rx_cur s3" "tx_cur t = tx_cur s3" for t
    using that by (simp add: e1000_init_tx_def e1000_init_rx_def reg_value_ws NUM_RX_DESC_def)
  then show ?thesis using m assms c
    by (simp add: e1000_setup_def Let_def tails_ok_def NUM_RX_DESC_def del: upt_rec_numeral)
qed

lemma ethernet_init_tails:
  assumes "tails_ok s" "\<not> eth_initialized s"
  shows "tails_ok (snd (ethernet_init hw lay devs s))"
proof (cases "find is_e1000 devs")
  case (Some d)
  then show ?thesis using e1000_setup_tails [OF assms] by (simp add: ethernet_init_def)
next
  case None
  then show ?thesis using assms
    by (auto simp: ethernet_init_def tails_ok_def split: option.splits prod.splits bool.splits)
qed

lemma ethernet_send_tails:
  assumes "tails_ok s" "ethernet_send dst t payload len s = Some (ok, s')"
  shows "tails_ok s'"
proof (cases "eth_initialized s \<and> net_driver_type s = 1")
  case True
  then show ?thesis using assms
    by (auto simp: ethernet_send_def e1000_send_def Let_def tails_ok_def split: if_splits)
next
  case False
  then show ?thesis using assms by (auto simp: ethernet_send_def tails_ok_def split: if_splits prod.splits)
qed

lemma tail_behind: "k < NUM_RX_DESC \<Longrightarrow> ((k + 1) mod NUM_RX_DESC + NUM_RX_DESC - 1) mod NUM_RX_DESC = k"
  by (cases "k = 15") (auto simp: NUM_RX_DESC_def)

lemma ethernet_receive_tails:
  assumes "tails_ok s" "rx_cur s < NUM_RX_DESC"
  shows "tails_ok (snd (ethernet_receive maxlen s))"
proof (cases "eth_initialized s \<and> net_driver_type s = 1")
  case True
  then show ?thesis using assms
    by (auto simp: ethernet_receive_def Let_def tails_ok_def tail_behind [simplified])
next
  case False
  then show ?thesis using assms by (auto simp: ethernet_receive_def tails_ok_def split: prod.splits)
qed

text \<open>
  The steps of the driver and of the adapter: the adapter fills a receive buffer and marks the
  descriptor, or marks a transmit descriptor as done. The kernel initialises the driver until that
  has succeeded.
\<close>

definition deliver :: "nat \<Rightarrow> u8 list \<Rightarrow> eth_state \<Rightarrow> eth_state" where
  "deliver i frame s = s\<lparr>rx_buf := (rx_buf s)[i := put_frame frame (rx_buf s ! i)],
     rx_descs := (rx_descs s)[i := (rx_descs s ! i)\<lparr>rx_length := of_nat (length frame), rx_status := 1\<rparr>]\<rparr>"

inductive eth_step :: "eth_state \<Rightarrow> eth_state \<Rightarrow> bool" where
  init: "\<not> eth_initialized s \<Longrightarrow> ethernet_init hw lay devs s = (ok, s') \<Longrightarrow> eth_step s s'"
| send: "length dst = 6 \<Longrightarrow> ethernet_send dst t payload len s = Some (ok, s') \<Longrightarrow> eth_step s s'"
| receive: "ethernet_receive maxlen s = (r, s') \<Longrightarrow> eth_step s s'"
| hw_receive: "i < NUM_RX_DESC \<Longrightarrow> length frame \<le> PACKET_SIZE \<Longrightarrow> eth_step s (deliver i frame s)"
| hw_sent: "eth_step s (s\<lparr>tx_descs := (tx_descs s)[i := (tx_descs s ! i)\<lparr>tx_status := 1\<rparr>]\<rparr>)"

lemma eth_step_ok: "eth_step s s' \<Longrightarrow> eth_ok s \<Longrightarrow> eth_ok s'"
proof (induction rule: eth_step.induct)
  case init then show ?case using ethernet_init_ok by (metis snd_conv)
next
  case send then show ?case using ethernet_send_ok by blast
next
  case receive then show ?case using ethernet_receive_ok by (metis snd_conv)
next
  case (hw_receive i frame s)
  then have "length (put_frame frame (rx_buf s ! i)) = PACKET_SIZE"
    by (simp add: eth_ok_lengths length_put_frame)
  from eth_ok_buf(2) [OF hw_receive(3) this] show ?case
    using hw_receive by (simp add: deliver_def eth_ok_upd eth_ok_lengths)
next
  case hw_sent then show ?case by (simp add: eth_ok_upd eth_ok_lengths)
qed

lemma eth_step_tails: "eth_step s s' \<Longrightarrow> eth_ok s \<Longrightarrow> tails_ok s \<Longrightarrow> tails_ok s'"
proof (induction rule: eth_step.induct)
  case init then show ?case using ethernet_init_tails by (metis snd_conv)
next
  case send then show ?case using ethernet_send_tails by blast
next
  case receive then show ?case using ethernet_receive_tails eth_ok_lengths(4) by (metis snd_conv)
next
  case hw_receive then show ?case by (simp add: deliver_def tails_ok_def)
next
  case hw_sent then show ?case by (simp add: tails_ok_def)
qed

text \<open>
  C35. Whatever sequence of initialisation, sending and receiving the kernel and the adapter
  perform, the descriptor rings keep 16 entries, the current indices stay inside them, and no
  packet buffer changes its size: no frame is written beyond the end of a buffer. Once the E1000 is
  initialised, its transmit tail register holds the driver's transmit index and its receive tail
  register the index before the driver's receive index.
\<close>

theorem ethernet_rings_invariant:
  assumes "eth_step\<^sup>*\<^sup>* s s'" "eth_ok s" "tails_ok s"
  shows "eth_ok s' \<and> tails_ok s'"
  using assms by (induction rule: rtranclp_induct) (auto intro: eth_step_ok eth_step_tails)

text \<open>A driver with empty buffers.\<close>

definition example_rtl :: rtl_state where
  "example_rtl = \<lparr>rtl_ready = False, rtl_io_base = 0, rtl_mac = replicate 6 0,
     rtl_rx_descs = replicate 16 \<lparr>rtl_command = 0, rtl_vlan = 0, rtl_low_buf = 0, rtl_high_buf = 0\<rparr>,
     rtl_tx_descs = replicate 16 \<lparr>rtl_command = 0, rtl_vlan = 0, rtl_low_buf = 0, rtl_high_buf = 0\<rparr>,
     rtl_rx_buf = replicate 16 (replicate 1536 0), rtl_tx_buf = replicate 16 (replicate 1536 0), rtl_rx_cur = 0,
     rtl_tx_cur = 0, rtl_ports = [], rtl_config = [], rtl_behind = (\<lambda>_. 0)\<rparr>"

definition example_eth :: eth_state where
  "example_eth = \<lparr>eth_pci_dev = None, eth_mmio_base = 0, eth_mac = [2, 0, 0, 0, 0, 1], eth_initialized = True,
     net_driver_type = 1,
     rx_descs = replicate 16 \<lparr>rx_address = 0, rx_length = 0, rx_checksum = 0, rx_status = 0, rx_errors = 0, rx_special = 0\<rparr>,
     tx_descs = replicate 16 \<lparr>tx_address = 0, tx_length = 0, tx_cso = 0, tx_cmd = 0, tx_status = 1, tx_css = 0, tx_special = 0\<rparr>,
     rx_buf = replicate 16 (replicate 2048 0), tx_buf = replicate 16 (replicate 2048 0), rx_cur = 0, tx_cur = 15,
     e1000_regs = [], mmio_pages = [], config_writes = [], rtl = example_rtl, sent = [], tx_polls = 0\<rparr>"

lemma example_eth_ok [simp]: "eth_ok example_eth"
  by (simp add: eth_ok_def e1000_ok_def rtl_ok_def example_eth_def example_rtl_def NUM_RX_DESC_def NUM_TX_DESC_def
      PACKET_SIZE_def RTL_PACKET_SIZE_def)

text \<open>An E1000 is initialised, delivers a frame, and the driver reads it.\<close>

definition example_nic :: eth_state where
  "example_nic = snd (ethernet_init \<lparr>hw_config = (\<lambda>_. 0), hw_eeprom = (\<lambda>_. 0), hw_ctrl = 0, hw_rtl_port = (\<lambda>_. 0)\<rparr>
     \<lparr>at_rx_descs = 0xC0200000, at_tx_descs = 0xC0200100, at_rx_buf = 0xC0201000, at_tx_buf = 0xC0209000,
      at_rtl_rx_descs = 0, at_rtl_tx_descs = 0, at_rtl_rx_buf = 0, at_rtl_tx_buf = 0\<rparr>
     [\<lparr>pbus = 0, pdev = 3, pfunc = 0, vendor_id = 0x8086, device_id = 0x100E, class_code = 2, sub_class = 0, prog_if = 0, revision = 0\<rparr>]
     (example_eth\<lparr>eth_initialized := False, tx_cur := 0\<rparr>))"

theorem ethernet_rings_invariant_witness:
  "eth_initialized example_nic \<and> tails_ok (snd (ethernet_receive 1518 (deliver 0 [1, 2, 3] example_nic)))"
proof
  show "eth_initialized example_nic"
    by (simp add: example_nic_def ethernet_init_def is_e1000_def e1000_setup_def Let_def split_beta pci_read_bar0_def pci_read32_def)
  have "eth_step (example_eth\<lparr>eth_initialized := False, tx_cur := 0\<rparr>) example_nic"
    unfolding example_nic_def by (rule eth_step.init [OF _ prod.collapse [symmetric]]) simp
  moreover have "eth_step example_nic (deliver 0 [1, 2, 3] example_nic)"
    by (rule eth_step.hw_receive) (simp_all add: NUM_RX_DESC_def PACKET_SIZE_def)
  moreover have "eth_step t (snd (ethernet_receive 1518 t))" for t
    by (rule eth_step.receive [of 1518 _ "fst (ethernet_receive 1518 t)"]) simp
  ultimately have "eth_step\<^sup>*\<^sup>* (example_eth\<lparr>eth_initialized := False, tx_cur := 0\<rparr>)
      (snd (ethernet_receive 1518 (deliver 0 [1, 2, 3] example_nic)))"
    by (meson converse_rtranclp_into_rtranclp r_into_rtranclp)
  moreover have "eth_ok (example_eth\<lparr>eth_initialized := False, tx_cur := 0\<rparr>)" by (simp add: eth_ok_upd NUM_TX_DESC_def)
  moreover have "tails_ok (example_eth\<lparr>eth_initialized := False, tx_cur := 0\<rparr>)" by (simp add: tails_ok_def example_eth_def)
  ultimately show "tails_ok (snd (ethernet_receive 1518 (deliver 0 [1, 2, 3] example_nic)))"
    using ethernet_rings_invariant by blast
qed

subsection \<open>Receiving in order\<close>

text \<open>
  The frames that wait in the receive ring of the E1000, from the current descriptor on; the
  descriptor after the last one is empty unless the ring is full.
\<close>

definition rx_slot :: "eth_state \<Rightarrow> nat \<Rightarrow> nat" where "rx_slot s j = (rx_cur s + j) mod NUM_RX_DESC"

definition frame_at :: "eth_state \<Rightarrow> nat \<Rightarrow> u8 list" where
  "frame_at s i = take (unat (rx_length (rx_descs s ! i))) (rx_buf s ! i)"

definition rx_pending :: "eth_state \<Rightarrow> u8 list list \<Rightarrow> bool" where
  "rx_pending s fs \<longleftrightarrow> length fs \<le> NUM_RX_DESC \<and>
     (\<forall>j < length fs. rx_status (rx_descs s ! rx_slot s j) AND 1 \<noteq> 0 \<and> frame_at s (rx_slot s j) = fs ! j) \<and>
     (length fs < NUM_RX_DESC \<longrightarrow> rx_status (rx_descs s ! rx_slot s (length fs)) AND 1 = 0)"

lemma rx_slot_inj: "rx_slot s i = rx_slot s j \<Longrightarrow> i < NUM_RX_DESC \<Longrightarrow> j < NUM_RX_DESC \<Longrightarrow> i = j"
proof (induction i j rule: linorder_wlog)
  case (le i j)
  then have "NUM_RX_DESC dvd j - i" unfolding rx_slot_def
    using mod_eq_dvd_iff_nat [of "rx_cur s + i" "rx_cur s + j" NUM_RX_DESC] by simp
  then show ?case using le by (auto dest!: dvd_imp_le)
next
  case (sym i j)
  then show ?case by simp
qed

lemma receive_e1000:
  assumes "eth_initialized s" "net_driver_type s = 1" "rx_status (rx_descs s ! rx_cur s) AND 1 \<noteq> 0"
  shows "fst (ethernet_receive maxlen s) = Some (take (unat maxlen) (frame_at s (rx_cur s)))"
    and "rx_descs (snd (ethernet_receive maxlen s)) = (rx_descs s)[rx_cur s := (rx_descs s ! rx_cur s)\<lparr>rx_status := 0\<rparr>]"
    and "rx_buf (snd (ethernet_receive maxlen s)) = rx_buf s"
    and "rx_cur (snd (ethernet_receive maxlen s)) = (rx_cur s + 1) mod NUM_RX_DESC"
  using assms by (simp_all add: ethernet_receive_def Let_def frame_at_def min.commute)

text \<open>
  C36. Reception in order: when the frames \<open>f # fs\<close> wait in the ring of the E1000, a receive
  returns \<open>f\<close>, cut to the size of the buffer, and leaves \<open>fs\<close> waiting; when none waits it returns
  no byte and changes nothing.
\<close>

theorem ethernet_receive_fifo:
  assumes "eth_ok s" "eth_initialized s" "net_driver_type s = 1" "rx_pending s frames"
    and "ethernet_receive maxlen s = (r, s')"
  shows "case frames of
      [] \<Rightarrow> r = Some [] \<and> s' = s
    | f # fs \<Rightarrow> r = Some (take (unat maxlen) f) \<and> rx_pending s' fs"
proof (cases frames)
  case Nil
  then have "rx_status (rx_descs s ! rx_cur s) AND 1 = 0"
    using assms(1,4) by (auto simp: rx_pending_def rx_slot_def NUM_RX_DESC_def dest: eth_ok_lengths(4))
  then show ?thesis using assms(2,3,5) Nil by (simp add: ethernet_receive_def Let_def)
next
  case (Cons f fs)
  have cur: "rx_slot s 0 = rx_cur s" using eth_ok_lengths(4) [OF assms(1)] by (simp add: rx_slot_def)
  have p0: "rx_status (rx_descs s ! rx_cur s) AND 1 \<noteq> 0" "frame_at s (rx_cur s) = f" "length fs < NUM_RX_DESC"
    using assms(4) Cons cur by (auto simp: rx_pending_def)
  note s' = receive_e1000 [OF assms(2,3) p0(1), of maxlen, unfolded assms(5) fst_conv snd_conv]
  have slot: "rx_slot s' j = rx_slot s (Suc j)" for j
    unfolding rx_slot_def s'(4) by (simp add: mod_simps)
  have other: "rx_descs s' ! rx_slot s (Suc j) = rx_descs s ! rx_slot s (Suc j)" if "Suc j < NUM_RX_DESC" for j
  proof -
    have "rx_slot s (Suc j) \<noteq> rx_cur s" using rx_slot_inj [of s "Suc j" 0] that cur by auto
    then show ?thesis by (simp add: s'(2))
  qed
  have "rx_status (rx_descs s' ! rx_slot s' j) AND 1 \<noteq> 0 \<and> frame_at s' (rx_slot s' j) = fs ! j" if "j < length fs" for j
  proof -
    have "Suc j < NUM_RX_DESC" using that p0(3) by simp
    moreover have "rx_status (rx_descs s ! rx_slot s (Suc j)) AND 1 \<noteq> 0 \<and> frame_at s (rx_slot s (Suc j)) = fs ! j"
      using assms(4) Cons that by (auto simp: rx_pending_def)
    ultimately show ?thesis using other by (simp add: slot frame_at_def s'(3))
  qed
  moreover have "rx_status (rx_descs s' ! rx_slot s' (length fs)) AND 1 = 0"
  proof (cases "Suc (length fs) < NUM_RX_DESC")
    case True
    then show ?thesis using assms(4) Cons other by (simp add: slot rx_pending_def)
  next
    case False
    then have "Suc (length fs) = NUM_RX_DESC" using p0(3) by simp
    then have "rx_slot s (Suc (length fs)) = rx_cur s" using eth_ok_lengths(4) [OF assms(1)] by (simp add: rx_slot_def)
    then show ?thesis using eth_ok_lengths(1,4) [OF assms(1)] by (simp add: slot s'(2))
  qed
  ultimately show ?thesis using Cons p0(2,3) s'(1) by (simp add: rx_pending_def)
qed

theorem ethernet_receive_fifo_witness:
  "fst (ethernet_receive 1518 (deliver 1 [4] (deliver 0 [1, 2, 3] example_eth))) = Some [1, 2, 3]"
proof -
  let ?s = "deliver 1 [4] (deliver 0 [1, 2, 3] example_eth)"
  have e: "eth_step example_eth (deliver 0 [1, 2, 3] example_eth)" "eth_step (deliver 0 [1, 2, 3] example_eth) ?s"
    by (rule eth_step.hw_receive; simp add: NUM_RX_DESC_def PACKET_SIZE_def)+
  have ok: "eth_ok ?s" by (rule eth_step_ok [OF e(2) eth_step_ok [OF e(1) example_eth_ok]])
  have i: "eth_initialized ?s" "net_driver_type ?s = 1" by (simp_all add: deliver_def example_eth_def)
  have p: "rx_pending ?s [[1, 2, 3], [4]]"
    by (auto simp: rx_pending_def NUM_RX_DESC_def rx_slot_def frame_at_def deliver_def example_eth_def put_frame_def
        less_2_cases_iff nth_Cons split: nat.splits)
  obtain r s' where "ethernet_receive 1518 ?s = (r, s')" by fastforce
  with ethernet_receive_fifo [OF ok i p this] show ?thesis by simp
qed

text \<open>
  The transmit timeout of the RTL8169 driver never reports a full ring: when the adapter does
  not release the descriptor at all, the counter has wrapped and the frame is written over it.
\<close>

lemma rtl8169_send_ignores_timeout:
  assumes "rtl_ready s" "1000000 < polls"
  shows "fst (rtl8169_send polls dst t payload len s)"
  using assms by (simp add: rtl8169_send_def rtl_timeout_def Let_def)

end
