(* ===== verification/Khazar_Net.thy ===== *)
theory Khazar_Net
  imports Khazar_Ethernet
begin

text \<open>
  The network stack: ARP (\<^verbatim>\<open>kernel/net/arp/arp.c\<close>), IPv4 and ICMP (\<^verbatim>\<open>kernel/net/ipv4/ipv4.c\<close>),
  UDP (\<^verbatim>\<open>kernel/net/udp/udp.c\<close>) and the receiving kernel thread (\<^verbatim>\<open>kernel/net/net.c\<close>). Fields of
  packets are read from byte buffers; the result \<open>None\<close> of an operation is an access outside the
  buffer it was given (or, for \<open>ipv4_send\<close>, a send that never returns). \<open>wakes\<close> records the
  queues that \<^verbatim>\<open>wake_up\<close> was called for.
\<close>

subsection \<open>State\<close>

definition bswap16 :: "u16 \<Rightarrow> u16" where "bswap16 v = drop_bit 8 v OR push_bit 8 v"

definition ARP_CACHE_SIZE :: nat where "ARP_CACHE_SIZE = 8"
definition MAX_UDP_PORTS :: nat where "MAX_UDP_PORTS = 16"
definition UDP_BUF_SIZE :: nat where "UDP_BUF_SIZE = 2048"

definition ETHERTYPE_ARP :: u16 where "ETHERTYPE_ARP = 0x0806"
definition ETHERTYPE_IP :: u16 where "ETHERTYPE_IP = 0x0800"
definition IP_PROTO_ICMP :: u8 where "IP_PROTO_ICMP = 1"
definition IP_PROTO_UDP :: u8 where "IP_PROTO_UDP = 17"

record arp_entry_t =
  a_ip :: u32
  a_mac :: "u8 list"
  a_valid :: bool

record udp_queue_t =
  q_port :: u16
  q_buffer :: "u8 list"
  q_length :: u16
  q_active :: bool

record net_state =
  arp_cache :: "arp_entry_t list"
  net_our_ip :: u32
  net_gateway_ip :: u32
  net_netmask :: u32
  net_bcast_ip :: u32
  ip_id :: u16
  udp_queues :: "udp_queue_t list"
  wakes :: "nat list"
  eth :: eth_state

subsection \<open>ARP\<close>

record arp_packet_t =
  htype :: u16
  ptype :: u16
  hlen :: u8
  arp_plen :: u8
  oper :: u16
  sha :: "u8 list"
  spa :: u32
  tha :: "u8 list"
  tpa :: u32

definition encode_arp :: "arp_packet_t \<Rightarrow> u8 list" where
  "encode_arp p = enc16 (htype p) @ enc16 (ptype p) @ [hlen p, arp_plen p] @ enc16 (oper p) @ sha p @ enc32 (spa p) @
     tha p @ enc32 (tpa p)"

definition decode_arp :: "u8 list \<Rightarrow> arp_packet_t" where
  "decode_arp b = \<lparr>htype = le16 b 0, ptype = le16 b 2, hlen = b ! 4, arp_plen = b ! 5, oper = le16 b 6,
     sha = slice 8 6 b, spa = le32 b 14, tha = slice 18 6 b, tpa = le32 b 24\<rparr>"

definition BROADCAST_MAC :: "u8 list" where "BROADCAST_MAC = replicate 6 0xFF"

definition arp_init :: "net_state \<Rightarrow> net_state" where
  "arp_init s = s\<lparr>arp_cache := map (\<lambda>i. (arp_cache s ! i)\<lparr>a_valid := False\<rparr>) [0..<ARP_CACHE_SIZE]\<rparr>"

definition arp_hit :: "u32 \<Rightarrow> arp_entry_t list \<Rightarrow> nat option" where
  "arp_hit ip c = find (\<lambda>i. a_valid (c ! i) \<and> a_ip (c ! i) = ip) [0..<ARP_CACHE_SIZE]"

definition arp_cache_put :: "u32 \<Rightarrow> u8 list \<Rightarrow> arp_entry_t list \<Rightarrow> arp_entry_t list" where
  "arp_cache_put ip mac c =
     (case arp_hit ip c of
        Some i \<Rightarrow> c[i := (c ! i)\<lparr>a_mac := mac\<rparr>]
      | None \<Rightarrow>
          (case find (\<lambda>i. \<not> a_valid (c ! i)) [0..<ARP_CACHE_SIZE] of
             Some i \<Rightarrow> c[i := \<lparr>a_ip = ip, a_mac = mac, a_valid = True\<rparr>]
           | None \<Rightarrow> c[0 := \<lparr>a_ip = ip, a_mac = mac, a_valid = True\<rparr>]))"

definition arp_lookup :: "u32 \<Rightarrow> arp_entry_t list \<Rightarrow> u8 list option" where
  "arp_lookup ip c = map_option (\<lambda>i. a_mac (c ! i)) (arp_hit ip c)"

definition eth_send :: "u8 list \<Rightarrow> u16 \<Rightarrow> u8 list \<Rightarrow> u16 \<Rightarrow> net_state \<Rightarrow> (bool \<times> net_state) option" where
  "eth_send dst ethertype payload len s =
     map_option (\<lambda>(ok, e). (ok, s\<lparr>eth := e\<rparr>)) (ethernet_send dst ethertype payload len (eth s))"

definition arp_request :: "u32 \<Rightarrow> net_state \<Rightarrow> net_state option" where
  "arp_request target_ip s =
     (case ethernet_get_device (eth s) of
        None \<Rightarrow> Some s
      | Some mac \<Rightarrow>
          let pkt = \<lparr>htype = 0x0100, ptype = 0x0008, hlen = 6, arp_plen = 4, oper = 0x0100, sha = mac,
                     spa = net_our_ip s, tha = replicate 6 0, tpa = target_ip\<rparr>
          in map_option snd (eth_send BROADCAST_MAC ETHERTYPE_ARP (encode_arp pkt) 28 s))"

definition arp_handle :: "u8 list \<Rightarrow> u16 \<Rightarrow> net_state \<Rightarrow> net_state option" where
  "arp_handle payload len s =
     (if unat len < 28 then Some s
      else if length payload < 28 then None
      else
        let pkt = decode_arp payload
        in if htype pkt \<noteq> 0x0100 \<or> ptype pkt \<noteq> 0x0008 then Some s
           else
             let s1 = s\<lparr>arp_cache := arp_cache_put (spa pkt) (sha pkt) (arp_cache s)\<rparr>
             in if oper pkt = 0x0100 \<and> tpa pkt = net_our_ip s1 then
                  (case ethernet_get_device (eth s1) of
                     None \<Rightarrow> Some s1
                   | Some mac \<Rightarrow>
                       let reply = \<lparr>htype = 0x0100, ptype = 0x0008, hlen = 6, arp_plen = 4, oper = 0x0200, sha = mac,
                                    spa = net_our_ip s1, tha = sha pkt, tpa = spa pkt\<rparr>
                       in map_option snd (eth_send (sha pkt) ETHERTYPE_ARP (encode_arp reply) 28 s1))
                else Some s1)"

subsection \<open>UDP reception\<close>

definition udp_init :: "net_state \<Rightarrow> net_state" where
  "udp_init s = s\<lparr>udp_queues := map (\<lambda>i. (udp_queues s ! i)\<lparr>q_active := False, q_length := 0\<rparr>) [0..<MAX_UDP_PORTS]\<rparr>"

definition udp_slot :: "u16 \<Rightarrow> udp_queue_t list \<Rightarrow> nat option" where
  "udp_slot port qs = find (\<lambda>i. q_active (qs ! i) \<and> q_port (qs ! i) = port) [0..<MAX_UDP_PORTS]"

definition udp_free :: "udp_queue_t list \<Rightarrow> nat option" where
  "udp_free qs = find (\<lambda>i. \<not> q_active (qs ! i)) [0..<MAX_UDP_PORTS]"

text \<open>The queue of a port: the active one, or else the first inactive one, which is bound to it.\<close>

definition udp_bind :: "u16 \<Rightarrow> udp_queue_t list \<Rightarrow> nat option \<times> udp_queue_t list" where
  "udp_bind port qs =
     (case udp_slot port qs of
        Some i \<Rightarrow> (Some i, qs)
      | None \<Rightarrow> (case udp_free qs of
                  Some i \<Rightarrow> (Some i, qs[i := (qs ! i)\<lparr>q_active := True, q_port := port\<rparr>])
                | None \<Rightarrow> (None, qs)))"

definition udp_handle :: "u32 \<Rightarrow> u8 list \<Rightarrow> u16 \<Rightarrow> net_state \<Rightarrow> net_state option" where
  "udp_handle src_ip segment len s =
     (if unat len < 8 then Some s
      else if length segment < 8 then None
      else
        let dst_port = bswap16 (le16 segment 2);
            data_len = bswap16 (le16 segment 4) - 8;
            (slot, qs) = udp_bind dst_port (udp_queues s)
        in case slot of
             None \<Rightarrow> Some (s\<lparr>udp_queues := qs\<rparr>)
           | Some i \<Rightarrow>
               let n = min (unat data_len) UDP_BUF_SIZE
               in if length segment < 8 + n then None
                  else Some (s\<lparr>udp_queues := qs[i := (qs ! i)\<lparr>q_buffer := put_frame (slice 8 n segment) (q_buffer (qs ! i)),
                                                       q_length := of_nat n\<rparr>],
                               wakes := wakes s @ [i]\<rparr>))"

text \<open>A receive either blocks on a queue (\<^verbatim>\<open>wait_on\<close>) or returns the bytes it copied.\<close>

datatype udp_result = Blocked nat | Received "u8 list"

definition udp_recv :: "u16 \<Rightarrow> u16 \<Rightarrow> net_state \<Rightarrow> udp_result \<times> net_state" where
  "udp_recv local_port maxlen s =
     (case udp_slot local_port (udp_queues s) of
        Some i \<Rightarrow>
          let q = udp_queues s ! i
          in if q_length q = 0 then (Blocked i, s)
             else let n = (if q_length q < maxlen then q_length q else maxlen)
                  in (Received (take (unat n) (q_buffer q)), s\<lparr>udp_queues := (udp_queues s)[i := q\<lparr>q_length := 0\<rparr>]\<rparr>)
      | None \<Rightarrow>
          (case udp_free (udp_queues s) of
             Some i \<Rightarrow> (Received [], s\<lparr>udp_queues := (udp_queues s)[i := (udp_queues s ! i)\<lparr>q_active := True,
                          q_port := local_port, q_length := 0\<rparr>]\<rparr>)
           | None \<Rightarrow> (Received [], s)))"

subsection \<open>IPv4 and ICMP\<close>

fun sum16 :: "u8 list \<Rightarrow> u32 \<Rightarrow> u32" where
  "sum16 [] acc = acc"
| "sum16 [a] acc = acc + ucast a"
| "sum16 (a # b # r) acc = sum16 r (acc + ucast (join16 a b))"

lemma unat_fold16_arg: "unat ((x AND 0xFFFF) + drop_bit 16 x :: u32) = unat x mod 65536 + unat x div 65536"
proof -
  have "x AND 0xFFFF = take_bit 16 x" by (simp add: take_bit_eq_mask mask_eq_exp_minus_1)
  then have "unat (x AND 0xFFFF) = unat x mod 65536" by (simp add: take_bit_eq_mod unat_mod)
  moreover have "unat x div 65536 < 65536" using unat_u32_bound [of x] by (simp add: less_mult_imp_div_less)
  moreover have "unat x mod 65536 < 65536" by simp
  ultimately show ?thesis by (simp add: unat_word_ariths unat_drop_bit)
qed

lemma fold16_less:
  assumes "drop_bit 16 (x :: u32) \<noteq> 0"
  shows "unat ((x AND 0xFFFF) + drop_bit 16 x) < unat x"
proof -
  have d: "unat (drop_bit 16 x) = unat x div 65536" by (simp add: unat_drop_bit)
  have "0 < unat x div 65536" using assms d by (metis gr0I unat_eq_zero)
  moreover have "unat x = 65536 * (unat x div 65536) + unat x mod 65536" by simp
  ultimately have "unat x mod 65536 + unat x div 65536 < unat x" by linarith
  then show ?thesis by (simp add: unat_fold16_arg)
qed

function fold16 :: "u32 \<Rightarrow> u32" where
  "fold16 x = (if drop_bit 16 x \<noteq> 0 then fold16 ((x AND 0xFFFF) + drop_bit 16 x) else x)"
  by pat_completeness auto
termination
  by (relation "measure unat") (auto simp: fold16_less)

declare fold16.simps [simp del]

definition ip_checksum :: "u8 list \<Rightarrow> u16" where
  "ip_checksum data = NOT (ucast (fold16 (sum16 data 0)))"

text \<open>The header of a packet, with a given checksum field.\<close>

definition ipv4_header :: "u16 \<Rightarrow> u16 \<Rightarrow> u8 \<Rightarrow> u16 \<Rightarrow> u32 \<Rightarrow> u32 \<Rightarrow> u8 list" where
  "ipv4_header total_len ident protocol checksum src dst =
     [0x45, 0] @ enc16 (bswap16 total_len) @ enc16 (bswap16 ident) @ enc16 0 @ [64, protocol] @ enc16 checksum @
     enc32 src @ enc32 dst"

definition ipv4_build :: "u16 \<Rightarrow> u8 \<Rightarrow> u32 \<Rightarrow> net_state \<Rightarrow> u8 list" where
  "ipv4_build total_len protocol dst s =
     ipv4_header total_len (ip_id s) protocol (ip_checksum (ipv4_header total_len (ip_id s) protocol 0 (net_our_ip s) dst))
       (net_our_ip s) dst"

definition ipv4_init :: "net_state \<Rightarrow> net_state" where "ipv4_init s = s\<lparr>ip_id := 0\<rparr>"

text \<open>The reply to an echo request: type and code cleared, the checksum computed anew.\<close>

definition echo_reply :: "u8 list \<Rightarrow> u8 list" where
  "echo_reply p = [0, 0] @ enc16 (ip_checksum ([0, 0, 0, 0] @ drop 4 p)) @ drop 4 p"

text \<open>
  \<^verbatim>\<open>ipv4_handle\<close> up to the call of \<^verbatim>\<open>ipv4_send\<close>: the new state and the reply to send, if any.
\<close>

definition ipv4_dispatch :: "u8 list \<Rightarrow> u16 \<Rightarrow> net_state \<Rightarrow> (net_state \<times> (u32 \<times> u8 list) option) option" where
  "ipv4_dispatch frame frame_len s =
     (if unat frame_len < 34 then Some (s, None)
      else if length frame < 34 then None
      else
        let ihl = 4 * unat (frame ! 14 AND 0x0F);
            total = bswap16 (le16 frame 16);
            payload = drop (14 + ihl) frame;
            plen = total - of_nat ihl;
            src = le32 frame 26
        in if frame ! 23 = IP_PROTO_UDP then map_option (\<lambda>s'. (s', None)) (udp_handle src payload plen s)
           else if frame ! 23 = IP_PROTO_ICMP \<and> unat plen \<ge> 8 then
             (if payload = [] then None
              else if payload ! 0 = 8 then
                let n = min (unat plen) 512
                in if length payload < n then None else Some (s, Some (src, echo_reply (take n payload)))
              else Some (s, None))
           else Some (s, None))"

partial_function (option) ipv4_send ::
    "u32 \<Rightarrow> u8 \<Rightarrow> u8 list \<Rightarrow> u16 \<Rightarrow> net_state \<Rightarrow> (bool \<times> net_state) option" where
  "ipv4_send dst protocol payload plen s =
     (let total = 20 + plen
      in if dst = 0x0100007F \<or> dst = net_our_ip s then
           (if unat total + 14 > 1518 then Some (False, s)
            else if unat plen > 1484 then None
            else case ipv4_dispatch (replicate 12 0 @ [8, 0] @ ipv4_build total protocol dst s @ take (unat plen) payload)
                        (total + 14) (s\<lparr>ip_id := ip_id s + 1\<rparr>) of
                   None \<Rightarrow> None
                 | Some (s1, None) \<Rightarrow> Some (True, s1)
                 | Some (s1, Some (d, reply)) \<Rightarrow>
                     Option.bind (ipv4_send d IP_PROTO_ICMP reply (of_nat (length reply)) s1) (\<lambda>(_, s2). Some (True, s2)))
         else
           (case arp_lookup dst (arp_cache s) of
              None \<Rightarrow> (case arp_request dst s of None \<Rightarrow> None | Some s1 \<Rightarrow> Some (False, s1))
            | Some mac \<Rightarrow>
                if unat total > 1500 then Some (False, s)
                else if unat plen > 1480 then None
                else eth_send mac ETHERTYPE_IP (ipv4_build total protocol dst s @ take (unat plen) payload) total
                       (s\<lparr>ip_id := ip_id s + 1\<rparr>)))"

definition ipv4_handle :: "u8 list \<Rightarrow> u16 \<Rightarrow> net_state \<Rightarrow> net_state option" where
  "ipv4_handle frame frame_len s =
     (case ipv4_dispatch frame frame_len s of
        None \<Rightarrow> None
      | Some (s1, None) \<Rightarrow> Some s1
      | Some (s1, Some (d, reply)) \<Rightarrow>
          map_option snd (ipv4_send d IP_PROTO_ICMP reply (of_nat (length reply)) s1))"

definition icmp_request :: "u8 list" where
  "icmp_request =
     (let body = enc16 (bswap16 1234) @ enc16 (bswap16 1)
      in [8, 0] @ enc16 (ip_checksum ([8, 0, 0, 0] @ body)) @ body)"

definition icmp_send_request :: "u32 \<Rightarrow> net_state \<Rightarrow> (bool \<times> net_state) option" where
  "icmp_send_request dst_ip s = ipv4_send dst_ip IP_PROTO_ICMP icmp_request 8 s"

subsection \<open>UDP transmission and the receiving thread\<close>

definition udp_header :: "u16 \<Rightarrow> u16 \<Rightarrow> u16 \<Rightarrow> u8 list" where
  "udp_header src_port dst_port total_len = enc16 (bswap16 src_port) @ enc16 (bswap16 dst_port) @ enc16 (bswap16 total_len) @ enc16 0"

definition udp_send :: "u32 \<Rightarrow> u16 \<Rightarrow> u8 list \<Rightarrow> u16 \<Rightarrow> net_state \<Rightarrow> (bool \<times> net_state) option" where
  "udp_send dst_ip dst_port payload plen s =
     (let udp_total = 8 + plen
      in if unat udp_total > 1472 then Some (False, s)
         else if unat plen > 1464 then None
         else ipv4_send dst_ip IP_PROTO_UDP (udp_header 1234 dst_port udp_total @ take (unat plen) payload) udp_total s)"

text \<open>
  One round of \<^verbatim>\<open>network_task\<close>; \<open>frame\<close> is its buffer of 1518 bytes, which keeps old bytes behind
  the received ones.
\<close>

definition network_round :: "u8 list \<Rightarrow> net_state \<Rightarrow> (u8 list \<times> net_state) option" where
  "network_round frame s =
     (case ethernet_receive 1518 (eth s) of
        (r, e) \<Rightarrow>
          let s1 = s\<lparr>eth := e\<rparr>
          in case r of
               None \<Rightarrow> Some (frame, s1)
             | Some b \<Rightarrow>
                 let f = put_frame b frame
                 in if length b < 14 then Some (f, s1)
                    else let ethertype = join16 (f ! 13) (f ! 12)
                         in map_option (\<lambda>s2. (f, s2))
                              (if ethertype = 0x0800 then ipv4_handle f (of_nat (length b)) s1
                               else if ethertype = 0x0806 then arp_handle (drop 14 f) (of_nat (length b - 14)) s1
                               else Some s1))"

subsection \<open>The checksum\<close>

fun wsum :: "u8 list \<Rightarrow> nat" where
  "wsum [] = 0"
| "wsum [a] = unat a"
| "wsum (a # b # r) = unat (join16 a b) + wsum r"

lemma unat_ucast_u32 [simp]: "unat (ucast (a :: u8) :: u32) = unat a" "unat (ucast (w :: u16) :: u32) = unat w"
proof -
  have "unat a < 2 ^ LENGTH(8)" "unat w < 2 ^ LENGTH(16)" by (rule unsigned_less)+
  then show "unat (ucast a :: u32) = unat a" "unat (ucast w :: u32) = unat w"
    by (simp_all add: unsigned_ucast_eq take_bit_nat_eq_self)
qed

lemma sum16_wsum: "unat acc + wsum data < 2 ^ 32 \<Longrightarrow> unat (sum16 data acc) = unat acc + wsum data"
  by (induction data acc rule: sum16.induct) (simp_all add: unat_word_ariths)

lemma fold16_spec:
  "unat (fold16 x) \<le> 65535 \<and> unat (fold16 x) mod 65535 = unat x mod 65535 \<and> (fold16 x = 0 \<longleftrightarrow> x = 0)"
proof (induction x rule: fold16.induct)
  case (1 x)
  show ?case
  proof (cases "drop_bit 16 x = 0")
    case True
    then have "unat x div 65536 = 0" using unat_drop_bit [of 16 x] by simp
    then have "unat x < 65536" by (simp add: div_eq_0_iff)
    then show ?thesis using True by (subst (1 2 3) fold16.simps) simp
  next
    case False
    let ?y = "(x AND 0xFFFF) + drop_bit 16 x"
    have y: "unat ?y = unat x mod 65536 + unat x div 65536" by (rule unat_fold16_arg)
    have "unat x = 65536 * (unat x div 65536) + unat x mod 65536" by simp
    then have "unat x = 65535 * (unat x div 65536) + unat ?y" using y by linarith
    then have "unat ?y mod 65535 = unat x mod 65535" by (metis mod_mult_self4)
    moreover have "?y \<noteq> 0" "x \<noteq> 0" using False y by (auto simp: unat_eq_zero [symmetric] unat_drop_bit)
    ultimately show ?thesis using 1 [OF False] False by (subst (1 2 3) fold16.simps) simp
  qed
qed

lemma unat_not16: "unat (NOT w :: u16) = 65535 - unat w"
proof -
  have "unat w < 2 ^ LENGTH(16)" by (rule unsigned_less)
  moreover have "NOT w = - 1 - w" by (simp add: not_eq_complement)
  moreover have "unat (- 1 - w) = unat (- 1 :: u16) - unat w" by (rule unat_sub) simp
  ultimately show ?thesis by (simp add: unsigned_minus_1_eq_mask mask_eq_exp_minus_1)
qed

lemma unat_ip_checksum:
  assumes "wsum data < 2 ^ 32"
  shows "\<exists>r. unat (ip_checksum data) = 65535 - r \<and> r \<le> 65535 \<and> r mod 65535 = wsum data mod 65535 \<and> (r = 0 \<longleftrightarrow> wsum data = 0)"
proof -
  let ?f = "fold16 (sum16 data 0)"
  have s: "unat (sum16 data 0) = wsum data" using sum16_wsum [of 0 data] assms by simp
  have f: "unat ?f \<le> 65535" "unat ?f mod 65535 = wsum data mod 65535" "unat ?f = 0 \<longleftrightarrow> wsum data = 0"
    using fold16_spec [of "sum16 data 0"] unfolding s [symmetric] unat_eq_zero by auto
  have "unat (ucast ?f :: u16) = unat ?f mod 65536" by (simp add: unsigned_ucast_eq take_bit_eq_mod)
  then have "unat (ucast ?f :: u16) = unat ?f" using f(1) by simp
  then have "unat (ip_checksum data) = 65535 - unat ?f" unfolding ip_checksum_def unat_not16 by (rule arg_cong)
  with f show ?thesis by (intro exI [of _ "unat ?f"] conjI)
qed

text \<open>
  RFC 1071: the data as 16-bit words in network byte order, the last one padded with a zero byte,
  are added with end-around carry; the checksum is the complement of the sum, and data that carry
  a right checksum sum up to all ones.
\<close>

fun net_words :: "u8 list \<Rightarrow> nat list" where
  "net_words [] = []"
| "net_words [a] = [256 * unat a]"
| "net_words (a # b # r) = (256 * unat a + unat b) # net_words r"

definition ones_add :: "nat \<Rightarrow> nat \<Rightarrow> nat" where
  "ones_add a b = (if a + b < 65536 then a + b else a + b - 65535)"

definition rfc1071_sum :: "u8 list \<Rightarrow> nat" where
  "rfc1071_sum data = foldr ones_add (net_words data) 0"

definition rfc1071_checksum :: "u8 list \<Rightarrow> u8 list" where
  "rfc1071_checksum data = (let c = 65535 - rfc1071_sum data in [of_nat (c div 256), of_nat (c mod 256)])"

text \<open>Two sums of 16 bits that agree modulo 65535 and on zero are the same.\<close>

lemma ones_unique:
  assumes "x \<le> 65535" "y \<le> 65535" "x mod 65535 = y mod 65535" "x = 0 \<longleftrightarrow> y = (0 :: nat)"
  shows "x = y"
  using assms by (cases "x = 65535"; cases "y = 65535") auto

lemma net_words_bound: "w \<in> set (net_words data) \<Longrightarrow> w \<le> 65535"
proof (induction data rule: net_words.induct)
  case (2 a)
  then show ?case using unsigned_less [of a, where 'a = nat] by simp
next
  case (3 a b r)
  then show ?case using unsigned_less [of a, where 'a = nat] unsigned_less [of b, where 'a = nat] by auto
qed simp

lemma ones_add_spec:
  assumes "a \<le> 65535" "b \<le> 65535"
  shows "ones_add a b \<le> 65535" "ones_add a b mod 65535 = (a + b) mod 65535" "ones_add a b = 0 \<longleftrightarrow> a + b = 0"
  using assms le_mod_geq [of 65535 "a + b"] by (auto simp: ones_add_def)

lemma foldr_ones_add:
  "\<forall>w \<in> set ws. w \<le> 65535 \<Longrightarrow>
   foldr ones_add ws 0 \<le> 65535 \<and> foldr ones_add ws 0 mod 65535 = sum_list ws mod 65535 \<and> (foldr ones_add ws 0 = 0 \<longleftrightarrow> sum_list ws = 0)"
proof (induction ws)
  case (Cons w ws)
  then have IH: "foldr ones_add ws 0 \<le> 65535" "foldr ones_add ws 0 mod 65535 = sum_list ws mod 65535"
    "foldr ones_add ws 0 = 0 \<longleftrightarrow> sum_list ws = 0" and w: "w \<le> 65535" by auto
  then show ?case using ones_add_spec [OF w IH(1)] mod_add_cong [OF refl IH(2), of w] by (simp only: foldr_Cons o_apply sum_list.Cons add_eq_0_iff_both_eq_0 simp_thms)
qed simp

lemma unat_join16: "unat (join16 a b) = unat a + 256 * unat b"
proof -
  have ab: "unat a < 256" "unat b < 256" using unsigned_less [of a, where 'a = nat] unsigned_less [of b, where 'a = nat] by simp_all
  have "join16 a b = ucast a + push_bit 8 (ucast b)"
    unfolding join16_def by (rule disjunctive_add [symmetric]) (auto simp: bit_simps dest: bit_imp_le_length)
  then show ?thesis using ab
    by (simp add: push_bit_eq_mult unat_word_ariths unsigned_ucast_eq take_bit_nat_eq_self)
qed

text \<open>The sum does not depend on the byte order, but for a swap of its bytes.\<close>

lemma sum_net_words:
  "sum_list (net_words data) mod 65535 = (256 * wsum data) mod 65535 \<and> (sum_list (net_words data) = 0 \<longleftrightarrow> wsum data = 0)"
proof (induction data rule: net_words.induct)
  case (3 a b r)
  have "256 * unat (join16 a b) = (256 * unat a + unat b) + 65535 * unat b" by (simp add: unat_join16)
  then have "(256 * unat (join16 a b)) mod 65535 = (256 * unat a + unat b) mod 65535" by (metis mod_mult_self2)
  then have "(256 * unat (join16 a b) + 256 * wsum r) mod 65535 = (256 * unat a + unat b + sum_list (net_words r)) mod 65535"
    using 3 by (intro mod_add_cong) simp_all
  then show ?case using 3 by (auto simp: unat_join16 add_mult_distrib2)
qed auto

lemma rfc1071_sum_spec:
  "rfc1071_sum data \<le> 65535" "rfc1071_sum data mod 65535 = (256 * wsum data) mod 65535" "rfc1071_sum data = 0 \<longleftrightarrow> wsum data = 0"
  using foldr_ones_add [of "net_words data"] net_words_bound [of _ data] sum_net_words [of data]
  by (auto simp: rfc1071_sum_def)

lemma ip_checksum_rfc1071:
  assumes "wsum data < 2 ^ 32"
  shows "enc16 (ip_checksum data) = rfc1071_checksum data"
proof -
  obtain r where r: "unat (ip_checksum data) = 65535 - r" "r \<le> 65535" "r mod 65535 = wsum data mod 65535" "r = 0 \<longleftrightarrow> wsum data = 0"
    using unat_ip_checksum [OF assms] by auto
  define h l where "h = r div 256" and "l = r mod 256"
  have hl: "r = 256 * h + l" "h < 256" "l < 256" using r(2) by (auto simp: h_def l_def)
  have "256 * r = (256 * l + h) + 65535 * h" using hl(1) by simp
  then have "(256 * l + h) mod 65535 = (256 * r) mod 65535" by (metis mod_mult_self2)
  also have "\<dots> = (256 * wsum data) mod 65535" using r(3) by (metis mod_mult_right_eq)
  finally have c: "(256 * l + h) mod 65535 = (256 * wsum data) mod 65535" .
  have z: "wsum data = 0 \<longleftrightarrow> 256 * l + h = 0" using r(4) hl(1) by auto
  have s: "rfc1071_sum data = 256 * l + h"
  proof (rule ones_unique)
    show "256 * l + h \<le> 65535" using hl(2,3) by simp
  qed (simp_all only: rfc1071_sum_spec c z)
  have sw: "(65535 - (256 * x + y)) div 256 = 255 - x" "(65535 - (256 * x + y)) mod 256 = 255 - y" if "x < 256" "y < 256" for x y :: nat
  proof -
    have "65535 - (256 * x + y) = 256 * (255 - x) + (255 - y)" using that by simp
    then show "(65535 - (256 * x + y)) div 256 = 255 - x" "(65535 - (256 * x + y)) mod 256 = 255 - y" by simp_all
  qed
  have e: "(65535 - r) div 256 = 255 - h" "(65535 - r) mod 256 = 255 - l"
    "(65535 - rfc1071_sum data) div 256 = 255 - l" "(65535 - rfc1071_sum data) mod 256 = 255 - h"
    unfolding s hl(1) by (rule sw [OF hl(2,3)] sw [OF hl(3,2)])+
  have "lo8 w = of_nat (unat w mod 256)" "hi8 w = of_nat (unat w div 256)" for w :: u16
    by (simp_all add: lo8_def hi8_def word_unat_eq_iff unsigned_ucast_eq take_bit_eq_mod unat_of_nat unat_drop_bit)
  then show ?thesis unfolding rfc1071_checksum_def Let_def e enc16_def by (simp add: r(1) e)
qed

text \<open>Data with the checksum of the same data without it sums up to all ones.\<close>

lemma checksum_verifies:
  assumes "wsum d1 = wsum d0 + unat (ip_checksum d0)" "wsum d0 < 2 ^ 31"
  shows "rfc1071_sum d1 = 65535"
proof -
  obtain r where r: "unat (ip_checksum d0) = 65535 - r" "r \<le> 65535" "r mod 65535 = wsum d0 mod 65535" "r = 0 \<longleftrightarrow> wsum d0 = 0"
    using unat_ip_checksum [of d0] assms(2) by auto
  have "wsum d1 + r = wsum d0 + 65535" using assms(1) r(1,2) by simp
  then have "(wsum d1 + r) mod 65535 = r mod 65535" using r(3) by simp
  then have "65535 dvd wsum d1" by (metis add.commute add_diff_cancel_left' dvd_refl le_add1 mod_eq_dvd_iff_nat)
  then have "65535 dvd 256 * wsum d1" by (rule dvd_mult)
  moreover have "wsum d1 \<noteq> 0" using assms(1) r by (cases "wsum d0 = 0") auto
  ultimately have "rfc1071_sum d1 mod 65535 = 65535 mod 65535" "rfc1071_sum d1 \<noteq> 0" using rfc1071_sum_spec(2,3) [of d1] by auto
  then show ?thesis by (intro ones_unique [OF rfc1071_sum_spec(1)]) simp_all
qed

lemma length_ipv4_header [simp]: "length (ipv4_header t i p c a b) = 20"
  by (simp add: ipv4_header_def enc16_def enc32_def)

lemma unat_join16_less: "unat (join16 a b) < 65536"
  using unsigned_less [of "join16 a b", where 'a = nat] by simp

lemma wsum_enc16: "wsum (enc16 w @ r) = unat w + wsum r"
  by (simp add: enc16_def join16_bytes)

lemma wsum_bound: "wsum data \<le> 65535 * length data"
proof (induction data rule: wsum.induct)
  case (2 a)
  then show ?case using unsigned_less [of a, where 'a = nat] by simp
next
  case (3 a b r)
  then show ?case using unat_join16_less [of a b] by simp
qed simp

lemma wsum_ipv4_header: "wsum (ipv4_header t i p c a b) = wsum (ipv4_header t i p 0 a b) + unat c"
proof -
  have z: "wsum (enc16 (0 :: u16) @ r) = wsum r" for r by (simp add: wsum_enc16)
  have "wsum (ipv4_header t i p x a b) =
      unat (join16 0x45 0) + (unat (bswap16 t) + (unat (bswap16 i) + (unat (join16 64 p) + (unat x + wsum (enc32 a @ enc32 b)))))" for x
    by (simp add: ipv4_header_def wsum_enc16 z append_Cons [of _ "[_]", symmetric])
  then show ?thesis by simp
qed

text \<open>
  C25. The checksum is the one of RFC 1071: over data of at most 64 KB the two bytes the code stores
  are, in network byte order, the complement of the one's complement sum of the data, although the
  code adds the words in the byte order of the processor and takes in the carries at the end. With
  it in place the header of any packet \<^verbatim>\<open>ipv4_send\<close> builds, any echo reply of at most 512 bytes and
  the echo request sum up to all ones, which is what a receiver checks.
\<close>

theorem ip_checksums_verify:
  "(length data \<le> 65536 \<longrightarrow> enc16 (ip_checksum data) = rfc1071_checksum data) \<and>
   rfc1071_sum (ipv4_build t protocol dst s) = 65535 \<and>
   (4 \<le> length p \<and> length p \<le> 512 \<longrightarrow> rfc1071_sum (echo_reply p) = 65535) \<and>
   rfc1071_sum icmp_request = 65535"
proof (intro conjI impI)
  assume "length data \<le> 65536"
  then show "enc16 (ip_checksum data) = rfc1071_checksum data" using wsum_bound [of data] by (intro ip_checksum_rfc1071) simp
next
  show "rfc1071_sum (ipv4_build t protocol dst s) = 65535" unfolding ipv4_build_def
    using wsum_bound [of "ipv4_header t (ip_id s) protocol 0 (net_our_ip s) dst"]
    by (intro checksum_verifies [OF wsum_ipv4_header]) simp
  have icmp: "rfc1071_sum ([a, 0] @ enc16 (ip_checksum ([a, 0, 0, 0] @ d)) @ d) = 65535" if "length d \<le> 512" for a d
  proof (rule checksum_verifies)
    show "wsum ([a, 0] @ enc16 (ip_checksum ([a, 0, 0, 0] @ d)) @ d) =
        wsum ([a, 0, 0, 0] @ d) + unat (ip_checksum ([a, 0, 0, 0] @ d))"
      by (simp add: wsum_enc16 join16_def)
    show "wsum ([a, 0, 0, 0] @ d) < 2 ^ 31" using wsum_bound [of "[a, 0, 0, 0] @ d"] that by simp
  qed
  show "rfc1071_sum (echo_reply p) = 65535" if "4 \<le> length p \<and> length p \<le> 512"
    unfolding echo_reply_def by (rule icmp) (use that in auto)
  show "rfc1071_sum icmp_request = 65535" unfolding icmp_request_def Let_def by (rule icmp) (simp add: enc16_def)
qed

theorem ip_checksums_verify_witness:
  "enc16 (ip_checksum [0xFF, 0xFF, 0x80, 1]) = [0x7F, 0xFE] \<and> rfc1071_sum (echo_reply [8, 0, 0xF7, 0xFF, 0, 0, 0, 0]) = 65535"
proof
  have "enc16 (ip_checksum [0xFF, 0xFF, 0x80, 1]) = rfc1071_checksum [0xFF, 0xFF, 0x80, 1]"
    using ip_checksums_verify [of "[0xFF, 0xFF, 0x80, 1]"] by simp
  also have "\<dots> = [0x7F, 0xFE]" by (simp add: rfc1071_checksum_def rfc1071_sum_def ones_add_def)
  finally show "enc16 (ip_checksum [0xFF, 0xFF, 0x80, 1]) = [0x7F, 0xFE]" .
  show "rfc1071_sum (echo_reply [8, 0, 0xF7, 0xFF, 0, 0, 0, 0]) = 65535"
    using ip_checksums_verify [of "[]" 0 0 0 undefined "[8, 0, 0xF7, 0xFF, 0, 0, 0, 0]"] by simp
qed

subsection \<open>Address resolution\<close>

text \<open>
  What the sender relies on: a learned address is found at once, and an entry that is not found
  again may have been evicted but never changes by itself.
\<close>

locale resolver =
  fixes lookup :: "u32 \<Rightarrow> 'c \<Rightarrow> u8 list option"
    and put :: "u32 \<Rightarrow> u8 list \<Rightarrow> 'c \<Rightarrow> 'c"
    and inv :: "'c \<Rightarrow> bool"
  assumes inv_put: "inv c \<Longrightarrow> inv (put ip mac c)"
    and lookup_put_same: "inv c \<Longrightarrow> lookup ip (put ip mac c) = Some mac"
    and lookup_put_other: "inv c \<Longrightarrow> ip' \<noteq> ip \<Longrightarrow>
      lookup ip' (put ip mac c) = lookup ip' c \<or> lookup ip' (put ip mac c) = None"
begin

abbreviation puts :: "(u32 \<times> u8 list) list \<Rightarrow> 'c \<Rightarrow> 'c" where
  "puts ps c \<equiv> fold (\<lambda>(ip, mac). put ip mac) ps c"

lemma inv_puts: "inv c \<Longrightarrow> inv (puts ps c)"
  by (induction ps arbitrary: c) (auto simp: inv_put)

lemma lookup_latest:
  assumes "inv c" "lookup ip c = None"
  shows "lookup ip (puts ps c) = None \<or> lookup ip (puts ps c) = map_option snd (find (\<lambda>p. fst p = ip) (rev ps))"
proof (induction ps rule: rev_induct)
  case (snoc p ps)
  obtain i m where p: "p = (i, m)" by (cases p)
  have "inv (puts ps c)" by (rule inv_puts [OF assms(1)])
  then show ?case using snoc p lookup_put_same lookup_put_other [of "puts ps c" ip i m] by (cases "i = ip") auto
qed (use assms in simp)

end

text \<open>The cache: eight entries, no address twice.\<close>

definition arp_ok :: "arp_entry_t list \<Rightarrow> bool" where
  "arp_ok c \<longleftrightarrow> length c = ARP_CACHE_SIZE \<and>
     (\<forall>i < ARP_CACHE_SIZE. \<forall>j < ARP_CACHE_SIZE. a_valid (c ! i) \<and> a_valid (c ! j) \<and> a_ip (c ! i) = a_ip (c ! j) \<longrightarrow> i = j)"

lemma arp_hit_Some: "arp_ok c \<Longrightarrow> arp_hit ip c = Some i \<longleftrightarrow> i < ARP_CACHE_SIZE \<and> a_valid (c ! i) \<and> a_ip (c ! i) = ip"
  by (auto simp: arp_hit_def find_upt_Some_iff arp_ok_def) (metis less_trans nat_neq_iff)

lemma arp_hit_None: "arp_hit ip c = None \<longleftrightarrow> (\<forall>i < ARP_CACHE_SIZE. a_valid (c ! i) \<longrightarrow> a_ip (c ! i) \<noteq> ip)"
  by (auto simp: arp_hit_def find_upt_None_iff)

text \<open>A put writes one valid entry for \<open>ip\<close> at an index where no other entry for \<open>ip\<close> is.\<close>

lemma arp_put_at:
  assumes "arp_ok c"
  obtains i where "i < ARP_CACHE_SIZE" "arp_cache_put ip mac c = c[i := \<lparr>a_ip = ip, a_mac = mac, a_valid = True\<rparr>]"
    "\<forall>j < ARP_CACHE_SIZE. a_valid (c ! j) \<and> a_ip (c ! j) = ip \<longrightarrow> j = i"
proof (cases "arp_hit ip c")
  case (Some i)
  then have i: "i < ARP_CACHE_SIZE" "a_valid (c ! i)" "a_ip (c ! i) = ip" using arp_hit_Some [OF assms] by auto
  then have "arp_cache_put ip mac c = c[i := \<lparr>a_ip = ip, a_mac = mac, a_valid = True\<rparr>]"
    using Some by (cases "c ! i") (simp add: arp_cache_put_def)
  moreover have "\<forall>j < ARP_CACHE_SIZE. a_valid (c ! j) \<and> a_ip (c ! j) = ip \<longrightarrow> j = i"
    using assms i unfolding arp_ok_def by blast
  ultimately show ?thesis using i(1) that by blast
next
  case None
  show ?thesis
  proof (cases "find (\<lambda>i. \<not> a_valid (c ! i)) [0..<ARP_CACHE_SIZE]")
    case none: None
    then have "arp_cache_put ip mac c = c[0 := \<lparr>a_ip = ip, a_mac = mac, a_valid = True\<rparr>]"
      using None by (simp add: arp_cache_put_def)
    then show ?thesis using None that [of 0] unfolding arp_hit_None by (auto simp: ARP_CACHE_SIZE_def)
  next
    case (Some i)
    then have "i < ARP_CACHE_SIZE" by (simp add: find_upt_Some_iff)
    moreover have "arp_cache_put ip mac c = c[i := \<lparr>a_ip = ip, a_mac = mac, a_valid = True\<rparr>]"
      using None Some by (simp add: arp_cache_put_def)
    ultimately show ?thesis using None that [of i] unfolding arp_hit_None by blast
  qed
qed

interpretation arp: resolver arp_lookup arp_cache_put arp_ok
proof
  fix c ip mac assume c: "arp_ok c"
  obtain i where i: "i < ARP_CACHE_SIZE" "arp_cache_put ip mac c = c[i := \<lparr>a_ip = ip, a_mac = mac, a_valid = True\<rparr>]"
    "\<forall>j < ARP_CACHE_SIZE. a_valid (c ! j) \<and> a_ip (c ! j) = ip \<longrightarrow> j = i" by (rule arp_put_at [OF c])
  have len: "length c = ARP_CACHE_SIZE" using c by (simp add: arp_ok_def)
  have "j = k" if "j < ARP_CACHE_SIZE" "k < ARP_CACHE_SIZE" "a_valid (arp_cache_put ip mac c ! j)"
      "a_valid (arp_cache_put ip mac c ! k)" "a_ip (arp_cache_put ip mac c ! j) = a_ip (arp_cache_put ip mac c ! k)" for j k
  proof -
    consider "j = i" "k = i" | "j = i" "k \<noteq> i" | "j \<noteq> i" "k = i" | "j \<noteq> i" "k \<noteq> i" by blast
    then show ?thesis
    proof cases
      case 2
      then have "a_valid (c ! k)" "a_ip (c ! k) = ip" using that(4,5) i(1,2) len by simp_all
      then show ?thesis using i(3) that(2) 2 by blast
    next
      case 3
      then have "a_valid (c ! j)" "a_ip (c ! j) = ip" using that(3,5) i(1,2) len by simp_all
      then show ?thesis using i(3) that(1) 3 by blast
    next
      case 4 then show ?thesis using that i(2) c unfolding arp_ok_def by simp
    qed simp
  qed
  then show ok: "arp_ok (arp_cache_put ip mac c)" unfolding arp_ok_def using i(2) len by simp
  have "arp_hit ip (arp_cache_put ip mac c) = Some i" unfolding arp_hit_Some [OF ok] using i(1,2) len by simp
  then show "arp_lookup ip (arp_cache_put ip mac c) = Some mac" using i(1,2) len by (simp add: arp_lookup_def)
  fix ip' assume ne: "ip' \<noteq> ip"
  show "arp_lookup ip' (arp_cache_put ip mac c) = arp_lookup ip' c \<or> arp_lookup ip' (arp_cache_put ip mac c) = None"
  proof (cases "arp_hit ip' (arp_cache_put ip mac c)")
    case (Some j)
    then have j: "j < ARP_CACHE_SIZE" "a_valid (arp_cache_put ip mac c ! j)" "a_ip (arp_cache_put ip mac c ! j) = ip'"
      unfolding arp_hit_Some [OF ok] by auto
    then have "j \<noteq> i" using i(1,2) len ne by auto
    then have "j < ARP_CACHE_SIZE" "j \<noteq> i" "a_valid (c ! j)" "a_ip (c ! j) = ip'" using j i(2) by auto
    then have "arp_hit ip' c = Some j" using arp_hit_Some [OF c] by simp
    then show ?thesis using Some i(2) \<open>j \<noteq> i\<close> by (simp add: arp_lookup_def)
  qed (simp add: arp_lookup_def)
qed

text \<open>
  The ARP cache never returns a stale address: after any sequence of learned pairs, starting
  from an empty cache, a lookup gives the address that was learned last for the IP, or nothing;
  an address just learned is always found, even when the cache is full.
\<close>

theorem arp_cache_latest:
  fixes ps c
  assumes "arp_ok c" "\<forall>i < ARP_CACHE_SIZE. \<not> a_valid (c ! i)"
  defines "c' \<equiv> fold (\<lambda>(ip, mac). arp_cache_put ip mac) ps c"
  shows "(arp_lookup ip c' = None \<or> arp_lookup ip c' = map_option snd (find (\<lambda>p. fst p = ip) (rev ps))) \<and>
    arp_lookup ip (arp_cache_put ip mac c') = Some mac"
proof -
  have "arp_lookup ip c = None" using assms(2) by (simp add: arp_lookup_def arp_hit_None)
  from arp.lookup_latest [OF assms(1) this, of ps] arp.lookup_put_same [OF arp.inv_puts [OF assms(1)], of ip mac ps]
  show ?thesis unfolding c'_def by blast
qed

definition empty_cache :: "arp_entry_t list" where
  "empty_cache = replicate 8 \<lparr>a_ip = 0, a_mac = replicate 6 0, a_valid = False\<rparr>"

theorem arp_cache_latest_witness:
  "arp_lookup 7 (arp_cache_put 7 [1, 2, 3, 4, 5, 6] (arp_cache_put 9 [1, 1, 1, 1, 1, 1] empty_cache)) = Some [1, 2, 3, 4, 5, 6]"
proof -
  have "arp_ok empty_cache" "\<forall>i < ARP_CACHE_SIZE. \<not> a_valid (empty_cache ! i)"
    by (simp_all add: arp_ok_def empty_cache_def ARP_CACHE_SIZE_def)
  from arp_cache_latest [OF this, of 7 "[(9, [1, 1, 1, 1, 1, 1])]" "[1, 2, 3, 4, 5, 6]"] show ?thesis by simp
qed

subsection \<open>Local delivery\<close>

lemma bswap16_bswap16 [simp]: "bswap16 (bswap16 w) = w"
proof (rule bit_word_eqI)
  fix n assume "n < LENGTH(16)"
  then consider "n < 8" | "8 \<le> n" "n < 16" by fastforce
  then show "bit (bswap16 (bswap16 w)) n = bit w n" by cases (auto simp: bswap16_def bit_simps)
qed

lemma le16_enc16: "le16 (enc16 w @ r) 0 = w" "le16 (a # r) (Suc i) = le16 r i"
  by (simp_all add: le16_def enc16_def join16_bytes)

lemma ipv4_build_fields:
  "length (ipv4_build t p d s) = 20" "ipv4_build t p d s ! 0 = 0x45" "le16 (ipv4_build t p d s) 2 = bswap16 t"
  "ipv4_build t p d s ! 9 = p" "le32 (ipv4_build t p d s) 12 = net_our_ip s"
  by (simp_all add: ipv4_build_def ipv4_header_def enc16_def enc32_def le16_def le32_def join16_bytes join32_bytes [simplified])

text \<open>A packet in the loopback buffer, behind 14 bytes of a frame header.\<close>

definition loop_frame :: "u16 \<Rightarrow> u8 \<Rightarrow> u32 \<Rightarrow> net_state \<Rightarrow> u8 list \<Rightarrow> u8 list" where
  "loop_frame t protocol dst s body = replicate 12 0 @ [8, 0] @ ipv4_build t protocol dst s @ body"

lemma loop_frame_fields:
  "length (loop_frame t p d s body) = 34 + length body" "loop_frame t p d s body ! 14 = 0x45"
  "le16 (loop_frame t p d s body) 16 = bswap16 t" "loop_frame t p d s body ! 23 = p"
  "le32 (loop_frame t p d s body) 26 = net_our_ip s" "drop 34 (loop_frame t p d s body) = body"
proof -
  let ?h = "ipv4_build t p d s" and ?f = "loop_frame t p d s body"
  have n: "?f ! (14 + k) = ?h ! k" if "k < 20" for k
    using that by (simp add: loop_frame_def nth_append ipv4_build_fields)
  show "length ?f = 34 + length body" by (simp add: loop_frame_def ipv4_build_fields)
  show "?f ! 14 = 0x45" using n [of 0] ipv4_build_fields(2) by simp
  show "?f ! 23 = p" using n [of 9] ipv4_build_fields(4) by simp
  show "le16 ?f 16 = bswap16 t" using n [of 2] n [of 3] ipv4_build_fields(3) [of t p d s] by (simp add: le16_def)
  show "le32 ?f 26 = net_our_ip s"
    using n [of 12] n [of 13] n [of 14] n [of 15] ipv4_build_fields(5) [of t p d s] by (simp add: le32_def)
  show "drop 34 ?f = body" by (simp add: loop_frame_def ipv4_build_fields)
qed

lemma dispatch_loop_frame:
  assumes "unat t = 20 + length body" "length body \<le> 1484"
  shows "ipv4_dispatch (loop_frame t p d s0 body) (t + 14) s =
    (if p = IP_PROTO_UDP then map_option (\<lambda>s'. (s', None)) (udp_handle (net_our_ip s0) body (of_nat (length body)) s)
     else if p = IP_PROTO_ICMP \<and> 8 \<le> length body \<and> body ! 0 = 8
     then Some (s, Some (net_our_ip s0, echo_reply (take 512 body)))
     else Some (s, None))"
proof -
  have t14: "unat (t + 14) = 34 + length body" using assms by (simp add: unat_word_ariths)
  have pl: "t - 20 = of_nat (length body)" using assms(1) by (metis add_diff_cancel_left' of_nat_add of_nat_numeral of_nat_unat ucast_id)
  have ul: "unat (of_nat (length body) :: u16) = length body" using assms(2) by (simp add: unat_of_nat)
  have tk: "take (min (length body) 512) body = take 512 body" by (simp add: min_def)
  show ?thesis
    by (auto simp: ipv4_dispatch_def t14 loop_frame_fields pl ul tk Let_def)
qed

lemma ipv4_send_local:
  assumes "dst = 0x0100007F \<or> dst = net_our_ip s" "unat plen \<le> 1484" "length payload = unat plen"
  shows "ipv4_send dst protocol payload plen s =
    (case ipv4_dispatch (loop_frame (20 + plen) protocol dst s payload) (20 + plen + 14) (s\<lparr>ip_id := ip_id s + 1\<rparr>) of
       None \<Rightarrow> None
     | Some (s1, None) \<Rightarrow> Some (True, s1)
     | Some (s1, Some (d, reply)) \<Rightarrow>
         Option.bind (ipv4_send d IP_PROTO_ICMP reply (of_nat (length reply)) s1) (\<lambda>(_, s2). Some (True, s2)))"
proof -
  have "unat (20 + plen) = 20 + unat plen" using assms(2) by (simp add: unat_word_ariths)
  then show ?thesis using assms
    by (subst ipv4_send.simps) (simp add: Let_def loop_frame_def)
qed

text \<open>The queues: 16 of them, each with a buffer of 2048 bytes.\<close>

definition udp_ok :: "net_state \<Rightarrow> bool" where
  "udp_ok s \<longleftrightarrow> length (udp_queues s) = MAX_UDP_PORTS \<and> (\<forall>q \<in> set (udp_queues s). length (q_buffer q) = UDP_BUF_SIZE)"

lemma udp_header_fields:
  "length (udp_header sp dp t) = 8" "le16 (udp_header sp dp t @ r) 2 = bswap16 dp" "le16 (udp_header sp dp t @ r) 4 = bswap16 t"
  by (simp_all add: udp_header_def enc16_def le16_def join16_bytes)

lemma udp_slot_Some:
  "udp_slot port qs = Some i \<Longrightarrow> i < MAX_UDP_PORTS \<and> q_active (qs ! i) \<and> q_port (qs ! i) = port"
  by (simp add: udp_slot_def find_upt_Some_iff)

lemma udp_bind_slot:
  assumes "length qs = MAX_UDP_PORTS" "udp_bind port qs = (Some i, qs')"
  shows "i < MAX_UDP_PORTS \<and> length qs' = MAX_UDP_PORTS \<and> udp_slot port qs' = Some i \<and>
    q_buffer (qs' ! i) = q_buffer (qs ! i) \<and> q_active (qs' ! i) \<and> q_port (qs' ! i) = port"
proof (cases "udp_slot port qs")
  case (Some j)
  then have "j = i" "qs' = qs" using assms(2) by (simp_all add: udp_bind_def)
  then show ?thesis using Some assms(1) udp_slot_Some [OF Some] by simp
next
  case None
  then have f: "udp_free qs = Some i" "qs' = qs[i := (qs ! i)\<lparr>q_active := True, q_port := port\<rparr>]"
    using assms(2) by (auto simp: udp_bind_def split: option.splits)
  have i: "i < MAX_UDP_PORTS" using f(1) by (simp add: udp_free_def find_upt_Some_iff)
  have "\<not> (q_active (qs' ! j) \<and> q_port (qs' ! j) = port)" if "j < i" for j
    using None that i f(2) by (simp add: udp_slot_def find_upt_None_iff)
  then have "udp_slot port qs' = Some i"
    using i f(2) assms(1) by (simp add: udp_slot_def find_upt_Some_iff)
  then show ?thesis using i f(2) assms(1) by simp
qed

lemma udp_slot_update:
  assumes "udp_slot port qs = Some i" "length qs = MAX_UDP_PORTS" "q_active q" "q_port q = port"
  shows "udp_slot port (qs[i := q]) = Some i"
proof -
  have "i < MAX_UDP_PORTS" "\<And>j. j < i \<Longrightarrow> \<not> (q_active (qs ! j) \<and> q_port (qs ! j) = port)"
    using assms(1) by (auto simp: udp_slot_def find_upt_Some_iff)
  then show ?thesis using assms(2-4) by (simp add: udp_slot_def find_upt_Some_iff)
qed

lemma udp_handle_segment:
  assumes "unat t = 8 + length data" "length data \<le> 1464" "udp_bind port (udp_queues s) = (Some i, qs)"
  shows "udp_handle src (udp_header sp port t @ data) t s =
    Some (s\<lparr>udp_queues := qs[i := (qs ! i)\<lparr>q_buffer := put_frame data (q_buffer (qs ! i)), q_length := t - 8\<rparr>],
            wakes := wakes s @ [i]\<rparr>)"
proof -
  let ?b = "udp_header sp port t @ data"
  have d: "unat (t - 8) = length data" using assms(1) by (simp add: unat_sub word_le_nat_alt)
  have w: "of_nat (length data) = t - 8" using d by (metis of_nat_unat ucast_id)
  have sl: "slice 8 (length data) ?b = data" by (simp add: slice_def udp_header_fields(1))
  have mn: "min (unat (t - 8)) UDP_BUF_SIZE = length data" using d assms(2) by (simp add: UDP_BUF_SIZE_def)
  show ?thesis unfolding udp_handle_def
    using assms(1,3) by (simp add: udp_header_fields mn sl w)
qed

lemma udp_send_local:
  assumes "dst = 0x0100007F \<or> dst = net_our_ip s" "length payload = unat plen" "unat plen \<le> 1464"
    and b: "udp_bind port (udp_queues s) = (Some i, qs)"
  shows "udp_send dst port payload plen s =
    Some (True, s\<lparr>ip_id := ip_id s + 1,
      udp_queues := qs[i := (qs ! i)\<lparr>q_buffer := put_frame payload (q_buffer (qs ! i)), q_length := plen\<rparr>],
      wakes := wakes s @ [i]\<rparr>)" (is "_ = Some (True, ?s2)")
proof -
  have u8: "unat (8 + plen) = 8 + unat plen" using assms(3) by (simp add: unat_word_ariths)
  define seg where "seg = udp_header 1234 port (8 + plen) @ payload"
  let ?s1 = "s\<lparr>ip_id := ip_id s + 1\<rparr>"
  have ls: "length seg = unat (8 + plen)" using assms(2) u8 by (simp add: seg_def udp_header_fields)
  have lt: "of_nat (length seg) = 8 + plen" unfolding ls by simp
  have "udp_handle src seg (8 + plen) ?s1 = Some ?s2" for src
    using udp_handle_segment [of "8 + plen" payload port ?s1 i qs src 1234] assms(2,3) b u8 by (simp add: seg_def)
  moreover have "unat (20 + (8 + plen)) = 20 + length seg" using ls u8 assms(3) by (simp add: unat_word_ariths)
  ultimately have "ipv4_dispatch (loop_frame (20 + (8 + plen)) IP_PROTO_UDP dst s seg) (20 + (8 + plen) + 14) ?s1 = Some (?s2, None)"
    using dispatch_loop_frame [of "20 + (8 + plen)" seg IP_PROTO_UDP dst s ?s1] ls u8 assms(3) lt by simp
  then have "ipv4_send dst IP_PROTO_UDP seg (8 + plen) s = Some (True, ?s2)"
    using ipv4_send_local [OF assms(1) _ ls, of IP_PROTO_UDP] u8 assms(3) by simp
  then show ?thesis using assms(2,3) u8 by (simp add: udp_send_def Let_def seg_def)
qed

text \<open>
  C26. Local delivery: a datagram of 1 to 1464 bytes sent to the loopback address or to the own
  IP address goes down through UDP and IPv4 and up again, and a receive on its port returns its
  bytes, as far as the buffer of the receiver goes, unless all queues belong to other ports.
\<close>

theorem udp_loopback_roundtrip:
  assumes "udp_ok s" "dst = 0x0100007F \<or> dst = net_our_ip s"
    and "length payload = unat plen" "0 < plen" "unat plen \<le> 1464"
    and "fst (udp_bind port (udp_queues s)) \<noteq> None"
  shows "\<exists>s'. udp_send dst port payload plen s = Some (True, s') \<and>
    fst (udp_recv port maxlen s') = Received (take (unat maxlen) payload)"
proof -
  obtain i qs where b: "udp_bind port (udp_queues s) = (Some i, qs)"
    using assms(6) by (cases "udp_bind port (udp_queues s)") auto
  let ?q = "(qs ! i)\<lparr>q_buffer := put_frame payload (q_buffer (qs ! i)), q_length := plen\<rparr>"
  let ?s2 = "s\<lparr>ip_id := ip_id s + 1, udp_queues := qs[i := ?q], wakes := wakes s @ [i]\<rparr>"
  have send: "udp_send dst port payload plen s = Some (True, ?s2)" by (rule udp_send_local [OF assms(2,3,5) b])
  note bs = udp_bind_slot [OF _ b]
  have len: "length (udp_queues s) = MAX_UDP_PORTS" using assms(1) by (simp add: udp_ok_def)
  have i: "i < MAX_UDP_PORTS" "length qs = MAX_UDP_PORTS" "q_active ?q" "q_port ?q = port" using bs [OF len] by simp_all
  have slot: "udp_slot port (udp_queues ?s2) = Some i"
    using udp_slot_update [of port qs i ?q] bs [OF len] i by simp
  have "fst (udp_recv port maxlen ?s2) = Received (take (unat (if plen < maxlen then plen else maxlen)) (put_frame payload (q_buffer (qs ! i))))"
    using slot i assms(4) by (simp add: udp_recv_def Let_def)
  also have "take (unat (if plen < maxlen then plen else maxlen)) (put_frame payload x) = take (unat maxlen) payload" for x
    using assms(3) by (simp add: put_frame_def word_less_nat_alt)
  finally show ?thesis using send by blast
qed

text \<open>
  Pinging oneself ends: an echo request to the own address is answered by an echo reply,
  which is delivered and answered no further; two packets are numbered and nothing is sent to
  the adapter.
\<close>

theorem icmp_loopback_terminates:
  assumes "dst = 0x0100007F \<or> dst = net_our_ip s"
  shows "icmp_send_request dst s = Some (True, s\<lparr>ip_id := ip_id s + 2\<rparr>)"
proof -
  let ?s1 = "s\<lparr>ip_id := ip_id s + 1\<rparr>"
  have len: "length icmp_request = 8" "icmp_request ! 0 = 8" by (simp_all add: icmp_request_def Let_def enc16_def)
  let ?r = "echo_reply icmp_request"
  have r: "length ?r = 8" "?r ! 0 = 0" "take 512 icmp_request = icmp_request" using len(1) by (simp_all add: echo_reply_def enc16_def)
  have ne: "IP_PROTO_ICMP \<noteq> IP_PROTO_UDP" by (simp add: IP_PROTO_ICMP_def IP_PROTO_UDP_def)
  have "ipv4_dispatch (loop_frame (20 + 8) IP_PROTO_ICMP d t ?r) (20 + 8 + 14) u = Some (u, None)" for d t u
    using dispatch_loop_frame [of "20 + 8" ?r IP_PROTO_ICMP d t u] r ne by simp
  then have "ipv4_send (net_our_ip s) IP_PROTO_ICMP ?r 8 ?s1 = Some (True, ?s1\<lparr>ip_id := ip_id s + 1 + 1\<rparr>)"
    using ipv4_send_local [of "net_our_ip s" ?s1 8 ?r IP_PROTO_ICMP] r(1) by simp
  moreover have "ipv4_dispatch (loop_frame (20 + 8) IP_PROTO_ICMP dst s icmp_request) (20 + 8 + 14) ?s1 =
      Some (?s1, Some (net_our_ip s, ?r))"
    using dispatch_loop_frame [of "20 + 8" icmp_request IP_PROTO_ICMP dst s ?s1] len r(3) ne by simp
  ultimately show ?thesis
    using ipv4_send_local [OF assms, of 8 icmp_request IP_PROTO_ICMP] len(1) r(1) by (simp add: icmp_send_request_def)
qed

definition example_queue :: udp_queue_t where
  "example_queue = \<lparr>q_port = 0, q_buffer = replicate 2048 0, q_length = 0, q_active = False\<rparr>"

definition example_net :: net_state where
  "example_net = \<lparr>arp_cache = empty_cache, net_our_ip = 0x0F02000A, net_gateway_ip = 0x0202000A, net_netmask = 0x00FFFFFF,
     net_bcast_ip = 0xFF02000A, ip_id = 0, udp_queues = replicate 16 example_queue, wakes = [], eth = example_eth\<rparr>"

lemma example_net_ok:
  "udp_ok example_net" "udp_bind port (udp_queues example_net) = (Some 0, (udp_queues example_net)[0 := example_queue\<lparr>q_active := True, q_port := port\<rparr>])"
  by (simp_all add: udp_ok_def example_net_def example_queue_def MAX_UDP_PORTS_def UDP_BUF_SIZE_def udp_bind_def udp_slot_def
      udp_free_def upt_rec)

theorem udp_loopback_roundtrip_witness:
  "\<exists>s'. udp_send 0x0100007F 4000 [1, 2, 3] 3 example_net = Some (True, s') \<and> fst (udp_recv 4000 2 s') = Received [1, 2]"
  using udp_loopback_roundtrip [OF example_net_ok(1), where dst = "0x0100007F" and payload = "[1, 2, 3]" and plen = 3 and port = 4000 and maxlen = 2]
  by (simp add: example_net_ok(2))

theorem icmp_loopback_terminates_witness:
  "icmp_send_request 0x0100007F example_net = Some (True, example_net\<lparr>ip_id := 2\<rparr>)"
  using icmp_loopback_terminates [where dst = "0x0100007F" and s = example_net] by (simp add: example_net_def)

text \<open>
  The length field of a received datagram is trusted: a frame whose UDP length field says
  more than the receive buffer holds makes \<^verbatim>\<open>udp_handle\<close> copy bytes from beyond the end of the
  buffer, whatever the length of the frame.
\<close>

theorem udp_length_overread:
  assumes "length frame = 1518" "34 \<le> unat frame_len" "frame ! 14 AND 0x0F = 5" "frame ! 23 = IP_PROTO_UDP"
    and "8 \<le> unat (bswap16 (le16 frame 16) - 20)" "1476 < unat (bswap16 (le16 frame 38) - 8)"
    and "fst (udp_bind (bswap16 (le16 frame 36)) (udp_queues s)) \<noteq> None"
  shows "ipv4_handle frame frame_len s = None"
proof -
  let ?p = "drop 34 frame"
  have f: "le16 ?p 2 = le16 frame 36" "le16 ?p 4 = le16 frame 38" using assms(1) by (simp_all add: le16_def)
  obtain i qs where "udp_bind (bswap16 (le16 frame 36)) (udp_queues s) = (Some i, qs)"
    using assms(7) by (cases "udp_bind (bswap16 (le16 frame 36)) (udp_queues s)") auto
  then have "udp_handle src ?p (bswap16 (le16 frame 16) - 20) s = None" for src
    using assms(1,5,6) unfolding udp_handle_def f by (simp add: UDP_BUF_SIZE_def)
  then have "ipv4_dispatch frame frame_len s = None"
    using assms(1-4) by (simp add: ipv4_dispatch_def Let_def)
  then show ?thesis by (simp add: ipv4_handle_def)
qed

theorem udp_length_overread_witness:
  "ipv4_handle ((replicate 1518 0)[14 := 0x45, 17 := 28, 23 := 17, 38 := 0xFF, 39 := 0xFF]) 42 example_net = None"
proof (rule udp_length_overread)
  let ?f = "(replicate 1518 0)[14 := 0x45, 17 := 28, 23 := 17, 38 := 0xFF, 39 := 0xFF] :: u8 list"
  have "le16 ?f 16 = join16 0 28" "le16 ?f 38 = join16 0xFF 0xFF" by (simp_all add: le16_def)
  then show "8 \<le> unat (bswap16 (le16 ?f 16) - 20)" "1476 < unat (bswap16 (le16 ?f 38) - 8)"
    by (simp_all add: join16_def bswap16_def)
  show "fst (udp_bind (bswap16 (le16 ?f 36)) (udp_queues example_net)) \<noteq> None" by (simp add: example_net_ok(2))
qed (simp_all add: IP_PROTO_UDP_def)

end
