(* ===== verification/Khazar_Dns.thy ===== *)
theory Khazar_Dns
  imports Khazar_Net
begin

text \<open>
  The resolver, \<^verbatim>\<open>kernel/net/dns.c\<close>. Other threads run while the resolver waits; \<open>env\<close> is what they
  do to the network state until it is woken (or its time slice comes again). The result \<open>None\<close>
  is a thread that sleeps forever or an access outside a buffer; \<open>stack\<close> are the old contents of
  the response buffer of 1024 bytes.
\<close>

subsection \<open>Queries\<close>

text \<open>The labels of a dotted name; \<open>acc\<close> is the label read so far.\<close>

fun dns_labels :: "string \<Rightarrow> string \<Rightarrow> u8 list" where
  "dns_labels acc [] = []"
| "dns_labels acc (c # r) =
     (if c = CHR ''.'' then of_nat (length acc) # map of_char acc @ dns_labels [] r else dns_labels (acc @ [c]) r)"

definition dns_format_name :: "string \<Rightarrow> u8 list" where
  "dns_format_name host =
     (let src = take 126 host;
          src' = (if src \<noteq> [] \<and> last src \<noteq> CHR ''.'' then src @ ''.'' else src)
      in dns_labels [] src' @ [0])"

definition dns_header :: "u8 list" where
  "dns_header = enc16 (bswap16 0x1234) @ enc16 (bswap16 0x0100) @ enc16 (bswap16 1) @ replicate 6 0"

text \<open>
  The packet: the name is measured with \<^verbatim>\<open>strlen\<close>, so it ends at the first zero byte, and type
  and class are stored right behind it.
\<close>

definition dns_query :: "string \<Rightarrow> u8 list" where
  "dns_query hostname =
     (let name = dns_format_name hostname;
          qname = takeWhile (\<lambda>b. b \<noteq> 0) name @ [0]
      in dns_header @ qname @ [0, 1, 0, 1])"

subsection \<open>Responses\<close>

text \<open>The index of the first zero byte from \<open>i\<close> on.\<close>

definition skip_name :: "u8 list \<Rightarrow> nat \<Rightarrow> nat option" where
  "skip_name b i = find (\<lambda>j. b ! j = 0) [i..<length b]"

definition be16 :: "u8 list \<Rightarrow> nat \<Rightarrow> u16" where "be16 b i = join16 (b ! (i + 1)) (b ! i)"

text \<open>
  One answer at \<open>p\<close>: the index of its fixed part behind the name.
\<close>

definition answer_fields :: "u8 list \<Rightarrow> nat \<Rightarrow> nat option" where
  "answer_fields b p =
     (if p \<ge> length b then None
      else if b ! p AND 0xC0 = 0xC0 then Some (p + 2) else map_option Suc (skip_name b p))"

fun dns_answers :: "nat \<Rightarrow> u8 list \<Rightarrow> nat \<Rightarrow> u32 option option" where
  "dns_answers 0 b p = Some None"
| "dns_answers (Suc n) b p =
     (case answer_fields b p of
        None \<Rightarrow> None
      | Some q \<Rightarrow>
          if length b < q + 10 then None
          else if be16 b q = 1 \<and> be16 b (q + 2) = 1 \<and> be16 b (q + 8) = 4
          then (if length b < q + 14 then None else Some (Some (le32 b (q + 10))))
          else dns_answers n b (q + 10 + unat (be16 b (q + 8))))"

text \<open>
  \<open>resp\<close> is the whole response buffer, of which \<open>received\<close> bytes were received: the code checks
  neither bound while it parses, and an access behind the buffer has the result \<open>None\<close>.
\<close>

definition dns_parse :: "u8 list \<Rightarrow> nat \<Rightarrow> u32 option option" where
  "dns_parse resp received =
     (if received < 12 then Some None
      else let ans_count = bswap16 (le16 resp 6)
           in if ans_count = 0 then Some None
              else case skip_name resp 12 of
                     None \<Rightarrow> None
                   | Some z \<Rightarrow> dns_answers (unat ans_count) resp (z + 5))"

subsection \<open>Resolution\<close>

text \<open>A blocking receive: asleep until \<open>env\<close> has stored a datagram.\<close>

definition udp_recv_wait :: "(net_state \<Rightarrow> net_state) \<Rightarrow> u16 \<Rightarrow> u16 \<Rightarrow> net_state \<Rightarrow> (u8 list \<times> net_state) option" where
  "udp_recv_wait env port maxlen s =
     (case udp_recv port maxlen s of
        (Received b, s1) \<Rightarrow> Some (b, s1)
      | (Blocked i, s1) \<Rightarrow>
          (case udp_recv port maxlen (env s1) of (Received b, s2) \<Rightarrow> Some (b, s2) | (Blocked j, s2) \<Rightarrow> None))"

fun dns_retry :: "nat \<Rightarrow> (net_state \<Rightarrow> net_state) \<Rightarrow> net_state \<Rightarrow> (u8 list \<times> net_state) option" where
  "dns_retry 0 env s = Some ([], s)"
| "dns_retry (Suc n) env s =
     (case udp_recv_wait env 5553 1024 s of
        None \<Rightarrow> None
      | Some (b, s1) \<Rightarrow> if b \<noteq> [] then Some (b, s1) else dns_retry n env (env s1))"

definition local_names :: "(string \<times> u32) list" where
  "local_names = [(''localhost'', 0x0100007F), (''127.0.0.1'', 0x0100007F), (''google.com'', 0x8EFAFA8E),
     (''khazar-os.org'', 0x059070B9)]"

definition dns_resolve ::
    "(net_state \<Rightarrow> net_state) \<Rightarrow> (nat \<Rightarrow> u8) \<Rightarrow> string \<Rightarrow> net_state \<Rightarrow> (u32 option \<times> net_state) option" where
  "dns_resolve env stack hostname s =
     (case map_of local_names hostname of
        Some ip \<Rightarrow> Some (Some ip, s)
      | None \<Rightarrow>
          (case udp_recv_wait env 5553 0 s of
             None \<Rightarrow> None
           | Some (_, s1) \<Rightarrow>
               let packet = dns_query hostname
               in case udp_send 0x08080808 53 packet (of_nat (length packet)) s1 of
                    None \<Rightarrow> None
                  | Some (False, s2) \<Rightarrow> Some (None, s2)
                  | Some (True, s2) \<Rightarrow>
                      (case dns_retry 5 env s2 of
                         None \<Rightarrow> None
                       | Some (b, s3) \<Rightarrow> map_option (\<lambda>r. (r, s3)) (dns_parse (put_frame b (map stack [0..<1024])) (length b)))))"

subsection \<open>Names\<close>

definition label_ok :: "string \<Rightarrow> bool" where
  "label_ok l \<longleftrightarrow> l \<noteq> [] \<and> length l \<le> 63 \<and> CHR ''.'' \<notin> set l \<and> char_of (0 :: nat) \<notin> set l"

definition wire_label :: "string \<Rightarrow> u8 list" where "wire_label l = of_nat (length l) # map of_char l"

fun join_dots :: "string list \<Rightarrow> string" where
  "join_dots [] = []"
| "join_dots [l] = l"
| "join_dots (l # ls) = l @ CHR ''.'' # join_dots ls"

lemma dns_labels_run: "CHR ''.'' \<notin> set l \<Longrightarrow> dns_labels acc (l @ CHR ''.'' # r) =
    of_nat (length (acc @ l)) # map of_char (acc @ l) @ dns_labels [] r"
  by (induction l arbitrary: acc) auto

lemma dns_labels_join:
  assumes "list_all label_ok ls" "ls \<noteq> []"
  shows "dns_labels [] (join_dots ls @ ''.'') = concat (map wire_label ls)"
  using assms
proof (induction ls rule: join_dots.induct)
  case (2 l)
  then show ?case using dns_labels_run [of l "[]" "[]"] by (simp add: label_ok_def wire_label_def)
next
  case (3 l m ms)
  then show ?case using dns_labels_run [of l "[]" "join_dots (m # ms) @ ''.''"] by (simp add: label_ok_def wire_label_def)
qed simp

lemma last_join_dots: "list_all label_ok ls \<Longrightarrow> ls \<noteq> [] \<Longrightarrow> join_dots ls \<noteq> [] \<and> last (join_dots ls) \<noteq> CHR ''.''"
proof (induction ls rule: join_dots.induct)
  case (2 l)
  then have "last l \<in> set l" "CHR ''.'' \<notin> set l" "l \<noteq> []" by (simp_all add: label_ok_def)
  then show ?case by (metis join_dots.simps(2))
qed auto

lemma wire_labels_nonzero: "list_all label_ok ls \<Longrightarrow> 0 \<notin> set (concat (map wire_label ls))"
proof (induction ls)
  case (Cons l ls)
  have "(of_nat (length l) :: u8) \<noteq> 0"
  proof
    assume "(of_nat (length l) :: u8) = 0"
    then have "unat (of_nat (length l) :: u8) = 0" by simp
    then show False using Cons.prems by (simp add: label_ok_def unat_of_nat)
  qed
  moreover have "(0 :: u8) \<notin> set (map of_char l)"
  proof
    assume "(0 :: u8) \<in> set (map of_char l)"
    then obtain c where c: "c \<in> set l" "of_char c = (0 :: u8)" by auto
    then have "of_char c = (0 :: nat)" by (metis unat_of_char_u8 unat_0)
    then have "c = char_of (0 :: nat)" by (metis char_of_char)
    then show False using c Cons.prems by (simp add: label_ok_def)
  qed
  ultimately show ?case using Cons by (auto simp: wire_label_def)
qed simp

lemma dns_format_join:
  assumes "list_all label_ok ls" "ls \<noteq> []" "length (join_dots ls) \<le> 126"
  shows "dns_format_name (join_dots ls) = concat (map wire_label ls) @ [0]"
  using dns_labels_join [OF assms(1,2)] last_join_dots [OF assms(1,2)] assms(3)
  by (simp add: dns_format_name_def Let_def)

text \<open>
  For every host name made of 1 to 63 byte labels separated by dots, up to 126 bytes in all,
  the resolver's query is the header of RFC 1035 for one recursive question, then each label
  behind its length, the root label, and type and class 1: no label is cut or merged by the
  copy, the added dot or the \<^verbatim>\<open>strlen\<close> over the encoded name.
\<close>

theorem dns_query_encodes:
  assumes "list_all label_ok ls" "ls \<noteq> []" "length (join_dots ls) \<le> 126"
  shows "dns_query (join_dots ls) =
    [0x12, 0x34, 1, 0, 0, 1, 0, 0, 0, 0, 0, 0] @ concat (map wire_label ls) @ [0, 0, 1, 0, 1]"
proof -
  have "takeWhile (\<lambda>b. b \<noteq> 0) (concat (map wire_label ls) @ [0]) = concat (map wire_label ls)"
    using wire_labels_nonzero [OF assms(1)] by (subst takeWhile_append2) auto
  moreover have "dns_header = [0x12, 0x34, 1, 0, 0, 1] @ replicate 6 0"
    by (simp add: dns_header_def enc16_def lo8_def hi8_def bswap16_def)
  moreover have "replicate 6 (0 :: u8) = [0, 0, 0, 0, 0, 0]" by (simp add: numeral_eq_Suc)
  ultimately show ?thesis by (simp add: dns_query_def Let_def dns_format_join [OF assms])
qed

theorem dns_query_encodes_witness:
  "dns_query ''pkg.az'' = [0x12, 0x34, 1, 0, 0, 1, 0, 0, 0, 0, 0, 0, 3, 0x70, 0x6B, 0x67, 2, 0x61, 0x7A, 0, 0, 1, 0, 1]"
  using dns_query_encodes [of "[''pkg'', ''az'']"] by (simp add: label_ok_def wire_label_def char_of_def)

subsection \<open>Answers\<close>

text \<open>The resource records a server sends, with names compressed to the question's.\<close>

record resource =
  r_type :: u16
  r_class :: u16
  r_ttl :: u32
  r_data :: "u8 list"

definition net16 :: "u16 \<Rightarrow> u8 list" where "net16 w = [hi8 w, lo8 w]"

definition wire_resource :: "resource \<Rightarrow> u8 list" where
  "wire_resource r = [0xC0, 0x0C] @ net16 (r_type r) @ net16 (r_class r) @ enc32 (r_ttl r) @
     net16 (of_nat (length (r_data r))) @ r_data r"

definition is_address :: "resource \<Rightarrow> bool" where
  "is_address r \<longleftrightarrow> r_type r = 1 \<and> r_class r = 1 \<and> length (r_data r) = 4"

definition wire_response :: "u16 \<Rightarrow> string list \<Rightarrow> resource list \<Rightarrow> u8 list" where
  "wire_response flags ls rs = net16 0x1234 @ net16 flags @ net16 1 @ net16 (of_nat (length rs)) @ replicate 4 0 @
     concat (map wire_label ls) @ [0, 0, 1, 0, 1] @ concat (map wire_resource rs)"

lemma be16_net16: "b = a @ net16 w @ r \<Longrightarrow> i = length a \<Longrightarrow> be16 b i = w"
  by (simp add: be16_def net16_def nth_append join16_bytes)

lemma dns_answers_wire:
  assumes "\<forall>r \<in> set rs. length (r_data r) < 65536"
  shows "dns_answers (length rs) (pre @ concat (map wire_resource rs) @ rest) (length pre) =
    Some (map_option (\<lambda>r. le32 (r_data r) 0) (find is_address rs))"
  using assms
proof (induction rs arbitrary: pre)
  case (Cons r rs)
  define b where "b = pre @ concat (map wire_resource (r # rs)) @ rest"
  define tl where "tl = r_data r @ concat (map wire_resource rs) @ rest"
  define q where "q = length pre + 2"
  let ?n = "of_nat (length (r_data r)) :: u16"
  have b: "b = pre @ [0xC0, 0x0C] @ net16 (r_type r) @ net16 (r_class r) @ enc32 (r_ttl r) @ net16 ?n @ tl"
    by (simp add: b_def wire_resource_def tl_def)
  have lens: "length (net16 w) = 2" "length (enc32 v) = 4" for w v by (simp_all add: net16_def enc32_def)
  have f: "answer_fields b (length pre) = Some q" by (simp add: answer_fields_def b q_def)
  have t: "be16 b q = r_type r"
    by (rule be16_net16 [of _ "pre @ [0xC0, 0x0C]"]) (simp_all add: b q_def)
  have c: "be16 b (q + 2) = r_class r"
    by (rule be16_net16 [of _ "pre @ [0xC0, 0x0C] @ net16 (r_type r)"]) (simp_all add: b q_def lens)
  have n: "be16 b (q + 8) = ?n"
    by (rule be16_net16 [of _ "pre @ [0xC0, 0x0C] @ net16 (r_type r) @ net16 (r_class r) @ enc32 (r_ttl r)"])
       (simp_all add: b q_def lens)
  have un: "unat ?n = length (r_data r)" using Cons.prems by (simp add: unat_of_nat)
  have n4: "?n = 4 \<longleftrightarrow> length (r_data r) = 4"
  proof
    assume "?n = 4"
    then have "unat ?n = unat (4 :: u16)" by (rule arg_cong)
    then show "length (r_data r) = 4" unfolding un by simp
  qed simp
  have len: "length b = q + 10 + length tl" by (simp add: b q_def lens)
  define p' where "p' = pre @ wire_resource r"
  have "b = p' @ concat (map wire_resource rs) @ rest" "length p' = q + 10 + length (r_data r)"
    by (simp_all add: b_def p'_def q_def wire_resource_def lens)
  then have rec: "dns_answers (length rs) b (q + 10 + length (r_data r)) =
      Some (map_option (\<lambda>r. le32 (r_data r) 0) (find is_address rs))"
    using Cons.IH [of p'] Cons.prems by simp
  have ip: "le32 b (q + 10) = le32 (r_data r) 0" if "length (r_data r) = 4"
  proof -
    have "le32 b (q + 10) = le32 tl 0" by (simp add: le32_def b q_def lens nth_append flip: numeral_2_eq_2)
    also have "\<dots> = le32 (r_data r) 0" using that by (simp add: le32_def tl_def nth_append)
    finally show ?thesis .
  qed
  have "dns_answers (Suc (length rs)) b (length pre) = Some (map_option (\<lambda>r. le32 (r_data r) 0) (find is_address (r # rs)))"
    using ip len c [unfolded add_2_eq_Suc'] by (auto simp: f t n n4 un rec is_address_def tl_def)
  then show ?case by (simp only: b_def list.size(4) add_Suc_right add_0_right)
qed simp

lemma skip_name_append: "0 \<notin> set name \<Longrightarrow> skip_name (a @ name @ 0 # r) (length a) = Some (length a + length name)"
  unfolding skip_name_def find_upt_Some_iff by (auto simp: nth_append) (metis add_diff_inverse_nat nat_add_left_cancel_less nth_mem not_less)

text \<open>
  C37. Given the reply of a server that answers the question with any records, each named by a
  pointer back to the question (a chain of aliases before the address, or no address at all),
  the resolver returns the data of the first record of type A and class IN with four bytes, and
  reports failure exactly if there is none; the bytes behind the reply do not matter.
\<close>

theorem dns_parse_first_address:
  assumes "list_all label_ok ls" "\<forall>r \<in> set rs. length (r_data r) < 65536" "length rs < 65536"
  shows "dns_parse (wire_response flags ls rs @ rest) (length (wire_response flags ls rs)) =
    Some (map_option (\<lambda>r. le32 (r_data r) 0) (find is_address rs))"
proof (cases rs)
  case Nil
  then show ?thesis
    by (simp add: dns_parse_def Let_def wire_response_def net16_def le16_def nth_append lo8_def hi8_def join16_def bswap16_def)
next
  case (Cons r0 rs0)
  define hd where "hd = net16 0x1234 @ net16 flags @ net16 1 @ net16 (of_nat (length rs)) @ replicate 4 0"
  define name where "name = concat (map wire_label ls)"
  define tl where "tl = concat (map wire_resource rs) @ rest"
  let ?b = "hd @ name @ 0 # [0, 1, 0, 1] @ tl"
  have hd: "length hd = 12" by (simp add: hd_def net16_def)
  have b: "wire_response flags ls rs @ rest = ?b" "length (wire_response flags ls rs) \<ge> 12"
    by (simp_all add: wire_response_def hd_def name_def tl_def net16_def)
  have "le16 ?b 6 = join16 (hi8 (of_nat (length rs))) (lo8 (of_nat (length rs)))"
    by (simp add: le16_def hd_def net16_def nth_append)
  also have "bswap16 \<dots> = of_nat (length rs)"
    by (rule bit_word_eqI) (auto simp: bswap16_def join16_def lo8_def hi8_def bit_simps)
  finally have cnt: "bswap16 (le16 ?b 6) = of_nat (length rs)" .
  have u: "unat (of_nat (length rs) :: u16) = length rs" using assms(3) by (simp add: unat_of_nat)
  then have nz: "(of_nat (length rs) :: u16) \<noteq> 0" using Cons by (metis length_0_conv list.distinct(1) unat_0)
  have sk: "skip_name ?b 12 = Some (12 + length name)"
    using skip_name_append [of name hd] wire_labels_nonzero [OF assms(1)] by (simp add: hd name_def)
  have ans: "dns_answers (length rs) ?b (12 + length name + 5) = Some (map_option (\<lambda>r. le32 (r_data r) 0) (find is_address rs))"
    using dns_answers_wire [OF assms(2), of "hd @ name @ [0, 0, 1, 0, 1]" rest] by (simp add: hd tl_def add.commute add.left_commute)
  have "dns_parse ?b (length (wire_response flags ls rs)) = dns_answers (length rs) ?b (12 + length name + 5)"
    using b(2) by (simp only: dns_parse_def Let_def cnt sk u nz if_False option.case not_less [symmetric])
  then show ?thesis by (simp only: b(1) ans)
qed

theorem dns_parse_first_address_witness:
  "dns_parse (wire_response 0x8180 [''pkg'', ''az'']
       [\<lparr>r_type = 5, r_class = 1, r_ttl = 60, r_data = [1, 0x62, 0]\<rparr>, \<lparr>r_type = 1, r_class = 1, r_ttl = 60, r_data = [10, 0, 2, 2]\<rparr>] @ [7])
     (length (wire_response 0x8180 [''pkg'', ''az'']
       [\<lparr>r_type = 5, r_class = 1, r_ttl = 60, r_data = [1, 0x62, 0]\<rparr>, \<lparr>r_type = 1, r_class = 1, r_ttl = 60, r_data = [10, 0, 2, 2]\<rparr>]))
   = Some (Some 0x0202000A)"
  by (subst dns_parse_first_address) (simp_all add: label_ok_def is_address_def le32_def join32_def char_of_def)

subsection \<open>A second resolution\<close>

lemma udp_recv_wait_sleeps:
  assumes "udp_slot port (udp_queues s) = Some i" "q_length (udp_queues s ! i) = 0"
    "udp_slot port (udp_queues (env s)) = Some j" "q_length (udp_queues (env s) ! j) = 0"
  shows "udp_recv_wait env port n s = None"
  using assms by (simp add: udp_recv_wait_def udp_recv_def Let_def)

text \<open>
  Once the port 5553 has a queue, the call that is meant to open it waits for a datagram although
  no query has been sent: a resolution of any name that is not built in sleeps as long as nobody
  else sends to the port.
\<close>

lemma dns_second_resolve_sleeps:
  assumes "map_of local_names host = None"
    "udp_slot 5553 (udp_queues s) = Some i" "q_length (udp_queues s ! i) = 0"
    "udp_slot 5553 (udp_queues (env s)) = Some j" "q_length (udp_queues (env s) ! j) = 0"
  shows "dns_resolve env stack host s = None"
  using assms udp_recv_wait_sleeps by (simp add: dns_resolve_def)

end
