(* ===== verification/Khazar_Pmm.thy ===== *)
theory Khazar_Pmm
  imports Khazar_Prelude
begin

text \<open>
  The physical memory manager, \<^verbatim>\<open>kernel/mm/allocator/pmm.c\<close>: a bitmap with one bit for
  each 4 KB block (1 = in use), the block count and a counter of the blocks in use.
\<close>

subsection \<open>State and bit helpers\<close>

definition PMM_BLOCK_SIZE :: u32 where "PMM_BLOCK_SIZE = 4096"

definition PMM_BLOCKS_PER_BYTE :: u32 where "PMM_BLOCKS_PER_BYTE = 8"

text \<open>
  \<open>pmm_bitmap s i\<close> is \<^verbatim>\<open>pmm_bitmap[i]\<close>, the \<open>i\<close>-th 32-bit word of the memory from the
  bitmap's address on. The C code has no bounds check on this index, so the field is a
  total function: a write past the bitmap changes the word that lies there.
\<close>

record pmm_state =
  pmm_bitmap :: "nat \<Rightarrow> u32"
  pmm_bitmap_addr :: addr
  pmm_max_blocks :: u32
  pmm_used_blocks :: u32

definition bitmap_set :: "u32 \<Rightarrow> pmm_state \<Rightarrow> pmm_state" where
  "bitmap_set b s =
     (let i = unat (b div 32)
      in s\<lparr>pmm_bitmap := (pmm_bitmap s)(i := pmm_bitmap s i OR push_bit (unat (b mod 32)) 1)\<rparr>)"

definition bitmap_unset :: "u32 \<Rightarrow> pmm_state \<Rightarrow> pmm_state" where
  "bitmap_unset b s =
     (let i = unat (b div 32)
      in s\<lparr>pmm_bitmap :=
             (pmm_bitmap s)(i := pmm_bitmap s i AND NOT (push_bit (unat (b mod 32)) 1))\<rparr>)"

text \<open>
  The C function returns \<^verbatim>\<open>bool\<close>, which \<^verbatim>\<open>types.h\<close> declares as \<^verbatim>\<open>uint8_t\<close>: the 32-bit
  conjunction is truncated to its low 8 bits.
\<close>

definition bitmap_test :: "u32 \<Rightarrow> pmm_state \<Rightarrow> u8" where
  "bitmap_test b s =
     ucast (pmm_bitmap s (unat (b div 32)) AND push_bit (unat (b mod 32)) 1)"

text \<open>The inner loop over the 32 bits of one word, and the outer loop over the words.\<close>

definition word_free_bit :: "u32 \<Rightarrow> nat option" where
  "word_free_bit w = find (\<lambda>j. w AND push_bit j 1 = 0) [0..<32]"

fun bitmap_scan :: "(nat \<Rightarrow> u32) \<Rightarrow> nat list \<Rightarrow> u32" where
  "bitmap_scan bm [] = - 1"
| "bitmap_scan bm (i # is) =
     (if bm i \<noteq> 0xFFFFFFFF
      then (case word_free_bit (bm i) of
              Some j \<Rightarrow> of_nat (i * 32 + j)
            | None \<Rightarrow> bitmap_scan bm is)
      else bitmap_scan bm is)"

definition bitmap_find_first_free :: "pmm_state \<Rightarrow> u32" where
  "bitmap_find_first_free s = bitmap_scan (pmm_bitmap s) [0..<unat (pmm_max_blocks s div 32)]"

subsection \<open>Operations\<close>

text \<open>
  \<^verbatim>\<open>memset(pmm_bitmap, 0xFF, n)\<close> on the words of the bitmap: the words that lie wholly in
  the first \<open>n\<close> bytes become all ones, a partial last word has its low bytes set.
\<close>

definition bitmap_memset_FF :: "(nat \<Rightarrow> u32) \<Rightarrow> nat \<Rightarrow> nat \<Rightarrow> u32" where
  "bitmap_memset_FF bm n i =
     (if 4 * i + 4 \<le> n then 0xFFFFFFFF
      else if 4 * i < n then bm i OR mask (8 * (n - 4 * i)) else bm i)"

text \<open>\<open>raw\<close> is the memory found at the bitmap's address when the manager starts.\<close>

definition pmm_init :: "u32 \<Rightarrow> addr \<Rightarrow> (nat \<Rightarrow> u32) \<Rightarrow> pmm_state" where
  "pmm_init mem_size bitmap_addr raw =
     (let mx = mem_size div PMM_BLOCK_SIZE
      in \<lparr>pmm_bitmap = bitmap_memset_FF raw (unat (mx div PMM_BLOCKS_PER_BYTE)),
          pmm_bitmap_addr = bitmap_addr, pmm_max_blocks = mx, pmm_used_blocks = mx\<rparr>)"

text \<open>The countdown loop \<^verbatim>\<open>for (; blocks > 0; blocks--)\<close> of the two region operations.\<close>

fun free_blocks_loop :: "nat \<Rightarrow> u32 \<Rightarrow> pmm_state \<Rightarrow> pmm_state" where
  "free_blocks_loop 0 a s = s"
| "free_blocks_loop (Suc n) a s =
     (let s1 = bitmap_unset a s
      in free_blocks_loop n (a + 1) (s1\<lparr>pmm_used_blocks := pmm_used_blocks s1 - 1\<rparr>))"

fun use_blocks_loop :: "nat \<Rightarrow> u32 \<Rightarrow> pmm_state \<Rightarrow> pmm_state" where
  "use_blocks_loop 0 a s = s"
| "use_blocks_loop (Suc n) a s =
     (let s1 = bitmap_set a s
      in use_blocks_loop n (a + 1) (s1\<lparr>pmm_used_blocks := pmm_used_blocks s1 + 1\<rparr>))"

definition pmm_init_region :: "u32 \<Rightarrow> u32 \<Rightarrow> pmm_state \<Rightarrow> pmm_state" where
  "pmm_init_region base sz s =
     bitmap_set 0
       (free_blocks_loop (unat (sz div PMM_BLOCK_SIZE)) (base div PMM_BLOCK_SIZE) s)"

definition pmm_deinit_region :: "u32 \<Rightarrow> u32 \<Rightarrow> pmm_state \<Rightarrow> pmm_state" where
  "pmm_deinit_region base sz s =
     use_blocks_loop (unat (sz div PMM_BLOCK_SIZE)) (base div PMM_BLOCK_SIZE) s"

text \<open>The returned address is 0 (\<^verbatim>\<open>NULL\<close>) when no block is free.\<close>

definition pmm_alloc_block :: "pmm_state \<Rightarrow> addr \<times> pmm_state" where
  "pmm_alloc_block s =
     (let f = bitmap_find_first_free s
      in if f = - 1 then (0, s)
         else let s1 = bitmap_set f s
              in (f * PMM_BLOCK_SIZE, s1\<lparr>pmm_used_blocks := pmm_used_blocks s1 + 1\<rparr>))"

definition pmm_free_block :: "addr \<Rightarrow> pmm_state \<Rightarrow> pmm_state" where
  "pmm_free_block p s =
     (let s1 = bitmap_unset (p div PMM_BLOCK_SIZE) s
      in s1\<lparr>pmm_used_blocks := pmm_used_blocks s1 - 1\<rparr>)"

definition pmm_get_block_count :: "pmm_state \<Rightarrow> u32" where
  "pmm_get_block_count s = pmm_max_blocks s"

definition pmm_get_free_block_count :: "pmm_state \<Rightarrow> u32" where
  "pmm_get_free_block_count s = pmm_max_blocks s - pmm_used_blocks s"

subsection \<open>What the bitmap says\<close>

text \<open>Block \<open>k\<close> is in use iff bit \<open>k mod 32\<close> of word \<open>k div 32\<close> is set.\<close>

definition block_used :: "pmm_state \<Rightarrow> nat \<Rightarrow> bool" where
  "block_used s k = bit (pmm_bitmap s (k div 32)) (k mod 32)"

lemma block_index_eq: "(k div 32 = m div 32 \<and> k mod 32 = m mod (32 :: nat)) \<longleftrightarrow> k = m"
  by (metis mod_div_mult_eq)

lemma unat_div_32 [simp]: "unat (b div (32 :: u32)) = unat b div 32"
  by (simp add: unat_div)

lemma unat_mod_32 [simp]: "unat (b mod (32 :: u32)) = unat b mod 32"
  by (simp add: unat_mod)

lemma block_used_bitmap_set [simp]:
  "block_used (bitmap_set b s) k \<longleftrightarrow> block_used s k \<or> k = unat b"
  using block_index_eq [of k "unat b"]
  by (auto simp: block_used_def bitmap_set_def Let_def kz_bits)

lemma block_used_bitmap_unset [simp]:
  "block_used (bitmap_unset b s) k \<longleftrightarrow> block_used s k \<and> k \<noteq> unat b"
  using block_index_eq [of k "unat b"]
  by (auto simp: block_used_def bitmap_unset_def Let_def kz_bits)

lemma bitmap_set_frame [simp, kz_frame]:
  "pmm_max_blocks (bitmap_set b s) = pmm_max_blocks s"
  "pmm_used_blocks (bitmap_set b s) = pmm_used_blocks s"
  by (simp_all add: bitmap_set_def Let_def)

lemma bitmap_unset_frame [simp, kz_frame]:
  "pmm_max_blocks (bitmap_unset b s) = pmm_max_blocks s"
  "pmm_used_blocks (bitmap_unset b s) = pmm_used_blocks s"
  by (simp_all add: bitmap_unset_def Let_def)

lemma block_used_update_count [simp]: "block_used (s\<lparr>pmm_used_blocks := n\<rparr>) k = block_used s k"
  by (simp add: block_used_def)

subsection \<open>The first-free search\<close>

lemma word_free_bit_Some:
  "word_free_bit w = Some j \<Longrightarrow> j < 32 \<and> \<not> bit w j \<and> (\<forall>i<j. bit w i)"
  by (auto simp: word_free_bit_def find_upt_Some_iff kz_bits)

lemma word_free_bit_None: "word_free_bit w = None \<longleftrightarrow> w = 0xFFFFFFFF"
  using word_eq_all_ones_iff [of w]
  by (simp add: word_free_bit_def find_upt_None_iff kz_bits max_u32 del: word_neg_numeral_alt)

definition bm_used :: "(nat \<Rightarrow> u32) \<Rightarrow> nat \<Rightarrow> bool" where
  "bm_used bm k = bit (bm (k div 32)) (k mod 32)"

lemma block_used_bm: "block_used s = bm_used (pmm_bitmap s)"
  by (simp add: fun_eq_iff block_used_def bm_used_def)

text \<open>Blocks below the cursor of the scan are all in use: the loop invariant, upwards.\<close>

lemma bitmap_scan_spec:
  assumes "m \<le> n" "n * 32 < 2 ^ 32" "\<forall>k < m * 32. bm_used bm k"
  shows "(bitmap_scan bm [m..<n] = - 1 \<and> (\<forall>k < n * 32. bm_used bm k)) \<or>
    (\<exists>k < n * 32. bitmap_scan bm [m..<n] = of_nat k \<and> \<not> bm_used bm k \<and> (\<forall>l < k. bm_used bm l))"
  using assms
proof (induction "n - m" arbitrary: m)
  case 0
  then show ?case by auto
next
  case (Suc d)
  then have mn: "m < n" by simp
  then have up: "[m..<n] = m # [Suc m..<n]" by (simp add: upt_conv_Cons)
  have below: "bm_used bm l" if "l < m * 32 + j" "\<forall>i<j. bit (bm m) i" "j \<le> 32" for l j
  proof (cases "l < m * 32")
    case True then show ?thesis using Suc.prems by simp
  next
    case False
    then obtain i where i: "l = m * 32 + i" using le_Suc_ex [of "m * 32" l] by auto
    then have "l div 32 = m" "l mod 32 < j" using that by auto
    then show ?thesis using that by (simp add: bm_used_def)
  qed
  show ?case
  proof (cases "word_free_bit (bm m)")
    case (Some j)
    then have j: "j < 32" "\<not> bit (bm m) j" "\<forall>i<j. bit (bm m) i"
      using word_free_bit_Some by blast+
    then have ne: "bm m \<noteq> 0xFFFFFFFF" using word_free_bit_None Some by (metis option.distinct(1))
    have "\<not> bm_used bm (m * 32 + j)" using j by (simp add: bm_used_def)
    moreover have "\<forall>l < m * 32 + j. bm_used bm l" using below j by auto
    moreover have "m * 32 + j < n * 32" using mn j by linarith
    ultimately show ?thesis using up ne Some by auto
  next
    case None
    then have ones: "bm m = 0xFFFFFFFF" by (simp add: word_free_bit_None)
    then have "\<forall>i<32. bit (bm m) i" using word_eq_all_ones_iff [of "bm m"] by simp
    then have "\<forall>k < Suc m * 32. bm_used bm k" using below [of _ 32] by auto
    then show ?thesis using Suc.hyps(1) [of "Suc m"] Suc.hyps(2) Suc.prems mn up ones by auto
  qed
qed

lemma bitmap_find_first_free_spec:
  fixes s
  defines "n \<equiv> 32 * (unat (pmm_max_blocks s) div 32)"
  shows "(bitmap_find_first_free s = - 1 \<and> (\<forall>k < n. block_used s k)) \<or>
    (\<exists>k < n. bitmap_find_first_free s = of_nat k \<and> \<not> block_used s k \<and> (\<forall>l < k. block_used s l))"
proof -
  have "unat (pmm_max_blocks s) div 32 * 32 < 2 ^ 32"
    using unat_u32_bound [of "pmm_max_blocks s"] by simp
  then show ?thesis
    using bitmap_scan_spec [of 0 "unat (pmm_max_blocks s) div 32" "pmm_bitmap s"]
    unfolding n_def bitmap_find_first_free_def block_used_bm by (simp add: mult.commute)
qed

subsection \<open>The frame-allocator interface\<close>

text \<open>
  What the paging code and the drivers rely on. \<open>frames s\<close> is the set of block addresses
  that are not to be handed out.
\<close>

fun alloc_seq :: "('s \<Rightarrow> addr \<times> 's) \<Rightarrow> nat \<Rightarrow> 's \<Rightarrow> addr list \<times> 's" where
  "alloc_seq alloc 0 s = ([], s)"
| "alloc_seq alloc (Suc n) s =
     (let (a, s1) = alloc s; (as, s2) = alloc_seq alloc n s1 in (a # as, s2))"

locale frame_allocator =
  fixes alloc :: "'s \<Rightarrow> addr \<times> 's"
    and free :: "addr \<Rightarrow> 's \<Rightarrow> 's"
    and frames :: "'s \<Rightarrow> addr set"
    and inv :: "'s \<Rightarrow> bool"
  assumes alloc_null: "\<lbrakk>inv s; alloc s = (0, s')\<rbrakk> \<Longrightarrow> s' = s"
    and alloc_fresh: "\<lbrakk>inv s; alloc s = (a, s'); a \<noteq> 0\<rbrakk> \<Longrightarrow> a \<notin> frames s"
    and alloc_frames: "\<lbrakk>inv s; alloc s = (a, s'); a \<noteq> 0\<rbrakk> \<Longrightarrow> frames s' = insert a (frames s)"
    and alloc_aligned: "\<lbrakk>inv s; alloc s = (a, s'); a \<noteq> 0\<rbrakk> \<Longrightarrow> a AND 0xFFF = 0"
    and alloc_inv: "\<lbrakk>inv s; alloc s = (a, s')\<rbrakk> \<Longrightarrow> inv s'"
    and free_frames: "\<lbrakk>inv s; a \<in> frames s; a \<noteq> 0\<rbrakk> \<Longrightarrow> frames (free a s) = frames s - {a}"
    and free_inv: "\<lbrakk>inv s; a \<in> frames s; a \<noteq> 0\<rbrakk> \<Longrightarrow> inv (free a s)"
begin

lemma alloc_seq_distinct:
  "\<lbrakk>inv s; alloc_seq alloc n s = (as, s'); 0 \<notin> set as\<rbrakk> \<Longrightarrow>
     inv s' \<and> distinct as \<and> set as \<inter> frames s = {} \<and> frames s' = set as \<union> frames s \<and> length as = n \<and>
     (\<forall>a \<in> set as. a AND 0xFFF = 0)"
proof (induction n arbitrary: s as)
  case 0
  then show ?case by simp
next
  case (Suc n)
  obtain a s1 where a: "alloc s = (a, s1)" by fastforce
  obtain bs where bs: "alloc_seq alloc n s1 = (bs, s')" "as = a # bs"
    using Suc.prems(2) a by (auto split: prod.splits)
  have nz: "a \<noteq> 0" "0 \<notin> set bs" using Suc.prems(3) bs by auto
  have "inv s1" using alloc_inv Suc.prems(1) a by blast
  then have IH: "inv s' \<and> distinct bs \<and> set bs \<inter> frames s1 = {} \<and> frames s' = set bs \<union> frames s1 \<and> length bs = n \<and>
      (\<forall>a \<in> set bs. a AND 0xFFF = 0)"
    using Suc.IH bs nz by blast
  have "frames s1 = insert a (frames s)" "a \<notin> frames s" "a AND 0xFFF = 0"
    using alloc_frames alloc_fresh alloc_aligned Suc.prems(1) a nz by blast+
  then show ?case using IH bs by auto
qed

lemma alloc_free_frames:
  "\<lbrakk>inv s; alloc s = (a, s'); a \<noteq> 0\<rbrakk> \<Longrightarrow> frames (free a s') = frames s \<and> inv (free a s')"
  using alloc_frames [of s a s'] alloc_fresh [of s a s'] alloc_inv [of s a s']
    free_frames [of s' a] free_inv [of s' a] by auto

end

subsection \<open>The bitmap implements it\<close>

definition pmm_frames :: "pmm_state \<Rightarrow> addr set" where
  "pmm_frames s = {of_nat (k * 4096) | k. k < 2 ^ 20 \<and> block_used s k}"

text \<open>Block 0 is never handed out, and block numbers times 4096 stay below 4 GB.\<close>

definition pmm_inv :: "pmm_state \<Rightarrow> bool" where
  "pmm_inv s \<longleftrightarrow> block_used s 0 \<and> unat (pmm_max_blocks s) < 2 ^ 20"

lemma block_addr_inj:
  "\<lbrakk>of_nat (k * 4096) = (of_nat (l * 4096) :: u32); k < 2 ^ 20; l < 2 ^ 20\<rbrakk> \<Longrightarrow> k = l"
  using of_nat_word_inj [of "k * 4096" "l * 4096", where 'a = 32] by simp

lemma block_addr_div: "k < 2 ^ 20 \<Longrightarrow> (of_nat (k * 4096) :: u32) div 4096 = of_nat k"
  by (simp add: word_unat_eq_iff unat_div unat_of_nat_less del: of_nat_mult)

lemma pmm_alloc_block_cases [consumes 1]:
  assumes "pmm_inv s"
  obtains (full) "pmm_alloc_block s = (0, s)"
      "\<forall>k < 32 * (unat (pmm_max_blocks s) div 32). block_used s k"
    | (ok) k where "0 < k" "k < 32 * (unat (pmm_max_blocks s) div 32)" "k < 2 ^ 20"
      "k < unat (pmm_max_blocks s)" "\<not> block_used s k" "\<forall>l < k. block_used s l"
      "pmm_alloc_block s =
        (of_nat (k * 4096), (bitmap_set (of_nat k) s)\<lparr>pmm_used_blocks := pmm_used_blocks s + 1\<rparr>)"
proof -
  let ?n = "32 * (unat (pmm_max_blocks s) div 32)"
  have mx: "?n \<le> unat (pmm_max_blocks s)" "unat (pmm_max_blocks s) < 2 ^ 20"
    using assms by (simp_all add: pmm_inv_def)
  consider (f) "bitmap_find_first_free s = - 1" "\<forall>k < ?n. block_used s k"
    | (g) k where "k < ?n" "bitmap_find_first_free s = of_nat k" "\<not> block_used s k" "\<forall>l < k. block_used s l"
    using bitmap_find_first_free_spec [of s] by blast
  then show ?thesis
  proof cases
    case f
    then show ?thesis using full by (simp add: pmm_alloc_block_def)
  next
    case g
    have "k \<noteq> 0" using assms g(3) by (metis pmm_inv_def)
    moreover have "of_nat k \<noteq> (- 1 :: u32)"
    proof
      assume "of_nat k = (- 1 :: u32)"
      then have "of_nat k = (of_nat 4294967295 :: u32)" by simp
      then have "k = 4294967295" by (rule of_nat_word_inj) (use g(1) mx in auto)
      then show False using g(1) mx by simp
    qed
    ultimately show ?thesis
      using ok [of k] g mx by (simp add: pmm_alloc_block_def PMM_BLOCK_SIZE_def Let_def)
  qed
qed

lemma pmm_frames_bitmap_set:
  "k < 2 ^ 20 \<Longrightarrow> pmm_frames ((bitmap_set (of_nat k) s)\<lparr>pmm_used_blocks := n\<rparr>) = insert (of_nat (k * 4096)) (pmm_frames s)"
  by (auto simp: pmm_frames_def unat_of_nat_less simp del: of_nat_mult)

lemma pmm_frames_free_block:
  assumes "k < 2 ^ 20"
  shows "pmm_frames (pmm_free_block (of_nat (k * 4096)) s) = pmm_frames s - {of_nat (k * 4096)}"
proof -
  have "block_used (pmm_free_block (of_nat (k * 4096)) s) l \<longleftrightarrow> block_used s l \<and> l \<noteq> k" for l
    using assms block_addr_div [OF assms]
    by (simp add: pmm_free_block_def Let_def PMM_BLOCK_SIZE_def unat_of_nat_less del: of_nat_mult)
  then show ?thesis
    using assms block_addr_inj [of _ k] by (auto simp: pmm_frames_def simp del: of_nat_mult)
qed

lemma pmm_free_block_aligned:
  assumes "a AND 0xFFF = 0"
  shows "pmm_frames (pmm_free_block a s) = pmm_frames s - {a}"
proof -
  have "unat a div 4096 * 4096 = unat a" using assms by (simp add: page_aligned_iff)
  then have "a = of_nat (unat a div 4096 * 4096)" by simp
  then show ?thesis using pmm_frames_free_block [of "unat a div 4096" s] unat_u32_bound [of a] by simp
qed

lemma pmm_inv_bitmap_set:
  "pmm_inv s \<Longrightarrow> pmm_inv ((bitmap_set b s)\<lparr>pmm_used_blocks := n\<rparr>)"
  by (simp add: pmm_inv_def)

interpretation pmm: frame_allocator pmm_alloc_block pmm_free_block pmm_frames pmm_inv
proof (unfold_locales, goal_cases)
  case (1 s s')
  from 1(1) show ?case
  proof (cases rule: pmm_alloc_block_cases)
    case full then show ?thesis using 1 by simp
  next
    case (ok k) then show ?thesis using 1 block_addr_inj [of k 0] by (auto simp del: of_nat_mult)
  qed
next
  case (2 s a s')
  from 2(1) show ?case
  proof (cases rule: pmm_alloc_block_cases)
    case full then show ?thesis using 2 by simp
  next
    case (ok k) then show ?thesis using 2 block_addr_inj [of k] by (auto simp: pmm_frames_def simp del: of_nat_mult)
  qed
next
  case (3 s a s')
  from 3(1) show ?case
  proof (cases rule: pmm_alloc_block_cases)
    case full then show ?thesis using 3 by simp
  next
    case (ok k) then show ?thesis using 3 pmm_frames_bitmap_set by auto
  qed
next
  case (4 s a s')
  from 4(1) show ?case
  proof (cases rule: pmm_alloc_block_cases)
    case full then show ?thesis using 4 by simp
  next
    case (ok k) then show ?thesis using 4 by (auto simp: page_aligned_iff unat_of_nat_less simp del: of_nat_mult)
  qed
next
  case (5 s a s')
  from 5(1) show ?case
    by (cases rule: pmm_alloc_block_cases) (use 5 in \<open>auto simp: pmm_inv_def\<close>)
next
  case (6 s a)
  then obtain k where "k < 2 ^ 20" "a = of_nat (k * 4096)" by (auto simp: pmm_frames_def)
  then show ?case using pmm_frames_free_block by simp
next
  case (7 s a)
  then obtain k where k: "k < 2 ^ 20" "a = of_nat (k * 4096)" by (auto simp: pmm_frames_def)
  then have "k \<noteq> 0" using 7(3) by (cases k) auto
  then show ?case using 7(1) k block_addr_div [OF k(1)]
    by (simp add: pmm_inv_def pmm_free_block_def Let_def PMM_BLOCK_SIZE_def unat_of_nat_less del: of_nat_mult)
qed

subsection \<open>Regions and the used-block counter\<close>

lemma unat_page_number: "unat (x div PMM_BLOCK_SIZE) = unat x div 4096"
  by (simp add: PMM_BLOCK_SIZE_def unat_div)

lemma page_number_bound: "unat (x :: u32) div 4096 < 2 ^ 20"
  using unat_u32_bound [of x] by simp

lemma free_blocks_loop_spec:
  "unat a + n < 2 ^ 32 \<Longrightarrow>
     (block_used (free_blocks_loop n a s) k \<longleftrightarrow> block_used s k \<and> \<not> (unat a \<le> k \<and> k < unat a + n)) \<and>
     pmm_max_blocks (free_blocks_loop n a s) = pmm_max_blocks s \<and>
     pmm_used_blocks (free_blocks_loop n a s) = pmm_used_blocks s - of_nat n"
proof (induction n arbitrary: a s)
  case (Suc n)
  have "unat (a + 1) = Suc (unat a)" using Suc.prems unat_plus_no_wrap [of a 1] by simp
  then show ?case using Suc by (auto simp: Let_def algebra_simps)
qed simp

lemma use_blocks_loop_spec:
  "unat a + n < 2 ^ 32 \<Longrightarrow>
     (block_used (use_blocks_loop n a s) k \<longleftrightarrow> block_used s k \<or> (unat a \<le> k \<and> k < unat a + n)) \<and>
     pmm_max_blocks (use_blocks_loop n a s) = pmm_max_blocks s \<and>
     pmm_used_blocks (use_blocks_loop n a s) = pmm_used_blocks s + of_nat n"
proof (induction n arbitrary: a s)
  case (Suc n)
  have "unat (a + 1) = Suc (unat a)" using Suc.prems unat_plus_no_wrap [of a 1] by simp
  then show ?case using Suc by (auto simp: Let_def algebra_simps)
qed auto

definition region_blocks :: "u32 \<Rightarrow> u32 \<Rightarrow> nat set" where
  "region_blocks base sz = {unat base div 4096 ..< unat base div 4096 + unat sz div 4096}"

lemma region_no_wrap: "unat (base div PMM_BLOCK_SIZE) + unat (sz div PMM_BLOCK_SIZE) < 2 ^ 32"
  using page_number_bound [of base] page_number_bound [of sz] by (simp add: unat_page_number)

lemma pmm_init_region_used:
  "block_used (pmm_init_region base sz s) k \<longleftrightarrow> k = 0 \<or> block_used s k \<and> k \<notin> region_blocks base sz"
  using free_blocks_loop_spec [OF region_no_wrap [of base sz], of s k]
  by (auto simp: pmm_init_region_def region_blocks_def unat_page_number)

lemma pmm_deinit_region_used:
  "block_used (pmm_deinit_region base sz s) k \<longleftrightarrow> block_used s k \<or> k \<in> region_blocks base sz"
  using use_blocks_loop_spec [OF region_no_wrap [of base sz], of s k]
  by (auto simp: pmm_deinit_region_def region_blocks_def unat_page_number)

lemma pmm_deinit_region_counter:
  "pmm_used_blocks (pmm_deinit_region base sz s) = pmm_used_blocks s + of_nat (unat sz div 4096)"
  "pmm_max_blocks (pmm_deinit_region base sz s) = pmm_max_blocks s"
  using use_blocks_loop_spec [OF region_no_wrap [of base sz], of s]
  by (auto simp: pmm_deinit_region_def unat_page_number)

text \<open>The counter agrees with the bitmap: as many blocks below the limit are in use.\<close>

definition used_set :: "pmm_state \<Rightarrow> nat set" where
  "used_set s = {k. k < unat (pmm_max_blocks s) \<and> block_used s k}"

definition pmm_accounted :: "pmm_state \<Rightarrow> bool" where
  "pmm_accounted s \<longleftrightarrow> pmm_used_blocks s = of_nat (card (used_set s))"

lemma finite_used_set [simp]: "finite (used_set s)"
  by (simp add: used_set_def)

lemma pmm_alloc_accounted:
  assumes "pmm_inv s" "pmm_accounted s"
  shows "pmm_accounted (snd (pmm_alloc_block s))"
  using assms(1)
proof (cases rule: pmm_alloc_block_cases)
  case full
  then show ?thesis using assms by simp
next
  case (ok k)
  have "used_set (snd (pmm_alloc_block s)) = insert k (used_set s)"
    using ok by (auto simp: used_set_def unat_of_nat_less)
  moreover have "k \<notin> used_set s" using ok by (simp add: used_set_def)
  ultimately show ?thesis using assms(2) ok by (simp add: pmm_accounted_def)
qed

lemma pmm_free_accounted:
  assumes "pmm_accounted s" "unat p div 4096 < unat (pmm_max_blocks s)" "block_used s (unat p div 4096)"
  shows "pmm_accounted (pmm_free_block p s)"
proof -
  let ?k = "unat p div 4096"
  have "used_set (pmm_free_block p s) = used_set s - {?k}"
    by (auto simp: used_set_def pmm_free_block_def Let_def unat_page_number)
  moreover have k: "?k \<in> used_set s" using assms by (simp add: used_set_def)
  ultimately have "card (used_set s) = Suc (card (used_set (pmm_free_block p s)))"
    using card_Suc_Diff1 [OF finite_used_set k] by simp
  moreover have "pmm_used_blocks (pmm_free_block p s) = pmm_used_blocks s - 1"
    by (simp add: pmm_free_block_def Let_def)
  ultimately show ?thesis
    using assms(1) unfolding pmm_accounted_def by simp
qed

lemma bitmap_memset_FF_used:
  "4 dvd n \<Longrightarrow> k < 8 * n \<Longrightarrow> bm_used (bitmap_memset_FF bm n) k"
  by (auto simp: bm_used_def bitmap_memset_FF_def max_u32 elim!: dvdE)

text \<open>Every block the scan covers is in use; a last partial word is never scanned.\<close>

definition pmm_full :: "pmm_state \<Rightarrow> bool" where
  "pmm_full s \<longleftrightarrow> (\<forall>k < 32 * (unat (pmm_max_blocks s) div 32). block_used s k)"

lemma pmm_alloc_null_full:
  assumes "pmm_inv s" "fst (pmm_alloc_block s) = 0"
  shows "pmm_full s"
  using assms(1)
proof (cases rule: pmm_alloc_block_cases)
  case full
  then show ?thesis by (simp add: pmm_full_def)
next
  case (ok k)
  then show ?thesis using assms(2) block_addr_inj [of k 0] by (auto simp del: of_nat_mult)
qed

text \<open>
  Giving a region back counts its blocks as used whether or not they were free before, so
  the counter stays exact precisely when no block of the region was in use.
\<close>

lemma used_set_deinit:
  assumes "region_blocks base sz \<subseteq> {..< unat (pmm_max_blocks s)}"
  shows "used_set (pmm_deinit_region base sz s) = used_set s \<union> region_blocks base sz"
  using assms by (auto simp: used_set_def pmm_deinit_region_used pmm_deinit_region_counter)

lemma card_region_blocks [simp]: "card (region_blocks base sz) = unat sz div 4096"
  by (simp add: region_blocks_def)

lemma finite_region_blocks [simp]: "finite (region_blocks base sz)"
  by (simp add: region_blocks_def)

lemma card_used_set_less: "card (used_set s) < 2 ^ 32"
proof -
  have "card (used_set s) \<le> card {..< unat (pmm_max_blocks s)}"
    by (rule card_mono) (auto simp: used_set_def)
  then show ?thesis using unat_u32_bound [of "pmm_max_blocks s"] by simp
qed

text \<open>
  C11. The physical allocator never hands a block out twice: any number of successive
  \<^verbatim>\<open>pmm_alloc_block\<close> calls that all succeed return pairwise different, 4 KB aligned blocks,
  none of which was in use before, and afterwards exactly these blocks are in use in
  addition to the old ones.
\<close>

theorem pmm_alloc_seq_fresh:
  assumes "pmm_inv s" "alloc_seq pmm_alloc_block n s = (as, s')" "0 \<notin> set as"
  shows "pmm_inv s' \<and> length as = n \<and> distinct as \<and> (\<forall>a \<in> set as. a AND 0xFFF = 0) \<and>
    set as \<inter> pmm_frames s = {} \<and> pmm_frames s' = set as \<union> pmm_frames s"
  using pmm.alloc_seq_distinct [OF assms] by blast

text \<open>A machine with 64 blocks of which the first of each 32 is in use.\<close>

definition pmm_example :: pmm_state where
  "pmm_example = \<lparr>pmm_bitmap = (\<lambda>_. 1), pmm_bitmap_addr = 0xC0100000, pmm_max_blocks = 64,
     pmm_used_blocks = 2\<rparr>"

lemma pmm_inv_example [simp]: "pmm_inv pmm_example"
  by (simp add: pmm_inv_def pmm_example_def block_used_def)

lemma pmm_example_find: "bitmap_find_first_free pmm_example = 1"
  "bitmap_find_first_free (snd (pmm_alloc_block pmm_example)) = 2"
  by (simp_all add: bitmap_find_first_free_def pmm_alloc_block_def pmm_example_def word_free_bit_def
      bitmap_set_def Let_def upt_conv_Cons)

lemma pmm_example_alloc:
  "fst (pmm_alloc_block pmm_example) = 0x1000"
  "fst (alloc_seq pmm_alloc_block 2 pmm_example) = [0x1000, 0x2000]"
proof -
  show "fst (pmm_alloc_block pmm_example) = 0x1000"
    by (simp add: pmm_alloc_block_def pmm_example_find Let_def PMM_BLOCK_SIZE_def)
  moreover have "fst (pmm_alloc_block (snd (pmm_alloc_block pmm_example))) = 0x2000"
    using pmm_example_find(2)
    by (simp add: pmm_alloc_block_def [of "snd _"] Let_def PMM_BLOCK_SIZE_def)
  ultimately show "fst (alloc_seq pmm_alloc_block 2 pmm_example) = [0x1000, 0x2000]"
    by (simp add: numeral_2_eq_2 split_beta)
qed

theorem pmm_alloc_seq_fresh_witness:
  "distinct (fst (alloc_seq pmm_alloc_block 2 pmm_example)) \<and>
   pmm_frames (snd (alloc_seq pmm_alloc_block 2 pmm_example)) = {0x1000, 0x2000} \<union> pmm_frames pmm_example"
  using pmm_alloc_seq_fresh [OF pmm_inv_example prod.collapse [symmetric], of 2] pmm_example_alloc by simp

text \<open>
  \<^verbatim>\<open>pmm_alloc_block\<close> is first fit on both branches: it returns NULL and leaves the manager
  alone exactly when every block the scan covers is in use, and otherwise returns the lowest
  free block, marks only that block and counts it; the counter stays exact.
\<close>

theorem pmm_alloc_block_first_fit:
  assumes "pmm_inv s"
  shows "pmm_alloc_block s =
      (if pmm_full s then (0, s)
       else (of_nat ((LEAST k. \<not> block_used s k) * 4096),
             (bitmap_set (of_nat (LEAST k. \<not> block_used s k)) s)\<lparr>pmm_used_blocks := pmm_used_blocks s + 1\<rparr>)) \<and>
    (pmm_accounted s \<longrightarrow> pmm_accounted (snd (pmm_alloc_block s)))"
  using assms
proof (cases rule: pmm_alloc_block_cases)
  case full
  then show ?thesis by (auto simp: pmm_full_def)
next
  case (ok k)
  have "(LEAST k. \<not> block_used s k) = k"
    using ok by (intro Least_equality) (auto simp: not_less [symmetric])
  moreover have "\<not> pmm_full s" using ok(2,5) by (auto simp: pmm_full_def)
  ultimately show ?thesis
    using ok(7) pmm_alloc_accounted [OF assms] by (simp del: of_nat_mult)
qed

theorem pmm_alloc_block_first_fit_witness:
  "fst (pmm_alloc_block pmm_example) = of_nat ((LEAST k. \<not> block_used pmm_example k) * 4096)"
proof -
  have "\<not> block_used pmm_example 1" "unat (pmm_max_blocks pmm_example) = 64"
    by (simp_all add: block_used_def pmm_example_def)
  then have "\<not> pmm_full pmm_example" by (auto simp: pmm_full_def intro!: exI [of _ 1])
  then show ?thesis
    using pmm_alloc_block_first_fit [OF pmm_inv_example] by (simp del: of_nat_mult)
qed

text \<open>
  Freeing the block an allocation returned restores the set of blocks in use, whatever
  the state of the manager, and the used-block counter with it.
\<close>

theorem pmm_alloc_free_roundtrip:
  assumes "pmm_inv s" "pmm_alloc_block s = (a, s')" "a \<noteq> 0"
  shows "pmm_frames (pmm_free_block a s') = pmm_frames s \<and>
    pmm_used_blocks (pmm_free_block a s') = pmm_used_blocks s \<and> pmm_inv (pmm_free_block a s')"
proof -
  have "pmm_used_blocks (pmm_free_block a s') = pmm_used_blocks s"
    using assms(1) by (cases rule: pmm_alloc_block_cases)
      (use assms in \<open>auto simp: pmm_free_block_def Let_def\<close>)
  then show ?thesis using pmm.alloc_free_frames [OF assms] by simp
qed

theorem pmm_alloc_free_roundtrip_witness:
  "pmm_frames (pmm_free_block 0x1000 (snd (pmm_alloc_block pmm_example))) = pmm_frames pmm_example"
proof -
  have "pmm_alloc_block pmm_example = (0x1000, snd (pmm_alloc_block pmm_example))"
    by (metis prod.collapse pmm_example_alloc(1))
  then show ?thesis using pmm_alloc_free_roundtrip [OF pmm_inv_example, of "0x1000"] by simp
qed

text \<open>
  \<^verbatim>\<open>pmm_deinit_region\<close> marks every block of the region as used and no other, but it adds
  the size of the region to the counter unconditionally: an exact counter stays exact if and
  only if no block of the region was in use already.
\<close>

theorem pmm_deinit_region_exact:
  assumes "pmm_accounted s" "region_blocks base sz \<subseteq> {..< unat (pmm_max_blocks s)}"
  shows "(\<forall>k. block_used (pmm_deinit_region base sz s) k \<longleftrightarrow> block_used s k \<or> k \<in> region_blocks base sz) \<and>
    (pmm_accounted (pmm_deinit_region base sz s) \<longleftrightarrow> (\<forall>k \<in> region_blocks base sz. \<not> block_used s k))"
proof -
  let ?U = "used_set s" and ?R = "region_blocks base sz"
  have card: "card ?U + card ?R = card (?U \<union> ?R) + card (?U \<inter> ?R)"
    by (rule card_Un_Int) simp_all
  have small: "card (?U \<inter> ?R) < 2 ^ 32"
    using card_mono [of ?U "?U \<inter> ?R"] card_used_set_less [of s] by simp
  have "pmm_accounted (pmm_deinit_region base sz s) \<longleftrightarrow>
      (of_nat (card ?U + card ?R) :: u32) = of_nat (card (?U \<union> ?R))"
    using assms by (simp add: pmm_accounted_def used_set_deinit pmm_deinit_region_counter)
  also have "\<dots> \<longleftrightarrow> (of_nat (card (?U \<inter> ?R)) :: u32) = of_nat 0"
    unfolding card by simp
  also have "\<dots> \<longleftrightarrow> card (?U \<inter> ?R) = 0"
    using of_nat_word_inj [of "card (?U \<inter> ?R)" 0, where 'a = 32] small by auto
  also have "\<dots> \<longleftrightarrow> (\<forall>k \<in> ?R. \<not> block_used s k)"
    using assms(2) by (auto simp: used_set_def)
  finally show ?thesis by (simp add: pmm_deinit_region_used)
qed

lemma pmm_accounted_init:
  "32 dvd unat (sz div PMM_BLOCK_SIZE) \<Longrightarrow> pmm_accounted (pmm_init sz b raw)"
proof -
  assume a: "32 dvd unat (sz div PMM_BLOCK_SIZE)"
  let ?n = "unat (sz div PMM_BLOCK_SIZE)"
  have "used_set (pmm_init sz b raw) = {..< ?n}"
  proof -
    have "unat (sz div PMM_BLOCK_SIZE div PMM_BLOCKS_PER_BYTE) = ?n div 8"
      by (simp add: PMM_BLOCKS_PER_BYTE_def unat_div)
    moreover have "4 dvd ?n div 8" "8 * (?n div 8) = ?n" using a by (auto elim!: dvdE)
    ultimately show ?thesis
      by (auto simp: used_set_def pmm_init_def Let_def block_used_bm intro: bitmap_memset_FF_used)
  qed
  then show ?thesis by (simp add: pmm_accounted_def) (simp add: pmm_init_def Let_def)
qed

theorem pmm_deinit_region_exact_witness:
  "\<not> pmm_accounted (pmm_deinit_region 0 0x2000 (pmm_init 0x100000 0xC0100000 (\<lambda>_. 0)))"
proof -
  have "pmm_accounted (pmm_init 0x100000 0xC0100000 (\<lambda>_. 0))"
    by (rule pmm_accounted_init) (simp add: PMM_BLOCK_SIZE_def)
  moreover have "region_blocks 0 0x2000 = {0, 1}"
    by (auto simp: region_blocks_def)
  moreover have "unat (pmm_max_blocks (pmm_init 0x100000 0xC0100000 (\<lambda>_. 0))) = 256" by code_simp
  moreover have "block_used (pmm_init 0x100000 0xC0100000 (\<lambda>_. 0)) 0" by code_simp
  ultimately show ?thesis
    using pmm_deinit_region_exact [of "pmm_init 0x100000 0xC0100000 (\<lambda>_. 0)" 0 "0x2000"] by simp
qed

end
