(* ===== verification/Khazar_Vmm.thy ===== *)
theory Khazar_Vmm
  imports Khazar_Pmm
begin

text \<open>
  Paging, \<^verbatim>\<open>kernel/mm/paging/vmm.c\<close>: two-level x86 page tables built in blocks of the
  physical memory manager and reached through the kernel's direct map at
  \<^verbatim>\<open>KERNEL_VIRT_BASE\<close>. The memory the tables live in is an explicit store: \<open>kmem s a\<close> is
  the 32-bit word at kernel virtual address \<open>a\<close>. The code only accesses words at
  4-byte-aligned addresses of it.
\<close>

subsection \<open>State and address arithmetic\<close>

definition VMM_PRESENT :: u32 where "VMM_PRESENT = 1"
definition VMM_WRITABLE :: u32 where "VMM_WRITABLE = 2"
definition VMM_USER :: u32 where "VMM_USER = 4"
definition KERNEL_VIRT_BASE :: u32 where "KERNEL_VIRT_BASE = 0xC0000000"

definition P2V :: "u32 \<Rightarrow> u32" where "P2V a = a + KERNEL_VIRT_BASE"
definition V2P :: "u32 \<Rightarrow> u32" where "V2P a = a - KERNEL_VIRT_BASE"

record vmm_state =
  pmm :: pmm_state
  kmem :: "u32 \<Rightarrow> u32"
  kernel_directory :: addr
  current_directory :: addr
  cr3 :: addr

definition pd_index :: "u32 \<Rightarrow> u32" where "pd_index virt = drop_bit 22 virt"
definition pt_index :: "u32 \<Rightarrow> u32" where "pt_index virt = drop_bit 12 virt AND 0x3FF"

text \<open>\<^verbatim>\<open>&table->entries[i]\<close> for a directory or a table of 4-byte entries.\<close>

definition entry_addr :: "addr \<Rightarrow> u32 \<Rightarrow> addr" where "entry_addr base i = base + 4 * i"

text \<open>\<^verbatim>\<open>memset(p, 0, 4096)\<close>.\<close>

definition zero_page :: "addr \<Rightarrow> (u32 \<Rightarrow> u32) \<Rightarrow> (u32 \<Rightarrow> u32)" where
  "zero_page p m = (\<lambda>a. if a - p < 4096 then 0 else m a)"

subsection \<open>Operations\<close>

definition vmm_map_page :: "addr \<Rightarrow> addr \<Rightarrow> u32 \<Rightarrow> vmm_state \<Rightarrow> bool \<times> vmm_state" where
  "vmm_map_page phys virt flags s =
     (let pde = entry_addr (current_directory s) (pd_index virt);
          set_pte = (\<lambda>pt s. s\<lparr>kmem := (kmem s)(entry_addr pt (pt_index virt) := phys OR flags OR VMM_PRESENT)\<rparr>)
      in if kmem s pde AND VMM_PRESENT = 0
         then (case pmm_alloc_block (pmm s) of (phys_pt, pmm') \<Rightarrow>
           if phys_pt = 0 then (False, s\<lparr>pmm := pmm'\<rparr>)
           else let pt = P2V phys_pt;
                    m1 = zero_page pt (kmem s);
                    m2 = m1(pde := phys_pt OR flags OR VMM_PRESENT)
                in (True, set_pte pt (s\<lparr>pmm := pmm', kmem := m2\<rparr>)))
         else (True, set_pte (P2V (page_of (kmem s pde))) s))"

definition vmm_unmap_page :: "addr \<Rightarrow> vmm_state \<Rightarrow> vmm_state" where
  "vmm_unmap_page virt s =
     (let pde = kmem s (entry_addr (current_directory s) (pd_index virt))
      in if pde AND VMM_PRESENT = 0 then s
         else s\<lparr>kmem := (kmem s)(entry_addr (P2V (page_of pde)) (pt_index virt) := 0)\<rparr>)"

definition vmm_switch_directory :: "addr \<Rightarrow> vmm_state \<Rightarrow> vmm_state" where
  "vmm_switch_directory dir s = s\<lparr>current_directory := P2V dir, cr3 := dir\<rparr>"

definition vmm_get_phys :: "addr \<Rightarrow> vmm_state \<Rightarrow> addr" where
  "vmm_get_phys virt s =
     (let pde = kmem s (entry_addr (current_directory s) (pd_index virt))
      in if pde AND VMM_PRESENT = 0 then 0
         else let pte = kmem s (entry_addr (P2V (page_of pde)) (pt_index virt))
              in if pte AND VMM_PRESENT = 0 then 0 else page_of pte)"

definition vmm_get_kernel_directory :: "vmm_state \<Rightarrow> addr" where
  "vmm_get_kernel_directory s = kernel_directory s"

text \<open>The mapping loops of \<^verbatim>\<open>vmm_init\<close> drop the result of each call.\<close>

fun map_pages_loop :: "nat \<Rightarrow> u32 \<Rightarrow> u32 \<Rightarrow> vmm_state \<Rightarrow> vmm_state" where
  "map_pages_loop 0 i base s = s"
| "map_pages_loop (Suc n) i base s =
     map_pages_loop n (i + 4096) base (snd (vmm_map_page i (base + i) (VMM_PRESENT OR VMM_WRITABLE) s))"

definition vmm_init :: "vmm_state \<Rightarrow> bool \<times> vmm_state" where
  "vmm_init s =
     (case pmm_alloc_block (pmm s) of (phys_pd, pmm') \<Rightarrow>
        if phys_pd = 0 then (False, s\<lparr>pmm := pmm'\<rparr>)
        else let kd = P2V phys_pd;
                 s1 = s\<lparr>pmm := pmm', kernel_directory := kd, kmem := zero_page kd (kmem s),
                        current_directory := kd\<rparr>;
                 s2 = map_pages_loop 0x100 0 0 s1;
                 s3 = map_pages_loop 0x8000 0 KERNEL_VIRT_BASE s2
             in (True, vmm_switch_directory phys_pd s3))"

fun copy_entries :: "addr \<Rightarrow> addr \<Rightarrow> nat list \<Rightarrow> (u32 \<Rightarrow> u32) \<Rightarrow> (u32 \<Rightarrow> u32)" where
  "copy_entries new old [] m = m"
| "copy_entries new old (i # is) m =
     copy_entries new old is (m(entry_addr new (of_nat i) := m (entry_addr old (of_nat i))))"

definition vmm_clone_directory :: "vmm_state \<Rightarrow> addr \<times> vmm_state" where
  "vmm_clone_directory s =
     (case pmm_alloc_block (pmm s) of (phys_dir, pmm') \<Rightarrow>
        if phys_dir = 0 then (0, s\<lparr>pmm := pmm'\<rparr>)
        else let new_dir = P2V phys_dir;
                 m1 = zero_page new_dir (kmem s);
                 m2 = copy_entries new_dir (kernel_directory s) [768..<1024] m1
             in (new_dir, s\<lparr>pmm := pmm', kmem := m2\<rparr>))"

fun free_tables_loop :: "addr \<Rightarrow> nat list \<Rightarrow> vmm_state \<Rightarrow> vmm_state" where
  "free_tables_loop dir [] s = s"
| "free_tables_loop dir (i # is) s =
     (let e = kmem s (entry_addr dir (of_nat i))
      in free_tables_loop dir is
           (if e AND VMM_PRESENT \<noteq> 0 then s\<lparr>pmm := pmm_free_block (page_of e) (pmm s)\<rparr> else s))"

definition vmm_free_directory :: "addr \<Rightarrow> vmm_state \<Rightarrow> vmm_state" where
  "vmm_free_directory dir s =
     (if dir = 0 then s
      else let s1 = free_tables_loop (P2V dir) [0..<768] s
           in s1\<lparr>pmm := pmm_free_block dir (pmm s1)\<rparr>)"

subsection \<open>Addresses of entries\<close>

lemma unat_pt_index_eq: "unat (pt_index v) = unat v div 4096 mod 1024"
proof -
  have "pt_index v = take_bit 10 (drop_bit 12 v)"
    by (simp add: pt_index_def take_bit_eq_mask mask_eq_exp_minus_1)
  then show ?thesis
    using unat_drop_bit [of 12 v] by (simp add: unat_mod take_bit_eq_mod)
qed

lemma unat_pd_index_eq: "unat (pd_index v) = unat v div 4096 div 1024"
  using unat_drop_bit [of 22 v] by (simp add: pd_index_def div_mult2_eq [symmetric])

lemma unat_pd_index: "unat (pd_index v) < 1024"
  using unat_u32_bound [of v] by (simp add: unat_pd_index_eq)

lemma unat_pt_index: "unat (pt_index v) < 1024"
  by (simp add: unat_pt_index_eq)

lemma unat_entry_offset: "unat i < 1024 \<Longrightarrow> unat (4 * i :: u32) < 4096"
  by (simp add: unat_word_ariths)

lemma entry_offset_inj: "\<lbrakk>unat i < 1024; unat j < 1024; 4 * i = (4 * j :: u32)\<rbrakk> \<Longrightarrow> i = j"
  by (simp add: word_unat_eq_iff unat_word_ariths)

lemma entry_addr_eq:
  "\<lbrakk>p AND 0xFFF = 0; q AND 0xFFF = 0; unat i < 1024; unat j < 1024\<rbrakk> \<Longrightarrow>
     entry_addr p i = entry_addr q j \<longleftrightarrow> p = q \<and> i = j"
  using entry_offset_inj unfolding entry_addr_def
  by (auto simp: page_plus_eq unat_entry_offset)

lemma zero_page_entry:
  "\<lbrakk>p AND 0xFFF = 0; q AND 0xFFF = 0; unat i < 1024\<rbrakk> \<Longrightarrow>
     zero_page p m (entry_addr q i) = (if q = p then 0 else m (entry_addr q i))"
  by (simp add: zero_page_def entry_addr_def in_page_iff unat_entry_offset)

lemma P2V_aligned [simp]: "(P2V p AND 0xFFF = 0) = (p AND 0xFFF = 0)"
proof -
  have "4096 dvd unat (P2V p) \<longleftrightarrow> 4096 dvd unat p"
    by (simp add: P2V_def KERNEL_VIRT_BASE_def unat_word_ariths dvd_mod_iff)
      (simp add: dvd_add_left_iff)
  then show ?thesis by (simp add: page_aligned_iff)
qed

lemma P2V_inj [simp]: "P2V p = P2V q \<longleftrightarrow> p = q"
  by (simp add: P2V_def)

lemma V2P_P2V [simp]: "V2P (P2V a) = a" "P2V (V2P a) = a"
  by (simp_all add: P2V_def V2P_def)

text \<open>Two addresses lie in the same page iff they have the same two indices.\<close>

lemma div_mod_1024: "(m :: nat) div 1024 = n div 1024 \<and> m mod 1024 = n mod 1024 \<longleftrightarrow> m = n"
  by (metis div_mult_mod_eq)

lemma same_page_iff: "page_of u = page_of v \<longleftrightarrow> pd_index u = pd_index v \<and> pt_index u = pt_index v"
  unfolding page_of_eq_iff
  by (simp add: word_unat_eq_iff [of "pd_index u"] word_unat_eq_iff [of "pt_index u"]
      unat_pt_index_eq unat_pd_index_eq div_mod_1024)

subsection \<open>Entries\<close>

lemma page_of_entry [simp]:
  "\<lbrakk>p AND 0xFFF = 0; page_of flags = 0\<rbrakk> \<Longrightarrow> page_of (p OR flags OR VMM_PRESENT) = p"
proof -
  assume a: "p AND 0xFFF = 0" "page_of flags = 0"
  have "page_of (p OR flags OR 1) = page_of p OR page_of flags OR page_of 1"
    by (simp add: page_of_def bit.conj_disj_distrib2)
  moreover have "page_of 1 = 0" by (simp add: page_of_def)
  ultimately show ?thesis using a by (simp add: aligned_page_of VMM_PRESENT_def)
qed

lemma present_entry [simp]: "(x OR y OR VMM_PRESENT) AND VMM_PRESENT \<noteq> 0"
proof
  assume "(x OR y OR VMM_PRESENT) AND VMM_PRESENT = 0"
  then have "\<not> bit ((x OR y OR VMM_PRESENT) AND VMM_PRESENT) 0" by simp
  then show False by (simp add: VMM_PRESENT_def bit_simps)
qed

definition pde :: "vmm_state \<Rightarrow> u32 \<Rightarrow> u32" where
  "pde s i = kmem s (entry_addr (current_directory s) i)"

definition pde_present :: "vmm_state \<Rightarrow> u32 \<Rightarrow> bool" where
  "pde_present s i \<longleftrightarrow> pde s i AND VMM_PRESENT \<noteq> 0"

definition pte :: "vmm_state \<Rightarrow> u32 \<Rightarrow> u32 \<Rightarrow> u32" where
  "pte s i j = kmem s (entry_addr (P2V (page_of (pde s i))) j)"

lemma vmm_get_phys_alt:
  "vmm_get_phys v s =
     (if pde_present s (pd_index v) \<and> pte s (pd_index v) (pt_index v) AND VMM_PRESENT \<noteq> 0
      then page_of (pte s (pd_index v) (pt_index v)) else 0)"
  by (simp add: vmm_get_phys_def pde_def pde_present_def pte_def Let_def)

text \<open>
  The current directory and the page tables it points to are different blocks, all of them
  in use for the physical memory manager.
\<close>

definition vmm_inv :: "vmm_state \<Rightarrow> bool" where
  "vmm_inv s \<longleftrightarrow> pmm_inv (pmm s) \<and> current_directory s AND 0xFFF = 0 \<and>
     V2P (current_directory s) \<in> pmm_frames (pmm s) \<and>
     (\<forall>i. unat i < 1024 \<and> pde_present s i \<longrightarrow>
        page_of (pde s i) \<in> pmm_frames (pmm s) \<and> P2V (page_of (pde s i)) \<noteq> current_directory s) \<and>
     (\<forall>i j. unat i < 1024 \<and> unat j < 1024 \<and> pde_present s i \<and> pde_present s j \<and> i \<noteq> j \<longrightarrow>
        page_of (pde s i) \<noteq> page_of (pde s j))"

lemma vmm_invD:
  assumes "vmm_inv s"
  shows "pmm_inv (pmm s)" "current_directory s AND 0xFFF = 0"
    "V2P (current_directory s) \<in> pmm_frames (pmm s)"
    "\<lbrakk>unat i < 1024; pde_present s i\<rbrakk> \<Longrightarrow> page_of (pde s i) \<in> pmm_frames (pmm s)"
    "\<lbrakk>unat i < 1024; pde_present s i\<rbrakk> \<Longrightarrow> P2V (page_of (pde s i)) \<noteq> current_directory s"
    "\<lbrakk>unat i < 1024; unat j < 1024; pde_present s i; pde_present s j;
      page_of (pde s i) = page_of (pde s j)\<rbrakk> \<Longrightarrow> i = j"
  using assms unfolding vmm_inv_def by blast+

lemma vmm_inv_cong:
  assumes "pmm s' = pmm s" "current_directory s' = current_directory s"
    and pde: "\<And>k. unat k < 1024 \<Longrightarrow> pde s' k = pde s k"
  shows "vmm_inv s' = vmm_inv s"
proof -
  have "pde_present s' k = pde_present s k" if "unat k < 1024" for k
    using pde [OF that] by (simp add: pde_present_def)
  then show ?thesis unfolding vmm_inv_def assms(1,2) using pde by (simp cong: conj_cong)
qed

subsection \<open>Writing one page-table entry\<close>

lemma set_pte_pde:
  assumes "vmm_inv s" "unat i < 1024" "pde_present s i" "unat k < 1024" "unat j < 1024"
  shows "pde (s\<lparr>kmem := (kmem s)(entry_addr (P2V (page_of (pde s i))) j := e)\<rparr>) k = pde s k"
  using vmm_invD(2) [OF assms(1)] vmm_invD(5) [OF assms(1-3)] assms(4,5)
  by (auto simp: pde_def entry_addr_eq)

lemma set_pte_pte:
  assumes "vmm_inv s" "unat i < 1024" "pde_present s i" "unat j < 1024"
    "unat k < 1024" "pde_present s k" "unat l < 1024"
  shows "pte (s\<lparr>kmem := (kmem s)(entry_addr (P2V (page_of (pde s i))) j := e)\<rparr>) k l =
    (if k = i \<and> l = j then e else pte s k l)"
  using vmm_invD(6) [OF assms(1,2,5,3,6)] assms
  by (auto simp: pte_def set_pte_pde entry_addr_eq)

lemma set_pte_inv:
  assumes "vmm_inv s" "unat i < 1024" "pde_present s i" "unat j < 1024"
  shows "vmm_inv (s\<lparr>kmem := (kmem s)(entry_addr (P2V (page_of (pde s i))) j := e)\<rparr>)"
  by (rule vmm_inv_cong [THEN iffD2, OF _ _ _ assms(1)])
    (simp_all add: set_pte_pde [OF assms(1-3) _ assms(4)])

lemma set_pte_get_phys:
  assumes "vmm_inv s" "pde_present s (pd_index virt)"
  shows "vmm_get_phys v (s\<lparr>kmem := (kmem s)(entry_addr (P2V (page_of (pde s (pd_index virt)))) (pt_index virt) := e)\<rparr>) =
    (if page_of v = page_of virt then (if e AND VMM_PRESENT = 0 then 0 else page_of e) else vmm_get_phys v s)"
    (is "vmm_get_phys v ?s = _")
proof -
  have "pde_present ?s (pd_index v) = pde_present s (pd_index v)"
    using set_pte_pde [OF assms(1) unat_pd_index assms(2) unat_pd_index unat_pt_index]
    by (simp add: pde_present_def)
  then show ?thesis
    using set_pte_pte [OF assms(1) unat_pd_index assms(2) unat_pt_index unat_pd_index _ unat_pt_index] assms(2)
    by (auto simp: vmm_get_phys_alt same_page_iff)
qed

subsection \<open>Installing a fresh page table\<close>

definition new_table :: "u32 \<Rightarrow> addr \<Rightarrow> u32 \<Rightarrow> pmm_state \<Rightarrow> vmm_state \<Rightarrow> vmm_state" where
  "new_table i p flags pmm' s =
     s\<lparr>pmm := pmm',
       kmem := (zero_page (P2V p) (kmem s))
                 (entry_addr (current_directory s) i := p OR flags OR VMM_PRESENT)\<rparr>"

definition fresh_table :: "vmm_state \<Rightarrow> u32 \<Rightarrow> addr \<Rightarrow> pmm_state \<Rightarrow> u32 \<Rightarrow> bool" where
  "fresh_table s i p pmm' flags \<longleftrightarrow> vmm_inv s \<and> unat i < 1024 \<and> \<not> pde_present s i \<and>
     pmm_alloc_block (pmm s) = (p, pmm') \<and> p \<noteq> 0 \<and> page_of flags = 0"

lemma fresh_tableD:
  assumes "fresh_table s i p pmm' flags"
  shows "vmm_inv s" "unat i < 1024" "\<not> pde_present s i" "page_of flags = 0"
    "p \<notin> pmm_frames (pmm s)" "pmm_frames pmm' = insert p (pmm_frames (pmm s))"
    "p AND 0xFFF = 0" "pmm_inv pmm'" "P2V p \<noteq> current_directory s"
    "current_directory s AND 0xFFF = 0"
    "\<lbrakk>unat k < 1024; pde_present s k\<rbrakk> \<Longrightarrow> page_of (pde s k) \<noteq> p"
proof -
  show *: "vmm_inv s" "unat i < 1024" "\<not> pde_present s i" "page_of flags = 0"
    using assms by (simp_all add: fresh_table_def)
  show **: "p \<notin> pmm_frames (pmm s)" "pmm_frames pmm' = insert p (pmm_frames (pmm s))"
    "p AND 0xFFF = 0" "pmm_inv pmm'"
    using assms pmm.alloc_fresh pmm.alloc_frames pmm.alloc_aligned pmm.alloc_inv vmm_invD(1) [OF *(1)]
    unfolding fresh_table_def by blast+
  show "P2V p \<noteq> current_directory s" using **(1) vmm_invD(3) [OF *(1)] by (metis V2P_P2V(1))
  show "current_directory s AND 0xFFF = 0" by (rule vmm_invD(2) [OF *(1)])
  show "\<lbrakk>unat k < 1024; pde_present s k\<rbrakk> \<Longrightarrow> page_of (pde s k) \<noteq> p"
    using vmm_invD(4) [OF *(1)] **(1) by blast
qed

lemma new_table_pde:
  "\<lbrakk>fresh_table s i p pmm' flags; unat k < 1024\<rbrakk> \<Longrightarrow>
     pde (new_table i p flags pmm' s) k = (if k = i then p OR flags OR VMM_PRESENT else pde s k)"
  using fresh_tableD [of s i p pmm' flags]
  by (simp add: pde_def new_table_def entry_addr_eq zero_page_entry)

lemma new_table_present:
  "\<lbrakk>fresh_table s i p pmm' flags; unat k < 1024\<rbrakk> \<Longrightarrow>
     pde_present (new_table i p flags pmm' s) k \<longleftrightarrow> k = i \<or> pde_present s k"
  by (simp add: pde_present_def new_table_pde)

lemma new_table_page:
  "\<lbrakk>fresh_table s i p pmm' flags; unat k < 1024\<rbrakk> \<Longrightarrow>
     page_of (pde (new_table i p flags pmm' s) k) = (if k = i then p else page_of (pde s k))"
  using fresh_tableD(4,7) by (simp add: new_table_pde)

lemma new_table_simps [simp]:
  "pmm (new_table i p flags pmm' s) = pmm'"
  "current_directory (new_table i p flags pmm' s) = current_directory s"
  "kernel_directory (new_table i p flags pmm' s) = kernel_directory s"
  "cr3 (new_table i p flags pmm' s) = cr3 s"
  by (simp_all add: new_table_def)

lemma new_table_inv:
  assumes ft: "fresh_table s i p pmm' flags"
  shows "vmm_inv (new_table i p flags pmm' s)"
proof -
  let ?s = "new_table i p flags pmm' s"
  note D = fresh_tableD [OF ft] and I = vmm_invD [OF fresh_tableD(1) [OF ft]]
  have "page_of (pde ?s k) \<in> pmm_frames pmm' \<and> P2V (page_of (pde ?s k)) \<noteq> current_directory s"
    if "unat k < 1024" "pde_present ?s k" for k
    using that D(6,9) I(4,5) [of k] ft by (auto simp: new_table_page new_table_present)
  moreover have "page_of (pde ?s k) \<noteq> page_of (pde ?s l)"
    if "unat k < 1024" "unat l < 1024" "pde_present ?s k" "pde_present ?s l" "k \<noteq> l" for k l
    using that D(11) I(6) [of k l] ft by (auto simp: new_table_page new_table_present)
  moreover have "pmm_inv pmm'" "current_directory s AND 0xFFF = 0"
    "V2P (current_directory s) \<in> pmm_frames pmm'" using D I(3) by auto
  ultimately show ?thesis unfolding vmm_inv_def by simp
qed

lemma new_table_pte:
  assumes ft: "fresh_table s i p pmm' flags"
    and "unat k < 1024" "unat l < 1024" "k = i \<or> pde_present s k"
  shows "pte (new_table i p flags pmm' s) k l = (if k = i then 0 else pte s k l)"
proof (cases "k = i")
  case True
  then show ?thesis
    using assms fresh_tableD [OF ft]
    by (simp add: pte_def new_table_page) (simp add: new_table_def entry_addr_eq zero_page_entry)
next
  case False
  then have "page_of (pde s k) \<noteq> p" "P2V (page_of (pde s k)) \<noteq> current_directory s"
    using assms fresh_tableD(11) [OF ft] vmm_invD(5) [OF fresh_tableD(1) [OF ft]] by auto
  then show ?thesis
    using False assms fresh_tableD [OF ft]
    by (simp add: pte_def new_table_page) (simp add: new_table_def entry_addr_eq zero_page_entry)
qed

lemma new_table_get_phys:
  "fresh_table s i p pmm' flags \<Longrightarrow> vmm_get_phys v (new_table i p flags pmm' s) = vmm_get_phys v s"
  using fresh_tableD(3) [of s i p pmm' flags]
  by (auto simp: vmm_get_phys_alt new_table_present new_table_pte unat_pd_index unat_pt_index)

text \<open>The three outcomes of \<^verbatim>\<open>vmm_map_page\<close>.\<close>

abbreviation set_pte :: "addr \<Rightarrow> u32 \<Rightarrow> vmm_state \<Rightarrow> vmm_state" where
  "set_pte virt e s \<equiv>
     s\<lparr>kmem := (kmem s)(entry_addr (P2V (page_of (pde s (pd_index virt)))) (pt_index virt) := e)\<rparr>"

lemma vmm_map_page_cases [consumes 2]:
  assumes "vmm_inv s" "page_of flags = 0"
  obtains (present) "pde_present s (pd_index virt)"
      "vmm_map_page phys virt flags s = (True, set_pte virt (phys OR flags OR VMM_PRESENT) s)"
    | (full) "\<not> pde_present s (pd_index virt)" "pmm_alloc_block (pmm s) = (0, pmm s)"
      "vmm_map_page phys virt flags s = (False, s)"
    | (new) p pmm' where "fresh_table s (pd_index virt) p pmm' flags"
      "vmm_map_page phys virt flags s =
        (True, set_pte virt (phys OR flags OR VMM_PRESENT) (new_table (pd_index virt) p flags pmm' s))"
proof -
  obtain p pmm' where alloc: "pmm_alloc_block (pmm s) = (p, pmm')" by fastforce
  consider (a) "pde_present s (pd_index virt)" | (b) "\<not> pde_present s (pd_index virt)" "p = 0"
    | (c) "\<not> pde_present s (pd_index virt)" "p \<noteq> 0" by blast
  then show ?thesis
  proof cases
    case a
    then show ?thesis using present
      by (simp add: vmm_map_page_def Let_def pde_present_def pde_def)
  next
    case b
    then have "pmm' = pmm s" using pmm.alloc_null [OF vmm_invD(1) [OF assms(1)]] alloc by blast
    then show ?thesis using b full alloc by (simp add: vmm_map_page_def Let_def pde_present_def pde_def)
  next
    case c
    then have ft: "fresh_table s (pd_index virt) p pmm' flags"
      using assms alloc unat_pd_index by (simp add: fresh_table_def)
    show ?thesis
      using new [OF ft] c alloc fresh_tableD(4,7) [OF ft]
      by (simp add: vmm_map_page_def Let_def pde_present_def pde_def new_table_def)
  qed
qed

subsection \<open>Properties of the page-table operations\<close>

lemma vmm_map_page_effect:
  assumes "vmm_inv s" "phys AND 0xFFF = 0" "page_of flags = 0"
    "vmm_map_page phys virt flags s = (ok, s')"
  shows "vmm_inv s' \<and>
    (\<forall>v. vmm_get_phys v s' = (if ok \<and> page_of v = page_of virt then phys else vmm_get_phys v s)) \<and>
    (\<not> ok \<longrightarrow> s' = s \<and> pmm_full (pmm s))"
  using assms(1,3)
proof (cases rule: vmm_map_page_cases [where phys = phys and virt = virt])
  case present
  then show ?thesis
    using assms set_pte_inv [OF assms(1) unat_pd_index present(1) unat_pt_index]
      set_pte_get_phys [OF assms(1) present(1)] by auto
next
  case full
  then have "pmm_full (pmm s)"
    using pmm_alloc_null_full [OF vmm_invD(1) [OF assms(1)]] by simp
  then show ?thesis using full assms by auto
next
  case (new p pmm')
  let ?n = "new_table (pd_index virt) p flags pmm' s"
  have n: "vmm_inv ?n" "pde_present ?n (pd_index virt)"
    using new_table_inv [OF new(1)] new_table_present [OF new(1) unat_pd_index] by auto
  then show ?thesis
    using assms new(2) set_pte_inv [OF n(1) unat_pd_index n(2) unat_pt_index]
      set_pte_get_phys [OF n] new_table_get_phys [OF new(1)] by auto
qed

text \<open>
  C22. \<^verbatim>\<open>vmm_map_page\<close> changes the translation of the mapped page and of no other: when it
  succeeds, \<^verbatim>\<open>vmm_get_phys\<close> returns the frame for every address of the page and what it
  returned before for every other address, and the paging structures stay well formed. When
  it fails nothing has changed, and it fails only if a page table was missing and physical
  memory is exhausted.
\<close>

theorem vmm_map_page_translation:
  assumes "vmm_inv s" "phys AND 0xFFF = 0" "page_of flags = 0"
    "vmm_map_page phys virt flags s = (ok, s')"
  shows "vmm_inv s' \<and>
    (\<forall>v. vmm_get_phys v s' = (if ok \<and> page_of v = page_of virt then phys else vmm_get_phys v s)) \<and>
    (\<not> ok \<longrightarrow> s' = s \<and> pmm_full (pmm s))"
  using vmm_map_page_effect [OF assms] .

text \<open>A machine whose current directory is block 32, with no page mapped.\<close>

definition vmm_example :: vmm_state where
  "vmm_example = \<lparr>pmm = pmm_example, kmem = (\<lambda>_. 0), kernel_directory = P2V 0x20000,
     current_directory = P2V 0x20000, cr3 = 0x20000\<rparr>"

lemma vmm_inv_example [simp]: "vmm_inv vmm_example"
proof -
  have "block_used pmm_example 32" by (simp add: block_used_def pmm_example_def)
  then have "0x20000 \<in> pmm_frames pmm_example"
    by (auto simp: pmm_frames_def intro!: exI [of _ 32])
  moreover have "\<not> pde_present vmm_example i" for i
    by (simp add: pde_present_def pde_def vmm_example_def)
  ultimately show ?thesis by (simp add: vmm_inv_def) (simp add: vmm_example_def)
qed

theorem vmm_map_page_translation_witness:
  "vmm_get_phys 0x400123 (snd (vmm_map_page 0x5000 0x400000 3 vmm_example)) = 0x5000"
proof -
  have "page_of 3 = 0" "page_of 0x400123 = page_of 0x400000" by (simp_all add: page_of_def)
  moreover have "fst (vmm_map_page 0x5000 0x400000 3 vmm_example)"
    using pmm_example_alloc(1)
    by (simp add: vmm_map_page_def vmm_example_def Let_def split_beta)
  ultimately show ?thesis
    using vmm_map_page_translation [OF vmm_inv_example _ _ prod.collapse [symmetric],
        of "0x5000" 3 "0x400000"] by simp
qed

text \<open>
  \<^verbatim>\<open>vmm_unmap_page\<close> removes the translation of one page and of no other, and keeps the
  paging structures well formed.
\<close>

theorem vmm_unmap_page_translation:
  assumes "vmm_inv s"
  shows "vmm_inv (vmm_unmap_page virt s) \<and>
    (\<forall>v. vmm_get_phys v (vmm_unmap_page virt s) = (if page_of v = page_of virt then 0 else vmm_get_phys v s))"
proof (cases "pde_present s (pd_index virt)")
  case True
  then have "vmm_unmap_page virt s = set_pte virt 0 s"
    by (simp add: vmm_unmap_page_def pde_def pde_present_def Let_def)
  then show ?thesis
    using set_pte_inv [OF assms unat_pd_index True unat_pt_index] set_pte_get_phys [OF assms True] by simp
next
  case False
  then show ?thesis using assms
    by (auto simp: vmm_unmap_page_def pde_def pde_present_def Let_def vmm_get_phys_def same_page_iff)
qed

theorem vmm_unmap_page_translation_witness:
  "vmm_get_phys 0x400000 (vmm_unmap_page 0x400000 vmm_example) = 0"
  using vmm_unmap_page_translation [OF vmm_inv_example, of "0x400000"] by simp

subsection \<open>Cloned directories\<close>

text \<open>The entry ranges \<open>[768..<1024]\<close> are reasoned about by their bounds.\<close>

declare upt_rec_numeral [simp del]

lemma copy_entries_outside:
  "(\<And>i. i \<in> set is \<Longrightarrow> a \<noteq> entry_addr new (of_nat i)) \<Longrightarrow> copy_entries new old is m a = m a"
  by (induction "is" arbitrary: m) auto

lemma copy_entries_inside:
  assumes "distinct is" "i \<in> set is" "set is \<subseteq> {..<1024}" "new \<noteq> old"
    "new AND 0xFFF = 0" "old AND 0xFFF = 0"
  shows "copy_entries new old is m (entry_addr new (of_nat i)) = m (entry_addr old (of_nat i))"
  using assms(1-3)
proof (induction "is" arbitrary: m)
  case (Cons j js)
  have eq: "entry_addr p (of_nat k) = entry_addr q (of_nat l) \<longleftrightarrow> p = q \<and> k = l"
    if "p \<in> {new, old}" "q \<in> {new, old}" "k < 1024" "l < 1024" for p q k l
    using that assms(5,6) of_nat_word_inj [of k l, where 'a = 32]
    by (auto simp: entry_addr_eq unat_of_nat_less)
  show ?case
  proof (cases "i = j")
    case True
    then have "copy_entries new old js m' (entry_addr new (of_nat i)) = m' (entry_addr new (of_nat i))" for m'
      using Cons.prems by (intro copy_entries_outside) (subst eq, auto)
    then show ?thesis using True by simp
  next
    case False
    then show ?thesis using Cons assms(4) eq [of old new i j] eq [of new new i j] by auto
  qed
qed simp

lemma vmm_clone_directory_cases:
  assumes "vmm_inv s" "kernel_directory s = current_directory s"
    "vmm_clone_directory s = (d, s')" "d \<noteq> 0"
  obtains p pmm' where "d = P2V p" "p AND 0xFFF = 0" "p \<notin> pmm_frames (pmm s)"
    "pmm_frames pmm' = insert p (pmm_frames (pmm s))" "pmm_inv pmm'" "d \<noteq> current_directory s"
    "s' = s\<lparr>pmm := pmm',
            kmem := copy_entries d (current_directory s) [768..<1024] (zero_page d (kmem s))\<rparr>"
proof -
  obtain p pmm' where alloc: "pmm_alloc_block (pmm s) = (p, pmm')" by fastforce
  have "p \<noteq> 0" using assms(3,4) alloc by (auto simp: vmm_clone_directory_def)
  note fresh = pmm.alloc_fresh pmm.alloc_frames pmm.alloc_aligned pmm.alloc_inv
  have p: "p AND 0xFFF = 0" "p \<notin> pmm_frames (pmm s)" "pmm_frames pmm' = insert p (pmm_frames (pmm s))"
    "pmm_inv pmm'" using fresh [OF vmm_invD(1) [OF assms(1)] alloc] \<open>p \<noteq> 0\<close> by blast+
  have d: "d = P2V p" "s' = s\<lparr>pmm := pmm',
      kmem := copy_entries d (current_directory s) [768..<1024] (zero_page d (kmem s))\<rparr>"
    using assms(2,3) alloc \<open>p \<noteq> 0\<close> by (auto simp: vmm_clone_directory_def Let_def)
  have "d \<noteq> current_directory s" using p(2) vmm_invD(3) [OF assms(1)] d(1) by (metis V2P_P2V(1))
  then show ?thesis using that p d by blast
qed

lemma clone_entries:
  fixes m :: "u32 \<Rightarrow> u32"
  assumes "d AND 0xFFF = 0" "c AND 0xFFF = 0" "d \<noteq> c" "unat i < 1024" "q AND 0xFFF = 0"
  defines "m' \<equiv> copy_entries d c [768..<1024] (zero_page d m)"
  shows "m' (entry_addr d i) = (if unat i < 768 then 0 else m (entry_addr c i))"
    "q \<noteq> d \<Longrightarrow> m' (entry_addr q i) = m (entry_addr q i)"
proof -
  have ne: "entry_addr p i \<noteq> entry_addr d (of_nat j)" if "p AND 0xFFF = 0" "j < 1024" "p \<noteq> d \<or> unat i \<noteq> j" for p j
    using that assms by (auto simp: entry_addr_eq unat_of_nat_less)
  show "m' (entry_addr d i) = (if unat i < 768 then 0 else m (entry_addr c i))"
  proof (cases "unat i < 768")
    case True
    then have "m' (entry_addr d i) = zero_page d m (entry_addr d i)"
      unfolding m'_def using assms by (intro copy_entries_outside ne) auto
    then show ?thesis using True assms by (simp add: zero_page_entry)
  next
    case False
    then have "m' (entry_addr d (of_nat (unat i))) = zero_page d m (entry_addr c (of_nat (unat i)))"
      unfolding m'_def using assms by (intro copy_entries_inside) auto
    then show ?thesis using False assms by (simp add: zero_page_entry)
  qed
  assume "q \<noteq> d"
  then have "m' (entry_addr q i) = zero_page d m (entry_addr q i)"
    unfolding m'_def using assms by (intro copy_entries_outside ne) auto
  then show "m' (entry_addr q i) = m (entry_addr q i)" using \<open>q \<noteq> d\<close> assms by (simp add: zero_page_entry)
qed

lemma vmm_inv_sub:
  assumes "vmm_inv s" "pmm_inv (pmm s')" "pmm_frames (pmm s) \<subseteq> pmm_frames (pmm s')"
    "current_directory s' AND 0xFFF = 0" "V2P (current_directory s') \<in> pmm_frames (pmm s')"
    and sub: "\<And>k. \<lbrakk>unat k < 1024; pde_present s' k\<rbrakk> \<Longrightarrow>
      pde s' k = pde s k \<and> P2V (page_of (pde s k)) \<noteq> current_directory s'"
  shows "vmm_inv s'"
proof -
  have pres: "pde_present s k" if "unat k < 1024" "pde_present s' k" for k
    using sub [OF that] that by (simp add: pde_present_def)
  show ?thesis
    unfolding vmm_inv_def
    using assms(2-5) sub pres vmm_invD(4) [OF assms(1)] vmm_invD(6) [OF assms(1)]
    by (intro conjI allI impI) (metis (no_types) subsetD)+
qed

lemma pd_index_kernel: "unat (pd_index v) < 768 \<longleftrightarrow> v < KERNEL_VIRT_BASE"
  by (simp add: unat_pd_index_eq KERNEL_VIRT_BASE_def word_less_nat_alt) linarith

text \<open>
  \<^verbatim>\<open>vmm_clone_directory\<close> gives a new process the kernel's half of the address space and an
  empty user half: switching to the clone translates every address from
  \<^verbatim>\<open>KERNEL_VIRT_BASE\<close> on as the kernel directory does and no lower address at all, the clone
  is a fresh block, and the translation in the old directory is unchanged.
\<close>

theorem vmm_clone_directory_translation:
  assumes "vmm_inv s" "kernel_directory s = current_directory s"
    "vmm_clone_directory s = (d, s')" "d \<noteq> 0"
  shows "vmm_inv s' \<and> vmm_inv (vmm_switch_directory (V2P d) s') \<and> V2P d \<notin> pmm_frames (pmm s) \<and>
    (\<forall>v. vmm_get_phys v s' = vmm_get_phys v s) \<and>
    (\<forall>v. vmm_get_phys v (vmm_switch_directory (V2P d) s') =
       (if v < KERNEL_VIRT_BASE then 0 else vmm_get_phys v s))"
  using assms
proof (cases rule: vmm_clone_directory_cases)
  case (1 p pmm')
  let ?c = "current_directory s" and ?t = "vmm_switch_directory (V2P d) s'"
  note I = vmm_invD [OF assms(1)]
  have al: "d AND 0xFFF = 0" using 1 by simp
  have old: "kmem s' (entry_addr q i) = kmem s (entry_addr q i)"
    if "q AND 0xFFF = 0" "q \<noteq> d" "unat i < 1024" for q i
    using clone_entries(2) [OF al I(2) 1(6) that(3,1,2)] 1(7) by simp
  have pde_s: "pde s' i = pde s i" if "unat i < 1024" for i
    using old [OF I(2) 1(6) [symmetric] that] 1(7) by (simp add: pde_def)
  have pde_t: "pde ?t i = (if unat i < 768 then 0 else pde s i)" if "unat i < 1024" for i
    using clone_entries(1) [OF al I(2) 1(6) that al] 1(7)
    by (simp add: pde_def vmm_switch_directory_def)
  have tab: "P2V (page_of (pde s i)) \<noteq> d" if "unat i < 1024" "pde_present s i" for i
    using I(4) [OF that] 1(1,3) by auto
  have inv_s: "vmm_inv s'"
    using 1 I(2,3,5) pde_s by (intro vmm_inv_sub [OF assms(1)]) (auto simp: pde_present_def)
  have "pde ?t i = pde s i \<and> P2V (page_of (pde s i)) \<noteq> d" if "unat i < 1024" "pde_present ?t i" for i
    using pde_t [OF that(1)] that tab [OF that(1)] by (auto simp: pde_present_def split: if_splits)
  then have inv_t: "vmm_inv ?t"
    using 1 al by (intro vmm_inv_sub [OF assms(1)]) (auto simp: vmm_switch_directory_def)
  have pte_s: "pte s' i j = pte s i j" if "unat i < 1024" "unat j < 1024" "pde_present s i" for i j
    using old [OF _ tab [OF that(1,3)] that(2)] pde_s [OF that(1)] by (simp add: pte_def)
  have pte_t: "pte ?t i j = pte s i j" if "unat i < 1024" "unat j < 1024" "pde_present s i" "\<not> unat i < 768" for i j
    using old [OF _ tab [OF that(1,3)] that(2)] pde_t [OF that(1)] that(4) by (simp add: pte_def vmm_switch_directory_def)
  show ?thesis
    using inv_s inv_t 1 unat_pd_index unat_pt_index pte_s pte_t pde_s pde_t
    by (auto simp: vmm_get_phys_alt pde_present_def pd_index_kernel)
qed

lemma vmm_example_clone:
  "vmm_clone_directory vmm_example = (P2V 0x1000, snd (vmm_clone_directory vmm_example))"
proof -
  have "fst (vmm_clone_directory vmm_example) = P2V 0x1000"
    using pmm_example_alloc(1)
    by (simp add: vmm_clone_directory_def Let_def split_beta) (simp add: vmm_example_def)
  then show ?thesis by (metis prod.collapse)
qed

lemma P2V_0x1000: "P2V 0x1000 \<noteq> 0" "P2V (P2V 0x1000) = 0x80001000"
  by (simp_all add: P2V_def KERNEL_VIRT_BASE_def)

lemma copy_entries_zero: "copy_entries new old is (\<lambda>_. 0) = (\<lambda>_. 0)"
  by (induction "is") (auto simp: fun_upd_idem)

lemma vmm_example_dirs: "kernel_directory vmm_example = current_directory vmm_example"
  by (simp add: vmm_example_def)

theorem vmm_clone_directory_translation_witness:
  "vmm_get_phys 0x400000 (vmm_switch_directory 0x1000 (snd (vmm_clone_directory vmm_example))) = 0"
  using vmm_clone_directory_translation [OF vmm_inv_example vmm_example_dirs vmm_example_clone P2V_0x1000(1)]
  by (simp add: KERNEL_VIRT_BASE_def)

lemma free_tables_loop_absent:
  "(\<And>i. i \<in> set is \<Longrightarrow> kmem s (entry_addr dir (of_nat i)) AND VMM_PRESENT = 0) \<Longrightarrow>
     free_tables_loop dir is s = s"
  by (induction "is") auto

lemma vmm_free_directory_absent:
  assumes "d \<noteq> 0" "d AND 0xFFF = 0"
    "\<And>i. i < 768 \<Longrightarrow> kmem s (entry_addr (P2V d) (of_nat i)) AND VMM_PRESENT = 0"
  shows "pmm_frames (pmm (vmm_free_directory d s)) = pmm_frames (pmm s) - {d}"
  using assms free_tables_loop_absent [of "[0..<768]" s "P2V d"]
  by (simp add: vmm_free_directory_def pmm_free_block_aligned)

text \<open>
  \<^verbatim>\<open>vmm_free_directory\<close> expects a physical address: applied to the physical address of a
  fresh clone it gives the directory's block back, but applied to the virtual address that
  \<^verbatim>\<open>vmm_clone_directory\<close> returned (and \<^verbatim>\<open>process_cleanup\<close> passes on) it leaves that block
  marked as used for ever.
\<close>

theorem vmm_free_directory_address_space:
  assumes "vmm_inv s" "kernel_directory s = current_directory s"
    "vmm_clone_directory s = (d, s')" "d \<noteq> 0" "V2P d \<noteq> 0"
    "\<forall>i < 768. kmem s' (entry_addr (P2V d) (of_nat i)) AND VMM_PRESENT = 0"
  shows "V2P d \<in> pmm_frames (pmm (vmm_free_directory d s')) \<and>
    pmm_frames (pmm (vmm_free_directory (V2P d) s')) = pmm_frames (pmm s)"
  using assms(1-4)
proof (cases rule: vmm_clone_directory_cases)
  case (1 p pmm')
  have ne: "P2V p \<noteq> p" by (simp add: P2V_def KERNEL_VIRT_BASE_def)
  have "kmem s' (entry_addr (P2V p) (of_nat i)) = 0" if "i < 768" for i
    using clone_entries(1) [of d "current_directory s" "of_nat i" d "kmem s"] 1 vmm_invD(2) [OF assms(1)] that
    by (simp add: unat_of_nat_less)
  then have "pmm_frames (pmm (vmm_free_directory p s')) = pmm_frames (pmm s') - {p}"
    using assms(5) 1 by (intro vmm_free_directory_absent) auto
  moreover have "pmm_frames (pmm (vmm_free_directory d s')) = pmm_frames (pmm s') - {d}"
    using assms(4,6) 1 by (intro vmm_free_directory_absent) auto
  ultimately show ?thesis using 1 ne by auto
qed

theorem vmm_free_directory_address_space_witness:
  "0x1000 \<in> pmm_frames (pmm (vmm_free_directory (P2V 0x1000) (snd (vmm_clone_directory vmm_example))))"
proof -
  have "zero_page p (\<lambda>_. 0) = (\<lambda>_. 0)" for p by (auto simp: zero_page_def)
  then have "kmem (snd (vmm_clone_directory vmm_example)) a = 0" for a
    by (simp add: vmm_clone_directory_def split_beta Let_def) (simp add: vmm_example_def copy_entries_zero)
  then show ?thesis
    using vmm_free_directory_address_space [OF vmm_inv_example vmm_example_dirs vmm_example_clone P2V_0x1000(1)]
      P2V_0x1000(2) by simp
qed

end
