(* ===== verification/Khazar_Kheap.thy ===== *)
theory Khazar_Kheap
  imports Khazar_Vmm
begin

text \<open>
  The kernel heap, \<^verbatim>\<open>kernel/mm/allocator/kheap.c\<close>: one doubly linked list of blocks, each a
  header followed by its payload. The headers are a typed store: \<open>hdr s a\<close> is the
  \<^verbatim>\<open>header_t\<close> at address \<open>a\<close>. Payload bytes are not part of the state; the invariant says
  that blocks are laid out without gaps or overlap, so a client that stays inside its
  payload writes no header.
\<close>

subsection \<open>State and operations\<close>

record header_t =
  magic :: u32
  hsize :: u32
  is_free :: u8
  hnext :: addr
  hprev :: addr

definition KHEAP_MAGIC :: u32 where "KHEAP_MAGIC = 0x1234ABCD"

text \<open>\<^verbatim>\<open>sizeof(header_t)\<close>: five 4-byte slots, \<^verbatim>\<open>is_free\<close> padded to four bytes.\<close>

definition HEADER_SIZE :: u32 where "HEADER_SIZE = 20"

record kheap_state =
  heap_start :: addr
  hdr :: "addr \<Rightarrow> header_t"

definition upd_hdr :: "addr \<Rightarrow> (header_t \<Rightarrow> header_t) \<Rightarrow> kheap_state \<Rightarrow> kheap_state" where
  "upd_hdr a f s = s\<lparr>hdr := (hdr s)(a := f (hdr s a))\<rparr>"

text \<open>
  The mapping loop of \<^verbatim>\<open>kheap_init\<close>, \<^verbatim>\<open>for (v = start; v < start + size; v += 4096)\<close>: each
  page is mapped to the next physical page unless it is mapped already. When \<^verbatim>\<open>v += 4096\<close>
  wraps past 4 GB the loop may not end.
\<close>

partial_function (option) kheap_map_loop :: "addr \<Rightarrow> addr \<Rightarrow> addr \<Rightarrow> vmm_state \<Rightarrow> vmm_state option" where
  "kheap_map_loop lim v phys s =
     (if v < lim
      then if vmm_get_phys v s = 0
           then kheap_map_loop lim (v + 4096) (phys + 4096)
                  (snd (vmm_map_page phys v (VMM_PRESENT OR VMM_WRITABLE) s))
           else kheap_map_loop lim (v + 4096) phys s
      else Some s)"

definition kheap_init :: "addr \<Rightarrow> u32 \<Rightarrow> vmm_state \<Rightarrow> kheap_state \<Rightarrow> (vmm_state \<times> kheap_state) option" where
  "kheap_init start_addr sz vs s =
     (case kheap_map_loop (start_addr + sz) start_addr 0x500000 vs of
        None \<Rightarrow> None
      | Some vs' \<Rightarrow> Some (vs', s\<lparr>heap_start := start_addr,
          hdr := (hdr s)(start_addr :=
            \<lparr>magic = KHEAP_MAGIC, hsize = sz - HEADER_SIZE, is_free = 1, hnext = 0, hprev = 0\<rparr>)\<rparr>))"

definition kmalloc_round :: "u32 \<Rightarrow> u32" where "kmalloc_round sz = (sz + 7) AND NOT 7"

text \<open>The body of \<^verbatim>\<open>kmalloc\<close> once a fitting block \<^verbatim>\<open>curr\<close> is found.\<close>

definition kmalloc_take :: "u32 \<Rightarrow> addr \<Rightarrow> kheap_state \<Rightarrow> kheap_state" where
  "kmalloc_take sz cur s =
     (let s1 =
        (if hsize (hdr s cur) \<ge> sz + HEADER_SIZE + 8
         then let new_block = cur + HEADER_SIZE + sz;
                  s1 = upd_hdr new_block (\<lambda>h. \<lparr>magic = KHEAP_MAGIC,
                         hsize = hsize (hdr s cur) - sz - HEADER_SIZE, is_free = 1,
                         hnext = hnext (hdr s cur), hprev = cur\<rparr>) s;
                  s2 = (if hnext (hdr s1 cur) \<noteq> 0
                        then upd_hdr (hnext (hdr s1 cur)) (\<lambda>h. h\<lparr>hprev := new_block\<rparr>) s1 else s1)
              in upd_hdr cur (\<lambda>h. h\<lparr>hnext := new_block, hsize := sz\<rparr>) s2
         else s)
      in upd_hdr cur (\<lambda>h. h\<lparr>is_free := 0\<rparr>) s1)"

text \<open>The list walk of \<^verbatim>\<open>kmalloc\<close>; on a cyclic list it would not return.\<close>

partial_function (option) kmalloc_loop :: "u32 \<Rightarrow> kheap_state \<Rightarrow> addr \<Rightarrow> (addr \<times> kheap_state) option" where
  "kmalloc_loop sz s cur =
     (if cur = 0 then Some (0, s)
      else if is_free (hdr s cur) \<noteq> 0 \<and> hsize (hdr s cur) \<ge> sz
      then Some (cur + HEADER_SIZE, kmalloc_take sz cur s)
      else kmalloc_loop sz s (hnext (hdr s cur)))"

definition kmalloc :: "u32 \<Rightarrow> kheap_state \<Rightarrow> (addr \<times> kheap_state) option" where
  "kmalloc sz s = (if sz = 0 then Some (0, s) else kmalloc_loop (kmalloc_round sz) s (heap_start s))"

definition kfree :: "addr \<Rightarrow> kheap_state \<Rightarrow> kheap_state" where
  "kfree ptr s =
     (if ptr = 0 then s
      else let header = ptr - HEADER_SIZE
      in if magic (hdr s header) \<noteq> KHEAP_MAGIC then s
      else if is_free (hdr s header) \<noteq> 0 then s
      else
        let s1 = upd_hdr header (\<lambda>h. h\<lparr>is_free := 1\<rparr>) s;
            next1 = hnext (hdr s1 header);
            s2 = (if next1 \<noteq> 0 \<and> is_free (hdr s1 next1) \<noteq> 0
                  then let t1 = upd_hdr header (\<lambda>h. h\<lparr>hsize := hsize h + (HEADER_SIZE + hsize (hdr s1 next1)),
                                 hnext := hnext (hdr s1 next1)\<rparr>) s1;
                           nn = hnext (hdr t1 header)
                       in if nn \<noteq> 0 then upd_hdr nn (\<lambda>h. h\<lparr>hprev := header\<rparr>) t1 else t1
                  else s1);
            prev1 = hprev (hdr s2 header);
            next2 = hnext (hdr s2 header)
        in if prev1 \<noteq> 0 \<and> is_free (hdr s2 prev1) \<noteq> 0
           then let t1 = upd_hdr prev1 (\<lambda>h. h\<lparr>hsize := hsize h + (HEADER_SIZE + hsize (hdr s2 header)),
                          hnext := next2\<rparr>) s2
                in if next2 \<noteq> 0 then upd_hdr next2 (\<lambda>h. h\<lparr>hprev := prev1\<rparr>) t1 else t1
           else s2)"

subsection \<open>The abstract heap: a list of adjacent blocks\<close>

type_synonym blk = "addr \<times> u32 \<times> bool"

abbreviation baddr :: "blk \<Rightarrow> addr" where "baddr \<equiv> fst"
abbreviation bsize :: "blk \<Rightarrow> u32" where "bsize b \<equiv> fst (snd b)"
abbreviation bfree :: "blk \<Rightarrow> bool" where "bfree b \<equiv> snd (snd b)"

fun next_of :: "blk list \<Rightarrow> addr \<Rightarrow> addr" where
  "next_of [] q = q"
| "next_of (b # bs) q = baddr b"

fun last_of :: "addr \<Rightarrow> blk list \<Rightarrow> addr" where
  "last_of p [] = p"
| "last_of p (b # bs) = last_of (baddr b) bs"

text \<open>The headers of \<open>bs\<close> are linked in order, from predecessor \<open>p\<close> to successor \<open>q\<close>.\<close>

fun seg :: "(addr \<Rightarrow> header_t) \<Rightarrow> addr \<Rightarrow> blk list \<Rightarrow> addr \<Rightarrow> bool" where
  "seg h p [] q \<longleftrightarrow> True"
| "seg h p ((a, n, f) # bs) q \<longleftrightarrow>
     h a = \<lparr>magic = KHEAP_MAGIC, hsize = n, is_free = of_bool f, hnext = next_of bs q, hprev = p\<rparr> \<and>
     seg h a bs q"

text \<open>Blocks tile the addresses from \<open>lo\<close> to \<open>hi\<close>.\<close>

fun contig :: "nat \<Rightarrow> blk list \<Rightarrow> nat \<Rightarrow> bool" where
  "contig lo [] hi \<longleftrightarrow> lo = hi"
| "contig lo ((a, n, f) # bs) hi \<longleftrightarrow> unat a = lo \<and> contig (lo + 20 + unat n) bs hi"

fun no_adj_free :: "blk list \<Rightarrow> bool" where
  "no_adj_free (b # c # bs) \<longleftrightarrow> \<not> (bfree b \<and> bfree c) \<and> no_adj_free (c # bs)"
| "no_adj_free _ \<longleftrightarrow> True"

definition heap_rep :: "nat \<Rightarrow> nat \<Rightarrow> kheap_state \<Rightarrow> blk list \<Rightarrow> bool" where
  "heap_rep lo hi s bs \<longleftrightarrow> bs \<noteq> [] \<and> seg (hdr s) 0 bs 0 \<and> heap_start s = next_of bs 0 \<and>
     contig lo bs hi \<and> no_adj_free bs \<and> 8 \<le> lo \<and> hi < 2 ^ 32"

text \<open>First fit with splitting, and freeing as marking followed by merging, on lists.\<close>

fun alloc_blks :: "u32 \<Rightarrow> blk list \<Rightarrow> (addr \<times> blk list) option" where
  "alloc_blks sz [] = None"
| "alloc_blks sz ((a, n, f) # bs) =
     (if f \<and> sz \<le> n
      then Some (a, if unat n \<ge> unat sz + 28
                    then (a, sz, False) # (a + 20 + sz, n - sz - 20, True) # bs
                    else (a, n, False) # bs)
      else map_option (\<lambda>(r, bs'). (r, (a, n, f) # bs')) (alloc_blks sz bs))"

fun coalesce :: "blk list \<Rightarrow> blk list" where
  "coalesce ((a, n, f) # (b, m, g) # bs) =
     (if f \<and> g then coalesce ((a, n + 20 + m, True) # bs) else (a, n, f) # coalesce ((b, m, g) # bs))"
| "coalesce bs = bs"

definition free_blks :: "addr \<Rightarrow> blk list \<Rightarrow> blk list" where
  "free_blks a bs = coalesce (map (\<lambda>(b, n, f). (b, n, f \<or> b = a)) bs)"

subsection \<open>Linked segments\<close>

lemma seg_append:
  "seg h p (xs @ ys) q \<longleftrightarrow> seg h p xs (next_of ys q) \<and> seg h (last_of p xs) ys q"
proof (induction xs arbitrary: p)
  case (Cons x xs)
  have "next_of (xs @ ys) q = next_of xs (next_of ys q)" by (cases xs) auto
  then show ?case using Cons by (cases x) auto
qed simp

lemma seg_cong: "(\<And>a. a \<in> baddr ` set bs \<Longrightarrow> h' a = h a) \<Longrightarrow> seg h' p bs q = seg h p bs q"
proof (induction bs arbitrary: p)
  case (Cons b bs) then show ?case by (cases b) auto
qed simp

lemma seg_frame [simp]: "a \<notin> baddr ` set bs \<Longrightarrow> seg (h(a := x)) p bs q = seg h p bs q"
  by (rule seg_cong) auto

definition set_prev :: "addr \<Rightarrow> addr \<Rightarrow> (addr \<Rightarrow> header_t) \<Rightarrow> addr \<Rightarrow> header_t" where
  "set_prev a p h = (if a = 0 then h else h(a := (h a)\<lparr>hprev := p\<rparr>))"

lemma seg_set_prev:
  "\<lbrakk>seg h p bs 0; distinct (map baddr bs); 0 \<notin> baddr ` set bs\<rbrakk> \<Longrightarrow>
     seg (set_prev (next_of bs 0) p' h) p' bs 0"
  by (cases bs) (auto simp: set_prev_def image_iff)

lemma set_prev_other: "a \<noteq> b \<Longrightarrow> set_prev a p h b = h b"
  by (simp add: set_prev_def)

lemma seg_set_prev_other [simp]:
  "(a \<in> baddr ` set bs \<longrightarrow> a = 0) \<Longrightarrow> seg (set_prev a p' h) p bs q = seg h p bs q"
  by (auto simp: set_prev_def)

lemma contig_append: "contig lo (xs @ ys) hi \<longleftrightarrow> (\<exists>mid. contig lo xs mid \<and> contig mid ys hi)"
proof (induction xs arbitrary: lo)
  case (Cons x xs) then show ?case by (cases x) auto
qed simp

lemma contig_bounds:
  "contig lo bs hi \<Longrightarrow> lo \<le> hi \<and> (\<forall>b \<in> set bs. lo \<le> unat (baddr b) \<and> unat (baddr b) + 20 + unat (bsize b) \<le> hi)"
proof (induction bs arbitrary: lo)
  case (Cons b bs)
  then show ?case by (cases b) fastforce
qed simp

lemma contig_distinct: "contig lo bs hi \<Longrightarrow> distinct (map baddr bs)"
proof (induction bs arbitrary: lo)
  case (Cons b bs)
  obtain a n f where b: "b = (a, n, f)" by (cases b)
  then have "contig (lo + 20 + unat n) bs hi" "unat a = lo" using Cons.prems by auto
  then show ?case using contig_bounds [of "lo + 20 + unat n" bs hi] Cons.IH b by fastforce
qed simp

lemma contig_nonzero: "\<lbrakk>contig lo bs hi; 0 < lo\<rbrakk> \<Longrightarrow> 0 \<notin> baddr ` set bs"
  using contig_bounds [of lo bs hi] by fastforce

subsection \<open>kmalloc\<close>

text \<open>A position of the list, with what the invariant says of its neighbours.\<close>

lemma heap_rep_split:
  assumes "heap_rep lo hi s (xs @ (a, n, f) # ys)"
  shows "seg (hdr s) 0 xs a" "seg (hdr s) a ys 0"
    "hdr s a = \<lparr>magic = KHEAP_MAGIC, hsize = n, is_free = of_bool f, hnext = next_of ys 0, hprev = last_of 0 xs\<rparr>"
    "a \<notin> baddr ` set xs" "a \<notin> baddr ` set ys" "distinct (map baddr ys)" "0 \<notin> baddr ` set ys" "a \<noteq> 0"
    "baddr ` set xs \<inter> baddr ` set ys = {}" "next_of ys 0 \<noteq> a"
    "contig lo xs (unat a)" "contig (unat a + 20 + unat n) ys hi" "lo \<le> unat a" "unat a + 20 + unat n \<le> hi"
proof -
  have s: "seg (hdr s) 0 (xs @ (a, n, f) # ys) 0" "contig lo (xs @ (a, n, f) # ys) hi" "8 \<le> lo"
    using assms by (auto simp: heap_rep_def)
  have d: "distinct (map baddr (xs @ (a, n, f) # ys))" by (rule contig_distinct [OF s(2)])
  have z: "0 \<notin> baddr ` set (xs @ (a, n, f) # ys)" using contig_nonzero [OF s(2)] s(3) by simp
  show "seg (hdr s) 0 xs a" "seg (hdr s) a ys 0"
    "hdr s a = \<lparr>magic = KHEAP_MAGIC, hsize = n, is_free = of_bool f, hnext = next_of ys 0, hprev = last_of 0 xs\<rparr>"
    using s(1) by (auto simp: seg_append)
  show "a \<notin> baddr ` set xs" "a \<notin> baddr ` set ys" "distinct (map baddr ys)" "0 \<notin> baddr ` set ys" "a \<noteq> 0"
    "baddr ` set xs \<inter> baddr ` set ys = {}" using d z by auto
  then show "next_of ys 0 \<noteq> a" by (cases ys) auto
  show "contig lo xs (unat a)" "contig (unat a + 20 + unat n) ys hi"
    using s(2) by (auto simp: contig_append)
  then show "lo \<le> unat a" "unat a + 20 + unat n \<le> hi"
    using contig_bounds by blast+
qed

lemma next_of_in: "next_of ys 0 \<noteq> 0 \<Longrightarrow> next_of ys 0 \<in> baddr ` set ys"
  by (cases ys) auto

lemma next_of_append: "next_of (xs @ ys) q = next_of xs (next_of ys q)"
  by (cases xs) auto

lemma no_adj_free_append:
  "no_adj_free (xs @ y # ys) \<longleftrightarrow> no_adj_free (xs @ [y]) \<and> no_adj_free (y # ys)"
proof (induction xs)
  case (Cons x xs) then show ?case by (cases xs) auto
qed simp

lemma no_adj_free_used: "\<not> bfree y \<Longrightarrow> no_adj_free (xs @ [y]) = no_adj_free xs"
proof (induction xs)
  case (Cons x xs) then show ?case by (cases xs) auto
qed simp

lemma no_adj_free_Cons_used: "\<not> bfree y \<Longrightarrow> no_adj_free (y # ys) = no_adj_free ys"
  by (cases ys) auto

lemma no_adj_free_appendD: "no_adj_free (xs @ ys) \<Longrightarrow> no_adj_free xs \<and> no_adj_free ys"
proof (induction xs)
  case (Cons x xs)
  then show ?case by (cases xs; cases ys) auto
qed simp

lemma no_adj_free_same: "bfree x = bfree y \<Longrightarrow> no_adj_free (x # ys) = no_adj_free (y # ys)"
  by (cases ys) auto

lemma no_adj_free_snoc_same: "bfree x = bfree y \<Longrightarrow> no_adj_free (xs @ [x]) = no_adj_free (xs @ [y])"
proof (induction xs)
  case (Cons z zs) then show ?case by (cases zs) auto
qed simp

lemma no_adj_free_split:
  assumes "no_adj_free (xs @ (a, n, f) # ys)"
  shows "no_adj_free (xs @ (a', m, False) # ys)" "no_adj_free (xs @ (a', m, False) # (b, k, f) # ys)"
proof -
  have "no_adj_free xs" "no_adj_free ((a, n, f) # ys)" using no_adj_free_appendD [OF assms] by auto
  then show "no_adj_free (xs @ (a', m, False) # ys)" "no_adj_free (xs @ (a', m, False) # (b, k, f) # ys)"
    using no_adj_free_append [of xs "(a', m, False)"] no_adj_free_same [of "(b, k, f)" "(a, n, f)" ys]
      no_adj_free_appendD [of "[(a, n, f)]" ys]
    by (simp_all add: no_adj_free_used no_adj_free_Cons_used del: no_adj_free.simps(1))
qed

text \<open>Taking the whole block, and splitting it.\<close>

lemma kmalloc_take_whole:
  assumes rep: "heap_rep lo hi s (xs @ (a, n, True) # ys)" and small: "\<not> sz + HEADER_SIZE + 8 \<le> n"
  shows "heap_rep lo hi (kmalloc_take sz a s) (xs @ (a, n, False) # ys)"
proof -
  note S = heap_rep_split [OF rep]
  have "kmalloc_take sz a s = s\<lparr>hdr := (hdr s)(a := (hdr s a)\<lparr>is_free := 0\<rparr>)\<rparr>"
    using S(3) small by (simp add: kmalloc_take_def upd_hdr_def)
  moreover have "no_adj_free (xs @ (a, n, False) # ys)"
    using rep unfolding heap_rep_def by (blast intro: no_adj_free_split)
  ultimately show ?thesis
    using rep S unfolding heap_rep_def by (auto simp: seg_append next_of_append contig_append)
qed

lemma kmalloc_take_split:
  assumes rep: "heap_rep lo hi s (xs @ (a, n, True) # ys)" and big: "unat sz + 28 \<le> unat n"
  shows "heap_rep lo hi (kmalloc_take sz a s) (xs @ (a, sz, False) # (a + 20 + sz, n - sz - 20, True) # ys)"
proof -
  note S = heap_rep_split [OF rep]
  let ?b = "a + 20 + sz"
  have hi: "hi < 2 ^ 32" using rep by (simp add: heap_rep_def)
  have ub: "unat ?b = unat a + 20 + unat sz"
    using S(14) big hi unat_plus_no_wrap [of a 20] unat_plus_no_wrap [of "a + 20" sz] by simp
  have un: "unat (n - sz - 20) = unat n - unat sz - 20"
    using big by (simp add: unat_minus_no_wrap word_le_nat_alt)
  have b_xs: "?b \<notin> baddr ` set xs"
    using contig_bounds [OF S(11)] ub by fastforce
  have b_ys: "?b \<notin> baddr ` set ys"
    using contig_bounds [OF S(12)] ub big by fastforce
  have b_a: "?b \<noteq> a"
  proof
    assume "?b = a"
    from arg_cong [OF this, of unat] show False using ub by linarith
  qed
  have nx: "next_of ys 0 \<noteq> ?b" using b_ys ub next_of_in [of ys] by (metis add_is_0 numeral_neq_zero unat_0)
  have cond: "sz + HEADER_SIZE + 8 \<le> n"
    using big hi S(13,14) unat_plus_no_wrap [of sz 20] unat_plus_no_wrap [of "sz + 20" 8] unat_u32_bound [of n]
    by (simp add: word_le_nat_alt HEADER_SIZE_def)
  have eq: "hdr (kmalloc_take sz a s) =
     (set_prev (next_of ys 0) ?b ((hdr s)(?b := \<lparr>magic = KHEAP_MAGIC, hsize = n - sz - 20, is_free = 1,
        hnext = next_of ys 0, hprev = a\<rparr>)))(a := \<lparr>magic = KHEAP_MAGIC, hsize = sz, is_free = 0,
        hnext = ?b, hprev = last_of 0 xs\<rparr>)"
    using S(3,10) cond b_a nx
    by (simp add: kmalloc_take_def upd_hdr_def Let_def HEADER_SIZE_def set_prev_def fun_eq_iff add.commute)
  have "seg (hdr (kmalloc_take sz a s)) ?b ys 0"
    unfolding eq using S b_ys seg_set_prev [OF _ S(6,7)] by simp
  moreover have "next_of ys 0 \<notin> baddr ` set xs \<or> next_of ys 0 = 0"
    using S(9) next_of_in [of ys] by auto
  then have "seg (hdr (kmalloc_take sz a s)) 0 xs a"
    unfolding eq using S b_xs by simp
  moreover have "hdr (kmalloc_take sz a s) ?b = \<lparr>magic = KHEAP_MAGIC, hsize = n - sz - 20, is_free = 1,
        hnext = next_of ys 0, hprev = a\<rparr>"
    unfolding eq using b_a nx by (simp add: set_prev_other)
  moreover have "heap_start (kmalloc_take sz a s) = heap_start s"
    by (simp add: kmalloc_take_def upd_hdr_def Let_def)
  moreover have "contig (unat a + 20 + unat sz + 20 + unat (n - sz - 20)) ys hi"
    using S(12) un big by (simp add: algebra_simps)
  moreover have "no_adj_free (xs @ (a, sz, False) # (?b, n - sz - 20, True) # ys)"
    using rep unfolding heap_rep_def by (blast intro: no_adj_free_split)
  ultimately show ?thesis
    using rep S(11) ub eq unfolding heap_rep_def by (auto simp: seg_append next_of_append contig_append)
qed

lemma split_cond_iff:
  assumes "unat a + 20 + unat n \<le> hi" "hi < 2 ^ 32" "8 \<le> unat (a :: u32)" "sz \<le> n"
  shows "sz + HEADER_SIZE + 8 \<le> n \<longleftrightarrow> unat sz + 28 \<le> unat n"
proof -
  have "unat sz \<le> unat n" using assms(4) by (simp add: word_le_nat_alt)
  then have "unat (sz + HEADER_SIZE + 8) = unat sz + 28"
    using assms unat_plus_no_wrap [of sz 20] unat_plus_no_wrap [of "sz + 20" 8] by (simp add: HEADER_SIZE_def)
  then show ?thesis by (simp add: word_le_nat_alt)
qed

text \<open>The walk from a position of the list on computes first fit on the rest of it.\<close>

lemma kmalloc_loop_refines:
  assumes "heap_rep lo hi s (xs @ ys)"
  shows "(case alloc_blks sz ys of
      None \<Rightarrow> kmalloc_loop sz s (next_of ys 0) = Some (0, s)
    | Some (a, ys') \<Rightarrow> \<exists>s'. kmalloc_loop sz s (next_of ys 0) = Some (a + HEADER_SIZE, s') \<and>
        heap_rep lo hi s' (xs @ ys'))"
  using assms
proof (induction ys arbitrary: xs)
  case Nil
  then show ?case by (simp add: kmalloc_loop.simps)
next
  case (Cons b ys)
  obtain a n f where b: "b = (a, n, f)" by (cases b)
  note S = heap_rep_split [OF Cons.prems [unfolded b]]
  have lo: "8 \<le> lo" "hi < 2 ^ 32" using Cons.prems by (auto simp: heap_rep_def)
  have step: "kmalloc_loop sz s a =
      (if f \<and> sz \<le> n then Some (a + HEADER_SIZE, kmalloc_take sz a s) else kmalloc_loop sz s (next_of ys 0))"
    using S(3,8) by (subst kmalloc_loop.simps) auto
  show ?case
  proof (cases "f \<and> sz \<le> n")
    case True
    then have "f = True" by simp
    then show ?thesis
      using step b True kmalloc_take_whole [of lo hi s xs a n ys sz] kmalloc_take_split [of lo hi s xs a n ys sz]
        Cons.prems split_cond_iff [OF S(14) lo(2), of sz] S(13) lo(1) by auto
  next
    case False
    then show ?thesis using step b Cons.IH [of "xs @ [b]"] Cons.prems by (auto split: option.splits)
  qed
qed

subsection \<open>kfree\<close>

lemma coalesce_no_adj: "no_adj_free bs \<Longrightarrow> coalesce bs = bs"
  by (induction bs rule: coalesce.induct) auto

lemma coalesce_append:
  "no_adj_free (xs @ [(a, n, f)]) \<Longrightarrow>
     coalesce (xs @ (a, n, f) # ys) = xs @ coalesce ((a, n, f) # ys)"
proof (induction xs)
  case (Cons x xs)
  obtain c k g where x: "x = (c, k, g)" by (cases x)
  show ?case
  proof (cases xs)
    case Nil
    then show ?thesis using Cons.prems x by auto
  next
    case (Cons y ys')
    then show ?thesis using Cons.prems Cons.IH x by (cases y) auto
  qed
qed simp

text \<open>One merge of a block with its successor, on the headers.\<close>

lemma seg_merge:
  assumes "seg h p (xs @ (a, n, f) # (b, m, g) # ys) 0" "distinct (map baddr (xs @ (a, n, f) # (b, m, g) # ys))"
    "0 \<notin> baddr ` set (xs @ (a, n, f) # (b, m, g) # ys)"
  shows "seg (set_prev (next_of ys 0) a (h(a := (h a)\<lparr>hsize := n + (20 + m), hnext := next_of ys 0\<rparr>)))
    p (xs @ (a, n + 20 + m, f) # ys) 0"
proof -
  let ?h = "h(a := (h a)\<lparr>hsize := n + (20 + m), hnext := next_of ys 0\<rparr>)"
  have ny: "next_of ys 0 \<noteq> a" "next_of ys 0 \<in> baddr ` set xs \<longrightarrow> next_of ys 0 = 0"
    using assms(2,3) next_of_in [of ys] by (cases ys; auto)+
  have "seg ?h b ys 0" using assms(1,2) by (simp add: seg_append)
  then have "seg (set_prev (next_of ys 0) a ?h) a ys 0"
    using assms(2,3) by (intro seg_set_prev) auto
  moreover have "seg (set_prev (next_of ys 0) a ?h) p xs a"
    using assms(1,2) ny(2) by (simp add: seg_append)
  ultimately show ?thesis
    using assms(1) ny(1) by (simp add: seg_append set_prev_other algebra_simps)
qed

lemma contig_merge:
  assumes "contig lo (xs @ (a, n, f) # (b, m, g) # ys) hi" "hi < 2 ^ 32"
  shows "contig lo (xs @ (a, n + 20 + m, f') # ys) hi"
proof -
  obtain mid where mid: "contig lo xs mid" "unat a = mid" "contig (mid + 20 + unat n + 20 + unat m) ys hi"
    using assms(1) by (auto simp: contig_append)
  have "mid + 20 + unat n + 20 + unat m \<le> hi" using contig_bounds [OF mid(3)] by simp
  then have "unat (n + 20 + m) = unat n + 20 + unat m"
    using assms(2) unat_plus_no_wrap [of n 20] unat_plus_no_wrap [of "n + 20" m] by simp
  then show ?thesis using mid by (auto simp: contig_append algebra_simps)
qed

text \<open>\<open>linked\<close> is the invariant without the requirement that free blocks are merged.\<close>

definition linked :: "nat \<Rightarrow> nat \<Rightarrow> kheap_state \<Rightarrow> blk list \<Rightarrow> bool" where
  "linked lo hi s bs \<longleftrightarrow> bs \<noteq> [] \<and> seg (hdr s) 0 bs 0 \<and> heap_start s = next_of bs 0 \<and>
     contig lo bs hi \<and> 8 \<le> lo \<and> hi < 2 ^ 32"

lemma heap_rep_linked: "heap_rep lo hi s bs \<longleftrightarrow> linked lo hi s bs \<and> no_adj_free bs"
  by (auto simp: heap_rep_def linked_def)

definition absorb :: "addr \<Rightarrow> addr \<Rightarrow> kheap_state \<Rightarrow> kheap_state" where
  "absorb a b s =
     s\<lparr>hdr := set_prev (hnext (hdr s b)) a ((hdr s)(a := (hdr s a)\<lparr>
         hsize := hsize (hdr s a) + (20 + hsize (hdr s b)), hnext := hnext (hdr s b)\<rparr>))\<rparr>"

lemma absorb_linked:
  assumes "linked lo hi s (xs @ (a, n, f) # (b, m, g) # ys)"
  shows "linked lo hi (absorb a b s) (xs @ (a, n + 20 + m, f) # ys)"
proof -
  let ?bs = "xs @ (a, n, f) # (b, m, g) # ys"
  have L: "seg (hdr s) 0 ?bs 0" "contig lo ?bs hi" "8 \<le> lo" "hi < 2 ^ 32" "heap_start s = next_of ?bs 0"
    using assms by (auto simp: linked_def)
  have ds: "distinct (map baddr ?bs)" "0 \<notin> baddr ` set ?bs"
    using contig_distinct [OF L(2)] contig_nonzero [OF L(2)] L(3) by simp_all
  have "hdr (absorb a b s) = set_prev (next_of ys 0) a ((hdr s)(a := (hdr s a)\<lparr>hsize := n + (20 + m), hnext := next_of ys 0\<rparr>))"
    using L(1) by (simp add: absorb_def seg_append)
  then show ?thesis
    using seg_merge [OF L(1) ds] contig_merge [OF L(2,4), of f] L(3-5)
    by (simp add: linked_def next_of_append) (simp add: absorb_def)
qed

text \<open>\<^verbatim>\<open>kfree\<close> as marking followed by at most two merges.\<close>

lemma kfree_steps:
  assumes "linked lo hi s (xs @ (a, n, False) # ys)"
  defines "s1 \<equiv> upd_hdr a (\<lambda>h. h\<lparr>is_free := 1\<rparr>) s"
  defines "s2 \<equiv> (if next_of ys 0 \<noteq> 0 \<and> is_free (hdr s1 (next_of ys 0)) \<noteq> 0 then absorb a (next_of ys 0) s1 else s1)"
  shows "linked lo hi s1 (xs @ (a, n, True) # ys)"
    "kfree (a + HEADER_SIZE) s =
      (if hprev (hdr s2 a) \<noteq> 0 \<and> is_free (hdr s2 (hprev (hdr s2 a))) \<noteq> 0
       then absorb (hprev (hdr s2 a)) a s2 else s2)"
proof -
  have L: "seg (hdr s) 0 (xs @ (a, n, False) # ys) 0" "contig lo (xs @ (a, n, False) # ys) hi" "8 \<le> lo" "hi < 2 ^ 32"
    using assms(1) by (auto simp: linked_def)
  have ha: "hdr s a = \<lparr>magic = KHEAP_MAGIC, hsize = n, is_free = 0, hnext = next_of ys 0, hprev = last_of 0 xs\<rparr>"
    using L(1) by (simp add: seg_append)
  have ni: "a \<notin> baddr ` set xs" "a \<notin> baddr ` set ys" using contig_distinct [OF L(2)] by auto
  show "linked lo hi s1 (xs @ (a, n, True) # ys)"
    using assms(1) ha ni unfolding linked_def s1_def
    by (simp add: seg_append upd_hdr_def next_of_append contig_append)
  have "unat a + 20 \<le> hi" using contig_bounds [OF L(2)] by auto
  then have "unat (a + HEADER_SIZE) = unat a + 20"
    using L(4) unat_plus_no_wrap [of a 20] by (simp add: HEADER_SIZE_def)
  then have "a + HEADER_SIZE \<noteq> 0" by (metis add_is_0 numeral_neq_zero unat_0)
  moreover have "hnext (hdr s1 a) = next_of ys 0" using ha by (simp add: s1_def upd_hdr_def)
  ultimately show "kfree (a + HEADER_SIZE) s =
      (if hprev (hdr s2 a) \<noteq> 0 \<and> is_free (hdr s2 (hprev (hdr s2 a))) \<noteq> 0
       then absorb (hprev (hdr s2 a)) a s2 else s2)"
    unfolding s2_def using ha
    by (simp add: kfree_def Let_def flip: s1_def)
      (simp add: absorb_def set_prev_def upd_hdr_def HEADER_SIZE_def)
qed

lemma coalesce_merge:
  "coalesce (xs @ (a, n, True) # (b, m, True) # ys) = coalesce (xs @ (a, n + 20 + m, True) # ys)"
proof (induction xs rule: length_induct)
  case (1 xs)
  show ?case
  proof (cases xs)
    case Nil then show ?thesis by simp
  next
    case (Cons x xs')
    obtain c k g where x: "x = (c, k, g)" by (cases x)
    show ?thesis
    proof (cases xs')
      case Nil then show ?thesis using Cons x by (simp add: algebra_simps)
    next
      case (Cons y zs)
      obtain d l h where y: "y = (d, l, h)" by (cases y)
      have IH: "length zs' < length xs \<Longrightarrow>
          coalesce (zs' @ (a, n, True) # (b, m, True) # ys) = coalesce (zs' @ (a, n + 20 + m, True) # ys)" for zs'
        using 1 by blast
      show ?thesis
        using IH [of "(c, k + 20 + l, True) # zs"] IH [of "(d, l, h) # zs"] \<open>xs = x # xs'\<close> Cons x y by simp
    qed
  qed
qed

lemma merge_next:
  assumes "linked lo hi s (xs @ (a, n, True) # ys)" "no_adj_free ys"
  defines "s2 \<equiv> (if next_of ys 0 \<noteq> 0 \<and> is_free (hdr s (next_of ys 0)) \<noteq> 0 then absorb a (next_of ys 0) s else s)"
  obtains n' ys' where "linked lo hi s2 (xs @ (a, n', True) # ys')" "no_adj_free ((a, n', True) # ys')"
    "coalesce (xs @ (a, n, True) # ys) = coalesce (xs @ (a, n', True) # ys')"
proof (cases ys)
  case Nil
  then show ?thesis using that [of n ys] assms(1) by (simp add: s2_def)
next
  case (Cons y zs)
  obtain b m g where y: "y = (b, m, g)" by (cases y)
  have L: "linked lo hi s (xs @ (a, n, True) # (b, m, g) # zs)" using assms(1) Cons y by simp
  then have "seg (hdr s) 0 (xs @ (a, n, True) # (b, m, g) # zs) 0" "b \<noteq> 0"
    using contig_nonzero [of lo "xs @ (a, n, True) # (b, m, g) # zs" hi] by (auto simp: linked_def)
  then have free: "is_free (hdr s b) = of_bool g" "b \<noteq> 0" by (auto simp: seg_append)
  show ?thesis
  proof (cases g)
    case True
    then have "s2 = absorb a b s" using free Cons y by (simp add: s2_def)
    then show ?thesis
      using that [of "n + 20 + m" zs] absorb_linked [OF L] assms(2) True Cons y
        no_adj_free_same [of "(a, n + 20 + m, True)" "(b, m, True)" zs] by (simp add: coalesce_merge)
  next
    case False
    then have "s2 = s" using free Cons y by (simp add: s2_def)
    then show ?thesis using that [of n ys] assms False Cons y by simp
  qed
qed

lemma merge_prev:
  assumes "linked lo hi s (xs @ (a, n, True) # ys)" "no_adj_free xs" "no_adj_free ((a, n, True) # ys)"
  shows "heap_rep lo hi
    (if hprev (hdr s a) \<noteq> 0 \<and> is_free (hdr s (hprev (hdr s a))) \<noteq> 0 then absorb (hprev (hdr s a)) a s else s)
    (coalesce (xs @ (a, n, True) # ys))" (is "heap_rep lo hi ?s _")
proof (cases xs rule: rev_cases)
  case Nil
  then show ?thesis using assms by (simp add: heap_rep_linked coalesce_no_adj linked_def)
next
  case (snoc zs z)
  obtain c k g where z: "z = (c, k, g)" by (cases z)
  have L: "linked lo hi s (zs @ (c, k, g) # (a, n, True) # ys)" using assms(1) snoc z by simp
  then have "seg (hdr s) 0 (zs @ (c, k, g) # (a, n, True) # ys) 0" "c \<noteq> 0"
    using contig_nonzero [of lo "zs @ (c, k, g) # (a, n, True) # ys" hi] by (auto simp: linked_def)
  then have h: "is_free (hdr s c) = of_bool g" "hprev (hdr s a) = c" "c \<noteq> 0" by (auto simp: seg_append)
  show ?thesis
  proof (cases g)
    case True
    let ?r = "zs @ (c, k + 20 + n, True) # ys"
    have "no_adj_free ((c, k + 20 + n, True) # ys)"
      using assms(3) no_adj_free_same [of "(c, k + 20 + n, True)" "(a, n, True)" ys] by simp
    moreover have "no_adj_free (zs @ [(c, k + 20 + n, True)])"
      using assms(2) snoc z True no_adj_free_snoc_same [of "(c, k + 20 + n, True)" z zs] by simp
    ultimately have adj: "no_adj_free ?r" using no_adj_free_append [of zs "(c, k + 20 + n, True)" ys] by simp
    have "coalesce (xs @ (a, n, True) # ys) = ?r"
      using coalesce_merge [of zs c k a n ys] coalesce_no_adj [OF adj] snoc z True by simp
    moreover have "heap_rep lo hi (absorb c a s) ?r"
      using absorb_linked [OF L] adj True by (simp only: heap_rep_linked simp_thms)
    moreover have "?s = absorb c a s" using h True by simp
    ultimately show ?thesis by simp
  next
    case False
    then have adj: "no_adj_free (xs @ (a, n, True) # ys)"
      using assms(2,3) snoc z no_adj_free_append [of zs z "(a, n, True) # ys"] no_adj_free_Cons_used [of z]
      by simp
    moreover have "?s = s" using h False by simp
    ultimately show ?thesis using assms(1) coalesce_no_adj [OF adj] by (simp only: heap_rep_linked simp_thms)
  qed
qed

lemma kfree_refines:
  assumes rep: "heap_rep lo hi s bs" and mem: "(a, n, False) \<in> set bs"
  shows "heap_rep lo hi (kfree (a + HEADER_SIZE) s) (free_blks a bs)"
proof -
  obtain xs ys where bs: "bs = xs @ (a, n, False) # ys" using mem by (auto dest: split_list)
  have L: "linked lo hi s (xs @ (a, n, False) # ys)" and adj: "no_adj_free (xs @ (a, n, False) # ys)"
    using rep bs by (auto simp: heap_rep_linked)
  have "a \<notin> baddr ` set xs" "a \<notin> baddr ` set ys" using heap_rep_split(4,5) rep bs by blast+
  then have "map (\<lambda>(b, n, f). (b, n, f \<or> b = a)) xs = xs" "map (\<lambda>(b, n, f). (b, n, f \<or> b = a)) ys = ys"
    by (force intro!: map_idI)+
  then have fb: "free_blks a bs = coalesce (xs @ (a, n, True) # ys)" using bs by (simp add: free_blks_def)
  have na: "no_adj_free xs" "no_adj_free ys"
    using no_adj_free_appendD [OF adj] no_adj_free_appendD [of "[(a, n, False)]" ys] by auto
  show ?thesis
  proof (rule merge_next [OF kfree_steps(1) [OF L] na(2)], goal_cases)
    case (1 n' ys')
    then show ?case using merge_prev [OF 1(1) na(1) 1(2)] unfolding kfree_steps(2) [OF L] fb by simp
  qed
qed

subsection \<open>Laws of the abstract heap\<close>

lemma alloc_blks_Some:
  "alloc_blks sz bs = Some (a, bs') \<Longrightarrow>
     \<exists>xs n ys. bs = xs @ (a, n, True) # ys \<and> sz \<le> n \<and>
       bs' = xs @ (if unat n \<ge> unat sz + 28 then (a, sz, False) # (a + 20 + sz, n - sz - 20, True) # ys
                   else (a, n, False) # ys)"
proof (induction bs arbitrary: bs')
  case (Cons b bs)
  obtain c k g where b: "b = (c, k, g)" by (cases b)
  show ?case
  proof (cases "g \<and> sz \<le> k")
    case True
    then show ?thesis using Cons.prems b by (intro exI [of _ "[]"]) auto
  next
    case False
    then obtain cs where "alloc_blks sz bs = Some (a, cs)" "bs' = b # cs"
      using Cons.prems b by auto
    then show ?thesis using Cons.IH [of cs] b by (metis append_Cons)
  qed
qed simp

lemma alloc_free_blks:
  assumes "alloc_blks sz bs = Some (a, bs')" "no_adj_free bs" "distinct (map baddr bs)"
  shows "free_blks a bs' = bs"
proof -
  obtain xs n ys where bs: "bs = xs @ (a, n, True) # ys" "sz \<le> n"
    and bs': "bs' = xs @ (if unat n \<ge> unat sz + 28 then (a, sz, False) # (a + 20 + sz, n - sz - 20, True) # ys
                   else (a, n, False) # ys)"
    using alloc_blks_Some [OF assms(1)] by blast
  have "a \<notin> baddr ` set xs" "a \<notin> baddr ` set ys" using assms(3) bs by auto
  then have m: "map (\<lambda>(b, n, f). (b, n, f \<or> b = a)) xs = xs" "map (\<lambda>(b, n, f). (b, n, f \<or> b = a)) ys = ys"
    by (force intro!: map_idI)+
  have "free_blks a bs' = coalesce (xs @ (a, n, True) # ys)"
    using bs' m coalesce_merge [of xs a sz "a + 20 + sz" "n - sz - 20" ys]
    by (auto simp: free_blks_def)
  then show ?thesis using assms(2) bs(1) by (simp add: coalesce_no_adj)
qed

lemma kmalloc_round_bounds:
  assumes "unat sz \<le> 2 ^ 32 - 8"
  shows "sz \<le> kmalloc_round sz" "8 dvd unat (kmalloc_round sz)"
proof -
  have e: "unat (sz + 7) = unat sz + 7" using assms unat_plus_no_wrap [of sz 7] by simp
  have "kmalloc_round sz = (sz + 7) AND NOT (mask 3)" by (simp add: kmalloc_round_def mask_eq_exp_minus_1)
  then have "unat (kmalloc_round sz) = (unat sz + 7) div 8 * 8"
    using e unat_and_not_mask [of "sz + 7" 3] by simp
  then show "sz \<le> kmalloc_round sz" "8 dvd unat (kmalloc_round sz)"
    by (simp_all add: word_le_nat_alt)
qed

subsection \<open>The heap interface\<close>

definition disj :: "addr \<times> u32 \<Rightarrow> addr \<times> u32 \<Rightarrow> bool" where
  "disj x y \<longleftrightarrow> unat (fst x) + unat (snd x) \<le> unat (fst y) \<or> unat (fst y) + unat (snd y) \<le> unat (fst x)"

fun alloc_many :: "(u32 \<Rightarrow> 's \<Rightarrow> (addr \<times> 's) option) \<Rightarrow> u32 list \<Rightarrow> 's \<Rightarrow> (addr list \<times> 's) option" where
  "alloc_many alloc [] s = Some ([], s)"
| "alloc_many alloc (n # ns) s =
     (case alloc n s of
        None \<Rightarrow> None
      | Some (p, s1) \<Rightarrow> (case alloc_many alloc ns s1 of None \<Rightarrow> None | Some (ps, s2) \<Rightarrow> Some (p # ps, s2)))"

text \<open>
  \<open>live s L\<close>: in state \<open>s\<close> the payloads handed out are the pairs (address, size) of \<open>L\<close>.
\<close>

locale heap_allocator =
  fixes alloc :: "u32 \<Rightarrow> 's \<Rightarrow> (addr \<times> 's) option"
    and free :: "addr \<Rightarrow> 's \<Rightarrow> 's"
    and live :: "'s \<Rightarrow> (addr \<times> u32) set \<Rightarrow> bool"
    and ok :: "u32 \<Rightarrow> bool"
  assumes alloc_total: "live s L \<Longrightarrow> \<exists>p s'. alloc n s = Some (p, s')"
    and alloc_null: "\<lbrakk>live s L; alloc n s = Some (0, s')\<rbrakk> \<Longrightarrow> s' = s"
    and alloc_live: "\<lbrakk>live s L; alloc n s = Some (p, s'); p \<noteq> 0\<rbrakk> \<Longrightarrow>
      \<exists>m. live s' (insert (p, m) L) \<and> (\<forall>x \<in> L. disj x (p, m)) \<and> (ok n \<longrightarrow> n \<le> m)"
    and free_live: "\<lbrakk>live s L; (p, m) \<in> L\<rbrakk> \<Longrightarrow> live (free p s) (L - {(p, m)})"
begin

lemma alloc_many_total: "live s L \<Longrightarrow> \<exists>ps s'. alloc_many alloc ns s = Some (ps, s')"
proof (induction ns arbitrary: s L)
  case (Cons n ns)
  obtain p s1 where a: "alloc n s = Some (p, s1)" using alloc_total [OF Cons.prems] by blast
  have "\<exists>L1. live s1 L1"
    using alloc_null [OF Cons.prems, of n s1] alloc_live [OF Cons.prems a] a Cons.prems by (cases "p = 0") auto
  then obtain ps s' where "alloc_many alloc ns s1 = Some (ps, s')" using Cons.IH by blast
  then show ?case using a by simp
qed simp

text \<open>The blocks that the successful requests of a sequence got: address and length.\<close>

lemma alloc_many_disjoint:
  "\<lbrakk>live s L; alloc_many alloc ns s = Some (ps, s')\<rbrakk> \<Longrightarrow>
     \<exists>ms. length ms = length ps \<and> length ns = length ps \<and>
       (let got = filter (\<lambda>x. fst x \<noteq> 0) (zip ps ms) in
         live s' (L \<union> set got) \<and> (\<forall>x \<in> L. \<forall>y \<in> set got. disj x y) \<and> sorted_wrt disj got) \<and>
       (\<forall>i < length ps. ps ! i \<noteq> 0 \<and> ok (ns ! i) \<longrightarrow> ns ! i \<le> ms ! i)"
proof (induction ns arbitrary: s L ps)
  case (Cons n ns)
  obtain p s1 qs where a: "alloc n s = Some (p, s1)" "alloc_many alloc ns s1 = Some (qs, s')" "ps = p # qs"
    using Cons.prems(2) by (auto split: option.splits)
  obtain m where m: "live s1 ((if p = 0 then {} else {(p, m)}) \<union> L)" "p \<noteq> 0 \<longrightarrow> (\<forall>x \<in> L. disj x (p, m)) \<and> (ok n \<longrightarrow> n \<le> m)"
    using alloc_live [OF Cons.prems(1) a(1)] alloc_null [OF Cons.prems(1), of n s1] a(1) Cons.prems(1)
    by (cases "p = 0") auto
  obtain ms where ms: "length ms = length qs" "length ns = length qs"
    "let got = filter (\<lambda>x. fst x \<noteq> 0) (zip qs ms) in live s' ((if p = 0 then {} else {(p, m)}) \<union> L \<union> set got) \<and>
       (\<forall>x \<in> (if p = 0 then {} else {(p, m)}) \<union> L. \<forall>y \<in> set got. disj x y) \<and> sorted_wrt disj got"
    "\<forall>i < length qs. qs ! i \<noteq> 0 \<and> ok (ns ! i) \<longrightarrow> ns ! i \<le> ms ! i"
    using Cons.IH [OF m(1) a(2)] by blast
  have "ps ! i \<noteq> 0 \<and> ok ((n # ns) ! i) \<longrightarrow> (n # ns) ! i \<le> (m # ms) ! i" if "i < length ps" for i
    using ms(4) m(2) that a(3) by (cases i) auto
  then show ?case
    using ms m(2) a(3) by (intro exI [of _ "m # ms"]) (auto simp: Let_def Un_ac)
qed auto

end

text \<open>The payloads of the used blocks.\<close>

definition payloads :: "blk list \<Rightarrow> (addr \<times> u32) set" where
  "payloads bs = {(a + HEADER_SIZE, n) | a n. (a, n, False) \<in> set bs}"

definition kheap_live :: "nat \<Rightarrow> nat \<Rightarrow> kheap_state \<Rightarrow> (addr \<times> u32) set \<Rightarrow> bool" where
  "kheap_live lo hi s L \<longleftrightarrow> (\<exists>bs. heap_rep lo hi s bs \<and> L = payloads bs)"

lemma payloads_Cons: "payloads ((a, n, f) # bs) = (if f then {} else {(a + HEADER_SIZE, n)}) \<union> payloads bs"
  by (auto simp: payloads_def)

lemma payloads_append: "payloads (xs @ ys) = payloads xs \<union> payloads ys"
  by (auto simp: payloads_def)

lemma payloads_coalesce: "payloads (coalesce bs) = payloads bs"
  by (induction bs rule: coalesce.induct) (auto simp: payloads_Cons)

lemma payloads_Nil [simp]: "payloads [] = {}"
  by (simp add: payloads_def)

lemma kmalloc_refines:
  assumes "heap_rep lo hi s bs" "sz \<noteq> 0"
  shows "case alloc_blks (kmalloc_round sz) bs of
      None \<Rightarrow> kmalloc sz s = Some (0, s)
    | Some (a, bs') \<Rightarrow> \<exists>s'. kmalloc sz s = Some (a + HEADER_SIZE, s') \<and> heap_rep lo hi s' bs'"
proof -
  have "heap_start s = next_of bs 0" using assms(1) by (simp add: heap_rep_def)
  then show ?thesis
    using kmalloc_loop_refines [of lo hi s "[]" bs "kmalloc_round sz"] assms
    by (auto simp: kmalloc_def split: option.splits)
qed

lemma unat_payload:
  assumes "contig lo bs hi" "hi < 2 ^ 32" "b \<in> set bs"
  shows "unat (baddr b + HEADER_SIZE) = unat (baddr b) + 20"
proof -
  have "unat (baddr b) + 20 \<le> hi" using contig_bounds [OF assms(1)] assms(3) by fastforce
  then show ?thesis using assms(2) unat_plus_no_wrap [of "baddr b" 20] by (simp add: HEADER_SIZE_def)
qed

lemma kmalloc_cases [consumes 1]:
  assumes "heap_rep lo hi s bs"
  obtains (null) "kmalloc sz s = Some (0, s)" "sz = 0 \<or> alloc_blks (kmalloc_round sz) bs = None"
    | (ok) a bs' s' where "sz \<noteq> 0" "alloc_blks (kmalloc_round sz) bs = Some (a, bs')"
      "kmalloc sz s = Some (a + HEADER_SIZE, s')" "heap_rep lo hi s' bs'" "a + HEADER_SIZE \<noteq> 0"
proof (cases "sz = 0 \<or> alloc_blks (kmalloc_round sz) bs = None")
  case True
  then show ?thesis using null kmalloc_refines [OF assms, of sz] by (auto simp: kmalloc_def)
next
  case False
  then obtain a bs' where al: "sz \<noteq> 0" "alloc_blks (kmalloc_round sz) bs = Some (a, bs')" by auto
  then obtain s' where s': "kmalloc sz s = Some (a + HEADER_SIZE, s')" "heap_rep lo hi s' bs'"
    using kmalloc_refines [OF assms al(1)] by auto
  obtain xs n ys where "bs = xs @ (a, n, True) # ys" using alloc_blks_Some [OF al(2)] by blast
  then have "(a, n, True) \<in> set bs" by simp
  then have "unat (a + HEADER_SIZE) = unat a + 20"
    using assms unat_payload [of lo bs hi "(a, n, True)"] by (simp add: heap_rep_def)
  then have "a + HEADER_SIZE \<noteq> 0" by (metis add_is_0 numeral_neq_zero unat_0)
  then show ?thesis using ok al s' by blast
qed

text \<open>Two different blocks of the list do not overlap.\<close>

lemma contig_disj:
  "\<lbrakk>contig lo (xs @ (a, n, f) # ys) hi; b \<in> set xs \<union> set ys\<rbrakk> \<Longrightarrow>
     unat (baddr b) + 20 + unat (bsize b) \<le> unat a \<or> unat a + 20 + unat n \<le> unat (baddr b)"
  using contig_bounds [of lo xs "unat a"] contig_bounds [of "unat a + 20 + unat n" ys hi]
  by (auto simp: contig_append)

lemma alloc_blks_live:
  assumes "heap_rep lo hi s bs" "alloc_blks sz bs = Some (a, bs')"
  shows "\<exists>m. payloads bs' = insert (a + HEADER_SIZE, m) (payloads bs) \<and>
    (\<forall>x \<in> payloads bs. disj x (a + HEADER_SIZE, m)) \<and> sz \<le> m"
proof -
  obtain xs n ys where bs: "bs = xs @ (a, n, True) # ys" "sz \<le> n"
    and bs': "bs' = xs @ (if unat n \<ge> unat sz + 28 then (a, sz, False) # (a + 20 + sz, n - sz - 20, True) # ys
                   else (a, n, False) # ys)"
    using alloc_blks_Some [OF assms(2)] by blast
  have C: "contig lo bs hi" "hi < 2 ^ 32" using assms(1) by (auto simp: heap_rep_def)
  have "disj x (a + HEADER_SIZE, m)" if x: "x \<in> payloads bs" and m: "m \<le> n" for x m
  proof -
    obtain b where b: "b \<in> set bs" "\<not> bfree b" "x = (baddr b + HEADER_SIZE, bsize b)"
      using x by (force simp: payloads_def)
    then have "b \<in> set xs \<union> set ys" using bs by auto
    then have "unat (baddr b) + 20 + unat (bsize b) \<le> unat a \<or> unat a + 20 + unat n \<le> unat (baddr b)"
      using contig_disj C bs by blast
    moreover have "unat (a + HEADER_SIZE) = unat a + 20"
      using unat_payload [OF C, of "(a, n, True)"] bs by simp
    ultimately show ?thesis
      using unat_payload [OF C b(1)] b(3) m by (auto simp: disj_def word_le_nat_alt)
  qed
  moreover have "payloads bs' = insert (a + HEADER_SIZE, if unat n \<ge> unat sz + 28 then sz else n) (payloads bs)"
    using bs bs' by (auto simp: payloads_append payloads_Cons)
  ultimately show ?thesis using bs(2)
    by (intro exI [of _ "if unat n \<ge> unat sz + 28 then sz else n"]) auto
qed

lemma free_blks_payloads:
  assumes "contig lo bs hi" "(a, n, False) \<in> set bs"
  shows "payloads (free_blks a bs) = payloads bs - {(a + HEADER_SIZE, n)}"
proof -
  have u: "m = n \<and> f = False" if "(a, m, f) \<in> set bs" for m f
    using eq_key_imp_eq_value [OF contig_distinct [OF assms(1)] that assms(2)] by simp
  have "(b, k, False) \<in> set (map (\<lambda>(b, n, f). (b, n, f \<or> b = a)) bs) \<longleftrightarrow> (b, k, False) \<in> set bs \<and> b \<noteq> a" for b k
    by force
  then have "payloads (map (\<lambda>(b, n, f). (b, n, f \<or> b = a)) bs) = payloads bs - {(a + HEADER_SIZE, n)}"
    unfolding payloads_def using u by auto
  then show ?thesis by (simp add: free_blks_def payloads_coalesce)
qed

text \<open>A successful allocation in terms of block lists, with the way back.\<close>

lemma kmalloc_outcomes [consumes 1]:
  assumes "heap_rep lo hi s bs"
  obtains (null) "kmalloc sz s = Some (0, s)"
    | (ok) p m bs' s' where "kmalloc sz s = Some (p, s')" "p \<noteq> 0" "heap_rep lo hi s' bs'"
      "payloads bs' = insert (p, m) (payloads bs)" "p \<notin> fst ` payloads bs"
      "\<And>h. heap_rep lo hi h bs' \<Longrightarrow> heap_rep lo hi (kfree p h) bs"
  using assms
proof (cases rule: kmalloc_cases [where sz = sz])
  case null
  then show ?thesis using that(1) by blast
next
  case (ok a bs' s')
  have adj: "no_adj_free bs" and ct: "contig lo bs hi" using assms by (simp_all add: heap_rep_def)
  obtain xs n ys where bs: "bs = xs @ (a, n, True) # ys" using alloc_blks_Some [OF ok(2)] by blast
  have "a \<notin> baddr ` (set xs \<union> set ys)" using contig_distinct [OF ct] bs by auto
  then have "a + HEADER_SIZE \<notin> fst ` payloads bs"
    unfolding bs payloads_append payloads_Cons by (force simp: payloads_def)
  moreover obtain m where "payloads bs' = insert (a + HEADER_SIZE, m) (payloads bs)"
    using alloc_blks_live [OF assms ok(2)] by blast
  moreover have "heap_rep lo hi (kfree (a + HEADER_SIZE) h) bs" if h: "heap_rep lo hi h bs'" for h
  proof -
    have "free_blks a bs' = bs" by (rule alloc_free_blks [OF ok(2) adj contig_distinct [OF ct]])
    moreover have "\<exists>k. (a, k, False) \<in> set bs'" using alloc_blks_Some [OF ok(2)] by (auto split: if_splits)
    ultimately show ?thesis using kfree_refines [OF h] by auto
  qed
  ultimately show ?thesis using that(2) ok by blast
qed

interpretation kheap: heap_allocator kmalloc kfree "kheap_live lo hi" "\<lambda>n. unat n \<le> 2 ^ 32 - 8" for lo hi
proof (unfold_locales, goal_cases)
  case (1 s L n)
  then obtain bs where "heap_rep lo hi s bs" by (auto simp: kheap_live_def)
  then show ?case by (cases rule: kmalloc_cases [where sz = n]) auto
next
  case (2 s L n s')
  then obtain bs where "heap_rep lo hi s bs" by (auto simp: kheap_live_def)
  then show ?case by (cases rule: kmalloc_cases [where sz = n]) (use 2 in auto)
next
  case (3 s L n p s')
  then obtain bs where bs: "heap_rep lo hi s bs" "L = payloads bs" by (auto simp: kheap_live_def)
  from bs(1) show ?case
  proof (cases rule: kmalloc_cases [where sz = n])
    case null
    then show ?thesis using 3 by simp
  next
    case (ok a bs' t)
    obtain m where "payloads bs' = insert (a + HEADER_SIZE, m) (payloads bs)"
      "\<forall>x \<in> payloads bs. disj x (a + HEADER_SIZE, m)" "kmalloc_round n \<le> m"
      using alloc_blks_live [OF bs(1) ok(2)] by blast
    then show ?thesis
      using ok 3 bs(2) kmalloc_round_bounds(1) [of n] unfolding kheap_live_def
      by (intro exI [of _ m]) fastforce
  qed
next
  case (4 s L p m)
  then obtain bs where bs: "heap_rep lo hi s bs" "L = payloads bs" by (auto simp: kheap_live_def)
  then obtain a where a: "(a, m, False) \<in> set bs" "p = a + HEADER_SIZE" using 4(2) by (auto simp: payloads_def)
  have "contig lo bs hi" using bs(1) by (simp add: heap_rep_def)
  then show ?case
    using kfree_refines [OF bs(1) a(1)] free_blks_payloads a bs(2) unfolding kheap_live_def by blast
qed

subsection \<open>Start-up\<close>

lemma kheap_map_loop_returns:
  "\<lbrakk>unat lim \<le> 0xFFFFF000; unat lim - unat v \<le> n\<rbrakk> \<Longrightarrow> \<exists>vs'. kheap_map_loop lim v phys vs = Some vs'"
proof (induction n arbitrary: v phys vs rule: less_induct)
  case (less n)
  show ?case
  proof (cases "v < lim")
    case True
    then have lt: "unat v < unat lim" by (simp add: word_less_nat_alt)
    then have "unat (v + 4096) = unat v + 4096" using less.prems(1) unat_plus_no_wrap [of v 4096] by simp
    then have "\<exists>vs'. kheap_map_loop lim (v + 4096) phys' t = Some vs'" for phys' t
      using less.IH [of "n - 1" "v + 4096" phys' t] less.prems lt by simp
    then show ?thesis by (subst kheap_map_loop.simps) (simp add: True)
  next
    case False
    then show ?thesis by (simp add: kheap_map_loop.simps)
  qed
qed

text \<open>A 1 KB heap right after start-up.\<close>

definition kheap_example :: kheap_state where
  "kheap_example = \<lparr>heap_start = 0x1000, hdr = (\<lambda>_. \<lparr>magic = KHEAP_MAGIC, hsize = 1004, is_free = 1,
     hnext = 0, hprev = 0\<rparr>)\<rparr>"

lemma heap_rep_example [simp]: "heap_rep 0x1000 0x1400 kheap_example [(0x1000, 1004, True)]"
  by (simp add: heap_rep_def kheap_example_def)

lemma kheap_live_example [simp]: "kheap_live 0x1000 0x1400 kheap_example {}"
  unfolding kheap_live_def using heap_rep_example payloads_Cons [of "0x1000" 1004 True "[]"] by force

subsection \<open>Properties of the heap\<close>

text \<open>
  C2. \<^verbatim>\<open>kmalloc\<close> always returns and implements first fit: on a well-formed heap it takes the
  first free block that is large enough for the rounded request, splits it when the rest
  can hold a header and 8 bytes, and leaves a well-formed heap; it returns NULL without a
  change exactly when no block fits.
\<close>

theorem kmalloc_first_fit:
  assumes "heap_rep lo hi s bs" "sz \<noteq> 0"
  shows "case alloc_blks (kmalloc_round sz) bs of
      None \<Rightarrow> kmalloc sz s = Some (0, s)
    | Some (a, bs') \<Rightarrow> \<exists>s'. kmalloc sz s = Some (a + HEADER_SIZE, s') \<and> heap_rep lo hi s' bs'"
  by (rule kmalloc_refines [OF assms])

theorem kmalloc_first_fit_witness:
  "\<exists>s'. kmalloc 100 kheap_example = Some (0x1014, s') \<and>
     heap_rep 0x1000 0x1400 s' [(0x1000, 104, False), (0x107C, 880, True)]"
proof -
  have "kmalloc_round 100 = 104" by (simp add: kmalloc_round_def)
  then show ?thesis
    using kmalloc_first_fit [OF heap_rep_example, of 100] by (simp add: HEADER_SIZE_def)
qed

text \<open>
  C1. Memory safety of the heap: whatever sequence of requests is made, the calls all return, and
  the payloads that the successful ones of them got (those with a result other than NULL) are
  pairwise disjoint, disjoint from every payload that was live before, and live afterwards. Each
  of them is at least as long as its request, for requests of at most \<open>2\<^sup>32 - 8\<close> bytes; larger
  ones wrap around in the rounding.
\<close>

theorem kmalloc_disjoint:
  assumes "kheap_live lo hi s L"
  shows "\<exists>ps s' ms. alloc_many kmalloc ns s = Some (ps, s') \<and> length ms = length ps \<and> length ns = length ps \<and>
    (let got = filter (\<lambda>x. fst x \<noteq> 0) (zip ps ms) in
       kheap_live lo hi s' (L \<union> set got) \<and> (\<forall>x \<in> L. \<forall>y \<in> set got. disj x y) \<and> sorted_wrt disj got) \<and>
    (\<forall>i < length ps. ps ! i \<noteq> 0 \<and> unat (ns ! i) \<le> 2 ^ 32 - 8 \<longrightarrow> ns ! i \<le> ms ! i)"
  using kheap.alloc_many_total [OF assms, of ns] kheap.alloc_many_disjoint [OF assms, of ns] by blast

text \<open>Three requests of which the second does not fit.\<close>

lemma kmalloc_example:
  "\<exists>s'. alloc_many kmalloc [100, 2000, 8] kheap_example = Some ([0x1014, 0, 0x1090], s')"
proof -
  have r: "kmalloc_round 100 = 104" "kmalloc_round 2000 = 2000" "kmalloc_round 8 = 8" by (simp_all add: kmalloc_round_def)
  obtain s1 where s1: "kmalloc 100 kheap_example = Some (0x1014, s1)" "heap_rep 0x1000 0x1400 s1 [(0x1000, 104, False), (0x107C, 880, True)]"
    using kmalloc_refines [OF heap_rep_example, of 100] r(1) by (auto simp: HEADER_SIZE_def)
  have "kmalloc 2000 s1 = Some (0, s1)" using kmalloc_refines [OF s1(2), of 2000] r(2) by simp
  moreover obtain s2 where "kmalloc 8 s1 = Some (0x1090, s2)"
    using kmalloc_refines [OF s1(2), of 8] r(3) by (auto simp: HEADER_SIZE_def)
  ultimately show ?thesis using s1(1) by simp
qed

theorem kmalloc_disjoint_witness:
  "\<exists>s' a c. alloc_many kmalloc [100, 2000, 8] kheap_example = Some ([0x1014, 0, 0x1090], s') \<and>
     disj (0x1014, a) (0x1090, c) \<and> 100 \<le> a \<and> 8 \<le> c \<and> kheap_live 0x1000 0x1400 s' {(0x1014, a), (0x1090, c)}"
proof -
  obtain s' where s': "alloc_many kmalloc [100, 2000, 8] kheap_example = Some ([0x1014, 0, 0x1090], s')"
    using kmalloc_example by blast
  obtain ms where ms: "length ms = 3"
    "let got = filter (\<lambda>x. fst x \<noteq> 0) (zip [0x1014, 0, 0x1090] ms) in kheap_live 0x1000 0x1400 s' ({} \<union> set got) \<and> sorted_wrt disj got"
    "\<forall>i < 3. [0x1014, 0, 0x1090 :: addr] ! i \<noteq> 0 \<and> unat ([100, 2000, 8 :: u32] ! i) \<le> 2 ^ 32 - 8 \<longrightarrow> [100, 2000, 8] ! i \<le> ms ! i"
    using kmalloc_disjoint [OF kheap_live_example, of "[100, 2000, 8]"] s' by (auto simp: numeral_3_eq_3)
  obtain a b c where abc: "ms = [a, b, c]" using ms(1) by (auto simp: numeral_3_eq_3 length_Suc_conv)
  have "100 \<le> a" "8 \<le> c" using ms(3) [rule_format, of 0] ms(3) [rule_format, of 2] by (simp_all add: abc)
  then show ?thesis using ms(2) s' by (auto simp: abc Let_def)
qed

text \<open>
  C3. \<^verbatim>\<open>kfree\<close> of a live block marks it free and merges it with the free blocks next to it
  on both sides; the heap stays well formed, so no two adjacent blocks are ever free.
\<close>

theorem kfree_merges:
  assumes "heap_rep lo hi s bs" "(a, n, False) \<in> set bs"
  shows "heap_rep lo hi (kfree (a + HEADER_SIZE) s) (free_blks a bs)"
  by (rule kfree_refines [OF assms])

theorem kfree_merges_witness:
  "\<exists>s. heap_rep 0x1000 0x1400 s [(0x1000, 104, False), (0x107C, 880, True)] \<and>
     heap_rep 0x1000 0x1400 (kfree 0x1014 s) [(0x1000, 1004, True)]"
proof -
  have "kmalloc_round 100 = 104" by (simp add: kmalloc_round_def)
  then obtain s where s: "heap_rep 0x1000 0x1400 s [(0x1000, 104, False), (0x107C, 880, True)]"
    using kmalloc_refines [OF heap_rep_example, of 100] by auto
  then show ?thesis
    using kfree_merges [OF s, of "0x1000" 104] by (auto simp: HEADER_SIZE_def free_blks_def)
qed

text \<open>
  Allocation followed by freeing restores the heap: the block list after
  \<^verbatim>\<open>kfree(kmalloc(sz))\<close> is the one before, so the pair leaks and fragments nothing.
\<close>

theorem kmalloc_kfree_restores:
  assumes "heap_rep lo hi s bs" "kmalloc sz s = Some (p, s')" "p \<noteq> 0"
  shows "heap_rep lo hi (kfree p s') bs"
  using assms(1) by (cases rule: kmalloc_outcomes [where sz = sz]) (use assms(2,3) in auto)

theorem kmalloc_kfree_restores_witness:
  "\<exists>p s'. kmalloc 100 kheap_example = Some (p, s') \<and> heap_rep 0x1000 0x1400 (kfree p s') [(0x1000, 1004, True)]"
proof -
  have "kmalloc_round 100 = 104" by (simp add: kmalloc_round_def)
  then obtain s' where "kmalloc 100 kheap_example = Some (0x1014, s')"
    using kmalloc_refines [OF heap_rep_example, of 100] by (auto simp: HEADER_SIZE_def)
  then show ?thesis using kmalloc_kfree_restores [OF heap_rep_example] by fastforce
qed

lemma absorb_keeps [simp]:
  "magic (hdr (absorb a b s) c) = magic (hdr s c)" "is_free (hdr (absorb a b s) c) = is_free (hdr s c)"
  by (auto simp: absorb_def set_prev_def)

text \<open>
  Freeing a block twice is harmless: the second \<^verbatim>\<open>kfree\<close> of the same pointer finds the
  header marked free, even when the block has been merged into its predecessor, and changes
  nothing.
\<close>

theorem kfree_twice:
  assumes "heap_rep lo hi s bs" "(a, n, False) \<in> set bs"
  shows "kfree (a + HEADER_SIZE) (kfree (a + HEADER_SIZE) s) = kfree (a + HEADER_SIZE) s"
proof -
  obtain xs ys where bs: "bs = xs @ (a, n, False) # ys" using assms(2) by (auto dest: split_list)
  then have L: "linked lo hi s (xs @ (a, n, False) # ys)" using assms(1) by (auto simp: heap_rep_linked)
  have "magic (hdr (kfree (a + HEADER_SIZE) s) a) = KHEAP_MAGIC" "is_free (hdr (kfree (a + HEADER_SIZE) s) a) = 1"
    using heap_rep_split(3) [OF assms(1) [unfolded bs]]
    unfolding kfree_steps(2) [OF L] by (simp_all add: upd_hdr_def)
  then show ?thesis by (simp add: kfree_def [of _ "kfree _ _"])
qed

theorem kfree_twice_witness:
  "\<exists>s. heap_rep 0x1000 0x1400 s [(0x1000, 104, False), (0x107C, 880, True)] \<and>
     kfree 0x1014 (kfree 0x1014 s) = kfree 0x1014 s"
proof -
  have "kmalloc_round 100 = 104" by (simp add: kmalloc_round_def)
  then obtain s where s: "heap_rep 0x1000 0x1400 s [(0x1000, 104, False), (0x107C, 880, True)]"
    using kmalloc_refines [OF heap_rep_example, of 100] by auto
  then show ?thesis
    using kfree_twice [OF s, of "0x1000" 104] by (auto simp: HEADER_SIZE_def)
qed

lemma alloc_blks_zero: "\<exists>b \<in> set bs. bfree b \<Longrightarrow> alloc_blks 0 bs \<noteq> None"
proof (induction bs)
  case (Cons b bs) then show ?case by (cases b) auto
qed simp

text \<open>
  A request of more than \<open>2\<^sup>32 - 8\<close> bytes wraps to size 0 when it is rounded up, so
  \<^verbatim>\<open>kmalloc\<close> does not fail but returns a pointer whenever any block is free.
\<close>

theorem kmalloc_huge_request:
  assumes "heap_rep lo hi s bs" "\<exists>b \<in> set bs. bfree b" "0xFFFFFFF8 < sz"
  shows "kmalloc_round sz = 0 \<and> (\<exists>p s'. kmalloc sz s = Some (p, s') \<and> p \<noteq> 0)"
proof -
  have u: "unat (sz + 7) = unat sz + 7 - 2 ^ 32"
    using assms(3) unat_u32_bound [of sz]
    by (simp add: unat_word_ariths word_less_nat_alt mod_if)
  have "kmalloc_round sz = (sz + 7) AND NOT (mask 3)" by (simp add: kmalloc_round_def mask_eq_exp_minus_1)
  then have "unat (kmalloc_round sz) = 0"
    using u unat_and_not_mask [of "sz + 7" 3] unat_u32_bound [of sz] by simp
  then have r: "kmalloc_round sz = 0" by (simp add: unat_eq_zero)
  have "sz \<noteq> 0" using assms(3) by auto
  from assms(1) show ?thesis
  proof (cases rule: kmalloc_cases [where sz = sz])
    case null
    then show ?thesis
      using \<open>sz \<noteq> 0\<close> r alloc_blks_zero [OF assms(2)] by simp
  qed (use r in auto)
qed

theorem kmalloc_huge_request_witness:
  "\<exists>p s'. kmalloc 0xFFFFFFFF kheap_example = Some (p, s') \<and> p \<noteq> 0"
  using kmalloc_huge_request [OF heap_rep_example, of "0xFFFFFFFF"] by simp

text \<open>
  \<^verbatim>\<open>kheap_init\<close> returns and leaves a well-formed heap that is one free block, for every
  region of at least a header that starts above the first page and ends a page below 4 GB.
\<close>

theorem kheap_init_rep:
  assumes "8 \<le> unat start" "20 \<le> unat sz" "unat start + unat sz \<le> 0xFFFFF000"
  shows "\<exists>vs' s'. kheap_init start sz vs s = Some (vs', s') \<and>
    heap_rep (unat start) (unat start + unat sz) s' [(start, sz - HEADER_SIZE, True)]"
proof -
  have u: "unat (start + sz) = unat start + unat sz" using assms(3) unat_plus_no_wrap [of start sz] by simp
  then obtain vs' where vs': "kheap_map_loop (start + sz) start 0x500000 vs = Some vs'"
    using kheap_map_loop_returns [of "start + sz" start "unat sz"] assms(3) by auto
  have "unat (sz - HEADER_SIZE) = unat sz - 20"
    using assms(2) by (simp add: HEADER_SIZE_def unat_minus_no_wrap word_le_nat_alt)
  then show ?thesis using vs' assms by (simp add: kheap_init_def heap_rep_def)
qed

theorem kheap_init_rep_witness:
  "\<exists>vs' s'. kheap_init 0xD0000000 0x100000 vmm_example kheap_example = Some (vs', s') \<and>
    heap_rep 0xD0000000 0xD0100000 s' [(0xD0000000, 0xFFFEC, True)]"
  using kheap_init_rep [of "0xD0000000" "0x100000" vmm_example kheap_example] by (simp add: HEADER_SIZE_def)

end
