(* ===== verification/Khazar_Pkg.thy ===== *)
theory Khazar_Pkg
  imports Khazar_Dns Khazar_Vfs Khazar_Kheap Khazar_Terminal "HOL-Library.Monad_Syntax"
begin

text \<open>
  The package client, \<^verbatim>\<open>kernel/core/pkg.c\<close>: downloading a package from the server over UDP into
  the repository directory, and unpacking a package of the repository into the file system. The
  file system is the argument \<open>fs\<close> of the VFS operations and \<open>env\<close> is what the network thread, the
  adapter and the other processes do to the network while the client yields, sleeps or polls.
  \<open>None\<close> is an access outside a buffer, a read of bytes that were never written, or a sleep that
  nothing ends. Progress messages are left out; the texts that \<^verbatim>\<open>pkg list\<close>, \<^verbatim>\<open>pkg info\<close> and
  \<^verbatim>\<open>pkg remote\<close> display are results. The blocks that the file system allocates for itself are part
  of its own state.
\<close>

section \<open>State\<close>

definition PKG_REPO_PATH :: string where "PKG_REPO_PATH = ''/repo''"
definition PKG_LIST_PATH :: string where "PKG_LIST_PATH = ''/system/packages.list''"
definition PKG_SERVER_IP :: u32 where "PKG_SERVER_IP = 0x0202000A"
definition PKG_SERVER_PORT :: u16 where "PKG_SERVER_PORT = 5555"
definition PKG_MAX_FETCH_SIZE :: u32 where "PKG_MAX_FETCH_SIZE = 256 * 1024"
definition PKG_CHUNK_SIZE :: nat where "PKG_CHUNK_SIZE = 512"

record 'w pkg_state =
  pnet :: net_state
  pvfs :: "'w vfs_state"
  pheap :: kheap_state

section \<open>Network helpers\<close>

fun pkg_udp_recv_wait ::
    "nat \<Rightarrow> (net_state \<Rightarrow> net_state) \<Rightarrow> u16 \<Rightarrow> net_state \<Rightarrow> (u8 list \<times> net_state) option" where
  "pkg_udp_recv_wait 0 env maxlen s = Some ([], s)"
| "pkg_udp_recv_wait (Suc max_iter) env maxlen s =
     do { (got, s1) \<leftarrow> udp_recv_wait env 1234 maxlen s;
          if got \<noteq> [] then Some (got, s1) else pkg_udp_recv_wait max_iter env maxlen (env s1) }"

fun pkg_arp_loop :: "nat \<Rightarrow> (net_state \<Rightarrow> net_state) \<Rightarrow> net_state \<Rightarrow> (bool \<times> net_state) option" where
  "pkg_arp_loop 0 env s = Some (False, s)"
| "pkg_arp_loop (Suc i) env s0 =
     (let s = env s0
      in case ethernet_receive 1518 (eth s) of
           (r, e) \<Rightarrow>
             do { s1 \<leftarrow> (case r of
                           None \<Rightarrow> Some (s\<lparr>eth := e\<rparr>)
                         | Some b \<Rightarrow>
                             if length b > 14 \<and> join16 (b ! 13) (b ! 12) = 0x0806
                             then arp_handle (drop 14 b) (of_nat (length b - 14)) (s\<lparr>eth := e\<rparr>)
                             else Some (s\<lparr>eth := e\<rparr>));
                  if arp_lookup PKG_SERVER_IP (arp_cache s1) \<noteq> None then Some (True, s1)
                  else pkg_arp_loop i env s1 })"

definition pkg_ensure_arp :: "(net_state \<Rightarrow> net_state) \<Rightarrow> net_state \<Rightarrow> (bool \<times> net_state) option" where
  "pkg_ensure_arp env s =
     (if arp_lookup PKG_SERVER_IP (arp_cache s) \<noteq> None then Some (True, s)
      else do { s1 \<leftarrow> arp_request PKG_SERVER_IP s; pkg_arp_loop 500000 env s1 })"

definition pkg_send :: "string \<Rightarrow> net_state \<Rightarrow> (bool \<times> net_state) option" where
  "pkg_send msg s = udp_send PKG_SERVER_IP PKG_SERVER_PORT (map of_char msg) (of_nat (length msg)) s"

section \<open>Installation\<close>

definition rd32 :: "u8 list \<Rightarrow> nat \<Rightarrow> u32 option" where
  "rd32 b i = (if i + 4 \<le> length b then Some (le32 b i) else None)"

definition string_at :: "u8 list \<Rightarrow> nat \<Rightarrow> string option" where
  "string_at b i =
     (if 0 \<in> set (drop i b) then Some (map (\<lambda>c. char_of (unat c)) (takeWhile (\<lambda>c. c \<noteq> 0) (drop i b))) else None)"

fun pkg_last_slash :: "nat \<Rightarrow> string \<Rightarrow> nat option \<Rightarrow> nat option" where
  "pkg_last_slash k [] r = r"
| "pkg_last_slash k (c # cs) r = pkg_last_slash (k + 1) cs (if c = CHR ''/'' then Some k else r)"

text \<open>
  The arrays for the directory and the file name have 128 bytes; \<^verbatim>\<open>kstrncpy\<close> writes 127 of the
  latter and no terminating zero after the last of them.
\<close>

definition pkg_split :: "string \<Rightarrow> (string \<times> string) option" where
  "pkg_split filename =
     (case pkg_last_slash 0 filename None of
        Some ls \<Rightarrow>
          let len = (if ls = 0 then 1 else ls)
          in if len \<ge> 128 \<or> length filename - (ls + 1) \<ge> 127 then None
             else Some (take len filename, drop (ls + 1) filename)
      | None \<Rightarrow> if length filename \<ge> 127 then None else Some (''/'', filename))"

definition pkg_target :: "'w fs_ops \<Rightarrow> string \<Rightarrow> 'w vfs_state \<Rightarrow> (addr \<times> 'w vfs_state) option" where
  "pkg_target fs filename v =
     (case vfs_find_path fs (vfs_root v) filename v of
        (target, v1) \<Rightarrow>
          if target \<noteq> 0 then Some (target, v1)
          else do { (dir_path, file_name) \<leftarrow> pkg_split filename;
                    case vfs_find_path fs (vfs_root v1) dir_path v1 of
                      (dir_node, v2) \<Rightarrow> Some (if dir_node \<noteq> 0 then vfs_create fs dir_node file_name v2 else (0, v2)) })"

text \<open>\<open>off\<close> is the offset of \<^verbatim>\<open>ptr\<close> in the buffer, a 32-bit number.\<close>

fun pkg_unpack :: "nat \<Rightarrow> 'w fs_ops \<Rightarrow> u8 list \<Rightarrow> u32 \<Rightarrow> 'w vfs_state \<Rightarrow> 'w vfs_state option" where
  "pkg_unpack 0 fs buf off v = Some v"
| "pkg_unpack (Suc n) fs buf off v =
     do { filename \<leftarrow> string_at buf (unat off);
          sz \<leftarrow> rd32 buf (unat off + 64);
          (target, v1) \<leftarrow> pkg_target fs filename v;
          v2 \<leftarrow> (if target = 0 \<or> fwrite (nodes v1 target) = FN_NULL then Some v1
                 else if unat off + 68 + unat sz > length buf then None
                 else Some (snd (vfs_write fs target 0 (slice (unat off + 68) (unat sz) buf) v1)));
          pkg_unpack n fs buf (off + 68 + sz) v2 }"

text \<open>\<open>old\<close> is what the allocated block held before the package was read into it.\<close>

definition pkg_install ::
    "'w fs_ops \<Rightarrow> (nat \<Rightarrow> u8) \<Rightarrow> string \<Rightarrow> 'w pkg_state \<Rightarrow> (bool \<times> 'w pkg_state) option" where
  "pkg_install fs old name s =
     (if length name > 117 then None
      else
        let (node, v1) = vfs_find_path fs (vfs_root (pvfs s)) (PKG_REPO_PATH @ ''/'' @ name @ ''.kzp'') (pvfs s);
            s1 = s\<lparr>pvfs := v1\<rparr>
        in if node = 0 then Some (False, s1)
           else
             let len = vlength (nodes v1 node)
             in do { (p, h) \<leftarrow> kmalloc len (pheap s1);
                     if p = 0 then Some (False, s1\<lparr>pheap := h\<rparr>)
                     else
                       let (b, v2) = vfs_read fs node 0 len v1;
                           buf = put_frame b (map old [0..<unat len]);
                           s2 = s1\<lparr>pvfs := v2, pheap := h\<rparr>
                       in if length b > unat len then None
                          else do { magic_no \<leftarrow> rd32 buf 0;
                                    if magic_no \<noteq> 0x4B5A504B then Some (False, s2\<lparr>pheap := kfree p h\<rparr>)
                                    else do { file_count \<leftarrow> rd32 buf 52;
                                              v3 \<leftarrow> pkg_unpack (unat file_count) fs buf 56 v2;
                                              Some (True, s2\<lparr>pvfs := v3, pheap := kfree p h\<rparr>) } } })"

text \<open>The text shown after the heading.\<close>

definition pkg_list :: "'w fs_ops \<Rightarrow> 'w vfs_state \<Rightarrow> (u8 list \<times> 'w vfs_state) option" where
  "pkg_list fs v =
     (case vfs_finddir fs (vfs_root v) PKG_LIST_PATH v of
        (node, v1) \<Rightarrow>
          if node = 0 then Some (map of_char ''(None)'' @ [10], v1)
          else
            let v2 = vfs_open fs node v1;
                (b, v3) = vfs_read fs node 0 1023 v2
            in if length b > 1023 then None
               else Some (takeWhile (\<lambda>c. c \<noteq> 0) b, vfs_close fs node v3))"

definition pkg_info :: "string \<Rightarrow> string list" where
  "pkg_info name = [''Package: '' @ name, ''Version: 1.0.0 (Alpha)'', ''Maintainer: Khazar OS Team'']"

section \<open>Download\<close>

text \<open>The list shown, or nothing when the server cannot be reached or does not answer.\<close>

definition pkg_remote_list :: "(net_state \<Rightarrow> net_state) \<Rightarrow> net_state \<Rightarrow> (u8 list option \<times> net_state) option" where
  "pkg_remote_list env s =
     do { (ok, s1) \<leftarrow> pkg_ensure_arp env s;
          if \<not> ok then Some (None, s1)
          else do { (sent_ok, s2) \<leftarrow> pkg_send (''LIST'' @ [char_of (10 :: nat)]) s1;
                    if \<not> sent_ok then Some (None, s2)
                    else do { (resp, s3) \<leftarrow> pkg_udp_recv_wait 2000000 env 1023 s2;
                              Some (if resp = [] then None else Some (takeWhile (\<lambda>c. c \<noteq> 0) resp), s3) } } }"

text \<open>The decimal digits of the chunk number, lowest first, and the request for a chunk.\<close>

fun num_digits :: "nat \<Rightarrow> string" where
  "num_digits tmp = (if tmp = 0 then [] else char_of (48 + tmp mod 10) # num_digits (tmp div 10))"

declare num_digits.simps [simp del]

definition pkg_ack :: "nat \<Rightarrow> string" where
  "pkg_ack chunk_idx =
     ''ACK '' @ (if chunk_idx = 0 then ''0'' else rev (num_digits chunk_idx)) @ [char_of (10 :: nat)]"

text \<open>The loop over the chunks: the bytes received, or nothing after an error.\<close>

function pkg_download ::
    "(net_state \<Rightarrow> net_state) \<Rightarrow> nat \<Rightarrow> u8 list \<Rightarrow> nat \<Rightarrow> net_state \<Rightarrow> (u8 list option \<times> net_state) option" where
  "pkg_download env total_size got chunk_idx s =
     (if length got \<ge> total_size then Some (Some got, s)
      else case pkg_send (pkg_ack chunk_idx) s of
             None \<Rightarrow> None
           | Some (sent_ok, s1) \<Rightarrow>
               if \<not> sent_ok then Some (None, s1)
               else case pkg_udp_recv_wait 3000000 env (of_nat PKG_CHUNK_SIZE) s1 of
                      None \<Rightarrow> None
                    | Some (b, s2) \<Rightarrow>
                        if b = [] then Some (None, s2)
                        else if length got + length b > total_size then None
                        else if length b < PKG_CHUNK_SIZE then Some (Some (got @ b), s2)
                        else pkg_download env total_size (got @ b) (chunk_idx + 1) s2)"
  by pat_completeness auto
termination
  by (relation "measure (\<lambda>(_, n, got, _). n - length got)") (auto intro!: diff_less_mono2)

declare pkg_download.simps [simp del]

text \<open>
  Saving the download. \<^verbatim>\<open>save_path\<close> has 64 bytes, which a name of 54 characters overruns; of
  \<^verbatim>\<open>kzp_name\<close>, \<^verbatim>\<open>kstrncpy\<close> writes 43 bytes, the last of them zero only for a shorter name.
\<close>

definition pkg_save :: "'w fs_ops \<Rightarrow> string \<Rightarrow> u8 list \<Rightarrow> 'w vfs_state \<Rightarrow> (bool \<times> 'w vfs_state) option" where
  "pkg_save fs name data v =
     (if length name > 53 then None
      else
        let (repo_dir, v1) = vfs_find_path fs (vfs_root v) PKG_REPO_PATH v
        in if repo_dir = 0 then Some (False, v1)
           else if length name > 42 then None
           else
             let (found, v2) = vfs_find_path fs (vfs_root v1) (PKG_REPO_PATH @ ''/'' @ name @ ''.kzp'') v1;
                 (pkg_node, v3) = (if found = 0 then vfs_create fs repo_dir (name @ ''.kzp'') v2 else (found, v2))
             in if pkg_node = 0 then Some (False, v3) else Some (True, snd (vfs_write fs pkg_node 0 data v3)))"

definition pkg_fetch ::
    "'w fs_ops \<Rightarrow> (net_state \<Rightarrow> net_state) \<Rightarrow> string \<Rightarrow> 'w pkg_state \<Rightarrow> (bool \<times> 'w pkg_state) option" where
  "pkg_fetch fs env name s =
     do { (ok, n1) \<leftarrow> pkg_ensure_arp env (pnet s);
          if \<not> ok then Some (False, s\<lparr>pnet := n1\<rparr>)
          else do { (sent_ok, n2) \<leftarrow> pkg_send (''GET '' @ take 55 name @ [char_of (10 :: nat)]) n1;
            if \<not> sent_ok then Some (False, s\<lparr>pnet := n2\<rparr>)
            else do { (hdr, n3) \<leftarrow> pkg_udp_recv_wait 2000000 env 16 n2;
              if length hdr < 4 then Some (False, s\<lparr>pnet := n3\<rparr>)
              else
                let total_size = le32 hdr 0
                in if total_size = 0 \<or> total_size > PKG_MAX_FETCH_SIZE then Some (False, s\<lparr>pnet := n3\<rparr>)
                   else do { (p, h) \<leftarrow> kmalloc total_size (pheap s);
                     if p = 0 then Some (False, s\<lparr>pnet := n3, pheap := h\<rparr>)
                     else do { (d, n4) \<leftarrow> pkg_download env (unat total_size) [] 0 n3;
                       case d of
                         None \<Rightarrow> Some (False, s\<lparr>pnet := n4, pheap := kfree p h\<rparr>)
                       | Some data \<Rightarrow>
                           do { (_, n5) \<leftarrow> pkg_send (''DONE'' @ [char_of (10 :: nat)]) n4;
                                (saved, v) \<leftarrow> pkg_save fs name data (pvfs s);
                                Some (saved, s\<lparr>pnet := n5, pvfs := v, pheap := kfree p h\<rparr>) } } } } } }"

section \<open>Packages\<close>

text \<open>
  The format of a package: the magic number, 48 bytes for name and version, the number of files,
  and for each file its path in 64 bytes, its size and its contents.
\<close>

type_synonym pkg_file = "string \<times> u8 list"

definition pkg_entry :: "pkg_file \<Rightarrow> u8 list" where
  "pkg_entry f = map of_char (fst f) @ replicate (64 - length (fst f)) 0 @ enc32 (of_nat (length (snd f))) @ snd f"

definition pkg_archive :: "u8 list \<Rightarrow> pkg_file list \<Rightarrow> u8 list" where
  "pkg_archive about files =
     enc32 0x4B5A504B @ about @ enc32 (of_nat (length files)) @ concat (map pkg_entry files)"

definition pkg_file_ok :: "pkg_file \<Rightarrow> bool" where
  "pkg_file_ok f \<longleftrightarrow> length (fst f) < 64 \<and> char_of (0 :: nat) \<notin> set (fst f)"

text \<open>What installing one file means: write it, creating it in its directory when it is not there.\<close>

definition dirname :: "string \<Rightarrow> string" where
  "dirname path =
     (if CHR ''/'' \<notin> set path then ''/''
      else let d = rev (tl (dropWhile (\<lambda>c. c \<noteq> CHR ''/'') (rev path))) in if d = [] then ''/'' else d)"

definition basename :: "string \<Rightarrow> string" where
  "basename path = rev (takeWhile (\<lambda>c. c \<noteq> CHR ''/'') (rev path))"

definition pkg_place :: "'w fs_ops \<Rightarrow> pkg_file \<Rightarrow> 'w vfs_state \<Rightarrow> 'w vfs_state" where
  "pkg_place fs f v =
     (case vfs_find_path fs (vfs_root v) (fst f) v of
        (t, v1) \<Rightarrow>
          if t \<noteq> 0 then snd (vfs_write fs t 0 (snd f) v1)
          else case vfs_find_path fs (vfs_root v1) (dirname (fst f)) v1 of
                 (d, v2) \<Rightarrow>
                   if d = 0 then v2
                   else case vfs_create fs d (basename (fst f)) v2 of
                          (t', v3) \<Rightarrow> if t' = 0 then v3 else snd (vfs_write fs t' 0 (snd f) v3))"

lemma pkg_last_slash_spec:
  "pkg_last_slash k path r =
     (if CHR ''/'' \<in> set path then Some (k + length (dropWhile (\<lambda>c. c \<noteq> CHR ''/'') (rev path)) - 1) else r)"
  by (induction path arbitrary: k r) (auto simp: dropWhile_append)

lemma path_parts:
  assumes "CHR ''/'' \<in> set path"
  obtains d where "path = d @ CHR ''/'' # basename path" "dropWhile (\<lambda>c. c \<noteq> CHR ''/'') (rev path) = CHR ''/'' # rev d"
proof -
  let ?w = "dropWhile (\<lambda>c. c \<noteq> CHR ''/'') (rev path)"
  have ne: "?w \<noteq> []" using assms by auto
  have h: "hd ?w = CHR ''/''" using hd_dropWhile [OF ne] by simp
  then have w: "?w = CHR ''/'' # rev (rev (tl ?w))" using ne by (metis list.collapse rev_rev_ident)
  have "rev path = rev (basename path) @ ?w" by (simp add: basename_def)
  then have "path = rev (tl ?w) @ CHR ''/'' # basename path"
    using w by (metis append.assoc append_Cons append_Nil rev.simps(2) rev_append rev_rev_ident)
  then show ?thesis using that w by blast
qed

lemma pkg_split_spec:
  assumes "length path < 127"
  shows "pkg_split path = Some (dirname path, basename path)"
proof (cases "CHR ''/'' \<in> set path")
  case True
  then obtain d where d: "path = d @ CHR ''/'' # basename path"
    "dropWhile (\<lambda>c. c \<noteq> CHR ''/'') (rev path) = CHR ''/'' # rev d" using path_parts by blast
  have ls: "pkg_last_slash 0 path None = Some (length d)" using True d(2) by (simp add: pkg_last_slash_spec)
  have l: "length path = length d + 1 + length (basename path)" by (subst d(1)) simp
  have t: "take (length d) path = d" "drop (length d + 1) path = basename path" by (subst d(1), simp)+
  have one: "take 1 path = ''/''" if "d = []" using d(1) that by (metis append_Nil take_Suc_Cons take0 One_nat_def)
  have dn: "dirname path = (if d = [] then ''/'' else d)" using True d(2) by (simp add: dirname_def Let_def)
  show ?thesis using ls l t assms one dn by (auto simp: pkg_split_def Let_def)
next
  case False
  then have tw: "takeWhile (\<lambda>c. c \<noteq> CHR ''/'') (rev path) = rev path" by auto
  have "pkg_last_slash 0 path None = None" "basename path = path"
    unfolding basename_def tw using False by (simp_all add: pkg_last_slash_spec)
  then show ?thesis using False assms by (simp add: pkg_split_def dirname_def)
qed

lemma pkg_target_write:
  assumes "length (fst f) < 127"
  shows "\<exists>t v1. pkg_target fs (fst f) v = Some (t, v1) \<and> pkg_place fs f v = (if t = 0 then v1 else snd (vfs_write fs t 0 (snd f) v1))"
  using pkg_split_spec [OF assms] by (auto simp: pkg_target_def pkg_place_def split: prod.splits)

lemma length_pkg_entry: "pkg_file_ok f \<Longrightarrow> length (pkg_entry f) = 68 + length (snd f)"
  by (simp add: pkg_file_ok_def pkg_entry_def enc32_def)

lemma string_at_entry:
  assumes "pkg_file_ok f"
  shows "string_at (pre @ pkg_entry f @ post) (length pre) = Some (fst f)"
proof -
  have z: "(0 :: u8) \<notin> set (map of_char (fst f))" using assms by (auto simp: pkg_file_ok_def of_char_zero_u8)
  have n: "replicate (64 - length (fst f)) (0 :: u8) = 0 # replicate (63 - length (fst f)) 0"
    using assms by (simp add: pkg_file_ok_def Suc_diff_le replicate_Suc [symmetric] eval_nat_numeral del: replicate_Suc)
  have "takeWhile (\<lambda>c. c \<noteq> 0) (map of_char (fst f) @ 0 # r) = map of_char (fst f)" for r :: "u8 list"
    using z by (subst takeWhile_append2) auto
  then have "string_at (pre @ pkg_entry f @ post) (length pre) = Some (map (\<lambda>c. char_of (unat c)) (map of_char (fst f) :: u8 list))"
    by (simp add: string_at_def pkg_entry_def n)
  then show ?thesis by (simp add: unat_of_char_u8 comp_def)
qed

lemma rd32_at: "rd32 (pre @ enc32 w @ post) (length pre) = Some w"
  by (simp add: rd32_def le32_def enc32_def nth_append join32_bytes [simplified])

lemma entry_fields:
  assumes "pkg_file_ok f" "length (snd f) < 2 ^ 32"
  shows "rd32 (pre @ pkg_entry f @ post) (length pre + 64) = Some (of_nat (length (snd f)))"
    "slice (length pre + 68) (length (snd f)) (pre @ pkg_entry f @ post) = snd f"
proof -
  let ?n = "map of_char (fst f) @ replicate (64 - length (fst f)) (0 :: u8)" and ?z = "enc32 (of_nat (length (snd f)))"
  have l: "length (pre @ ?n) = length pre + 64" "length (pre @ ?n @ ?z) = length pre + 68"
    using assms(1) by (simp_all add: pkg_file_ok_def enc32_def)
  have e: "pre @ pkg_entry f @ post = (pre @ ?n) @ ?z @ (snd f @ post)" "pre @ pkg_entry f @ post = (pre @ ?n @ ?z) @ snd f @ post"
    by (simp_all add: pkg_entry_def)
  show "rd32 (pre @ pkg_entry f @ post) (length pre + 64) = Some (of_nat (length (snd f)))"
    unfolding e(1) using rd32_at [of "pre @ ?n" "of_nat (length (snd f))" "snd f @ post"] unfolding l(1) .
  show "slice (length pre + 68) (length (snd f)) (pre @ pkg_entry f @ post) = snd f"
    unfolding e(2) by (rule slice_append_mid [OF l(2) refl])
qed

lemma unpack_entries:
  assumes "list_all pkg_file_ok files" "length (pre @ concat (map pkg_entry files)) < 2 ^ 32" "unat off = length pre"
  shows "pkg_unpack (length files) fs (pre @ concat (map pkg_entry files)) off v = Some (fold (pkg_place fs) files v)"
  using assms
proof (induction files arbitrary: pre off v)
  case (Cons f files)
  let ?post = "concat (map pkg_entry files)" and ?l = "of_nat (length (snd f)) :: u32"
  let ?buf = "pre @ pkg_entry f @ ?post"
  have ok: "pkg_file_ok f" "length (fst f) < 127" using Cons.prems(1) by (auto simp: pkg_file_ok_def)
  have le: "length (pkg_entry f) = 68 + length (snd f)" using ok by (simp add: length_pkg_entry)
  have small: "length pre + 68 + length (snd f) < 2 ^ 32" using Cons.prems(2) le by simp
  have ul: "unat ?l = length (snd f)" using small by (simp add: unat_of_nat)
  have uo: "unat (off + 68 + ?l) = length (pre @ pkg_entry f)"
    using small ul le Cons.prems(3) by (simp add: unat_word_ariths)
  obtain t v1 where t: "pkg_target fs (fst f) v = Some (t, v1)"
    "pkg_place fs f v = (if t = 0 then v1 else snd (vfs_write fs t 0 (snd f) v1))" using pkg_target_write [OF ok(2)] by blast
  note fl = entry_fields [OF ok(1), of pre ?post] string_at_entry [OF ok(1), of pre ?post]
  have "pkg_unpack (Suc (length files)) fs ?buf off v = pkg_unpack (length files) fs ?buf (off + 68 + ?l) (pkg_place fs f v)"
    using fl t small ul le Cons.prems(3) by (simp add: vfs_write_def)
  also have "\<dots> = Some (fold (pkg_place fs) files (pkg_place fs f v))"
    using Cons.IH [of "pre @ pkg_entry f" "off + 68 + ?l"] Cons.prems uo by simp
  finally show ?case by simp
qed simp

section \<open>Installing a package\<close>

lemma archive_fields:
  assumes "length about = 48"
  shows "rd32 (pkg_archive about files) 0 = Some 0x4B5A504B"
    "rd32 (pkg_archive about files) 52 = Some (of_nat (length files))"
  using assms rd32_at [of "[]" "0x4B5A504B"] rd32_at [of "enc32 0x4B5A504B @ about" "of_nat (length files)"]
  by (simp_all add: pkg_archive_def enc32_def)

lemma archive_unpack:
  assumes "list_all pkg_file_ok files" "length about = 48" "length (pkg_archive about files) < 2 ^ 32"
  shows "pkg_unpack (length files) fs (pkg_archive about files) 56 v = Some (fold (pkg_place fs) files v)"
proof -
  let ?pre = "enc32 0x4B5A504B @ about @ enc32 (of_nat (length files))"
  have "pkg_archive about files = ?pre @ concat (map pkg_entry files)" by (simp add: pkg_archive_def)
  then show ?thesis
    using unpack_entries [OF assms(1), of ?pre 56 fs v] assms(2,3) by (simp add: enc32_def)
qed

lemma count_small:
  assumes "list_all pkg_file_ok files" "length (pkg_archive about files) < 2 ^ 32"
  shows "unat (of_nat (length files) :: u32) = length files"
proof -
  have "length files \<le> length (concat (map pkg_entry files))"
    using assms(1) by (induction files) (simp_all add: length_pkg_entry)
  then have "length files < 2 ^ 32" using assms(2) by (simp add: pkg_archive_def)
  then show ?thesis by (simp add: unat_of_nat)
qed

text \<open>
  C24. Installing a package: when the repository holds a well-formed package for the name and the
  heap has room for it, \<^verbatim>\<open>pkg_install\<close> succeeds and every file of the package, in their order, is
  written to its path, created first in its directory when it is not there; the read buffer is
  given back, so the blocks of the heap are what they were. A file whose directory does not exist,
  or that cannot be created, is skipped, as \<^const>\<open>pkg_place\<close> says, and the result is success all the same.
\<close>

theorem pkg_install_unpacks:
  assumes "vfs_find_path fs (vfs_root (pvfs s)) (PKG_REPO_PATH @ ''/'' @ name @ ''.kzp'') (pvfs s) = (node, v1)"
    and "node \<noteq> 0" "length name \<le> 117"
    and "list_all pkg_file_ok files" "length about = 48" "length (pkg_archive about files) < 2 ^ 32"
    and "vlength (nodes v1 node) = of_nat (length (pkg_archive about files))"
    and "vfs_read fs node 0 (vlength (nodes v1 node)) v1 = (pkg_archive about files, v2)"
    and "heap_rep lo hi (pheap s) bs" "kmalloc (vlength (nodes v1 node)) (pheap s) = Some (p, h)" "p \<noteq> 0"
  shows "\<exists>s'. pkg_install fs old name s = Some (True, s') \<and> pvfs s' = fold (pkg_place fs) files v2 \<and>
    pnet s' = pnet s \<and> heap_rep lo hi (pheap s') bs"
proof -
  have len: "unat (vlength (nodes v1 node)) = length (pkg_archive about files)"
    using assms(6,7) by (simp add: unat_of_nat)
  then have buf: "put_frame (pkg_archive about files) (map old [0..<unat (vlength (nodes v1 node))]) = pkg_archive about files"
    by (simp add: put_frame_def)
  have "pkg_install fs old name s = Some (True, s\<lparr>pvfs := fold (pkg_place fs) files v2, pheap := kfree p h\<rparr>)"
    using assms(1-3,8,10,11) len buf archive_fields [OF assms(5)] archive_unpack [OF assms(4-6), of fs v2] count_small [OF assms(4,6)]
    by (simp add: pkg_install_def Let_def)
  moreover have "heap_rep lo hi (kfree p h) bs"
    using assms(9) by (cases rule: kmalloc_outcomes [where sz = "vlength (nodes v1 node)"]) (use assms(10,11) in auto)
  ultimately show ?thesis by simp
qed

text \<open>A file system in memory: the directory \<^verbatim>\<open>/repo\<close> with one package, and the contents of the files.\<close>

definition store_dir :: vfs_node_t where
  "store_dir = zero_node\<lparr>vflags := VFS_DIRECTORY, ffinddir := FN_FAT32, fcreate := FN_FAT32\<rparr>"

definition store_file :: "nat \<Rightarrow> vfs_node_t" where
  "store_file n = zero_node\<lparr>vflags := VFS_FILE, fread := FN_FAT32, fwrite := FN_FAT32, vlength := of_nat n\<rparr>"

definition store_fs :: "(addr \<Rightarrow> u8 list) fs_ops" where
  "store_fs = \<lparr>op_read = (\<lambda>_ n off sz s. (take (unat sz) (drop (unat off) (world s n)), s)),
     op_write = (\<lambda>_ n off b s. (of_nat (length b), s\<lparr>world := (world s)(n := b)\<rparr>)),
     op_open = (\<lambda>_ _ s. s), op_close = (\<lambda>_ _ s. s), op_readdir = (\<lambda>_ _ _ s. (0, s)),
     op_finddir = (\<lambda>_ d name s. (if d = 16 \<and> name = ''repo'' then 32 else if d = 32 \<and> name = ''a.kzp'' then 48 else 0, s)),
     op_create = (\<lambda>_ _ _ s. (80, s\<lparr>nodes := (nodes s)(80 := store_file 0)\<rparr>)),
     op_unlink = (\<lambda>_ _ _ s. (False, s)), op_mkdir = (\<lambda>_ _ _ s. (0, s))\<rparr>"

definition store_pkg :: "(addr \<Rightarrow> u8 list) pkg_state" where
  "store_pkg = \<lparr>pnet = example_net,
     pvfs = \<lparr>nodes = (\<lambda>_. zero_node)(16 := store_dir, 32 := store_dir, 48 := store_file 126),
       vfs_root = 16, vfs_mounts = replicate 8 ([], 0),
       world = (\<lambda>_. [])(48 := pkg_archive (replicate 48 0) [(''b'', [7, 8])])\<rparr>,
     pheap = kheap_example\<rparr>"

lemmas store_defs = store_fs_def store_pkg_def store_dir_def store_file_def zero_node_def VFS_DIRECTORY_def VFS_FILE_def
  vfs_finddir_def vfs_check_mount_def vfs_create_def vfs_write_def vfs_read_def is_dir_def

lemma example_malloc: "\<exists>h. kmalloc 126 kheap_example = Some (0x1014, h)"
  using kmalloc_refines [OF heap_rep_example, of 126] by (auto simp: HEADER_SIZE_def kmalloc_round_def)

lemma store_paths:
  assumes "vfs_root v = 16"
  shows "vfs_find_path store_fs root ''/repo'' v = walk store_fs 16 [''repo''] v"
    "vfs_find_path store_fs root ''/repo/a.kzp'' v = walk store_fs 16 [''repo'', ''a.kzp''] v"
    "vfs_find_path store_fs root ''/'' v = walk store_fs 16 [] v"
    "vfs_find_path store_fs 16 ''b'' v = walk store_fs 16 [''b''] v"
  using absolute_path [of "[''repo'']" v store_fs root] absolute_path [of "[''repo'', ''a.kzp'']" v store_fs root]
    absolute_path [of "[]" v store_fs root] find_path_relative [of "[''b'']" 16 store_fs v] assms
  by (simp_all add: component_ok_def del: walk.simps)

theorem pkg_install_unpacks_witness:
  "\<exists>s'. pkg_install store_fs (\<lambda>_. 0) ''a'' store_pkg = Some (True, s') \<and> world (pvfs s') 80 = [7, 8] \<and>
     heap_rep 0x1000 0x1400 (pheap s') [(0x1000, 1004, True)]"
proof -
  let ?v = "pvfs store_pkg" and ?files = "[(''b'', [7, 8])] :: pkg_file list"
  obtain h where h: "kmalloc 126 kheap_example = Some (0x1014, h)" using example_malloc by blast
  have r: "vfs_root ?v = 16" by (simp add: store_pkg_def)
  have w: "world ?v 48 = pkg_archive (replicate 48 0) ?files" by (simp add: store_pkg_def)
  have l: "length (pkg_archive (replicate 48 0) ?files) = 126" by (simp add: pkg_archive_def pkg_entry_def enc32_def)
  have vl: "vlength (nodes ?v 48) = 126" by (simp add: store_pkg_def store_file_def)
  have fp: "vfs_find_path store_fs (vfs_root ?v) (PKG_REPO_PATH @ ''/'' @ ''a'' @ ''.kzp'') ?v = (48, ?v)"
    using store_paths(2) [OF r] r by (simp add: PKG_REPO_PATH_def) (simp add: store_defs)
  have rd: "vfs_read store_fs 48 0 (vlength (nodes ?v 48)) ?v = (pkg_archive (replicate 48 0) ?files, ?v)"
    unfolding vl using w l by (simp add: vfs_read_def store_fs_def) (simp add: store_defs)
  have place: "world (pkg_place store_fs (''b'', [7, 8]) ?v) 80 = [7, 8]"
  proof -
    have f: "vfs_find_path store_fs 16 ''b'' ?v = (0, ?v)" "vfs_find_path store_fs 16 ''/'' ?v = (16, ?v)"
      using store_paths(3,4) [OF r] by (simp, simp add: store_defs)+
    have c: "vfs_create store_fs 16 ''b'' ?v = (80, ?v\<lparr>nodes := (nodes ?v)(80 := store_file 0)\<rparr>)"
      by (simp add: store_defs)
    have "vfs_write store_fs 80 0 [7, 8] (?v\<lparr>nodes := (nodes ?v)(80 := store_file 0)\<rparr>) =
      (2, ?v\<lparr>nodes := (nodes ?v)(80 := store_file 0), world := (world ?v)(80 := [7, 8])\<rparr>)" by (simp add: store_defs)
    then show ?thesis using f c r by (simp add: pkg_place_def dirname_def basename_def)
  qed
  have ok: "list_all pkg_file_ok ?files" by (simp add: pkg_file_ok_def char_of_def)
  obtain s' where "pkg_install store_fs (\<lambda>_. 0) ''a'' store_pkg = Some (True, s')"
    "pvfs s' = fold (pkg_place store_fs) ?files ?v" "heap_rep 0x1000 0x1400 (pheap s') [(0x1000, 1004, True)]"
    using pkg_install_unpacks [OF fp _ _ ok _ _ _ rd, where lo = "0x1000" and hi = "0x1400" and bs = "[(0x1000, 1004, True)]" and p = "0x1014" and h = h] h l vl
    by (auto simp: store_pkg_def)
  then show ?thesis using place by auto
qed

section \<open>Downloading a package\<close>

text \<open>One request of the protocol and its answer.\<close>

definition pkg_exchange ::
    "(net_state \<Rightarrow> net_state) \<Rightarrow> nat \<Rightarrow> u16 \<Rightarrow> string \<Rightarrow> net_state \<Rightarrow> u8 list \<Rightarrow> net_state \<Rightarrow> bool" where
  "pkg_exchange env max_iter maxlen msg s reply s' \<longleftrightarrow>
     (\<exists>s1. pkg_send msg s = Some (True, s1) \<and> pkg_udp_recv_wait max_iter env maxlen s1 = Some (reply, s'))"

abbreviation pkg_chunks :: "u8 list \<Rightarrow> nat" where
  "pkg_chunks data \<equiv> (length data + 511) div 512"

lemma download_chunks:
  assumes "\<And>k. 512 * k < length data \<Longrightarrow> pkg_exchange env 3000000 512 (pkg_ack k) (st k) (slice (512 * k) 512 data) (st (Suc k))"
    and "512 * k < length data + 512"
  shows "pkg_download env (length data) (take (512 * k) data) k (st k) = Some (Some data, st (pkg_chunks data))"
  using assms(2)
proof (induction "length data - 512 * k" arbitrary: k rule: less_induct)
  case less
  let ?b = "slice (512 * k) 512 data"
  have snoc: "take (512 * k) data @ ?b = take (512 * Suc k) data"
    using take_add [of "512 * k" 512 data] by (simp add: slice_def add.commute)
  show ?case
  proof (cases "512 * k < length data")
    case True
    then obtain s1 where s1: "pkg_send (pkg_ack k) (st k) = Some (True, s1)"
      "pkg_udp_recv_wait 3000000 env 512 s1 = Some (?b, st (Suc k))" using assms(1) by (auto simp: pkg_exchange_def)
    have b: "length ?b = min 512 (length data - 512 * k)" by (simp add: length_slice)
    then have ne: "?b \<noteq> []" using True by auto
    have step: "pkg_download env (length data) (take (512 * k) data) k (st k) =
      (if length ?b < 512 then Some (Some (take (512 * Suc k) data), st (Suc k))
       else pkg_download env (length data) (take (512 * Suc k) data) (Suc k) (st (Suc k)))"
      using True s1 b ne snoc by (subst pkg_download.simps) (auto simp: PKG_CHUNK_SIZE_def)
    show ?thesis
    proof (cases "length ?b < 512")
      case short: True
      then have l: "length data < 512 * Suc k" using b by simp
      then have "pkg_chunks data = Suc k" using True by (intro div_nat_eqI) simp_all
      then show ?thesis using step short l by simp
    next
      case False
      then have "512 * Suc k \<le> length data" using b True by simp
      then show ?thesis using step False less.hyps [of "Suc k"] True by simp
    qed
  next
    case False
    then have "pkg_chunks data = k" using less.prems by (intro div_nat_eqI) simp_all
    then show ?thesis using False by (subst pkg_download.simps) simp
  qed
qed

text \<open>
  C23. Downloading a package: when the server answers \<^verbatim>\<open>GET\<close> with the size of the package and the
  request for each chunk with these 512 bytes of it (fewer for the last), \<^verbatim>\<open>pkg_fetch\<close> requests
  every chunk once, stops after the last, and writes exactly the package, of 1 byte to 256 KB, to
  its file in the repository, which is created if it is not there; the receive buffer is given
  back.
\<close>

theorem pkg_fetch_downloads:
  assumes "pkg_ensure_arp env (pnet s) = Some (True, n1)"
    and "pkg_exchange env 2000000 16 (''GET '' @ name @ [char_of (10 :: nat)]) n1 (enc32 (of_nat (length data))) (st 0)"
    and "\<And>k. 512 * k < length data \<Longrightarrow> pkg_exchange env 3000000 512 (pkg_ack k) (st k) (slice (512 * k) 512 data) (st (Suc k))"
    and "pkg_send (''DONE'' @ [char_of (10 :: nat)]) (st (pkg_chunks data)) = Some (done_ok, n2)"
    and "data \<noteq> []" "length data \<le> 256 * 1024" "length name \<le> 42"
    and "vfs_find_path fs (vfs_root (pvfs s)) PKG_REPO_PATH (pvfs s) = (repo, v1)" "repo \<noteq> 0"
    and "vfs_find_path fs (vfs_root v1) (PKG_REPO_PATH @ ''/'' @ name @ ''.kzp'') v1 = (found, v2)"
    and "(if found = 0 then vfs_create fs repo (name @ ''.kzp'') v2 else (found, v2)) = (node, v3)" "node \<noteq> 0"
    and "heap_rep lo hi (pheap s) bs" "kmalloc (of_nat (length data)) (pheap s) = Some (p, h)" "p \<noteq> 0"
  shows "\<exists>h'. pkg_fetch fs env name s = Some (True, s\<lparr>pnet := n2, pvfs := snd (vfs_write fs node 0 data v3), pheap := h'\<rparr>) \<and>
    heap_rep lo hi h' bs"
proof -
  let ?w = "of_nat (length data) :: u32"
  obtain n' where n': "pkg_send (''GET '' @ name @ [char_of (10 :: nat)]) n1 = Some (True, n')"
    "pkg_udp_recv_wait 2000000 env 16 n' = Some (enc32 ?w, st 0)" using assms(2) by (auto simp: pkg_exchange_def)
  have hd: "length (enc32 ?w) = 4" "le32 (enc32 ?w) 0 = ?w"
    by (simp_all add: enc32_def le32_def join32_bytes [simplified])
  have uw: "unat ?w = length data" using assms(6) by (simp add: unat_of_nat)
  have sz: "\<not> (?w = 0 \<or> PKG_MAX_FETCH_SIZE < ?w)"
    using uw assms(5,6) by (auto simp: PKG_MAX_FETCH_SIZE_def word_less_nat_alt)
  have dl: "pkg_download env (length data) [] 0 (st 0) = Some (Some data, st (pkg_chunks data))"
    using download_chunks [of data env st 0] assms(3) by simp
  have sv: "pkg_save fs name data (pvfs s) = Some (True, snd (vfs_write fs node 0 data v3))"
    using assms(7-12) by (simp add: pkg_save_def Let_def)
  have "pkg_fetch fs env name s = Some (True, s\<lparr>pnet := n2, pvfs := snd (vfs_write fs node 0 data v3), pheap := kfree p h\<rparr>)"
    using assms(1,4,7,14,15) n' hd uw sz dl sv by (simp add: pkg_fetch_def Let_def)
  moreover have "heap_rep lo hi (kfree p h) bs"
    using assms(13) by (cases rule: kmalloc_outcomes [where sz = ?w]) (use assms(14,15) in auto)
  ultimately show ?thesis by blast
qed

text \<open>
  A server on the same machine: the address of the server is the own address, queue 0 belongs to
  the client and queue 1 to the server, which answers the last request.
\<close>

definition local_reply :: "u8 list \<Rightarrow> u8 list" where
  "local_reply msg = (if msg ! 0 = 71 then enc32 2 else [7, 8])"

definition local_server :: "net_state \<Rightarrow> net_state" where
  "local_server s =
     (let r = local_reply (q_buffer (udp_queues s ! 1))
      in snd (the (udp_send PKG_SERVER_IP 1234 r (of_nat (length r)) s)))"

definition linked_queues :: "udp_queue_t list \<Rightarrow> bool" where
  "linked_queues qs \<longleftrightarrow> (\<exists>q0 q1. qs = q0 # q1 # replicate 14 example_queue \<and> q_active q0 \<and> q_port q0 = 1234 \<and>
     q_length q0 = 0 \<and> q_active q1 \<and> q_port q1 = PKG_SERVER_PORT)"

definition linked_net :: "net_state \<Rightarrow> bool" where
  "linked_net s \<longleftrightarrow> net_our_ip s = PKG_SERVER_IP \<and> linked_queues (udp_queues s)"

lemma bind_linked:
  assumes "qs = q0 # q1 # r" "q_active q0" "q_port q0 = 1234" "q_active q1" "q_port q1 = PKG_SERVER_PORT"
  shows "udp_bind 1234 qs = (Some 0, qs)" "udp_bind PKG_SERVER_PORT qs = (Some 1, qs)" "udp_slot 1234 qs = Some 0"
  using assms by (simp_all add: udp_bind_def udp_slot_def MAX_UDP_PORTS_def upt_rec PKG_SERVER_PORT_def)

lemma send_linked:
  assumes "linked_net s" "length msg \<le> 1464"
    and "udp_queues s = q0 # q1 # replicate 14 example_queue"
  shows "\<exists>s1. pkg_send msg s = Some (True, s1) \<and> net_our_ip s1 = PKG_SERVER_IP \<and>
    udp_queues s1 = q0 # q1\<lparr>q_buffer := put_frame (map of_char msg) (q_buffer q1), q_length := of_nat (length msg)\<rparr> # replicate 14 example_queue"
proof -
  have q: "q_active q0" "q_port q0 = 1234" "q_active q1" "q_port q1 = PKG_SERVER_PORT"
    using assms(1,3) by (auto simp: linked_net_def linked_queues_def)
  have u: "unat (of_nat (length msg) :: u16) = length msg" using assms(2) by (simp add: unat_of_nat)
  show ?thesis unfolding pkg_send_def
    using udp_send_local [of PKG_SERVER_IP s "map of_char msg" "of_nat (length msg)" PKG_SERVER_PORT 1 "udp_queues s"]
      bind_linked(2) [OF assms(3) q] assms u by (simp add: linked_net_def)
qed

lemma local_exchange:
  assumes l: "linked_net s" and m: "msg \<noteq> []" "length msg \<le> 1464" and r: "r = local_reply (map of_char msg)"
    and n: "length r \<le> unat maxlen" "0 < n"
  shows "\<exists>s'. pkg_exchange local_server n maxlen msg s r s' \<and> linked_net s'"
proof -
  obtain q0 q1 where q: "udp_queues s = q0 # q1 # replicate 14 example_queue" "q_active q0" "q_port q0 = 1234" "q_length q0 = 0"
    "q_active q1" "q_port q1 = PKG_SERVER_PORT" using l by (auto simp: linked_net_def linked_queues_def)
  let ?q1 = "q1\<lparr>q_buffer := put_frame (map of_char msg) (q_buffer q1), q_length := of_nat (length msg)\<rparr>"
  obtain s1 where s1: "pkg_send msg s = Some (True, s1)" "net_our_ip s1 = PKG_SERVER_IP"
    "udp_queues s1 = q0 # ?q1 # replicate 14 example_queue" using send_linked [OF l m(2) q(1)] by blast
  have lr: "r \<noteq> []" "length r \<le> 4" using r by (simp_all add: local_reply_def enc32_def)
  have rr: "local_reply (q_buffer ?q1) = r" using r m(1) by (cases msg) (simp_all add: local_reply_def put_frame_def)
  have ul: "unat (of_nat (length r) :: u16) = length r" using lr by (simp add: unat_of_nat)
  then have nz: "(of_nat (length r) :: u16) \<noteq> 0" using lr(1) by (metis length_0_conv unat_0)
  let ?q0 = "q0\<lparr>q_buffer := put_frame r (q_buffer q0), q_length := of_nat (length r)\<rparr>"
  define s2 where "s2 = local_server s1"
  have b0: "udp_bind 1234 (udp_queues s1) = (Some 0, udp_queues s1)" "udp_slot 1234 (udp_queues s1) = Some 0"
    using bind_linked [OF s1(3)] q by simp_all
  have s2: "net_our_ip s2 = PKG_SERVER_IP" "udp_queues s2 = ?q0 # ?q1 # replicate 14 example_queue"
    using udp_send_local [of PKG_SERVER_IP s1 r "of_nat (length r)" 1234 0 "udp_queues s1"] s1(2,3) b0(1) rr ul lr
    by (simp_all add: s2_def local_server_def Let_def)
  have b2: "udp_slot 1234 (udp_queues s2) = Some 0" using bind_linked(3) [OF s2(2)] q by simp
  let ?s3 = "s2\<lparr>udp_queues := (udp_queues s2)[0 := ?q0\<lparr>q_length := 0\<rparr>]\<rparr>"
  have blk: "udp_recv 1234 maxlen s1 = (Blocked 0, s1)" using b0(2) q s1(3) by (simp add: udp_recv_def)
  have "udp_recv 1234 maxlen s2 = (Received r, ?s3)"
    using b2 s2(2) nz ul n(1) by (simp add: udp_recv_def Let_def put_frame_def word_less_nat_alt)
  then have "udp_recv_wait local_server 1234 maxlen s1 = Some (r, ?s3)"
    using blk by (simp add: udp_recv_wait_def s2_def)
  then have "pkg_udp_recv_wait n local_server maxlen s1 = Some (r, ?s3)" using lr(1) n(2) by (cases n) simp_all
  then have "pkg_exchange local_server n maxlen msg s r ?s3" using s1(1) by (auto simp: pkg_exchange_def)
  moreover have "linked_net ?s3" using s2 q by (simp add: linked_net_def linked_queues_def)
  ultimately show ?thesis by blast
qed

definition local_net :: net_state where
  "local_net = example_net\<lparr>net_our_ip := PKG_SERVER_IP,
     arp_cache := (empty_cache)[0 := \<lparr>a_ip = PKG_SERVER_IP, a_mac = replicate 6 0, a_valid = True\<rparr>],
     udp_queues := example_queue\<lparr>q_active := True, q_port := 1234\<rparr> # example_queue\<lparr>q_active := True, q_port := PKG_SERVER_PORT\<rparr> #
       replicate 14 example_queue\<rparr>"

theorem pkg_fetch_downloads_witness:
  "\<exists>s'. pkg_fetch store_fs local_server ''a'' (store_pkg\<lparr>pnet := local_net\<rparr>) = Some (True, s') \<and> world (pvfs s') 48 = [7, 8]"
proof -
  let ?s = "store_pkg\<lparr>pnet := local_net\<rparr>" and ?v = "pvfs store_pkg" and ?data = "[7, 8] :: u8 list"
  have l0: "linked_net local_net" by (auto simp: linked_net_def linked_queues_def local_net_def example_queue_def)
  have arp: "pkg_ensure_arp local_server local_net = Some (True, local_net)"
    by (simp add: pkg_ensure_arp_def local_net_def arp_lookup_def arp_hit_def empty_cache_def ARP_CACHE_SIZE_def upt_rec)
  obtain t1 where t1: "pkg_exchange local_server 2000000 16 (''GET '' @ ''a'' @ [char_of (10 :: nat)]) local_net (enc32 2) t1" "linked_net t1"
    using local_exchange [OF l0, of "''GET '' @ ''a'' @ [char_of (10 :: nat)]" "enc32 2" 16 2000000]
    by (auto simp: local_reply_def enc32_def)
  obtain t2 where t2: "pkg_exchange local_server 3000000 512 (pkg_ack 0) t1 [7, 8] t2" "linked_net t2"
    using local_exchange [OF t1(2), of "pkg_ack 0" "[7, 8]" 512 3000000] by (auto simp: local_reply_def pkg_ack_def)
  obtain t3 where t3: "pkg_send (''DONE'' @ [char_of (10 :: nat)]) t2 = Some (True, t3)"
    using send_linked [OF t2(2), of "''DONE'' @ [char_of (10 :: nat)]"] t2(2) by (auto simp: linked_net_def linked_queues_def)
  let ?st = "\<lambda>k :: nat. if k = 0 then t1 else t2"
  have ch: "pkg_exchange local_server 3000000 512 (pkg_ack k) (?st k) (slice (512 * k) 512 ?data) (?st (Suc k))"
    if "512 * k < length ?data" for k using that t2(1) by (cases k) (auto simp: slice_def)
  have r: "vfs_root ?v = 16" by (simp add: store_pkg_def)
  have f: "vfs_find_path store_fs (vfs_root (pvfs ?s)) PKG_REPO_PATH (pvfs ?s) = (32, ?v)"
    "vfs_find_path store_fs (vfs_root ?v) (PKG_REPO_PATH @ ''/'' @ ''a'' @ ''.kzp'') ?v = (48, ?v)"
    using store_paths(1,2) [OF r] r by (simp add: PKG_REPO_PATH_def, simp add: store_defs)+
  obtain h where h: "kmalloc 2 kheap_example = Some (0x1014, h)"
    using kmalloc_refines [OF heap_rep_example, of 2] by (auto simp: HEADER_SIZE_def kmalloc_round_def)
  have hp: "kmalloc 2 (pheap store_pkg) = Some (0x1014, h)" "heap_rep 0x1000 0x1400 (pheap store_pkg) [(0x1000, 1004, True)]"
    using h by (simp_all add: store_pkg_def)
  have "\<exists>h'. pkg_fetch store_fs local_server ''a'' ?s =
    Some (True, ?s\<lparr>pnet := t3, pvfs := snd (vfs_write store_fs 48 0 ?data ?v), pheap := h'\<rparr>) \<and>
    heap_rep 0x1000 0x1400 h' [(0x1000, 1004, True)]"
    by (rule pkg_fetch_downloads [where st = ?st and ?n1.0 = local_net and done_ok = True and repo = 32 and found = 48 and p = "0x1014" and h = h])
      (use arp t1(1) ch t3 f hp in simp_all)
  moreover have "world (snd (vfs_write store_fs 48 0 ?data ?v)) 48 = ?data" by (simp add: store_defs)
  ultimately show ?thesis by fastforce
qed

text \<open>
  The size that the server announces is not checked against what it sends: a chunk that goes
  beyond it is copied past the end of the receive buffer.
\<close>

theorem pkg_fetch_overflow:
  assumes "pkg_exchange env 3000000 512 (pkg_ack k) s b s'" "b \<noteq> []" "length got < total_size" "total_size < length got + length b"
  shows "pkg_download env total_size got k s = None"
  using assms by (subst pkg_download.simps) (auto simp: pkg_exchange_def PKG_CHUNK_SIZE_def)

text \<open>
  A name of 54 characters, which the shell passes on, is written past the end of \<^verbatim>\<open>save_path\<close>
  once the download has succeeded.
\<close>

theorem pkg_save_long_name: "length name > 53 \<Longrightarrow> pkg_save fs name data v = None"
  by (simp add: pkg_save_def)

text \<open>
  \<^verbatim>\<open>pkg list\<close> looks the path of the list up as the name of an entry of the root directory: in a
  file system whose entries have no slash in their names it finds nothing.
\<close>

theorem pkg_list_none:
  assumes "\<And>fn d v name. CHR ''/'' \<in> set name \<Longrightarrow> op_finddir fs fn d name v = (0, v)"
  shows "pkg_list fs v = Some (map of_char ''(None)'' @ [10], v)"
  using assms by (simp add: pkg_list_def vfs_finddir_def PKG_LIST_PATH_def)

end
