(* ===== verification/Khazar_Process.thy ===== *)
theory Khazar_Process
  imports Khazar_Kheap
begin

text \<open>
  Processes, threads and the round-robin scheduler: \<^verbatim>\<open>kernel/proc/task/process.c\<close>,
  \<^verbatim>\<open>kernel/proc/scheduler/scheduler.c\<close>, \<^verbatim>\<open>kernel/proc/wait.c\<close> and the page-fault handler
  \<^verbatim>\<open>kernel/mm/paging/fault.c\<close>. Threads, processes and saved register frames are explicit
  stores indexed by address, because the code links them by pointers and uses one field,
  \<^verbatim>\<open>thread->next\<close>, both for the circular ready queue and as the thread list of a process.
  Every walk along such a list is a partial function.
\<close>

subsection \<open>Data\<close>

definition MAX_PROCESSES :: nat where "MAX_PROCESSES = 64"
definition MAX_PROCESS_FDS :: nat where "MAX_PROCESS_FDS = 16"
definition KERNEL_STACK_SIZE :: u32 where "KERNEL_STACK_SIZE = 8192"

datatype thread_state_t = THREAD_STATE_READY | THREAD_STATE_RUNNING | THREAD_STATE_BLOCKED | THREAD_STATE_TERMINATED

datatype process_state_t = PROCESS_STATE_ALIVE | PROCESS_STATE_ZOMBIE

record thread_t =
  tid :: u32
  tstate :: thread_state_t
  tcontext :: addr
  kernel_stack :: addr
  tprocess :: addr
  tnext :: addr

record process_t =
  pid :: u32
  parent_pid :: u32
  pstate :: process_state_t
  exit_status :: u32
  pname :: string
  cmdline :: string
  page_directory :: addr
  fd_table :: "addr list"
  threads :: addr
  pnext :: addr

text \<open>The frame of \<^verbatim>\<open>struct registers\<close>, 16 words.\<close>

record registers_t =
  ds :: u32
  edi :: u32
  esi :: u32
  ebp :: u32
  esp :: u32
  ebx :: u32
  edx :: u32
  ecx :: u32
  eax :: u32
  int_no :: u32
  err_code :: u32
  eip :: u32
  cs :: u32
  eflags :: u32
  useresp :: u32
  ss :: u32

definition SIZEOF_PROCESS :: u32 where "SIZEOF_PROCESS = 252"
definition SIZEOF_THREAD :: u32 where "SIZEOF_THREAD = 24"
definition SIZEOF_REGISTERS :: u32 where "SIZEOF_REGISTERS = 64"

text \<open>What \<^verbatim>\<open>memset(p, 0, sizeof(*p))\<close> leaves in each type.\<close>

definition zero_thread :: thread_t where
  "zero_thread = \<lparr>tid = 0, tstate = THREAD_STATE_READY, tcontext = 0, kernel_stack = 0, tprocess = 0, tnext = 0\<rparr>"

definition zero_process :: process_t where
  "zero_process = \<lparr>pid = 0, parent_pid = 0, pstate = PROCESS_STATE_ALIVE, exit_status = 0, pname = [],
     cmdline = [], page_directory = 0, fd_table = replicate MAX_PROCESS_FDS 0, threads = 0, pnext = 0\<rparr>"

definition zero_registers :: registers_t where
  "zero_registers = \<lparr>ds = 0, edi = 0, esi = 0, ebp = 0, esp = 0, ebx = 0, edx = 0, ecx = 0, eax = 0,
     int_no = 0, err_code = 0, eip = 0, cs = 0, eflags = 0, useresp = 0, ss = 0\<rparr>"

text \<open>\<open>closed\<close> lists the nodes passed to \<^verbatim>\<open>vfs_close\<close>, latest first; \<open>tss_esp0\<close> is the TSS field.\<close>

record proc_state =
  heap :: kheap_state
  vm :: vmm_state
  tstore :: "addr \<Rightarrow> thread_t"
  pstore :: "addr \<Rightarrow> process_t"
  frames :: "addr \<Rightarrow> registers_t"
  next_pid :: u32
  next_tid :: u32
  process_list :: addr
  current_thread :: addr
  ready_queue :: addr
  sched_ticks :: nat
  tss_esp0 :: u32
  closed :: "addr list"

definition upd_thread :: "addr \<Rightarrow> (thread_t \<Rightarrow> thread_t) \<Rightarrow> proc_state \<Rightarrow> proc_state" where
  "upd_thread a f s = s\<lparr>tstore := (tstore s)(a := f (tstore s a))\<rparr>"

definition upd_proc :: "addr \<Rightarrow> (process_t \<Rightarrow> process_t) \<Rightarrow> proc_state \<Rightarrow> proc_state" where
  "upd_proc a f s = s\<lparr>pstore := (pstore s)(a := f (pstore s a))\<rparr>"

definition pmalloc :: "u32 \<Rightarrow> proc_state \<Rightarrow> (addr \<times> proc_state) option" where
  "pmalloc n s = map_option (\<lambda>(p, h). (p, s\<lparr>heap := h\<rparr>)) (kmalloc n (heap s))"

definition pfree :: "addr \<Rightarrow> proc_state \<Rightarrow> proc_state" where
  "pfree p s = s\<lparr>heap := kfree p (heap s)\<rparr>"

definition set_kernel_stack :: "u32 \<Rightarrow> proc_state \<Rightarrow> proc_state" where
  "set_kernel_stack stack s = s\<lparr>tss_esp0 := stack\<rparr>"

subsection \<open>The ready queue\<close>

definition scheduler_set_current_thread :: "addr \<Rightarrow> proc_state \<Rightarrow> proc_state" where
  "scheduler_set_current_thread t s =
     (let s1 = s\<lparr>current_thread := t\<rparr>
      in if ready_queue s1 = 0 then s1\<lparr>ready_queue := t\<rparr> else s1)"

definition scheduler_get_current_thread :: "proc_state \<Rightarrow> addr" where
  "scheduler_get_current_thread s = current_thread s"

definition scheduler_get_current_process :: "proc_state \<Rightarrow> addr" where
  "scheduler_get_current_process s =
     (if current_thread s \<noteq> 0 then tprocess (tstore s (current_thread s)) else 0)"

partial_function (option) find_last :: "proc_state \<Rightarrow> addr \<Rightarrow> addr option" where
  "find_last s t =
     (if tnext (tstore s t) \<noteq> ready_queue s then find_last s (tnext (tstore s t)) else Some t)"

definition scheduler_add_thread :: "addr \<Rightarrow> proc_state \<Rightarrow> proc_state option" where
  "scheduler_add_thread t s =
     (if ready_queue s = 0
      then Some (upd_thread t (\<lambda>x. x\<lparr>tnext := t\<rparr>) (s\<lparr>ready_queue := t\<rparr>))
      else do {
        l \<leftarrow> find_last s (ready_queue s);
        let s1 = upd_thread l (\<lambda>x. x\<lparr>tnext := t\<rparr>) s;
        Some (upd_thread t (\<lambda>x. x\<lparr>tnext := ready_queue s1\<rparr>) s1) })"

subsection \<open>Creating processes\<close>

text \<open>
  \<^verbatim>\<open>process_init\<close> does not check its allocations.
\<close>

definition process_init :: "proc_state \<Rightarrow> proc_state option" where
  "process_init s = do {
     let s = s\<lparr>next_pid := 1, next_tid := 1\<rparr>;
     (kp, s) \<leftarrow> pmalloc SIZEOF_PROCESS s;
     let s = upd_proc kp (\<lambda>_. zero_process\<lparr>pid := 0, pname := ''Kernel''\<rparr>) s;
     (kt, s) \<leftarrow> pmalloc SIZEOF_THREAD s;
     let s = upd_thread kt (\<lambda>_. zero_thread\<lparr>tid := 0, tstate := THREAD_STATE_RUNNING, tprocess := kp\<rparr>) s;
     let s = upd_proc kp (\<lambda>p. p\<lparr>threads := kt, pnext := 0\<rparr>) s;
     s \<leftarrow> scheduler_add_thread kt (s\<lparr>process_list := kp\<rparr>);
     Some (scheduler_set_current_thread kt s) }"

text \<open>
  The part \<^verbatim>\<open>process_create\<close> and \<^verbatim>\<open>process_create_user\<close> have in common: the three allocations
  with their error paths, and the initial fields. \<^verbatim>\<open>name\<close> is the C string, at most 31
  characters of which are copied.
\<close>

definition init_proc :: "string \<Rightarrow> addr \<Rightarrow> proc_state \<Rightarrow> proc_state" where
  "init_proc name proc s =
     (let s = upd_proc proc (\<lambda>_. zero_process\<lparr>pid := next_pid s, pstate := PROCESS_STATE_ALIVE, exit_status := 0\<rparr>)
                (s\<lparr>next_pid := next_pid s + 1\<rparr>);
          parent = scheduler_get_current_process s
      in upd_proc proc (\<lambda>p. p\<lparr>parent_pid := (if parent \<noteq> 0 then pid (pstore s parent) else 0),
                              pname := take 31 name\<rparr>) s)"

definition init_thread :: "addr \<Rightarrow> addr \<Rightarrow> proc_state \<Rightarrow> proc_state" where
  "init_thread proc thread s =
     (let s = upd_thread thread (\<lambda>_. zero_thread\<lparr>tid := next_tid s, tstate := THREAD_STATE_READY, tprocess := proc\<rparr>)
                (s\<lparr>next_tid := next_tid s + 1\<rparr>)
      in upd_proc proc (\<lambda>p. p\<lparr>threads := thread, fd_table := replicate MAX_PROCESS_FDS 0\<rparr>) s)"

definition process_new :: "string \<Rightarrow> proc_state \<Rightarrow> ((addr \<times> addr \<times> addr) option \<times> proc_state) option" where
  "process_new name s = do {
     (proc, s) \<leftarrow> pmalloc SIZEOF_PROCESS s;
     if proc = 0 then Some (None, s) else do {
     (thread, s) \<leftarrow> pmalloc SIZEOF_THREAD (init_proc name proc s);
     if thread = 0 then Some (None, pfree proc s) else do {
     (kstack, s) \<leftarrow> pmalloc KERNEL_STACK_SIZE (init_thread proc thread s);
     let s = upd_thread thread (\<lambda>t. t\<lparr>kernel_stack := kstack\<rparr>) s;
     if kstack = 0 then Some (None, pfree proc (pfree thread s))
     else Some (Some (proc, thread, kstack), s) } } }"

definition process_create :: "string \<Rightarrow> addr \<Rightarrow> proc_state \<Rightarrow> (addr \<times> proc_state) option" where
  "process_create name entrypoint s = do {
     (r, s) \<leftarrow> process_new name s;
     case r of
       None \<Rightarrow> Some (0, s)
     | Some (proc, thread, kstack) \<Rightarrow> do {
         let regs = kstack + KERNEL_STACK_SIZE - SIZEOF_REGISTERS;
         let s = s\<lparr>frames := (frames s)(regs := zero_registers\<lparr>eflags := 0x202, cs := 0x08, ds := 0x10,
                   eip := entrypoint, ebp := kstack + KERNEL_STACK_SIZE, esp := regs\<rparr>)\<rparr>;
         let s = upd_thread thread (\<lambda>t. t\<lparr>tcontext := regs\<rparr>) s;
         let s = upd_proc proc (\<lambda>p. p\<lparr>page_directory := 0, pnext := process_list s\<rparr>) s;
         s \<leftarrow> scheduler_add_thread thread (s\<lparr>process_list := proc\<rparr>);
         Some (proc, s) } }"

text \<open>The thread of a user process is queued later, by the caller.\<close>

definition process_create_user :: "string \<Rightarrow> u32 \<Rightarrow> u32 \<Rightarrow> proc_state \<Rightarrow> (addr \<times> proc_state) option" where
  "process_create_user name entrypoint user_stack_top s = do {
     (r, s) \<leftarrow> process_new name s;
     case r of
       None \<Rightarrow> Some (0, s)
     | Some (proc, thread, kstack) \<Rightarrow> do {
         let regs = kstack + KERNEL_STACK_SIZE - SIZEOF_REGISTERS;
         let s = s\<lparr>frames := (frames s)(regs := zero_registers\<lparr>eflags := 0x202, cs := 0x1B, ds := 0x23,
                   ss := 0x23, eip := entrypoint, useresp := user_stack_top, ebp := user_stack_top\<rparr>)\<rparr>;
         let s = upd_thread thread (\<lambda>t. t\<lparr>tcontext := regs\<rparr>) s;
         let (dir, vm') = vmm_clone_directory (vm s);
         let s = upd_proc proc (\<lambda>p. p\<lparr>page_directory := dir, pnext := process_list s\<rparr>) (s\<lparr>vm := vm'\<rparr>);
         Some (proc, s\<lparr>process_list := proc\<rparr>) } }"

subsection \<open>Looking up and ending processes\<close>

definition process_get_list :: "proc_state \<Rightarrow> addr" where
  "process_get_list s = process_list s"

partial_function (option) find_pid :: "proc_state \<Rightarrow> u32 \<Rightarrow> addr \<Rightarrow> addr option" where
  "find_pid s n cur =
     (if cur = 0 then Some 0
      else if pid (pstore s cur) = n then Some cur else find_pid s n (pnext (pstore s cur)))"

definition process_get_by_pid :: "u32 \<Rightarrow> proc_state \<Rightarrow> addr option" where
  "process_get_by_pid n s = find_pid s n (process_list s)"

partial_function (option) terminate_loop :: "proc_state \<Rightarrow> addr \<Rightarrow> proc_state option" where
  "terminate_loop s t =
     (if t = 0 then Some s
      else let s1 = upd_thread t (\<lambda>x. x\<lparr>tstate := THREAD_STATE_TERMINATED\<rparr>) s
           in terminate_loop s1 (tnext (tstore s1 t)))"

definition close_fds :: "addr \<Rightarrow> proc_state \<Rightarrow> proc_state" where
  "close_fds proc s =
     (let fds = fd_table (pstore s proc)
      in upd_proc proc (\<lambda>p. p\<lparr>fd_table := map (\<lambda>_. 0) fds\<rparr>)
           (s\<lparr>closed := rev (filter (\<lambda>n. n \<noteq> 0) fds) @ closed s\<rparr>))"

definition process_terminate :: "addr \<Rightarrow> u32 \<Rightarrow> proc_state \<Rightarrow> proc_state option" where
  "process_terminate proc status s =
     (if proc = 0 \<or> pstate (pstore s proc) = PROCESS_STATE_ZOMBIE then Some s
      else do {
        let s = upd_proc proc (\<lambda>p. p\<lparr>pstate := PROCESS_STATE_ZOMBIE, exit_status := status\<rparr>) s;
        s \<leftarrow> terminate_loop s (threads (pstore s proc));
        Some (close_fds proc s) })"

partial_function (option) find_pred :: "proc_state \<Rightarrow> addr \<Rightarrow> addr \<Rightarrow> addr option" where
  "find_pred s proc cur =
     (if cur \<noteq> 0 \<and> pnext (pstore s cur) \<noteq> proc then find_pred s proc (pnext (pstore s cur)) else Some cur)"

definition process_unlink :: "addr \<Rightarrow> proc_state \<Rightarrow> proc_state option" where
  "process_unlink proc s =
     (if process_list s = proc then Some (s\<lparr>process_list := pnext (pstore s proc)\<rparr>)
      else do {
        cur \<leftarrow> find_pred s proc (process_list s);
        Some (if cur \<noteq> 0 then upd_proc cur (\<lambda>p. p\<lparr>pnext := pnext (pstore s proc)\<rparr>) s else s) })"

partial_function (option) free_threads_loop :: "proc_state \<Rightarrow> addr \<Rightarrow> proc_state option" where
  "free_threads_loop s t =
     (if t = 0 then Some s
      else let nxt = tnext (tstore s t);
               s1 = (if kernel_stack (tstore s t) \<noteq> 0 then pfree (kernel_stack (tstore s t)) s else s)
           in free_threads_loop (pfree t s1) nxt)"

definition process_cleanup :: "addr \<Rightarrow> proc_state \<Rightarrow> proc_state option" where
  "process_cleanup proc s =
     (if proc = 0 then Some s
      else do {
        s \<leftarrow> process_unlink proc s;
        s \<leftarrow> free_threads_loop s (threads (pstore s proc));
        let s = (if page_directory (pstore s proc) \<noteq> 0
                 then s\<lparr>vm := vmm_free_directory (page_directory (pstore s proc)) (vm s)\<rparr> else s);
        Some (pfree proc s) })"

text \<open>
  One round of the polling loop of \<^verbatim>\<open>process_waitpid\<close>. The result is \<open>Inl ()\<close> when the loop
  polls again (other threads run in between), and otherwise the return value with the exit
  status that is stored through \<^verbatim>\<open>status\<close>.
\<close>

definition process_waitpid_round ::
    "u32 \<Rightarrow> proc_state \<Rightarrow> ((unit + u32 \<times> u32 option) \<times> proc_state) option" where
  "process_waitpid_round n s = do {
     child \<leftarrow> process_get_by_pid n s;
     if child = 0 then Some (Inr (- 1, None), s)
     else if pstate (pstore s child) = PROCESS_STATE_ZOMBIE
     then do {
       s1 \<leftarrow> process_cleanup child s;
       Some (Inr (n, Some (exit_status (pstore s child))), s1) }
     else Some (Inl (), s) }"

subsection \<open>Scheduling\<close>

text \<open>The periodic sweep over the process list.\<close>

partial_function (option) reap_loop :: "proc_state \<Rightarrow> addr \<Rightarrow> proc_state option" where
  "reap_loop s cur =
     (if cur = 0 then Some s
      else let nxt = pnext (pstore s cur)
      in if pstate (pstore s cur) = PROCESS_STATE_ZOMBIE
         then Option.bind (process_get_by_pid (parent_pid (pstore s cur)) s) (\<lambda>parent.
              if parent = 0 \<or> pstate (pstore s parent) = PROCESS_STATE_ZOMBIE
              then Option.bind (process_cleanup cur s) (\<lambda>s1. reap_loop s1 nxt)
              else reap_loop s nxt)
         else reap_loop s nxt)"

text \<open>The \<^verbatim>\<open>do\<close>--\<^verbatim>\<open>while\<close> that counts the threads of the ready queue.\<close>

partial_function (option) count_loop :: "proc_state \<Rightarrow> addr \<Rightarrow> nat \<Rightarrow> nat option" where
  "count_loop s temp n =
     (let temp' = tnext (tstore s temp)
      in if temp' \<noteq> ready_queue s then count_loop s temp' (n + 1) else Some (n + 1))"

definition runnable :: "proc_state \<Rightarrow> addr \<Rightarrow> bool" where
  "runnable s t \<longleftrightarrow> tstate (tstore s t) = THREAD_STATE_READY \<or> tstate (tstore s t) = THREAD_STATE_RUNNING"

text \<open>\<open>n\<close> is \<^verbatim>\<open>queue_size - checked\<close>.\<close>

fun pick_loop :: "proc_state \<Rightarrow> nat \<Rightarrow> addr \<Rightarrow> addr" where
  "pick_loop s 0 t = t"
| "pick_loop s (Suc n) t = (if t \<noteq> 0 \<and> \<not> runnable s t then pick_loop s n (tnext (tstore s t)) else t)"

definition switch_to_kernel_directory :: "proc_state \<Rightarrow> proc_state" where
  "switch_to_kernel_directory s =
     s\<lparr>vm := vmm_switch_directory (V2P (vmm_get_kernel_directory (vm s))) (vm s)\<rparr>"

text \<open>Resuming the chosen thread: its state, the TSS, its address space, its context.\<close>

definition schedule_resume :: "addr \<Rightarrow> addr \<Rightarrow> proc_state \<Rightarrow> addr \<times> proc_state" where
  "schedule_resume regs cur s =
     (let s = upd_thread cur (\<lambda>t. t\<lparr>tstate := THREAD_STATE_RUNNING\<rparr>) s;
          s = (if kernel_stack (tstore s cur) \<noteq> 0
               then set_kernel_stack (kernel_stack (tstore s cur) + KERNEL_STACK_SIZE) s else s)
      in if tcontext (tstore s cur) = 0 then (regs, s)
         else let proc = tprocess (tstore s cur);
                  s = (if proc \<noteq> 0 \<and> page_directory (pstore s proc) \<noteq> 0
                       then s\<lparr>vm := vmm_switch_directory (V2P (page_directory (pstore s proc))) (vm s)\<rparr>
                       else switch_to_kernel_directory s)
              in (tcontext (tstore s cur), s))"

text \<open>Picking the next thread in the circular queue.\<close>

definition schedule_pick :: "addr \<Rightarrow> proc_state \<Rightarrow> (addr \<times> proc_state) option" where
  "schedule_pick regs s = do {
     let first = (if current_thread s = 0 then ready_queue s else tnext (tstore s (current_thread s)));
     queue_size \<leftarrow> (if ready_queue s \<noteq> 0 then count_loop s (ready_queue s) 0 else Some 0);
     let cur = pick_loop s queue_size first;
     Some (if cur = 0 \<or> tstate (tstore s cur) = THREAD_STATE_TERMINATED
           then (regs, switch_to_kernel_directory (s\<lparr>current_thread := 0\<rparr>))
           else schedule_resume regs cur (s\<lparr>current_thread := cur\<rparr>)) }"

definition scheduler_schedule :: "addr \<Rightarrow> proc_state \<Rightarrow> (addr \<times> proc_state) option" where
  "scheduler_schedule regs s =
     (if ready_queue s = 0 then Some (regs, s)
      else do {
        let s = (if current_thread s \<noteq> 0 then upd_thread (current_thread s) (\<lambda>t. t\<lparr>tcontext := regs\<rparr>) s else s);
        s \<leftarrow> (if sched_ticks s + 1 > 100 then reap_loop (s\<lparr>sched_ticks := 0\<rparr>) (process_get_list s)
              else Some (s\<lparr>sched_ticks := sched_ticks s + 1\<rparr>));
        schedule_pick regs s })"

subsection \<open>Wait queues\<close>

record wait_queue_t =
  wthreads :: "addr list"
  wcount :: nat

definition wait_queue_init :: "wait_queue_t \<Rightarrow> wait_queue_t" where
  "wait_queue_init q = q\<lparr>wcount := 0\<rparr>"

text \<open>The result says whether \<^verbatim>\<open>int 0x20\<close> is executed, which enters the scheduler.\<close>

definition wait_on :: "wait_queue_t \<Rightarrow> proc_state \<Rightarrow> bool \<times> wait_queue_t \<times> proc_state" where
  "wait_on q s =
     (let cur = scheduler_get_current_thread s
      in if cur = 0 then (False, q, s)
         else if wcount q < MAX_PROCESSES
         then (True, q\<lparr>wthreads := (wthreads q)[wcount q := cur], wcount := wcount q + 1\<rparr>,
               upd_thread cur (\<lambda>t. t\<lparr>tstate := THREAD_STATE_BLOCKED\<rparr>) s)
         else (False, q, s))"

definition wake_up :: "wait_queue_t \<Rightarrow> proc_state \<Rightarrow> wait_queue_t \<times> proc_state" where
  "wake_up q s =
     (q\<lparr>wcount := 0\<rparr>,
      fold (\<lambda>t. upd_thread t (\<lambda>x. x\<lparr>tstate := THREAD_STATE_READY\<rparr>)) (take (wcount q) (wthreads q)) s)"

subsection \<open>Page faults\<close>

text \<open>
  \<^verbatim>\<open>page_fault_handler\<close>: a fault from user mode, or one at an address outside
  \<open>0x00400000..0xBFFFFFFF\<close> while a process is current, ends the process with status 139;
  every other fault is a kernel panic.
\<close>

datatype fault_result = Fault_Handled proc_state | Fault_Panic

definition page_fault_handler :: "addr \<Rightarrow> registers_t \<Rightarrow> proc_state \<Rightarrow> fault_result option" where
  "page_fault_handler faulting_address regs s =
     (let us = err_code regs AND 4;
          cur = scheduler_get_current_thread s;
          proc = (if cur \<noteq> 0 then tprocess (tstore s cur) else 0)
      in if us \<noteq> 0 \<or> (cur \<noteq> 0 \<and> proc \<noteq> 0 \<and> (faulting_address < 0x00400000 \<or> faulting_address > 0xBFFFFFFF))
         then if proc \<noteq> 0 then map_option Fault_Handled (process_terminate proc (128 + 11) s)
              else if cur \<noteq> 0
              then Some (Fault_Handled (upd_thread cur (\<lambda>t. t\<lparr>tstate := THREAD_STATE_TERMINATED\<rparr>) s))
              else Some (Fault_Handled s)
         else Some Fault_Panic)"

subsection \<open>Circular queues\<close>

definition cyc :: "(addr \<Rightarrow> thread_t) \<Rightarrow> addr list \<Rightarrow> bool" where
  "cyc ts xs \<longleftrightarrow> xs \<noteq> [] \<and> distinct xs \<and> 0 \<notin> set xs \<and>
     (\<forall>i < length xs. tnext (ts (xs ! i)) = xs ! (Suc i mod length xs))"

text \<open>The ready queue of \<open>s\<close> is the circular list \<open>xs\<close>.\<close>

definition ready_ring :: "proc_state \<Rightarrow> addr list \<Rightarrow> bool" where
  "ready_ring s xs \<longleftrightarrow> cyc (tstore s) xs \<and> ready_queue s = hd xs"

lemma cyc_next: "\<lbrakk>cyc ts xs; i < length xs\<rbrakk> \<Longrightarrow> tnext (ts (xs ! i)) = xs ! (Suc i mod length xs)"
  by (simp add: cyc_def)

lemma cyc_nonzero: "\<lbrakk>cyc ts xs; i < length xs\<rbrakk> \<Longrightarrow> xs ! i \<noteq> 0"
  by (metis cyc_def nth_mem)

lemma cyc_cong: "(\<And>t. t \<in> set xs \<Longrightarrow> tnext (ts' t) = tnext (ts t)) \<Longrightarrow> cyc ts' xs = cyc ts xs"
  by (simp add: cyc_def)

lemma ring_hd: "ready_ring s xs \<Longrightarrow> ready_queue s = xs ! 0 \<and> 0 < length xs \<and> ready_queue s \<noteq> 0"
  using cyc_nonzero [of "tstore s" xs 0] by (auto simp: ready_ring_def cyc_def hd_conv_nth)

lemma ring_next_head:
  assumes "ready_ring s xs" "i < length xs"
  shows "tnext (tstore s (xs ! i)) = ready_queue s \<longleftrightarrow> Suc i = length xs"
proof -
  have "xs ! (Suc i mod length xs) = xs ! 0 \<longleftrightarrow> Suc i mod length xs = 0"
    using assms ring_hd [OF assms(1)] by (intro nth_eq_iff_index_eq) (auto simp: ready_ring_def cyc_def)
  also have "\<dots> \<longleftrightarrow> Suc i = length xs" using assms(2) by (auto simp: mod_Suc)
  finally show ?thesis
    using cyc_next [of "tstore s" xs i] assms ring_hd [OF assms(1)] by (auto simp: ready_ring_def)
qed

lemma ring_next_in: "\<lbrakk>ready_ring s xs; Suc i < length xs\<rbrakk> \<Longrightarrow> tnext (tstore s (xs ! i)) = xs ! Suc i"
  using cyc_next [of "tstore s" xs i] by (simp add: ready_ring_def)

lemma find_last_ring:
  "\<lbrakk>ready_ring s xs; i < length xs\<rbrakk> \<Longrightarrow> find_last s (xs ! i) = Some (xs ! (length xs - 1))"
proof (induction "length xs - i" arbitrary: i)
  case (Suc n)
  show ?case
  proof (cases "Suc i = length xs")
    case True
    then have "tnext (tstore s (xs ! i)) = ready_queue s" using ring_next_head [OF Suc.prems] by simp
    moreover have "length xs - 1 = i" using True by linarith
    ultimately show ?thesis by (subst find_last.simps) simp
  next
    case False
    then have "tnext (tstore s (xs ! i)) \<noteq> ready_queue s" using ring_next_head [OF Suc.prems] by simp
    then show ?thesis
      using False Suc.prems Suc.hyps(1) [of "Suc i"] Suc.hyps(2) ring_next_in [OF Suc.prems(1), of i]
      by (subst find_last.simps) auto
  qed
qed simp

lemma count_loop_ring:
  "\<lbrakk>ready_ring s xs; i < length xs\<rbrakk> \<Longrightarrow> count_loop s (xs ! i) n = Some (n + (length xs - i))"
proof (induction "length xs - i" arbitrary: i n)
  case (Suc k)
  show ?case
  proof (cases "Suc i = length xs")
    case True
    then have "tnext (tstore s (xs ! i)) = ready_queue s" using ring_next_head [OF Suc.prems] by simp
    then show ?thesis using True by (subst count_loop.simps) (auto simp: Let_def)
  next
    case False
    then have "tnext (tstore s (xs ! i)) \<noteq> ready_queue s" using ring_next_head [OF Suc.prems] by simp
    then show ?thesis
      using False Suc.prems Suc.hyps(1) [of "Suc i" "n + 1"] Suc.hyps(2) ring_next_in [OF Suc.prems(1), of i]
      by (subst count_loop.simps) (auto simp: Let_def)
  qed
qed simp

lemma add_thread_ring:
  assumes "ready_ring s xs" "t \<notin> set xs" "t \<noteq> 0"
  shows "\<exists>l s'. l \<in> set xs \<and>
    s' = upd_thread t (\<lambda>x. x\<lparr>tnext := ready_queue s\<rparr>) (upd_thread l (\<lambda>x. x\<lparr>tnext := t\<rparr>) s) \<and>
    scheduler_add_thread t s = Some s' \<and> ready_ring s' (xs @ [t])"
proof -
  let ?n = "length xs" and ?l = "xs ! (length xs - 1)"
  have c: "cyc (tstore s) xs" "ready_queue s = hd xs" "xs \<noteq> []" using assms(1) by (auto simp: ready_ring_def cyc_def)
  define s' where "s' = upd_thread t (\<lambda>x. x\<lparr>tnext := ready_queue s\<rparr>) (upd_thread ?l (\<lambda>x. x\<lparr>tnext := t\<rparr>) s)"
  have "find_last s (ready_queue s) = Some ?l"
    using find_last_ring [OF assms(1), of 0] ring_hd [OF assms(1)] by simp
  moreover have "ready_queue s \<noteq> 0" using ring_hd [OF assms(1)] by blast
  ultimately have "scheduler_add_thread t s = Some s'"
    by (simp add: scheduler_add_thread_def s'_def upd_thread_def)
  moreover have "tnext (tstore s' ((xs @ [t]) ! i)) = (xs @ [t]) ! (Suc i mod length (xs @ [t]))" if i: "i < length (xs @ [t])" for i
  proof -
    have d: "distinct xs" using c(1) by (simp add: cyc_def)
    have lt: "?l \<noteq> t" using assms(2) c(3) by (metis diff_less length_greater_0_conv less_numeral_extra(1) nth_mem)
    consider "i = ?n" | "i = ?n - 1" "i < ?n" | "Suc i < ?n" using i by fastforce
    then show ?thesis
    proof cases
      case 1
      then show ?thesis using c(2,3) by (simp add: s'_def upd_thread_def nth_append hd_conv_nth)
    next
      case 2
      then show ?thesis using lt c(3) by (simp add: s'_def upd_thread_def nth_append)
    next
      case 3
      then have "xs ! i \<noteq> ?l" "xs ! i \<noteq> t" using d assms(2) nth_eq_iff_index_eq [OF d, of i "?n - 1"] by auto
      then show ?thesis using 3 ring_next_in [OF assms(1) 3] by (simp add: s'_def upd_thread_def nth_append)
    qed
  qed
  moreover have "ready_queue s' = hd (xs @ [t])" using c by (simp add: s'_def upd_thread_def)
  moreover have "?l \<in> set xs" using c(3) by (intro nth_mem) (cases xs, auto)
  ultimately show ?thesis
    using c assms(2,3) by (intro exI [of _ ?l] exI [of _ s']) (auto simp: ready_ring_def cyc_def s'_def)
qed

text \<open>The pick loop stops at the first runnable thread, or after a full round.\<close>

lemma pick_loop_ring:
  assumes "cyc (tstore s) xs" "i < length xs"
  shows "\<exists>k \<le> n. pick_loop s n (xs ! i) = xs ! ((i + k) mod length xs) \<and>
    (\<forall>j < k. \<not> runnable s (xs ! ((i + j) mod length xs))) \<and>
    (k < n \<longrightarrow> runnable s (xs ! ((i + k) mod length xs)))"
  using assms(2)
proof (induction n arbitrary: i)
  case 0
  then show ?case by simp
next
  case (Suc n)
  let ?L = "length xs"
  show ?case
  proof (cases "runnable s (xs ! i)")
    case True
    then show ?thesis using Suc.prems by (intro exI [of _ 0]) auto
  next
    case False
    have "Suc i mod ?L < ?L" using Suc.prems by (metis gr_implies_not0 mod_less_divisor neq0_conv)
    then obtain k where k: "k \<le> n" "pick_loop s n (xs ! (Suc i mod ?L)) = xs ! ((Suc i mod ?L + k) mod ?L)"
      "\<forall>j < k. \<not> runnable s (xs ! ((Suc i mod ?L + j) mod ?L))"
      "k < n \<longrightarrow> runnable s (xs ! ((Suc i mod ?L + k) mod ?L))"
      using Suc.IH by blast
    have m: "(Suc i mod ?L + j) mod ?L = (i + Suc j) mod ?L" for j by (simp add: mod_simps)
    have "\<not> runnable s (xs ! ((i + j) mod ?L))" if "j < Suc k" for j
      using that k(3) False Suc.prems m by (cases j) auto
    moreover have "pick_loop s (Suc n) (xs ! i) = xs ! ((i + Suc k) mod ?L)"
      using False k(2) m cyc_next [OF assms(1) Suc.prems] cyc_nonzero [OF assms(1) Suc.prems] by simp
    ultimately show ?thesis using k m by (intro exI [of _ "Suc k"]) auto
  qed
qed

subsection \<open>What scheduling does\<close>

text \<open>Between two sweeps the state the scheduler picks from is the old one with the context saved.\<close>

definition saved :: "addr \<Rightarrow> proc_state \<Rightarrow> proc_state" where
  "saved regs s = upd_thread (current_thread s) (\<lambda>t. t\<lparr>tcontext := regs\<rparr>) s"

lemma saved_simps [simp]:
  "tstate (tstore (saved regs s) t) = tstate (tstore s t)" "tnext (tstore (saved regs s) t) = tnext (tstore s t)"
  "kernel_stack (tstore (saved regs s) t) = kernel_stack (tstore s t)"
  "tprocess (tstore (saved regs s) t) = tprocess (tstore s t)"
  "tcontext (tstore (saved regs s) t) = (if t = current_thread s then regs else tcontext (tstore s t))"
  "ready_queue (saved regs s) = ready_queue s" "current_thread (saved regs s) = current_thread s"
  "sched_ticks (saved regs s) = sched_ticks s" "pstore (saved regs s) = pstore s" "vm (saved regs s) = vm s"
  "runnable (saved regs s) t = runnable s t"
  by (simp_all add: saved_def upd_thread_def runnable_def)

lemma pick_loop_cong:
  "(\<And>t. tnext (tstore s' t) = tnext (tstore s t) \<and> tstate (tstore s' t) = tstate (tstore s t)) \<Longrightarrow>
     pick_loop s' n t = pick_loop s n t"
  by (induction n arbitrary: t) (auto simp: runnable_def)

text \<open>The choice of \<^verbatim>\<open>scheduler_schedule\<close> when it does not sweep.\<close>

definition next_pick :: "proc_state \<Rightarrow> addr list \<Rightarrow> addr" where
  "next_pick s xs =
     pick_loop s (length xs) (if current_thread s = 0 then ready_queue s else tnext (tstore s (current_thread s)))"

lemma count_loop_cong:
  "\<lbrakk>count_loop s temp n = Some k; \<And>t. tnext (tstore s' t) = tnext (tstore s t); ready_queue s' = ready_queue s\<rbrakk>
    \<Longrightarrow> count_loop s' temp n = Some k"
proof (induction arbitrary: s' rule: count_loop.raw_induct [rotated, consumes 1])
  case (1 f s temp n k)
  then show ?case by (subst count_loop.simps) (auto simp: Let_def split: if_splits)
qed

text \<open>
  The process list ends, and every zombie in it has a living parent: the process that a search for
  its parent's number finds is not a zombie itself. Then the sweep has nothing to clean up.
\<close>

fun proc_chain :: "(addr \<Rightarrow> process_t) \<Rightarrow> addr \<Rightarrow> addr list \<Rightarrow> bool" where
  "proc_chain ps a [] \<longleftrightarrow> a = 0"
| "proc_chain ps a (x # xs) \<longleftrightarrow> a = x \<and> x \<noteq> 0 \<and> proc_chain ps (pnext (ps x)) xs"

definition no_orphans :: "proc_state \<Rightarrow> bool" where
  "no_orphans s \<longleftrightarrow> (\<exists>xs. proc_chain (pstore s) (process_list s) xs \<and>
     (\<forall>p \<in> set xs. pstate (pstore s p) = PROCESS_STATE_ZOMBIE \<longrightarrow>
        (\<exists>q. find (\<lambda>q. pid (pstore s q) = parent_pid (pstore s p)) xs = Some q \<and>
           pstate (pstore s q) \<noteq> PROCESS_STATE_ZOMBIE)))"

lemma no_orphans_cong:
  "pstore s' = pstore s \<Longrightarrow> process_list s' = process_list s \<Longrightarrow> no_orphans s' = no_orphans s"
  by (simp add: no_orphans_def)

lemma find_pid_chain:
  "proc_chain (pstore s) a xs \<Longrightarrow>
     find_pid s n a = Some (case find (\<lambda>q. pid (pstore s q) = n) xs of None \<Rightarrow> 0 | Some q \<Rightarrow> q)"
  by (induction xs arbitrary: a) (auto simp: find_pid.simps)

lemma find_chain_nonzero: "proc_chain ps a xs \<Longrightarrow> find P xs = Some q \<Longrightarrow> q \<noteq> 0"
  by (induction xs arbitrary: a) (auto split: if_splits)

lemma reap_loop_chain:
  assumes chain: "proc_chain (pstore s) (process_list s) xs"
  shows "\<lbrakk>proc_chain (pstore s) a ys;
     \<And>p. p \<in> set ys \<Longrightarrow> pstate (pstore s p) = PROCESS_STATE_ZOMBIE \<Longrightarrow>
       \<exists>q. find (\<lambda>q. pid (pstore s q) = parent_pid (pstore s p)) xs = Some q \<and> pstate (pstore s q) \<noteq> PROCESS_STATE_ZOMBIE\<rbrakk> \<Longrightarrow>
     reap_loop s a = Some s"
proof (induction ys arbitrary: a)
  case Nil
  then show ?case by (simp add: reap_loop.simps)
next
  case (Cons y ys)
  then have IH: "reap_loop s (pnext (pstore s y)) = Some s" by simp
  show ?case
  proof (cases "pstate (pstore s y) = PROCESS_STATE_ZOMBIE")
    case True
    then obtain q where q: "find (\<lambda>q. pid (pstore s q) = parent_pid (pstore s y)) xs = Some q"
      "pstate (pstore s q) \<noteq> PROCESS_STATE_ZOMBIE" using Cons.prems(2) [of y] by auto
    then have "process_get_by_pid (parent_pid (pstore s y)) s = Some q" "q \<noteq> 0"
      using find_pid_chain [OF chain] find_chain_nonzero [OF chain] by (auto simp: process_get_by_pid_def)
    then show ?thesis using True q(2) IH Cons.prems(1) by (subst reap_loop.simps) simp
  next
    case False
    then show ?thesis using IH Cons.prems(1) by (subst reap_loop.simps) simp
  qed
qed

lemma sweep_idle:
  assumes "no_orphans s"
  shows "reap_loop s (process_get_list s) = Some s"
proof -
  obtain xs where xs: "proc_chain (pstore s) (process_list s) xs" "\<forall>p \<in> set xs. pstate (pstore s p) = PROCESS_STATE_ZOMBIE \<longrightarrow>
      (\<exists>q. find (\<lambda>q. pid (pstore s q) = parent_pid (pstore s p)) xs = Some q \<and> pstate (pstore s q) \<noteq> PROCESS_STATE_ZOMBIE)"
    using assms by (auto simp: no_orphans_def)
  then show ?thesis using reap_loop_chain [OF xs(1) xs(1)] by (auto simp: process_get_list_def)
qed

text \<open>
  One run of the scheduler. A thread that has no saved context becomes current, but the interrupted
  frame is resumed and the address space stays.
\<close>

lemma schedule_step:
  fixes regs :: addr
  assumes ring: "ready_ring s xs" and cur: "current_thread s \<noteq> 0" and sweep: "no_orphans s"
    and live: "next_pick s xs \<noteq> 0" "tstate (tstore s (next_pick s xs)) \<noteq> THREAD_STATE_TERMINATED"
  defines "c \<equiv> tcontext (tstore (saved regs s) (next_pick s xs))"
  shows "\<exists>s'. scheduler_schedule regs s = Some (if c = 0 then regs else c, s') \<and>
    current_thread s' = next_pick s xs \<and> ready_ring s' xs \<and> no_orphans s' \<and>
    (\<forall>t. tstate (tstore s' t) = (if t = next_pick s xs then THREAD_STATE_RUNNING else tstate (tstore s t))) \<and>
    (\<forall>t. tcontext (tstore s' t) = tcontext (tstore (saved regs s) t)) \<and>
    cr3 (vm s') = (if c = 0 then cr3 (vm s) else let p = tprocess (tstore s (next_pick s xs))
       in V2P (if p \<noteq> 0 \<and> page_directory (pstore s p) \<noteq> 0 then page_directory (pstore s p)
               else kernel_directory (vm s))) \<and>
    (kernel_stack (tstore s (next_pick s xs)) \<noteq> 0 \<longrightarrow>
       tss_esp0 s' = kernel_stack (tstore s (next_pick s xs)) + KERNEL_STACK_SIZE)"
proof -
  let ?p = "next_pick s xs"
  define s1 where "s1 = saved regs s\<lparr>sched_ticks := (if 100 \<le> sched_ticks s then 0 else sched_ticks s + 1)\<rparr>"
  have s1: "tstore s1 = tstore (saved regs s)" "ready_queue s1 = ready_queue s" "current_thread s1 = current_thread s"
    "pstore s1 = pstore s" "vm s1 = vm s" "process_list s1 = process_list s"
    by (simp_all add: s1_def) (simp add: saved_def upd_thread_def)
  have rq: "ready_queue s \<noteq> 0" using ring_hd [OF ring] by blast
  have "count_loop s (ready_queue s) 0 = Some (length xs)"
    using count_loop_ring [OF ring, of 0 0] ring_hd [OF ring] by simp
  then have cnt: "count_loop s1 (ready_queue s) 0 = Some (length xs)"
    by (rule count_loop_cong) (simp_all add: s1)
  have "pick_loop s1 (length xs) (tnext (tstore s1 (current_thread s))) = ?p"
    using cur pick_loop_cong [of s1 s] by (simp add: next_pick_def s1)
  then have "schedule_pick regs s1 = Some (schedule_resume regs ?p (s1\<lparr>current_thread := ?p\<rparr>))"
    using rq cur live cnt by (simp add: schedule_pick_def s1 Let_def)
  moreover have "reap_loop s1 (process_get_list s1) = Some s1"
    using sweep no_orphans_cong [of s1 s] by (intro sweep_idle) (simp add: s1)
  then have "scheduler_schedule regs s = schedule_pick regs s1"
    using rq cur by (auto simp: scheduler_schedule_def saved_def [symmetric] s1_def Let_def process_get_list_def)
  ultimately have "scheduler_schedule regs s = Some (schedule_resume regs ?p (s1\<lparr>current_thread := ?p\<rparr>))"
    by simp
  moreover define r where "r = schedule_resume regs ?p (s1\<lparr>current_thread := ?p\<rparr>)"
  note unf = r_def schedule_resume_def Let_def s1 upd_thread_def set_kernel_stack_def switch_to_kernel_directory_def c_def
  moreover have "fst r = (if c = 0 then regs else c)" "current_thread (snd r) = ?p" "ready_queue (snd r) = ready_queue s"
    "kernel_stack (tstore s ?p) \<noteq> 0 \<longrightarrow> tss_esp0 (snd r) = kernel_stack (tstore s ?p) + KERNEL_STACK_SIZE"
    "pstore (snd r) = pstore s" "process_list (snd r) = process_list s"
    by (simp_all add: unf)
  moreover have "tstate (tstore (snd r) t) = (if t = ?p then THREAD_STATE_RUNNING else tstate (tstore s t))"
    "tcontext (tstore (snd r) t) = tcontext (tstore (saved regs s) t)" "tnext (tstore (snd r) t) = tnext (tstore s t)" for t
    by (simp_all add: unf)
  moreover have "cr3 (vm (snd r)) = (if c = 0 then cr3 (vm s) else let p = tprocess (tstore s ?p)
       in V2P (if p \<noteq> 0 \<and> page_directory (pstore s p) \<noteq> 0 then page_directory (pstore s p)
               else kernel_directory (vm s)))"
    by (simp add: unf vmm_switch_directory_def vmm_get_kernel_directory_def)
  ultimately show ?thesis
    using ring cyc_cong [of xs "tstore (snd r)" "tstore s"] sweep no_orphans_cong [of "snd r" s]
    by (intro exI [of _ "snd r"]) (simp add: ready_ring_def prod_eq_iff)
qed

lemma next_pick_round_robin:
  assumes "ready_ring s xs" "i < length xs" "current_thread s = xs ! i" "t \<in> set xs" "runnable s t"
  obtains k where "k < length xs" "next_pick s xs = xs ! ((i + 1 + k) mod length xs)" "runnable s (next_pick s xs)"
    "\<forall>j < k. \<not> runnable s (xs ! ((i + 1 + j) mod length xs))"
proof -
  let ?L = "length xs"
  have c: "cyc (tstore s) xs" using assms(1) by (simp add: ready_ring_def)
  have L: "Suc i mod ?L < ?L" using assms(2) by (metis gr_implies_not0 mod_less_divisor neq0_conv)
  have m: "(Suc i mod ?L + k) mod ?L = (i + 1 + k) mod ?L" for k by (simp add: mod_simps)
  obtain k where k: "k \<le> ?L" "pick_loop s ?L (xs ! (Suc i mod ?L)) = xs ! ((i + 1 + k) mod ?L)"
    "\<forall>j < k. \<not> runnable s (xs ! ((i + 1 + j) mod ?L))" "k < ?L \<longrightarrow> runnable s (xs ! ((i + 1 + k) mod ?L))"
    using pick_loop_ring [OF c L, of ?L] unfolding m by blast
  have np: "next_pick s xs = pick_loop s ?L (xs ! (Suc i mod ?L))"
    using cyc_next [OF c assms(2)] cyc_nonzero [OF c assms(2)] assms(3) by (simp add: next_pick_def)
  have "k < ?L"
  proof (rule ccontr)
    assume "\<not> k < ?L"
    then have none: "\<not> runnable s (xs ! ((i + 1 + j) mod ?L))" if "j < ?L" for j using k(3) that by simp
    obtain n where n: "n < ?L" "t = xs ! n" using assms(4) by (metis in_set_conv_nth)
    define j where "j = (n + ?L - (i + 1) mod ?L) mod ?L"
    have "j < ?L" unfolding j_def using n(1) by (intro mod_less_divisor) linarith
    moreover have "(i + 1 + j) mod ?L = n"
    proof -
      have "(i + 1 + j) mod ?L = ((i + 1) mod ?L + (n + ?L - (i + 1) mod ?L)) mod ?L"
        by (simp only: j_def mod_simps)
      also have "(i + 1) mod ?L + (n + ?L - (i + 1) mod ?L) = n + ?L" using L by simp
      finally show ?thesis using n(1) by simp
    qed
    ultimately show False using none n(2) assms(5) by metis
  qed
  then show ?thesis using that k np by metis
qed

text \<open>
  C4. Round robin: with the ready queue a ring that holds the current thread and some runnable
  thread, and with no zombie process left without a living parent, \<^verbatim>\<open>scheduler_schedule\<close> returns,
  and it resumes the first runnable thread after the current one in ring order: that thread becomes
  current and RUNNING, the interrupted thread's context is saved, the TSS stack is that of the
  chosen thread, and the ring is unchanged. The context and the page directory resumed are those of
  the chosen thread if it has a saved context, and the interrupted ones otherwise. This includes
  every 101st call, which sweeps the process list for orphaned zombies first.
\<close>

theorem scheduler_round_robin:
  assumes "ready_ring s xs" "i < length xs" "current_thread s = xs ! i" "t \<in> set xs" "runnable s t" "no_orphans s"
  shows "\<exists>s' k. k < length xs \<and> (let n = xs ! ((i + 1 + k) mod length xs); p = tprocess (tstore s n);
      c = (if n = xs ! i then regs else tcontext (tstore s n)) in
    runnable s n \<and> (\<forall>j < k. \<not> runnable s (xs ! ((i + 1 + j) mod length xs))) \<and>
    scheduler_schedule regs s = Some (if c = 0 then regs else c, s') \<and>
    current_thread s' = n \<and> ready_ring s' xs \<and> tstate (tstore s' n) = THREAD_STATE_RUNNING \<and>
    tcontext (tstore s' (xs ! i)) = regs \<and>
    (\<forall>u. u \<noteq> n \<longrightarrow> tstate (tstore s' u) = tstate (tstore s u)) \<and>
    cr3 (vm s') = (if c = 0 then cr3 (vm s)
       else V2P (if p \<noteq> 0 \<and> page_directory (pstore s p) \<noteq> 0 then page_directory (pstore s p)
         else kernel_directory (vm s))) \<and>
    (kernel_stack (tstore s n) \<noteq> 0 \<longrightarrow> tss_esp0 s' = kernel_stack (tstore s n) + KERNEL_STACK_SIZE))"
proof -
  obtain k where k: "k < length xs" "next_pick s xs = xs ! ((i + 1 + k) mod length xs)" "runnable s (next_pick s xs)"
    "\<forall>j < k. \<not> runnable s (xs ! ((i + 1 + j) mod length xs))"
    using next_pick_round_robin [OF assms(1-5)] by blast
  have c: "cyc (tstore s) xs" using assms(1) by (simp add: ready_ring_def)
  have lt: "(i + 1 + k) mod length xs < length xs" using k(1) by (intro mod_less_divisor) linarith
  then have nz: "next_pick s xs \<noteq> 0" "current_thread s \<noteq> 0"
    using k(2) cyc_nonzero [OF c] assms(2,3) by auto
  have "tstate (tstore s (next_pick s xs)) \<noteq> THREAD_STATE_TERMINATED" using k(3) by (auto simp: runnable_def)
  from schedule_step [OF assms(1) nz(2) assms(6) nz(1) this, of regs] obtain s' where s':
    "scheduler_schedule regs s = Some (if tcontext (tstore (saved regs s) (next_pick s xs)) = 0 then regs
       else tcontext (tstore (saved regs s) (next_pick s xs)), s')"
    "current_thread s' = next_pick s xs" "ready_ring s' xs"
    "\<And>t. tstate (tstore s' t) = (if t = next_pick s xs then THREAD_STATE_RUNNING else tstate (tstore s t))"
    "\<And>t. tcontext (tstore s' t) = tcontext (tstore (saved regs s) t)"
    "cr3 (vm s') = (if tcontext (tstore (saved regs s) (next_pick s xs)) = 0 then cr3 (vm s)
       else let p = tprocess (tstore s (next_pick s xs))
       in V2P (if p \<noteq> 0 \<and> page_directory (pstore s p) \<noteq> 0 then page_directory (pstore s p)
               else kernel_directory (vm s)))"
    "kernel_stack (tstore s (next_pick s xs)) \<noteq> 0 \<longrightarrow>
       tss_esp0 s' = kernel_stack (tstore s (next_pick s xs)) + KERNEL_STACK_SIZE"
    by blast
  show ?thesis
  proof (rule exI [of _ s'], rule exI [of _ k], intro conjI)
    show "k < length xs" by (rule k(1))
  qed (unfold Let_def k(2) [symmetric], use s' k(3,4) assms(3) in \<open>simp add: Let_def\<close>)
qed

text \<open>Two threads in the ring: the current one at 0x100 is blocked, the one at 0x200 is ready.\<close>

definition proc_example :: proc_state where
  "proc_example = \<lparr>heap = kheap_example, vm = vmm_example,
     tstore = (\<lambda>a. if a = 0x100
       then zero_thread\<lparr>tid := 1, tstate := THREAD_STATE_BLOCKED, tcontext := 0x10, tprocess := 0x300, tnext := 0x200\<rparr>
       else zero_thread\<lparr>tid := 2, tcontext := 0x20, tprocess := 0x400, tnext := 0x100\<rparr>),
     pstore = (\<lambda>a. zero_process\<lparr>pid := 1, threads := (if a = 0x300 then 0x100 else 0x200)\<rparr>),
     frames = (\<lambda>_. zero_registers), next_pid = 3, next_tid = 3, process_list = 0, current_thread = 0x100,
     ready_queue = 0x100, sched_ticks = 0, tss_esp0 = 0, closed = []\<rparr>"

lemma proc_example_ring: "ready_ring proc_example [0x100, 0x200]"
  by (auto simp: ready_ring_def cyc_def proc_example_def less_Suc_eq)

lemma proc_example_sweep: "no_orphans (proc_example\<lparr>sched_ticks := n\<rparr>)" "no_orphans proc_example"
  by (auto simp: no_orphans_def proc_example_def intro!: exI [of _ "[]"])

text \<open>The example on the call that sweeps.\<close>

theorem scheduler_round_robin_witness:
  "\<exists>s'. scheduler_schedule 0x30 (proc_example\<lparr>sched_ticks := 100\<rparr>) = Some (0x20, s') \<and> current_thread s' = 0x200"
proof -
  let ?s = "proc_example\<lparr>sched_ticks := 100\<rparr>"
  have r: "\<not> runnable ?s 0x100" "runnable ?s 0x200" "tcontext (tstore ?s 0x200) = 0x20"
    by (simp_all add: runnable_def proc_example_def zero_thread_def)
  define ys where "ys = [0x100, 0x200 :: addr]"
  have ys: "length ys = 2" "ys ! 0 = 0x100" "ys ! 1 = 0x200" "0x200 \<in> set ys" by (auto simp: ys_def)
  have ring: "ready_ring ?s ys" using proc_example_ring by (simp add: ready_ring_def ys_def)
  have cur: "current_thread ?s = ys ! 0" by (simp add: proc_example_def ys)
  obtain s' k where k: "k < 2" "runnable ?s (ys ! ((0 + 1 + k) mod 2))"
    "scheduler_schedule 0x30 ?s = (let n = ys ! ((0 + 1 + k) mod 2); c = (if n = ys ! 0 then 0x30 else tcontext (tstore ?s n))
       in Some (if c = 0 then 0x30 else c, s'))"
    "current_thread s' = ys ! ((0 + 1 + k) mod 2)"
    using scheduler_round_robin [OF ring _ cur ys(4) r(2) proc_example_sweep(1), of "0x30"]
    unfolding ys(1) Let_def by force
  then have "k = 0" using r(1) ys(2) by (auto simp: less_2_cases_iff)
  then show ?thesis using k r(3) ys by (auto simp: Let_def)
qed

subsection \<open>Queueing threads\<close>

text \<open>
  \<^verbatim>\<open>scheduler_add_thread\<close> returns and puts a new thread at the end of the ring, behind all
  threads that are already in it, whose order and states do not change.
\<close>

theorem scheduler_add_thread_last:
  assumes "ready_ring s xs" "t \<notin> set xs" "t \<noteq> 0"
  shows "\<exists>s'. scheduler_add_thread t s = Some s' \<and> ready_ring s' (xs @ [t]) \<and>
    (\<forall>u \<in> set xs. tstate (tstore s' u) = tstate (tstore s u)) \<and> tstate (tstore s' t) = tstate (tstore s t) \<and>
    pstore s' = pstore s \<and> current_thread s' = current_thread s"
  using add_thread_ring [OF assms] by (auto simp: upd_thread_def)

theorem scheduler_add_thread_last_witness:
  "\<exists>s'. scheduler_add_thread 0x500 proc_example = Some s' \<and> ready_ring s' [0x100, 0x200, 0x500]"
  using scheduler_add_thread_last [OF proc_example_ring, of "0x500"] by auto

subsection \<open>Ending processes\<close>

text \<open>
  A set of threads that is closed under \<^verbatim>\<open>next\<close> and has no NULL in it is never left by the
  loop, so the loop does not return.
\<close>

definition next_closed :: "proc_state \<Rightarrow> addr set \<Rightarrow> bool" where
  "next_closed s A \<longleftrightarrow> 0 \<notin> A \<and> (\<forall>t \<in> A. tnext (tstore s t) \<in> A)"

lemma next_closed_upd_state:
  "next_closed s A \<Longrightarrow> next_closed (upd_thread t (\<lambda>x. x\<lparr>tstate := v\<rparr>) s) A"
  by (simp add: next_closed_def upd_thread_def)

lemma terminate_loop_diverges:
  assumes "next_closed s A" "t \<in> A"
  shows "terminate_loop s t = None"
proof -
  have "\<forall>A. next_closed s A \<longrightarrow> t \<notin> A" if "terminate_loop s t = Some r" for r
    using that
  proof (induction rule: terminate_loop.raw_induct [rotated, consumes 1])
    case (1 f s t r)
    let ?s = "upd_thread t (\<lambda>x. x\<lparr>tstate := THREAD_STATE_TERMINATED\<rparr>) s"
    show ?case
    proof (intro allI impI notI)
      fix A
      assume A: "next_closed s A" "t \<in> A"
      then have "t \<noteq> 0" by (auto simp: next_closed_def)
      then have "f ?s (tnext (tstore ?s t)) = Some r" using 1(2) by (simp add: Let_def)
      moreover have "tnext (tstore ?s t) \<in> A" using A by (simp add: next_closed_def upd_thread_def)
      ultimately show False using 1(1) next_closed_upd_state [OF A(1)] by blast
    qed
  qed
  then show ?thesis using assms by (cases "terminate_loop s t") auto
qed

lemma ring_next_closed: "ready_ring s xs \<Longrightarrow> next_closed s (set xs)"
  unfolding next_closed_def ready_ring_def
  by (auto simp: cyc_def in_set_conv_nth) (metis gr_implies_not0 length_greater_0_conv mod_less_divisor neq0_conv nth_mem)

text \<open>
  C7. Terminating a live process whose thread is in the circular ready queue does not return:
  the loop that is to visit the threads of the process follows the same \<^verbatim>\<open>next\<close> pointers as
  the scheduler's ring and never meets NULL.
\<close>

theorem process_terminate_diverges:
  assumes "ready_ring s xs" "threads (pstore s proc) \<in> set xs" "proc \<noteq> 0"
    "pstate (pstore s proc) = PROCESS_STATE_ALIVE"
  shows "process_terminate proc status s = None"
proof -
  let ?s = "upd_proc proc (\<lambda>p. p\<lparr>pstate := PROCESS_STATE_ZOMBIE, exit_status := status\<rparr>) s"
  have "next_closed ?s (set xs)" using ring_next_closed [OF assms(1)] by (simp add: next_closed_def upd_proc_def)
  then have "terminate_loop ?s (threads (pstore ?s proc)) = None"
    using assms(2) by (intro terminate_loop_diverges) (auto simp: upd_proc_def)
  then show ?thesis using assms(3,4) by (simp add: process_terminate_def)
qed

theorem process_terminate_diverges_witness:
  "process_terminate 0x300 0 proc_example = None"
  by (rule process_terminate_diverges [OF proc_example_ring]) (simp_all add: proc_example_def zero_process_def)

subsection \<open>Creating processes\<close>

text \<open>
  The heap of \<open>s\<close> is well formed and the queued threads are live heap objects; \<open>bs\<close> is the
  block list, \<open>xs\<close> the ring.
\<close>

definition proc_inv :: "nat \<Rightarrow> nat \<Rightarrow> proc_state \<Rightarrow> blk list \<Rightarrow> addr list \<Rightarrow> bool" where
  "proc_inv lo hi s bs xs \<longleftrightarrow> heap_rep lo hi (heap s) bs \<and> ready_ring s xs \<and> set xs \<subseteq> fst ` payloads bs"

lemma pmalloc_simps:
  "kmalloc n (heap s) = Some (p, h) \<Longrightarrow> pmalloc n s = Some (p, s\<lparr>heap := h\<rparr>)"
  by (simp add: pmalloc_def)

lemma heap_upd [simp]:
  "heap (upd_proc a f s) = heap s" "heap (upd_thread a g s) = heap s"
  "next_pid (upd_proc a f s) = next_pid s" "next_tid (upd_proc a f s) = next_tid s"
  "next_pid (upd_thread a g s) = next_pid s"
  "ready_queue (upd_proc a f s) = ready_queue s" "ready_queue (upd_thread a g s) = ready_queue s"
  "process_list (upd_proc a f s) = process_list s" "process_list (upd_thread a g s) = process_list s"
  "current_thread (upd_proc a f s) = current_thread s" "current_thread (upd_thread a g s) = current_thread s"
  "tstore (upd_proc a f s) = tstore s" "pstore (upd_thread a g s) = pstore s"
  by (simp_all add: upd_proc_def upd_thread_def)

lemma init_proc_simps [simp]:
  "heap (init_proc name p s) = heap s" "tstore (init_proc name p s) = tstore s"
  "next_pid (init_proc name p s) = next_pid s + 1" "next_tid (init_proc name p s) = next_tid s"
  "ready_queue (init_proc name p s) = ready_queue s" "process_list (init_proc name p s) = process_list s"
  "current_thread (init_proc name p s) = current_thread s"
  "pid (pstore (init_proc name p s) p) = next_pid s" "pstate (pstore (init_proc name p s) p) = PROCESS_STATE_ALIVE"
  "pname (pstore (init_proc name p s) p) = take 31 name"
  by (simp_all add: init_proc_def Let_def upd_proc_def)

lemma init_thread_simps [simp]:
  "heap (init_thread p t s) = heap s" "next_pid (init_thread p t s) = next_pid s"
  "next_tid (init_thread p t s) = next_tid s + 1"
  "ready_queue (init_thread p t s) = ready_queue s" "process_list (init_thread p t s) = process_list s"
  "current_thread (init_thread p t s) = current_thread s"
  "pstore (init_thread p t s) p = (pstore s p)\<lparr>threads := t, fd_table := replicate MAX_PROCESS_FDS 0\<rparr>"
  "tstore (init_thread p t s) = (tstore s)(t := zero_thread\<lparr>tid := next_tid s, tstate := THREAD_STATE_READY, tprocess := p\<rparr>)"
  by (simp_all add: init_thread_def Let_def upd_proc_def upd_thread_def)

lemma ready_ring_cong:
  "\<lbrakk>ready_queue s' = ready_queue s; \<And>t. t \<in> set xs \<Longrightarrow> tstore s' t = tstore s t\<rbrakk> \<Longrightarrow> ready_ring s' xs = ready_ring s xs"
  using cyc_cong [of xs "tstore s'" "tstore s"] by (simp add: ready_ring_def)

lemma pfree_simps [simp]:
  "heap (pfree p s) = kfree p (heap s)" "tstore (pfree p s) = tstore s" "pstore (pfree p s) = pstore s"
  "ready_queue (pfree p s) = ready_queue s" "process_list (pfree p s) = process_list s"
  "current_thread (pfree p s) = current_thread s"
  by (simp_all add: pfree_def)

text \<open>The common part either gives everything back or returns three fresh objects.\<close>

lemma process_new_outcomes [consumes 1]:
  assumes "proc_inv lo hi s bs xs"
  obtains (fail) s' where "process_new name s = Some (None, s')" "proc_inv lo hi s' bs xs"
      "process_list s' = process_list s" "current_thread s' = current_thread s"
    | (ok) proc thread kstack s' bs' where "process_new name s = Some (Some (proc, thread, kstack), s')"
      "proc \<noteq> 0" "thread \<noteq> 0" "kstack \<noteq> 0" "proc_inv lo hi s' bs' xs"
      "{proc, thread, kstack} \<subseteq> fst ` payloads bs'" "thread \<notin> set xs"
      "process_list s' = process_list s" "current_thread s' = current_thread s"
      "next_pid s' = next_pid s + 1" "next_tid s' = next_tid s + 1"
      "pid (pstore s' proc) = next_pid s" "pstate (pstore s' proc) = PROCESS_STATE_ALIVE"
      "threads (pstore s' proc) = thread" "pname (pstore s' proc) = take 31 name"
      "fd_table (pstore s' proc) = replicate MAX_PROCESS_FDS 0"
      "tstore s' thread = \<lparr>tid = next_tid s, tstate = THREAD_STATE_READY, tcontext = 0, kernel_stack = kstack,
         tprocess = proc, tnext = 0\<rparr>"
proof -
  have I: "heap_rep lo hi (heap s) bs" "ready_ring s xs" "set xs \<subseteq> fst ` payloads bs"
    using assms by (auto simp: proc_inv_def)
  from I(1) show ?thesis
  proof (cases rule: kmalloc_outcomes [where sz = SIZEOF_PROCESS])
    case null
    then have "process_new name s = Some (None, s)" by (simp add: process_new_def pmalloc_def)
    then show ?thesis using fail assms by blast
  next
    case p: (ok proc m1 bs1 h1)
    define s1 where "s1 = init_proc name proc (s\<lparr>heap := h1\<rparr>)"
    have r1: "ready_ring t xs = ready_ring s xs" if "ready_queue t = ready_queue s" "tstore t = tstore s" for t
      using that by (intro ready_ring_cong) auto
    from p(3) show ?thesis
    proof (cases rule: kmalloc_outcomes [where sz = SIZEOF_THREAD])
      case null
      let ?s = "pfree proc (s1\<lparr>heap := h1\<rparr>)"
      have "process_new name s = Some (None, ?s)"
        using p null by (simp add: process_new_def pmalloc_def s1_def)
      moreover have "proc_inv lo hi ?s bs xs" using p(6) [OF p(3)] I r1 [of ?s] by (simp add: proc_inv_def s1_def)
      ultimately show ?thesis using fail by (simp add: s1_def)
    next
      case t: (ok thread m2 bs2 h2)
      define s2 where "s2 = init_thread proc thread (s1\<lparr>heap := h2\<rparr>)"
      have tx: "thread \<notin> set xs" using I(3) t(5) p(4) by auto
      have r2: "ready_ring u xs = ready_ring s xs"
        if "ready_queue u = ready_queue s" "\<And>v. v \<noteq> thread \<Longrightarrow> tstore u v = tstore s v" for u
        by (rule ready_ring_cong) (use that tx in \<open>auto intro: that(2)\<close>)
      from t(3) show ?thesis
      proof (cases rule: kmalloc_outcomes [where sz = KERNEL_STACK_SIZE])
        case null
        let ?s = "pfree proc (pfree thread (upd_thread thread (\<lambda>t. t\<lparr>kernel_stack := 0\<rparr>) (s2\<lparr>heap := h2\<rparr>)))"
        have "process_new name s = Some (None, ?s)"
          using p t null by (simp add: process_new_def pmalloc_def s1_def s2_def)
        moreover have "proc_inv lo hi ?s bs xs"
          using p(6) [OF t(6) [OF t(3)]] I r2 [of ?s] by (simp add: proc_inv_def s1_def s2_def upd_thread_def)
        ultimately show ?thesis using fail by (simp add: s1_def s2_def)
      next
        case k: (ok kstack m3 bs3 h3)
        let ?s = "upd_thread thread (\<lambda>t. t\<lparr>kernel_stack := kstack\<rparr>) (s2\<lparr>heap := h3\<rparr>)"
        have new: "process_new name s = Some (Some (proc, thread, kstack), ?s)"
          using p t k by (simp add: process_new_def pmalloc_def s1_def s2_def)
        have pay: "{proc, thread, kstack} \<subseteq> fst ` payloads bs3" "set xs \<subseteq> fst ` payloads bs3"
          using p(4) t(4) k(4) I(3) by auto
        have inv: "proc_inv lo hi ?s bs3 xs"
          using k(3) I pay(2) r2 [of ?s] by (simp add: proc_inv_def s1_def s2_def upd_thread_def)
        show ?thesis
          by (rule ok [OF new p(2) t(2) k(2) inv pay(1) tx])
            (simp_all add: s1_def s2_def upd_thread_def zero_thread_def)
      qed
    qed
  qed
qed

text \<open>
  C6. \<^verbatim>\<open>process_create\<close> always returns and is all or nothing: if memory runs out anywhere it
  returns NULL with every allocation given back (the heap's block list, the process list and
  the ready ring are as before); otherwise the new process is ALIVE with the next pid at the
  head of the process list, its READY thread is last in the ring, and the thread's saved
  frame starts at the entry point in kernel mode with interrupts enabled.
\<close>

theorem process_create_all_or_nothing:
  assumes "proc_inv lo hi s bs xs"
  shows "\<exists>proc s'. process_create name entrypoint s = Some (proc, s') \<and>
    (if proc = 0 then proc_inv lo hi s' bs xs \<and> process_list s' = process_list s
     else \<exists>thread bs'. proc_inv lo hi s' bs' (xs @ [thread]) \<and> process_list s' = proc \<and>
       pnext (pstore s' proc) = process_list s \<and> pid (pstore s' proc) = next_pid s \<and>
       next_pid s' = next_pid s + 1 \<and> pstate (pstore s' proc) = PROCESS_STATE_ALIVE \<and>
       threads (pstore s' proc) = thread \<and> pname (pstore s' proc) = take 31 name \<and>
       tstate (tstore s' thread) = THREAD_STATE_READY \<and> tprocess (tstore s' thread) = proc \<and>
       (let f = frames s' (tcontext (tstore s' thread)) in
          eip f = entrypoint \<and> cs f = 0x08 \<and> ds f = 0x10 \<and> eflags f = 0x202))"
  using assms
proof (cases rule: process_new_outcomes [where name = name])
  case (fail s')
  then show ?thesis by (intro exI [of _ 0] exI [of _ s']) (simp add: process_create_def)
next
  case (ok proc thread kstack t bs')
  let ?regs = "kstack + KERNEL_STACK_SIZE - SIZEOF_REGISTERS"
  define u where "u = (upd_proc proc (\<lambda>p. p\<lparr>page_directory := 0, pnext := process_list s\<rparr>)
      (upd_thread thread (\<lambda>t. t\<lparr>tcontext := ?regs\<rparr>)
        (t\<lparr>frames := (frames t)(?regs := zero_registers\<lparr>eflags := 0x202, cs := 0x08, ds := 0x10,
           eip := entrypoint, ebp := kstack + KERNEL_STACK_SIZE, esp := ?regs\<rparr>)\<rparr>)))\<lparr>process_list := proc\<rparr>"
  have inv: "heap_rep lo hi (heap t) bs'" "ready_ring t xs" "set xs \<subseteq> fst ` payloads bs'"
    using ok(5) by (auto simp: proc_inv_def)
  have "ready_ring u xs = ready_ring t xs"
    by (rule ready_ring_cong) (use ok(7) in \<open>auto simp: u_def upd_thread_def upd_proc_def\<close>)
  then have ru: "ready_ring u xs" using inv(2) by simp
  obtain l v where l: "l \<in> set xs" and
    v: "v = upd_thread thread (\<lambda>x. x\<lparr>tnext := ready_queue u\<rparr>) (upd_thread l (\<lambda>x. x\<lparr>tnext := thread\<rparr>) u)"
    "scheduler_add_thread thread u = Some v" "ready_ring v (xs @ [thread])"
    using add_thread_ring [OF ru ok(7) ok(3)] by blast
  have lt: "l \<noteq> thread" using l ok(7) by auto
  have cr: "process_create name entrypoint s = Some (proc, v)"
    using ok(1,8) v(2) by (simp add: process_create_def u_def [symmetric] Let_def)
  have "proc_inv lo hi v bs' (xs @ [thread])"
    using inv v(1,3) ok(6) by (simp add: proc_inv_def u_def)
  moreover have "process_list v = proc" "next_pid v = next_pid s + 1"
    "pstore v proc = (pstore t proc)\<lparr>page_directory := 0, pnext := process_list s\<rparr>"
    "tstore v thread = (tstore t thread)\<lparr>tcontext := ?regs, tnext := ready_queue t\<rparr>"
    "frames v ?regs = zero_registers\<lparr>eflags := 0x202, cs := 0x08, ds := 0x10,
           eip := entrypoint, ebp := kstack + KERNEL_STACK_SIZE, esp := ?regs\<rparr>"
    using lt ok(10) by (simp_all add: v(1) u_def upd_thread_def upd_proc_def)
  ultimately show ?thesis
    using cr ok(2,12-15,17) by (intro exI [of _ proc] exI [of _ v]) auto
qed

text \<open>One queued thread, a live object of a 1 KB heap.\<close>

definition proc_example2 :: proc_state where
  "proc_example2 = proc_example\<lparr>
     heap := \<lparr>heap_start = 0x1000, hdr = (\<lambda>a. if a = 0x1000
       then \<lparr>magic = KHEAP_MAGIC, hsize = 24, is_free = 0, hnext = 0x102C, hprev = 0\<rparr>
       else \<lparr>magic = KHEAP_MAGIC, hsize = 960, is_free = 1, hnext = 0, hprev = 0x1000\<rparr>)\<rparr>,
     tstore := (\<lambda>_. zero_thread\<lparr>tnext := 0x1014\<rparr>), ready_queue := 0x1014, current_thread := 0x1014\<rparr>"

lemma proc_example2_inv:
  "proc_inv 0x1000 0x1400 proc_example2 [(0x1000, 24, False), (0x102C, 960, True)] [0x1014]"
  by (simp add: proc_inv_def heap_rep_def ready_ring_def cyc_def proc_example2_def payloads_Cons HEADER_SIZE_def)

theorem process_create_all_or_nothing_witness:
  "\<exists>proc s'. process_create ''init'' 0xC0100000 proc_example2 = Some (proc, s')"
  using process_create_all_or_nothing [OF proc_example2_inv, of "''init''" "0xC0100000"] by blast

subsection \<open>Blocking\<close>

text \<open>
  When every thread of the ring is blocked, \<^verbatim>\<open>scheduler_schedule\<close> gives up its search after
  one round but then resumes the thread it stopped at all the same: a BLOCKED thread becomes
  RUNNING without having been woken.
\<close>

theorem scheduler_all_blocked:
  assumes "ready_ring s xs" "i < length xs" "current_thread s = xs ! i"
    "\<forall>u \<in> set xs. tstate (tstore s u) = THREAD_STATE_BLOCKED" "no_orphans s"
  shows "\<exists>r s'. scheduler_schedule regs s = Some (r, s') \<and>
    current_thread s' = xs ! (Suc i mod length xs) \<and>
    tstate (tstore s' (xs ! (Suc i mod length xs))) = THREAD_STATE_RUNNING"
proof -
  let ?L = "length xs" and ?n = "xs ! (Suc i mod length xs)"
  have c: "cyc (tstore s) xs" using assms(1) by (simp add: ready_ring_def)
  have L: "Suc i mod ?L < ?L" using assms(2) by (intro mod_less_divisor) linarith
  then have n: "?n \<in> set xs" by simp
  obtain k where k: "k \<le> ?L" "pick_loop s ?L ?n = xs ! ((Suc i mod ?L + k) mod ?L)"
    "k < ?L \<longrightarrow> runnable s (xs ! ((Suc i mod ?L + k) mod ?L))"
    using pick_loop_ring [OF c L, of ?L] by blast
  have "xs ! ((Suc i mod ?L + k) mod ?L) \<in> set xs" using L by (intro nth_mem mod_less_divisor) linarith
  then have "\<not> runnable s (xs ! ((Suc i mod ?L + k) mod ?L))" using assms(4) by (simp add: runnable_def)
  then have "k = ?L" using k(1,3) by auto
  then have "pick_loop s ?L ?n = ?n" using k(2) L by simp
  then have np: "next_pick s xs = ?n"
    using cyc_next [OF c assms(2)] cyc_nonzero [OF c assms(2)] assms(3) by (simp add: next_pick_def)
  have "next_pick s xs \<noteq> 0" "current_thread s \<noteq> 0"
    unfolding np using cyc_nonzero [OF c L] cyc_nonzero [OF c assms(2)] assms(3) by auto
  moreover have "tstate (tstore s (next_pick s xs)) \<noteq> THREAD_STATE_TERMINATED" unfolding np using assms(4) n by auto
  ultimately obtain r s' where "scheduler_schedule regs s = Some (r, s')" "current_thread s' = next_pick s xs"
    "\<forall>t. tstate (tstore s' t) = (if t = next_pick s xs then THREAD_STATE_RUNNING else tstate (tstore s t))"
    using schedule_step [OF assms(1) _ assms(5), of regs] by blast
  then show ?thesis unfolding np by auto
qed

text \<open>Both threads of the example are blocked.\<close>

definition blocked_example :: proc_state where
  "blocked_example = upd_thread 0x200 (\<lambda>t. t\<lparr>tstate := THREAD_STATE_BLOCKED\<rparr>) proc_example"

theorem scheduler_all_blocked_witness:
  "\<exists>r s'. scheduler_schedule 0x30 blocked_example = Some (r, s') \<and>
     tstate (tstore s' 0x200) = THREAD_STATE_RUNNING"
proof -
  have "ready_ring blocked_example [0x100, 0x200]"
    by (auto simp: ready_ring_def cyc_def proc_example_def blocked_example_def upd_thread_def less_Suc_eq)
  moreover have "no_orphans blocked_example"
    using proc_example_sweep(2) by (simp add: blocked_example_def upd_thread_def no_orphans_def)
  ultimately show ?thesis using scheduler_all_blocked [of blocked_example _ 0 "0x30"]
    by (fastforce simp: proc_example_def blocked_example_def upd_thread_def)
qed

lemma wake_fold:
  "tstate (tstore (fold (\<lambda>t. upd_thread t (\<lambda>x. x\<lparr>tstate := THREAD_STATE_READY\<rparr>)) ts s) u) =
     (if u \<in> set ts then THREAD_STATE_READY else tstate (tstore s u))"
  by (induction ts arbitrary: s) (auto simp: upd_thread_def)

text \<open>
  Blocking and waking: \<^verbatim>\<open>wait_on\<close> takes the current thread off the runnable ones and
  records it in the wait queue, and the next \<^verbatim>\<open>wake_up\<close> makes exactly the recorded threads
  READY and empties the queue.
\<close>

theorem wait_on_wake_up:
  assumes "current_thread s \<noteq> 0" "wcount q < 64" "length (wthreads q) = 64"
    "wait_on q s = (yield, q1, s1)" "wake_up q1 s1 = (q2, s2)"
  shows "yield \<and> \<not> runnable s1 (current_thread s) \<and> wcount q1 = wcount q + 1 \<and> wcount q2 = 0 \<and>
    (\<forall>u. tstate (tstore s2 u) = (if u = current_thread s \<or> u \<in> set (take (wcount q) (wthreads q))
       then THREAD_STATE_READY else tstate (tstore s u)))"
proof -
  have q1: "yield" "q1 = q\<lparr>wthreads := (wthreads q)[wcount q := current_thread s], wcount := wcount q + 1\<rparr>"
    "s1 = upd_thread (current_thread s) (\<lambda>t. t\<lparr>tstate := THREAD_STATE_BLOCKED\<rparr>) s"
    using assms(1,2,4) by (auto simp: wait_on_def Let_def scheduler_get_current_thread_def MAX_PROCESSES_def)
  have "take (Suc (wcount q)) ((wthreads q)[wcount q := current_thread s]) = take (wcount q) (wthreads q) @ [current_thread s]"
    using assms(2,3) by (simp add: take_Suc_conv_app_nth)
  then show ?thesis
    using assms(5) q1 by (auto simp: wake_up_def wake_fold runnable_def upd_thread_def)
qed

theorem wait_on_wake_up_witness:
  "\<exists>y q1 s1 q2 s2. wait_on \<lparr>wthreads = replicate 64 0, wcount = 0\<rparr> proc_example = (y, q1, s1) \<and>
     wake_up q1 s1 = (q2, s2) \<and> tstate (tstore s2 0x100) = THREAD_STATE_READY"
proof -
  let ?q = "\<lparr>wthreads = replicate 64 0, wcount = 0\<rparr>"
  have c: "current_thread proc_example = 0x100" by (simp add: proc_example_def)
  obtain y q1 s1 q2 s2 where "wait_on ?q proc_example = (y, q1, s1)" "wake_up q1 s1 = (q2, s2)"
    by (metis prod_cases3 surj_pair)
  then show ?thesis using wait_on_wake_up [of proc_example ?q y q1 s1 q2 s2] c by auto
qed

subsection \<open>Fairness\<close>

text \<open>
  The threads that become current in \<open>n\<close> timer interrupts; \<open>regs\<close> are the frames they arrive with.
\<close>

fun ticks :: "(nat \<Rightarrow> addr) \<Rightarrow> nat \<Rightarrow> proc_state \<Rightarrow> addr list option" where
  "ticks regs 0 s = Some []"
| "ticks regs (Suc n) s =
     (case scheduler_schedule (regs n) s of
        None \<Rightarrow> None
      | Some (_, s') \<Rightarrow> map_option (\<lambda>ts. current_thread s' # ts) (ticks regs n s'))"

definition can_tick :: "proc_state \<Rightarrow> addr list \<Rightarrow> nat \<Rightarrow> bool" where
  "can_tick s xs i \<longleftrightarrow> ready_ring s xs \<and> i < length xs \<and> current_thread s = xs ! i \<and> no_orphans s"

lemma tick_step:
  assumes "can_tick s xs i" "t \<in> set xs" "runnable s t"
  obtains r s' k where "scheduler_schedule regs s = Some (r, s')" "k < length xs"
    "current_thread s' = xs ! ((i + 1 + k) mod length xs)" "\<forall>j < k. \<not> runnable s (xs ! ((i + 1 + j) mod length xs))"
    "can_tick s' xs ((i + 1 + k) mod length xs)" "\<And>u. runnable s' u = runnable s u"
proof -
  note a = assms(1) [unfolded can_tick_def]
  obtain k where k: "k < length xs" "next_pick s xs = xs ! ((i + 1 + k) mod length xs)" "runnable s (next_pick s xs)"
    "\<forall>j < k. \<not> runnable s (xs ! ((i + 1 + j) mod length xs))"
    using next_pick_round_robin [of s xs i t] a assms(2,3) by blast
  have c: "cyc (tstore s) xs" using a by (simp add: ready_ring_def)
  have lt: "(i + 1 + k) mod length xs < length xs" using k(1) by (intro mod_less_divisor) linarith
  then have nz: "next_pick s xs \<noteq> 0" "current_thread s \<noteq> 0" using k(2) cyc_nonzero [OF c] a by auto
  have "tstate (tstore s (next_pick s xs)) \<noteq> THREAD_STATE_TERMINATED" using k(3) by (auto simp: runnable_def)
  then obtain r s' where s': "scheduler_schedule regs s = Some (r, s')"
    "current_thread s' = next_pick s xs" "ready_ring s' xs" "no_orphans s'"
    "\<And>t. tstate (tstore s' t) = (if t = next_pick s xs then THREAD_STATE_RUNNING else tstate (tstore s t))"
    using schedule_step [of s xs regs] nz a by blast
  have "runnable s' u = runnable s u" for u using s'(5) k(3) by (auto simp: runnable_def)
  moreover have "can_tick s' xs ((i + 1 + k) mod length xs)" using s' k(2) lt by (simp add: can_tick_def)
  ultimately show ?thesis using that s'(1,2) k by auto
qed

lemma ticks_return:
  "can_tick s xs i \<Longrightarrow> t \<in> set xs \<Longrightarrow> runnable s t \<Longrightarrow> \<exists>ts. ticks regs n s = Some ts \<and> length ts = n"
proof (induction n arbitrary: s i)
  case (Suc n)
  then obtain r s' k where s': "scheduler_schedule (regs n) s = Some (r, s')"
      "can_tick s' xs ((i + 1 + k) mod length xs)" "runnable s' t"
    using tick_step [OF Suc.prems(1-3), of "regs n"] by metis
  then show ?case using Suc.IH [OF s'(2) Suc.prems(2) s'(3)] by auto
qed simp

lemma ticks_reach:
  assumes "can_tick s xs i" "d < n" "d < length xs" "t = xs ! ((i + 1 + d) mod length xs)" "runnable s t"
  shows "\<exists>ts. ticks regs n s = Some ts \<and> t \<in> set ts"
  using assms(1-5)
proof (induction n arbitrary: s i d)
  case (Suc n)
  let ?L = "length xs"
  have lt: "(i + 1 + d) mod ?L < ?L" using Suc.prems(3) by (intro mod_less_divisor) linarith
  then have t: "t \<in> set xs" using Suc.prems(4) by simp
  obtain r s' k where s': "scheduler_schedule (regs n) s = Some (r, s')" "k < ?L"
      "current_thread s' = xs ! ((i + 1 + k) mod ?L)" "\<forall>j < k. \<not> runnable s (xs ! ((i + 1 + j) mod ?L))"
      "can_tick s' xs ((i + 1 + k) mod ?L)" "\<And>u. runnable s' u = runnable s u"
    using tick_step [OF Suc.prems(1) t Suc.prems(5), of "regs n"] by metis
  have "\<not> d < k" using s'(4) Suc.prems(4,5) by blast
  then consider "k = d" | "k < d" by linarith
  then show ?case
  proof cases
    case 1
    then show ?thesis
      using s' Suc.prems(4,5) ticks_return [OF s'(5) t, of regs n] by auto
  next
    case 2
    define e where "e = d - k - 1"
    have "((i + 1 + k) mod ?L + 1 + e) mod ?L = (i + 1 + k + 1 + e) mod ?L" by (metis add.assoc mod_add_left_eq)
    also have "i + 1 + k + 1 + e = i + 1 + d" using 2 by (simp add: e_def)
    finally have "t = xs ! (((i + 1 + k) mod ?L + 1 + e) mod ?L)" using Suc.prems(4) by simp
    moreover have "e < n" "e < ?L" using 2 Suc.prems(2,3) by (simp_all add: e_def)
    moreover have "runnable s' t" using s'(6) Suc.prems(5) by simp
    ultimately obtain ts where "ticks regs n s' = Some ts" "t \<in> set ts" using Suc.IH [OF s'(5)] by blast
    then show ?thesis using s'(1) by simp
  qed
qed simp

text \<open>
  C5. No starvation: as long as the threads of the ready queue stay as they are, and with no zombie
  process left without a living parent, every runnable thread of the ready queue becomes the current
  one within as many timer interrupts as the queue has threads, however long the queue is, whatever
  frames the interrupts arrive with and however many interrupts there were before.
\<close>

theorem scheduler_fair:
  assumes "ready_ring s xs" "current_thread s \<in> set xs" "no_orphans s" "\<exists>u \<in> set xs. runnable s u"
  shows "\<exists>ts. ticks regs (length xs) s = Some ts \<and> length ts = length xs \<and> (\<forall>t \<in> set xs. runnable s t \<longrightarrow> t \<in> set ts)"
proof -
  let ?L = "length xs"
  obtain i where i: "i < ?L" "current_thread s = xs ! i" using assms(2) by (metis in_set_conv_nth)
  have c: "can_tick s xs i" using assms i by (simp add: can_tick_def)
  obtain ts where ts: "ticks regs ?L s = Some ts" "length ts = ?L" using ticks_return [OF c] assms(4) by blast
  have "t \<in> set ts" if t: "t \<in> set xs" "runnable s t" for t
  proof -
    obtain m where m: "m < ?L" "t = xs ! m" using t(1) by (metis in_set_conv_nth)
    define d where "d = (m + ?L - (i + 1) mod ?L) mod ?L"
    have pos: "0 < ?L" using m by linarith
    then have d: "d < ?L" unfolding d_def by (rule mod_less_divisor)
    have "(i + 1) mod ?L < ?L" using pos by (rule mod_less_divisor)
    have "(i + 1 + d) mod ?L = ((i + 1) mod ?L + (m + ?L - (i + 1) mod ?L)) mod ?L" by (simp only: d_def mod_simps)
    also have "(i + 1) mod ?L + (m + ?L - (i + 1) mod ?L) = m + ?L" using \<open>(i + 1) mod ?L < ?L\<close> by simp
    finally have "t = xs ! ((i + 1 + d) mod ?L)" using m by simp
    then show ?thesis using ticks_reach [OF c d d _ t(2), of regs] ts(1) by auto
  qed
  then show ?thesis using ts by blast
qed

theorem scheduler_fair_witness:
  "\<exists>ts. ticks (\<lambda>_. 0x30) 2 proc_example = Some ts \<and> 0x200 \<in> set ts"
proof -
  have r: "runnable proc_example 0x200" "current_thread proc_example = 0x100"
    by (simp_all add: runnable_def proc_example_def zero_thread_def)
  have l: "length [0x100 :: addr, 0x200] = 2" by simp
  have "\<exists>ts. ticks (\<lambda>_. 0x30) (length [0x100 :: addr, 0x200]) proc_example = Some ts \<and> length ts = length [0x100 :: addr, 0x200] \<and>
      (\<forall>t \<in> set [0x100, 0x200]. runnable proc_example t \<longrightarrow> t \<in> set ts)"
    by (rule scheduler_fair [OF proc_example_ring]) (use r proc_example_sweep(2) in auto)
  then show ?thesis unfolding l using r(1) by auto
qed

end
