(* ===== verification/Khazar_Pe.thy ===== *)
theory Khazar_Pe
  imports Khazar_Vmm Khazar_Bytes
begin

text \<open>
  User memory and the program loader \<^verbatim>\<open>kernel/core/pe.c\<close>. A byte of user space is found by the
  walk of the processor through the current page directory; \<open>pbytes\<close> are the bytes of the frames
  that hold user data. An access below \<^verbatim>\<open>KERNEL_VIRT_BASE\<close> that finds no page is a page fault; the
  kernel half is not part of this memory. Both are the result \<open>None\<close>.
\<close>

subsection \<open>User memory\<close>

definition mmu :: "vmm_state \<Rightarrow> addr \<Rightarrow> addr option" where
  "mmu s v =
     (let d = kmem s (entry_addr (current_directory s) (pd_index v));
          t = kmem s (entry_addr (P2V (page_of d)) (pt_index v))
      in if v \<ge> KERNEL_VIRT_BASE \<or> d AND VMM_PRESENT = 0 \<or> t AND VMM_PRESENT = 0 then None
         else Some (page_of t OR (v AND 0xFFF)))"

fun poke :: "vmm_state \<Rightarrow> addr \<Rightarrow> u8 list \<Rightarrow> (addr \<Rightarrow> u8) \<Rightarrow> (addr \<Rightarrow> u8) option" where
  "poke s v [] m = Some m"
| "poke s v (b # bs) m = (case mmu s v of None \<Rightarrow> None | Some p \<Rightarrow> poke s (v + 1) bs (m(p := b)))"

fun peek :: "vmm_state \<Rightarrow> (addr \<Rightarrow> u8) \<Rightarrow> addr \<Rightarrow> nat \<Rightarrow> u8 list option" where
  "peek s m v 0 = Some []"
| "peek s m v (Suc n) =
     (case mmu s v of None \<Rightarrow> None | Some p \<Rightarrow> map_option (\<lambda>bs. m p # bs) (peek s m (v + 1) n))"

subsection \<open>The file format\<close>

text \<open>The fields the loader uses of \<^verbatim>\<open>struct pe_section_header\<close>.\<close>

record pe_section =
  virtual_size :: u32
  virtual_address :: u32
  raw_data_size :: u32
  raw_data_pointer :: u32

definition SIZEOF_DOS_HEADER :: u32 where "SIZEOF_DOS_HEADER = 64"
definition SIZEOF_PE_HEADER :: u32 where "SIZEOF_PE_HEADER = 24"
definition SIZEOF_SECTION_HEADER :: u32 where "SIZEOF_SECTION_HEADER = 40"

definition read_section :: "u8 list \<Rightarrow> nat \<Rightarrow> pe_section" where
  "read_section f p = \<lparr>virtual_size = le32 f (p + 8), virtual_address = le32 f (p + 12),
     raw_data_size = le32 f (p + 16), raw_data_pointer = le32 f (p + 20)\<rparr>"

text \<open>
  The checks of the headers, with the sums in 32 bits as in the code. \<open>None\<close> is a read outside
  the file, \<open>Some None\<close> a file that is rejected; otherwise entry point, image base and sections.
\<close>

definition pe_headers :: "u8 list \<Rightarrow> (u32 \<times> u32 \<times> pe_section list) option option" where
  "pe_headers f =
     (let file_size = of_nat (length f);
          lfanew = le32 f 60;
          p = unat lfanew;
          opt = lfanew + SIZEOF_PE_HEADER;
          optional_header_size = ucast (le16 f (p + 20));
          section_count = le16 f (p + 6);
          secs = opt + optional_header_size
      in if file_size < SIZEOF_DOS_HEADER then Some None
         else if le16 f 0 \<noteq> 0x5A4D then Some None
         else if opt > file_size then Some None
         else if length f < p + 24 then None
         else if le32 f p \<noteq> 0x00004550 then Some None
         else if secs > file_size then Some None
         else if length f < unat opt + 32 then None
         else if secs + ucast section_count * SIZEOF_SECTION_HEADER > file_size then Some None
         else if length f < unat secs + 40 * unat section_count then None
         else Some (Some (le32 f (unat opt + 16), le32 f (unat opt + 28),
                map (\<lambda>i. read_section f (unat secs + 40 * i)) [0..<unat section_count])))"

subsection \<open>Loading\<close>

record img_state =
  vms :: vmm_state
  pbytes :: "addr \<Rightarrow> u8"

definition USER_PAGE :: u32 where "USER_PAGE = VMM_PRESENT OR VMM_WRITABLE OR VMM_USER"

definition use_directory :: "addr \<Rightarrow> img_state \<Rightarrow> img_state" where
  "use_directory dir s = s\<lparr>vms := vmm_switch_directory (V2P dir) (vms s)\<rparr>"

text \<open>One page: neither the allocation nor the mapping is checked.\<close>

definition load_page :: "addr \<Rightarrow> img_state \<Rightarrow> img_state option" where
  "load_page v s =
     (case pmm_alloc_block (pmm (vms s)) of (phys, pmm') \<Rightarrow>
        (case vmm_map_page phys v USER_PAGE ((vms s)\<lparr>pmm := pmm'\<rparr>) of (_, vm') \<Rightarrow>
           map_option (\<lambda>m. \<lparr>vms = vm', pbytes = m\<rparr>) (poke vm' v (replicate 4096 0) (pbytes s))))"

fun load_pages :: "nat \<Rightarrow> addr \<Rightarrow> img_state \<Rightarrow> img_state option" where
  "load_pages 0 v s = Some s"
| "load_pages (Suc n) v s = (case load_page v s of None \<Rightarrow> None | Some s' \<Rightarrow> load_pages n (v + 4096) s')"

definition section_pages :: "pe_section \<Rightarrow> nat" where
  "section_pages sec = unat ((virtual_size sec + 4095) div 4096)"

definition load_section :: "u8 list \<Rightarrow> u32 \<Rightarrow> addr \<Rightarrow> pe_section \<Rightarrow> img_state \<Rightarrow> (bool \<times> img_state) option" where
  "load_section f image_base target sec s =
     (let virt_addr = virtual_address sec + image_base;
          prev = vmm_get_kernel_directory (vms s);
          raw_ptr = raw_data_pointer sec;
          raw_size = raw_data_size sec
      in case load_pages (section_pages sec) virt_addr (use_directory target s) of
           None \<Rightarrow> None
         | Some s1 \<Rightarrow>
             let s2 = use_directory prev s1
             in if raw_ptr + raw_size > of_nat (length f) then Some (False, s2)
                else if raw_size = 0 then Some (True, s2)
                else if length f < unat raw_ptr + unat raw_size then None
                else let s3 = use_directory target s2
                     in map_option (\<lambda>m. (True, use_directory prev (s3\<lparr>pbytes := m\<rparr>)))
                          (poke (vms s3) virt_addr (slice (unat raw_ptr) (unat raw_size) f) (pbytes s3)))"

fun load_sections :: "u8 list \<Rightarrow> u32 \<Rightarrow> addr \<Rightarrow> pe_section list \<Rightarrow> img_state \<Rightarrow> (bool \<times> img_state) option" where
  "load_sections f image_base target [] s = Some (True, s)"
| "load_sections f image_base target (sec # secs) s =
     (case load_section f image_base target sec s of
        None \<Rightarrow> None
      | Some (False, s') \<Rightarrow> Some (False, s')
      | Some (True, s') \<Rightarrow> load_sections f image_base target secs s')"

definition USER_STACK_BASE :: addr where "USER_STACK_BASE = 0xB0000000"

text \<open>The result is the entry point and the top of the stack, or \<open>None\<close> for \<^verbatim>\<open>false\<close>.\<close>

definition pe_load :: "u8 list \<Rightarrow> addr \<Rightarrow> img_state \<Rightarrow> ((u32 \<times> u32) option \<times> img_state) option" where
  "pe_load f target s =
     (if of_nat (length f) < SIZEOF_DOS_HEADER \<or> target = 0 then Some (None, s)
      else case pe_headers f of
             None \<Rightarrow> None
           | Some None \<Rightarrow> Some (None, s)
           | Some (Some (entry_point, image_base, secs)) \<Rightarrow>
               (case load_sections f image_base target secs s of
                  None \<Rightarrow> None
                | Some (False, s1) \<Rightarrow> Some (None, s1)
                | Some (True, s1) \<Rightarrow>
                    (case load_pages 4 USER_STACK_BASE (use_directory target s1) of
                       None \<Rightarrow> None
                     | Some s2 \<Rightarrow>
                         Some (Some (entry_point + image_base, USER_STACK_BASE + 4 * 4096),
                               use_directory (vmm_get_kernel_directory (vms s1)) s2))))"

subsection \<open>Translations\<close>

lemma mmu_alt:
  "mmu s v = (if v < KERNEL_VIRT_BASE \<and> pde_present s (pd_index v) \<and> pte s (pd_index v) (pt_index v) AND VMM_PRESENT \<noteq> 0
     then Some (page_of (pte s (pd_index v) (pt_index v)) OR (v AND 0xFFF)) else None)"
  by (auto simp: mmu_def Let_def pde_present_def pde_def pte_def not_le)

lemma set_pte_mmu:
  assumes "vmm_inv s" "pde_present s (pd_index virt)"
  shows "mmu (set_pte virt e s) v =
    (if page_of v = page_of virt
     then (if v < KERNEL_VIRT_BASE \<and> e AND VMM_PRESENT \<noteq> 0 then Some (page_of e OR (v AND 0xFFF)) else None)
     else mmu s v)" (is "mmu ?s v = _")
proof -
  have "pde_present ?s (pd_index v) = pde_present s (pd_index v)"
    using set_pte_pde [OF assms(1) unat_pd_index assms(2) unat_pd_index unat_pt_index]
    by (simp add: pde_present_def)
  then show ?thesis
    using set_pte_pte [OF assms(1) unat_pd_index assms(2) unat_pt_index unat_pd_index _ unat_pt_index] assms(2)
    by (auto simp: mmu_alt same_page_iff)
qed

lemma new_table_mmu: "fresh_table s i p pmm' flags \<Longrightarrow> mmu (new_table i p flags pmm' s) v = mmu s v"
  using fresh_tableD(3) [of s i p pmm' flags]
  by (auto simp: mmu_alt new_table_present new_table_pte unat_pd_index unat_pt_index)

subsection \<open>Free blocks\<close>

definition pmm_avail :: "pmm_state \<Rightarrow> nat" where
  "pmm_avail s = card {k. k < 32 * (unat (pmm_max_blocks s) div 32) \<and> \<not> block_used s k}"

lemma pmm_alloc_avail:
  assumes "pmm_inv s" "0 < pmm_avail s" "pmm_alloc_block s = (a, s')"
  shows "a \<noteq> 0" "pmm_avail s = Suc (pmm_avail s')"
proof -
  let ?n = "32 * (unat (pmm_max_blocks s) div 32)"
  have "a \<noteq> 0 \<and> pmm_avail s = Suc (pmm_avail s')" using assms(1)
  proof (cases rule: pmm_alloc_block_cases)
    case full
    then have "{k. k < ?n \<and> \<not> block_used s k} = {}" by auto
    then have "pmm_avail s = 0" unfolding pmm_avail_def by (simp only: card.empty)
    then show ?thesis using assms(2) by simp
  next
    case (ok k)
    have "a \<noteq> 0" using ok block_addr_inj [of k 0] assms(3) by (auto simp del: of_nat_mult)
    moreover have uk: "unat (of_nat k :: u32) = k" using ok(3) by (simp add: unat_of_nat_less)
    have "{j. j < ?n \<and> \<not> block_used s j} = insert k {j. j < ?n \<and> \<not> block_used s' j}"
      using ok assms(3) uk by auto
    moreover have "k \<notin> {j. j < ?n \<and> \<not> block_used s' j}" using ok assms(3) uk by auto
    moreover have "pmm_max_blocks s' = pmm_max_blocks s" using ok assms(3) by auto
    ultimately show ?thesis by (simp add: pmm_avail_def)
  qed
  then show "a \<noteq> 0" "pmm_avail s = Suc (pmm_avail s')" by auto
qed

subsection \<open>The address space as the program sees it\<close>

definition view :: "vmm_state \<Rightarrow> (addr \<Rightarrow> u8) \<Rightarrow> addr \<Rightarrow> u8 option" where
  "view s m v = map_option m (mmu s v)"

definition put_view :: "addr \<Rightarrow> u8 list \<Rightarrow> (addr \<Rightarrow> u8 option) \<Rightarrow> addr \<Rightarrow> u8 option" where
  "put_view v bs img a = (if unat (a - v) < length bs then Some (bs ! unat (a - v)) else img a)"

definition mmu_inj :: "vmm_state \<Rightarrow> bool" where
  "mmu_inj s \<longleftrightarrow> (\<forall>a b p. mmu s a = Some p \<and> mmu s b = Some p \<longrightarrow> a = b)"

lemma put_view_step:
  assumes "Suc (length bs) < 2 ^ 32"
  shows "put_view (v + 1) bs (img(v := Some b)) = put_view v (b # bs) img"
proof
  fix a
  show "put_view (v + 1) bs (img(v := Some b)) a = put_view v (b # bs) img a"
  proof (cases "a = v")
    case True
    moreover have "unat (- 1 :: u32) = 2 ^ 32 - 1" by (simp add: unsigned_minus_1_eq_mask mask_eq_exp_minus_1)
    ultimately show ?thesis using assms by (simp add: put_view_def)
  next
    case False
    define x where "x = a - v"
    have "x \<noteq> 0" using False by (simp add: x_def)
    then have "unat (x - 1) = unat x - 1" "unat x \<noteq> 0" by (simp_all add: unat_minus_one unat_eq_zero)
    then have "unat (a - v) = Suc (unat (a - v - 1))" by (simp add: x_def)
    moreover have e: "a - (v + 1) = a - v - 1" by simp
    ultimately show ?thesis using False unfolding put_view_def e by simp
  qed
qed

lemma poke_view:
  assumes "mmu_inj s" "length bs < 2 ^ 32 - 1" "\<And>i. i < length bs \<Longrightarrow> mmu s (v + of_nat i) \<noteq> None"
  shows "\<exists>m'. poke s v bs m = Some m' \<and> view s m' = put_view v bs (view s m)"
  using assms(2,3)
proof (induction bs arbitrary: v m)
  case Nil
  have "put_view v [] img = img" for img by (simp add: put_view_def fun_eq_iff)
  then show ?case by simp
next
  case (Cons b bs)
  obtain p where p: "mmu s v = Some p" using Cons.prems(2) [of 0] by auto
  have "mmu s (v + 1 + of_nat i) \<noteq> None" if "i < length bs" for i
    using Cons.prems(2) [of "Suc i"] that by (simp add: add.assoc)
  moreover have "length bs < 2 ^ 32 - 1" using Cons.prems(1) by simp
  ultimately obtain m' where m': "poke s (v + 1) bs (m(p := b)) = Some m'"
      "view s m' = put_view (v + 1) bs (view s (m(p := b)))"
    using Cons.IH [of "v + 1" "m(p := b)"] by blast
  have "view s (m(p := b)) = (view s m)(v := Some b)"
  proof
    fix a
    show "view s (m(p := b)) a = ((view s m)(v := Some b)) a"
      using p assms(1) unfolding mmu_inj_def view_def by (cases "mmu s a") auto
  qed
  then show ?case using p m' put_view_step [of bs] Cons.prems(1) by simp
qed

subsection \<open>Loading a page\<close>

text \<open>
  The frames behind user pages are in use and each belongs to one page.
\<close>

definition img_ok :: "vmm_state \<Rightarrow> bool" where
  "img_ok s \<longleftrightarrow> vmm_inv s \<and> (\<forall>a p. mmu s a = Some p \<longrightarrow> page_of p \<in> pmm_frames (pmm s)) \<and>
     (\<forall>a b p q. mmu s a = Some p \<and> mmu s b = Some q \<and> page_of p = page_of q \<longrightarrow> page_of a = page_of b)"

lemma page_of_or_low [simp]: "page_of (page_of t OR (v AND 0xFFF)) = page_of t"
  by (auto simp: page_of_def bit_eq_iff bit_simps)

lemma low_of_or_low [simp]: "(page_of t OR (v AND 0xFFF)) AND 0xFFF = v AND 0xFFF"
  by (auto simp: page_of_def bit_eq_iff bit_simps)

lemma page_low_split: "a = page_of a OR (a AND 0xFFF)"
  by (auto simp: page_of_def bit_eq_iff bit_simps)

lemma page_low_eqI: "page_of a = page_of b \<Longrightarrow> a AND 0xFFF = b AND 0xFFF \<Longrightarrow> a = b"
  using page_low_split by metis

lemma mmu_low: "mmu s a = Some p \<Longrightarrow> p AND 0xFFF = a AND 0xFFF"
  by (auto simp: mmu_alt split: if_splits)

lemma img_ok_inj: "img_ok s \<Longrightarrow> mmu_inj s"
  unfolding img_ok_def mmu_inj_def using mmu_low page_low_eqI by metis

lemma in_same_page: "v AND 0xFFF = 0 \<Longrightarrow> page_of a = v \<longleftrightarrow> unat (a - v) < 4096"
proof -
  assume v: "v AND 0xFFF = 0"
  have "page_of a AND (a AND 0xFFF) = 0" by (simp add: page_of_def bit_eq_iff bit_simps)
  then have "a = page_of a + (a AND 0xFFF)" using page_low_split by (simp add: disjunctive_add_eq_or)
  moreover have "unat (a AND 0xFFF) < 4096" by (simp add: unat_and_FFF)
  ultimately show ?thesis using in_page_iff [OF v page_of_aligned, of "a AND 0xFFF" a] by (simp add: word_less_nat_alt)
qed

lemma img_ok_pmm:
  assumes "img_ok s" "pmm_inv pmm'" "pmm_frames (pmm s) \<subseteq> pmm_frames pmm'"
  shows "img_ok (s\<lparr>pmm := pmm'\<rparr>)"
proof -
  have p: "pde (s\<lparr>pmm := pmm'\<rparr>) = pde s" "pde_present (s\<lparr>pmm := pmm'\<rparr>) = pde_present s"
    by (simp_all add: pde_def pde_present_def fun_eq_iff)
  have f: "pmm (s\<lparr>pmm := pmm'\<rparr>) = pmm'" "current_directory (s\<lparr>pmm := pmm'\<rparr>) = current_directory s" by simp_all
  have m: "mmu (s\<lparr>pmm := pmm'\<rparr>) = mmu s" by (simp add: mmu_def fun_eq_iff)
  have "vmm_inv (s\<lparr>pmm := pmm'\<rparr>)"
    using assms unfolding vmm_inv_def img_ok_def p f by blast
  then show ?thesis using assms unfolding img_ok_def m f by blast
qed

text \<open>Mapping a frame nobody uses keeps the property and adds the page.\<close>

lemma map_fresh:
  assumes ok: "img_ok s" and phys: "phys \<in> pmm_frames (pmm s)" "phys AND 0xFFF = 0"
    and new: "\<And>a p. mmu s a = Some p \<Longrightarrow> page_of p \<noteq> phys" and avail: "0 < pmm_avail (pmm s)"
  obtains s' where "vmm_map_page phys v USER_PAGE s = (True, s')" "img_ok s'"
    "\<And>a. mmu s' a = (if page_of a = page_of v then if a < KERNEL_VIRT_BASE then Some (phys OR (a AND 0xFFF)) else None else mmu s a)"
    "pmm_avail (pmm s) \<le> Suc (pmm_avail (pmm s'))" "kernel_directory s' = kernel_directory s"
    "current_directory s' = current_directory s"
proof -
  have inv: "vmm_inv s" using ok by (simp add: img_ok_def)
  have fl: "page_of USER_PAGE = 0" by (simp add: USER_PAGE_def page_of_def VMM_PRESENT_def VMM_WRITABLE_def VMM_USER_def)
  let ?e = "phys OR USER_PAGE OR VMM_PRESENT"
  have "\<exists>s'. vmm_map_page phys v USER_PAGE s = (True, s') \<and> vmm_inv s' \<and>
      (\<forall>a. mmu s' a = (if page_of a = page_of v then if a < KERNEL_VIRT_BASE then Some (phys OR (a AND 0xFFF)) else None else mmu s a)) \<and>
      pmm_frames (pmm s) \<subseteq> pmm_frames (pmm s') \<and> pmm_avail (pmm s) \<le> Suc (pmm_avail (pmm s')) \<and>
      kernel_directory s' = kernel_directory s \<and> current_directory s' = current_directory s"
    using inv fl
  proof (cases rule: vmm_map_page_cases [where phys = phys and virt = v])
    case present
    then show ?thesis
      using set_pte_inv [OF inv unat_pd_index present(1) unat_pt_index, of _ ?e] set_pte_mmu [OF inv present(1)] phys fl
      by (auto simp: aligned_page_of)
  next
    case full
    then show ?thesis using pmm_alloc_avail(1) [OF vmm_invD(1) [OF inv] avail] by auto
  next
    case (new p pmm')
    let ?n = "new_table (pd_index v) p USER_PAGE pmm' s"
    have n: "vmm_inv ?n" "pde_present ?n (pd_index v)"
      using new_table_inv [OF new(1)] new_table_present [OF new(1) unat_pd_index] by auto
    have "pmm_alloc_block (pmm s) = (p, pmm')" using new(1) by (simp add: fresh_table_def)
    then have "pmm_avail (pmm s) = Suc (pmm_avail pmm')" using pmm_alloc_avail(2) vmm_invD(1) [OF inv] avail by blast
    then show ?thesis
      using new(2) set_pte_inv [OF n(1) unat_pd_index n(2) unat_pt_index, of _ ?e] set_pte_mmu [OF n]
        new_table_mmu [OF new(1)] phys fl fresh_tableD(6) [OF new(1)] by (auto simp: aligned_page_of)
  qed
  then obtain s' where s': "vmm_map_page phys v USER_PAGE s = (True, s')" "vmm_inv s'"
      "\<And>a. mmu s' a = (if page_of a = page_of v then if a < KERNEL_VIRT_BASE then Some (phys OR (a AND 0xFFF)) else None else mmu s a)"
      "pmm_frames (pmm s) \<subseteq> pmm_frames (pmm s')" "pmm_avail (pmm s) \<le> Suc (pmm_avail (pmm s'))"
      "kernel_directory s' = kernel_directory s" "current_directory s' = current_directory s"
    by blast
  have pp: "page_of (phys OR (a AND 0xFFF)) = phys" for a
    using page_of_or_low [of phys a] phys(2) by (simp add: aligned_page_of)
  have *: "page_of p = phys \<and> page_of a = page_of v \<or> page_of p \<noteq> phys \<and> mmu s a = Some p" if "mmu s' a = Some p" for a p
    using that new pp by (auto simp: s'(3) split: if_splits)
  have "img_ok s'" unfolding img_ok_def
  proof (intro conjI allI impI)
    fix a p assume "mmu s' a = Some p"
    then show "page_of p \<in> pmm_frames (pmm s')" using * s'(4) phys(1) ok unfolding img_ok_def by blast
  next
    fix a b p q assume "mmu s' a = Some p \<and> mmu s' b = Some q \<and> page_of p = page_of q"
    then show "page_of a = page_of b" using * [of a p] * [of b q] ok unfolding img_ok_def by metis
  qed (rule s'(2))
  then show ?thesis using that s' by blast
qed

text \<open>One page of a section: it appears, zeroed, and nothing else changes.\<close>

definition img_rel :: "img_state \<Rightarrow> img_state \<Rightarrow> nat \<Rightarrow> bool" where
  "img_rel s s' n \<longleftrightarrow> img_ok (vms s') \<and> pmm_avail (pmm (vms s)) \<le> n + pmm_avail (pmm (vms s')) \<and>
     kernel_directory (vms s') = kernel_directory (vms s) \<and> current_directory (vms s') = current_directory (vms s)"

definition img_view :: "img_state \<Rightarrow> addr \<Rightarrow> u8 option" where "img_view s = view (vms s) (pbytes s)"

lemma page_user:
  assumes "v AND 0xFFF = 0" "v < KERNEL_VIRT_BASE" "page_of a = v"
  shows "a < KERNEL_VIRT_BASE"
proof -
  have "unat a div 4096 = unat v div 4096" using assms page_of_eq_iff [of a v] by (simp add: aligned_page_of)
  moreover have "unat v < 0xC0000000" using assms(2) by (simp add: KERNEL_VIRT_BASE_def word_less_nat_alt)
  moreover have "n div 4096 < 786432 \<longleftrightarrow> n < 0xC0000000" for n :: nat by (simp add: div_less_iff_less_mult)
  ultimately have "unat a < 0xC0000000" by metis
  then show ?thesis by (simp add: KERNEL_VIRT_BASE_def word_less_nat_alt)
qed

lemma load_page_view:
  assumes ok: "img_ok (vms s)" and v: "v AND 0xFFF = 0" "v < KERNEL_VIRT_BASE" and avail: "2 \<le> pmm_avail (pmm (vms s))"
  obtains s' where "load_page v s = Some s'" "img_rel s s' 2" "img_view s' = put_view v (replicate 4096 0) (img_view s)"
proof -
  obtain p pmm' where al: "pmm_alloc_block (pmm (vms s)) = (p, pmm')" by fastforce
  have inv: "pmm_inv (pmm (vms s))" using ok vmm_invD(1) by (simp add: img_ok_def)
  have p: "p \<noteq> 0" "pmm_avail (pmm (vms s)) = Suc (pmm_avail pmm')"
    using pmm_alloc_avail [OF inv _ al] avail by auto
  have f: "p \<notin> pmm_frames (pmm (vms s))" "pmm_frames pmm' = insert p (pmm_frames (pmm (vms s)))" "p AND 0xFFF = 0" "pmm_inv pmm'"
    using pmm.alloc_fresh pmm.alloc_frames pmm.alloc_aligned pmm.alloc_inv inv al p(1) by blast+
  let ?s = "(vms s)\<lparr>pmm := pmm'\<rparr>"
  have m: "mmu ?s = mmu (vms s)" by (simp add: mmu_def fun_eq_iff)
  have "img_ok ?s" using img_ok_pmm [OF ok f(4)] f(2) by auto
  moreover have "page_of q \<noteq> p" if "mmu ?s a = Some q" for a q
    using that ok f(1) unfolding m img_ok_def by blast
  ultimately obtain s' where s': "vmm_map_page p v USER_PAGE ?s = (True, s')" "img_ok s'"
      "\<And>a. mmu s' a = (if page_of a = page_of v then if a < KERNEL_VIRT_BASE then Some (p OR (a AND 0xFFF)) else None else mmu ?s a)"
      "pmm_avail pmm' \<le> Suc (pmm_avail (pmm s'))" "kernel_directory s' = kernel_directory ?s" "current_directory s' = current_directory ?s"
    using map_fresh [of ?s p v] f(2,3) p(2) avail by auto
  have pv: "page_of v = v" using v(1) by (rule aligned_page_of)
  have in_v: "mmu s' a = Some (p OR (a AND 0xFFF))" if "page_of a = v" for a
    using that page_user [OF v that] by (simp add: s'(3) pv)
  have "mmu s' (v + of_nat i) \<noteq> None" if "i < 4096" for i
    using that in_v [of "v + of_nat i"] in_same_page [OF v(1), of "v + of_nat i"] by (simp add: unat_of_nat)
  then obtain b where b: "poke s' v (replicate 4096 0) (pbytes s) = Some b"
      "view s' b = put_view v (replicate 4096 0) (view s' (pbytes s))"
    using poke_view [OF img_ok_inj [OF s'(2)], of "replicate 4096 0" v "pbytes s"] by auto
  have "put_view v (replicate 4096 0) (view s' (pbytes s)) a = put_view v (replicate 4096 0) (view (vms s) (pbytes s)) a" for a
  proof (cases "page_of a = v")
    case True
    then show ?thesis using in_same_page [OF v(1)] by (simp add: put_view_def)
  next
    case False
    then show ?thesis using in_same_page [OF v(1), of a] by (simp add: put_view_def view_def s'(3) pv m)
  qed
  moreover have "load_page v s = Some \<lparr>vms = s', pbytes = b\<rparr>" using al s'(1) b(1) by (simp add: load_page_def)
  moreover have "img_rel s \<lparr>vms = s', pbytes = b\<rparr> 2" using s' p(2) by (simp add: img_rel_def)
  ultimately show ?thesis using that b(2) by (simp add: img_view_def fun_eq_iff)
qed

subsection \<open>Loading sections\<close>

lemma put_view_append:
  assumes "length xs + length ys < 2 ^ 32"
  shows "put_view (v + of_nat (length xs)) ys (put_view v xs img) = put_view v (xs @ ys) img"
proof
  fix a
  define d where "d = a - v"
  have e: "a - (v + of_nat (length xs)) = d - of_nat (length xs)" by (simp add: d_def)
  have n: "unat (of_nat (length xs) :: u32) = length xs" using assms by (simp add: unat_of_nat)
  show "put_view (v + of_nat (length xs)) ys (put_view v xs img) a = put_view v (xs @ ys) img a"
  proof (cases "length xs \<le> unat d")
    case True
    then have "unat (d - of_nat (length xs)) = unat d - length xs" by (simp add: unat_sub_if' n)
    then show ?thesis using True unfolding put_view_def e d_def [symmetric] by (auto simp: nth_append)
  next
    case False
    then have "unat (d - of_nat (length xs)) = unat d + 2 ^ 32 - length xs" by (simp add: unat_sub_if' n)
    then have "\<not> unat (d - of_nat (length xs)) < length ys" using assms by simp
    then show ?thesis using False unfolding put_view_def e d_def [symmetric] by (auto simp: nth_append)
  qed
qed

lemma img_rel_trans: "img_rel s t m \<Longrightarrow> img_rel t u n \<Longrightarrow> img_rel s u (m + n)"
  by (simp add: img_rel_def)

lemma load_pages_view:
  assumes "img_ok (vms s)" "v AND 0xFFF = 0" "unat v + 4096 * n \<le> 0xC0000000" "2 * n \<le> pmm_avail (pmm (vms s))"
  shows "\<exists>s'. load_pages n v s = Some s' \<and> img_rel s s' (2 * n) \<and>
    img_view s' = put_view v (replicate (4096 * n) 0) (img_view s)"
  using assms
proof (induction n arbitrary: v s)
  case 0
  then show ?case by (auto simp: img_rel_def put_view_def)
next
  case (Suc n)
  have "v < KERNEL_VIRT_BASE" using Suc.prems(3) by (simp add: KERNEL_VIRT_BASE_def word_less_nat_alt)
  then obtain s1 where s1: "load_page v s = Some s1" "img_rel s s1 2" "img_view s1 = put_view v (replicate 4096 0) (img_view s)"
    using load_page_view [OF Suc.prems(1,2)] Suc.prems(4) by auto
  have u: "unat (v + 4096) = unat v + 4096" using Suc.prems(3) by (simp add: unat_word_ariths)
  then have al: "(v + 4096) AND 0xFFF = 0" using Suc.prems(2) by (simp add: page_aligned_iff)
  have "\<exists>s'. load_pages n (v + 4096) s1 = Some s' \<and> img_rel s1 s' (2 * n) \<and>
      img_view s' = put_view (v + 4096) (replicate (4096 * n) 0) (img_view s1)"
    using Suc.IH [of s1 "v + 4096"] s1(2) Suc.prems(3,4) al u by (simp add: img_rel_def)
  then obtain s2 where s2: "load_pages n (v + 4096) s1 = Some s2" "img_rel s1 s2 (2 * n)"
      "img_view s2 = put_view (v + 4096) (replicate (4096 * n) 0) (img_view s1)" by blast
  have "put_view (v + 4096) (replicate (4096 * n) 0) (put_view v (replicate 4096 0) (img_view s)) =
      put_view v (replicate (4096 * Suc n) 0) (img_view s)"
    using put_view_append [of "replicate 4096 0" "replicate (4096 * n) 0" v "img_view s"] Suc.prems(3)
    by (simp add: replicate_add)
  then show ?case using s1 s2 img_rel_trans [OF s1(2) s2(2)] by simp
qed

lemma use_directory_simps [simp]:
  "use_directory a (use_directory b s) = use_directory a s"
  "kernel_directory (vms (use_directory a s)) = kernel_directory (vms s)"
  "current_directory (vms (use_directory a s)) = a"
  "pmm (vms (use_directory a s)) = pmm (vms s)"
  "pbytes (use_directory a s) = pbytes s"
  by (simp_all add: use_directory_def vmm_switch_directory_def)

lemma use_current:
  assumes "current_directory (vms s) = a"
  shows "img_ok (vms (use_directory a s)) = img_ok (vms s)" "img_view (use_directory a s) = img_view s"
proof -
  have m: "mmu (vms (use_directory a s)) = mmu (vms s)"
    using assms by (simp add: mmu_def use_directory_def vmm_switch_directory_def fun_eq_iff)
  have "vmm_inv (vms (use_directory a s)) = vmm_inv (vms s)"
    by (rule vmm_inv_cong) (use assms in \<open>simp_all add: use_directory_def vmm_switch_directory_def pde_def\<close>)
  then show "img_ok (vms (use_directory a s)) = img_ok (vms s)" by (simp add: img_ok_def m)
  show "img_view (use_directory a s) = img_view s" by (simp add: img_view_def view_def m fun_eq_iff)
qed

definition section_ok :: "u8 list \<Rightarrow> u32 \<Rightarrow> pe_section \<Rightarrow> bool" where
  "section_ok f base sec \<longleftrightarrow>
     (virtual_address sec + base) AND 0xFFF = 0 \<and>
     unat (virtual_address sec + base) + 4096 * section_pages sec \<le> 0xC0000000 \<and>
     unat (raw_data_pointer sec) + unat (raw_data_size sec) \<le> length f \<and>
     unat (raw_data_size sec) \<le> 4096 * section_pages sec"

definition section_view :: "u8 list \<Rightarrow> u32 \<Rightarrow> pe_section \<Rightarrow> (addr \<Rightarrow> u8 option) \<Rightarrow> addr \<Rightarrow> u8 option" where
  "section_view f base sec img =
     put_view (virtual_address sec + base) (slice (unat (raw_data_pointer sec)) (unat (raw_data_size sec)) f)
       (put_view (virtual_address sec + base) (replicate (4096 * section_pages sec) 0) img)"

lemma put_view_Nil [simp]: "put_view v [] img = img"
  by (simp add: put_view_def fun_eq_iff)

text \<open>The states before and after, with the program's directory in use.\<close>

definition loads :: "addr \<Rightarrow> img_state \<Rightarrow> img_state \<Rightarrow> nat \<Rightarrow> bool" where
  "loads target s s' n \<longleftrightarrow> img_ok (vms (use_directory target s')) \<and>
     pmm_avail (pmm (vms s)) \<le> n + pmm_avail (pmm (vms s')) \<and> kernel_directory (vms s') = kernel_directory (vms s)"

lemma load_section_view:
  assumes ok: "img_ok (vms (use_directory target s))" and sec: "section_ok f base sec" and len: "length f < 2 ^ 32"
    and avail: "2 * section_pages sec \<le> pmm_avail (pmm (vms s))"
  shows "\<exists>s'. load_section f base target sec s = Some (True, s') \<and> loads target s s' (2 * section_pages sec) \<and>
    img_view (use_directory target s') = section_view f base sec (img_view (use_directory target s))"
proof -
  define va where "va = virtual_address sec + base"
  define rp where "rp = raw_data_pointer sec"
  define rs where "rs = raw_data_size sec"
  define n where "n = section_pages sec"
  define raw where "raw = slice (unat rp) (unat rs) f"
  note S = sec [unfolded section_ok_def, folded va_def rp_def rs_def n_def]
  obtain s1 where s1: "load_pages n va (use_directory target s) = Some s1"
      "img_rel (use_directory target s) s1 (2 * n)"
      "img_view s1 = put_view va (replicate (4096 * n) 0) (img_view (use_directory target s))"
    using load_pages_view [OF ok, of va n] S avail by (auto simp: n_def)
  have cur: "current_directory (vms s1) = target" using s1(2) by (simp add: img_rel_def)
  define s3 where "s3 = use_directory target s1"
  have s3: "img_ok (vms s3)" "img_view s3 = img_view s1" using use_current [OF cur] s1(2) by (simp_all add: s3_def img_rel_def)
  have rel: "loads target s (use_directory p s1\<lparr>pbytes := b\<rparr>) (2 * n)" for p b
  proof -
    have "vms (use_directory target (use_directory p s1\<lparr>pbytes := b\<rparr>)) = vms s3"
      by (simp add: s3_def use_directory_def vmm_switch_directory_def)
    moreover have "vms (use_directory p s1\<lparr>pbytes := b\<rparr>) = vms (use_directory p s1)" by simp
    ultimately show ?thesis using s3(1) s1(2) unfolding loads_def img_rel_def by (simp only: use_directory_simps)
  qed
  have "unat (rp + rs) = unat rp + unat rs" using S len by (simp add: unat_word_ariths)
  then have nw: "\<not> rp + rs > of_nat (length f)" using S len by (simp add: word_less_nat_alt unat_of_nat)
  have lr: "length raw = unat rs" using S by (auto simp: raw_def length_slice)
  have "mmu (vms s3) (va + of_nat i) \<noteq> None" if "i < length raw" for i
  proof -
    have "unat (of_nat i :: u32) = i" using that lr unat_u32_bound [of rs] by (simp add: unat_of_nat)
    then have "img_view s3 (va + of_nat i) \<noteq> None" using that lr S by (simp add: s3(2) s1(3) put_view_def)
    then show ?thesis by (auto simp: img_view_def view_def)
  qed
  moreover have "length raw < 2 ^ 32 - 1" using lr S by simp
  ultimately obtain b where b: "poke (vms s3) va raw (pbytes s3) = Some b"
      "view (vms s3) b = put_view va raw (view (vms s3) (pbytes s3))"
    using poke_view [OF img_ok_inj [OF s3(1)]] by blast
  let ?prev = "kernel_directory (vms s)"
  have eq: "load_section f base target sec s =
      (if rs = 0 then Some (True, use_directory ?prev s1) else Some (True, use_directory ?prev (s3\<lparr>pbytes := b\<rparr>)))"
    using s1(1) nw b(1) S unfolding load_section_def Let_def va_def [symmetric] rp_def [symmetric] rs_def [symmetric] n_def [symmetric]
      raw_def [symmetric] vmm_get_kernel_directory_def
    by (simp add: s3_def)
  show ?thesis
  proof (cases "rs = 0")
    case True
    then have "raw = []" using lr by simp
    moreover have same: "use_directory ?prev s1\<lparr>pbytes := pbytes s1\<rparr> = use_directory ?prev s1" by (simp add: use_directory_def)
    moreover have "loads target s (use_directory ?prev s1) (2 * n)" using rel [where p = ?prev and b = "pbytes s1"] unfolding same .
    ultimately show ?thesis
      using eq True s3(2) s1(3)
      by (simp add: section_view_def va_def rp_def rs_def n_def raw_def s3_def)
  next
    case False
    have "use_directory target (use_directory ?prev (s3\<lparr>pbytes := b\<rparr>)) = s3\<lparr>pbytes := b\<rparr>"
      "use_directory ?prev (s3\<lparr>pbytes := b\<rparr>) = use_directory ?prev s1\<lparr>pbytes := b\<rparr>"
      by (simp_all add: s3_def use_directory_def vmm_switch_directory_def)
    then show ?thesis
      using eq False rel [where p = ?prev and b = b] b(2) s3(2) s1(3)
      by (simp add: section_view_def va_def rp_def rs_def n_def raw_def img_view_def)
  qed
qed

lemma load_sections_view:
  assumes "img_ok (vms (use_directory target s))" "\<forall>sec \<in> set secs. section_ok f base sec" "length f < 2 ^ 32"
    "2 * sum_list (map section_pages secs) \<le> pmm_avail (pmm (vms s))"
  shows "\<exists>s'. load_sections f base target secs s = Some (True, s') \<and>
    loads target s s' (2 * sum_list (map section_pages secs)) \<and>
    img_view (use_directory target s') = fold (section_view f base) secs (img_view (use_directory target s))"
  using assms
proof (induction secs arbitrary: s)
  case Nil
  then show ?case by (simp add: loads_def)
next
  case (Cons sec secs)
  then obtain s1 where s1: "load_section f base target sec s = Some (True, s1)" "loads target s s1 (2 * section_pages sec)"
      "img_view (use_directory target s1) = section_view f base sec (img_view (use_directory target s))"
    using load_section_view [of target s f base sec] by auto
  have "\<exists>s'. load_sections f base target secs s1 = Some (True, s') \<and>
      loads target s1 s' (2 * sum_list (map section_pages secs)) \<and>
      img_view (use_directory target s') = fold (section_view f base) secs (img_view (use_directory target s1))"
    using Cons.IH [of s1] Cons.prems s1(2) by (auto simp: loads_def)
  then show ?case using s1 by (auto simp: loads_def)
qed

lemma pe_headers_size: "pe_headers f = Some (Some r) \<Longrightarrow> \<not> of_nat (length f) < SIZEOF_DOS_HEADER"
  by (auto simp: pe_headers_def Let_def split: if_splits)

text \<open>
  C15. Loading a program whose headers pass the checks, whose sections are page-aligned, lie below
  the kernel and have their data inside the file, with two free blocks per page: \<^verbatim>\<open>pe_load\<close>
  succeeds with the entry point and a stack of four pages, and the program's address space is the
  one the file describes, section by section, each filled with its data and then zeros, later
  sections over earlier ones; nothing else in it changes. The kernel's directory is the current
  one afterwards, whichever was before.
\<close>

theorem pe_load_image:
  assumes "pe_headers f = Some (Some (entry, base, secs))" "length f < 2 ^ 32" "target \<noteq> 0"
    "img_ok (vms (use_directory target s))" "\<forall>sec \<in> set secs. section_ok f base sec"
    "2 * (sum_list (map section_pages secs) + 4) \<le> pmm_avail (pmm (vms s))"
  shows "\<exists>s'. pe_load f target s = Some (Some (entry + base, 0xB0004000), s') \<and>
    img_view (use_directory target s') =
      put_view 0xB0000000 (replicate 16384 0) (fold (section_view f base) secs (img_view (use_directory target s))) \<and>
    current_directory (vms s') = kernel_directory (vms s)"
proof -
  obtain s1 where s1: "load_sections f base target secs s = Some (True, s1)"
      "loads target s s1 (2 * sum_list (map section_pages secs))"
      "img_view (use_directory target s1) = fold (section_view f base) secs (img_view (use_directory target s))"
    using load_sections_view [OF assms(4,5,2)] assms(6) by auto
  obtain s2 where s2: "load_pages 4 USER_STACK_BASE (use_directory target s1) = Some s2"
      "img_rel (use_directory target s1) s2 8"
      "img_view s2 = put_view USER_STACK_BASE (replicate 16384 0) (img_view (use_directory target s1))"
    using load_pages_view [of "use_directory target s1" USER_STACK_BASE 4] s1(2) assms(6)
    by (auto simp: loads_def USER_STACK_BASE_def)
  have "current_directory (vms s2) = target" using s2(2) by (simp add: img_rel_def)
  then have "img_view (use_directory target s2) = img_view s2" by (rule use_current)
  then show ?thesis
    using s1 s2 assms(1,3) pe_headers_size [OF assms(1)]
    by (simp add: pe_load_def loads_def vmm_get_kernel_directory_def USER_STACK_BASE_def)
qed

definition example_pe :: "u8 list" where
  "example_pe = [0x4D, 0x5A] @ replicate 58 0 @ [64, 0, 0, 0] @
     [0x50, 0x45, 0, 0, 0x4C, 1, 1, 0] @ replicate 12 0 @ [32, 0, 0, 0] @
     replicate 16 0 @ [0, 0x10, 0, 0] @ replicate 8 0 @ [0, 0, 0x40, 0] @
     replicate 8 0 @ [3, 0, 0, 0, 0, 0x10, 0, 0, 2, 0, 0, 0, 160, 0, 0, 0] @ replicate 16 0 @ [0x90, 0xC3]"

definition example_section :: pe_section where
  "example_section = \<lparr>virtual_size = 3, virtual_address = 0x1000, raw_data_size = 2, raw_data_pointer = 160\<rparr>"

definition example_img :: img_state where "example_img = \<lparr>vms = vmm_example, pbytes = (\<lambda>_. 7)\<rparr>"

lemma example_pe_headers: "pe_headers example_pe = Some (Some (0x1000, 0x400000, [example_section]))"
  by code_simp

lemma example_section_facts: "length example_pe = 162" "section_pages example_section = 1" "slice 160 2 example_pe = [0x90, 0xC3]"
  by code_simp+

lemma example_img_ok: "img_ok (vms (use_directory (P2V 0x20000) example_img))"
proof -
  have d: "current_directory (vms example_img) = P2V 0x20000" by (simp add: example_img_def vmm_example_def)
  have "mmu vmm_example a = None" for a by (simp add: mmu_def vmm_example_def)
  then show ?thesis unfolding use_current(1) [OF d] by (simp add: example_img_def img_ok_def)
qed

lemma example_avail: "pmm_avail pmm_example = 62"
proof -
  have "block_used pmm_example k \<longleftrightarrow> k mod 32 = 0" for k
    by (simp add: block_used_def pmm_example_def bit_1_iff)
  then have "{k. k < 32 * (unat (pmm_max_blocks pmm_example) div 32) \<and> \<not> block_used pmm_example k} =
      set (filter (\<lambda>k. k mod 32 \<noteq> 0) [0..<64])"
    by (auto simp: pmm_example_def)
  moreover have "card (set (filter (\<lambda>k. k mod 32 \<noteq> (0 :: nat)) [0..<64])) = 62" by code_simp
  ultimately show ?thesis unfolding pmm_avail_def by (simp only:)
qed

theorem pe_load_image_witness:
  "\<exists>s'. pe_load example_pe (P2V 0x20000) example_img = Some (Some (0x401000, 0xB0004000), s') \<and>
    img_view (use_directory (P2V 0x20000) s') 0x401001 = Some 0xC3"
proof -
  have "section_ok example_pe 0x400000 example_section"
    using example_section_facts by (simp add: section_ok_def example_section_def)
  moreover have "P2V 0x20000 \<noteq> 0" by (simp add: P2V_def KERNEL_VIRT_BASE_def)
  moreover have "pmm (vms example_img) = pmm_example" by (simp add: example_img_def vmm_example_def)
  moreover have "put_view 0xB0000000 (replicate 16384 0) (section_view example_pe 0x400000 example_section img) 0x401001 = Some 0xC3" for img
    using example_section_facts(3) by (simp add: section_view_def put_view_def example_section_def)
  ultimately show ?thesis
    using pe_load_image [OF example_pe_headers _ _ example_img_ok] example_section_facts(1,2) example_avail by auto
qed

text \<open>
  The bound of the header is checked on a sum of 32 bits: a file that puts its header just below
  4 GB passes the check, and the loader reads outside the file.
\<close>

lemma pe_lfanew_overread:
  assumes "64 \<le> length f" "length f < 2 ^ 31" "le16 f 0 = 0x5A4D" "2 ^ 32 - 24 \<le> unat (le32 f 60)"
  shows "pe_headers f = None"
proof -
  have sz: "unat (of_nat (length f) :: u32) = length f" using assms(2) by (simp add: unat_of_nat)
  have "unat (le32 f 60 + 24) = (unat (le32 f 60) + 24) mod 2 ^ 32" by (simp add: unat_word_ariths)
  also have "\<dots> = unat (le32 f 60) + 24 - 2 ^ 32" using assms(4) unat_u32_bound [of "le32 f 60"] by (simp add: mod_if)
  finally have "unat (le32 f 60 + 24) < 64" using unat_u32_bound [of "le32 f 60"] by simp
  then have "\<not> le32 f 60 + SIZEOF_PE_HEADER > of_nat (length f)" "\<not> of_nat (length f) < SIZEOF_DOS_HEADER"
    using assms(1) sz by (simp_all add: SIZEOF_PE_HEADER_def SIZEOF_DOS_HEADER_def word_less_nat_alt)
  moreover have "length f < unat (le32 f 60) + 24" using assms(2,4) by simp
  ultimately show ?thesis using assms(3) by (simp add: pe_headers_def Let_def)
qed

end
