(* ===== verification/Khazar_Queues.thy ===== *)
theory Khazar_Queues
  imports Khazar_Prelude
begin

text \<open>
  The two bounded queues of the input path: the terminal's ring buffer
  (\<^verbatim>\<open>kernel/drivers/char/tty.c\<close>, a count decides full and empty) and the event queue
  (\<^verbatim>\<open>kernel/core/events.c\<close>, one slot stays unused). Both implement the same contract, stated
  as a locale. The indices are kept below the array size by a remainder, so they are
  natural numbers here.
\<close>

subsection \<open>Ring buffers\<close>

definition ring :: "'a list \<Rightarrow> nat \<Rightarrow> nat \<Rightarrow> 'a list" where
  "ring buf start n = map (\<lambda>i. buf ! ((start + i) mod length buf)) [0..<n]"

lemma length_ring [simp]: "length (ring buf start n) = n"
  by (simp add: ring_def)

lemma ring_get:
  "ring buf start (Suc n) = buf ! (start mod length buf) # ring buf (Suc start mod length buf) n"
proof -
  have "[0..<Suc n] = 0 # map Suc [0..<n]" by (simp add: map_Suc_upt upt_conv_Cons)
  then show ?thesis by (simp add: ring_def mod_simps del: upt_Suc)
qed

lemma mod_add_inj: "\<lbrakk>(a + i) mod n = (a + j) mod n; i < n; j < n\<rbrakk> \<Longrightarrow> i = (j :: nat)"
proof (induction i j rule: linorder_wlog)
  case (le i j)
  then have "n dvd (a + j) - (a + i)" by (metis add_le_cancel_left mod_eq_dvd_iff_nat)
  then show ?case using le by (metis add_diff_cancel_left dvd_imp_le less_imp_diff_less nat_neq_iff
        linorder_not_less zero_less_diff)
qed simp

lemma ring_put:
  assumes "n < length buf"
  shows "ring (buf[(start + n) mod length buf := x]) start (Suc n) = ring buf start n @ [x]"
proof -
  have pos: "0 < length buf" using assms by linarith
  have "buf[(start + n) mod length buf := x] ! ((start + i) mod length buf) =
      (if i = n then x else buf ! ((start + i) mod length buf))" if "i \<le> n" for i
    using that assms pos mod_add_inj [of start i "length buf" n] by (auto simp: nth_list_update)
  then show ?thesis by (simp add: ring_def)
qed

subsection \<open>The bounded queue contract\<close>

text \<open>Taking up to \<open>n\<close> elements out.\<close>

fun drain :: "('s \<Rightarrow> ('a \<times> 's) option) \<Rightarrow> nat \<Rightarrow> 's \<Rightarrow> 'a list \<times> 's" where
  "drain get 0 q = ([], q)"
| "drain get (Suc n) q =
     (case get q of
        None \<Rightarrow> ([], q)
      | Some (x, q') \<Rightarrow> (let (xs, q'') = drain get n q' in (x # xs, q'')))"

locale bounded_queue =
  fixes put :: "'a \<Rightarrow> 's \<Rightarrow> 's"
    and get :: "'s \<Rightarrow> ('a \<times> 's) option"
    and elems :: "'s \<Rightarrow> 'a list"
    and cap :: nat
    and inv :: "'s \<Rightarrow> bool"
  assumes bounded: "inv q \<Longrightarrow> length (elems q) \<le> cap"
    and put_inv: "inv q \<Longrightarrow> inv (put x q)"
    and put_elems: "inv q \<Longrightarrow> elems (put x q) = (if length (elems q) < cap then elems q @ [x] else elems q)"
    and get_elems: "inv q \<Longrightarrow> (case elems q of [] \<Rightarrow> get q = None | x # xs \<Rightarrow> \<exists>q'. get q = Some (x, q') \<and> elems q' = xs \<and> inv q')"
begin

lemma put_all: "inv q \<Longrightarrow> inv (fold put xs q) \<and> elems (fold put xs q) = take cap (elems q @ xs)"
proof (induction xs arbitrary: q)
  case Nil
  then show ?case using bounded [of q] by simp
next
  case (Cons x xs)
  then show ?case using put_inv [of q x] put_elems [of q x] bounded [of q] by (auto simp: take_Cons' not_less)
qed

lemma drain_fifo: "inv q \<Longrightarrow> fst (drain get n q) = take n (elems q) \<and> inv (snd (drain get n q)) \<and> elems (snd (drain get n q)) = drop n (elems q)"
proof (induction n arbitrary: q)
  case (Suc n)
  show ?case
  proof (cases "elems q")
    case Nil
    then show ?thesis using get_elems [OF Suc.prems] Suc.prems by simp
  next
    case (Cons x xs)
    then obtain q' where "get q = Some (x, q')" "elems q' = xs" "inv q'" using get_elems [OF Suc.prems] by auto
    then show ?thesis using Suc.IH [of q'] Cons by (simp add: split_beta)
  qed
qed simp

lemma fifo: "\<lbrakk>inv q; elems q = []; length xs \<le> cap\<rbrakk> \<Longrightarrow> fst (drain get (length xs) (fold put xs q)) = xs"
  using put_all [of q xs] drain_fifo [of "fold put xs q" "length xs"] by simp

end

subsection \<open>The terminal\<close>

definition TTY_BUFFER_SIZE :: nat where "TTY_BUFFER_SIZE = 1024"

record tty =
  buffer :: "u8 list"
  tty_head :: nat
  tty_tail :: nat
  tty_count :: nat

definition tty_init :: tty where
  "tty_init = \<lparr>buffer = replicate TTY_BUFFER_SIZE 0, tty_head = 0, tty_tail = 0, tty_count = 0\<rparr>"

definition tty_putc :: "u8 \<Rightarrow> tty \<Rightarrow> tty" where
  "tty_putc c t =
     (if tty_count t < TTY_BUFFER_SIZE
      then t\<lparr>buffer := (buffer t)[tty_head t := c],
             tty_head := (tty_head t + 1) mod TTY_BUFFER_SIZE, tty_count := tty_count t + 1\<rparr>
      else t)"

definition tty_getc :: "tty \<Rightarrow> u8 \<times> tty" where
  "tty_getc t =
     (if tty_count t = 0 then (0, t)
      else (buffer t ! tty_tail t,
            t\<lparr>tty_tail := (tty_tail t + 1) mod TTY_BUFFER_SIZE, tty_count := tty_count t - 1\<rparr>))"

text \<open>
  \<^verbatim>\<open>tty_read\<close> returns the bytes it stores, at most \<open>n\<close> of them, up to a newline; its C
  result is their number.
\<close>

fun tty_read :: "nat \<Rightarrow> tty \<Rightarrow> u8 list \<times> tty" where
  "tty_read 0 t = ([], t)"
| "tty_read (Suc n) t =
     (case tty_getc t of (c, t1) \<Rightarrow>
        if c = 10 then ([c], t1) else (case tty_read n t1 of (cs, t2) \<Rightarrow> (c # cs, t2)))"

definition tty_inv :: "tty \<Rightarrow> bool" where
  "tty_inv t \<longleftrightarrow> length (buffer t) = TTY_BUFFER_SIZE \<and> tty_tail t < TTY_BUFFER_SIZE \<and>
     tty_count t \<le> TTY_BUFFER_SIZE \<and> tty_head t = (tty_tail t + tty_count t) mod TTY_BUFFER_SIZE"

definition tty_elems :: "tty \<Rightarrow> u8 list" where
  "tty_elems t = ring (buffer t) (tty_tail t) (tty_count t)"

definition tty_get :: "tty \<Rightarrow> (u8 \<times> tty) option" where
  "tty_get t = (if tty_count t = 0 then None else Some (tty_getc t))"

lemma tty_putc_laws:
  assumes "tty_inv t"
  shows "tty_inv (tty_putc c t)"
    "tty_elems (tty_putc c t) = (if tty_count t < TTY_BUFFER_SIZE then tty_elems t @ [c] else tty_elems t)"
  using assms ring_put [of "tty_count t" "buffer t" "tty_tail t" c]
  by (auto simp: tty_inv_def tty_putc_def tty_elems_def mod_Suc_eq simp flip: Suc_eq_plus1)

lemma tty_get_laws:
  assumes "tty_inv t"
  shows "case tty_elems t of [] \<Rightarrow> tty_get t = None
    | x # xs \<Rightarrow> \<exists>t'. tty_get t = Some (x, t') \<and> tty_elems t' = xs \<and> tty_inv t'"
proof (cases "tty_count t")
  case 0
  then show ?thesis by (simp add: tty_elems_def tty_get_def ring_def)
next
  case (Suc n)
  have "(Suc (tty_tail t) mod 1024 + n) mod 1024 = (tty_tail t + Suc n) mod 1024" by (simp add: mod_simps)
  then show ?thesis using assms Suc
    by (auto simp: tty_elems_def tty_get_def ring_get tty_getc_def tty_inv_def TTY_BUFFER_SIZE_def)
qed

interpretation tty: bounded_queue tty_putc tty_get tty_elems TTY_BUFFER_SIZE tty_inv
  using tty_putc_laws tty_get_laws by unfold_locales (auto simp: tty_inv_def tty_elems_def)

lemma tty_inv_init [simp]: "tty_inv tty_init" "tty_elems tty_init = []"
  by (simp_all add: tty_inv_def tty_init_def tty_elems_def ring_def TTY_BUFFER_SIZE_def)

text \<open>One line: everything up to and with the first newline.\<close>

fun line_of :: "u8 list \<Rightarrow> u8 list" where
  "line_of [] = []"
| "line_of (c # cs) = (if c = 10 then [c] else c # line_of cs)"

lemma tty_read_line:
  assumes "tty_inv t"
  shows "tty_inv (snd (tty_read n t)) \<and> fst (tty_read n t) = line_of (take n (tty_elems t @ replicate n 0)) \<and>
    tty_elems (snd (tty_read n t)) = drop (length (fst (tty_read n t))) (tty_elems t)"
  using assms
proof (induction n arbitrary: t)
  case (Suc n)
  show ?case
  proof (cases "tty_elems t")
    case Nil
    then have "tty_count t = 0" by (metis length_ring list.size(3) tty_elems_def)
    then have g: "tty_getc t = (0, t)" by (simp add: tty_getc_def)
    then show ?thesis using Suc.IH [OF Suc.prems] Nil by (simp add: split_beta)
  next
    case (Cons x xs)
    then obtain t' where t': "tty_get t = Some (x, t')" "tty_elems t' = xs" "tty_inv t'"
      using tty.get_elems [OF Suc.prems] by auto
    then have g: "tty_getc t = (x, t')" by (auto simp: tty_get_def split: if_splits)
    have "take n (xs @ replicate (Suc n) 0) = take n (xs @ replicate n (0 :: u8))"
      by (simp add: take_append del: replicate_Suc)
    then show ?thesis using Suc.IH [OF t'(3)] Cons t'(2,3) g by (simp add: split_beta)
  qed
qed simp

subsection \<open>The event queue\<close>

datatype event_type_t = EVENT_NONE | EVENT_KEY_DOWN | EVENT_MOUSE_MOVE | EVENT_MOUSE_CLICK | EVENT_MOUSE_RELEASE

record event_t =
  ev_type :: event_type_t
  data1 :: u32
  data2 :: u32
  data3 :: u32

definition EVENT_QUEUE_SIZE :: nat where "EVENT_QUEUE_SIZE = 128"

record event_queue =
  equeue :: "event_t list"
  ehead :: nat
  etail :: nat

definition events_init :: event_queue where
  "events_init = \<lparr>equeue = replicate EVENT_QUEUE_SIZE \<lparr>ev_type = EVENT_NONE, data1 = 0, data2 = 0, data3 = 0\<rparr>,
     ehead = 0, etail = 0\<rparr>"

definition events_push :: "event_t \<Rightarrow> event_queue \<Rightarrow> event_queue" where
  "events_push event q =
     (let nxt = (etail q + 1) mod EVENT_QUEUE_SIZE
      in if nxt = ehead q then q else q\<lparr>equeue := (equeue q)[etail q := event], etail := nxt\<rparr>)"

definition events_pop :: "event_queue \<Rightarrow> (event_t \<times> event_queue) option" where
  "events_pop q =
     (if ehead q = etail q then None
      else Some (equeue q ! ehead q, q\<lparr>ehead := (ehead q + 1) mod EVENT_QUEUE_SIZE\<rparr>))"

definition events_inv :: "event_queue \<Rightarrow> bool" where
  "events_inv q \<longleftrightarrow> length (equeue q) = EVENT_QUEUE_SIZE \<and> ehead q < EVENT_QUEUE_SIZE \<and> etail q < EVENT_QUEUE_SIZE"

definition events_count :: "event_queue \<Rightarrow> nat" where
  "events_count q = (etail q + EVENT_QUEUE_SIZE - ehead q) mod EVENT_QUEUE_SIZE"

definition events_elems :: "event_queue \<Rightarrow> event_t list" where
  "events_elems q = ring (equeue q) (ehead q) (events_count q)"

lemma events_tail: "events_inv q \<Longrightarrow> (ehead q + events_count q) mod EVENT_QUEUE_SIZE = etail q"
  by (simp add: events_inv_def events_count_def mod_simps)

lemma events_count_eq:
  "events_inv q \<Longrightarrow> events_count q = (if ehead q \<le> etail q then etail q - ehead q else etail q + 128 - ehead q)"
  by (auto simp: events_inv_def events_count_def EVENT_QUEUE_SIZE_def mod_if)

lemma mod_128_step: "t < EVENT_QUEUE_SIZE \<Longrightarrow> (t + 1) mod EVENT_QUEUE_SIZE = (if t = 127 then 0 else t + 1)"
  by (auto simp: EVENT_QUEUE_SIZE_def)

lemma count_after_pop:
  "\<lbrakk>h < 128; t < 128; h' = (if h = 127 then 0 else h + 1);
    Suc n = (if h \<le> t then t - h else t + 128 - h)\<rbrakk> \<Longrightarrow>
     (if h' \<le> t then t - h' else t + 128 - h') = (n :: nat)"
  by (auto split: if_splits)

lemma events_full:
  "events_inv q \<Longrightarrow> (etail q + 1) mod EVENT_QUEUE_SIZE = ehead q \<longleftrightarrow> \<not> events_count q < 127"
  "events_inv q \<Longrightarrow> ehead q = etail q \<longleftrightarrow> events_count q = 0"
  using events_count_eq [of q] mod_128_step [of "etail q"]
  by (auto simp: events_inv_def EVENT_QUEUE_SIZE_def split: if_splits)

lemma events_push_laws:
  assumes "events_inv q"
  shows "events_inv (events_push e q)"
    "events_elems (events_push e q) = (if events_count q < 127 then events_elems q @ [e] else events_elems q)"
proof -
  show inv: "events_inv (events_push e q)"
    using assms by (auto simp: events_inv_def events_push_def Let_def EVENT_QUEUE_SIZE_def)
  show "events_elems (events_push e q) = (if events_count q < 127 then events_elems q @ [e] else events_elems q)"
  proof (cases "events_count q < 127")
    case True
    then have p: "events_push e q = q\<lparr>equeue := (equeue q)[etail q := e], etail := (etail q + 1) mod EVENT_QUEUE_SIZE\<rparr>"
      using events_full(1) [OF assms] by (auto simp: events_push_def Let_def)
    have "events_count (events_push e q) = Suc (events_count q)"
      using True events_count_eq [OF assms] events_count_eq [OF inv] mod_128_step [of "etail q"] assms p
      by (auto simp: events_inv_def EVENT_QUEUE_SIZE_def split: if_splits)
    then show ?thesis
      using True p ring_put [of "events_count q" "equeue q" "ehead q" e] events_tail [OF assms] assms
      by (simp add: events_elems_def events_inv_def EVENT_QUEUE_SIZE_def)
  next
    case False
    then show ?thesis using events_full(1) [OF assms] by (simp add: events_push_def)
  qed
qed

lemma events_pop_laws:
  assumes "events_inv q"
  shows "case events_elems q of [] \<Rightarrow> events_pop q = None
    | x # xs \<Rightarrow> \<exists>q'. events_pop q = Some (x, q') \<and> events_elems q' = xs \<and> events_inv q'"
proof (cases "events_count q")
  case 0
  then show ?thesis using events_full(2) [OF assms] by (simp add: events_elems_def events_pop_def ring_def)
next
  case (Suc n)
  let ?q = "q\<lparr>ehead := (ehead q + 1) mod EVENT_QUEUE_SIZE\<rparr>"
  have inv: "events_inv ?q" using assms by (simp add: events_inv_def EVENT_QUEUE_SIZE_def)
  moreover have "events_count ?q = n"
  proof -
    have b: "ehead q < 128" "etail q < 128" using assms by (simp_all add: events_inv_def EVENT_QUEUE_SIZE_def)
    have "ehead ?q = (if ehead q = 127 then 0 else ehead q + 1)" "etail ?q = etail q"
      using mod_128_step [of "ehead q"] b by (simp_all add: EVENT_QUEUE_SIZE_def)
    moreover have "Suc n = (if ehead q \<le> etail q then etail q - ehead q else etail q + 128 - ehead q)"
      using events_count_eq [OF assms] Suc by simp
    ultimately show ?thesis unfolding events_count_eq [OF inv] using count_after_pop [OF b] by metis
  qed
  ultimately show ?thesis using Suc events_full(2) [OF assms] assms
    by (simp add: events_elems_def events_pop_def ring_get events_inv_def)
qed

interpretation events: bounded_queue events_push events_pop events_elems 127 events_inv
proof (unfold_locales, goal_cases)
  case (1 q)
  have "events_count q < 128" by (simp add: events_count_def EVENT_QUEUE_SIZE_def)
  then show ?case by (simp add: events_elems_def)
qed (use events_push_laws events_pop_laws in \<open>auto simp: events_elems_def\<close>)

lemma events_inv_init [simp]: "events_inv events_init" "events_elems events_init = []"
  by (simp_all add: events_inv_def events_init_def events_elems_def events_count_def ring_def EVENT_QUEUE_SIZE_def)

text \<open>
  C38. The terminal buffer is a FIFO queue with a capacity of 1024 bytes: after any bytes
  \<open>cs\<close> are put into it, it holds the first 1024 of the old content followed by \<open>cs\<close> (the rest
  is dropped), and \<^verbatim>\<open>tty_read\<close> returns the first line of it, at most \<open>n\<close> bytes, and removes just
  what it returned. It never waits, although the comment in \<^verbatim>\<open>tty.h\<close> calls \<^verbatim>\<open>tty_getc\<close> blocking: when
  the buffer runs empty before a newline and before \<open>n\<close> bytes, the rest of the \<open>n\<close> bytes are zeros.
\<close>

theorem tty_fifo_lines:
  fixes cs :: "u8 list"
  assumes "tty_inv t"
  defines "q \<equiv> fold tty_putc cs t"
  shows "tty_elems q = take 1024 (tty_elems t @ cs) \<and>
    fst (tty_read n q) = line_of (take n (tty_elems q @ replicate n 0)) \<and>
    tty_elems (snd (tty_read n q)) = drop (length (fst (tty_read n q))) (tty_elems q)"
  using tty.put_all [OF assms(1), of cs] tty_read_line [of q n] by (simp add: q_def TTY_BUFFER_SIZE_def)

theorem tty_fifo_lines_witness:
  "fst (tty_read 4 (fold tty_putc [0x6C, 0x73, 10, 0x70] tty_init)) = [0x6C, 0x73, 10]"
  using tty_fifo_lines [OF tty_inv_init(1), of "[0x6C, 0x73, 10, 0x70]" 4] by simp

text \<open>
  The event queue is a FIFO queue of 127 events: events pushed onto an empty queue are
  popped in order, none lost or changed, as long as there are at most 127 of them, and later
  ones are dropped without disturbing those already queued.
\<close>

theorem events_fifo:
  assumes "events_inv q" "events_elems q = []"
  shows "events_elems (fold events_push es q) = take 127 es \<and>
    (length es \<le> 127 \<longrightarrow> fst (drain events_pop (length es) (fold events_push es q)) = es) \<and>
    events_inv (fold events_push es q)"
  using events.put_all [OF assms(1), of es] events.fifo [OF assms, of es] assms(2) by simp

theorem events_fifo_witness:
  "events_elems (fold events_push [\<lparr>ev_type = EVENT_KEY_DOWN, data1 = 30, data2 = 0, data3 = 0\<rparr>] events_init) =
     [\<lparr>ev_type = EVENT_KEY_DOWN, data1 = 30, data2 = 0, data3 = 0\<rparr>]"
  using events_fifo [OF events_inv_init, of "[\<lparr>ev_type = EVENT_KEY_DOWN, data1 = 30, data2 = 0, data3 = 0\<rparr>]"] by simp

end
