(* ===== verification/Khazar_Syscall.thy ===== *)
theory Khazar_Syscall
  imports Khazar_Process Khazar_Pe Khazar_Vfs Khazar_Net Khazar_Queues
begin

text \<open>
  The system calls, \<^verbatim>\<open>kernel/syscall/table.c\<close>: the handler of \<^verbatim>\<open>int 0x80\<close> over the state of
  the components it calls. User buffers are read and written through the page tables of the
  current directory. The file systems (\<open>fs\<close>) and the old contents of the kernel heap (\<open>junk\<close>) are
  arguments.
\<close>

subsection \<open>State and results\<close>

record 'w kernel =
  procs :: proc_state
  kvfs :: "'w vfs_state"
  knet :: net_state
  ktty :: tty
  kconsole :: console
  ubytes :: "addr \<Rightarrow> u8"

text \<open>
  What becomes of a call: the value returned in \<^verbatim>\<open>eax\<close>; the machine is reset or switched off; the
  process has ended and the scheduler runs; the thread sleeps on the queue of a port; the call polls
  on (\<^verbatim>\<open>waitpid\<close>); or the kernel faults, overruns a buffer or walks a list that does not end.
\<close>

datatype 'w sys_result =
  Ret u32 "'w kernel" | Reboot | Shutdown | Exited "'w kernel" | Sleeps nat "'w kernel" | Polls "'w kernel" | Fault

definition SYS_EXIT :: u32 where "SYS_EXIT = 1"
definition SYS_READ :: u32 where "SYS_READ = 3"
definition SYS_WRITE :: u32 where "SYS_WRITE = 4"
definition SYS_OPEN :: u32 where "SYS_OPEN = 5"
definition SYS_CLOSE :: u32 where "SYS_CLOSE = 6"
definition SYS_REBOOT :: u32 where "SYS_REBOOT = 88"
definition SYS_SHUTDOWN :: u32 where "SYS_SHUTDOWN = 89"

definition KERR_OK :: u32 where "KERR_OK = 0"
definition KERR_NOMEM :: u32 where "KERR_NOMEM = - 2"
definition KERR_INVAL :: u32 where "KERR_INVAL = - 3"
definition KERR_IO :: u32 where "KERR_IO = - 4"
definition KERR_NOTFOUND :: u32 where "KERR_NOTFOUND = - 5"
definition KERR_NOSYS :: u32 where "KERR_NOSYS = - 8"
definition KERR_FAULT :: u32 where "KERR_FAULT = - 9"

definition USER_SPACE_MIN :: u32 where "USER_SPACE_MIN = 0x00400000"
definition USER_SPACE_MAX :: u32 where "USER_SPACE_MAX = 0xBFFFFFFF"

definition syscall_validate_ptr :: "addr \<Rightarrow> u32 \<Rightarrow> bool" where
  "syscall_validate_ptr ptr sz =
     (if ptr = 0 then False
      else if ptr < USER_SPACE_MIN then False
      else if ptr > USER_SPACE_MAX then False
      else if sz > 0 \<and> ptr + sz - 1 > USER_SPACE_MAX then False
      else True)"

text \<open>\<^verbatim>\<open>LOG_WARN\<close> writes a line to the serial port.\<close>

definition klog_write :: "string \<Rightarrow> string \<Rightarrow> string \<Rightarrow> console \<Rightarrow> console" where
  "klog_write level subsys msg s =
     fold (\<lambda>t. serial_write_string (map of_char t)) [''['', level, ''][''  , subsys, ''] '', msg, [char_of (10 :: nat)]] s"

definition LOG_WARN :: "string \<Rightarrow> string \<Rightarrow> fmt_arg list \<Rightarrow> console \<Rightarrow> console" where
  "LOG_WARN subsys fmt args s =
     (case kvprintf fmt args of None \<Rightarrow> s | Some msg \<Rightarrow> klog_write ''WARN'' subsys msg s)"

subsection \<open>User memory\<close>

definition kvm :: "'w kernel \<Rightarrow> vmm_state" where "kvm k = vm (procs k)"

definition user_read :: "addr \<Rightarrow> nat \<Rightarrow> 'w kernel \<Rightarrow> u8 list option" where
  "user_read v n k = peek (kvm k) (ubytes k) v n"

definition user_write :: "addr \<Rightarrow> u8 list \<Rightarrow> 'w kernel \<Rightarrow> 'w kernel option" where
  "user_write v bs k = map_option (\<lambda>m. k\<lparr>ubytes := m\<rparr>) (poke (kvm k) v bs (ubytes k))"

text \<open>A C string, up to its zero byte; \<open>user_strn\<close> stops after \<open>n\<close> bytes, as \<^verbatim>\<open>kstrncpy\<close> does.\<close>

partial_function (option) user_string :: "'w kernel \<Rightarrow> addr \<Rightarrow> string option" where
  "user_string k v =
     (case mmu (kvm k) v of
        None \<Rightarrow> None
      | Some p \<Rightarrow> if ubytes k p = 0 then Some []
                  else Option.bind (user_string k (v + 1)) (\<lambda>r. Some (char_of (unat (ubytes k p)) # r)))"

fun user_strn :: "'w kernel \<Rightarrow> addr \<Rightarrow> nat \<Rightarrow> string option" where
  "user_strn k v 0 = Some []"
| "user_strn k v (Suc n) =
     (case mmu (kvm k) v of
        None \<Rightarrow> None
      | Some p \<Rightarrow> if ubytes k p = 0 then Some [] else map_option (\<lambda>r. char_of (unat (ubytes k p)) # r) (user_strn k (v + 1) n))"

subsection \<open>Files\<close>

definition current_proc :: "'w kernel \<Rightarrow> addr" where
  "current_proc k = scheduler_get_current_process (procs k)"

text \<open>\<^verbatim>\<open>0 <= fd && fd < MAX_PROCESS_FDS\<close> for a signed \<open>fd\<close> is one comparison of the unsigned value.\<close>

definition fd_node :: "addr \<Rightarrow> u32 \<Rightarrow> 'w kernel \<Rightarrow> addr" where
  "fd_node proc fd k =
     (if proc \<noteq> 0 \<and> unat fd < MAX_PROCESS_FDS then fd_table (pstore (procs k) proc) ! unat fd else 0)"

definition set_fd :: "addr \<Rightarrow> nat \<Rightarrow> addr \<Rightarrow> 'w kernel \<Rightarrow> 'w kernel" where
  "set_fd proc i node k = k\<lparr>procs := upd_proc proc (\<lambda>p. p\<lparr>fd_table := (fd_table p)[i := node]\<rparr>) (procs k)\<rparr>"

definition bad_pointer :: "string \<Rightarrow> addr \<Rightarrow> 'w kernel \<Rightarrow> 'w sys_result" where
  "bad_pointer fmt ptr k = Ret KERR_FAULT (k\<lparr>kconsole := LOG_WARN ''syscall'' fmt [Arg32 ptr] (kconsole k)\<rparr>)"

definition sys_write :: "'w fs_ops \<Rightarrow> registers_t \<Rightarrow> 'w kernel \<Rightarrow> 'w sys_result" where
  "sys_write fs regs k =
     (let fd = ebx regs; buf = ecx regs; sz = edx regs; proc = current_proc k
      in if \<not> syscall_validate_ptr buf sz then bad_pointer ''SYS_WRITE: invalid user buffer 0x%x'' buf k
         else if fd = 1 \<or> fd = 2 then
           (case user_read buf (unat sz) k of
              None \<Rightarrow> Fault
            | Some bs \<Rightarrow> Ret sz (k\<lparr>kconsole := terminal_write bs (kconsole k)\<rparr>))
         else if fd_node proc fd k \<noteq> 0 then
           (case user_read buf (unat sz) k of
              None \<Rightarrow> Fault
            | Some bs \<Rightarrow> (case vfs_write fs (fd_node proc fd k) 0 bs (kvfs k) of (n, v) \<Rightarrow> Ret n (k\<lparr>kvfs := v\<rparr>)))
         else Ret KERR_INVAL k)"

definition sys_read :: "'w fs_ops \<Rightarrow> registers_t \<Rightarrow> 'w kernel \<Rightarrow> 'w sys_result" where
  "sys_read fs regs k =
     (let fd = ebx regs; buf = ecx regs; sz = edx regs; proc = current_proc k;
          store = (\<lambda>bs k'. case user_write buf bs k' of None \<Rightarrow> Fault | Some k'' \<Rightarrow> Ret (of_nat (length bs)) k'')
      in if \<not> syscall_validate_ptr buf sz then bad_pointer ''SYS_READ: invalid user buffer 0x%x'' buf k
         else if fd = 0 then (case tty_read (unat sz) (ktty k) of (bs, t) \<Rightarrow> store bs (k\<lparr>ktty := t\<rparr>))
         else if fd_node proc fd k \<noteq> 0 then
           (case vfs_read fs (fd_node proc fd k) 0 sz (kvfs k) of (bs, v) \<Rightarrow> store bs (k\<lparr>kvfs := v\<rparr>))
         else Ret KERR_INVAL k)"

definition find_node :: "'w fs_ops \<Rightarrow> string \<Rightarrow> 'w kernel \<Rightarrow> addr \<times> 'w kernel" where
  "find_node fs path k =
     (case vfs_find_path fs (vfs_root (kvfs k)) path (kvfs k) of (node, v) \<Rightarrow> (node, k\<lparr>kvfs := v\<rparr>))"

definition free_fd :: "addr list \<Rightarrow> nat option" where
  "free_fd fds = find (\<lambda>i. fds ! i = 0) [3..<MAX_PROCESS_FDS]"

definition sys_open :: "'w fs_ops \<Rightarrow> registers_t \<Rightarrow> 'w kernel \<Rightarrow> 'w sys_result" where
  "sys_open fs regs k =
     (if \<not> syscall_validate_ptr (ebx regs) 1 then bad_pointer ''SYS_OPEN: invalid path 0x%x'' (ebx regs) k
      else case user_string k (ebx regs) of
             None \<Rightarrow> Fault
           | Some name \<Rightarrow>
               (case find_node fs name k of (node, k1) \<Rightarrow>
                  let proc = current_proc k1
                  in if proc \<noteq> 0 \<and> node \<noteq> 0
                     then (case free_fd (fd_table (pstore (procs k1) proc)) of
                             None \<Rightarrow> Ret KERR_NOTFOUND k1
                           | Some i \<Rightarrow> Ret (of_nat i) (set_fd proc i node k1))
                     else Ret KERR_NOTFOUND k1))"

definition sys_close :: "'w fs_ops \<Rightarrow> registers_t \<Rightarrow> 'w kernel \<Rightarrow> 'w sys_result" where
  "sys_close fs regs k =
     (let fd = ebx regs; proc = current_proc k
      in if unat fd \<ge> 3 \<and> fd_node proc fd k \<noteq> 0
         then Ret KERR_OK (set_fd proc (unat fd) 0 (k\<lparr>kvfs := vfs_close fs (fd_node proc fd k) (kvfs k)\<rparr>))
         else Ret KERR_INVAL k)"

text \<open>A directory entry, 141 bytes; the name is at most 127 characters and its zero byte.\<close>

definition dirent_bytes :: "vfs_node_t \<Rightarrow> u8 list" where
  "dirent_bytes n = enc32 (vinode n) @ enc32 (vlength n) @ enc16 141 @ enc16 (ucast (vmask n)) @
     [if vflags n AND VFS_DIRECTORY \<noteq> 0 then 2 else 1] @ map of_char (take 127 (vname n)) @ [0]"

definition kernel_kfree :: "addr \<Rightarrow> 'w kernel \<Rightarrow> 'w kernel" where
  "kernel_kfree p k = k\<lparr>procs := pfree p (procs k)\<rparr>"

definition sys_getdents :: "'w fs_ops \<Rightarrow> registers_t \<Rightarrow> 'w kernel \<Rightarrow> 'w sys_result" where
  "sys_getdents fs regs k =
     (let fd = ebx regs; buf = ecx regs; index = edx regs; proc = current_proc k; dir = fd_node proc fd k
      in if \<not> syscall_validate_ptr buf 128 then bad_pointer ''SYS_GETDENTS: invalid buf 0x%x'' buf k
         else if unat fd \<ge> 3 \<and> dir \<noteq> 0 \<and> vflags (nodes (kvfs k) dir) AND VFS_DIRECTORY = VFS_DIRECTORY
         then (case vfs_readdir fs dir index (kvfs k) of (child, v) \<Rightarrow>
                 let k1 = k\<lparr>kvfs := v\<rparr>
                 in if child = 0 then Ret 0 k1
                    else case user_write buf (dirent_bytes (nodes v child)) k1 of
                           None \<Rightarrow> Fault
                         | Some k2 \<Rightarrow> Ret 1 (kernel_kfree child k2))
         else Ret KERR_INVAL k)"

definition sys_chmod :: "'w fs_ops \<Rightarrow> registers_t \<Rightarrow> 'w kernel \<Rightarrow> 'w sys_result" where
  "sys_chmod fs regs k =
     (if \<not> syscall_validate_ptr (ebx regs) 1 then Ret KERR_FAULT k
      else case user_string k (ebx regs) of
             None \<Rightarrow> Fault
           | Some path \<Rightarrow>
               (case find_node fs path k of (node, k1) \<Rightarrow>
                  if node = 0 then Ret KERR_NOSYS k1
                  else Ret KERR_OK (k1\<lparr>kvfs := (kvfs k1)\<lparr>nodes := (nodes (kvfs k1))(node := (nodes (kvfs k1) node)\<lparr>vmask := ecx regs\<rparr>)\<rparr>\<rparr>)))"

text \<open>
  The parent directory and the last component of a path, in two buffers of 128 bytes: \<open>None\<close> if
  the parent overruns its buffer, or the name fills 127 bytes and is left without a zero byte.
\<close>

definition last_slash :: "string \<Rightarrow> nat option" where
  "last_slash path = find (\<lambda>i. path ! i = CHR ''/'') (rev [0..<length path])"

definition split_path :: "string \<Rightarrow> (string \<times> string) option" where
  "split_path path =
     (let (parent, name) =
        (case last_slash path of
           None \<Rightarrow> (''/'', path)
         | Some i \<Rightarrow> (if i = 0 then ''/'' else take i path, drop (i + 1) path))
      in if length parent < 128 \<and> length name < 127 then Some (parent, name) else None)"

definition sys_path_op ::
    "(addr \<Rightarrow> string \<Rightarrow> 'w vfs_state \<Rightarrow> bool \<times> 'w vfs_state) \<Rightarrow> 'w fs_ops \<Rightarrow> registers_t \<Rightarrow> 'w kernel \<Rightarrow> 'w sys_result" where
  "sys_path_op op fs regs k =
     (if \<not> syscall_validate_ptr (ebx regs) 1 then Ret KERR_FAULT k
      else case Option.bind (user_string k (ebx regs)) split_path of
             None \<Rightarrow> Fault
           | Some (parent_path, name) \<Rightarrow>
               (case find_node fs parent_path k of (parent, k1) \<Rightarrow>
                  if parent = 0 then Ret KERR_NOTFOUND k1
                  else case op parent name (kvfs k1) of
                         (ok, v) \<Rightarrow> Ret (if ok then KERR_OK else KERR_IO) (k1\<lparr>kvfs := v\<rparr>)))"

definition sys_unlink :: "'w fs_ops \<Rightarrow> registers_t \<Rightarrow> 'w kernel \<Rightarrow> 'w sys_result" where
  "sys_unlink fs = sys_path_op (vfs_unlink fs) fs"

definition sys_mkdir :: "'w fs_ops \<Rightarrow> registers_t \<Rightarrow> 'w kernel \<Rightarrow> 'w sys_result" where
  "sys_mkdir fs = sys_path_op (\<lambda>p n v. case vfs_mkdir fs p n v of (r, v') \<Rightarrow> (r \<noteq> 0, v')) fs"

definition sys_create :: "'w fs_ops \<Rightarrow> registers_t \<Rightarrow> 'w kernel \<Rightarrow> 'w sys_result" where
  "sys_create fs = sys_path_op (\<lambda>p n v. case vfs_create fs p n v of (r, v') \<Rightarrow> (r \<noteq> 0, v')) fs"

subsection \<open>Processes\<close>

definition with_img :: "img_state \<Rightarrow> 'w kernel \<Rightarrow> 'w kernel" where
  "with_img i k = k\<lparr>procs := (procs k)\<lparr>vm := vms i\<rparr>, ubytes := pbytes i\<rparr>"

text \<open>Starting the thread of a loaded program.\<close>

definition exec_start :: "addr \<Rightarrow> addr \<Rightarrow> u32 \<Rightarrow> u32 \<Rightarrow> addr \<Rightarrow> 'w kernel \<Rightarrow> 'w sys_result" where
  "exec_start proc thread ep ust cmd k =
     (let ctx = tcontext (tstore (procs k) thread);
          p = procs k;
          k1 = k\<lparr>procs := p\<lparr>frames := (frames p)(ctx := (frames p ctx)\<lparr>eip := ep, useresp := ust, ebp := ust\<rparr>)\<rparr>\<rparr>;
          set_cmd = (\<lambda>c k. k\<lparr>procs := upd_proc proc (\<lambda>p. p\<lparr>cmdline := c\<rparr>) (procs k)\<rparr>);
          add = (\<lambda>k. case scheduler_add_thread thread (procs k) of None \<Rightarrow> Fault | Some p \<Rightarrow> Ret KERR_OK (k\<lparr>procs := p\<rparr>))
      in if cmd \<noteq> 0 \<and> syscall_validate_ptr cmd 1
         then (case user_strn k1 cmd 127 of None \<Rightarrow> Fault | Some c \<Rightarrow> add (set_cmd c k1))
         else add (set_cmd [] k1))"

definition exec_load :: "u8 list \<Rightarrow> string \<Rightarrow> addr \<Rightarrow> 'w kernel \<Rightarrow> 'w sys_result" where
  "exec_load file name cmd k =
     (case process_create_user name 0 0 (procs k) of
        None \<Rightarrow> Fault
      | Some (proc, p) \<Rightarrow>
          let k1 = k\<lparr>procs := p\<rparr>; thread = threads (pstore p proc)
          in if proc = 0 \<or> thread = 0 then Ret KERR_NOMEM k1
             else case pe_load file (page_directory (pstore p proc)) \<lparr>vms = kvm k1, pbytes = ubytes k1\<rparr> of
                    None \<Rightarrow> Fault
                  | Some (Some (ep, ust), i) \<Rightarrow> exec_start proc thread ep ust cmd (with_img i k1)
                  | Some (None, i) \<Rightarrow>
                      let k2 = with_img i k1
                      in Ret KERR_IO (k2\<lparr>procs := upd_thread thread (\<lambda>t. t\<lparr>tstate := THREAD_STATE_TERMINATED\<rparr>) (procs k2)\<rparr>))"

definition free_after :: "addr \<Rightarrow> 'w sys_result \<Rightarrow> 'w sys_result" where
  "free_after p r = (case r of Ret v k \<Rightarrow> Ret v (kernel_kfree p k) | _ \<Rightarrow> r)"

definition sys_exec :: "'w fs_ops \<Rightarrow> (nat \<Rightarrow> u8) \<Rightarrow> registers_t \<Rightarrow> 'w kernel \<Rightarrow> 'w sys_result" where
  "sys_exec fs junk regs k =
     (if \<not> syscall_validate_ptr (ebx regs) 1 then bad_pointer ''SYS_EXEC: invalid name 0x%x'' (ebx regs) k
      else case user_string k (ebx regs) of
             None \<Rightarrow> Fault
           | Some name \<Rightarrow>
               (case find_node fs name k of (node, k1) \<Rightarrow>
                  if node = 0 then Ret KERR_NOTFOUND k1
                  else let len = vlength (nodes (kvfs k1) node)
                  in case pmalloc len (procs k1) of
                       None \<Rightarrow> Fault
                     | Some (file_buf, p) \<Rightarrow>
                         let k2 = k1\<lparr>procs := p\<rparr>
                         in if file_buf = 0 then Ret KERR_NOMEM k2
                            else case vfs_read fs node 0 len (kvfs k2) of (bs, v) \<Rightarrow>
                                   free_after file_buf
                                     (exec_load (bs @ map junk [length bs..<unat len]) name (ecx regs) (k2\<lparr>kvfs := v\<rparr>))))"

definition sys_getcmdline :: "registers_t \<Rightarrow> 'w kernel \<Rightarrow> 'w sys_result" where
  "sys_getcmdline regs k =
     (let buf = ebx regs; sz = ecx regs; proc = current_proc k
      in if \<not> syscall_validate_ptr buf sz then Ret KERR_FAULT k
         else if proc \<noteq> 0 \<and> sz > 0 then
           let c = map of_char (take (unat sz - 1) (cmdline (pstore (procs k) proc)))
           in case user_write buf (c @ replicate (unat sz - length c) 0) k of None \<Rightarrow> Fault | Some k1 \<Rightarrow> Ret KERR_OK k1
         else Ret KERR_INVAL k)"

text \<open>One line of the process list; \<open>None\<close> when the formatting is undefined or the buffer faults.\<close>

partial_function (option) ps_loop :: "addr \<Rightarrow> u32 \<Rightarrow> addr \<Rightarrow> u32 \<Rightarrow> 'w kernel \<Rightarrow> 'w kernel option" where
  "ps_loop buf sz p offset k =
     (if p = 0 \<or> \<not> offset < sz - 128 then Some k
      else let pr = pstore (procs k) p
      in Option.bind (ksnprintf (unat (sz - offset)) (''PID %d: %s (%s)'' @ [char_of (10 :: nat)])
             [Arg32 (pid pr), ArgStr (Some (pname pr)), ArgStr (Some (cmdline pr))]) (\<lambda>line.
         Option.bind (user_write (buf + offset) line k) (\<lambda>k1.
         Option.bind (user_string k1 (buf + offset)) (\<lambda>text.
         ps_loop buf sz (pnext pr) (offset + of_nat (length text)) k1))))"

definition sys_ps :: "registers_t \<Rightarrow> 'w kernel \<Rightarrow> 'w sys_result" where
  "sys_ps regs k =
     (if \<not> syscall_validate_ptr (ebx regs) (ecx regs) then Ret KERR_FAULT k
      else case ps_loop (ebx regs) (ecx regs) (process_get_list (procs k)) 0 k of
             None \<Rightarrow> Fault
           | Some k1 \<Rightarrow> Ret KERR_OK k1)"

definition sys_waitpid :: "registers_t \<Rightarrow> 'w kernel \<Rightarrow> 'w sys_result" where
  "sys_waitpid regs k =
     (let status_ptr = ecx regs
      in if status_ptr \<noteq> 0 \<and> \<not> syscall_validate_ptr status_ptr 4 then Ret KERR_FAULT k
         else case process_waitpid_round (ebx regs) (procs k) of
                None \<Rightarrow> Fault
              | Some (Inl (), p) \<Rightarrow> Polls (k\<lparr>procs := p\<rparr>)
              | Some (Inr (r, None), p) \<Rightarrow> Ret r (k\<lparr>procs := p\<rparr>)
              | Some (Inr (r, Some st), p) \<Rightarrow>
                  if status_ptr = 0 then Ret r (k\<lparr>procs := p\<rparr>)
                  else (case user_write status_ptr (enc32 st) k of
                          None \<Rightarrow> Fault
                        | Some k1 \<Rightarrow> Ret r (k1\<lparr>procs := p\<rparr>)))"

definition sys_kill :: "registers_t \<Rightarrow> 'w kernel \<Rightarrow> 'w sys_result" where
  "sys_kill regs k =
     (case process_get_by_pid (ebx regs) (procs k) of
        None \<Rightarrow> Fault
      | Some target \<Rightarrow>
          if target = 0 then Ret KERR_NOTFOUND k
          else (case process_terminate target (128 + ecx regs) (procs k) of
                  None \<Rightarrow> Fault
                | Some p \<Rightarrow> Ret KERR_OK (k\<lparr>procs := p\<rparr>)))"

definition sys_exit :: "registers_t \<Rightarrow> 'w kernel \<Rightarrow> 'w sys_result" where
  "sys_exit regs k =
     (let proc = current_proc k
      in if proc = 0 then Exited k
         else (case process_terminate proc (ebx regs) (procs k) of
                 None \<Rightarrow> Fault
               | Some p \<Rightarrow> Exited (k\<lparr>procs := p\<rparr>)))"

subsection \<open>Network\<close>

definition sys_netsend :: "registers_t \<Rightarrow> 'w kernel \<Rightarrow> 'w sys_result" where
  "sys_netsend regs k =
     (let port = ucast (ecx regs) :: u16; buf = edx regs; len = ucast (esi regs) :: u16;
          send = (\<lambda>payload. case udp_send (ebx regs) port payload len (knet k) of
                    None \<Rightarrow> Fault
                  | Some (ok, n) \<Rightarrow> Ret (if ok then KERR_OK else KERR_IO) (k\<lparr>knet := n\<rparr>))
      in if \<not> syscall_validate_ptr buf (ucast len) then Ret KERR_FAULT k
         else if unat (8 + len) > 1472 then send []
         else (case user_read buf (unat len) k of None \<Rightarrow> Fault | Some bs \<Rightarrow> send bs))"

definition sys_netrecv :: "registers_t \<Rightarrow> 'w kernel \<Rightarrow> 'w sys_result" where
  "sys_netrecv regs k =
     (let port = ucast (ebx regs) :: u16; buf = ecx regs; maxlen = ucast (edx regs) :: u16
      in if \<not> syscall_validate_ptr buf (ucast maxlen) then Ret KERR_FAULT k
         else (case udp_recv port maxlen (knet k) of
                 (Blocked i, n) \<Rightarrow> Sleeps i (k\<lparr>knet := n\<rparr>)
               | (Received bs, n) \<Rightarrow>
                   (case user_write buf bs k of None \<Rightarrow> Fault | Some k1 \<Rightarrow> Ret (of_nat (length bs)) (k1\<lparr>knet := n\<rparr>))))"

subsection \<open>The handler\<close>

definition syscall_handler :: "'w fs_ops \<Rightarrow> (nat \<Rightarrow> u8) \<Rightarrow> registers_t \<Rightarrow> 'w kernel \<Rightarrow> 'w sys_result" where
  "syscall_handler fs junk regs k =
     (let n = eax regs
      in if n = SYS_REBOOT then Reboot
         else if n = SYS_SHUTDOWN then Shutdown
         else if n = SYS_EXIT then sys_exit regs k
         else if n = SYS_WRITE then sys_write fs regs k
         else if n = SYS_READ then sys_read fs regs k
         else if n = SYS_OPEN then sys_open fs regs k
         else if n = SYS_CLOSE then sys_close fs regs k
         else if n = 11 then sys_exec fs junk regs k
         else if n = 78 then sys_getdents fs regs k
         else if n = 12 then sys_getcmdline regs k
         else if n = 13 then sys_netsend regs k
         else if n = 14 then sys_netrecv regs k
         else if n = 15 then sys_chmod fs regs k
         else if n = 16 then sys_unlink fs regs k
         else if n = 17 then sys_mkdir fs regs k
         else if n = 18 then sys_create fs regs k
         else if n = 19 then sys_ps regs k
         else if n = 7 then sys_waitpid regs k
         else if n = 37 then sys_kill regs k
         else Ret KERR_NOSYS k)"

subsection \<open>Pointers\<close>

lemma unat_buffer_end:
  assumes "unat p + unat n \<le> 2 ^ 32" "n \<noteq> (0 :: u32)"
  shows "unat (p + n - 1) = unat p + unat n - 1"
proof -
  have n: "0 < unat n" using assms(2) by (simp add: unat_gt_0)
  have "unat (p + (n - 1)) = unat p + (unat n - 1)"
    using assms n by (subst unat_plus_no_wrap) (simp_all add: unat_minus_one)
  moreover have "p + n - 1 = p + (n - 1)" by simp
  ultimately show ?thesis using n by (metis Nat.add_diff_assoc Suc_leI One_nat_def)
qed

text \<open>
  C21. The pointer check of the system calls, exactly, for all pointers and sizes: it accepts a
  buffer when its pointer lies in user space, from \<open>0x400000\<close> to \<open>0xBFFFFFFF\<close>, and it either ends in
  user space as well or is so long that its end wraps around the 4 GB of the address space. The
  buffers of the second kind cover the whole kernel; they are accepted because the code computes
  the end in 32 bits.
\<close>

theorem syscall_validate_ptr_exact:
  "syscall_validate_ptr p n =
     (0x400000 \<le> unat p \<and> unat p < 0xC0000000 \<and> (unat p + unat n \<le> 0xC0000000 \<or> 2 ^ 32 < unat p + unat n))"
proof (cases "n = 0 \<or> unat p + unat n \<le> 2 ^ 32")
  case True
  then have "p + n - 1 > USER_SPACE_MAX \<longleftrightarrow> unat p + unat n > 0xC0000000" if "n \<noteq> 0"
    using unat_buffer_end [of p n] that by (auto simp: USER_SPACE_MAX_def word_less_nat_alt unat_eq_zero)
  then show ?thesis using True
    by (cases "n = 0") (auto simp: syscall_validate_ptr_def USER_SPACE_MIN_def USER_SPACE_MAX_def word_less_nat_alt word_gt_0)
next
  case False
  have "unat (p + n - 1) < unat p"
  proof -
    have "unat (p + (n - 1)) = (unat p + (unat n - 1)) mod 2 ^ 32"
      using False by (simp add: unat_word_ariths(1) unat_minus_one)
    also have "\<dots> = unat p + (unat n - 1) - 2 ^ 32"
      using False unat_u32_bound [of p] unat_u32_bound [of n] by (subst le_mod_geq) auto
    also have "\<dots> < unat p" using False unat_u32_bound [of n] unsigned_greater_eq [of n] by (cases "unat n") auto
    finally show ?thesis by (simp add: add_diff_eq)
  qed
  then show ?thesis using False
    by (auto simp: syscall_validate_ptr_def USER_SPACE_MIN_def USER_SPACE_MAX_def word_less_nat_alt word_gt_0)
qed

subsection \<open>Descriptor tables\<close>

text \<open>Every process has a table of 16 descriptors, and the first three never hold a node.\<close>

definition fds_ok :: "proc_state \<Rightarrow> bool" where
  "fds_ok s \<longleftrightarrow> (\<forall>a. length (fd_table (pstore s a)) = MAX_PROCESS_FDS \<and> take 3 (fd_table (pstore s a)) = [0, 0, 0])"

lemma fds_ok_cong: "pstore s' = pstore s \<Longrightarrow> fds_ok s' = fds_ok s"
  by (simp add: fds_ok_def)

lemma fds_ok_upd_proc:
  "fds_ok s \<Longrightarrow> (\<And>p. fd_table (f p) = fd_table p \<or> fd_table (f p) = replicate MAX_PROCESS_FDS 0) \<Longrightarrow> fds_ok (upd_proc a f s)"
proof -
  assume ok: "fds_ok s" and f: "\<And>p. fd_table (f p) = fd_table p \<or> fd_table (f p) = replicate MAX_PROCESS_FDS 0"
  have t: "take 3 (replicate MAX_PROCESS_FDS (0 :: u32)) = [0, 0, 0]" by (simp add: MAX_PROCESS_FDS_def numeral_eq_Suc)
  show ?thesis unfolding fds_ok_def
  proof
    fix b
    show "length (fd_table (pstore (upd_proc a f s) b)) = MAX_PROCESS_FDS \<and> take 3 (fd_table (pstore (upd_proc a f s) b)) = [0, 0, 0]"
      using ok f [of "pstore s a"] t by (cases "b = a") (auto simp: fds_ok_def upd_proc_def)
  qed
qed

lemma pstore_frame [simp]:
  "pstore (upd_thread t f s) = pstore s" "pstore (pfree p s) = pstore s"
  by (simp_all add: upd_thread_def pfree_def)

lemma pmalloc_pstore: "pmalloc n s = Some (p, s') \<Longrightarrow> pstore s' = pstore s"
  by (auto simp: pmalloc_def)

lemma scheduler_add_thread_pstore: "scheduler_add_thread t s = Some s' \<Longrightarrow> pstore s' = pstore s"
  by (auto simp: scheduler_add_thread_def Let_def bind_eq_Some_conv split: if_splits)

text \<open>Every result of a fallible operation keeps the tables; the rules follow its structure.\<close>

definition fds_res :: "('a \<times> proc_state) option \<Rightarrow> bool" where
  "fds_res z \<longleftrightarrow> (\<forall>r s. z = Some (r, s) \<longrightarrow> fds_ok s)"

lemma fds_res_bind: "(\<And>r t. m = Some (r, t) \<Longrightarrow> fds_res (f r t)) \<Longrightarrow> fds_res (Option.bind m (\<lambda>(r, t). f r t))"
  by (auto simp: fds_res_def bind_eq_Some_conv)

lemma fds_res_option: "(r = None \<Longrightarrow> fds_res x) \<Longrightarrow> (\<And>a. r = Some a \<Longrightarrow> fds_res (f a)) \<Longrightarrow> fds_res (case r of None \<Rightarrow> x | Some a \<Rightarrow> f a)"
  by (cases r) auto

lemma fds_res_prod: "(\<And>a b. p = (a, b) \<Longrightarrow> fds_res (f a b)) \<Longrightarrow> fds_res (case p of (a, b) \<Rightarrow> f a b)"
  by (cases p) auto

lemma fds_res_if: "(c \<Longrightarrow> fds_res x) \<Longrightarrow> (\<not> c \<Longrightarrow> fds_res y) \<Longrightarrow> fds_res (if c then x else y)"
  by simp

lemma fds_res_ret: "fds_ok s \<Longrightarrow> fds_res (Some (r, s))"
  by (simp add: fds_res_def)

lemma fds_resD: "fds_res z \<Longrightarrow> z = Some (r, s) \<Longrightarrow> fds_ok s"
  by (simp add: fds_res_def)

lemma fds_ok_frame [simp]:
  "fds_ok (upd_thread a f t) = fds_ok t" "fds_ok (pfree p t) = fds_ok t" "fds_ok (t\<lparr>frames := fr\<rparr>) = fds_ok t"
  "fds_ok (t\<lparr>vm := v\<rparr>) = fds_ok t" "fds_ok (t\<lparr>process_list := pl\<rparr>) = fds_ok t" "fds_ok (t\<lparr>next_pid := n\<rparr>) = fds_ok t"
  "fds_ok (t\<lparr>next_tid := n\<rparr>) = fds_ok t" "fds_ok (t\<lparr>closed := c\<rparr>) = fds_ok t"
  by (simp_all add: fds_ok_def)

lemma pmalloc_fds: "pmalloc n t = Some (p, t') \<Longrightarrow> fds_ok t \<Longrightarrow> fds_ok t'"
  using fds_ok_cong pmalloc_pstore by metis

lemma init_fds: "fds_ok t \<Longrightarrow> fds_ok (init_proc n p t)" "fds_ok t \<Longrightarrow> fds_ok (init_thread p q t)"
proof -
  assume t: "fds_ok t"
  have z: "fd_table (zero_process\<lparr>pid := x, pstate := y, exit_status := z\<rparr>) = replicate MAX_PROCESS_FDS 0" for x y z
    by (simp add: zero_process_def)
  show "fds_ok (init_proc n p t)" unfolding init_proc_def Let_def
    by (intro fds_ok_upd_proc) (use t z in simp_all)
  show "fds_ok (init_thread p q t)" unfolding init_thread_def Let_def
    by (intro fds_ok_upd_proc) (use t in simp_all)
qed

lemmas fds_rules = fds_res_bind fds_res_if fds_res_ret fds_res_option fds_res_prod

lemma process_new_fds: "fds_ok s \<Longrightarrow> fds_res (process_new name s)"
  unfolding process_new_def Let_def
  by (intro fds_rules) (auto dest!: pmalloc_fds simp: init_fds)

lemma process_new_fdsD: "process_new name s = Some (r, t) \<Longrightarrow> fds_ok s \<Longrightarrow> fds_ok t"
  by (rule fds_resD [OF process_new_fds])

lemma fd_table_link [simp]: "fd_table (p\<lparr>page_directory := d, pnext := n\<rparr>) = fd_table p"
  by simp

lemma process_create_user_fds: "fds_ok s \<Longrightarrow> fds_res (process_create_user name e u s)"
  unfolding process_create_user_def Let_def
  by (intro fds_rules; drule (1) process_new_fdsD; simp only: fds_ok_frame; intro fds_ok_upd_proc)
    (simp_all only: fds_ok_frame fd_table_link simp_thms)

lemma terminate_loop_pstore: "terminate_loop s t = Some s' \<Longrightarrow> pstore s' = pstore s"
  by (induction rule: terminate_loop.raw_induct [rotated, consumes 1]) (fastforce simp: Let_def split: if_splits)

lemma free_threads_loop_pstore: "free_threads_loop s t = Some s' \<Longrightarrow> pstore s' = pstore s"
  by (induction rule: free_threads_loop.raw_induct [rotated, consumes 1]) (fastforce simp: Let_def split: if_splits)

lemma close_fds_fds: "fds_ok s \<Longrightarrow> fds_ok (close_fds p s)"
proof -
  assume ok: "fds_ok s"
  have t: "take 3 (replicate MAX_PROCESS_FDS (0 :: u32)) = [0, 0, 0]" by (simp add: MAX_PROCESS_FDS_def numeral_eq_Suc)
  have "map (\<lambda>_. 0) (fd_table (pstore s p)) = replicate MAX_PROCESS_FDS (0 :: u32)"
    using ok by (simp add: fds_ok_def map_replicate_const)
  then show ?thesis using ok t unfolding close_fds_def Let_def fds_ok_def by (simp add: upd_proc_def)
qed

lemma process_terminate_fds: "process_terminate p st s = Some s' \<Longrightarrow> fds_ok s \<Longrightarrow> fds_ok s'"
proof -
  assume t: "process_terminate p st s = Some s'" and ok: "fds_ok s"
  let ?s1 = "upd_proc p (\<lambda>p. p\<lparr>pstate := PROCESS_STATE_ZOMBIE, exit_status := st\<rparr>) s"
  have "fds_ok ?s1" using ok by (intro fds_ok_upd_proc) simp_all
  moreover have "s' = s \<or> (\<exists>s2. terminate_loop ?s1 (threads (pstore ?s1 p)) = Some s2 \<and> s' = close_fds p s2)"
    using t by (auto simp: process_terminate_def Let_def bind_eq_Some_conv split: if_splits)
  ultimately show ?thesis using ok close_fds_fds fds_ok_cong terminate_loop_pstore by metis
qed

lemma process_cleanup_fds: "process_cleanup p s = Some s' \<Longrightarrow> fds_ok s \<Longrightarrow> fds_ok s'"
proof -
  assume c: "process_cleanup p s = Some s'" and ok: "fds_ok s"
  have u: "fds_ok s1" if "process_unlink p s = Some s1" for s1
  proof -
    have "s1 = s \<or> (\<exists>a. s1 = s\<lparr>process_list := a\<rparr>) \<or> (\<exists>a b. s1 = upd_proc a (\<lambda>q. q\<lparr>pnext := b\<rparr>) s)"
      using that by (auto simp: process_unlink_def bind_eq_Some_conv split: if_splits)
    moreover have "fds_ok (upd_proc a (\<lambda>q. q\<lparr>pnext := b\<rparr>) s)" for a b using ok by (intro fds_ok_upd_proc) simp_all
    ultimately show ?thesis using ok fds_ok_frame(5) by metis
  qed
  show ?thesis
  proof (cases "p = 0")
    case True
    then show ?thesis using c ok by (simp add: process_cleanup_def)
  next
    case False
    then obtain s1 s2 where s: "process_unlink p s = Some s1" "free_threads_loop s1 (threads (pstore s1 p)) = Some s2"
        "pstore s' = pstore s2"
      using c by (auto simp: process_cleanup_def Let_def bind_eq_Some_conv)
    then have "pstore s' = pstore s1" using free_threads_loop_pstore by metis
    then show ?thesis using u [OF s(1)] fds_ok_cong by metis
  qed
qed

lemma waitpid_fds: "process_waitpid_round n s = Some (r, s') \<Longrightarrow> fds_ok s \<Longrightarrow> fds_ok s'"
  by (auto simp: process_waitpid_round_def bind_eq_Some_conv split: if_splits dest: process_cleanup_fds)

subsection \<open>System calls and descriptor tables\<close>

fun after :: "'w sys_result \<Rightarrow> 'w kernel option" where
  "after (Ret v k) = Some k"
| "after (Exited k) = Some k"
| "after (Sleeps i k) = Some k"
| "after (Polls k) = Some k"
| "after r = None"

definition sys_ok :: "'w sys_result \<Rightarrow> bool" where
  "sys_ok r \<longleftrightarrow> (\<forall>k. after r = Some k \<longrightarrow> fds_ok (procs k))"

lemma sys_ok_simps [simp]:
  "sys_ok (Ret v k) = fds_ok (procs k)" "sys_ok (Exited k) = fds_ok (procs k)" "sys_ok (Sleeps i k) = fds_ok (procs k)"
  "sys_ok (Polls k) = fds_ok (procs k)" "sys_ok Reboot" "sys_ok Shutdown" "sys_ok Fault"
  by (simp_all add: sys_ok_def)

lemma sys_ok_cases:
  "(\<And>a. m = Some a \<Longrightarrow> sys_ok (f a)) \<Longrightarrow> sys_ok y \<Longrightarrow> sys_ok (case m of None \<Rightarrow> y | Some a \<Rightarrow> f a)"
  "(\<And>a b. p = (a, b) \<Longrightarrow> sys_ok (g a b)) \<Longrightarrow> sys_ok (case p of (a, b) \<Rightarrow> g a b)"
  "(c \<Longrightarrow> sys_ok y) \<Longrightarrow> (\<not> c \<Longrightarrow> sys_ok z) \<Longrightarrow> sys_ok (if c then y else z)"
  by (cases m, auto) (cases p, auto)

lemma sys_ok_sum:
  "(\<And>l. x = Inl l \<Longrightarrow> sys_ok (f l)) \<Longrightarrow> (\<And>r. x = Inr r \<Longrightarrow> sys_ok (g r)) \<Longrightarrow> sys_ok (case x of Inl l \<Rightarrow> f l | Inr r \<Rightarrow> g r)"
  by (cases x) simp_all

lemma sys_ok_unit: "sys_ok y \<Longrightarrow> sys_ok (case_unit y u)"
  by (cases u, simp only: unit.case)

lemma user_write_procs: "user_write v bs k = Some k' \<Longrightarrow> procs k' = procs k"
  by (auto simp: user_write_def)

lemma find_node_procs: "find_node fs path k = (n, k') \<Longrightarrow> procs k' = procs k"
  by (auto simp: find_node_def split: prod.splits)

lemma bad_pointer_ok [simp]: "sys_ok (bad_pointer fmt p k) = fds_ok (procs k)"
  by (simp add: bad_pointer_def)

lemma set_fd_ok: "3 \<le> i \<Longrightarrow> fds_ok (procs k) \<Longrightarrow> fds_ok (procs (set_fd proc i n k))"
  unfolding fds_ok_def set_fd_def upd_proc_def by (auto simp: take_update_cancel)

lemma free_fd_Some: "free_fd fds = Some i \<longleftrightarrow> 3 \<le> i \<and> i < MAX_PROCESS_FDS \<and> fds ! i = 0 \<and> (\<forall>j. 3 \<le> j \<and> j < i \<longrightarrow> fds ! j \<noteq> 0)"
  unfolding free_fd_def find_upt_Some_iff by auto

lemma file_calls_ok:
  assumes "fds_ok (procs k)"
  shows "sys_ok (sys_write fs regs k)" "sys_ok (sys_read fs regs k)" "sys_ok (sys_open fs regs k)"
    "sys_ok (sys_close fs regs k)" "sys_ok (sys_getdents fs regs k)" "sys_ok (sys_chmod fs regs k)"
    "sys_ok (sys_path_op op fs regs k)"
proof -
  show "sys_ok (sys_write fs regs k)"
    unfolding sys_write_def Let_def by (intro sys_ok_cases) (simp_all add: assms)
  show "sys_ok (sys_read fs regs k)"
    unfolding sys_read_def Let_def by (intro sys_ok_cases) (auto simp: assms dest: user_write_procs)
  show "sys_ok (sys_open fs regs k)"
    unfolding sys_open_def Let_def
    by (intro sys_ok_cases) (auto simp: assms free_fd_Some dest!: find_node_procs intro!: set_fd_ok)
  show "sys_ok (sys_close fs regs k)"
    unfolding sys_close_def Let_def by (intro sys_ok_cases) (auto simp: assms intro!: set_fd_ok)
  show "sys_ok (sys_getdents fs regs k)"
    unfolding sys_getdents_def Let_def kernel_kfree_def
    by (intro sys_ok_cases) (auto simp: assms dest: user_write_procs)
  show "sys_ok (sys_chmod fs regs k)"
    unfolding sys_chmod_def by (intro sys_ok_cases) (auto simp: assms dest: find_node_procs)
  show "sys_ok (sys_path_op op fs regs k)"
    unfolding sys_path_op_def by (intro sys_ok_cases) (auto simp: assms dest: find_node_procs)
qed

lemma exec_start_ok: "fds_ok (procs k) \<Longrightarrow> sys_ok (exec_start proc thread ep ust cmd k)"
proof -
  assume ok: "fds_ok (procs k)"
  have c: "fds_ok (upd_proc proc (\<lambda>p. p\<lparr>cmdline := c\<rparr>) s)" if "fds_ok s" for c s
    using that by (intro fds_ok_upd_proc) simp_all
  have a: "fds_ok p" if "scheduler_add_thread thread s = Some p" "fds_ok s" for s p
    using that scheduler_add_thread_pstore fds_ok_cong by metis
  show ?thesis unfolding exec_start_def Let_def
    by (intro sys_ok_cases) (auto dest!: a simp: ok intro!: c)
qed

lemma exec_load_ok: "fds_ok (procs k) \<Longrightarrow> sys_ok (exec_load file name cmd k)"
proof -
  assume ok: "fds_ok (procs k)"
  have c: "fds_ok p" if "process_create_user name 0 0 (procs k) = Some (proc, p)" for proc p
    using fds_resD [OF process_create_user_fds [OF ok] that] .
  show ?thesis unfolding exec_load_def Let_def
    by (intro sys_ok_cases exec_start_ok) (auto dest!: c simp: with_img_def)
qed

lemma free_after_ok: "sys_ok r \<Longrightarrow> sys_ok (free_after p r)"
  by (cases r) (simp_all add: free_after_def kernel_kfree_def)

lemma ps_loop_procs: "ps_loop buf sz p off k = Some k' \<Longrightarrow> procs k' = procs k"
proof (induction rule: ps_loop.raw_induct [rotated, consumes 1])
  case (1 f buf sz p off k k')
  show ?case
  proof (cases "p = 0 \<or> \<not> off < sz - 128")
    case True
    then show ?thesis using 1(2) by simp
  next
    case False
    then obtain line k1 and t :: string where "user_write (buf + off) line k = Some k1"
        "f buf sz (pnext (pstore (procs k) p)) (off + of_nat (length t)) k1 = Some k'"
      using 1(2) unfolding Let_def if_not_P [OF False] bind_eq_Some_conv by blast
    then show ?thesis using 1(1) user_write_procs by metis
  qed
qed

lemma proc_calls_ok:
  assumes "fds_ok (procs k)"
  shows "sys_ok (sys_exec fs junk regs k)" "sys_ok (sys_getcmdline regs k)" "sys_ok (sys_ps regs k)"
    "sys_ok (sys_waitpid regs k)" "sys_ok (sys_kill regs k)" "sys_ok (sys_exit regs k)"
    "sys_ok (sys_netsend regs k)" "sys_ok (sys_netrecv regs k)"
proof -
  show "sys_ok (sys_exec fs junk regs k)"
    unfolding sys_exec_def Let_def
    by (intro sys_ok_cases free_after_ok exec_load_ok)
      (auto simp: assms dest!: find_node_procs dest: pmalloc_fds)
  show "sys_ok (sys_getcmdline regs k)"
    unfolding sys_getcmdline_def Let_def by (intro sys_ok_cases) (auto simp: assms dest: user_write_procs)
  show "sys_ok (sys_ps regs k)"
    unfolding sys_ps_def by (intro sys_ok_cases) (auto simp: assms dest: ps_loop_procs)
  show "sys_ok (sys_waitpid regs k)"
    unfolding sys_waitpid_def Let_def
    by (intro sys_ok_cases sys_ok_sum sys_ok_unit) (auto simp: assms dest: waitpid_fds)
  show "sys_ok (sys_kill regs k)"
    unfolding sys_kill_def by (intro sys_ok_cases) (auto simp: assms dest: process_terminate_fds)
  show "sys_ok (sys_exit regs k)"
    unfolding sys_exit_def Let_def by (intro sys_ok_cases) (auto simp: assms dest: process_terminate_fds)
  show "sys_ok (sys_netsend regs k)"
    unfolding sys_netsend_def Let_def by (intro sys_ok_cases) (auto simp: assms)
  show "sys_ok (sys_netrecv regs k)"
    unfolding sys_netrecv_def Let_def
    by (auto simp: assms dest: user_write_procs split: option.splits prod.splits udp_result.splits)
qed

text \<open>
  C18. Every system call, whatever its number and arguments and on every path that comes back to a
  process, leaves every process with a table of exactly 16 descriptors whose first three entries,
  the console, hold no node.
\<close>

theorem syscall_keeps_descriptors:
  assumes "fds_ok (procs k)" "after (syscall_handler fs junk regs k) = Some k'"
  shows "fds_ok (procs k')"
proof -
  have "sys_ok (syscall_handler fs junk regs k)"
    unfolding syscall_handler_def Let_def sys_unlink_def sys_mkdir_def sys_create_def
    by (intro sys_ok_cases file_calls_ok proc_calls_ok) (simp_all add: assms(1))
  then show ?thesis using assms(2) by (simp add: sys_ok_def)
qed

text \<open>
  A process whose root directory is open to it: the page at \<open>0x400000\<close> is mapped and holds the
  string \<^verbatim>\<open>/\<close>.
\<close>

definition example_kvm :: vmm_state where
  "example_kvm = vmm_example\<lparr>kmem := (\<lambda>a. if a = P2V 0x20000 + 4 then 0x21007 else if a = P2V 0x21000 then 0x22007 else 0)\<rparr>"

definition example_kernel :: "unit kernel" where
  "example_kernel = \<lparr>procs = proc_example\<lparr>vm := example_kvm\<rparr>,
     kvfs = \<lparr>nodes = (\<lambda>_. zero_node), vfs_root = 0x500, vfs_mounts = [], world = ()\<rparr>,
     knet = example_net, ktty = tty_init, kconsole = console_example, ubytes = (\<lambda>a. if a = 0x22000 then 47 else 0)\<rparr>"

lemma example_kernel_mmu: "mmu (kvm example_kernel) 0x400000 = Some 0x22000" "mmu (kvm example_kernel) 0x400001 = Some 0x22001"
  by (simp_all add: mmu_def kvm_def example_kernel_def example_kvm_def vmm_example_def entry_addr_def pd_index_def pt_index_def
      page_of_def P2V_def KERNEL_VIRT_BASE_def VMM_PRESENT_def)

lemma example_kernel_string: "user_string example_kernel 0x400000 = Some ''/''"
proof -
  have b: "ubytes example_kernel 0x22000 = 47" "ubytes example_kernel 0x22001 = 0" by (simp_all add: example_kernel_def)
  have "user_string example_kernel 0x400001 = Some []"
    by (subst user_string.simps) (simp add: example_kernel_mmu b)
  moreover have "char_of (47 :: nat) = CHR ''/''" by code_simp
  ultimately show ?thesis
    by (subst user_string.simps) (simp add: example_kernel_mmu b)
qed

lemma example_kernel_fds: "fds_ok (procs example_kernel)"
  by (simp add: fds_ok_def example_kernel_def proc_example_def zero_process_def MAX_PROCESS_FDS_def numeral_eq_Suc)

lemma example_kernel_open:
  "sys_open fs (zero_registers\<lparr>eax := 5, ebx := 0x400000\<rparr>) example_kernel = Ret 3 (set_fd 0x300 3 0x500 example_kernel)"
proof -
  have p: "current_proc example_kernel = 0x300"
    by (simp add: current_proc_def scheduler_get_current_process_def example_kernel_def proc_example_def)
  have n: "find_node fs ''/'' example_kernel = (0x500, example_kernel)"
    by (simp add: find_node_def vfs_find_path.simps vfs_check_mount_def example_kernel_def zero_node_def)
  have "free_fd (fd_table (pstore (procs example_kernel) 0x300)) = Some 3"
    by (auto simp: free_fd_Some example_kernel_def proc_example_def zero_process_def MAX_PROCESS_FDS_def)
  then show ?thesis
    by (simp add: sys_open_def syscall_validate_ptr_def USER_SPACE_MIN_def USER_SPACE_MAX_def example_kernel_string n p Let_def zero_registers_def)
qed

theorem syscall_keeps_descriptors_witness: "fds_ok (procs (set_fd 0x300 3 0x500 example_kernel))"
proof -
  have "after (syscall_handler fs junk (zero_registers\<lparr>eax := 5, ebx := 0x400000\<rparr>) example_kernel) = Some (set_fd 0x300 3 0x500 example_kernel)"
    for fs junk
    using example_kernel_open
    by (simp add: syscall_handler_def Let_def zero_registers_def SYS_REBOOT_def SYS_SHUTDOWN_def SYS_EXIT_def SYS_WRITE_def SYS_READ_def SYS_OPEN_def)
  then show ?thesis by (rule syscall_keeps_descriptors [OF example_kernel_fds])
qed

text \<open>
  C19. Opening a path returns the lowest free descriptor from 3 on; reading from it reads the node
  the path leads to, from its start; and closing it succeeds and restores the state of the
  processes from before the call.
\<close>

theorem sys_open_read_close:
  assumes "fds_ok (procs k)" "sys_open fs r k = Ret fd k1" "unat fd < MAX_PROCESS_FDS"
  shows "3 \<le> unat fd \<and> (\<forall>j. 3 \<le> j \<and> j < unat fd \<longrightarrow> fd_table (pstore (procs k) (current_proc k)) ! j \<noteq> 0) \<and>
    (\<exists>name node. user_string k (ebx r) = Some name \<and> fst (find_node fs name k) = node \<and> node \<noteq> 0 \<and>
      (\<forall>r2. ebx r2 = fd \<and> syscall_validate_ptr (ecx r2) (edx r2) \<longrightarrow>
         sys_read fs r2 k1 = (case vfs_read fs node 0 (edx r2) (kvfs k1) of (bs, v) \<Rightarrow>
           (case user_write (ecx r2) bs (k1\<lparr>kvfs := v\<rparr>) of None \<Rightarrow> Fault | Some k2 \<Rightarrow> Ret (of_nat (length bs)) k2)))) \<and>
    (\<forall>r3. ebx r3 = fd \<longrightarrow> (\<exists>k2. sys_close fs r3 k1 = Ret KERR_OK k2 \<and> procs k2 = procs k))"
proof -
  have big: "\<not> unat KERR_NOTFOUND < MAX_PROCESS_FDS" "\<not> unat KERR_FAULT < MAX_PROCESS_FDS"
    by (simp_all add: KERR_NOTFOUND_def KERR_FAULT_def MAX_PROCESS_FDS_def)
  let ?p = "current_proc k"
  obtain name node k0 i where o: "user_string k (ebx r) = Some name" "find_node fs name k = (node, k0)" "node \<noteq> 0"
      "current_proc k0 \<noteq> 0" "free_fd (fd_table (pstore (procs k0) (current_proc k0))) = Some i" "fd = of_nat i" "k1 = set_fd (current_proc k0) i node k0"
    using assms(2,3) big
    by (auto simp: sys_open_def bad_pointer_def Let_def split: if_splits option.splits prod.splits)
  have p0: "procs k0 = procs k" by (rule find_node_procs [OF o(2)])
  then have cp: "current_proc k0 = ?p" by (simp add: current_proc_def)
  note f = o(5) [unfolded free_fd_Some cp p0]
  have ui: "unat fd = i" using f o(6) by (simp add: unat_of_nat MAX_PROCESS_FDS_def)
  have len: "length (fd_table (pstore (procs k) ?p)) = MAX_PROCESS_FDS" using assms(1) by (simp add: fds_ok_def)
  have cp1: "current_proc k1 = ?p"
    using p0 by (simp add: o(7) cp set_fd_def current_proc_def scheduler_get_current_process_def upd_proc_def)
  have node: "fd_node ?p fd k1 = node"
    using o(4) f len ui p0 by (simp add: fd_node_def o(7) cp set_fd_def upd_proc_def)
  have "procs (set_fd ?p i 0 (k1\<lparr>kvfs := v\<rparr>)) = procs k" for v
  proof -
    have "(fd_table (pstore (procs k) ?p))[i := 0] = fd_table (pstore (procs k) ?p)"
      using f by (metis list_update_id)
    then show ?thesis using p0 by (simp add: o(7) cp set_fd_def upd_proc_def)
  qed
  then have "sys_close fs r3 k1 = Ret KERR_OK (set_fd ?p i 0 (k1\<lparr>kvfs := vfs_close fs node (kvfs k1)\<rparr>)) \<and>
      procs (set_fd ?p i 0 (k1\<lparr>kvfs := vfs_close fs node (kvfs k1)\<rparr>)) = procs k" if "ebx r3 = fd" for r3
    using that o(3) node cp1 f ui by (simp add: sys_close_def Let_def)
  moreover have "sys_read fs r2 k1 = (case vfs_read fs node 0 (edx r2) (kvfs k1) of (bs, v) \<Rightarrow>
      (case user_write (ecx r2) bs (k1\<lparr>kvfs := v\<rparr>) of None \<Rightarrow> Fault | Some k2 \<Rightarrow> Ret (of_nat (length bs)) k2))"
    if "ebx r2 = fd" "syscall_validate_ptr (ecx r2) (edx r2)" for r2
  proof -
    have "fd \<noteq> 0" using f ui by auto
    then show ?thesis using that o(3) node cp1 by (simp add: sys_read_def Let_def)
  qed
  moreover have "fst (find_node fs name k) = node" by (simp add: o(2))
  ultimately show ?thesis using f ui o(1,3) by auto
qed

theorem sys_open_read_close_witness:
  "\<forall>fs. \<exists>k2. sys_close fs (zero_registers\<lparr>ebx := 3\<rparr>) (set_fd 0x300 3 0x500 example_kernel) = Ret KERR_OK k2 \<and> procs k2 = procs example_kernel"
  using sys_open_read_close [OF example_kernel_fds example_kernel_open] by (simp add: MAX_PROCESS_FDS_def zero_registers_def)

subsection \<open>Rejected calls\<close>

text \<open>
  The user buffer a call rejects when it is bad: its address and its size. The command line of
  \<^verbatim>\<open>SYS_EXEC\<close> in \<^verbatim>\<open>ecx\<close> is checked as well, but not rejected; the property treats it apart.
\<close>

definition user_buffer :: "registers_t \<Rightarrow> (addr \<times> u32) option" where
  "user_buffer r =
     (if eax r = 3 \<or> eax r = 4 then Some (ecx r, edx r)
      else if eax r = 5 \<or> eax r = 11 \<or> eax r = 15 \<or> eax r = 16 \<or> eax r = 17 \<or> eax r = 18 then Some (ebx r, 1)
      else if eax r = 78 then Some (ecx r, 128)
      else if eax r = 12 \<or> eax r = 19 then Some (ebx r, ecx r)
      else if eax r = 13 then Some (edx r, take_bit 16 (esi r))
      else if eax r = 14 then Some (ecx r, take_bit 16 (edx r))
      else if eax r = 7 \<and> ecx r \<noteq> 0 then Some (ecx r, 4)
      else None)"

definition known_calls :: "u32 set" where
  "known_calls = {1, 3, 4, 5, 6, 7, 11, 12, 13, 14, 15, 16, 17, 18, 19, 37, 78, 88, 89}"

lemma same_log: "\<exists>out. c = c\<lparr>serial_out := out\<rparr>"
  by (rule exI [of _ "serial_out c"]) simp

lemma serial_write_only: "\<exists>out. fold (\<lambda>t. serial_write_string (map of_char t)) ts c = c\<lparr>serial_out := out\<rparr>"
proof -
  have ch: "\<exists>out. serial_write_char b c = c\<lparr>serial_out := out\<rparr>" for b c
    using same_log by (auto simp: serial_write_char_def)
  have st: "\<exists>out. serial_write_string bs c = c\<lparr>serial_out := out\<rparr>" for bs c
    unfolding serial_write_string_def
  proof (induction bs arbitrary: c)
    case (Cons b bs)
    obtain o1 where "serial_write_char b c = c\<lparr>serial_out := o1\<rparr>" using ch by blast
    then show ?case using Cons [of "c\<lparr>serial_out := o1\<rparr>"] by simp
  qed (simp add: same_log)
  show ?thesis
  proof (induction ts arbitrary: c)
    case (Cons t ts)
    obtain o1 where "serial_write_string (map of_char t) c = c\<lparr>serial_out := o1\<rparr>" using st by blast
    then show ?case using Cons [of "c\<lparr>serial_out := o1\<rparr>"] by simp
  qed (simp add: same_log)
qed

lemma bad_pointer_log:
  "\<exists>out. bad_pointer fmt p k = Ret KERR_FAULT (k\<lparr>kconsole := (kconsole k)\<lparr>serial_out := out\<rparr>\<rparr>)"
proof -
  have "\<exists>out. LOG_WARN ''syscall'' fmt [Arg32 p] c = c\<lparr>serial_out := out\<rparr>" for c
    unfolding LOG_WARN_def klog_write_def using serial_write_only same_log
    by (cases "kvprintf fmt [Arg32 p]") (simp_all only: option.case)
  then show ?thesis unfolding bad_pointer_def by metis
qed

lemma no_log: "\<exists>out. k = k\<lparr>kconsole := (kconsole k)\<lparr>serial_out := out\<rparr>\<rparr>"
  by (rule exI [of _ "serial_out (kconsole k)"]) simp

lemma handler_dispatch:
  "eax r = 3 \<Longrightarrow> syscall_handler fs junk r k = sys_read fs r k"
  "eax r = 4 \<Longrightarrow> syscall_handler fs junk r k = sys_write fs r k"
  "eax r = 5 \<Longrightarrow> syscall_handler fs junk r k = sys_open fs r k"
  "eax r = 7 \<Longrightarrow> syscall_handler fs junk r k = sys_waitpid r k"
  "eax r = 11 \<Longrightarrow> syscall_handler fs junk r k = sys_exec fs junk r k"
  "eax r = 12 \<Longrightarrow> syscall_handler fs junk r k = sys_getcmdline r k"
  "eax r = 13 \<Longrightarrow> syscall_handler fs junk r k = sys_netsend r k"
  "eax r = 14 \<Longrightarrow> syscall_handler fs junk r k = sys_netrecv r k"
  "eax r = 15 \<Longrightarrow> syscall_handler fs junk r k = sys_chmod fs r k"
  "eax r = 16 \<Longrightarrow> syscall_handler fs junk r k = sys_unlink fs r k"
  "eax r = 17 \<Longrightarrow> syscall_handler fs junk r k = sys_mkdir fs r k"
  "eax r = 18 \<Longrightarrow> syscall_handler fs junk r k = sys_create fs r k"
  "eax r = 19 \<Longrightarrow> syscall_handler fs junk r k = sys_ps r k"
  "eax r = 78 \<Longrightarrow> syscall_handler fs junk r k = sys_getdents fs r k"
  by (simp_all add: syscall_handler_def Let_def SYS_REBOOT_def SYS_SHUTDOWN_def SYS_EXIT_def SYS_WRITE_def SYS_READ_def
      SYS_OPEN_def SYS_CLOSE_def)

text \<open>\<open>r\<close> is \<^verbatim>\<open>KERR_FAULT\<close>, with nothing done but a log line.\<close>

definition refused :: "'w kernel \<Rightarrow> 'w sys_result \<Rightarrow> bool" where
  "refused k r \<longleftrightarrow> (\<exists>out. r = Ret KERR_FAULT (k\<lparr>kconsole := (kconsole k)\<lparr>serial_out := out\<rparr>\<rparr>))"

lemma refused_intros: "refused k (bad_pointer fmt p k)" "refused k (Ret KERR_FAULT k)"
  unfolding refused_def using bad_pointer_log no_log by (metis, metis)

lemma ucast_ucast_16: "ucast (ucast (w :: u32) :: u16) = take_bit 16 w"
  by (rule bit_eqI) (auto simp: bit_simps)

lemma calls_refused:
  "\<not> syscall_validate_ptr (ecx r) (edx r) \<Longrightarrow> refused k (sys_read fs r k)"
  "\<not> syscall_validate_ptr (ecx r) (edx r) \<Longrightarrow> refused k (sys_write fs r k)"
  "\<not> syscall_validate_ptr (ebx r) 1 \<Longrightarrow> refused k (sys_open fs r k)"
  "ecx r \<noteq> 0 \<Longrightarrow> \<not> syscall_validate_ptr (ecx r) 4 \<Longrightarrow> refused k (sys_waitpid r k)"
  "\<not> syscall_validate_ptr (ebx r) 1 \<Longrightarrow> refused k (sys_exec fs junk r k)"
  "\<not> syscall_validate_ptr (ebx r) (ecx r) \<Longrightarrow> refused k (sys_getcmdline r k)"
  "\<not> syscall_validate_ptr (edx r) (take_bit 16 (esi r)) \<Longrightarrow> refused k (sys_netsend r k)"
  "\<not> syscall_validate_ptr (ecx r) (take_bit 16 (edx r)) \<Longrightarrow> refused k (sys_netrecv r k)"
  "\<not> syscall_validate_ptr (ebx r) 1 \<Longrightarrow> refused k (sys_chmod fs r k)"
  "\<not> syscall_validate_ptr (ebx r) 1 \<Longrightarrow> refused k (sys_path_op op fs r k)"
  "\<not> syscall_validate_ptr (ebx r) (ecx r) \<Longrightarrow> refused k (sys_ps r k)"
  "\<not> syscall_validate_ptr (ecx r) 128 \<Longrightarrow> refused k (sys_getdents fs r k)"
  by (simp_all add: sys_write_def sys_read_def sys_open_def sys_exec_def sys_getdents_def sys_getcmdline_def
    sys_netsend_def sys_netrecv_def sys_chmod_def sys_path_op_def sys_ps_def sys_waitpid_def Let_def ucast_ucast_16 refused_intros)

lemma handler_refused:
  "user_buffer r = Some (p, n) \<Longrightarrow> \<not> syscall_validate_ptr p n \<Longrightarrow> refused k (syscall_handler fs junk r k)"
  unfolding user_buffer_def
  by (auto simp: handler_dispatch sys_unlink_def sys_mkdir_def sys_create_def intro: calls_refused split: if_splits)

lemma exec_without_line:
  assumes "\<not> syscall_validate_ptr (ecx r) 1"
  shows "sys_exec fs junk r k = sys_exec fs junk (r\<lparr>ecx := 0\<rparr>) k"
proof -
  have s: "exec_start pr th ep ust (ecx r) k = exec_start pr th ep ust 0 k" for pr th ep ust and k :: "'a kernel"
    using assms by (simp add: exec_start_def Let_def)
  have l: "exec_load bs name (ecx r) k = exec_load bs name 0 k" for bs name and k :: "'a kernel"
    unfolding exec_load_def s by (rule refl)
  have e: "ebx (r\<lparr>ecx := 0\<rparr>) = ebx r" "ecx (r\<lparr>ecx := 0\<rparr>) = 0" by simp_all
  show ?thesis unfolding sys_exec_def l e by (rule refl)
qed

text \<open>
  C20. A system call whose user buffer fails the pointer check returns \<^verbatim>\<open>KERR_FAULT\<close>, which is -9,
  and has no other effect than a line on the serial port; a call with a number the kernel does not
  know returns \<^verbatim>\<open>KERR_NOSYS\<close>, which is -8, and has no effect at all. The one pointer that is not
  rejected is the second one of \<^verbatim>\<open>SYS_EXEC\<close>, to the command line: when it fails the check, the call
  does what it does without a command line.
\<close>

theorem syscall_rejects:
  "(user_buffer r = Some (p, n) \<and> \<not> syscall_validate_ptr p n \<longrightarrow>
      (\<exists>out. syscall_handler fs junk r k = Ret (- 9) (k\<lparr>kconsole := (kconsole k)\<lparr>serial_out := out\<rparr>\<rparr>))) \<and>
   (eax r \<notin> known_calls \<longrightarrow> syscall_handler fs junk r k = Ret (- 8) k) \<and>
   (eax r = 11 \<and> \<not> syscall_validate_ptr (ecx r) 1 \<longrightarrow>
      syscall_handler fs junk r k = syscall_handler fs junk (r\<lparr>ecx := 0\<rparr>) k)"
proof (intro conjI impI)
  assume "user_buffer r = Some (p, n) \<and> \<not> syscall_validate_ptr p n"
  then show "\<exists>out. syscall_handler fs junk r k = Ret (- 9) (k\<lparr>kconsole := (kconsole k)\<lparr>serial_out := out\<rparr>\<rparr>)"
    using handler_refused unfolding refused_def KERR_FAULT_def by blast
next
  assume "eax r \<notin> known_calls"
  then show "syscall_handler fs junk r k = Ret (- 8) k"
    by (simp add: syscall_handler_def Let_def known_calls_def SYS_REBOOT_def SYS_SHUTDOWN_def SYS_EXIT_def SYS_WRITE_def
        SYS_READ_def SYS_OPEN_def SYS_CLOSE_def KERR_NOSYS_def)
next
  assume "eax r = 11 \<and> \<not> syscall_validate_ptr (ecx r) 1"
  then show "syscall_handler fs junk r k = syscall_handler fs junk (r\<lparr>ecx := 0\<rparr>) k"
    using exec_without_line [of r fs junk k] by (simp add: handler_dispatch(5))
qed

theorem syscall_rejects_witness:
  "\<forall>fs junk. (\<exists>out. syscall_handler fs junk (zero_registers\<lparr>eax := 3, ecx := 0xC0100000, edx := 4\<rparr>) example_kernel =
       Ret (- 9) (example_kernel\<lparr>kconsole := (kconsole example_kernel)\<lparr>serial_out := out\<rparr>\<rparr>)) \<and>
     syscall_handler fs junk (zero_registers\<lparr>eax := 200\<rparr>) example_kernel = Ret (- 8) example_kernel \<and>
     syscall_handler fs junk (zero_registers\<lparr>eax := 11, ebx := 0x400000, ecx := 0xC0100000\<rparr>) example_kernel =
       syscall_handler fs junk (zero_registers\<lparr>eax := 11, ebx := 0x400000, ecx := 0\<rparr>) example_kernel"
  using syscall_rejects [of "zero_registers\<lparr>eax := 3, ecx := 0xC0100000, edx := 4\<rparr>" "0xC0100000" 4 _ _ example_kernel]
    syscall_rejects [of "zero_registers\<lparr>eax := 200\<rparr>" _ _ _ _ example_kernel]
    syscall_rejects [of "zero_registers\<lparr>eax := 11, ebx := 0x400000, ecx := 0xC0100000\<rparr>" _ _ _ _ example_kernel]
  by (simp add: user_buffer_def zero_registers_def known_calls_def syscall_validate_ptr_def USER_SPACE_MIN_def USER_SPACE_MAX_def)

subsection \<open>Starting a program from a process\<close>

lemma load_pages_kernel_directory: "load_pages n v s = Some s' \<Longrightarrow> kernel_directory (vms s') = kernel_directory (vms s)"
proof (induction n arbitrary: v s)
  case (Suc n)
  have "kernel_directory (vms t) = kernel_directory (vms s)" if "load_page v s = Some t" for t
    using that by (auto simp: load_page_def vmm_map_page_def Let_def split: prod.splits if_splits)
  then show ?case using Suc by (auto split: option.splits)
qed simp

lemma pe_load_directory:
  assumes "pe_load f target s = Some (Some r, s')"
  shows "current_directory (vms s') = kernel_directory (vms s')"
proof -
  obtain s1 s2 where "load_pages 4 USER_STACK_BASE (use_directory target s1) = Some s2"
      "s' = use_directory (kernel_directory (vms s1)) s2"
    using assms by (auto simp: pe_load_def vmm_get_kernel_directory_def split: if_splits option.splits prod.splits bool.splits)
  then show ?thesis using load_pages_kernel_directory by fastforce
qed

lemma exec_start_vm:
  assumes "exec_start proc thread ep ust cmd k = Ret v k'"
  shows "kvm k' = kvm k \<and> (cmd \<noteq> 0 \<and> syscall_validate_ptr cmd 1 \<longrightarrow> mmu (kvm k) cmd \<noteq> None)"
proof -
  have a: "vm p = vm s" if "scheduler_add_thread thread s = Some p" for s p
    using that by (auto simp: scheduler_add_thread_def upd_thread_def Let_def bind_eq_Some_conv split: if_splits)
  have n: "127 = Suc 126" by simp
  show ?thesis
    using assms unfolding exec_start_def Let_def n user_strn.simps
    by (auto simp: kvm_def upd_proc_def dest!: a split: if_splits option.splits)
qed

text \<open>
  A program started by \<^verbatim>\<open>SYS_EXEC\<close> leaves the kernel's page directory in use, not the caller's, and
  with a command line the call can only succeed if the kernel's directory maps the caller's pointer.
\<close>

lemma sys_exec_directory:
  assumes "sys_exec fs junk r k = Ret KERR_OK k'"
  shows "current_directory (kvm k') = kernel_directory (kvm k') \<and>
    (ecx r \<noteq> 0 \<and> syscall_validate_ptr (ecx r) 1 \<longrightarrow> mmu (kvm k') (ecx r) \<noteq> None)"
proof -
  have ne: "KERR_FAULT \<noteq> KERR_OK" "KERR_NOTFOUND \<noteq> KERR_OK" "KERR_NOMEM \<noteq> KERR_OK" "KERR_IO \<noteq> KERR_OK"
    by (simp_all add: KERR_FAULT_def KERR_NOTFOUND_def KERR_NOMEM_def KERR_IO_def KERR_OK_def)
  obtain f name k1 a k2 where e: "exec_load f name (ecx r) k1 = Ret KERR_OK k2" "k' = kernel_kfree a k2"
    using assms ne unfolding sys_exec_def Let_def bad_pointer_def
    by (auto simp: free_after_def split: if_splits option.splits prod.splits sys_result.splits)
  have "\<exists>f' t s i ep ust pr th q. pe_load f' t s = Some (Some (ep, ust), i) \<and>
      exec_start pr th ep ust (ecx r) (with_img i (k1\<lparr>procs := q\<rparr>)) = Ret KERR_OK k2"
    using e(1) ne unfolding exec_load_def Let_def
    by (auto split: if_splits option.splits prod.splits; blast)
  then obtain f' t s i ep ust pr th q where p: "pe_load f' t s = Some (Some (ep, ust), i)"
      "exec_start pr th ep ust (ecx r) (with_img i (k1\<lparr>procs := q\<rparr>)) = Ret KERR_OK k2" by blast
  have "kvm (with_img i (k1\<lparr>procs := q\<rparr>)) = vms i" by (simp add: kvm_def with_img_def)
  then have "kvm k2 = vms i \<and> (ecx r \<noteq> 0 \<and> syscall_validate_ptr (ecx r) 1 \<longrightarrow> mmu (vms i) (ecx r) \<noteq> None)"
    using exec_start_vm [OF p(2)] by simp
  moreover have "kvm k' = kvm k2" by (simp add: e(2) kernel_kfree_def kvm_def pfree_def)
  ultimately show ?thesis using pe_load_directory [OF p(1)] by simp
qed

end
