(* ===== verification/Khazar_User.thy ===== *)
theory Khazar_User
  imports Khazar_Syscall "HOL-Library.Monad_Syntax"
begin

text \<open>
  User programs: the C library, \<^verbatim>\<open>userland/libc\<close>, and the programs of \<^verbatim>\<open>userland/bin\<close>. A program
  sees the kernel through \<open>user_calls\<close>, the system calls with the contents of the buffers passed by
  value; \<open>kernel_calls\<close> are the calls of the kernel model, through a buffer in the memory of the
  process and \<^verbatim>\<open>int 0x80\<close>. The state of a program is that of the system and the offset of its
  heap. \<open>None\<close> is a program that does not get further: a fault, an access outside an object, a call
  that does not return, a trap. The type \<^verbatim>\<open>int\<close> is a word of 32 bits, whose arithmetic wraps.
\<close>

section \<open>Strings of the library\<close>

partial_function (option) libc_strlen_loop :: "mem \<Rightarrow> addr \<Rightarrow> u32 \<Rightarrow> u32 option" where
  "libc_strlen_loop m p len = (if m (p + len) \<noteq> 0 then libc_strlen_loop m p (len + 1) else Some len)"

definition libc_strlen :: "mem \<Rightarrow> addr \<Rightarrow> u32 option" where "libc_strlen m p = libc_strlen_loop m p 0"

partial_function (option) libc_strcpy :: "addr \<Rightarrow> addr \<Rightarrow> mem \<Rightarrow> mem option" where
  "libc_strcpy d src m =
     (if m src \<noteq> 0 then libc_strcpy (d + 1) (src + 1) (m(d := m src)) else Some (m(d := m src)))"

partial_function (option) libc_strcmp :: "mem \<Rightarrow> addr \<Rightarrow> addr \<Rightarrow> u32 option" where
  "libc_strcmp m s1 s2 =
     (if m s1 \<noteq> 0 \<and> m s1 = m s2 then libc_strcmp m (s1 + 1) (s2 + 1) else Some (byte_diff (m s1) (m s2)))"

fun libc_strncmp :: "mem \<Rightarrow> addr \<Rightarrow> addr \<Rightarrow> nat \<Rightarrow> u32" where
  "libc_strncmp m s1 s2 0 = 0"
| "libc_strncmp m s1 s2 (Suc n) =
     (if m s1 \<noteq> 0 \<and> m s2 \<noteq> 0
      then if m s1 \<noteq> m s2 then byte_diff (m s1) (m s2) else libc_strncmp m (s1 + 1) (s2 + 1) n
      else 0)"

fun libc_memset :: "addr \<Rightarrow> u32 \<Rightarrow> nat \<Rightarrow> mem \<Rightarrow> mem" where
  "libc_memset p c 0 m = m"
| "libc_memset p c (Suc n) m = libc_memset (p + 1) c n (m(p := ucast c))"

fun libc_memcpy :: "addr \<Rightarrow> addr \<Rightarrow> nat \<Rightarrow> mem \<Rightarrow> mem" where
  "libc_memcpy d s 0 m = m"
| "libc_memcpy d s (Suc n) m = libc_memcpy (d + 1) (s + 1) n (m(d := m s))"

section \<open>System calls\<close>

record dirent_t =
  d_ino :: u32
  d_off :: u32
  d_reclen :: u16
  d_mode :: u16
  d_type :: u8
  d_name :: string

record 's user_calls =
  c_write :: "u32 \<Rightarrow> u8 list \<Rightarrow> 's \<Rightarrow> (u32 \<times> 's) option"
  c_read :: "u32 \<Rightarrow> u32 \<Rightarrow> 's \<Rightarrow> ((u32 \<times> u8 list) \<times> 's) option"
  c_open :: "string \<Rightarrow> 's \<Rightarrow> (u32 \<times> 's) option"
  c_close :: "u32 \<Rightarrow> 's \<Rightarrow> (u32 \<times> 's) option"
  c_getdents :: "u32 \<Rightarrow> u32 \<Rightarrow> 's \<Rightarrow> ((u32 \<times> dirent_t) \<times> 's) option"
  c_getcmdline :: "u32 \<Rightarrow> 's \<Rightarrow> (u8 list \<times> 's) option"
  c_path :: "u32 \<Rightarrow> string \<Rightarrow> 's \<Rightarrow> (u32 \<times> 's) option"
  c_chmod :: "string \<Rightarrow> u32 \<Rightarrow> 's \<Rightarrow> (u32 \<times> 's) option"
  c_ps :: "u32 \<Rightarrow> 's \<Rightarrow> ((u32 \<times> u8 list) \<times> 's) option"
  c_waitpid :: "u32 \<Rightarrow> 's \<Rightarrow> ((u32 \<times> u8 list) \<times> 's) option"
  c_kill :: "u32 \<Rightarrow> u32 \<Rightarrow> 's \<Rightarrow> (u32 \<times> 's) option"
  c_exit :: "u32 \<Rightarrow> 's \<Rightarrow> 's option"

record 's user_state =
  usys :: 's
  heap_offset :: u32

definition call :: "('s \<Rightarrow> ('a \<times> 's) option) \<Rightarrow> 's user_state \<Rightarrow> ('a \<times> 's user_state) option" where
  "call f u = map_option (\<lambda>(r, s). (r, u\<lparr>usys := s\<rparr>)) (f (usys u))"

subsection \<open>The calls of the kernel\<close>

definition syscall3 ::
    "'w fs_ops \<Rightarrow> (nat \<Rightarrow> u8) \<Rightarrow> u32 \<Rightarrow> u32 \<Rightarrow> u32 \<Rightarrow> u32 \<Rightarrow> 'w kernel \<Rightarrow> (u32 \<times> 'w kernel) option" where
  "syscall3 fs junk num a1 a2 a3 k =
     (case syscall_handler fs junk (zero_registers\<lparr>eax := num, ebx := a1, ecx := a2, edx := a3\<rparr>) k of
        Ret r k' \<Rightarrow> Some (r, k') | _ \<Rightarrow> None)"

definition decode_dirent :: "u8 list \<Rightarrow> dirent_t" where
  "decode_dirent b =
     \<lparr>d_ino = le32 b 0, d_off = le32 b 4, d_reclen = le16 b 8, d_mode = le16 b 10, d_type = b ! 12,
      d_name = map (\<lambda>c. char_of (unat c)) (takeWhile (\<lambda>c. c \<noteq> 0) (drop 13 b))\<rparr>"

definition put_string :: "addr \<Rightarrow> string \<Rightarrow> 'w kernel \<Rightarrow> 'w kernel option" where
  "put_string buf t k = user_write buf (map of_char t @ [0]) k"

definition got :: "addr \<Rightarrow> nat \<Rightarrow> u32 \<times> 'w kernel \<Rightarrow> ((u32 \<times> u8 list) \<times> 'w kernel) option" where
  "got buf n r = map_option (\<lambda>bs. ((fst r, bs), snd r)) (user_read buf n (snd r))"

definition kernel_calls :: "'w fs_ops \<Rightarrow> (nat \<Rightarrow> u8) \<Rightarrow> addr \<Rightarrow> 'w kernel user_calls" where
  "kernel_calls fs junk buf =
     (let sys = syscall3 fs junk
      in \<lparr>c_write = (\<lambda>fd bs k. do { k1 \<leftarrow> user_write buf bs k; sys SYS_WRITE fd buf (of_nat (length bs)) k1 }),
          c_read = (\<lambda>fd n k. do { (r, k1) \<leftarrow> sys SYS_READ fd buf n k;
                                  got buf (if sint r > 0 then unat r else 0) (r, k1) }),
          c_open = (\<lambda>name k. do { k1 \<leftarrow> put_string buf name k; sys SYS_OPEN buf 0 0 k1 }),
          c_close = (\<lambda>fd k. sys SYS_CLOSE fd 0 0 k),
          c_getdents = (\<lambda>fd i k. do { (r, k1) \<leftarrow> sys 78 fd buf i k;
                                      ((r', b), k2) \<leftarrow> got buf 141 (r, k1); Some ((r', decode_dirent b), k2) }),
          c_getcmdline = (\<lambda>n k. do { k0 \<leftarrow> user_write buf (replicate (unat n) 0) k;
                                     (r, k1) \<leftarrow> sys 12 buf n 0 k0;
                                     ((_, b), k2) \<leftarrow> got buf (unat n) (r, k1); Some (b, k2) }),
          c_path = (\<lambda>num path k. do { k1 \<leftarrow> put_string buf path k; sys num buf 0 0 k1 }),
          c_chmod = (\<lambda>path mode k. do { k1 \<leftarrow> put_string buf path k; sys 15 buf mode 0 k1 }),
          c_ps = (\<lambda>n k. do { k0 \<leftarrow> user_write buf [0] k; (r, k1) \<leftarrow> sys 19 buf n 0 k0; got buf (unat n) (r, k1) }),
          c_waitpid = (\<lambda>procid k. do { (r, k1) \<leftarrow> sys 7 procid buf 0 k; got buf 4 (r, k1) }),
          c_kill = (\<lambda>procid sig k. sys 37 procid sig 0 k),
          c_exit = (\<lambda>status k. case syscall_handler fs junk (zero_registers\<lparr>eax := SYS_EXIT, ebx := status\<rparr>) k of
                                 Exited k' \<Rightarrow> Some k' | _ \<Rightarrow> None)\<rparr>)"

section \<open>The library\<close>

subsection \<open>Output\<close>

definition libc_puts :: "'s user_calls \<Rightarrow> string \<Rightarrow> 's user_state \<Rightarrow> (u32 \<times> 's user_state) option" where
  "libc_puts c t = call (c_write c 1 (map of_char t))"

fun puts_each :: "'s user_calls \<Rightarrow> string \<Rightarrow> 's user_state \<Rightarrow> 's user_state option" where
  "puts_each c [] u = Some u"
| "puts_each c (ch # ct) u = do { (_, u1) \<leftarrow> libc_puts c [ch] u; puts_each c ct u1 }"

definition digit_char :: "nat \<Rightarrow> char" where
  "digit_char r = (if r < 10 then char_of (48 + r) else char_of (97 + (r - 10)))"

definition print_uint :: "'s user_calls \<Rightarrow> u32 \<Rightarrow> nat \<Rightarrow> 's user_state \<Rightarrow> 's user_state option" where
  "print_uint c v base u =
     (if v = 0 then map_option snd (libc_puts c ''0'' u)
      else puts_each c (map digit_char (rev (uint_digits base (unat v)))) u)"

definition print_int :: "'s user_calls \<Rightarrow> u32 \<Rightarrow> 's user_state \<Rightarrow> 's user_state option" where
  "print_int c v u =
     (if sint v < 0 then do { (_, u1) \<leftarrow> libc_puts c ''-'' u; print_uint c (- v) 10 u1 }
      else print_uint c v 10 u)"

definition print_conversion ::
    "'s user_calls \<Rightarrow> char \<Rightarrow> fmt_arg list \<Rightarrow> 's user_state \<Rightarrow> (fmt_arg list \<times> 's user_state) option" where
  "print_conversion c d args u =
     (if d = CHR ''d'' then
        (case args of Arg32 n # as \<Rightarrow> map_option (Pair as) (print_int c n u) | _ \<Rightarrow> None)
      else if d = CHR ''x'' then
        (case args of Arg32 n # as \<Rightarrow> map_option (Pair as) (print_uint c n 16 u) | _ \<Rightarrow> None)
      else if d = CHR ''s'' then
        (case args of ArgStr (Some t) # as \<Rightarrow> map_option (\<lambda>(_, u1). (as, u1)) (libc_puts c t u) | _ \<Rightarrow> None)
      else if d = CHR ''c'' then
        (case args of
           Arg32 n # as \<Rightarrow>
             map_option (\<lambda>(_, u1). (as, u1))
               (libc_puts c (if unat n mod 256 = 0 then [] else [char_of (unat n mod 256)]) u)
         | _ \<Rightarrow> None)
      else if d = CHR ''%'' then map_option (\<lambda>(_, u1). (args, u1)) (libc_puts c ''%'' u)
      else Some (args, u))"

fun libc_printf :: "'s user_calls \<Rightarrow> string \<Rightarrow> fmt_arg list \<Rightarrow> 's user_state \<Rightarrow> 's user_state option" where
  "libc_printf c [] args u = Some u"
| "libc_printf c [ch] args u = (if ch = CHR ''%'' then None else map_option snd (libc_puts c [ch] u))"
| "libc_printf c (ch # d # f) args u =
     (if ch = CHR ''%''
      then do { (as, u1) \<leftarrow> print_conversion c d args u; libc_printf c f as u1 }
      else do { (_, u1) \<leftarrow> libc_puts c [ch] u; libc_printf c (d # f) args u1 })"

definition libc_fopen :: "'s user_calls \<Rightarrow> string \<Rightarrow> 's user_state \<Rightarrow> (u32 \<times> 's user_state) option" where
  "libc_fopen c name = call (c_open c name)"
definition libc_fclose :: "'s user_calls \<Rightarrow> u32 \<Rightarrow> 's user_state \<Rightarrow> (u32 \<times> 's user_state) option" where
  "libc_fclose c fd = call (c_close c fd)"
definition libc_fread :: "'s user_calls \<Rightarrow> u32 \<Rightarrow> u32 \<Rightarrow> 's user_state \<Rightarrow> ((u32 \<times> u8 list) \<times> 's user_state) option" where
  "libc_fread c fd n = call (c_read c fd n)"
definition libc_fwrite :: "'s user_calls \<Rightarrow> u32 \<Rightarrow> u8 list \<Rightarrow> 's user_state \<Rightarrow> (u32 \<times> 's user_state) option" where
  "libc_fwrite c fd bs = call (c_write c fd bs)"

subsection \<open>Numbers, memory, processes\<close>

fun atoi_loop :: "u32 \<Rightarrow> string \<Rightarrow> u32" where
  "atoi_loop res [] = res"
| "atoi_loop res (ch # ct) = (if is_digit ch then atoi_loop (res * 10 + of_char ch - 48) ct else res)"

definition atoi :: "string \<Rightarrow> u32" where
  "atoi t =
     (case t of
        [] \<Rightarrow> 0
      | ch # ct \<Rightarrow> if ch = CHR ''-'' then - atoi_loop 0 ct else if ch = CHR ''+'' then atoi_loop 0 ct else atoi_loop 0 t)"

definition USER_HEAP_SIZE :: u32 where "USER_HEAP_SIZE = 64 * 1024"

text \<open>A block is its offset in \<^verbatim>\<open>user_heap\<close>.\<close>

definition libc_malloc :: "u32 \<Rightarrow> 's user_state \<Rightarrow> u32 option \<times> 's user_state" where
  "libc_malloc sz u =
     (if sz = 0 \<or> heap_offset u + sz > USER_HEAP_SIZE then (None, u)
      else (Some (heap_offset u), u\<lparr>heap_offset := heap_offset u + sz\<rparr>))"

definition libc_free :: "u32 \<Rightarrow> 's user_state \<Rightarrow> 's user_state" where "libc_free p u = u"

text \<open>The result of \<^verbatim>\<open>waitpid\<close> comes with the four bytes of \<^verbatim>\<open>*status\<close>.\<close>

definition libc_waitpid :: "'s user_calls \<Rightarrow> u32 \<Rightarrow> 's user_state \<Rightarrow> ((u32 \<times> u8 list) \<times> 's user_state) option" where
  "libc_waitpid c procid = call (c_waitpid c procid)"
definition libc_kill :: "'s user_calls \<Rightarrow> u32 \<Rightarrow> u32 \<Rightarrow> 's user_state \<Rightarrow> (u32 \<times> 's user_state) option" where
  "libc_kill c procid sig = call (c_kill c procid sig)"
definition libc_exit :: "'s user_calls \<Rightarrow> u32 \<Rightarrow> 's user_state \<Rightarrow> 's option" where
  "libc_exit c status u = c_exit c status (usys u)"

subsection \<open>Directories\<close>

record dir_t =
  dir_fd :: u32
  dir_index :: u32
  dir_block :: u32

definition SIZEOF_DIR :: u32 where "SIZEOF_DIR = 152"

definition opendir :: "'s user_calls \<Rightarrow> string \<Rightarrow> 's user_state \<Rightarrow> (dir_t option \<times> 's user_state) option" where
  "opendir c name u =
     do { (fd, u1) \<leftarrow> call (c_open c name) u;
          if sint fd < 0 then Some (None, u1)
          else case libc_malloc SIZEOF_DIR u1 of
                 (None, u2) \<Rightarrow> do { (_, u3) \<leftarrow> call (c_close c fd) u2; Some (None, u3) }
               | (Some p, u2) \<Rightarrow> Some (Some \<lparr>dir_fd = fd, dir_index = 0, dir_block = p\<rparr>, u2) }"

definition readdir ::
    "'s user_calls \<Rightarrow> dir_t \<Rightarrow> 's user_state \<Rightarrow> ((dirent_t option \<times> dir_t) \<times> 's user_state) option" where
  "readdir c d u =
     do { ((ret, e), u1) \<leftarrow> call (c_getdents c (dir_fd d) (dir_index d)) u;
          Some (if ret = 1 then (Some e, d\<lparr>dir_index := dir_index d + 1\<rparr>) else (None, d), u1) }"

definition closedir :: "'s user_calls \<Rightarrow> dir_t \<Rightarrow> 's user_state \<Rightarrow> (u32 \<times> 's user_state) option" where
  "closedir c d u = do { (ret, u1) \<leftarrow> call (c_close c (dir_fd d)) u; Some (ret, libc_free (dir_block d) u1) }"

subsection \<open>Start\<close>

text \<open>
  The arguments, at most 16. The zero byte behind a token is set only after the next check, so a
  16th argument runs to the end of the line.
\<close>

function start_args :: "nat \<Rightarrow> string \<Rightarrow> string list" where
  "start_args argc p =
     (let q = dropWhile (\<lambda>ch. ch = CHR '' '') p
      in if q = [] then []
         else if argc + 1 \<ge> 16 then [q]
         else takeWhile (\<lambda>ch. ch \<noteq> CHR '' '') q # start_args (argc + 1) (drop 1 (dropWhile (\<lambda>ch. ch \<noteq> CHR '' '') q)))"
  by pat_completeness auto
termination
  by (relation "measure (\<lambda>(n, _). 16 - n)") auto

declare start_args.simps [simp del]

definition start_c ::
    "'s user_calls \<Rightarrow> (string list \<Rightarrow> 's user_state \<Rightarrow> (u32 \<times> 's user_state) option) \<Rightarrow> 's user_state \<Rightarrow> 's option" where
  "start_c c main u =
     do { (cmd, u1) \<leftarrow> call (c_getcmdline c 128) u;
          (ret, u2) \<leftarrow> main (start_args 0 (map (\<lambda>b. char_of (unat b)) (takeWhile (\<lambda>b. b \<noteq> 0) cmd))) u1;
          libc_exit c ret u2 }"

section \<open>The programs\<close>

abbreviation nl :: string where "nl \<equiv> [char_of (10 :: nat)]"

definition main_pwd :: "'s user_calls \<Rightarrow> string list \<Rightarrow> 's user_state \<Rightarrow> (u32 \<times> 's user_state) option" where
  "main_pwd c argv u = do { u1 \<leftarrow> libc_printf c (''/'' @ nl) [] u; Some (0, u1) }"

fun echo_words :: "'s user_calls \<Rightarrow> string list \<Rightarrow> 's user_state \<Rightarrow> 's user_state option" where
  "echo_words c [] u = Some u"
| "echo_words c [w] u = libc_printf c ''%s'' [ArgStr (Some w)] u"
| "echo_words c (w # ws) u =
     do { u1 \<leftarrow> libc_printf c ''%s'' [ArgStr (Some w)] u; u2 \<leftarrow> libc_printf c '' '' [] u1; echo_words c ws u2 }"

definition main_echo :: "'s user_calls \<Rightarrow> string list \<Rightarrow> 's user_state \<Rightarrow> (u32 \<times> 's user_state) option" where
  "main_echo c argv u =
     do { u1 \<leftarrow> (if length argv > 1 then echo_words c (tl argv) u
                 else libc_printf c ''Hello from Khazar OS Userland (Ring 3)!'' [] u);
          u2 \<leftarrow> libc_printf c nl [] u1;
          Some (0, u2) }"

text \<open>\<^verbatim>\<open>a / b\<close> of two signed integers; dividing the least integer by -1 traps.\<close>

definition int_quotient :: "u32 \<Rightarrow> u32 \<Rightarrow> u32 option" where
  "int_quotient a b =
     (if sint a = - (2 ^ 31) \<and> sint b = - 1 then None
      else Some (word_of_int (sgn (sint a) * sgn (sint b) * (\<bar>sint a\<bar> div \<bar>sint b\<bar>))))"

definition calc_op :: "char \<Rightarrow> u32 \<Rightarrow> u32 \<Rightarrow> u32 option" where
  "calc_op op a b =
     (if op = CHR ''+'' then Some (a + b) else if op = CHR ''-'' then Some (a - b)
      else if op = CHR ''*'' then Some (a * b) else int_quotient a b)"

definition first_char :: "string \<Rightarrow> char" where
  "first_char t = (case t of [] \<Rightarrow> char_of (0 :: nat) | ch # _ \<Rightarrow> ch)"

definition main_calc :: "'s user_calls \<Rightarrow> string list \<Rightarrow> 's user_state \<Rightarrow> (u32 \<times> 's user_state) option" where
  "main_calc c argv u =
     (if length argv \<noteq> 4
      then do { u1 \<leftarrow> libc_printf c (''Usage: calc <num1> <op> <num2>'' @ nl) [] u;
                u2 \<leftarrow> libc_printf c (''Example: calc 5 + 3'' @ nl) [] u1;
                u3 \<leftarrow> libc_printf c (''Operators: +, -, *, /'' @ nl) [] u2;
                Some (1, u3) }
      else
        let a = atoi (argv ! 1); op = first_char (argv ! 2); b = atoi (argv ! 3)
        in if op = CHR ''/'' \<and> b = 0
           then do { u1 \<leftarrow> libc_printf c (''Error: Division by zero'' @ nl) [] u; Some (1, u1) }
           else if op \<notin> set ''+-*/''
           then do { u1 \<leftarrow> libc_printf c (''Error: Unknown operator '' @ [char_of (39 :: nat)] @ ''%c'' @ [char_of (39 :: nat)] @ nl)
                             [Arg32 (of_char op)] u;
                     Some (1, u1) }
           else do { res \<leftarrow> calc_op op a b;
                     u1 \<leftarrow> libc_printf c (''%d %c %d = %d'' @ nl) [Arg32 a, Arg32 (of_char op), Arg32 b, Arg32 res] u;
                     Some (0, u1) })"

abbreviation text_of :: "u8 list \<Rightarrow> string" where
  "text_of bs \<equiv> map (\<lambda>b. char_of (unat b)) (takeWhile (\<lambda>b. b \<noteq> 0) bs)"

definition main_cat :: "'s user_calls \<Rightarrow> string list \<Rightarrow> 's user_state \<Rightarrow> (u32 \<times> 's user_state) option" where
  "main_cat c argv u =
     (if length argv < 2 then do { u1 \<leftarrow> libc_printf c (''Usage: cat <filename>'' @ nl) [] u; Some (1, u1) }
      else
        do { (fd, u1) \<leftarrow> libc_fopen c (argv ! 1) u;
             if sint fd < 0
             then do { u2 \<leftarrow> libc_printf c (''cat: %s: No such file or directory'' @ nl) [ArgStr (Some (argv ! 1))] u1; Some (1, u2) }
             else do { ((n, bs), u2) \<leftarrow> libc_fread c fd 2047 u1;
                       u3 \<leftarrow> (if sint n > 0 then libc_printf c ''%s'' [ArgStr (Some (text_of bs))] u2 else Some u2);
                       (_, u4) \<leftarrow> libc_fclose c fd u3;
                       u5 \<leftarrow> libc_printf c nl [] u4;
                       Some (0, u5) } })"

text \<open>A program of one call on a path: its usage, the arguments it needs and its message.\<close>

definition quoted :: "string \<Rightarrow> string" where
  "quoted msg = msg @ [char_of (39 :: nat)] @ ''%s'' @ [char_of (39 :: nat)] @ nl"

definition path_program ::
    "'s user_calls \<Rightarrow> nat \<Rightarrow> string \<Rightarrow> string \<Rightarrow> (string list \<Rightarrow> 's \<Rightarrow> (u32 \<times> 's) option) \<Rightarrow> string list \<Rightarrow>
     's user_state \<Rightarrow> (u32 \<times> 's user_state) option" where
  "path_program c n usage msg f argv u =
     (if length argv < n then do { u1 \<leftarrow> libc_printf c (usage @ nl) [] u; Some (1, u1) }
      else do { (ret, u1) \<leftarrow> call (f argv) u;
                if sint ret < 0
                then do { u2 \<leftarrow> libc_printf c (quoted msg) [ArgStr (Some (argv ! (n - 1)))] u1; Some (1, u2) }
                else Some (0, u1) })"

definition main_chmod :: "'s user_calls \<Rightarrow> string list \<Rightarrow> 's user_state \<Rightarrow> (u32 \<times> 's user_state) option" where
  "main_chmod c = path_program c 3 ''Usage: chmod <mode> <file>'' ''chmod: cannot access ''
     (\<lambda>argv. c_chmod c (argv ! 2) (atoi (argv ! 1)))"

definition main_mkdir :: "'s user_calls \<Rightarrow> string list \<Rightarrow> 's user_state \<Rightarrow> (u32 \<times> 's user_state) option" where
  "main_mkdir c = path_program c 2 ''Usage: mkdir <dir>'' ''mkdir: cannot create directory ''
     (\<lambda>argv. c_path c 17 (argv ! 1))"

definition main_rm :: "'s user_calls \<Rightarrow> string list \<Rightarrow> 's user_state \<Rightarrow> (u32 \<times> 's user_state) option" where
  "main_rm c = path_program c 2 ''Usage: rm <file>'' ''rm: cannot remove '' (\<lambda>argv. c_path c 16 (argv ! 1))"

definition main_touch :: "'s user_calls \<Rightarrow> string list \<Rightarrow> 's user_state \<Rightarrow> (u32 \<times> 's user_state) option" where
  "main_touch c = path_program c 2 ''Usage: touch <file>'' ''touch: cannot touch '' (\<lambda>argv. c_path c 18 (argv ! 1))"

definition main_ps :: "'s user_calls \<Rightarrow> string list \<Rightarrow> 's user_state \<Rightarrow> (u32 \<times> 's user_state) option" where
  "main_ps c argv u =
     do { ((ret, b), u1) \<leftarrow> call (c_ps c 1024) u;
          if sint ret < 0 then do { u2 \<leftarrow> libc_printf c (''ps: failed to read process list'' @ nl) [] u1; Some (1, u2) }
          else do { u2 \<leftarrow> libc_printf c (''  PID CMD'' @ nl) [] u1;
                    u3 \<leftarrow> libc_printf c ''%s'' [ArgStr (Some (text_of b))] u2;
                    Some (0, u3) } }"

definition mode_to_string :: "u16 \<Rightarrow> bool \<Rightarrow> string" where
  "mode_to_string mode isdir =
     (if isdir then CHR ''d'' else CHR ''-'') #
     map (\<lambda>(bit_mask, ch). if mode AND bit_mask \<noteq> 0 then ch else CHR ''-'')
       [(0x100, CHR ''r''), (0x080, CHR ''w''), (0x040, CHR ''x''), (0x020, CHR ''r''), (0x010, CHR ''w''),
        (0x008, CHR ''x''), (0x004, CHR ''r''), (0x002, CHR ''w''), (0x001, CHR ''x'')]"

partial_function (option) ls_entries :: "'s user_calls \<Rightarrow> dir_t \<Rightarrow> 's user_state \<Rightarrow> (dir_t \<times> 's user_state) option" where
  "ls_entries c d u =
     (case readdir c d u of
        None \<Rightarrow> None
      | Some ((None, d1), u1) \<Rightarrow> Some (d1, u1)
      | Some ((Some e, d1), u1) \<Rightarrow>
          Option.bind (libc_printf c (''%s  %s  %d bytes'' @ nl)
             [ArgStr (Some (mode_to_string (d_mode e) (d_type e = 2))), ArgStr (Some (d_name e)), Arg32 (d_off e)] u1)
            (\<lambda>u2. ls_entries c d1 u2))"

definition main_ls :: "'s user_calls \<Rightarrow> string list \<Rightarrow> 's user_state \<Rightarrow> (u32 \<times> 's user_state) option" where
  "main_ls c argv u =
     (let path = (if length argv > 1 then argv ! 1 else ''/'')
      in do { (dir, u1) \<leftarrow> opendir c path u;
              case dir of
                None \<Rightarrow> do { u2 \<leftarrow> libc_printf c (quoted ''Error: Cannot open directory '') [ArgStr (Some path)] u1; Some (1, u2) }
              | Some d \<Rightarrow> do { (d1, u2) \<leftarrow> ls_entries c d u1; (_, u3) \<leftarrow> closedir c d1 u2; Some (0, u3) } })"

fun print_lines :: "'s user_calls \<Rightarrow> string list \<Rightarrow> 's user_state \<Rightarrow> 's user_state option" where
  "print_lines c [] u = Some u"
| "print_lines c (t # ts) u = do { u1 \<leftarrow> libc_printf c (t @ nl) [] u; print_lines c ts u1 }"

definition main_sysinfo :: "'s user_calls \<Rightarrow> string list \<Rightarrow> 's user_state \<Rightarrow> (u32 \<times> 's user_state) option" where
  "main_sysinfo c argv u =
     do { u1 \<leftarrow> print_lines c [''========================================'', ''          Khazar OS Sysinfo             '',
                 ''========================================'', ''OS Version: Khazar OS v0.2.0'',
                 ''Architecture: x86 (32-bit Protected Mode)'', ''Kernel: Monolithic, Custom'',
                 ''Filesystem: FAT32 over ATA/LBA28 PIO'', ''GUI: VBE VESA Framebuffer @ 1024x768x32''] u;
          (fd, u2) \<leftarrow> libc_fopen c ''/dev/netinfo'' u1;
          u3 \<leftarrow> (if sint fd \<ge> 3
                 then do { ((n, bs), u3) \<leftarrow> libc_fread c fd 127 u2;
                           u4 \<leftarrow> (if sint n > 0 then libc_printf c (''Network: %s'' @ nl) [ArgStr (Some (text_of bs))] u3
                                  else libc_printf c (''Network: None'' @ nl) [] u3);
                           (_, u5) \<leftarrow> libc_fclose c fd u4;
                           Some u5 }
                 else libc_printf c (''Network: None (Not active)'' @ nl) [] u2);
          u4 \<leftarrow> print_lines c [''Userland: Custom libc, PE binaries'', ''========================================''] u3;
          Some (0, u4) }"

section \<open>The library and the kernel's string functions\<close>

lemma unat_pred_less:
  fixes x :: u32
  assumes "x \<noteq> 0" shows "unat (x - 1) < n \<longleftrightarrow> unat x < Suc n"
  using assms by (simp add: unat_minus_one) (metis Suc_pred less_Suc_eq_0_disj not_less_eq unat_gt_0 word_gt_0)

lemma libc_memset_bytes:
  "libc_memset p c n m b = (if unat (b - p) < n then ucast c else m b)"
proof (induction n arbitrary: p m)
  case (Suc n)
  show ?case
  proof (cases "b = p")
    case False
    then have "unat (b - (p + 1)) < n \<longleftrightarrow> unat (b - p) < Suc n" using unat_pred_less [of "b - p" n] by (simp add: diff_diff_eq)
    then show ?thesis using Suc False by simp
  qed (use Suc in simp)
qed simp

text \<open>The byte loop of the library and the word loop of the kernel set the same memory.\<close>

theorem libc_memset_kernel: "libc_memset dest c (unat n) m = memset dest c n m"
  by (rule ext) (simp add: libc_memset_bytes memset_bytewise word_less_nat_alt)

lemma libc_memcpy_bytes:
  assumes "\<forall>i < n. \<forall>j < n. s + of_nat i \<noteq> d + of_nat j"
  shows "libc_memcpy d s n m b = (if unat (b - d) < n then m (s + (b - d)) else m b)"
  using assms
proof (induction n arbitrary: d s m)
  case (Suc n)
  have ne: "s + 1 + of_nat i \<noteq> d + 1 + of_nat j" if "i < n" "j < n" for i j
    using Suc.prems [rule_format, of "Suc i" "Suc j"] that by (simp add: add.assoc)
  have sd: "s + x \<noteq> d" if "unat x < Suc n" for x
    using Suc.prems [rule_format, of "unat x" 0] that by simp
  define m' where "m' = m(d := m s)"
  have m': "m' x = (if x = d then m s else m x)" for x by (simp add: m'_def)
  have ih: "libc_memcpy (d + 1) (s + 1) n m' b = (if unat (b - (d + 1)) < n then m' (s + 1 + (b - (d + 1))) else m' b)"
    by (rule Suc.IH) (use ne in blast)
  have e: "s + 1 + (b - (d + 1)) = s + (b - d)" by simp
  have step: "libc_memcpy d s (Suc n) m b = libc_memcpy (d + 1) (s + 1) n m' b" by (simp add: m'_def)
  show ?case
  proof (cases "b = d")
    case False
    then have u: "unat (b - (d + 1)) < n \<longleftrightarrow> unat (b - d) < Suc n" using unat_pred_less [of "b - d" n] by (simp add: diff_diff_eq)
    show ?thesis unfolding step ih e u using False sd [of "b - d"] by (simp only: m' if_False split: if_split) blast
  next
    case True
    then show ?thesis unfolding step ih e by (simp add: m')
  qed
qed simp

text \<open>So do the two copies, when the regions do not overlap.\<close>

theorem libc_memcpy_kernel:
  assumes "\<forall>i < unat n. \<forall>j < unat n. src + of_nat i \<noteq> dest + of_nat j"
  shows "libc_memcpy dest src (unat n) m = memcpy dest src n m"
  by (rule ext) (simp add: libc_memcpy_bytes [OF assms] memcpy_bytewise [OF assms] word_less_nat_alt)

lemma libc_strlen_cstr: "cstr m (p + len) xs \<Longrightarrow> libc_strlen_loop m p len = Some (len + of_nat (length xs))"
proof (induction xs arbitrary: len)
  case (Cons x xs)
  then have "cstr m (p + (len + 1)) xs" by (simp add: add.assoc)
  then show ?case using Cons by (subst libc_strlen_loop.simps) (simp add: add.commute add.left_commute)
qed (simp add: libc_strlen_loop.simps)

lemma libc_strcmp_cstr:
  "\<lbrakk>cstr m s1 xs; cstr m s2 ys\<rbrakk> \<Longrightarrow> \<exists>r. libc_strcmp m s1 s2 = Some r \<and> sint r = byte_lex xs ys"
proof (induction xs ys arbitrary: s1 s2 rule: byte_lex.induct)
  case (4 x xs y ys)
  then show ?case by (subst libc_strcmp.simps) (auto simp: sint_byte_diff)
qed (subst libc_strcmp.simps; auto simp: sint_byte_diff)+

text \<open>
  \<^verbatim>\<open>strncmp\<close> of the library compares a string as equal to every string it is a prefix of, where
  the kernel's reports a difference.
\<close>

theorem libc_strncmp_prefix:
  assumes "cstr m s1 xs" "cstr m s2 (xs @ y # ys)" "length xs < n"
  shows "libc_strncmp m s1 s2 n = 0 \<and> strncmp_loop m s1 s2 n \<noteq> 0"
  using assms
proof (induction xs arbitrary: s1 s2 n)
  case Nil
  then obtain n' where n: "n = Suc n'" by (cases n) auto
  have "sint (byte_diff 0 y) \<noteq> 0" using Nil by (simp add: sint_byte_diff uint_0_iff)
  then show ?case using Nil n by auto
next
  case (Cons x xs)
  then obtain n' where n: "n = Suc n'" by (cases n) auto
  then show ?case using Cons by simp
qed

section \<open>The heap of a program\<close>

text \<open>
  As long as no size comes near 4 GB, each block lies in the 64 KB of the heap and behind all
  earlier ones; nothing is ever freed.
\<close>

theorem libc_malloc_bump:
  assumes "heap_offset u \<le> USER_HEAP_SIZE" "unat sz < 2 ^ 32 - 2 ^ 16" "libc_malloc sz u = (Some p, u')"
  shows "p = heap_offset u \<and> unat (heap_offset u') = unat p + unat sz \<and> heap_offset u' \<le> USER_HEAP_SIZE"
proof -
  have "unat (heap_offset u) \<le> 65536" using assms(1) by (simp add: USER_HEAP_SIZE_def word_le_nat_alt)
  then have "unat (heap_offset u + sz) = unat (heap_offset u) + unat sz"
    using assms(2) by (intro unat_plus_no_wrap) simp
  then show ?thesis using assms(3) by (auto simp: libc_malloc_def split: if_splits)
qed

text \<open>A size of almost 4 GB wraps in the check: the block is granted and the next one overlaps its predecessors.\<close>

theorem libc_malloc_wraps:
  assumes "heap_offset u = 16"
  shows "libc_malloc (- 8) u = (Some 16, u\<lparr>heap_offset := 8\<rparr>)"
  using assms by (simp add: libc_malloc_def USER_HEAP_SIZE_def)

section \<open>Numbers\<close>

definition decimal :: "int \<Rightarrow> string" where
  "decimal i = (if i < 0 then ''-'' else []) @
     (if i = 0 then ''0'' else map digit_char (rev (uint_digits 10 (nat \<bar>i\<bar>))))"

lemma digit_char_value:
  assumes "r < 10" shows "is_digit (digit_char r)" "of_char (digit_char r) = (48 + of_nat r :: u32)"
proof -
  have v: "(of_char (digit_char r) :: nat) = 48 + r" using assms by (simp add: digit_char_def of_char_of)
  then show "is_digit (digit_char r)" using assms by (simp add: is_digit_def)
  have "(of_char (digit_char r) :: u32) = of_nat (of_char (digit_char r))" by (rule of_nat_of_char [symmetric])
  then show "of_char (digit_char r) = (48 + of_nat r :: u32)" unfolding v by simp
qed

lemma atoi_loop_append:
  "list_all is_digit xs \<Longrightarrow> atoi_loop r (xs @ ys) = atoi_loop (atoi_loop r xs) ys"
  by (induction xs arbitrary: r) auto

lemma uint_digits_less: "2 \<le> base \<Longrightarrow> r \<in> set (uint_digits base n) \<Longrightarrow> r < base"
proof (induction base n rule: uint_digits.induct)
  case (1 base v)
  then show ?case by (subst (asm) (2) uint_digits.simps) (auto split: if_splits)
qed

lemma digits_ok: "list_all is_digit (map digit_char (rev (uint_digits 10 n)))"
  using uint_digits_less [of 10 _ n] digit_char_value(1) by (auto simp: list_all_iff)

lemma atoi_digits: "atoi_loop 0 (map digit_char (rev (uint_digits 10 n))) = of_nat n"
proof (induction "10 :: nat" n rule: uint_digits.induct)
  case (1 n)
  show ?case
  proof (cases "n = 0")
    case True
    then show ?thesis by (simp add: uint_digits.simps)
  next
    case False
    then have d: "uint_digits 10 n = n mod 10 # uint_digits 10 (n div 10)" by (subst uint_digits.simps) simp
    have "(of_nat n :: u32) = of_nat (n div 10 * 10 + n mod 10)" by simp
    also have "\<dots> = of_nat (n div 10) * 10 + of_nat (n mod 10)" by (simp only: of_nat_add of_nat_mult of_nat_numeral)
    finally show ?thesis
      using 1 False digit_char_value [of "n mod 10"] by (simp add: d atoi_loop_append [OF digits_ok])
  qed
qed

lemma is_digit_signs: "is_digit ch \<Longrightarrow> ch \<noteq> CHR ''-'' \<and> ch \<noteq> CHR ''+'' \<and> ch \<noteq> CHR '' ''"
  by (auto simp: is_digit_def)

text \<open>Reading a printed number gives it back, for every integer, the least one included.\<close>

theorem atoi_decimal: "atoi (decimal (sint n)) = n"
proof -
  let ?d = "map digit_char (rev (uint_digits 10 (nat \<bar>sint n\<bar>)))"
  have v: "atoi_loop 0 ?d = of_nat (nat \<bar>sint n\<bar>)" by (rule atoi_digits)
  have w: "(of_nat (nat (- sint n)) :: u32) = - n" if "sint n < 0"
  proof -
    have "(of_nat (nat (- sint n)) :: u32) = of_int (- sint n)" by (rule of_nat_nat) (use that in simp)
    then show ?thesis by simp
  qed
  have w2: "(of_nat (nat (sint n)) :: u32) = n" if "sint n \<ge> 0"
  proof -
    have "(of_nat (nat (sint n)) :: u32) = of_int (sint n)" by (rule of_nat_nat) (use that in simp)
    then show ?thesis by simp
  qed
  consider "sint n = 0" | "sint n < 0" | "sint n > 0" by linarith
  then show ?thesis
  proof cases
    case 1
    then have "n = 0" using w2 by simp
    then show ?thesis by (simp add: decimal_def atoi_def is_digit_def)
  next
    case 2
    then show ?thesis using v w by (simp add: decimal_def atoi_def)
  next
    case 3
    then have "uint_digits 10 (nat \<bar>sint n\<bar>) \<noteq> []" by (subst uint_digits.simps) simp
    then obtain ch r where d: "?d = ch # r" by (cases ?d) auto
    then have "is_digit ch" using digits_ok [of "nat \<bar>sint n\<bar>"] by simp
    then show ?thesis using v w2 3 d is_digit_signs [of ch] by (simp add: decimal_def atoi_def)
  qed
qed

section \<open>Programs and the console\<close>

text \<open>The text that \<^verbatim>\<open>printf\<close> stands for.\<close>

definition conversion_text :: "char \<Rightarrow> fmt_arg list \<Rightarrow> (string \<times> fmt_arg list) option" where
  "conversion_text d args =
     (if d = CHR ''d'' then (case args of Arg32 n # as \<Rightarrow> Some (decimal (sint n), as) | _ \<Rightarrow> None)
      else if d = CHR ''x'' then
        (case args of
           Arg32 n # as \<Rightarrow> Some (if n = 0 then ''0'' else map digit_char (rev (uint_digits 16 (unat n))), as)
         | _ \<Rightarrow> None)
      else if d = CHR ''s'' then (case args of ArgStr (Some t) # as \<Rightarrow> Some (t, as) | _ \<Rightarrow> None)
      else if d = CHR ''c'' then
        (case args of Arg32 n # as \<Rightarrow> Some (if unat n mod 256 = 0 then [] else [char_of (unat n mod 256)], as) | _ \<Rightarrow> None)
      else if d = CHR ''%'' then Some (''%'', args)
      else Some ([], args))"

fun libc_format :: "string \<Rightarrow> fmt_arg list \<Rightarrow> string option" where
  "libc_format [] args = Some []"
| "libc_format [ch] args = (if ch = CHR ''%'' then None else Some [ch])"
| "libc_format (ch # d # f) args =
     (if ch = CHR ''%''
      then do { (t, as) \<leftarrow> conversion_text d args; r \<leftarrow> libc_format f as; Some (t @ r) }
      else map_option (Cons ch) (libc_format (d # f) args))"

fun arg_ok :: "fmt_arg \<Rightarrow> bool" where
  "arg_ok (ArgStr (Some t)) \<longleftrightarrow> length t \<le> 2048"
| "arg_ok _ \<longleftrightarrow> True"

lemma terminal_write_append: "terminal_write (a @ b) s = terminal_write b (terminal_write a s)"
  by (simp add: terminal_write_def)

definition printed :: "('s \<Rightarrow> console) \<Rightarrow> ('s \<Rightarrow> bool) \<Rightarrow> string \<Rightarrow> 's user_state \<Rightarrow> 's user_state \<Rightarrow> bool" where
  "printed con ready t u u' \<longleftrightarrow>
     con (usys u') = terminal_write (map of_char t) (con (usys u)) \<and> ready (usys u') \<and> heap_offset u' = heap_offset u"

lemma printed_nothing: "ready (usys u) \<Longrightarrow> printed con ready [] u u"
  by (simp add: printed_def terminal_write_def)

lemma printed_more: "printed con ready t u u1 \<Longrightarrow> printed con ready t' u1 u2 \<Longrightarrow> printed con ready (t @ t') u u2"
  by (simp add: printed_def terminal_write_append)

lemma conversion_args:
  "conversion_text d args = Some (t, as) \<Longrightarrow> list_all arg_ok args \<Longrightarrow> list_all arg_ok as"
  by (auto simp: conversion_text_def split: if_splits list.splits fmt_arg.splits option.splits)

lemma unat_of_int_u32: "0 \<le> i \<Longrightarrow> i < 2 ^ 32 \<Longrightarrow> unat (of_int i :: u32) = nat i"
proof -
  assume i: "0 \<le> i" "i < 2 ^ 32"
  have "(of_int i :: u32) = of_nat (nat i)" using of_nat_nat [OF i(1), where 'a = "32 word"] by (rule sym)
  then show ?thesis using i by (simp only: unat_of_nat) (simp add: nat_less_iff)
qed

lemma abs_negative: "sint v < 0 \<Longrightarrow> nat \<bar>sint (v :: u32)\<bar> = unat (- v)"
proof -
  assume n: "sint v < 0"
  have "(of_int (- sint v) :: u32) = - v" by simp
  moreover have "- sint v < 2 ^ 32" using sint_ge [of v] by simp
  ultimately show ?thesis using unat_of_int_u32 [of "- sint v"] n by (simp only: abs_of_neg)
qed

lemma abs_nonnegative: "\<not> sint v < 0 \<Longrightarrow> nat \<bar>sint (v :: u32)\<bar> = unat v"
proof -
  assume n: "\<not> sint v < 0"
  have "sint v < 2 ^ 32" using sint_lt [of v] by simp
  then show ?thesis using unat_of_int_u32 [of "sint v"] n by simp
qed

lemma sint_zero_iff: "sint (v :: u32) = 0 \<longleftrightarrow> v = 0"
proof
  assume "sint v = 0"
  then have "(of_int (sint v) :: u32) = 0" by (simp only: of_int_0)
  then show "v = 0" by simp
qed simp

locale user_console =
  fixes c :: "'s user_calls" and con :: "'s \<Rightarrow> console" and ready :: "'s \<Rightarrow> bool"
  assumes write_console: "ready s \<Longrightarrow> length bs \<le> 2048 \<Longrightarrow>
    \<exists>r s'. c_write c 1 bs s = Some (r, s') \<and> con s' = terminal_write bs (con s) \<and> ready s'"
begin

lemma puts_prints:
  assumes "ready (usys u)" "length t \<le> 2048"
  shows "\<exists>r u'. libc_puts c t u = Some (r, u') \<and> printed con ready t u u'"
  using write_console [OF assms(1), of "map of_char t"] assms(2) by (auto simp: libc_puts_def call_def printed_def)

lemma puts_each_prints: "ready (usys u) \<Longrightarrow> \<exists>u'. puts_each c t u = Some u' \<and> printed con ready t u u'"
proof (induction t arbitrary: u)
  case Nil
  then show ?case by (simp add: printed_nothing)
next
  case (Cons ch t)
  obtain r u1 where u1: "libc_puts c [ch] u = Some (r, u1)" "printed con ready [ch] u u1"
    using puts_prints [OF Cons.prems, of "[ch]"] by auto
  then obtain u2 where "puts_each c t u1 = Some u2" "printed con ready t u1 u2"
    using Cons.IH [of u1] by (auto simp: printed_def)
  then show ?case using u1 printed_more [OF u1(2)] by fastforce
qed

lemma print_uint_prints:
  assumes "ready (usys u)"
  shows "\<exists>u'. print_uint c v base u = Some u' \<and>
    printed con ready (if v = 0 then ''0'' else map digit_char (rev (uint_digits base (unat v)))) u u'"
  using puts_prints [OF assms, of "''0''"] puts_each_prints [OF assms] by (auto simp: print_uint_def)

lemma print_int_prints:
  assumes "ready (usys u)"
  shows "\<exists>u'. print_int c v u = Some u' \<and> printed con ready (decimal (sint v)) u u'"
proof (cases "sint v < 0")
  case True
  obtain r u1 where u1: "libc_puts c ''-'' u = Some (r, u1)" "printed con ready ''-'' u u1"
    using puts_prints [OF assms, of "''-''"] by auto
  then have "ready (usys u1)" by (simp add: printed_def)
  then obtain u2 where u2: "print_uint c (- v) 10 u1 = Some u2"
    "printed con ready (if - v = 0 then ''0'' else map digit_char (rev (uint_digits 10 (unat (- v))))) u1 u2"
    using print_uint_prints by blast
  have nz: "- v \<noteq> 0" using True by auto
  have "nat \<bar>sint v\<bar> = unat (- v)" using True by (rule abs_negative)
  then have "decimal (sint v) = ''-'' @ (if - v = 0 then ''0'' else map digit_char (rev (uint_digits 10 (unat (- v)))))"
    using True nz by (simp add: decimal_def)
  then show ?thesis using True u1(1) u2(1) printed_more [OF u1(2) u2(2)] by (simp add: print_int_def)
next
  case False
  then have "nat \<bar>sint v\<bar> = unat v" "sint v = 0 \<longleftrightarrow> v = 0" using abs_nonnegative sint_zero_iff by blast+
  then have "decimal (sint v) = (if v = 0 then ''0'' else map digit_char (rev (uint_digits 10 (unat v))))"
    using False by (simp add: decimal_def)
  then show ?thesis using False print_uint_prints [OF assms, of v 10] by (simp only: print_int_def if_False)
qed

lemma conversion_prints:
  assumes "ready (usys u)" "list_all arg_ok args" "conversion_text d args = Some (t, as)"
  shows "\<exists>u'. print_conversion c d args u = Some (as, u') \<and> printed con ready t u u'"
proof -
  consider n where "d = CHR ''d''" "args = Arg32 n # as" "t = decimal (sint n)"
    | n where "d = CHR ''x''" "args = Arg32 n # as" "t = (if n = 0 then ''0'' else map digit_char (rev (uint_digits 16 (unat n))))"
    | "d = CHR ''s''" "args = ArgStr (Some t) # as" "length t \<le> 2048"
    | n where "d = CHR ''c''" "args = Arg32 n # as" "t = (if unat n mod 256 = 0 then [] else [char_of (unat n mod 256)])"
    | "d = CHR ''%''" "as = args" "t = ''%''"
    | "d \<notin> set ''dxsc%''" "as = args" "t = []"
    using assms(2,3) by (auto simp: conversion_text_def split: if_splits list.splits fmt_arg.splits option.splits)
  then show ?thesis
  proof cases
    case 1
    then show ?thesis using print_int_prints [OF assms(1)] by (auto simp: print_conversion_def)
  next
    case 2
    then show ?thesis using print_uint_prints [OF assms(1), of _ 16] by (auto simp: print_conversion_def)
  next
    case 3
    then show ?thesis using puts_prints [OF assms(1), of t] by (auto simp: print_conversion_def)
  next
    case (4 n)
    then have "length t \<le> 2048" by simp
    then show ?thesis using 4 puts_prints [OF assms(1), of t] by (auto simp: print_conversion_def)
  next
    case 5
    then show ?thesis using puts_prints [OF assms(1), of "''%''"] by (auto simp: print_conversion_def)
  next
    case 6
    then show ?thesis using printed_nothing [of ready u con] assms(1) by (auto simp: print_conversion_def)
  qed
qed

lemma printf_prints:
  assumes "ready (usys u)" "list_all arg_ok args" "libc_format f args = Some t"
  shows "\<exists>u'. libc_printf c f args u = Some u' \<and> printed con ready t u u'"
  using assms
proof (induction f args arbitrary: u t rule: libc_format.induct)
  case (1 args)
  then show ?case by (simp add: printed_nothing)
next
  case (2 ch args)
  then show ?case using puts_prints [of u "[ch]"] by (auto split: if_splits)
next
  case (3 ch d f args)
  show ?case
  proof (cases "ch = CHR ''%''")
    case True
    then obtain t1 as t2 where t: "conversion_text d args = Some (t1, as)" "libc_format f as = Some t2" "t = t1 @ t2"
      using 3(5) by (auto simp: bind_eq_Some_conv)
    obtain u1 where u1: "print_conversion c d args u = Some (as, u1)" "printed con ready t1 u u1"
      using conversion_prints [OF 3(3,4) t(1)] by blast
    then obtain u2 where "libc_printf c f as u1 = Some u2" "printed con ready t2 u1 u2"
      using 3(1) [OF True t(1) refl, of u1 t2] t(2) conversion_args [OF t(1) 3(4)] by (auto simp: printed_def)
    then show ?thesis using True u1 printed_more [OF u1(2)] t(3) by auto
  next
    case False
    then obtain t2 where t: "libc_format (d # f) args = Some t2" "t = [ch] @ t2" using 3(5) by auto
    obtain r u1 where u1: "libc_puts c [ch] u = Some (r, u1)" "printed con ready [ch] u u1"
      using puts_prints [OF 3(3), of "[ch]"] by auto
    then obtain u2 where "libc_printf c (d # f) args u1 = Some u2" "printed con ready t2 u1 u2"
      using 3(2) [OF False, of u1 t2] t(1) 3(4) by (auto simp: printed_def)
    then show ?thesis using False u1 printed_more [OF u1(2)] t(2) by auto
  qed
qed

end

section \<open>From the command line to the console\<close>

fun join_words :: "string list \<Rightarrow> string" where
  "join_words [] = []"
| "join_words [w] = w"
| "join_words (w # ws) = w @ CHR '' '' # join_words ws"

definition word_ok :: "string \<Rightarrow> bool" where
  "word_ok w \<longleftrightarrow> w \<noteq> [] \<and> CHR '' '' \<notin> set w"

lemma word_parts:
  assumes "word_ok w"
  shows "dropWhile (\<lambda>ch. ch = CHR '' '') (w @ r) = w @ r"
    "takeWhile (\<lambda>ch. ch \<noteq> CHR '' '') (w @ CHR '' '' # r) = w" "dropWhile (\<lambda>ch. ch \<noteq> CHR '' '') (w @ CHR '' '' # r) = CHR '' '' # r"
    "takeWhile (\<lambda>ch. ch \<noteq> CHR '' '') w = w" "dropWhile (\<lambda>ch. ch \<noteq> CHR '' '') w = []"
proof -
  have n: "\<forall>ch \<in> set w. ch \<noteq> CHR '' ''" "w \<noteq> []" using assms by (auto simp: word_ok_def)
  then show "dropWhile (\<lambda>ch. ch = CHR '' '') (w @ r) = w @ r" by (cases w) auto
  show "takeWhile (\<lambda>ch. ch \<noteq> CHR '' '') (w @ CHR '' '' # r) = w" "dropWhile (\<lambda>ch. ch \<noteq> CHR '' '') (w @ CHR '' '' # r) = CHR '' '' # r"
    using n(1) by (auto simp: takeWhile_append2 dropWhile_append2)
  show "takeWhile (\<lambda>ch. ch \<noteq> CHR '' '') w = w" "dropWhile (\<lambda>ch. ch \<noteq> CHR '' '') w = []"
    using n(1) by (auto simp: takeWhile_eq_all_conv dropWhile_eq_Nil_conv)
qed

text \<open>The arguments of a program are the words of its command line, up to sixteen.\<close>

theorem start_args_words:
  assumes "list_all word_ok ws" "argc + length ws \<le> 16"
  shows "start_args argc (join_words ws) = ws"
  using assms
proof (induction ws arbitrary: argc rule: join_words.induct)
  case 1
  then show ?case by (simp add: start_args.simps)
next
  case (2 w)
  then have w: "word_ok w" "w \<noteq> []" by (auto simp: word_ok_def)
  have "start_args (argc + 1) [] = []" by (simp add: start_args.simps)
  then show ?case using word_parts(1) [OF w(1), of "[]"] word_parts(4,5) [OF w(1)] w(2)
    by (subst start_args.simps) (simp add: Let_def del: dropWhile_eq_Nil_conv takeWhile_eq_all_conv)
next
  case (3 w v vs)
  then have w: "word_ok w" "w \<noteq> []" by (auto simp: word_ok_def)
  have "start_args (argc + 1) (join_words (v # vs)) = v # vs" using 3 by simp
  then show ?case using word_parts [OF w(1)] w(2) 3(3)
    by (subst start_args.simps) (simp add: Let_def)
qed

lemma decimal_word: "word_ok (decimal i)"
proof (cases "i = 0")
  case True
  then show ?thesis by (simp add: decimal_def word_ok_def)
next
  case False
  then have "uint_digits 10 (nat \<bar>i\<bar>) \<noteq> []" by (subst uint_digits.simps) simp
  moreover have "CHR '' '' \<notin> set (map digit_char (rev (uint_digits 10 (nat \<bar>i\<bar>))))"
    using digits_ok [of "nat \<bar>i\<bar>"] is_digit_signs unfolding list_all_iff by blast
  ultimately show ?thesis using False by (simp add: decimal_def word_ok_def)
qed

definition calc_line :: "u32 \<Rightarrow> char \<Rightarrow> u32 \<Rightarrow> string" where
  "calc_line a op b = join_words [''calc'', decimal (sint a), [op], decimal (sint b)]"

definition calc_answer :: "u32 \<Rightarrow> char \<Rightarrow> u32 \<Rightarrow> u32 \<Rightarrow> string" where
  "calc_answer a op b r = decimal (sint a) @ '' '' @ [op] @ '' '' @ decimal (sint b) @ '' = '' @ decimal (sint r) @ nl"

lemma calc_args:
  assumes "op \<in> set ''+-*/''"
  shows "start_args 0 (calc_line a op b) = [''calc'', decimal (sint a), [op], decimal (sint b)]"
  unfolding calc_line_def
  by (rule start_args_words) (use assms decimal_word in \<open>auto simp: word_ok_def\<close>)

lemma format_chars:
  "of_char op \<noteq> (0 :: nat) \<Longrightarrow> conversion_text CHR ''c'' (Arg32 (of_char op) # as) = Some ([op], as)"
proof -
  assume nz: "of_char op \<noteq> (0 :: nat)"
  have "unat (of_char op :: u32) = of_char op" by (simp add: of_char_def)
  then show ?thesis using nz by (simp add: conversion_text_def)
qed

lemma calc_format:
  assumes "op \<in> set ''+-*/''"
  shows "libc_format (''%d %c %d = %d'' @ nl) [Arg32 a, Arg32 (of_char op), Arg32 b, Arg32 r] = Some (calc_answer a op b r)"
proof -
  have "of_char op \<noteq> (0 :: nat)" using assms by auto
  moreover have "char_of (10 :: nat) \<noteq> CHR ''%''" by code_simp
  ultimately show ?thesis using format_chars [of op] by (simp add: calc_answer_def conversion_text_def)
qed

locale user_process = user_console c con ready
  for c :: "'s user_calls" and con :: "'s \<Rightarrow> console" and ready :: "'s \<Rightarrow> bool" +
  fixes cmd :: "'s \<Rightarrow> string"
  assumes getcmdline: "ready s \<Longrightarrow>
    \<exists>b s'. c_getcmdline c 128 s = Some (b, s') \<and> text_of b = cmd s \<and> con s' = con s \<and> ready s'"
begin

lemma calc_runs:
  assumes "ready s" "cmd s = calc_line a op b" "op \<in> set ''+-*/''" "op = CHR ''/'' \<longrightarrow> b \<noteq> 0" "calc_op op a b = Some r"
  shows "\<exists>line s1 u. c_getcmdline c 128 s = Some (line, s1) \<and>
    main_calc c (start_args 0 (text_of line)) \<lparr>usys = s1, heap_offset = 0\<rparr> = Some (0, u) \<and>
    con (usys u) = terminal_write (map of_char (calc_answer a op b r)) (con s) \<and>
    start_c c (main_calc c) \<lparr>usys = s, heap_offset = 0\<rparr> = c_exit c 0 (usys u)"
proof -
  obtain line s1 where s1: "c_getcmdline c 128 s = Some (line, s1)" "text_of line = cmd s" "con s1 = con s" "ready s1"
    using getcmdline [OF assms(1)] by blast
  have ok: "list_all arg_ok [Arg32 a, Arg32 (of_char op), Arg32 b, Arg32 r]" by simp
  have rd: "ready (usys \<lparr>usys = s1, heap_offset = 0\<rparr>)" using s1(4) by simp
  obtain u where u: "libc_printf c (''%d %c %d = %d'' @ nl) [Arg32 a, Arg32 (of_char op), Arg32 b, Arg32 r]
      \<lparr>usys = s1, heap_offset = 0\<rparr> = Some u" "printed con ready (calc_answer a op b r) \<lparr>usys = s1, heap_offset = 0\<rparr> u"
    using printf_prints [OF rd ok calc_format [OF assms(3)]] by blast
  have "main_calc c (start_args 0 (cmd s)) \<lparr>usys = s1, heap_offset = 0\<rparr> = Some (0, u)"
    unfolding assms(2) calc_args [OF assms(3)]
    using u(1) assms(3-5) by (simp add: main_calc_def Let_def atoi_decimal first_char_def del: libc_printf.simps) auto
  moreover from this have "start_c c (main_calc c) \<lparr>usys = s, heap_offset = 0\<rparr> = c_exit c 0 (usys u)"
    using s1(1,2) by (simp add: start_c_def call_def libc_exit_def)
  ultimately show ?thesis using s1 u(2) by (auto simp: printed_def)
qed

end

section \<open>Programs on the kernel\<close>

text \<open>
  A process with a buffer of 2 KB in its memory, whose bytes lie in different places of the
  physical memory, and with a command line that fits its field.
\<close>

definition kernel_cmd :: "'w kernel \<Rightarrow> string" where
  "kernel_cmd k = cmdline (pstore (procs k) (current_proc k))"

definition kernel_ready :: "addr \<Rightarrow> 'w kernel \<Rightarrow> bool" where
  "kernel_ready buf k \<longleftrightarrow>
     (\<exists>f. (\<forall>i < 2048. mmu (kvm k) (buf + of_nat i) = Some (f i)) \<and> inj_on f {..<2048 :: nat}) \<and>
     0x400000 \<le> unat buf \<and> unat buf + 2048 \<le> 0xC0000000 \<and> current_proc k \<noteq> 0 \<and>
     length (kernel_cmd k) \<le> 127 \<and> char_of (0 :: nat) \<notin> set (kernel_cmd k)"

lemma poke_at:
  assumes "\<And>i. i < length bs \<Longrightarrow> mmu s (v + of_nat i) = Some (f i)" "inj_on f {..<length bs}"
  shows "\<exists>m'. poke s v bs m = Some m' \<and> (\<forall>i < length bs. m' (f i) = bs ! i) \<and> (\<forall>p. p \<notin> f ` {..<length bs} \<longrightarrow> m' p = m p)"
  using assms
proof (induction bs arbitrary: v m f)
  case (Cons b bs)
  have m0: "mmu s v = Some (f 0)" using Cons.prems(1) [of 0] by simp
  have "mmu s (v + 1 + of_nat i) = Some ((f \<circ> Suc) i)" if "i < length bs" for i
    using Cons.prems(1) [of "Suc i"] that by (simp add: add.assoc)
  moreover have "inj_on (f \<circ> Suc) {..<length bs}" using Cons.prems(2) by (auto simp: inj_on_def)
  ultimately obtain m' where m': "poke s (v + 1) bs (m(f 0 := b)) = Some m'" "\<forall>i < length bs. m' (f (Suc i)) = bs ! i"
    "\<forall>p. p \<notin> (f \<circ> Suc) ` {..<length bs} \<longrightarrow> m' p = (m(f 0 := b)) p" using Cons.IH [of "v + 1" "f \<circ> Suc" "m(f 0 := b)"] unfolding o_apply by blast
  have "f 0 \<notin> (f \<circ> Suc) ` {..<length bs}" using Cons.prems(2) by (auto simp: inj_on_def)
  then have "m' (f i) = (b # bs) ! i" if "i < length (b # bs)" for i using m'(2,3) that by (cases i) auto
  moreover have "m' p = m p" if "p \<notin> f ` {..<length (b # bs)}" for p
    using m'(3) that by (auto simp: image_iff lessThan_iff)
  ultimately show ?case using m0 m'(1) by auto
qed simp

lemma peek_at:
  "(\<And>i. i < n \<Longrightarrow> mmu s (v + of_nat i) = Some (f i)) \<Longrightarrow> peek s m v n = Some (map (\<lambda>i. m (f i)) [0..<n])"
proof (induction n arbitrary: v f)
  case (Suc n)
  have "mmu s v = Some (f 0)" using Suc.prems [of 0] by simp
  moreover have "peek s m (v + 1) n = Some (map (\<lambda>i. m ((f \<circ> Suc) i)) [0..<n])"
    using Suc.prems [of "Suc i" for i] by (intro Suc.IH) (simp add: add.assoc)
  moreover have "map (\<lambda>i. m (f i)) [0..<Suc n] = m (f 0) # map (\<lambda>i. m (f (Suc i))) [0..<n]"
    by (simp add: map_upt_Suc del: upt_Suc)
  ultimately show ?case by simp
qed simp

lemma kernel_ready_frame [simp]:
  "kernel_ready buf (k\<lparr>ubytes := m\<rparr>) = kernel_ready buf k" "kernel_ready buf (k\<lparr>kconsole := t\<rparr>) = kernel_ready buf k"
  "kernel_cmd (k\<lparr>ubytes := m\<rparr>) = kernel_cmd k"
  by (simp_all add: kernel_ready_def kernel_cmd_def kvm_def current_proc_def)

lemma buffer_io:
  assumes "kernel_ready buf k" "length bs \<le> 2048"
  shows "\<exists>m. user_write buf bs k = Some (k\<lparr>ubytes := m\<rparr>) \<and> user_read buf (length bs) (k\<lparr>ubytes := m\<rparr>) = Some bs"
proof -
  obtain f where f: "\<And>i. i < 2048 \<Longrightarrow> mmu (kvm k) (buf + of_nat i) = Some (f i)" "inj_on f {..<2048 :: nat}"
    using assms(1) by (auto simp: kernel_ready_def)
  have "inj_on f {..<length bs}" using f(2) assms(2) by (auto simp: inj_on_def)
  then obtain m where m: "poke (kvm k) buf bs (ubytes k) = Some m" "\<forall>i < length bs. m (f i) = bs ! i"
    using poke_at [of bs "kvm k" buf f "ubytes k"] f(1) assms(2) by auto
  have "peek (kvm k) m buf (length bs) = Some (map (\<lambda>i. m (f i)) [0..<length bs])"
    using f(1) assms(2) by (intro peek_at) simp
  also have "map (\<lambda>i. m (f i)) [0..<length bs] = bs" using m(2) by (intro nth_equalityI) auto
  finally have "user_read buf (length bs) (k\<lparr>ubytes := m\<rparr>) = Some bs" by (simp add: user_read_def kvm_def)
  moreover have "user_write buf bs k = Some (k\<lparr>ubytes := m\<rparr>)" using m(1) by (simp add: user_write_def)
  ultimately show ?thesis by blast
qed

lemma buffer_valid:
  assumes "kernel_ready buf k" "n \<le> 2048"
  shows "syscall_validate_ptr buf (of_nat n)"
proof -
  have b: "0x400000 \<le> unat buf" "unat buf + 2048 \<le> 0xC0000000" using assms(1) by (auto simp: kernel_ready_def)
  have u: "unat (of_nat n :: u32) = n" using assms(2) by (simp add: unat_of_nat)
  have "\<not> USER_SPACE_MAX < buf + of_nat n - 1" if "0 < (of_nat n :: u32)"
  proof -
    have "unat (buf + of_nat n - 1) = unat buf + n - 1" using unat_buffer_end [of buf "of_nat n"] that b u assms(2) by (auto simp: word_gt_0)
    then show ?thesis using b assms(2) by (simp add: USER_SPACE_MAX_def word_less_nat_alt)
  qed
  then show ?thesis using b by (auto simp: syscall_validate_ptr_def USER_SPACE_MIN_def USER_SPACE_MAX_def word_less_nat_alt)
qed

lemma kernel_write:
  assumes "kernel_ready buf k" "length bs \<le> 2048"
  shows "\<exists>m. c_write (kernel_calls fs junk buf) 1 bs k =
    Some (of_nat (length bs), k\<lparr>ubytes := m, kconsole := terminal_write bs (kconsole k)\<rparr>)"
proof -
  obtain m where m: "user_write buf bs k = Some (k\<lparr>ubytes := m\<rparr>)" "user_read buf (length bs) (k\<lparr>ubytes := m\<rparr>) = Some bs"
    using buffer_io [OF assms] by blast
  have "unat (of_nat (length bs) :: u32) = length bs" using assms(2) by (simp add: unat_of_nat)
  then have "c_write (kernel_calls fs junk buf) 1 bs k =
    Some (of_nat (length bs), k\<lparr>ubytes := m, kconsole := terminal_write bs (kconsole k)\<rparr>)"
    using m buffer_valid [OF assms]
    by (simp add: kernel_calls_def Let_def syscall3_def syscall_handler_def SYS_REBOOT_def SYS_SHUTDOWN_def SYS_EXIT_def
        SYS_WRITE_def sys_write_def zero_registers_def)
  then show ?thesis by blast
qed

lemma kernel_getcmdline:
  assumes "kernel_ready buf k"
  shows "\<exists>b m. c_getcmdline (kernel_calls fs junk buf) 128 k = Some (b, k\<lparr>ubytes := m\<rparr>) \<and> text_of b = kernel_cmd k"
proof -
  let ?b = "map of_char (kernel_cmd k) @ replicate (128 - length (kernel_cmd k)) (0 :: u8)"
  have l: "length (kernel_cmd k) \<le> 127" "current_proc k \<noteq> 0" "length ?b = 128" using assms by (auto simp: kernel_ready_def)
  obtain m0 where m0: "user_write buf (replicate 128 0) k = Some (k\<lparr>ubytes := m0\<rparr>)"
    using buffer_io [OF assms, of "replicate 128 0"] by auto
  obtain m where m: "user_write buf ?b (k\<lparr>ubytes := m0\<rparr>) = Some (k\<lparr>ubytes := m\<rparr>)" "user_read buf 128 (k\<lparr>ubytes := m\<rparr>) = Some ?b"
    using buffer_io [of buf "k\<lparr>ubytes := m0\<rparr>" ?b] assms l(3) by auto
  have v: "syscall_validate_ptr buf 128" using buffer_valid [OF assms, of 128] by simp
  have cp: "current_proc (k\<lparr>ubytes := x\<rparr>) = current_proc k" for x by (simp add: current_proc_def)
  have c: "c_getcmdline (kernel_calls fs junk buf) 128 k = Some (?b, k\<lparr>ubytes := m\<rparr>)"
    using m0 m v l by (simp add: kernel_calls_def Let_def syscall3_def syscall_handler_def SYS_REBOOT_def SYS_SHUTDOWN_def
        SYS_EXIT_def SYS_WRITE_def SYS_READ_def SYS_OPEN_def SYS_CLOSE_def sys_getcmdline_def zero_registers_def cp
        kernel_cmd_def got_def)
  have nz: "(0 :: u8) \<notin> set (map of_char (kernel_cmd k))" using assms by (auto simp: kernel_ready_def of_char_zero_u8)
  have "replicate (128 - length (kernel_cmd k)) (0 :: u8) = 0 # replicate (127 - length (kernel_cmd k)) 0"
    using l(1) by (simp add: Suc_diff_le replicate_Suc [symmetric] del: replicate_Suc)
  moreover have "takeWhile (\<lambda>b. b \<noteq> 0) (map of_char (kernel_cmd k) @ 0 # r) = map of_char (kernel_cmd k)" for r :: "u8 list"
    using nz by (subst takeWhile_append2) auto
  ultimately have "text_of ?b = kernel_cmd k" by (simp add: unat_of_char_u8 comp_def)
  then show ?thesis using c by blast
qed

interpretation kernel_console: user_console "kernel_calls fs junk buf" kconsole "kernel_ready buf" for fs junk buf
proof
  fix k :: "'a kernel" and bs :: "u8 list"
  assume "kernel_ready buf k" "length bs \<le> 2048"
  then show "\<exists>r k'. c_write (kernel_calls fs junk buf) 1 bs k = Some (r, k') \<and>
      kconsole k' = terminal_write bs (kconsole k) \<and> kernel_ready buf k'"
    using kernel_write [of buf k bs fs junk] by fastforce
qed

interpretation kernel_process: user_process "kernel_calls fs junk buf" kconsole "kernel_ready buf" kernel_cmd for fs junk buf
proof
  fix k :: "'a kernel"
  assume "kernel_ready buf k"
  then show "\<exists>b k'. c_getcmdline (kernel_calls fs junk buf) 128 k = Some (b, k') \<and> text_of b = kernel_cmd k \<and>
      kconsole k' = kconsole k \<and> kernel_ready buf k'"
    using kernel_getcmdline [of buf k fs junk] by fastforce
qed

text \<open>
  C17. A program, the C library and the kernel together: in a process whose command line is
  \<^verbatim>\<open>calc\<close>, a number, one of the operators \<^verbatim>\<open>+ - * /\<close> and a number, the start code fetches the
  command line by a system call that succeeds, splits it into arguments and calls \<^verbatim>\<open>main\<close>; \<^verbatim>\<open>main\<close>
  converts the numbers, returns 0, and when it returns the console shows the numbers and the
  result, in 32-bit arithmetic, written with one system call for each character or text; the start
  code then makes the exit system call with status 0 in that state. Nothing is claimed of the exit
  call itself, which ends in \<^const>\<open>process_terminate\<close>. Division by zero, and of the least integer
  by -1, are left out.
\<close>

theorem calc_end_to_end:
  assumes "kernel_ready buf k" "kernel_cmd k = calc_line a op b" "op \<in> set ''+-*/''" "op = CHR ''/'' \<longrightarrow> b \<noteq> 0" "calc_op op a b = Some r"
  shows "\<exists>line k1 u. c_getcmdline (kernel_calls fs junk buf) 128 k = Some (line, k1) \<and>
    main_calc (kernel_calls fs junk buf) (start_args 0 (text_of line)) \<lparr>usys = k1, heap_offset = 0\<rparr> = Some (0, u) \<and>
    kconsole (usys u) = terminal_write (map of_char (calc_answer a op b r)) (kconsole k) \<and>
    start_c (kernel_calls fs junk buf) (main_calc (kernel_calls fs junk buf)) \<lparr>usys = k, heap_offset = 0\<rparr> =
      c_exit (kernel_calls fs junk buf) 0 (usys u)"
  by (rule kernel_process.calc_runs [OF assms])

definition calc_kernel :: "unit kernel" where
  "calc_kernel = example_kernel\<lparr>procs := upd_proc 0x300 (\<lambda>p. p\<lparr>cmdline := calc_line 7 CHR ''*'' 6\<rparr>) (procs example_kernel)\<rparr>"

lemma calc_kernel_mmu:
  assumes "i < 2048"
  shows "mmu (kvm calc_kernel) (0x400000 + of_nat i) = Some (0x22000 OR of_nat i)"
proof -
  let ?v = "0x400000 + of_nat i :: u32"
  have u: "unat ?v = 0x400000 + i" using assms by (simp add: unat_word_ariths unat_of_nat)
  have "unat (drop_bit 22 ?v) = unat (1 :: u32)" "unat (drop_bit 12 ?v) = unat (0x400 :: u32)"
    unfolding unat_drop_bit_eq u using assms by (simp_all add: drop_bit_eq_div)
  then have d: "drop_bit 22 ?v = 1" "drop_bit 12 ?v = 0x400" by (simp_all only: word_unat_eq_iff)
  have "?v AND 0xFFF = of_nat i"
  proof -
    have "unat (take_bit 12 ?v) = unat (of_nat i :: u32)"
      unfolding unsigned_take_bit_eq u using assms mod_mult_self3 [of 1024 4096 i] by (simp add: take_bit_eq_mod unat_of_nat)
    then have "?v AND mask 12 = of_nat i" by (simp only: word_unat_eq_iff take_bit_eq_mask)
    then show ?thesis by (simp add: mask_eq_exp_minus_1)
  qed
  then show ?thesis using d assms u
    by (simp add: mmu_def kvm_def calc_kernel_def upd_proc_def example_kernel_def example_kvm_def vmm_example_def entry_addr_def
        pd_index_def pt_index_def page_of_def P2V_def KERNEL_VIRT_BASE_def VMM_PRESENT_def word_le_nat_alt)
qed

lemma calc_kernel_ready: "kernel_ready 0x400000 calc_kernel"
proof -
  have inj: "inj_on (\<lambda>i. 0x22000 OR of_nat i :: u32) {..<2048 :: nat}"
  proof (rule inj_onI)
    fix i j :: nat
    assume ij: "i \<in> {..<2048}" "j \<in> {..<2048}" and e: "0x22000 OR of_nat i = (0x22000 OR of_nat j :: u32)"
    have "take_bit 12 (0x22000 OR of_nat x :: u32) = of_nat x" if "x < 2048" for x
    proof -
      have "take_bit 12 (of_nat x :: u32) = of_nat x" 
      proof -
        have "unat (take_bit 12 (of_nat x :: u32)) = unat (of_nat x :: u32)"
          unfolding unsigned_take_bit_eq using that by (simp add: unat_of_nat take_bit_eq_mod)
        then show ?thesis by (simp only: word_unat_eq_iff)
      qed
      then show ?thesis by (simp add: take_bit_or)
    qed
    then have "(of_nat i :: u32) = of_nat j" using e ij by (metis lessThan_iff)
    then show "i = j" using ij by (simp add: word_unat_eq_iff unat_of_nat)
  qed
  have cp: "current_proc calc_kernel = 0x300"
    by (simp add: calc_kernel_def upd_proc_def current_proc_def scheduler_get_current_process_def example_kernel_def proc_example_def)
  have "kernel_cmd calc_kernel = ''calc 7 * 6''"
    unfolding kernel_cmd_def cp
    by (simp add: calc_kernel_def upd_proc_def calc_line_def decimal_def uint_digits.simps digit_char_def) code_simp
  moreover have "char_of (0 :: nat) \<notin> set ''calc 7 * 6''" by code_simp
  ultimately have "length (kernel_cmd calc_kernel) \<le> 127 \<and> char_of (0 :: nat) \<notin> set (kernel_cmd calc_kernel)" by simp
  then show ?thesis using calc_kernel_mmu inj cp unfolding kernel_ready_def by auto
qed

theorem calc_end_to_end_witness:
  "\<forall>fs. \<exists>line k1 u. c_getcmdline (kernel_calls fs (\<lambda>_. 0) 0x400000) 128 calc_kernel = Some (line, k1) \<and>
    main_calc (kernel_calls fs (\<lambda>_. 0) 0x400000) (start_args 0 (text_of line)) \<lparr>usys = k1, heap_offset = 0\<rparr> = Some (0, u) \<and>
    kconsole (usys u) = terminal_write (map of_char (calc_answer 7 CHR ''*'' 6 42)) (kconsole calc_kernel) \<and>
    start_c (kernel_calls fs (\<lambda>_. 0) 0x400000) (main_calc (kernel_calls fs (\<lambda>_. 0) 0x400000)) \<lparr>usys = calc_kernel, heap_offset = 0\<rparr> =
      c_exit (kernel_calls fs (\<lambda>_. 0) 0x400000) 0 (usys u)"
  by (intro allI calc_end_to_end [OF calc_kernel_ready])
    (simp_all add: calc_op_def kernel_cmd_def calc_kernel_def upd_proc_def current_proc_def scheduler_get_current_process_def
      example_kernel_def proc_example_def)

end
