(* ===== verification/Khazar_Gfx.thy ===== *)
theory Khazar_Gfx
  imports Khazar_Kheap Khazar_Bytes "HOL-Library.Signed_Division"
begin

text \<open>
  The drawing routines, \<^verbatim>\<open>kernel/drivers/gpu/gfx.c\<close>, with the bitmap font
  \<^verbatim>\<open>kernel/libk/font.c\<close>. Pixels are drawn into a back buffer in memory; \<^verbatim>\<open>gfx_swap_buffers\<close>
  copies to the screen the pixels that differ from the front buffer, a copy in memory of what
  the screen shows.

  The two buffers are lists of pixels (\<open>None\<close> is the null pointer), the screen memory is a
  function from word indices. Coordinates are mathematical integers: the sums the code forms of
  them do not overflow for coordinates of windows, and overflow of an \<^verbatim>\<open>int\<close> is undefined in C.
  The line routine, which computes with doubled differences, has no result when a number overflows.
  Sizes of the screen keep their 32 bits, with the conversions to \<^verbatim>\<open>int\<close> of the bounds checks.
  A read through a null back buffer, which \<^verbatim>\<open>gfx_get_pixel\<close>, \<^verbatim>\<open>gfx_save_rect\<close> and
  \<^verbatim>\<open>gfx_restore_rect\<close> do not check for, is the result \<open>None\<close>.
\<close>

section \<open>The drawing state\<close>

record vbe_info =
  lfb :: addr
  width :: u32
  height :: u32
  pitch :: u32
  bpp :: u8

record gfx_state =
  vbe :: vbe_info
  backbuffer :: "u32 list option"
  frontbuffer :: "u32 list option"
  vram :: "nat \<Rightarrow> u32"

definition on_screen :: "vbe_info \<Rightarrow> int \<Rightarrow> int \<Rightarrow> bool" where
  "on_screen v x y \<longleftrightarrow> \<not> (x < 0 \<or> x \<ge> sint (width v) \<or> y < 0 \<or> y \<ge> sint (height v))"

definition pixel_index :: "vbe_info \<Rightarrow> int \<Rightarrow> int \<Rightarrow> nat" where
  "pixel_index v x y = unat (of_int y * width v + of_int x)"

text \<open>\<^verbatim>\<open>for (int i = lo; i < hi; i++)\<close>\<close>

definition for_int :: "int \<Rightarrow> int \<Rightarrow> (int \<Rightarrow> 's \<Rightarrow> 's) \<Rightarrow> 's \<Rightarrow> 's" where
  "for_int lo hi f = fold f [lo..hi - 1]"

section \<open>Pixels\<close>

definition gfx_put_pixel :: "int \<Rightarrow> int \<Rightarrow> u32 \<Rightarrow> gfx_state \<Rightarrow> gfx_state" where
  "gfx_put_pixel x y color g =
     (case backbuffer g of
        None \<Rightarrow> g
      | Some b \<Rightarrow>
          if on_screen (vbe g) x y then g\<lparr>backbuffer := Some (b[pixel_index (vbe g) x y := color])\<rparr> else g)"

definition alpha_blend :: "u32 \<Rightarrow> u32 \<Rightarrow> u8 \<Rightarrow> u32" where
  "alpha_blend color bg alpha =
     (let a = ucast alpha;
          rb = drop_bit 8 ((color AND 0x00FF00FF) * a + (bg AND 0x00FF00FF) * (255 - a));
          gr = drop_bit 8 ((color AND 0x0000FF00) * a + (bg AND 0x0000FF00) * (255 - a))
      in (rb AND 0x00FF00FF) OR (gr AND 0x0000FF00))"

definition gfx_put_pixel_alpha :: "int \<Rightarrow> int \<Rightarrow> u32 \<Rightarrow> u8 \<Rightarrow> gfx_state \<Rightarrow> gfx_state" where
  "gfx_put_pixel_alpha x y color alpha g =
     (case backbuffer g of
        None \<Rightarrow> g
      | Some b \<Rightarrow>
          if \<not> on_screen (vbe g) x y then g
          else let i = pixel_index (vbe g) x y
               in if alpha = 255 then g\<lparr>backbuffer := Some (b[i := color])\<rparr>
                  else if alpha = 0 then g
                  else g\<lparr>backbuffer := Some (b[i := alpha_blend color (b ! i) alpha])\<rparr>)"

definition gfx_draw_shadow :: "int \<Rightarrow> int \<Rightarrow> int \<Rightarrow> int \<Rightarrow> int \<Rightarrow> gfx_state \<Rightarrow> gfx_state" where
  "gfx_draw_shadow x y w h r =
     for_int (- r) (h + r) (\<lambda>j. for_int (- r) (w + r) (\<lambda>i g.
       if i \<ge> 0 \<and> i < w \<and> j \<ge> 0 \<and> j < h then g
       else let dx = (if i < 0 then - i else if i \<ge> w then i - w + 1 else 0);
                dy = (if j < 0 then - j else if j \<ge> h then j - h + 1 else 0);
                dist = (if dx > dy then dx else dy)
            in if dist \<le> r
               then gfx_put_pixel_alpha (x + i + 4) (y + j + 4) 0x000000 (of_int ((100 * (r - dist)) sdiv r)) g
               else g))"

definition gfx_get_pixel :: "int \<Rightarrow> int \<Rightarrow> gfx_state \<Rightarrow> u32 option" where
  "gfx_get_pixel x y g =
     (if \<not> on_screen (vbe g) x y then Some 0
      else map_option (\<lambda>b. b ! pixel_index (vbe g) x y) (backbuffer g))"

section \<open>Rectangles\<close>

definition row_on_screen :: "vbe_info \<Rightarrow> int \<Rightarrow> bool" where
  "row_on_screen v y \<longleftrightarrow> \<not> (y < 0 \<or> y \<ge> sint (height v))"

definition column_on_screen :: "vbe_info \<Rightarrow> int \<Rightarrow> bool" where
  "column_on_screen v x \<longleftrightarrow> x \<ge> 0 \<and> x < sint (width v)"

definition save_rows :: "u32 list \<Rightarrow> int \<Rightarrow> int \<Rightarrow> int \<Rightarrow> int \<Rightarrow> gfx_state \<Rightarrow> u32 list option" where
  "save_rows dest x y w h g =
     for_int 0 h (\<lambda>row d.
       if \<not> row_on_screen (vbe g) (y + row) then d
       else for_int 0 w (\<lambda>col d.
         if column_on_screen (vbe g) (x + col)
         then do { b \<leftarrow> backbuffer g; d \<leftarrow> d;
                   Some (d[nat (row * w + col) := b ! pixel_index (vbe g) (x + col) (y + row)]) }
         else map_option (\<lambda>d. d[nat (row * w + col) := 0]) d) d) (Some dest)"

definition restore_rows :: "u32 list \<Rightarrow> int \<Rightarrow> int \<Rightarrow> int \<Rightarrow> int \<Rightarrow> gfx_state \<Rightarrow> gfx_state option" where
  "restore_rows src x y w h g =
     for_int 0 h (\<lambda>row st.
       if \<not> row_on_screen (vbe g) (y + row) then st
       else for_int 0 w (\<lambda>col st.
         if column_on_screen (vbe g) (x + col)
         then do { g1 \<leftarrow> st; b \<leftarrow> backbuffer g1;
                   Some (g1\<lparr>backbuffer := Some (b[pixel_index (vbe g) (x + col) (y + row) := src ! nat (row * w + col)])\<rparr>) }
         else st) st) (Some g)"

text \<open>A null buffer is ignored.\<close>

definition gfx_save_rect :: "u32 list option \<Rightarrow> int \<Rightarrow> int \<Rightarrow> int \<Rightarrow> int \<Rightarrow> gfx_state \<Rightarrow> u32 list option option" where
  "gfx_save_rect dest x y w h g =
     (case dest of None \<Rightarrow> Some None | Some d \<Rightarrow> map_option Some (save_rows d x y w h g))"

definition gfx_restore_rect :: "u32 list option \<Rightarrow> int \<Rightarrow> int \<Rightarrow> int \<Rightarrow> int \<Rightarrow> gfx_state \<Rightarrow> gfx_state option" where
  "gfx_restore_rect src x y w h g =
     (case src of None \<Rightarrow> Some g | Some d \<Rightarrow> restore_rows d x y w h g)"

definition gfx_clear :: "u32 \<Rightarrow> gfx_state \<Rightarrow> gfx_state" where
  "gfx_clear color g =
     (case backbuffer g of
        None \<Rightarrow> g
      | Some b \<Rightarrow> g\<lparr>backbuffer := Some (fold (\<lambda>i b. b[i := color]) [0..<unat (width (vbe g) * height (vbe g))] b)\<rparr>)"

definition gfx_draw_rect :: "int \<Rightarrow> int \<Rightarrow> int \<Rightarrow> int \<Rightarrow> u32 \<Rightarrow> gfx_state \<Rightarrow> gfx_state" where
  "gfx_draw_rect x y w h color =
     for_int 0 h (\<lambda>i. for_int 0 w (\<lambda>j. gfx_put_pixel (x + j) (y + i) color))"

definition gfx_draw_rounded_rect :: "int \<Rightarrow> int \<Rightarrow> int \<Rightarrow> int \<Rightarrow> int \<Rightarrow> u32 \<Rightarrow> gfx_state \<Rightarrow> gfx_state" where
  "gfx_draw_rounded_rect x y w h r0 color g =
     (if r0 \<le> 0 then gfx_draw_rect x y w h color g
      else
        let r1 = (if r0 > w sdiv 2 then w sdiv 2 else r0);
            r = (if r1 > h sdiv 2 then h sdiv 2 else r1);
            g1 = gfx_draw_rect (x + r) y (w - 2 * r) r color g;
            g2 = gfx_draw_rect (x + r) (y + h - r) (w - 2 * r) r color g1;
            g3 = gfx_draw_rect x (y + r) w (h - 2 * r) color g2
        in for_int 0 r (\<lambda>j. for_int 0 r (\<lambda>i g.
             let dist_sq = (i - r) * (i - r) + (j - r) * (j - r)
             in if dist_sq \<le> r * r
                then gfx_put_pixel (x + w - 1 - i) (y + h - 1 - j) color
                    (gfx_put_pixel (x + i) (y + h - 1 - j) color
                      (gfx_put_pixel (x + w - 1 - i) (y + j) color
                        (gfx_put_pixel (x + i) (y + j) color g)))
                else g)) g3)"

definition color_channel :: "nat \<Rightarrow> u32 \<Rightarrow> u32" where
  "color_channel n color = drop_bit n color AND 0xFF"

definition gradient_channel :: "u32 \<Rightarrow> u32 \<Rightarrow> int \<Rightarrow> int \<Rightarrow> u32" where
  "gradient_channel c1 c2 j h = c1 + (c2 - c1) * of_int j div of_int h"

definition gradient_color :: "u32 \<Rightarrow> u32 \<Rightarrow> int \<Rightarrow> int \<Rightarrow> u32" where
  "gradient_color color1 color2 j h =
     (let r = gradient_channel (color_channel 16 color1) (color_channel 16 color2) j h;
          g = gradient_channel (color_channel 8 color1) (color_channel 8 color2) j h;
          b = gradient_channel (color_channel 0 color1) (color_channel 0 color2) j h
      in push_bit 16 r OR push_bit 8 g OR b)"

definition gfx_draw_gradient_rect ::
  "int \<Rightarrow> int \<Rightarrow> int \<Rightarrow> int \<Rightarrow> u32 \<Rightarrow> u32 \<Rightarrow> bool \<Rightarrow> gfx_state \<Rightarrow> gfx_state" where
  "gfx_draw_gradient_rect x y w h color1 color2 vertical =
     (if vertical
      then for_int 0 h (\<lambda>j. for_int 0 w (\<lambda>i. gfx_put_pixel (x + i) (y + j) (gradient_color color1 color2 j h)))
      else for_int 0 w (\<lambda>i. for_int 0 h (\<lambda>j. gfx_put_pixel (x + i) (y + j) (gradient_color color1 color2 i w))))"

section \<open>Lines\<close>

text \<open>
  The endless loop of \<^verbatim>\<open>gfx_draw_line\<close>, left by its \<^verbatim>\<open>break\<close>. An \<^verbatim>\<open>int\<close> has 32 bits; a result that
  does not fit has no defined value in C, and the model then has none either.
\<close>

definition int32 :: "int \<Rightarrow> bool" where "int32 n \<longleftrightarrow> - (2 ^ 31) \<le> n \<and> n < 2 ^ 31"

partial_function (option) line_loop ::
  "int \<Rightarrow> int \<Rightarrow> int \<Rightarrow> int \<Rightarrow> int \<Rightarrow> int \<Rightarrow> u32 \<Rightarrow> int \<Rightarrow> int \<Rightarrow> int \<Rightarrow> gfx_state \<Rightarrow> gfx_state option" where
  "line_loop dx dy sx sy x2 y2 color err x1 y1 g =
     (let g1 = gfx_put_pixel x1 y1 color g
      in if x1 = x2 \<and> y1 = y2 then Some g1
         else let e2 = 2 * err;
                  (err1, x1') = (if e2 > - dy then (err - dy, x1 + sx) else (err, x1));
                  (err2, y1') = (if e2 < dx then (err1 + dx, y1 + sy) else (err1, y1))
              in if list_all int32 [e2, err1, x1', err2, y1']
                 then line_loop dx dy sx sy x2 y2 color err2 x1' y1' g1 else None)"

definition gfx_draw_line :: "int \<Rightarrow> int \<Rightarrow> int \<Rightarrow> int \<Rightarrow> u32 \<Rightarrow> gfx_state \<Rightarrow> gfx_state option" where
  "gfx_draw_line x1 y1 x2 y2 color g =
     (let dx = (if x2 > x1 then x2 - x1 else x1 - x2);
          dy = (if y2 > y1 then y2 - y1 else y1 - y2);
          sx = (if x1 < x2 then 1 else - 1);
          sy = (if y1 < y2 then 1 else - 1)
      in if list_all int32 [dx, dy] then line_loop dx dy sx sy x2 y2 color (dx - dy) x1 y1 g else None)"

section \<open>Characters\<close>

definition font_basic_8x8 :: "u8 list list" where
  "font_basic_8x8 = [
     [0x00, 0x00, 0x00, 0x00, 0x00, 0x00, 0x00, 0x00],
     [0x18, 0x3C, 0x3C, 0x18, 0x18, 0x00, 0x18, 0x00],
     [0x6C, 0x6C, 0x00, 0x00, 0x00, 0x00, 0x00, 0x00],
     [0x6C, 0x6C, 0xFE, 0x6C, 0xFE, 0x6C, 0x6C, 0x00],
     [0x18, 0x7E, 0xC0, 0x7C, 0x06, 0xFC, 0x18, 0x00],
     [0x00, 0xC6, 0xCC, 0x18, 0x30, 0x66, 0xC6, 0x00],
     [0x38, 0x6C, 0x38, 0x76, 0xDC, 0xCC, 0x76, 0x00],
     [0x18, 0x18, 0x30, 0x00, 0x00, 0x00, 0x00, 0x00],
     [0x0C, 0x18, 0x30, 0x30, 0x30, 0x18, 0x0C, 0x00],
     [0x30, 0x18, 0x0C, 0x0C, 0x0C, 0x18, 0x30, 0x00],
     [0x00, 0x66, 0x3C, 0xFF, 0x3C, 0x66, 0x00, 0x00],
     [0x00, 0x18, 0x18, 0x7E, 0x18, 0x18, 0x00, 0x00],
     [0x00, 0x00, 0x00, 0x00, 0x00, 0x18, 0x18, 0x30],
     [0x00, 0x00, 0x00, 0x7E, 0x00, 0x00, 0x00, 0x00],
     [0x00, 0x00, 0x00, 0x00, 0x00, 0x18, 0x18, 0x00],
     [0x00, 0x06, 0x0C, 0x18, 0x30, 0x60, 0x00, 0x00],
     [0x3C, 0x66, 0x6E, 0x7E, 0x76, 0x66, 0x3C, 0x00],
     [0x18, 0x38, 0x18, 0x18, 0x18, 0x18, 0x3C, 0x00],
     [0x3C, 0x66, 0x06, 0x3C, 0x60, 0x66, 0x7E, 0x00],
     [0x3C, 0x66, 0x06, 0x1C, 0x06, 0x66, 0x3C, 0x00],
     [0x1C, 0x3C, 0x6C, 0xCC, 0xFE, 0x0C, 0x0C, 0x00],
     [0x7E, 0x60, 0x7C, 0x06, 0x06, 0x66, 0x3C, 0x00],
     [0x3C, 0x66, 0x60, 0x7C, 0x66, 0x66, 0x3C, 0x00],
     [0x7E, 0x06, 0x0C, 0x18, 0x30, 0x30, 0x30, 0x00],
     [0x3C, 0x66, 0x66, 0x3C, 0x66, 0x66, 0x3C, 0x00],
     [0x3C, 0x66, 0x66, 0x3E, 0x06, 0x66, 0x3C, 0x00],
     [0x00, 0x18, 0x18, 0x00, 0x18, 0x18, 0x00, 0x00],
     [0x00, 0x18, 0x18, 0x00, 0x18, 0x18, 0x30, 0x00],
     [0x00, 0x0C, 0x18, 0x30, 0x18, 0x0C, 0x00, 0x00],
     [0x00, 0x00, 0x7E, 0x00, 0x7E, 0x00, 0x00, 0x00],
     [0x00, 0x30, 0x18, 0x0C, 0x18, 0x30, 0x00, 0x00],
     [0x3C, 0x66, 0x06, 0x0C, 0x18, 0x00, 0x18, 0x00],
     [0x3C, 0x66, 0x6E, 0x6E, 0x60, 0x62, 0x3C, 0x00],
     [0x18, 0x3C, 0x66, 0x66, 0x7E, 0x66, 0x66, 0x00],
     [0x7C, 0x66, 0x66, 0x7C, 0x66, 0x66, 0x7C, 0x00],
     [0x3C, 0x66, 0x60, 0x60, 0x60, 0x66, 0x3C, 0x00],
     [0x78, 0x6C, 0x66, 0x66, 0x66, 0x6C, 0x78, 0x00],
     [0x7E, 0x60, 0x60, 0x7C, 0x60, 0x60, 0x7E, 0x00],
     [0x7E, 0x60, 0x60, 0x7C, 0x60, 0x60, 0x60, 0x00],
     [0x3C, 0x66, 0x60, 0x6E, 0x66, 0x66, 0x3C, 0x00],
     [0x66, 0x66, 0x66, 0x7E, 0x66, 0x66, 0x66, 0x00],
     [0x3C, 0x18, 0x18, 0x18, 0x18, 0x18, 0x3C, 0x00],
     [0x06, 0x06, 0x06, 0x06, 0x06, 0x66, 0x3C, 0x00],
     [0x66, 0x6C, 0x78, 0x70, 0x78, 0x6C, 0x66, 0x00],
     [0x60, 0x60, 0x60, 0x60, 0x60, 0x60, 0x7E, 0x00],
     [0x63, 0x77, 0x7F, 0x6B, 0x63, 0x63, 0x63, 0x00],
     [0x66, 0x76, 0x7E, 0x7E, 0x6E, 0x66, 0x66, 0x00],
     [0x3C, 0x66, 0x66, 0x66, 0x66, 0x66, 0x3C, 0x00],
     [0x7C, 0x66, 0x66, 0x7C, 0x60, 0x60, 0x60, 0x00],
     [0x3C, 0x66, 0x66, 0x66, 0x66, 0x6C, 0x36, 0x00],
     [0x7C, 0x66, 0x66, 0x7C, 0x6C, 0x66, 0x66, 0x00],
     [0x3C, 0x66, 0x30, 0x18, 0x0C, 0x66, 0x3C, 0x00],
     [0x7E, 0x5A, 0x18, 0x18, 0x18, 0x18, 0x18, 0x00],
     [0x66, 0x66, 0x66, 0x66, 0x66, 0x66, 0x3C, 0x00],
     [0x66, 0x66, 0x66, 0x66, 0x66, 0x3C, 0x18, 0x00],
     [0x63, 0x63, 0x63, 0x6B, 0x7F, 0x77, 0x63, 0x00],
     [0x66, 0x66, 0x3C, 0x18, 0x3C, 0x66, 0x66, 0x00],
     [0x66, 0x66, 0x66, 0x3C, 0x18, 0x18, 0x18, 0x00],
     [0x7E, 0x0C, 0x18, 0x30, 0x60, 0x60, 0x7E, 0x00],
     [0x3C, 0x30, 0x30, 0x30, 0x30, 0x30, 0x3C, 0x00],
     [0x00, 0x60, 0x30, 0x18, 0x0C, 0x06, 0x00, 0x00],
     [0x3C, 0x0C, 0x0C, 0x0C, 0x0C, 0x0C, 0x3C, 0x00],
     [0x18, 0x3C, 0x66, 0x00, 0x00, 0x00, 0x00, 0x00],
     [0x00, 0x00, 0x00, 0x00, 0x00, 0x00, 0x00, 0xFF],
     [0x30, 0x18, 0x0C, 0x00, 0x00, 0x00, 0x00, 0x00],
     [0x00, 0x00, 0x3C, 0x06, 0x3E, 0x66, 0x3E, 0x00],
     [0x60, 0x60, 0x7C, 0x66, 0x66, 0x66, 0x7C, 0x00],
     [0x00, 0x00, 0x3C, 0x60, 0x60, 0x66, 0x3C, 0x00],
     [0x06, 0x06, 0x3E, 0x66, 0x66, 0x66, 0x3E, 0x00],
     [0x00, 0x00, 0x3C, 0x66, 0x7E, 0x60, 0x3C, 0x00],
     [0x1C, 0x36, 0x30, 0x7C, 0x30, 0x30, 0x30, 0x00],
     [0x00, 0x3E, 0x66, 0x66, 0x3E, 0x06, 0x3C, 0x00],
     [0x60, 0x60, 0x7C, 0x66, 0x66, 0x66, 0x66, 0x00],
     [0x18, 0x18, 0x00, 0x18, 0x18, 0x18, 0x18, 0x00],
     [0x0C, 0x0C, 0x00, 0x0C, 0x0C, 0x0C, 0x0C, 0x78],
     [0x60, 0x60, 0x66, 0x6C, 0x78, 0x6C, 0x66, 0x00],
     [0x30, 0x30, 0x30, 0x30, 0x30, 0x30, 0x1C, 0x00],
     [0x00, 0x00, 0x76, 0x7F, 0x6B, 0x6B, 0x6B, 0x00],
     [0x00, 0x00, 0x7C, 0x66, 0x66, 0x66, 0x66, 0x00],
     [0x00, 0x00, 0x3C, 0x66, 0x66, 0x66, 0x3C, 0x00],
     [0x00, 0x00, 0x7C, 0x66, 0x66, 0x7C, 0x60, 0x60],
     [0x00, 0x00, 0x3E, 0x66, 0x66, 0x3E, 0x06, 0x06],
     [0x00, 0x00, 0x7C, 0x66, 0x60, 0x60, 0x60, 0x00],
     [0x00, 0x00, 0x3E, 0x60, 0x3C, 0x06, 0x3C, 0x00],
     [0x30, 0x30, 0x7C, 0x30, 0x30, 0x30, 0x1C, 0x00],
     [0x00, 0x00, 0x66, 0x66, 0x66, 0x66, 0x3E, 0x00],
     [0x00, 0x00, 0x66, 0x66, 0x66, 0x3C, 0x18, 0x00],
     [0x00, 0x00, 0x63, 0x6B, 0x6B, 0x7F, 0x36, 0x00],
     [0x00, 0x00, 0x66, 0x3C, 0x18, 0x3C, 0x66, 0x00],
     [0x00, 0x00, 0x66, 0x66, 0x66, 0x3E, 0x06, 0x3C],
     [0x00, 0x00, 0x7E, 0x0C, 0x18, 0x30, 0x7E, 0x00],
     [0x1C, 0x30, 0x30, 0x60, 0x30, 0x30, 0x1C, 0x00],
     [0x18, 0x18, 0x18, 0x18, 0x18, 0x18, 0x18, 0x00],
     [0x70, 0x18, 0x18, 0x0C, 0x18, 0x18, 0x70, 0x00],
     [0x00, 0x00, 0x76, 0xDC, 0x00, 0x00, 0x00, 0x00],
     [0xFF, 0xFF, 0xFF, 0xFF, 0xFF, 0xFF, 0xFF, 0xFF]]"

definition gfx_put_char :: "int \<Rightarrow> int \<Rightarrow> u8 \<Rightarrow> u32 \<Rightarrow> gfx_state \<Rightarrow> gfx_state" where
  "gfx_put_char x y c color g =
     (if c < 32 \<or> c > 127 then g
      else let glyph = font_basic_8x8 ! unat (c - 32)
           in for_int 0 8 (\<lambda>i. for_int 0 8 (\<lambda>j g.
                if (glyph ! nat i) AND drop_bit (nat j) 0x80 \<noteq> 0 then gfx_put_pixel (x + j) (y + i) color g else g)) g)"

text \<open>The string up to its terminating zero, which may be the end of the list.\<close>

fun puts_loop :: "int \<Rightarrow> int \<Rightarrow> int \<Rightarrow> u8 list \<Rightarrow> u32 \<Rightarrow> gfx_state \<Rightarrow> gfx_state" where
  "puts_loop x cur_x y [] color g = g"
| "puts_loop x cur_x y (c # cs) color g =
     (if c = 0 then g
      else if c = 10 then puts_loop x x (y + 8) cs color g
      else puts_loop x (cur_x + 8) y cs color (gfx_put_char cur_x y c color g))"

definition gfx_puts :: "int \<Rightarrow> int \<Rightarrow> u8 list \<Rightarrow> u32 \<Rightarrow> gfx_state \<Rightarrow> gfx_state" where
  "gfx_puts x y str color = puts_loop x x y str color"

section \<open>The screen\<close>

definition swap_pixel :: "nat \<Rightarrow> nat \<Rightarrow> gfx_state \<Rightarrow> gfx_state" where
  "swap_pixel i k g =
     (case (backbuffer g, frontbuffer g) of
        (Some b, Some f) \<Rightarrow>
          if b ! i \<noteq> f ! i then g\<lparr>vram := (vram g)(k := b ! i), frontbuffer := Some (f[i := b ! i])\<rparr> else g
      | _ \<Rightarrow> g)"

definition swap_row :: "u32 \<Rightarrow> u32 \<Rightarrow> u32 \<Rightarrow> gfx_state \<times> nat \<Rightarrow> gfx_state \<times> nat" where
  "swap_row lfb_pitch_words w y =
     fold (\<lambda>x (g, i). (swap_pixel i (unat (y * lfb_pitch_words + of_nat x)) g, i + 1)) [0..<unat w]"

definition gfx_swap_buffers :: "gfx_state \<Rightarrow> gfx_state" where
  "gfx_swap_buffers g =
     (let v = vbe g in
      if backbuffer g = None \<or> frontbuffer g = None \<or> lfb v = 0 then g
      else if pitch v = width v * 4
      then fold (\<lambda>i. swap_pixel i i) [0..<unat (width v * height v)] g
      else fst (fold (\<lambda>y. swap_row (pitch v div 4) (width v) (of_nat y)) [0..<unat (height v)] (g, 0)))"

text \<open>The two buffers come from the kernel heap; their contents are zeroed first.\<close>

definition gfx_init :: "vbe_info \<Rightarrow> gfx_state \<Rightarrow> kheap_state \<Rightarrow> (gfx_state \<times> kheap_state) option" where
  "gfx_init v g s =
     (let g0 = g\<lparr>vbe := v\<rparr>
      in if lfb v = 0 then Some (g0, s)
         else let buffer_size = width v * height v * 4;
                  zeroed = (\<lambda>p. if p = 0 then None else Some (replicate (unat buffer_size div 4) 0))
              in do { (p, s1) \<leftarrow> kmalloc buffer_size s;
                      (q, s2) \<leftarrow> kmalloc buffer_size s1;
                      Some (gfx_swap_buffers (gfx_clear 0x000A1628
                        (g0\<lparr>backbuffer := zeroed p, frontbuffer := zeroed q\<rparr>)), s2) })"

section \<open>Images\<close>

text \<open>The header of a TGA image, by the offsets of its packed fields.\<close>

record tga_header_t =
  id_length :: u8
  image_type :: u8
  tga_width :: u16
  tga_height :: u16
  bits_per_pixel :: u8
  image_descriptor :: u8

definition tga_header :: "(nat \<Rightarrow> u8) \<Rightarrow> tga_header_t" where
  "tga_header data = \<lparr>id_length = data 0, image_type = data 2,
     tga_width = ucast (data 12) OR push_bit 8 (ucast (data 13)),
     tga_height = ucast (data 14) OR push_bit 8 (ucast (data 15)),
     bits_per_pixel = data 16, image_descriptor = data 17\<rparr>"

definition gfx_draw_tga :: "int \<Rightarrow> int \<Rightarrow> (nat \<Rightarrow> u8) option \<Rightarrow> gfx_state \<Rightarrow> gfx_state" where
  "gfx_draw_tga x y img g =
     (case img of
        None \<Rightarrow> g
      | Some data \<Rightarrow>
          let header = tga_header data;
              pixels = 18 + unat (id_length header);
              bytespp = unat (bits_per_pixel header) div 8
          in if image_type header \<noteq> 2 \<and> image_type header \<noteq> 10 then g
             else for_int 0 (uint (tga_height header)) (\<lambda>j. for_int 0 (uint (tga_width header)) (\<lambda>i g.
               let rj = (if image_descriptor header AND 0x20 \<noteq> 0 then j else uint (tga_height header) - 1 - j);
                   p = (\<lambda>k. ucast (data (pixels + nat (j * uint (tga_width header) + i) * bytespp + k)) :: u32)
               in if bytespp = 3
                  then gfx_put_pixel (x + i) (y + rj) (push_bit 16 (p 2) OR push_bit 8 (p 1) OR p 0) g
                  else if bytespp = 4
                  then gfx_put_pixel_alpha (x + i) (y + rj)
                         ((push_bit 24 (p 3) OR push_bit 16 (p 2) OR push_bit 8 (p 1) OR p 0) AND 0xFFFFFF)
                         (ucast (p 3)) g
                  else g)) g)"

section \<open>Lines end and connect their ends\<close>

text \<open>One round of the loop: error term and position.\<close>

definition line_step :: "int \<Rightarrow> int \<Rightarrow> int \<Rightarrow> int \<Rightarrow> int \<times> int \<times> int \<Rightarrow> int \<times> int \<times> int" where
  "line_step dx dy sx sy = (\<lambda>(err, x, y).
     (err - (if 2 * err > - dy then dy else 0) + (if 2 * err < dx then dx else 0),
      if 2 * err > - dy then x + sx else x, if 2 * err < dx then y + sy else y))"

primrec line_trace :: "nat \<Rightarrow> int \<Rightarrow> int \<Rightarrow> int \<Rightarrow> int \<Rightarrow> int \<times> int \<times> int \<Rightarrow> (int \<times> int) list" where
  "line_trace 0 dx dy sx sy p = [snd p]"
| "line_trace (Suc n) dx dy sx sy p = snd p # line_trace n dx dy sx sy (line_step dx dy sx sy p)"

definition neighbours :: "int \<times> int \<Rightarrow> int \<times> int \<Rightarrow> bool" where
  "neighbours p q \<longleftrightarrow> \<bar>fst q - fst p\<bar> \<le> 1 \<and> \<bar>snd q - snd p\<bar> \<le> 1"

text \<open>No number of the round overflows.\<close>

definition line_safe :: "int \<Rightarrow> int \<Rightarrow> int \<Rightarrow> int \<Rightarrow> int \<times> int \<times> int \<Rightarrow> bool" where
  "line_safe dx dy sx sy = (\<lambda>(err, x, y). case line_step dx dy sx sy (err, x, y) of (err2, x', y') \<Rightarrow>
     list_all int32 [2 * err, if 2 * err > - dy then err - dy else err, x', err2, y'])"

lemma line_loop_trace:
  assumes "\<And>k. k < n \<Longrightarrow> snd ((line_step dx dy sx sy ^^ k) p) \<noteq> (x2, y2)"
    "snd ((line_step dx dy sx sy ^^ n) p) = (x2, y2)"
    "\<And>k. k < n \<Longrightarrow> line_safe dx dy sx sy ((line_step dx dy sx sy ^^ k) p)"
  shows "line_loop dx dy sx sy x2 y2 color (fst p) (fst (snd p)) (snd (snd p)) g =
    Some (fold (\<lambda>(x, y). gfx_put_pixel x y color) (line_trace n dx dy sx sy p) g)"
  using assms
proof (induction n arbitrary: p g)
  case 0
  then show ?case by (subst line_loop.simps) (simp add: split_beta)
next
  case (Suc n)
  let ?q = "line_step dx dy sx sy p"
  have "snd ((line_step dx dy sx sy ^^ k) ?q) \<noteq> (x2, y2)" if "k < n" for k
    using Suc.prems(1) [of "Suc k"] that by (simp add: funpow_swap1)
  moreover have "snd ((line_step dx dy sx sy ^^ n) ?q) = (x2, y2)"
    using Suc.prems(2) by (simp add: funpow_swap1)
  moreover have "line_safe dx dy sx sy ((line_step dx dy sx sy ^^ k) ?q)" if "k < n" for k
    using Suc.prems(3) [of "Suc k"] that by (simp add: funpow_swap1)
  ultimately have IH: "line_loop dx dy sx sy x2 y2 color (fst ?q) (fst (snd ?q)) (snd (snd ?q)) g' =
      Some (fold (\<lambda>(x, y). gfx_put_pixel x y color) (line_trace n dx dy sx sy ?q) g')" for g'
    by (rule Suc.IH)
  have "snd p \<noteq> (x2, y2)" "line_safe dx dy sx sy p" using Suc.prems(1,3) [of 0] by simp_all
  then have "line_loop dx dy sx sy x2 y2 color (fst p) (fst (snd p)) (snd (snd p)) g =
      line_loop dx dy sx sy x2 y2 color (fst ?q) (fst (snd ?q)) (snd (snd ?q))
        (gfx_put_pixel (fst (snd p)) (snd (snd p)) color g)"
    by (subst line_loop.simps) (auto simp: line_step_def line_safe_def Let_def split_beta prod_eq_iff split: if_splits)
  then show ?case using IH by (cases p) simp
qed

lemma length_line_trace [simp]: "length (line_trace n dx dy sx sy p) = Suc n"
  by (induction n arbitrary: p) auto

lemma hd_line_trace [simp]: "hd (line_trace n dx dy sx sy p) = snd p"
  by (cases n) auto

lemma line_trace_nonempty [simp]: "line_trace n dx dy sx sy p \<noteq> []"
  by (cases n) auto

lemma last_line_trace: "last (line_trace n dx dy sx sy p) = snd ((line_step dx dy sx sy ^^ n) p)"
  by (induction n arbitrary: p) (auto simp: funpow_swap1)

lemma line_step_neighbours: "\<lbrakk>\<bar>sx\<bar> = 1; \<bar>sy\<bar> = 1\<rbrakk> \<Longrightarrow> neighbours (snd p) (snd (line_step dx dy sx sy p))"
  by (cases p) (auto simp: line_step_def neighbours_def)

lemma successively_line_trace:
  "\<lbrakk>\<bar>sx\<bar> = 1; \<bar>sy\<bar> = 1\<rbrakk> \<Longrightarrow> successively neighbours (line_trace n dx dy sx sy p)"
  by (induction n arbitrary: p) (auto simp: successively_Cons line_step_neighbours)

text \<open>
  Along the longer side every round advances, and the error term stays in bounds that leave
  exactly one possibility when the last column is reached.
\<close>

lemma line_invariant:
  assumes "0 \<le> dy" "dy \<le> dx" "0 < dx"
  shows "\<exists>j. (line_step dx dy sx sy ^^ k) (dx - dy, x, y) =
    (dx - dy - int k * dy + j * dx, x + int k * sx, y + j * sy) \<and>
    (if dx = dy then j = int k
     else - dy < 2 * (dx - dy - int k * dy + j * dx) \<and> 2 * (dx - dy - int k * dy + j * dx) < 3 * dx - 2 * dy)"
proof (induction k)
  case 0
  show ?case using assms by (intro exI [of _ 0]) auto
next
  case (Suc k)
  then obtain j where j: "(line_step dx dy sx sy ^^ k) (dx - dy, x, y) =
      (dx - dy - int k * dy + j * dx, x + int k * sx, y + j * sy)"
    and b: "if dx = dy then j = int k
      else - dy < 2 * (dx - dy - int k * dy + j * dx) \<and> 2 * (dx - dy - int k * dy + j * dx) < 3 * dx - 2 * dy"
    by blast
  define e where "e = dx - dy - int k * dy + j * dx"
  have step: "(line_step dx dy sx sy ^^ Suc k) (dx - dy, x, y) = line_step dx dy sx sy (e, x + int k * sx, y + j * sy)"
    using j by (simp add: e_def)
  show ?case
  proof (cases "dx = dy")
    case True
    then have "e = 0" using b by (simp add: e_def)
    then show ?thesis unfolding step using True b assms
      by (intro exI [of _ "j + 1"]) (auto simp: line_step_def algebra_simps)
  next
    case False
    then have e: "- dy < 2 * e" "2 * e < 3 * dx - 2 * dy" using b by (simp_all add: e_def)
    let ?j = "if 2 * e < dx then j + 1 else j"
    have "dx - dy - int (Suc k) * dy + ?j * dx = e - dy + (if 2 * e < dx then dx else 0)"
      by (simp add: e_def algebra_simps)
    then show ?thesis unfolding step using False assms e
      by (intro exI [of _ ?j]) (auto simp: line_step_def algebra_simps)
  qed
qed

lemma line_long_x_columns:
  assumes "0 \<le> dy" "dy \<le> dx" "\<bar>sx\<bar> = 1"
  shows "snd ((line_step dx dy sx sy ^^ nat dx) (dx - dy, x, y)) = (x + dx * sx, y + dy * sy) \<and>
    (\<forall>k<nat dx. fst (snd ((line_step dx dy sx sy ^^ k) (dx - dy, x, y))) \<noteq> x + dx * sx)"
proof (cases "dx = 0")
  case True
  then show ?thesis using assms by simp
next
  case False
  then have pos: "0 < dx" using assms by linarith
  note inv = line_invariant [OF assms(1,2) pos, where sx = sx and sy = sy and x = x and y = y]
  obtain j where j: "(line_step dx dy sx sy ^^ nat dx) (dx - dy, x, y) =
      (dx - dy - dx * dy + j * dx, x + dx * sx, y + j * sy)"
    and b: "if dx = dy then j = dx
      else - dy < 2 * (dx - dy - dx * dy + j * dx) \<and> 2 * (dx - dy - dx * dy + j * dx) < 3 * dx - 2 * dy"
    using inv [of "nat dx"] pos by (auto simp only: int_nat_eq order_less_imp_le if_True)
  have "j = dy"
  proof (cases "dx = dy")
    case False
    have "2 * (dx * (dy - j)) < 2 * dx" "2 * (dx * (j - dy)) < dx"
      using b False assms by (auto simp: algebra_simps)
    then have "dx * (dy - j) < dx * 1" "dx * (j - dy) < dx * 1" using pos by linarith+
    then have "dy - j < 1" "j - dy < 1" using pos by (simp_all only: mult_less_cancel_left_pos)
    then show ?thesis by linarith
  qed (use b in simp)
  moreover have "fst (snd ((line_step dx dy sx sy ^^ k) (dx - dy, x, y))) = x + int k * sx" for k
    using inv [of k] by (metis fst_conv snd_conv)
  ultimately show ?thesis using j assms(3) by auto
qed

lemmas line_long_x = line_long_x_columns [THEN conjunct1]
  line_long_x_columns [THEN conjunct2, rule_format]

text \<open>Exchanging the two axes negates the error term.\<close>

definition flip :: "int \<times> int \<times> int \<Rightarrow> int \<times> int \<times> int" where "flip = (\<lambda>(e, x, y). (- e, y, x))"

lemma line_step_flip: "line_step dx dy sx sy p = flip (line_step dy dx sy sx (flip p))"
  by (cases p) (auto simp: line_step_def flip_def)

lemma flip_flip [simp]: "flip (flip p) = p"
  by (simp add: flip_def split_beta)

lemma line_steps_flip: "(line_step dx dy sx sy ^^ k) p = flip ((line_step dy dx sy sx ^^ k) (flip p))"
proof (induction k)
  case (Suc k)
  have "(line_step dx dy sx sy ^^ Suc k) p = line_step dx dy sx sy (flip ((line_step dy dx sy sx ^^ k) (flip p)))"
    using Suc by simp
  also have "\<dots> = flip (line_step dy dx sy sx ((line_step dy dx sy sx ^^ k) (flip p)))"
    by (subst line_step_flip) simp
  finally show ?case by simp
qed simp

lemma line_steps:
  assumes "0 \<le> dx" "0 \<le> dy" "\<bar>sx\<bar> = 1" "\<bar>sy\<bar> = 1"
  shows "snd ((line_step dx dy sx sy ^^ nat (max dx dy)) (dx - dy, x, y)) = (x + dx * sx, y + dy * sy)"
    "k < nat (max dx dy) \<Longrightarrow>
       snd ((line_step dx dy sx sy ^^ k) (dx - dy, x, y)) \<noteq> (x + dx * sx, y + dy * sy)"
proof -
  have sw: "snd (flip p) = (snd (snd p), fst (snd p))" for p by (simp add: flip_def split_beta)
  have ini: "flip (dx - dy, x, y) = (dy - dx, y, x)" by (simp add: flip_def)
  show "snd ((line_step dx dy sx sy ^^ nat (max dx dy)) (dx - dy, x, y)) = (x + dx * sx, y + dy * sy)"
    using line_long_x(1) [where dx = dx and dy = dy and sx = sx and sy = sy and x = x and y = y]
      line_long_x(1) [where dx = dy and dy = dx and sx = sy and sy = sx and x = y and y = x] assms
    by (cases "dy \<le> dx") (simp_all add: max_def line_steps_flip [where dx = dx and dy = dy] sw ini)
  show "snd ((line_step dx dy sx sy ^^ k) (dx - dy, x, y)) \<noteq> (x + dx * sx, y + dy * sy)"
    if "k < nat (max dx dy)"
  proof (cases "dy \<le> dx")
    case True
    then show ?thesis using line_long_x(2) [where dx = dx and dy = dy and sx = sx and sy = sy and x = x and y = y and k = k] assms that by (auto simp: max_def)
  next
    case False
    then show ?thesis using line_long_x(2) [where dx = dy and dy = dx and sx = sy and sy = sx and x = y and y = x and k = k] assms that
      by (auto simp: max_def line_steps_flip [where dx = dx and dy = dy] sw ini)
  qed
qed

lemma line_err_bound:
  assumes "0 \<le> dx" "0 \<le> dy" "0 < max dx dy"
  shows "\<bar>2 * fst ((line_step dx dy sx sy ^^ k) (dx - dy, x, y))\<bar> \<le> 3 * max dx dy"
proof -
  have long: "\<bar>2 * fst ((line_step dx dy sx sy ^^ k) (dx - dy, x, y))\<bar> \<le> 3 * dx" if "0 \<le> dy" "dy \<le> dx" "0 < dx" for dx dy sx sy x y :: int
    using line_invariant [OF that, where k = k and sx = sx and sy = sy and x = x and y = y] that by (auto split: if_splits)
  show ?thesis
  proof (cases "dy \<le> dx")
    case True
    then show ?thesis using long [of dy dx] assms by (simp add: max_def)
  next
    case False
    have "fst (flip p) = - fst p" for p by (simp add: flip_def split_beta)
    moreover have "flip (dx - dy, x, y) = (dy - dx, y, x)" by (simp add: flip_def)
    ultimately show ?thesis using long [of dx dy sy sx y x] False assms
      by (simp add: max_def line_steps_flip [where dx = dx and dy = dy] split del: abs_split)
  qed
qed

lemma line_position_bound:
  assumes "\<bar>sx\<bar> = 1" "\<bar>sy\<bar> = 1"
  shows "\<bar>fst (snd ((line_step dx dy sx sy ^^ k) p)) - fst (snd p)\<bar> \<le> int k \<and> \<bar>snd (snd ((line_step dx dy sx sy ^^ k) p)) - snd (snd p)\<bar> \<le> int k"
proof (induction k)
  case (Suc k)
  then show ?case using line_step_neighbours [OF assms, of "(line_step dx dy sx sy ^^ k) p" dx dy] by (auto simp: neighbours_def)
qed simp

lemma line_safe_steps:
  assumes "0 \<le> dx" "dx \<le> 2 ^ 29" "0 \<le> dy" "dy \<le> 2 ^ 29" "\<bar>sx\<bar> = 1" "\<bar>sy\<bar> = 1" "\<bar>x\<bar> \<le> 2 ^ 28" "\<bar>y\<bar> \<le> 2 ^ 28" "k < nat (max dx dy)"
  shows "line_safe dx dy sx sy ((line_step dx dy sx sy ^^ k) (dx - dy, x, y))"
proof -
  let ?q = "\<lambda>k. (line_step dx dy sx sy ^^ k) (dx - dy, x, y)"
  have m: "0 < max dx dy" "max dx dy \<le> 2 ^ 29" "int k < 2 ^ 29" using assms by auto
  have e: "\<bar>2 * fst (?q k)\<bar> \<le> 3 * 2 ^ 29" "\<bar>2 * fst (?q (Suc k))\<bar> \<le> 3 * 2 ^ 29"
    using line_err_bound [OF assms(1,3) m(1), where sx = sx and sy = sy and x = x and y = y and k = k]
      line_err_bound [OF assms(1,3) m(1), where sx = sx and sy = sy and x = x and y = y and k = "Suc k"] m(2) by linarith+
  have p: "\<bar>fst (snd (?q (Suc k)))\<bar> \<le> 2 ^ 30" "\<bar>snd (snd (?q (Suc k)))\<bar> \<le> 2 ^ 30"
    using line_position_bound [OF assms(5,6), where dx = dx and dy = dy and k = "Suc k" and p = "(dx - dy, x, y)"] assms(7,8) m(3) by auto
  have "?q (Suc k) = line_step dx dy sx sy (?q k)" by simp
  then show ?thesis using e p assms(3,4) by (cases "?q k"; cases "?q (Suc k)") (auto simp: line_safe_def int32_def)
qed

text \<open>
  C28. \<^verbatim>\<open>gfx_draw_line\<close> leaves its endless loop for all end points with coordinates of at most \<open>2 ^ 28\<close>
  in amount, without an overflow of its 32-bit numbers, and draws a connected path: it puts one
  pixel more than the longer side has steps, the first at the one end, the last at the other, each
  one a neighbour of the one before, and does nothing else.
\<close>

theorem gfx_draw_line_path:
  assumes "list_all (\<lambda>c. \<bar>c\<bar> \<le> 2 ^ 28) [x1, y1, x2, y2]"
  shows "\<exists>ps. gfx_draw_line x1 y1 x2 y2 color g = Some (fold (\<lambda>(x, y). gfx_put_pixel x y color) ps g) \<and>
     length ps = nat (max \<bar>x2 - x1\<bar> \<bar>y2 - y1\<bar>) + 1 \<and> hd ps = (x1, y1) \<and> last ps = (x2, y2) \<and>
     successively neighbours ps"
proof -
  define sx sy :: int where "sx = (if x1 < x2 then 1 else - 1)" and "sy = (if y1 < y2 then 1 else - 1)"
  let ?dx = "\<bar>x2 - x1\<bar>" and ?dy = "\<bar>y2 - y1\<bar>"
  let ?n = "nat (max ?dx ?dy)" and ?p = "(?dx - ?dy, x1, y1)"
  have s: "\<bar>sx\<bar> = 1" "\<bar>sy\<bar> = 1" "x1 + ?dx * sx = x2" "y1 + ?dy * sy = y2"
    by (auto simp: sx_def sy_def)
  have d: "0 \<le> ?dx" "?dx \<le> 2 ^ 29" "0 \<le> ?dy" "?dy \<le> 2 ^ 29" "\<bar>x1\<bar> \<le> 2 ^ 28" "\<bar>y1\<bar> \<le> 2 ^ 28" using assms by auto
  have "gfx_draw_line x1 y1 x2 y2 color g = line_loop ?dx ?dy sx sy x2 y2 color (fst ?p) (fst (snd ?p)) (snd (snd ?p)) g"
  proof -
    have "(if x2 > x1 then x2 - x1 else x1 - x2) = ?dx" "(if y2 > y1 then y2 - y1 else y1 - y2) = ?dy" by simp_all
    moreover have "list_all int32 [?dx, ?dy]" using d(1-4) by (simp add: int32_def, linarith)
    ultimately show ?thesis by (simp only: gfx_draw_line_def Let_def sx_def sy_def fst_conv snd_conv if_True)
  qed
  moreover have "line_loop ?dx ?dy sx sy x2 y2 color (fst ?p) (fst (snd ?p)) (snd (snd ?p)) g = Some (fold (\<lambda>(x, y). gfx_put_pixel x y color) (line_trace ?n ?dx ?dy sx sy ?p) g)"
    using line_steps [where dx = ?dx and dy = ?dy and sx = sx and sy = sy and x = x1 and y = y1] s
      line_safe_steps [OF d(1-4) s(1,2) d(5,6)] by (intro line_loop_trace) simp_all
  ultimately show ?thesis
    using s line_steps(1) [where dx = ?dx and dy = ?dy and sx = sx and sy = sy and x = x1 and y = y1]
    by (intro exI [of _ "line_trace ?n ?dx ?dy sx sy ?p"])
      (simp add: last_line_trace successively_line_trace)
qed

theorem gfx_draw_line_path_witness:
  "\<forall>g. \<exists>ps. gfx_draw_line 3 4 1 9 7 g = Some (fold (\<lambda>(x, y). gfx_put_pixel x y 7) ps g) \<and> length ps = 6 \<and> hd ps = (3, 4) \<and> last ps = (1, 9)"
proof
  fix g
  show "\<exists>ps. gfx_draw_line 3 4 1 9 7 g = Some (fold (\<lambda>(x, y). gfx_put_pixel x y 7) ps g) \<and> length ps = 6 \<and> hd ps = (3, 4) \<and> last ps = (1, 9)"
    using gfx_draw_line_path [of 3 4 1 9 7 g] by auto
qed

section \<open>What drawing changes\<close>

text \<open>The screen fits the address space and both buffers have one entry per pixel.\<close>

definition size_ok :: "vbe_info \<Rightarrow> bool" where
  "size_ok v \<longleftrightarrow> unat (width v) * unat (height v) * 4 < 2 ^ 32"

definition gfx_ok :: "gfx_state \<Rightarrow> bool" where
  "gfx_ok g \<longleftrightarrow> size_ok (vbe g) \<and>
     pred_option (\<lambda>b. length b = unat (width (vbe g)) * unat (height (vbe g))) (backbuffer g) \<and>
     pred_option (\<lambda>f. length f = unat (width (vbe g)) * unat (height (vbe g))) (frontbuffer g)"

text \<open>The picture in the back buffer.\<close>

definition pixels :: "gfx_state \<Rightarrow> int \<Rightarrow> int \<Rightarrow> u32 option" where
  "pixels g x y = (if on_screen (vbe g) x y then map_option (\<lambda>b. b ! pixel_index (vbe g) x y) (backbuffer g) else None)"

lemma sint_pos: "0 < sint (w :: u32) \<Longrightarrow> sint w = int (unat w)"
proof -
  assume "0 < sint w"
  then have "take_bit LENGTH(32) (sint w) = sint w" using sint_lt [of w] by (intro take_bit_int_eq_self) simp_all
  then have "uint w = sint w" by (simp only: uint_sint)
  then show ?thesis by simp
qed

lemma on_screen_nat:
  "on_screen v x y \<Longrightarrow> 0 \<le> x \<and> nat x < unat (width v) \<and> 0 \<le> y \<and> nat y < unat (height v)"
  using sint_pos [of "width v"] sint_pos [of "height v"] by (auto simp: on_screen_def simp flip: zless_nat_conj nat_less_iff) (simp_all add: nat_less_iff)

lemma row_major_less: "\<lbrakk>(x :: nat) < w; y < h\<rbrakk> \<Longrightarrow> y * w + x < w * h"
proof -
  assume "x < w" "y < h"
  then have "y * w + x < Suc y * w" "Suc y * w \<le> h * w" by (simp, intro mult_le_mono) simp_all
  then show ?thesis by (simp add: mult.commute)
qed

lemma row_major_inj:
  "\<lbrakk>(x :: nat) < w; x' < w; y * w + x = y' * w + x'\<rbrakk> \<Longrightarrow> x = x' \<and> y = y'"
proof -
  assume "x < w" "x' < w" "y * w + x = y' * w + x'"
  then have "(y * w + x) div w = (y' * w + x') div w" "(y * w + x) mod w = (y' * w + x') mod w" by simp_all
  then show ?thesis using \<open>x < w\<close> \<open>x' < w\<close> by simp
qed

lemma unat_row_major:
  "\<lbrakk>x < unat w; y < unat h; unat w * unat h < 2 ^ 32\<rbrakk> \<Longrightarrow>
     unat (of_nat y * w + of_nat x :: u32) = y * unat w + x"
proof -
  assume *: "x < unat w" "y < unat h" "unat w * unat h < 2 ^ 32"
  have "of_nat y * w + of_nat x = (of_nat (y * unat w + x) :: u32)" by simp
  moreover have "y * unat w + x < 2 ^ LENGTH(32)" using row_major_less [OF *(1,2)] *(3) by simp
  ultimately show ?thesis using unat_of_nat_less by metis
qed

lemma pixel_index_eq:
  assumes "on_screen v x y" "size_ok v"
  shows "pixel_index v x y = nat y * unat (width v) + nat x"
proof -
  note s = on_screen_nat [OF assms(1)]
  have "(of_int y :: u32) = of_nat (nat y)" "(of_int x :: u32) = of_nat (nat x)" using s by (metis of_nat_nat of_int_of_nat_eq)+
  then show ?thesis using unat_row_major [of "nat x" "width v" "nat y" "height v"] s assms(2)
    unfolding pixel_index_def size_ok_def by simp (simp add: mult.commute)
qed

lemma pixel_index_less:
  "\<lbrakk>on_screen v x y; size_ok v\<rbrakk> \<Longrightarrow> pixel_index v x y < unat (width v) * unat (height v)"
  using pixel_index_eq on_screen_nat [of v x y] row_major_less by simp

lemma pixel_index_inj:
  "\<lbrakk>on_screen v x y; on_screen v x' y'; size_ok v; pixel_index v x y = pixel_index v x' y'\<rbrakk> \<Longrightarrow> x = x' \<and> y = y'"
  using row_major_inj [of "nat x" "unat (width v)" "nat x'" "nat y" "nat y'"]
    on_screen_nat [of v x y] on_screen_nat [of v x' y'] by (auto simp: pixel_index_eq)

text \<open>
  An operation that gives the pixels of a region one colour, where they are on the screen, and
  changes nothing else.
\<close>

definition paints :: "(int \<Rightarrow> int \<Rightarrow> bool) \<Rightarrow> u32 \<Rightarrow> (gfx_state \<Rightarrow> gfx_state) \<Rightarrow> bool" where
  "paints P color d \<longleftrightarrow> (\<forall>g. gfx_ok g \<longrightarrow> gfx_ok (d g) \<and> (\<exists>b. d g = g\<lparr>backbuffer := b\<rparr>) \<and>
     (\<forall>x y. pixels (d g) x y = (if P x y then map_option (\<lambda>_. color) (pixels g x y) else pixels g x y)))"

lemma paints_put_pixel: "paints (\<lambda>x' y'. x' = x \<and> y' = y) color (gfx_put_pixel x y color)"
  unfolding paints_def
proof (intro allI impI conjI)
  fix g assume ok: "gfx_ok g"
  show "gfx_ok (gfx_put_pixel x y color g)"
    using ok by (auto simp: gfx_put_pixel_def gfx_ok_def split: option.splits)
  show "\<exists>b. gfx_put_pixel x y color g = g\<lparr>backbuffer := b\<rparr>"
  proof (cases "backbuffer g")
    case None
    then have "gfx_put_pixel x y color g = g\<lparr>backbuffer := backbuffer g\<rparr>" by (simp add: gfx_put_pixel_def)
    then show ?thesis ..
  next
    case (Some b)
    then show ?thesis by (cases "on_screen (vbe g) x y") (auto simp: gfx_put_pixel_def intro: exI [of _ "backbuffer g"])
  qed
  fix x' y'
  show "pixels (gfx_put_pixel x y color g) x' y' =
      (if x' = x \<and> y' = y then map_option (\<lambda>_. color) (pixels g x' y') else pixels g x' y')"
    using ok pixel_index_inj [of "vbe g" x y x' y'] pixel_index_less [of "vbe g" x y]
    by (auto simp: gfx_put_pixel_def pixels_def gfx_ok_def nth_list_update split: option.splits)
qed

lemma paints_id: "paints (\<lambda>x y. False) color (\<lambda>g. g)"
proof -
  have "\<exists>b. g = g\<lparr>backbuffer := b\<rparr>" for g :: gfx_state by (rule exI [of _ "backbuffer g"]) simp
  then show ?thesis by (simp add: paints_def)
qed

lemma paints_comp:
  assumes "paints P color d" "paints Q color e"
  shows "paints (\<lambda>x y. P x y \<or> Q x y) color (\<lambda>g. e (d g))"
  unfolding paints_def
proof (intro allI impI conjI)
  fix g assume ok: "gfx_ok g"
  have d: "gfx_ok (d g)" "\<exists>b. d g = g\<lparr>backbuffer := b\<rparr>"
    "\<And>x y. pixels (d g) x y = (if P x y then map_option (\<lambda>_. color) (pixels g x y) else pixels g x y)"
    using assms(1) ok unfolding paints_def by blast+
  have e: "gfx_ok (e (d g))" "\<exists>b. e (d g) = (d g)\<lparr>backbuffer := b\<rparr>"
    "\<And>x y. pixels (e (d g)) x y = (if Q x y then map_option (\<lambda>_. color) (pixels (d g) x y) else pixels (d g) x y)"
    using assms(2) d(1) unfolding paints_def by blast+
  show "gfx_ok (e (d g))" by (rule e(1))
  show "\<exists>b. e (d g) = g\<lparr>backbuffer := b\<rparr>" using d(2) e(2) by auto
  show "pixels (e (d g)) x y = (if P x y \<or> Q x y then map_option (\<lambda>_. color) (pixels g x y) else pixels g x y)" for x y
    by (auto simp: d(3) e(3) option.map_comp comp_def)
qed

lemma paints_mono: "\<lbrakk>paints P color d; \<And>x y. P x y = Q x y\<rbrakk> \<Longrightarrow> paints Q color d"
proof -
  assume "paints P color d" "\<And>x y. P x y = Q x y"
  moreover from this have "P = Q" by (intro ext)
  ultimately show ?thesis by simp
qed

lemma paints_fold:
  "(\<And>k. k \<in> set ks \<Longrightarrow> paints (P k) color (d k)) \<Longrightarrow> paints (\<lambda>x y. \<exists>k\<in>set ks. P k x y) color (fold d ks)"
proof (induction ks)
  case (Cons k ks)
  then have "paints (\<lambda>x y. P k x y \<or> (\<exists>k\<in>set ks. P k x y)) color (\<lambda>g. fold d ks (d k g))"
    by (intro paints_comp) simp_all
  then show ?case by (simp add: comp_def)
qed (simp add: paints_id id_def)

lemma paints_for:
  "(\<And>k. \<lbrakk>lo \<le> k; k < hi\<rbrakk> \<Longrightarrow> paints (P k) color (d k)) \<Longrightarrow>
     paints (\<lambda>x y. \<exists>k. lo \<le> k \<and> k < hi \<and> P k x y) color (for_int lo hi d)"
  unfolding for_int_def by (rule paints_mono [OF paints_fold [of "[lo..hi - 1]" P color d]]) auto

lemma paints_draw_rect:
  "paints (\<lambda>x' y'. x \<le> x' \<and> x' < x + w \<and> y \<le> y' \<and> y' < y + h) color (gfx_draw_rect x y w h color)"
proof -
  have "paints (\<lambda>x' y'. \<exists>i. 0 \<le> i \<and> i < h \<and> (\<exists>j. 0 \<le> j \<and> j < w \<and> x' = x + j \<and> y' = y + i)) color
      (gfx_draw_rect x y w h color)"
    unfolding gfx_draw_rect_def by (intro paints_for paints_put_pixel)
  then show ?thesis
  proof (rule paints_mono)
    fix x' y'
    have *: "(\<exists>j. 0 \<le> j \<and> j < n \<and> a' = a + j) \<longleftrightarrow> a \<le> a' \<and> a' < a + n" for a a' n :: int
      by (auto intro: exI [of _ "a' - a"])
    have "(\<exists>i. 0 \<le> i \<and> i < h \<and> (\<exists>j. 0 \<le> j \<and> j < w \<and> x' = x + j \<and> y' = y + i)) =
        ((\<exists>j. 0 \<le> j \<and> j < w \<and> x' = x + j) \<and> (\<exists>i. 0 \<le> i \<and> i < h \<and> y' = y + i))"
      by blast
    then show "(\<exists>i. 0 \<le> i \<and> i < h \<and> (\<exists>j. 0 \<le> j \<and> j < w \<and> x' = x + j \<and> y' = y + i)) =
        (x \<le> x' \<and> x' < x + w \<and> y \<le> y' \<and> y' < y + h)"
      by (simp only: * conj_assoc)
  qed
qed

section \<open>What the screen shows\<close>

text \<open>The screen memory holds the rows of the picture \<^verbatim>\<open>pitch\<close> bytes apart.\<close>

definition row_words :: "vbe_info \<Rightarrow> nat" where "row_words v = unat (pitch v) div 4"

definition screen_ok :: "vbe_info \<Rightarrow> bool" where
  "screen_ok v \<longleftrightarrow> lfb v \<noteq> 0 \<and> unat (width v) \<le> row_words v \<and> unat (pitch v) * unat (height v) < 2 ^ 32"

text \<open>The pixel a word of the screen memory shows, by its index in the buffers.\<close>

definition shown :: "vbe_info \<Rightarrow> nat \<Rightarrow> nat option" where
  "shown v k =
     (if k mod row_words v < unat (width v) \<and> k div row_words v < unat (height v)
      then Some (k div row_words v * unat (width v) + k mod row_words v) else None)"

text \<open>The front buffer is a copy of what the screen shows.\<close>

definition coherent :: "gfx_state \<Rightarrow> bool" where
  "coherent g \<longleftrightarrow> pred_option (\<lambda>f. \<forall>k i. shown (vbe g) k = Some i \<longrightarrow> vram g k = f ! i) (frontbuffer g)"

text \<open>The reference: copy the whole picture.\<close>

definition copy_buffer :: "gfx_state \<Rightarrow> gfx_state" where
  "copy_buffer g =
     (case backbuffer g of
        None \<Rightarrow> g
      | Some b \<Rightarrow> g\<lparr>frontbuffer := Some b,
          vram := (\<lambda>k. case shown (vbe g) k of None \<Rightarrow> vram g k | Some i \<Rightarrow> b ! i)\<rparr>)"

lemma swap_pixel_frame [simp]: "vbe (swap_pixel i k g) = vbe g" "backbuffer (swap_pixel i k g) = backbuffer g"
  by (simp_all add: swap_pixel_def split: option.splits)

lemma fold_swap_frame [simp]:
  "vbe (fold (\<lambda>i. swap_pixel i (f i)) is g) = vbe g"
  "backbuffer (fold (\<lambda>i. swap_pixel i (f i)) is g) = backbuffer g"
  by (induction "is" arbitrary: g) simp_all

lemma word_of_pixel:
  assumes "0 < w" "w \<le> p"
  shows "k = n div w * p + n mod w \<longleftrightarrow> k mod p < w \<and> k div p * w + k mod p = (n :: nat)"
proof
  assume k: "k = n div w * p + n mod w"
  have m: "n mod w < p" using assms by (meson less_le_trans mod_less_divisor)
  then have "k mod p = n mod w" "k div p = n div w" by (simp_all add: k)
  then show "k mod p < w \<and> k div p * w + k mod p = n" using assms by simp
next
  assume "k mod p < w \<and> k div p * w + k mod p = n"
  then have "n div w = k div p" "n mod w = k mod p" by auto
  then show "k = n div w * p + n mod w" by simp
qed

lemma fold_swap_pixels:
  assumes "backbuffer g = Some b" "frontbuffer g = Some f" "length f = length b" "n \<le> length b" "w \<le> p" "0 < w"
  shows "fold (\<lambda>i. swap_pixel i (i div w * p + i mod w)) [0..<n] g =
    g\<lparr>frontbuffer := Some (take n b @ drop n f),
      vram := (\<lambda>k. let i = k div p * w + k mod p
                   in if k mod p < w \<and> i < n \<and> b ! i \<noteq> f ! i then b ! i else vram g k)\<rparr>"
  using assms(4)
proof (induction n)
  case 0
  then show ?case using assms(2) by simp
next
  case (Suc n)
  let ?k = "n div w * p + n mod w" and ?f = "take n b @ drop n f"
  have n: "n < length b" "n < length f" using Suc.prems assms(3) by simp_all
  have front: "?f ! n = f ! n" "?f[n := b ! n] = take (Suc n) b @ drop (Suc n) f"
    using n by (simp_all add: nth_append list_update_append take_Suc_conv_app_nth Cons_nth_drop_Suc [symmetric])
  have same: "take (Suc n) b @ drop (Suc n) f = ?f" if "b ! n = f ! n"
    using n that by (simp add: take_Suc_conv_app_nth Cons_nth_drop_Suc [symmetric])
  let ?v = "\<lambda>n k. let i = k div p * w + k mod p
                   in if k mod p < w \<and> i < n \<and> b ! i \<noteq> f ! i then b ! i else vram g k"
  have v: "?v (Suc n) = (if b ! n \<noteq> f ! n then (?v n)(?k := b ! n) else ?v n)"
    using word_of_pixel [OF assms(6,5), of _ n] by (auto simp: fun_eq_iff Let_def less_Suc_eq)
  have "fold (\<lambda>i. swap_pixel i (i div w * p + i mod w)) [0..<Suc n] g =
      swap_pixel n ?k (g\<lparr>frontbuffer := Some ?f, vram := ?v n\<rparr>)"
    using Suc by simp
  also have "\<dots> = g\<lparr>frontbuffer := Some (take (Suc n) b @ drop (Suc n) f), vram := ?v (Suc n)\<rparr>"
    unfolding v using assms(1) front same by (simp add: swap_pixel_def del: take_append)
  finally show ?case .
qed

lemma swap_rows:
  assumes "w > 0" "unat h * unat pw < 2 ^ 32" "unat w \<le> unat pw" "n \<le> unat h"
  shows "fold (\<lambda>y. swap_row pw w (of_nat y)) [0..<n] (g, 0) =
    (fold (\<lambda>i. swap_pixel i (i div unat w * unat pw + i mod unat w)) [0..<n * unat w] g, n * unat w)"
  using assms(4)
proof (induction n)
  case (Suc n)
  let ?s = "\<lambda>i. swap_pixel i (i div unat w * unat pw + i mod unat w)"
  have w: "0 < unat w" using assms(1) by (simp add: word_greater_zero_iff unat_gt_0)
  have row: "fold (\<lambda>x (g, i). (swap_pixel i (unat (of_nat n * pw + of_nat x)) g, i + 1)) [0..<m] (g', n * unat w) =
      (fold ?s [n * unat w..<n * unat w + m] g', n * unat w + m)" if "m \<le> unat w" for m g'
    using that
  proof (induction m)
    case (Suc m)
    have "unat (of_nat n * pw + of_nat m) = n * unat pw + m"
      using unat_row_major [of m pw n h] Suc.prems \<open>Suc n \<le> unat h\<close> assms(2,3) by (simp add: mult.commute)
    moreover have "(n * unat w + m) div unat w = n" "(n * unat w + m) mod unat w = m"
      using Suc.prems w by simp_all
    ultimately show ?case using Suc by simp
  qed simp
  have "[0..<Suc n * unat w] = [0..<n * unat w] @ [n * unat w..<n * unat w + unat w]"
    using upt_add_eq_append [of 0 "n * unat w" "unat w"] by (simp only: mult_Suc add.commute [of "unat w"] le0 True_implies_equals)
  then show ?case using Suc row [of "unat w"] by (simp add: swap_row_def)
qed simp

lemma gfx_swap_buffers_eq:
  assumes "gfx_ok g" "screen_ok (vbe g)" "backbuffer g = Some b" "frontbuffer g = Some f"
  shows "gfx_swap_buffers g = g\<lparr>frontbuffer := Some b,
    vram := (\<lambda>k. case shown (vbe g) k of None \<Rightarrow> vram g k | Some i \<Rightarrow> if b ! i \<noteq> f ! i then b ! i else vram g k)\<rparr>"
proof -
  let ?v = "vbe g"
  let ?w = "unat (width ?v)" and ?h = "unat (height ?v)" and ?p = "row_words ?v"
  have len: "length b = ?w * ?h" "length f = ?w * ?h" and sz: "?w * ?h * 4 < 2 ^ 32"
    using assms by (simp_all add: gfx_ok_def size_ok_def)
  have p: "lfb ?v \<noteq> 0" "?w \<le> ?p" "unat (pitch ?v) * ?h < 2 ^ 32" using assms(2) by (simp_all add: screen_ok_def)
  have wh: "unat (width ?v * height ?v) = ?w * ?h"
    using sz unat_mult_lem [of "width ?v" "height ?v"] by simp (simp add: mult.commute)
  show ?thesis
  proof (cases "?w = 0 \<or> ?h = 0")
    case True
    then have "b = []" "f = []" "shown ?v = (\<lambda>k. None)" using len by (auto simp: shown_def)
    moreover have "gfx_swap_buffers g = g"
      using True wh p(1) assms(3,4)
      by (auto simp: gfx_swap_buffers_def Let_def swap_row_def fold_id)
    ultimately show ?thesis using assms(4) by simp
  next
    case False
    then have pos: "0 < ?w" "0 < ?h" by simp_all
    have "gfx_swap_buffers g = fold (\<lambda>i. swap_pixel i (i div ?w * ?p + i mod ?w)) [0..<?h * ?w] g"
    proof (cases "pitch ?v = width ?v * 4")
      case True
      have "?w * 4 < 2 ^ 32" using sz pos by (metis le_less_trans mult_le_mono1 mult.right_neutral mult_le_mono2 Suc_leI One_nat_def)
      then have "?p = ?w" using True by (simp add: row_words_def unat_word_ariths)
      then show ?thesis using True p(1) assms(3,4) wh by (simp add: gfx_swap_buffers_def Let_def mult.commute)
    next
      case False
      have "unat (pitch ?v div 4) = ?p" by (simp add: row_words_def unat_div)
      moreover have "?h * ?p < 2 ^ 32"
      proof -
        have "?h * ?p \<le> ?h * unat (pitch ?v)" by (simp add: row_words_def)
        also have "\<dots> < 2 ^ 32" using p(3) by (simp only: mult.commute)
        finally show ?thesis .
      qed
      ultimately show ?thesis
        using False p assms(3,4) pos swap_rows [of "width ?v" "height ?v" "pitch ?v div 4" ?h g]
        by (simp add: gfx_swap_buffers_def Let_def word_greater_zero_iff unat_gt_0)
    qed
    moreover have "(let i = k div ?p * ?w + k mod ?p in if k mod ?p < ?w \<and> i < ?h * ?w \<and> b ! i \<noteq> f ! i then b ! i else vram g k) =
        (case shown ?v k of None \<Rightarrow> vram g k | Some i \<Rightarrow> if b ! i \<noteq> f ! i then b ! i else vram g k)" for k
    proof -
      have "k div ?p * ?w + k mod ?p < ?h * ?w \<longleftrightarrow> k div ?p < ?h" if "k mod ?p < ?w"
      proof
        assume "k div ?p * ?w + k mod ?p < ?h * ?w"
        then have "k div ?p * ?w < ?h * ?w" by (rule le_less_trans [OF le_add1])
        then show "k div ?p < ?h" by simp
      next
        assume "k div ?p < ?h"
        then show "k div ?p * ?w + k mod ?p < ?h * ?w" using row_major_less [OF that] by (simp only: mult.commute [of ?h])
      qed
      then show ?thesis by (auto simp: shown_def Let_def)
    qed
    ultimately show ?thesis
      using fold_swap_pixels [OF assms(3,4), of "?h * ?w" ?w ?p] len p(2) pos by (simp add: mult.commute)
  qed
qed

text \<open>The drawing operations change nothing but the contents of the back buffer.\<close>

definition draws :: "(gfx_state \<Rightarrow> gfx_state) \<Rightarrow> bool" where
  "draws d \<longleftrightarrow> (\<forall>g. gfx_ok g \<longrightarrow> gfx_ok (d g) \<and> vbe (d g) = vbe g \<and> frontbuffer (d g) = frontbuffer g \<and>
     vram (d g) = vram g \<and> (backbuffer (d g) = None \<longleftrightarrow> backbuffer g = None))"

lemma draws_D:
  "\<lbrakk>draws d; gfx_ok g\<rbrakk> \<Longrightarrow> gfx_ok (d g) \<and> vbe (d g) = vbe g \<and> frontbuffer (d g) = frontbuffer g \<and>
     vram (d g) = vram g \<and> (backbuffer (d g) = None \<longleftrightarrow> backbuffer g = None)"
  unfolding draws_def by blast

lemma draws_id: "draws (\<lambda>g. g)"
  by (simp add: draws_def)

lemma draws_comp: "\<lbrakk>draws d; draws e\<rbrakk> \<Longrightarrow> draws (\<lambda>g. e (d g))"
  unfolding draws_def by simp

lemma draws_fold: "(\<And>k. draws (d k)) \<Longrightarrow> draws (fold d ks)"
proof (induction ks)
  case (Cons k ks)
  then show ?case using draws_comp [of "d k" "fold d ks"] by (simp add: comp_def)
qed (simp add: draws_id id_def)

lemma draws_for: "(\<And>k. draws (d k)) \<Longrightarrow> draws (for_int lo hi d)"
  by (simp add: for_int_def draws_fold)

lemma draws_if: "\<lbrakk>draws d; draws e\<rbrakk> \<Longrightarrow> draws (\<lambda>g. if P then d g else e g)"
  by (cases P) simp_all

lemma draws_update:
  assumes "\<And>g. d g = g \<or> (\<exists>b i c. backbuffer g = Some b \<and> d g = g\<lparr>backbuffer := Some (b[i := c])\<rparr>)"
  shows "draws d"
  unfolding draws_def
proof (intro allI impI)
  fix g assume ok: "gfx_ok g"
  show "gfx_ok (d g) \<and> vbe (d g) = vbe g \<and> frontbuffer (d g) = frontbuffer g \<and>
     vram (d g) = vram g \<and> (backbuffer (d g) = None \<longleftrightarrow> backbuffer g = None)"
    using assms [of g] ok by (auto simp: gfx_ok_def)
qed

lemma draws_put_pixel: "draws (gfx_put_pixel x y color)"
  by (rule draws_update) (auto simp: gfx_put_pixel_def split: option.splits)

lemma draws_put_pixel_alpha: "draws (gfx_put_pixel_alpha x y color alpha)"
  by (rule draws_update) (auto simp: gfx_put_pixel_alpha_def Let_def split: option.splits)

lemma draws_shadow: "draws (gfx_draw_shadow x y w h r)"
  unfolding gfx_draw_shadow_def Let_def
  by (intro draws_for draws_if draws_id draws_put_pixel_alpha)

lemma draws_rect: "draws (gfx_draw_rect x y w h color)"
  unfolding gfx_draw_rect_def by (intro draws_for draws_put_pixel)

lemma draws_rounded_rect: "draws (gfx_draw_rounded_rect x y w h r color)"
proof (cases "r \<le> 0")
  case True
  then have "gfx_draw_rounded_rect x y w h r color = gfx_draw_rect x y w h color"
    by (simp add: gfx_draw_rounded_rect_def fun_eq_iff)
  then show ?thesis by (simp add: draws_rect)
next
  case False
  have four: "draws (\<lambda>g. gfx_put_pixel x4 y4 color (gfx_put_pixel x3 y3 color
      (gfx_put_pixel x2 y2 color (gfx_put_pixel x1 y1 color g))))" for x1 x2 x3 x4 y1 y2 y3 y4
    by (rule draws_comp [OF draws_comp [OF draws_comp [OF draws_put_pixel draws_put_pixel]
      draws_put_pixel] draws_put_pixel])
  have "draws (\<lambda>g. for_int 0 r' (\<lambda>j. for_int 0 r' (\<lambda>i g.
      if (i - r') * (i - r') + (j - r') * (j - r') \<le> r' * r'
      then gfx_put_pixel (x + w - 1 - i) (y + h - 1 - j) color (gfx_put_pixel (x + i) (y + h - 1 - j) color
        (gfx_put_pixel (x + w - 1 - i) (y + j) color (gfx_put_pixel (x + i) (y + j) color g)))
      else g)) (gfx_draw_rect x (y + r') w (h - 2 * r') color
        (gfx_draw_rect (x + r') (y + h - r') (w - 2 * r') r' color
          (gfx_draw_rect (x + r') y (w - 2 * r') r' color g))))" for r'
    by (rule draws_comp [OF draws_comp [OF draws_comp [OF draws_rect draws_rect] draws_rect]
      draws_for [OF draws_for [OF draws_if [OF four draws_id]]]])
  then show ?thesis unfolding gfx_draw_rounded_rect_def Let_def using False by simp
qed

lemma draws_gradient_rect: "draws (gfx_draw_gradient_rect x y w h color1 color2 vertical)"
  unfolding gfx_draw_gradient_rect_def by (cases vertical) (simp_all add: draws_for draws_put_pixel)

lemma draws_put_char: "draws (gfx_put_char x y c color)"
  unfolding gfx_put_char_def Let_def
  by (intro draws_if draws_id draws_for draws_put_pixel)

lemma draws_puts: "draws (gfx_puts x y str color)"
proof -
  have "draws (puts_loop x cx y str color)" for cx
  proof (induction str arbitrary: cx y)
    case Nil
    have "puts_loop x cx y [] color = (\<lambda>g. g)" by (simp add: fun_eq_iff)
    then show ?case by (simp add: draws_id)
  next
    case (Cons c cs)
    have "draws (\<lambda>g. puts_loop x (cx + 8) y cs color (gfx_put_char cx y c color g))"
      by (rule draws_comp [OF draws_put_char Cons.IH])
    moreover have "puts_loop x cx y (c # cs) color = (\<lambda>g. if c = 0 then g
        else if c = 10 then puts_loop x x (y + 8) cs color g
        else puts_loop x (cx + 8) y cs color (gfx_put_char cx y c color g))"
      by (simp add: fun_eq_iff)
    ultimately show ?case using Cons.IH by (simp only:) (intro draws_if draws_id)
  qed
  then show ?thesis by (simp add: gfx_puts_def)
qed

lemma draws_clear: "draws (gfx_clear color)"
proof -
  have "length (fold (\<lambda>i b. b[i := color]) is b) = length b" for "is" and b :: "u32 list"
    by (induction "is" arbitrary: b) simp_all
  then show ?thesis unfolding draws_def
    by (auto simp: gfx_clear_def gfx_ok_def split: option.splits)
qed

lemma draws_tga: "draws (gfx_draw_tga x y img)"
proof (cases img)
  case None
  then have "gfx_draw_tga x y img = (\<lambda>g. g)" by (simp add: gfx_draw_tga_def fun_eq_iff)
  then show ?thesis by (simp add: draws_id)
next
  case (Some data)
  show ?thesis unfolding gfx_draw_tga_def Some option.case Let_def
    by (intro draws_if draws_id draws_for draws_put_pixel draws_put_pixel_alpha)
qed

text \<open>The same for routines without a result on every input.\<close>

definition drawn :: "gfx_state \<Rightarrow> gfx_state \<Rightarrow> bool" where
  "drawn g g' \<longleftrightarrow> gfx_ok g' \<and> vbe g' = vbe g \<and> frontbuffer g' = frontbuffer g \<and>
     vram g' = vram g \<and> (backbuffer g' = None \<longleftrightarrow> backbuffer g = None)"

lemma drawn_refl: "gfx_ok g \<Longrightarrow> drawn g g"
  by (simp add: drawn_def)

lemma drawn_trans: "\<lbrakk>drawn g g1; drawn g1 g2\<rbrakk> \<Longrightarrow> drawn g g2"
  by (simp add: drawn_def)

lemma drawn_draws: "\<lbrakk>draws d; gfx_ok g\<rbrakk> \<Longrightarrow> drawn g (d g)"
  using draws_D [of d g] by (simp add: drawn_def)

lemma drawn_line_loop:
  "line_loop dx dy sx sy x2 y2 color err x1 y1 g = Some g' \<Longrightarrow> gfx_ok g \<longrightarrow> drawn g g'"
proof (induction rule: line_loop.raw_induct [rotated, consumes 1])
  case (1 loop dx dy sx sy x2 y2 color err x1 y1 g g')
  have p: "drawn g (gfx_put_pixel x1 y1 color g)" if "gfx_ok g" using drawn_draws [OF draws_put_pixel that] .
  have "g' = gfx_put_pixel x1 y1 color g \<or>
      (\<exists>a b c. loop dx dy sx sy x2 y2 color a b c (gfx_put_pixel x1 y1 color g) = Some g')"
    using "1"(2) by (auto simp: Let_def split_beta split: if_splits)
  then show ?case
  proof (elim disjE exE)
    fix a b c assume "loop dx dy sx sy x2 y2 color a b c (gfx_put_pixel x1 y1 color g) = Some g'"
    from "1"(1) [OF this] show ?thesis using p drawn_trans by (auto simp: drawn_def)
  qed (use p in simp)
qed

lemma drawn_line: "\<lbrakk>gfx_draw_line x1 y1 x2 y2 color g = Some g'; gfx_ok g\<rbrakk> \<Longrightarrow> drawn g g'"
  using drawn_line_loop by (auto simp: gfx_draw_line_def Let_def split: if_splits)

lemma fold_some_invariant:
  assumes "\<And>k st g'. (\<And>h. st = Some h \<Longrightarrow> P h) \<Longrightarrow> f k st = Some g' \<Longrightarrow> P g'" "\<And>h. st = Some h \<Longrightarrow> P h" "fold f ks st = Some g'"
  shows "P g'"
  using assms(2,3)
proof (induction ks arbitrary: st)
  case (Cons k ks)
  show ?case by (rule Cons.IH [of "f k st"]) (use assms(1) [of st k] Cons.prems in auto)
qed simp

lemma drawn_restore:
  assumes "gfx_restore_rect src x y w h g = Some g'" "gfx_ok g"
  shows "drawn g g'"
proof (cases src)
  case None
  then show ?thesis using assms by (simp add: gfx_restore_rect_def drawn_refl)
next
  case (Some d)
  have step: "drawn g (h\<lparr>backbuffer := Some (b[i := c])\<rparr>)" if "drawn g h" "backbuffer h = Some b" for h b i c
    using that by (auto simp: drawn_def gfx_ok_def)
  have r: "restore_rows d x y w h g = Some g'" using assms(1) Some by (simp add: gfx_restore_rect_def)
  show ?thesis
  proof (rule fold_some_invariant [OF _ _ r [unfolded restore_rows_def for_int_def]])
    fix row st h
    assume st: "\<And>h. st = Some h \<Longrightarrow> drawn g h" and e: "(if \<not> row_on_screen (vbe g) (y + row) then st
       else fold (\<lambda>col st. if column_on_screen (vbe g) (x + col)
         then do { g1 \<leftarrow> st; b \<leftarrow> backbuffer g1;
                   Some (g1\<lparr>backbuffer := Some (b[pixel_index (vbe g) (x + col) (y + row) := d ! nat (row * w + col)])\<rparr>) }
         else st) [0..w - 1] st) = Some h"
    show "drawn g h"
    proof (cases "row_on_screen (vbe g) (y + row)")
      case True
      show ?thesis
        by (rule fold_some_invariant [OF _ st e [unfolded eqTrueI [OF True] not_True_eq_False if_False]])
          (auto intro: step split: if_splits bind_splits)
    qed (use e st in simp)
  qed (use assms(2) drawn_refl in simp)
qed

lemmas draws_all = draws_put_pixel draws_put_pixel_alpha draws_shadow draws_rect draws_rounded_rect
  draws_gradient_rect draws_put_char draws_puts draws_clear draws_tga

section \<open>The picture reaches the screen\<close>

lemma fold_fill: "n \<le> length b \<Longrightarrow> fold (\<lambda>i b. b[i := c]) [0..<n] b = replicate n c @ drop n b"
proof (induction n)
  case (Suc n)
  then have "fold (\<lambda>i b. b[i := c]) [0..<Suc n] b = (replicate n c @ drop n b)[n := c]" by simp
  also have "\<dots> = replicate n c @ c # drop (Suc n) b"
    using Suc.prems by (simp add: list_update_append Cons_nth_drop_Suc [symmetric])
  finally show ?case by (simp add: replicate_append_same)
qed simp

lemma unat_pixels: "size_ok v \<Longrightarrow> unat (width v * height v) = unat (width v) * unat (height v)"
  using unat_mult_lem [of "width v" "height v"] by (simp add: size_ok_def mult.commute)

lemma unat_buffer_size: "size_ok v \<Longrightarrow> unat (width v * height v * 4) div 4 = unat (width v) * unat (height v)"
  using unat_mult_lem [of "width v * height v" 4] by (simp add: unat_pixels) (simp add: size_ok_def)

lemma gfx_clear_eq:
  assumes "gfx_ok g" "backbuffer g = Some b"
  shows "gfx_clear color g = g\<lparr>backbuffer := Some (replicate (unat (width (vbe g)) * unat (height (vbe g))) color)\<rparr>"
  using assms fold_fill [of "length b" b color] by (simp add: gfx_clear_def gfx_ok_def unat_pixels)

lemma shown_less: "shown v k = Some i \<Longrightarrow> i < unat (width v) * unat (height v)"
  by (auto simp: shown_def split: if_splits intro: row_major_less)

text \<open>
  A swap leaves the front buffer equal to the screen when each pixel was shown correctly before
  or differs from its entry in the front buffer.
\<close>

lemma swap_coherent:
  assumes "gfx_ok g" "screen_ok (vbe g)" "backbuffer g = Some b" "frontbuffer g = Some f"
    "\<And>k i. shown (vbe g) k = Some i \<Longrightarrow> b ! i \<noteq> f ! i \<or> vram g k = f ! i"
  shows "gfx_swap_buffers g = copy_buffer g" "coherent (gfx_swap_buffers g)" "gfx_ok (gfx_swap_buffers g)"
proof -
  show eq: "gfx_swap_buffers g = copy_buffer g"
    unfolding gfx_swap_buffers_eq [OF assms(1-4)] using assms(3,5)
    by (auto simp: copy_buffer_def fun_eq_iff split: option.splits)
  show "coherent (gfx_swap_buffers g)" unfolding eq using assms(3)
    by (auto simp: copy_buffer_def coherent_def)
  show "gfx_ok (gfx_swap_buffers g)" unfolding eq using assms(1,3)
    by (auto simp: copy_buffer_def gfx_ok_def)
qed

text \<open>The operations of the interface \<^verbatim>\<open>gfx.h\<close> that draw, and the swap.\<close>

datatype gfx_op =
    Put_pixel int int u32
  | Put_pixel_alpha int int u32 u8
  | Draw_shadow int int int int int
  | Draw_rect int int int int u32
  | Draw_rounded_rect int int int int int u32
  | Draw_gradient_rect int int int int u32 u32 bool
  | Draw_line int int int int u32
  | Put_char int int u8 u32
  | Puts int int "u8 list" u32
  | Clear u32
  | Draw_tga int int "(nat \<Rightarrow> u8) option"
  | Restore_rect "u32 list option" int int int int
  | Swap_buffers

primrec gfx_run :: "gfx_op \<Rightarrow> gfx_state \<Rightarrow> gfx_state option" where
  "gfx_run (Put_pixel x y c) g = Some (gfx_put_pixel x y c g)"
| "gfx_run (Put_pixel_alpha x y c a) g = Some (gfx_put_pixel_alpha x y c a g)"
| "gfx_run (Draw_shadow x y w h r) g = Some (gfx_draw_shadow x y w h r g)"
| "gfx_run (Draw_rect x y w h c) g = Some (gfx_draw_rect x y w h c g)"
| "gfx_run (Draw_rounded_rect x y w h r c) g = Some (gfx_draw_rounded_rect x y w h r c g)"
| "gfx_run (Draw_gradient_rect x y w h c1 c2 vertical) g = Some (gfx_draw_gradient_rect x y w h c1 c2 vertical g)"
| "gfx_run (Draw_line x1 y1 x2 y2 c) g = gfx_draw_line x1 y1 x2 y2 c g"
| "gfx_run (Put_char x y ch c) g = Some (gfx_put_char x y ch c g)"
| "gfx_run (Puts x y str c) g = Some (gfx_puts x y str c g)"
| "gfx_run (Clear c) g = Some (gfx_clear c g)"
| "gfx_run (Draw_tga x y img) g = Some (gfx_draw_tga x y img g)"
| "gfx_run (Restore_rect src x y w h) g = gfx_restore_rect src x y w h g"
| "gfx_run Swap_buffers g = Some (gfx_swap_buffers g)"

fun gfx_runs :: "gfx_op list \<Rightarrow> gfx_state \<Rightarrow> gfx_state option" where
  "gfx_runs [] g = Some g"
| "gfx_runs (op # ops) g = Option.bind (gfx_run op g) (gfx_runs ops)"

lemma gfx_run_draws: "\<lbrakk>op \<noteq> Swap_buffers; gfx_run op g = Some g'; gfx_ok g\<rbrakk> \<Longrightarrow> drawn g g'"
  by (cases op) (auto simp: drawn_draws draws_all drawn_line drawn_restore)

definition gfx_inv :: "vbe_info \<Rightarrow> gfx_state \<Rightarrow> bool" where
  "gfx_inv v g \<longleftrightarrow> gfx_ok g \<and> vbe g = v \<and> (backbuffer g \<noteq> None \<longrightarrow> frontbuffer g \<noteq> None \<longrightarrow> coherent g)"

lemma gfx_swap_null: "backbuffer g = None \<or> frontbuffer g = None \<Longrightarrow> gfx_swap_buffers g = g"
  by (auto simp: gfx_swap_buffers_def Let_def)

lemma gfx_inv_swap:
  assumes "screen_ok v" "gfx_inv v g"
  shows "gfx_inv v (gfx_swap_buffers g)"
proof (cases "backbuffer g = None \<or> frontbuffer g = None")
  case True
  then show ?thesis using assms(2) by (simp add: gfx_swap_null)
next
  case False
  then obtain b f where bf: "backbuffer g = Some b" "frontbuffer g = Some f" by auto
  have g: "gfx_ok g" "vbe g = v" "coherent g" using assms(2) False by (auto simp: gfx_inv_def)
  then have "b ! i \<noteq> f ! i \<or> vram g k = f ! i" if "shown (vbe g) k = Some i" for k i
    using that bf by (auto simp: coherent_def)
  note sw = swap_coherent [OF g(1) _ bf this]
  have "vbe (gfx_swap_buffers g) = v" using sw(1) g(2) assms(1) bf by (simp add: copy_buffer_def)
  then show ?thesis using sw(2,3) g(2) assms(1) by (simp add: gfx_inv_def)
qed

lemma gfx_inv_init:
  assumes v: "size_ok v" "screen_ok v" and g: "backbuffer g = None" "frontbuffer g = None"
    and i: "gfx_init v g s = Some (g', s')"
  shows "gfx_inv v g'"
proof -
  let ?n = "unat (width v) * unat (height v)"
  let ?z = "\<lambda>p. if p = 0 then None else Some (replicate ?n (0 :: u32))"
  obtain p s1 q where q: "kmalloc (width v * height v * 4) s = Some (p, s1)"
    "kmalloc (width v * height v * 4) s1 = Some (q, s')" and
    g': "g' = gfx_swap_buffers (gfx_clear 0x000A1628 (g\<lparr>vbe := v, backbuffer := ?z p, frontbuffer := ?z q\<rparr>))"
    using i v by (auto simp: gfx_init_def Let_def screen_ok_def unat_buffer_size split: bind_splits)
  let ?g = "g\<lparr>vbe := v, backbuffer := ?z p, frontbuffer := ?z q\<rparr>"
  have ok: "gfx_ok ?g" using v by (auto simp: gfx_ok_def)
  show ?thesis
  proof (cases "p = 0 \<or> q = 0")
    case True
    have c: "gfx_ok (gfx_clear 0x000A1628 ?g)" "vbe (gfx_clear 0x000A1628 ?g) = v"
      "backbuffer (gfx_clear 0x000A1628 ?g) = None \<or> frontbuffer (gfx_clear 0x000A1628 ?g) = None"
      using draws_D [OF draws_clear ok, of "0x000A1628"] True by auto
    then have "g' = gfx_clear 0x000A1628 ?g" using g' gfx_swap_null by metis
    then show ?thesis using c by (auto simp: gfx_inv_def)
  next
    case False
    then have c: "gfx_clear 0x000A1628 ?g = ?g\<lparr>backbuffer := Some (replicate ?n 0x000A1628)\<rparr>"
      using gfx_clear_eq [OF ok] by simp
    have okc: "gfx_ok (gfx_clear 0x000A1628 ?g)" using draws_D [OF draws_clear ok] by blast
    have "replicate ?n (0x000A1628 :: u32) ! i \<noteq> replicate ?n 0 ! i \<or> vram g k = replicate ?n 0 ! i"
      if "shown v k = Some i" for k i using shown_less [OF that] by simp
    then have sw: "coherent g'" "gfx_ok g'" "g' = copy_buffer (gfx_clear 0x000A1628 ?g)"
      unfolding g' using swap_coherent [OF okc, of "replicate ?n 0x000A1628" "replicate ?n 0"] c v False
      by simp_all
    moreover have "vbe g' = v" unfolding sw(3) by (simp add: c copy_buffer_def)
    ultimately show ?thesis by (simp add: gfx_inv_def)
  qed
qed

lemma gfx_inv_run: "\<lbrakk>screen_ok v; gfx_inv v g; gfx_run op g = Some g'\<rbrakk> \<Longrightarrow> gfx_inv v g'"
proof (cases "op = Swap_buffers")
  case False
  moreover assume "gfx_inv v g" "gfx_run op g = Some g'"
  ultimately show ?thesis using gfx_run_draws [of op g g'] by (auto simp: gfx_inv_def coherent_def drawn_def)
qed (use gfx_inv_swap in auto)

lemma gfx_inv_runs: "\<lbrakk>screen_ok v; gfx_inv v g; gfx_runs ops g = Some g'\<rbrakk> \<Longrightarrow> gfx_inv v g'"
  by (induction ops arbitrary: g) (auto split: bind_splits intro: gfx_inv_run)

lemma gfx_inv_copy:
  assumes "screen_ok v" "gfx_inv v g" "backbuffer g \<noteq> None" "frontbuffer g \<noteq> None"
  shows "gfx_swap_buffers g = copy_buffer g"
proof -
  obtain b f where bf: "backbuffer g = Some b" "frontbuffer g = Some f" using assms by auto
  have g: "gfx_ok g" "vbe g = v" "coherent g" using assms by (auto simp: gfx_inv_def)
  then have "b ! i \<noteq> f ! i \<or> vram g k = f ! i" if "shown (vbe g) k = Some i" for k i
    using that bf by (auto simp: coherent_def)
  from swap_coherent(1) [OF g(1) _ bf this] show ?thesis using g(2) assms(1) by simp
qed

text \<open>
  C32. The comparison with the front buffer never loses a pixel: after \<^verbatim>\<open>gfx_init\<close>, whatever the
  screen memory held at that time, and after any sequence of drawing operations, restored
  rectangles and swaps that has a defined result (no overflow in a line, no null back buffer),
  \<^verbatim>\<open>gfx_swap_buffers\<close> has the same result as copying the whole back buffer to the screen, row by
  row at the distance \<^verbatim>\<open>pitch\<close>.
\<close>

theorem gfx_swap_is_copy:
  assumes "size_ok v" "screen_ok v" "backbuffer g0 = None" "frontbuffer g0 = None"
    "gfx_init v g0 s = Some (g1, s')" "gfx_runs ops g1 = Some g"
    "backbuffer g \<noteq> None" "frontbuffer g \<noteq> None"
  shows "gfx_swap_buffers g = copy_buffer g"
  using assms gfx_inv_copy gfx_inv_runs gfx_inv_init by metis

definition gfx_example :: gfx_state where
  "gfx_example = \<lparr>vbe = \<lparr>lfb = 0, width = 0, height = 0, pitch = 0, bpp = 0\<rparr>, backbuffer = None,
     frontbuffer = None, vram = (\<lambda>_. 7)\<rparr>"

definition vbe_example :: vbe_info where
  "vbe_example = \<lparr>lfb = 0xE0000000, width = 2, height = 1, pitch = 12, bpp = 32\<rparr>"

lemma gfx_init_example:
  "\<exists>s'. gfx_init vbe_example gfx_example kheap_example = Some (gfx_example\<lparr>vbe := vbe_example,
     backbuffer := Some [0x000A1628, 0x000A1628], frontbuffer := Some [0x000A1628, 0x000A1628],
     vram := (\<lambda>k. if k < 2 then 0x000A1628 else 7)\<rparr>, s')"
proof -
  have r: "kmalloc_round 8 = 8" by (simp add: kmalloc_round_def)
  obtain s1 where s1: "kmalloc 8 kheap_example = Some (0x1014, s1)"
    "heap_rep 0x1000 0x1400 s1 [(0x1000, 8, False), (0x101C, 976, True)]"
    using kmalloc_refines [OF heap_rep_example, of 8] by (auto simp: HEADER_SIZE_def r)
  obtain s2 where s2: "kmalloc 8 s1 = Some (0x1030, s2)"
    using kmalloc_refines [OF s1(2), of 8] by (auto simp: HEADER_SIZE_def r)
  have "(\<lambda>k. if k = 1 then 0x000A1628 else if k = 0 then 0x000A1628 else 7) = (\<lambda>k :: nat. if k < 2 then 0x000A1628 else 7 :: u32)"
    by (auto simp: fun_eq_iff)
  moreover have "replicate 2 (0 :: u32) = [0, 0]" "[0..<2] = [0, 1]" by (simp_all add: numeral_2_eq_2)
  ultimately show ?thesis using s1(1) s2
    by (simp add: gfx_init_def vbe_example_def gfx_example_def gfx_clear_def gfx_swap_buffers_def swap_row_def
      swap_pixel_def fun_upd_def Let_def)
qed

theorem gfx_swap_is_copy_witness:
  "\<exists>g1 s'. gfx_init vbe_example gfx_example kheap_example = Some (g1, s') \<and>
     gfx_swap_buffers (gfx_put_pixel 1 0 5 g1) = copy_buffer (gfx_put_pixel 1 0 5 g1) \<and>
     vram (copy_buffer (gfx_put_pixel 1 0 5 g1)) 1 = 5"
proof -
  let ?g = "gfx_example\<lparr>vbe := vbe_example, backbuffer := Some [0x000A1628, 0x000A1628],
    frontbuffer := Some [0x000A1628, 0x000A1628], vram := (\<lambda>k. if k < 2 then 0x000A1628 else 7)\<rparr>"
  obtain s' where i: "gfx_init vbe_example gfx_example kheap_example = Some (?g, s')"
    using gfx_init_example by blast
  have g: "gfx_put_pixel 1 0 5 ?g = ?g\<lparr>backbuffer := Some [0x000A1628, 5]\<rparr>"
    by (simp add: gfx_put_pixel_def on_screen_def pixel_index_def vbe_example_def)
  have "gfx_swap_buffers (gfx_put_pixel 1 0 5 ?g) = copy_buffer (gfx_put_pixel 1 0 5 ?g)"
  proof (rule gfx_swap_is_copy [OF _ _ _ _ i, of "[Put_pixel 1 0 5]"])
    show "size_ok vbe_example" "screen_ok vbe_example"
      by (simp_all add: size_ok_def screen_ok_def vbe_example_def row_words_def)
    show "backbuffer gfx_example = None" "frontbuffer gfx_example = None" by (simp_all add: gfx_example_def)
  qed (simp_all add: g)
  moreover have "vram (copy_buffer (gfx_put_pixel 1 0 5 ?g)) 1 = 5"
    unfolding g by (simp add: copy_buffer_def shown_def row_words_def vbe_example_def)
  ultimately show ?thesis using i by blast
qed

section \<open>Blending\<close>

text \<open>
  Red and blue are blended in one multiplication; no channel carries into the next, so each is
  the rounded mean of its own two values.
\<close>

lemma channel_masks:
  "(0xFF00FF :: u32) = push_bit 16 (mask 8) OR mask 8" "(0xFF00 :: u32) = push_bit 8 (mask 8)" "(0xFF :: u32) = mask 8"
  by (simp_all add: mask_eq_exp_minus_1)

lemma channel_take_bit: "color_channel n c = take_bit 8 (drop_bit n c)"
  by (simp add: color_channel_def take_bit_eq_mask channel_masks)

lemma unat_channel: "unat (color_channel n c) = unat c div 2 ^ n mod 256"
  by (simp add: channel_take_bit take_bit_eq_mod unat_mod unat_drop_bit)

lemma unat_push_channel:
  assumes "n \<le> 16"
  shows "unat (push_bit n (color_channel m c)) = unat (color_channel m c) * 2 ^ n"
proof -
  have "unat (color_channel m c) < 256" by (simp add: unat_channel)
  moreover have "(2 :: nat) ^ n \<le> 2 ^ 16" using assms by (rule power_increasing) simp
  ultimately have "unat (color_channel m c) * 2 ^ n \<le> 256 * 2 ^ 16" by (intro mult_le_mono) simp_all
  then have "unat (color_channel m c) * 2 ^ n < 2 ^ LENGTH(32)" by simp
  moreover have "unat (push_bit n (color_channel m c)) = take_bit LENGTH(32) (push_bit n (unat (color_channel m c)))"
    by (rule unsigned_push_bit_eq)
  ultimately show ?thesis by (simp add: push_bit_eq_mult take_bit_nat_eq_self)
qed

lemma unat_red_blue: "unat (c AND 0x00FF00FF) = unat (color_channel 16 c) * 65536 + unat (color_channel 0 c)"
proof -
  have "c AND 0x00FF00FF = push_bit 16 (color_channel 16 c) OR color_channel 0 c"
    unfolding channel_masks channel_take_bit by (rule bit_word_eqI) (auto simp: bit_simps)
  also have "\<dots> = push_bit 16 (color_channel 16 c) + color_channel 0 c"
    unfolding channel_take_bit by (rule disjunctive_add_eq_or [symmetric], rule bit_word_eqI) (auto simp: bit_simps)
  finally have "unat (c AND 0x00FF00FF) = unat (push_bit 16 (color_channel 16 c) + color_channel 0 c)" by simp
  also have "\<dots> = unat (push_bit 16 (color_channel 16 c)) + unat (color_channel 0 c)"
    using unat_channel [of 16 c] unat_channel [of 0 c] by (intro unat_plus_no_wrap) (simp add: unat_push_channel)
  finally show ?thesis by (simp add: unat_push_channel)
qed

lemma unat_green: "unat (c AND 0x0000FF00) = unat (color_channel 8 c) * 256"
proof -
  have "c AND 0x0000FF00 = push_bit 8 (color_channel 8 c)"
    unfolding channel_masks channel_take_bit by (rule bit_word_eqI) (auto simp: bit_simps)
  then show ?thesis by (simp add: unat_push_channel)
qed

text \<open>The weighted sum of two channel values, as the code rounds it.\<close>

definition mix :: "nat \<Rightarrow> nat \<Rightarrow> nat \<Rightarrow> nat" where "mix x y a = x * a + y * (255 - a)"

lemma mix_le: "\<lbrakk>x < 256; y < 256; a < 256\<rbrakk> \<Longrightarrow> mix x y a \<le> 65025"
proof -
  assume "x < 256" "y < 256" "a < 256"
  then have "x * a + y * (255 - a) \<le> 255 * a + 255 * (255 - a)" by (intro add_mono mult_le_mono) simp_all
  then show ?thesis using \<open>a < 256\<close> by (simp add: mix_def)
qed

lemma unat_weighted:
  assumes "unat (c :: u32) * unat (ucast alpha :: u32) + unat d * (255 - unat (ucast alpha :: u32)) < 2 ^ 32"
  shows "unat (c * ucast alpha + d * (255 - ucast (alpha :: u8))) = mix (unat c) (unat d) (unat alpha)"
proof -
  have a: "unat (ucast alpha :: u32) = unat alpha" by (simp add: unsigned_ucast_eq take_bit_nat_eq_self unat_u8_bound less_trans [OF unat_u8_bound])
  have "(ucast alpha :: u32) \<le> 255" using unat_u8_bound [of alpha] by (simp add: word_le_nat_alt a)
  then have m: "unat (255 - ucast alpha :: u32) = 255 - unat alpha" by (simp add: unat_sub a)
  have "unat (c * ucast alpha) = unat c * unat alpha" "unat (d * (255 - ucast alpha)) = unat d * (255 - unat alpha)"
    using assms unat_mult_lem [of c "ucast alpha"] unat_mult_lem [of d "255 - ucast alpha"] by (simp_all add: a m)
  then show ?thesis using assms unat_plus_no_wrap [of "c * ucast alpha" "d * (255 - ucast alpha)"] by (simp add: mix_def a)
qed

lemma alpha_blend_channels:
  "unat (color_channel n (alpha_blend c bg alpha)) =
     mix (unat (color_channel n c)) (unat (color_channel n bg)) (unat alpha) div 256"
  if "n = 0 \<or> n = 8 \<or> n = 16"
proof -
  let ?m = "\<lambda>n. mix (unat (color_channel n c)) (unat (color_channel n bg)) (unat alpha)"
  have le: "?m n \<le> 65025" for n by (intro mix_le) (simp_all add: unat_channel unat_u8_bound)
  have a: "unat (ucast alpha :: u32) = unat alpha" by (simp add: unsigned_ucast_eq take_bit_nat_eq_self less_trans [OF unat_u8_bound])
  define rb where "rb = drop_bit 8 ((c AND 0x00FF00FF) * ucast alpha + (bg AND 0x00FF00FF) * (255 - ucast alpha))"
  define gr where "gr = drop_bit 8 ((c AND 0x0000FF00) * ucast alpha + (bg AND 0x0000FF00) * (255 - ucast alpha))"
  have mix_rb: "mix (x * 65536 + x') (y * 65536 + y') k = mix x y k * 65536 + mix x' y' k" for x x' y y' k
    by (simp add: mix_def algebra_simps)
  have mix_g: "mix (x * 256) (y * 256) k = mix x y k * 256" for x y k by (simp add: mix_def algebra_simps)
  have "unat ((c AND 0x00FF00FF) * ucast alpha + (bg AND 0x00FF00FF) * (255 - ucast alpha)) = ?m 16 * 65536 + ?m 0"
    using le [of 16] le [of 0] by (subst unat_weighted) (simp_all add: unat_red_blue a mix_rb flip: mix_def)
  then have rb: "unat rb = ?m 16 * 256 + ?m 0 div 256" by (simp add: rb_def unat_drop_bit)
  have "unat ((c AND 0x0000FF00) * ucast alpha + (bg AND 0x0000FF00) * (255 - ucast alpha)) = ?m 8 * 256"
    using le [of 8] by (subst unat_weighted) (simp_all add: unat_green a mix_g flip: mix_def)
  then have gr: "unat gr = ?m 8" by (simp add: gr_def unat_drop_bit)
  have bl: "alpha_blend c bg alpha = (rb AND 0x00FF00FF) OR (gr AND 0x0000FF00)"
    by (simp add: alpha_blend_def Let_def rb_def gr_def)
  have "color_channel 0 (alpha_blend c bg alpha) = color_channel 0 rb"
    "color_channel 16 (alpha_blend c bg alpha) = color_channel 16 rb"
    "color_channel 8 (alpha_blend c bg alpha) = color_channel 8 gr"
    unfolding bl channel_masks channel_take_bit by (rule bit_word_eqI; auto simp: bit_simps)+
  then show ?thesis using that le [of 0] le [of 8] le [of 16] by (auto simp: unat_channel [of _ rb] unat_channel [of _ gr] rb gr)
qed

text \<open>
  The interpolation of a gradient is unsigned: where a channel decreases, the difference wraps
  and the quotient is far outside the channel, here for half way from blue to black.
\<close>

lemma gradient_descending: "gradient_color 0xFF 0 1 2 = 0x8000007F"
  by (simp add: gradient_color_def gradient_channel_def color_channel_def)

end
