(* ===== verification/Khazar_Vbe.thy ===== *)
theory Khazar_Vbe
  imports Khazar_Gfx
begin

text \<open>
  The frame buffer, \<^verbatim>\<open>kernel/drivers/gpu/vbe.c\<close>: the boot loader's description of the screen is
  checked and the physical frame buffer is mapped to a fixed virtual address, page by page with
  \<^verbatim>\<open>vmm_map_page\<close>. Of \<^verbatim>\<open>struct multiboot_info\<close> the record holds the fields the driver reads.
\<close>

section \<open>State and operations\<close>

record multiboot_info =
  mb_flags :: u32
  framebuffer_addr :: u64
  framebuffer_pitch :: u32
  framebuffer_width :: u32
  framebuffer_height :: u32
  framebuffer_bpp :: u8
  framebuffer_type :: u8

definition VBE_VIRT_LFB :: u32 where "VBE_VIRT_LFB = 0xE0000000"
definition VBE_MAP_SIZE :: u32 where "VBE_MAP_SIZE = 0x00800000"

definition vbe_map_size :: "u32 \<Rightarrow> u32 \<Rightarrow> u32 \<Rightarrow> u32" where
  "vbe_map_size p h off =
     (let m0 = p * h + off;
          m1 = (if m0 < VBE_MAP_SIZE then VBE_MAP_SIZE else m0);
          m2 = (m1 + 4095) AND NOT 4095
      in if m2 > 0x01000000 then 0x01000000 else m2)"

text \<open>The mapping loop; the result tells whether every page was mapped.\<close>

partial_function (option) vbe_map_loop :: "u32 \<Rightarrow> addr \<Rightarrow> u32 \<Rightarrow> vmm_state \<Rightarrow> (bool \<times> vmm_state) option" where
  "vbe_map_loop map_size phys i s =
     (if i < map_size
      then let (ok, s1) = vmm_map_page (phys + i) (VBE_VIRT_LFB + i) (VMM_PRESENT OR VMM_WRITABLE) s
           in if ok then vbe_map_loop map_size phys (i + 4096) s1 else Some (False, s1)
      else Some (True, s))"

definition vbe_init :: "multiboot_info \<Rightarrow> u32 \<Rightarrow> vbe_info \<Rightarrow> vmm_state \<Rightarrow> (vbe_info \<times> vmm_state) option" where
  "vbe_init mbi mg v s =
     (if mg \<noteq> 0x2BADB002 then Some (v, s)
      else if mb_flags mbi AND push_bit 12 1 = 0 then Some (v, s)
      else if drop_bit 32 (framebuffer_addr mbi) \<noteq> 0 then Some (v\<lparr>lfb := 0\<rparr>, s)
      else
        let phys_lfb = ucast (framebuffer_addr mbi AND 0xFFFFFFFF)
        in if phys_lfb = 0 then Some (v\<lparr>lfb := 0\<rparr>, s)
           else
             let v1 = v\<lparr>width := framebuffer_width mbi, height := framebuffer_height mbi,
                        pitch := framebuffer_pitch mbi, bpp := framebuffer_bpp mbi\<rparr>
             in if framebuffer_type mbi = 2 then Some (v1\<lparr>lfb := 0\<rparr>, s)
                else if width v1 = 0 \<or> height v1 = 0 \<or> pitch v1 = 0 then Some (v1\<lparr>lfb := 0\<rparr>, s)
                else
                  let phys_lfb_aligned = phys_lfb AND NOT 0xFFF;
                      offset = phys_lfb - phys_lfb_aligned;
                      map_size = vbe_map_size (pitch v1) (height v1) offset
                  in do { (ok, s1) \<leftarrow> vbe_map_loop map_size phys_lfb_aligned 0 s;
                          Some (if ok then v1\<lparr>lfb := VBE_VIRT_LFB + offset\<rparr> else v1\<lparr>lfb := 0\<rparr>, s1) })"

section \<open>The mapping\<close>

lemma page_split: "page_of k + (k AND 0xFFF) = k"
proof -
  have "page_of k + (k AND 0xFFF) = page_of k OR (k AND 0xFFF)"
    by (rule disjunctive_add_eq_or, rule bit_word_eqI) (auto simp: page_of_def bit_simps page_mask)
  also have "\<dots> = k" by (rule bit_word_eqI) (auto simp: page_of_def bit_simps page_mask)
  finally show ?thesis .
qed

lemma page_of_plus: "a AND 0xFFF = 0 \<Longrightarrow> page_of (a + k) = a + page_of k"
proof -
  assume a: "a AND 0xFFF = 0"
  let ?o = "k AND 0xFFF"
  have al: "(a + page_of k) AND 0xFFF = 0"
  proof -
    have "4096 dvd unat a" "4096 dvd unat (page_of k)" using a by (simp_all flip: page_aligned_iff)
    then have "4096 dvd (unat a + unat (page_of k)) mod 2 ^ LENGTH(32)" by (intro dvd_mod) simp_all
    then show ?thesis by (simp add: page_aligned_iff unat_word_ariths)
  qed
  have "unat (k AND 0xFFF) < 4096" by (simp add: unat_and_FFF)
  moreover have "unat ((a + k) AND 0xFFF) < 4096" by (simp add: unat_and_FFF)
  moreover have "(a + page_of k) + ?o = page_of (a + k) + ((a + k) AND 0xFFF)"
    by (simp only: page_split add.assoc)
  ultimately show ?thesis using page_plus_eq [OF al, of "page_of (a + k)"] by simp
qed

lemma vbe_map_size_bounds:
  "vbe_map_size p h off AND 0xFFF = 0" "unat (vbe_map_size p h off) \<le> 0x1000000"
proof -
  have "(x AND NOT 4095) AND 0xFFF = (0 :: u32)" for x by (simp add: bit_eq_iff bit_simps)
  then show "vbe_map_size p h off AND 0xFFF = 0" by (simp add: vbe_map_size_def Let_def)
  have "vbe_map_size p h off \<le> 0x1000000" by (simp add: vbe_map_size_def Let_def not_less)
  then show "unat (vbe_map_size p h off) \<le> 0x1000000" by (simp add: word_le_nat_alt)
qed

lemma flags_page: "page_of (VMM_PRESENT OR VMM_WRITABLE) = 0"
  by (simp add: page_of_def VMM_PRESENT_def VMM_WRITABLE_def)

lemma vbe_map_loop_maps:
  assumes "n AND 0xFFF = 0" "unat n \<le> 0x1000000" "phys AND 0xFFF = 0"
    "i AND 0xFFF = 0" "vmm_inv s" "unat i \<le> unat n"
  shows "\<exists>ok s'. vbe_map_loop n phys i s = Some (ok, s') \<and> vmm_inv s' \<and>
    (ok \<longrightarrow> (\<forall>k. vmm_get_phys (VBE_VIRT_LFB + k) s' =
       (if i \<le> k \<and> k < n then phys + page_of k else vmm_get_phys (VBE_VIRT_LFB + k) s)))"
  using assms(4-6)
proof (induction "(unat n - unat i) div 4096" arbitrary: i s)
  case 0
  then have "unat n - unat i < 4096" by (simp add: div_eq_0_iff)
  moreover have "4096 dvd unat n - unat i"
    using assms(1) 0 by (intro dvd_diff_nat) (simp_all flip: page_aligned_iff)
  ultimately have "unat n - unat i = 0" by (metis dvd_imp_le gr0I not_le)
  then have "\<not> i < n" by (simp add: word_less_nat_alt)
  moreover from this have "\<not> (i \<le> k \<and> k < n)" for k by (meson le_less_trans)
  moreover have "vbe_map_loop n phys i s = Some (True, s)" using calculation(1) by (subst vbe_map_loop.simps) simp
  ultimately show ?case using 0(3) by (intro exI [of _ True] exI [of _ s]) auto
next
  case (Suc m)
  then have lt: "unat i < unat n" by (metis diff_is_0_eq' div_0 leI nat.distinct(1))
  have i4: "unat (i + 4096) = unat i + 4096"
    using lt assms(2) unat_plus_no_wrap [of i 4096] by simp
  have dvd: "4096 dvd unat i" "4096 dvd unat n" using Suc.prems(1) assms(1) by (simp_all flip: page_aligned_iff)
  then have le: "unat i + 4096 \<le> unat n" using lt by (auto elim!: dvdE)
  have al: "(i + 4096) AND 0xFFF = 0" using dvd(1) by (simp add: page_aligned_iff i4)
  have m: "m = (unat n - unat (i + 4096)) div 4096"
  proof -
    have "unat n - unat i = (unat n - unat (i + 4096)) + 4096" using le i4 by simp
    then show ?thesis using Suc.hyps(2) by simp
  qed
  obtain ok s1 where map: "vmm_map_page (phys + i) (VBE_VIRT_LFB + i) (VMM_PRESENT OR VMM_WRITABLE) s = (ok, s1)"
    by fastforce
  have "(phys + i) AND 0xFFF = 0" using page_of_plus [OF assms(3), of i] aligned_page_of [OF Suc.prems(1)]
    by (metis page_of_aligned)
  note eff = vmm_map_page_effect [OF Suc.prems(2) this flags_page map]
  have loop: "vbe_map_loop n phys i s = (if ok then vbe_map_loop n phys (i + 4096) s1 else Some (False, s1))"
    using lt map by (subst vbe_map_loop.simps) (simp add: word_less_nat_alt)
  show ?case
  proof (cases ok)
    case False
    then show ?thesis using loop eff by auto
  next
    case True
    obtain ok' s' where IH: "vbe_map_loop n phys (i + 4096) s1 = Some (ok', s')" "vmm_inv s'"
      "ok' \<longrightarrow> (\<forall>k. vmm_get_phys (VBE_VIRT_LFB + k) s' =
         (if i + 4096 \<le> k \<and> k < n then phys + page_of k else vmm_get_phys (VBE_VIRT_LFB + k) s1))"
      using Suc.hyps(1) [OF m al, of s1] eff le i4 by auto
    have virt: "VBE_VIRT_LFB AND 0xFFF = 0" by (simp add: VBE_VIRT_LFB_def)
    have page: "page_of (VBE_VIRT_LFB + k) = page_of (VBE_VIRT_LFB + i) \<longleftrightarrow> i \<le> k \<and> \<not> i + 4096 \<le> k" for k
    proof -
      have "page_of k = page_of i \<longleftrightarrow> unat i \<le> unat k \<and> unat k < unat i + 4096"
        using dvd(1) by (auto simp: page_of_eq_iff elim!: dvdE)
      then show ?thesis by (simp add: page_of_plus [OF virt] word_le_nat_alt i4 not_le)
    qed
    have "vmm_get_phys (VBE_VIRT_LFB + k) s' =
        (if i \<le> k \<and> k < n then phys + page_of k else vmm_get_phys (VBE_VIRT_LFB + k) s)" if "ok'" for k
    proof -
      have same: "page_of k = i" if "i \<le> k" "\<not> i + 4096 \<le> k"
        using page [of k] that by (simp add: page_of_plus [OF virt] aligned_page_of [OF Suc.prems(1)])
      have "i + 4096 \<le> k \<Longrightarrow> i \<le> k" "\<not> i + 4096 \<le> k \<Longrightarrow> k < n" using le i4 by (simp_all add: word_le_nat_alt word_less_nat_alt)
      then show ?thesis using IH(3) that eff True page [of k] same by auto
    qed
    then show ?thesis using loop True IH(1,2) by auto
  qed
qed

lemma unat_round_up: "unat x \<le> 0x1000000 \<Longrightarrow> unat x \<le> unat ((x + 4095) AND NOT 4095 :: u32)"
proof -
  assume "unat x \<le> 0x1000000"
  then have "unat (x + 4095) = unat x + 4095" using unat_plus_no_wrap [of x 4095] by simp
  moreover have "(4095 :: u32) = mask 12" by (simp add: mask_eq_exp_minus_1)
  ultimately show ?thesis by (simp only: unat_and_not_mask) simp
qed

lemma vbe_map_size_covers:
  assumes "unat p * unat h \<le> 0xFFF000" "unat off < 4096"
  shows "unat p * unat h + unat off \<le> unat (vbe_map_size p h off)"
proof -
  let ?m = "p * h + off"
  have ph: "unat (p * h) = unat p * unat h" using assms(1) unat_mult_lem [of p h] by simp
  have m: "unat ?m = unat p * unat h + unat off"
    using assms ph unat_plus_no_wrap [of "p * h" off] by simp
  have le: "unat ?m \<le> 0x1000000" using assms by (simp add: m)
  show ?thesis
  proof (cases "?m < VBE_MAP_SIZE")
    case True
    then have "unat ?m \<le> 0x800000" by (simp add: word_less_nat_alt VBE_MAP_SIZE_def)
    moreover have "vbe_map_size p h off = 0x800000"
      using True by (simp add: vbe_map_size_def VBE_MAP_SIZE_def)
    ultimately show ?thesis by (simp add: m)
  next
    case False
    then show ?thesis using unat_round_up [OF le] le by (simp add: vbe_map_size_def Let_def m)
  qed
qed

text \<open>
  The driver returns for every description the boot loader can pass, and when it announces a
  frame buffer of up to 16 MB less one page then each byte of the picture is mapped to its
  physical address.
\<close>

lemma vbe_init_maps:
  assumes "vmm_inv s" "lfb v = 0"
  shows "\<exists>v' s'. vbe_init mbi mg v s = Some (v', s') \<and> vmm_inv s' \<and>
    (lfb v' \<noteq> 0 \<longrightarrow> unat (pitch v') * unat (height v') \<le> 0xFFF000 \<longrightarrow>
      (\<forall>n. unat n < unat (pitch v') * unat (height v') \<longrightarrow>
         vmm_get_phys (lfb v' + n) s' = page_of (ucast (framebuffer_addr mbi) + n)))"
proof -
  let ?p = "ucast (framebuffer_addr mbi) :: u32"
  let ?a = "page_of ?p" and ?off = "?p - page_of ?p"
  let ?n = "vbe_map_size (framebuffer_pitch mbi) (framebuffer_height mbi) ?off"
  have low: "ucast (framebuffer_addr mbi AND 0xFFFFFFFF) = ?p"
  proof -
    have "(0xFFFFFFFF :: u64) = mask 32" by (simp add: mask_eq_exp_minus_1)
    then have "framebuffer_addr mbi AND 0xFFFFFFFF = take_bit 32 (framebuffer_addr mbi)" by (simp only: take_bit_eq_mask)
    then show ?thesis by (simp only:) (rule bit_word_eqI, simp add: bit_simps)
  qed
  have pg: "?p AND NOT 0xFFF = ?a" "?p AND - 4096 = ?a" by (simp_all add: page_of_def)
  have al: "?a AND 0xFFF = 0" by (rule page_of_aligned)
  have "?off = ?p AND 0xFFF" using page_split [of ?p] by (simp only: diff_eq_eq add.commute)
  then have off: "unat ?off < 4096" by (simp add: unat_and_FFF)
  obtain ok s' where loop: "vbe_map_loop ?n ?a 0 s = Some (ok, s')" "vmm_inv s'"
    "ok \<longrightarrow> (\<forall>k. vmm_get_phys (VBE_VIRT_LFB + k) s' = (if k < ?n then ?a + page_of k else vmm_get_phys (VBE_VIRT_LFB + k) s))"
    using vbe_map_loop_maps [OF vbe_map_size_bounds al _ assms(1), of 0] by fastforce
  have "vmm_get_phys (VBE_VIRT_LFB + ?off + n) s' = page_of (?p + n)"
    if "ok" "unat (framebuffer_pitch mbi) * unat (framebuffer_height mbi) \<le> 0xFFF000"
      "unat n < unat (framebuffer_pitch mbi) * unat (framebuffer_height mbi)" for n
  proof -
    have "unat (?off + n) = unat ?off + unat n" using that off by (intro unat_plus_no_wrap) simp
    then have "?off + n < ?n" using vbe_map_size_covers [OF that(2) off] that(3) by (simp add: word_less_nat_alt)
    then have "vmm_get_phys (VBE_VIRT_LFB + (?off + n)) s' = ?a + page_of (?off + n)" using loop(3) that(1) by simp
    also have "\<dots> = page_of (?a + (?off + n))" by (rule page_of_plus [OF al, symmetric])
    finally show ?thesis by (simp add: add.assoc)
  qed
  then show ?thesis using loop(1,2) assms by (auto simp: vbe_init_def Let_def low pg)
qed

end
