(* ===== verification/Khazar_Boot.thy ===== *)
theory Khazar_Boot
  imports Khazar_Vbe Khazar_Kheap Khazar_String
begin

text \<open>
  The memory set-up of \<^verbatim>\<open>kernel_main\<close>, \<^verbatim>\<open>kernel/core/kernel.c\<close>: the physical memory manager is
  started from the memory map of the boot loader and the areas that the kernel uses are taken out,
  then paging and the heap start; and the last attempt to map the frame buffer. The memory map is
  read from memory, \<open>mem\<close>; \<open>raw\<close> is what lay where the bitmap is placed.
\<close>

section \<open>State and operations\<close>

record boot_info = multiboot_info +
  mem_upper :: u32
  mmap_length :: u32
  mmap_addr :: u32

definition MULTIBOOT_MEMORY_AVAILABLE :: u32 where "MULTIBOOT_MEMORY_AVAILABLE = 1"

definition boot_mem_size :: "boot_info \<Rightarrow> u32" where
  "boot_mem_size mbi =
     (let mem_size = 128 * 1024 * 1024;
          mb_mem_size = mem_upper mbi * 1024 + 0x100000
      in if mb_flags mbi AND push_bit 6 1 \<noteq> 0 \<and> mb_mem_size < mem_size then mb_mem_size else mem_size)"

text \<open>One entry of the memory map; the upper halves of its address and length are dropped.\<close>

definition boot_entry :: "mem \<Rightarrow> u32 \<Rightarrow> addr \<Rightarrow> pmm_state \<Rightarrow> pmm_state" where
  "boot_entry mem mem_size entry s =
     (if load32 (entry + 20) mem = MULTIBOOT_MEMORY_AVAILABLE then
        let region_base = load32 (entry + 4) mem;
            region_size = load32 (entry + 12) mem
        in if region_base < mem_size then
             pmm_init_region region_base
               (if region_base + region_size > mem_size then mem_size - region_base else region_size) s
           else s
      else s)"

partial_function (option) boot_mmap_loop :: "mem \<Rightarrow> u32 \<Rightarrow> addr \<Rightarrow> u32 \<Rightarrow> u32 \<Rightarrow> pmm_state \<Rightarrow> pmm_state option" where
  "boot_mmap_loop mem mem_size mmap len i s =
     (if i < len
      then boot_mmap_loop mem mem_size mmap len (i + (load32 (mmap + i) mem + 4)) (boot_entry mem mem_size (mmap + i) s)
      else Some s)"

definition boot_pmm :: "mem \<Rightarrow> boot_info \<Rightarrow> addr \<Rightarrow> (nat \<Rightarrow> u32) \<Rightarrow> pmm_state option" where
  "boot_pmm mem mbi kernel_end_addr raw =
     (let mem_size = boot_mem_size mbi;
          s0 = pmm_init mem_size kernel_end_addr raw
      in do { s1 \<leftarrow> (if mb_flags mbi AND push_bit 6 1 \<noteq> 0
                     then boot_mmap_loop mem mem_size (mmap_addr mbi) (mmap_length mbi) 0 s0
                     else Some (pmm_init_region 0 mem_size s0));
              let s2 = pmm_deinit_region 0 0x100000 s1;
                  kernel_phys_start = 0x100000;
                  kernel_phys_end = kernel_end_addr - KERNEL_VIRT_BASE + 4096;
                  s3 = pmm_deinit_region kernel_phys_start (kernel_phys_end - kernel_phys_start) s2
              in Some (pmm_deinit_region 0x500000 (16 * 1024 * 1024) s3) })"

definition boot_memory ::
    "mem \<Rightarrow> boot_info \<Rightarrow> addr \<Rightarrow> (nat \<Rightarrow> u32) \<Rightarrow> vmm_state \<Rightarrow> kheap_state \<Rightarrow> (bool \<times> vmm_state \<times> kheap_state) option" where
  "boot_memory mem mbi kernel_end_addr raw vs hs =
     do { p \<leftarrow> boot_pmm mem mbi kernel_end_addr raw;
          let (ok, vs1) = vmm_init (vs\<lparr>pmm := p\<rparr>)
          in do { (vs2, hs1) \<leftarrow> kheap_init 0xC0500000 (16 * 1024 * 1024) vs1 hs; Some (ok, vs2, hs1) } }"

text \<open>The frame buffer is mapped once more when \<^verbatim>\<open>vbe_init\<close> has rejected it.\<close>

definition boot_framebuffer :: "boot_info \<Rightarrow> vbe_info \<Rightarrow> vmm_state \<Rightarrow> (vbe_info \<times> vmm_state) option" where
  "boot_framebuffer m vi s =
     (if lfb vi = 0 \<and> mb_flags m AND push_bit 12 1 \<noteq> 0 \<and> framebuffer_addr m AND 0xFFFFFFFF \<noteq> 0 \<and>
         drop_bit 32 (framebuffer_addr m) = 0 \<and> framebuffer_width m > 0 \<and> framebuffer_height m > 0
      then
        let phys = ucast (framebuffer_addr m AND 0xFFFFFFFF);
            phys_al = phys AND NOT 0xFFF;
            offset = phys - phys_al;
            msz = vbe_map_size (framebuffer_pitch m) (framebuffer_height m) offset
        in do { (ok, s1) \<leftarrow> vbe_map_loop msz phys_al 0 s;
                Some (if ok
                      then vi\<lparr>width := framebuffer_width m, height := framebuffer_height m, pitch := framebuffer_pitch m,
                              bpp := framebuffer_bpp m, lfb := VBE_VIRT_LFB + offset\<rparr>
                      else vi, s1) }
      else Some (vi, s))"

section \<open>The memory map\<close>

text \<open>A map of \<open>n\<close> entries of 24 bytes, the size that boot loaders write.\<close>

definition mmap_ok :: "mem \<Rightarrow> boot_info \<Rightarrow> nat \<Rightarrow> bool" where
  "mmap_ok mem mbi n \<longleftrightarrow> unat (mmap_length mbi) = 24 * n \<and> 24 * n + 24 < 2 ^ 32 \<and>
     (\<forall>j < n. load32 (mmap_addr mbi + of_nat (24 * j)) mem = 20)"

text \<open>
  What the boot loader reports: entry \<open>j\<close> has a 64-bit address, a 64-bit length and a type, and the
  bytes of the entries of type 1 are available.
\<close>

definition map_entry :: "boot_info \<Rightarrow> nat \<Rightarrow> addr" where "map_entry mbi j = mmap_addr mbi + of_nat (24 * j)"

definition load64 :: "addr \<Rightarrow> mem \<Rightarrow> nat" where
  "load64 a m = unat (load32 a m) + 2 ^ 32 * unat (load32 (a + 4) m)"

definition reported :: "mem \<Rightarrow> addr \<Rightarrow> nat \<Rightarrow> bool" where
  "reported mem e x \<longleftrightarrow> load32 (e + 20) mem = MULTIBOOT_MEMORY_AVAILABLE \<and>
     load64 (e + 4) mem \<le> x \<and> x < load64 (e + 4) mem + load64 (e + 12) mem"

definition available :: "mem \<Rightarrow> boot_info \<Rightarrow> nat \<Rightarrow> nat \<Rightarrow> bool" where
  "available mem mbi n x \<longleftrightarrow> (\<exists>j<n. reported mem (map_entry mbi j) x)"

text \<open>
  Available entries that the loop handles as reported: they start on a page and end below 4 GB. The
  loop drops the upper halves of address and length and rounds the address down to a page.
\<close>

definition entries_low :: "mem \<Rightarrow> boot_info \<Rightarrow> nat \<Rightarrow> bool" where
  "entries_low mem mbi n \<longleftrightarrow> (\<forall>j<n. let e = map_entry mbi j in load32 (e + 20) mem = MULTIBOOT_MEMORY_AVAILABLE \<longrightarrow>
     4096 dvd load64 (e + 4) mem \<and> load64 (e + 4) mem + load64 (e + 12) mem < 2 ^ 32)"

text \<open>The blocks that the loop frees for an entry.\<close>

definition entry_blocks :: "mem \<Rightarrow> u32 \<Rightarrow> addr \<Rightarrow> nat set" where
  "entry_blocks mem lim e =
     (let base = load32 (e + 4) mem; sz = load32 (e + 12) mem
      in if load32 (e + 20) mem = MULTIBOOT_MEMORY_AVAILABLE \<and> base < lim
         then region_blocks base (if base + sz > lim then lim - base else sz) else {})"

lemma load64_low:
  assumes "load64 a m < 2 ^ 32"
  shows "load64 a m = unat (load32 a m)"
proof -
  have "unat (load32 (a + 4) m) = 0" using assms by (simp add: load64_def)
  then show ?thesis by (simp add: load64_def)
qed

lemma entry_blocks_reported:
  assumes "entries_low mem mbi n" "j < n" "x div 4096 \<in> entry_blocks mem lim (map_entry mbi j)"
  shows "available mem mbi n x"
proof -
  define e where "e = map_entry mbi j"
  define base sz where "base = load32 (e + 4) mem" and "sz = load32 (e + 12) mem"
  have t: "load32 (e + 20) mem = MULTIBOOT_MEMORY_AVAILABLE" "base < lim"
    and x: "x div 4096 \<in> region_blocks base (if base + sz > lim then lim - base else sz)"
    using assms(3) by (auto simp: entry_blocks_def Let_def e_def base_def sz_def split: if_splits)
  have low: "4096 dvd load64 (e + 4) mem" "load64 (e + 4) mem + load64 (e + 12) mem < 2 ^ 32"
    using assms(1,2) t(1) by (auto simp: entries_low_def Let_def e_def)
  then have l: "load64 (e + 4) mem = unat base" "load64 (e + 12) mem = unat sz"
    unfolding base_def sz_def by (intro load64_low; linarith)+
  have "unat (base + sz) = unat base + unat sz" using low(2) l by (intro unat_plus_no_wrap) simp
  then have "unat (if base + sz > lim then lim - base else sz) \<le> unat sz"
    using t(2) by (auto simp: word_less_nat_alt unat_sub word_le_nat_alt)
  moreover obtain b where b: "unat base = 4096 * b" using low(1) l(1) by (auto elim: dvdE)
  ultimately have "unat base \<le> x" "x < unat base + unat sz"
    using x by (auto simp: region_blocks_def)
  then have "reported mem (map_entry mbi j) x" using t(1) l by (simp add: reported_def e_def [symmetric])
  then show ?thesis using assms(2) by (auto simp: available_def)
qed

lemma pmm_init_region_max: "pmm_max_blocks (pmm_init_region base sz s) = pmm_max_blocks s"
  using free_blocks_loop_spec [OF region_no_wrap [of base sz], of s] by (simp add: pmm_init_region_def)

lemma boot_entry_used:
  "k \<noteq> 0 \<Longrightarrow> block_used (boot_entry mem lim e s) k \<longleftrightarrow> block_used s k \<and> k \<notin> entry_blocks mem lim e"
  "pmm_max_blocks (boot_entry mem lim e s) = pmm_max_blocks s"
  by (auto simp: boot_entry_def entry_blocks_def Let_def pmm_init_region_used pmm_init_region_max)

lemma boot_entries_used:
  assumes "k \<noteq> 0"
  shows "(block_used (fold (\<lambda>j. boot_entry mem lim (f j)) js s) k \<longleftrightarrow>
      block_used s k \<and> (\<forall>j \<in> set js. k \<notin> entry_blocks mem lim (f j))) \<and>
    pmm_max_blocks (fold (\<lambda>j. boot_entry mem lim (f j)) js s) = pmm_max_blocks s"
  by (induction js arbitrary: s) (auto simp: boot_entry_used assms)

lemma boot_mmap_step:
  assumes "mmap_ok mem mbi n" "j < n"
  shows "boot_mmap_loop mem lim (mmap_addr mbi) (mmap_length mbi) (of_nat (24 * j)) s =
    boot_mmap_loop mem lim (mmap_addr mbi) (mmap_length mbi) (of_nat (24 * Suc j)) (boot_entry mem lim (mmap_addr mbi + of_nat (24 * j)) s)"
proof -
  have "of_nat (24 * j) < mmap_length mbi"
    using assms by (simp add: mmap_ok_def word_less_nat_alt unat_of_nat del: of_nat_mult)
  moreover have "(of_nat (24 * j) :: u32) + (20 + 4) = of_nat (24 * Suc j)" by simp
  ultimately show ?thesis using assms by (subst boot_mmap_loop.simps) (simp add: mmap_ok_def add.commute)
qed

lemma boot_mmap_returns:
  assumes "mmap_ok mem mbi n" "m \<le> n"
  shows "boot_mmap_loop mem lim (mmap_addr mbi) (mmap_length mbi) (of_nat (24 * (n - m))) s =
    Some (fold (\<lambda>j. boot_entry mem lim (mmap_addr mbi + of_nat (24 * j))) [n - m..<n] s)"
  using assms(2)
proof (induction m arbitrary: s)
  case 0
  have "(of_nat (24 * n) :: u32) = mmap_length mbi" using assms(1) by (metis mmap_ok_def of_nat_unat ucast_id)
  then show ?case by (subst boot_mmap_loop.simps) (simp del: of_nat_mult)
next
  case (Suc m)
  have l: "n - Suc m < n" "Suc (n - Suc m) = n - m" using Suc.prems by auto
  then have u: "[n - Suc m..<n] = (n - Suc m) # [n - m..<n]" by (simp add: upt_conv_Cons)
  show ?case unfolding boot_mmap_step [OF assms(1) l(1)] l(2) u using Suc by simp
qed

section \<open>What the memory manager hands out\<close>

lemma alloc_seq_free:
  assumes "pmm_inv s" "alloc_seq pmm_alloc_block n s = (as, s')" "0 \<notin> set as" "a \<in> set as"
  shows "\<exists>k. a = of_nat (k * 4096) \<and> k < 2 ^ 20 \<and> k < 32 * (unat (pmm_max_blocks s) div 32) \<and> \<not> block_used s k"
  using assms
proof (induction n arbitrary: s as s')
  case (Suc n)
  obtain b s1 bs s2 where st: "pmm_alloc_block s = (b, s1)" "alloc_seq pmm_alloc_block n s1 = (bs, s2)" "as = b # bs"
    using Suc.prems(2) by (auto simp: split_beta Let_def) (metis prod.collapse)
  from Suc.prems(1) show ?case
  proof (cases rule: pmm_alloc_block_cases)
    case full
    then show ?thesis using st Suc.prems(3) by simp
  next
    case (ok k)
    have s1: "pmm_inv s1" "pmm_max_blocks s1 = pmm_max_blocks s" "\<And>l. block_used s l \<Longrightarrow> block_used s1 l"
      using pmm.alloc_inv [OF Suc.prems(1) st(1)] ok st(1) by auto
    show ?thesis
    proof (cases "a = b")
      case True
      then show ?thesis using ok st(1) by auto
    next
      case False
      then show ?thesis using Suc.IH [OF s1(1) st(2)] Suc.prems(3,4) st(3) s1(2,3) by auto
    qed
  qed
qed simp

lemma boot_mem_size_le: "unat (boot_mem_size mbi) \<le> 0x8000000"
  by (simp add: boot_mem_size_def Let_def word_less_nat_alt)

lemma pmm_init_used:
  assumes "unat lim \<le> 0x8000000" "k < 32 * (unat lim div 4096 div 32)"
  shows "block_used (pmm_init lim a raw) k"
proof -
  let ?n = "unat lim div 4096 div 8"
  have n: "unat (lim div PMM_BLOCK_SIZE div PMM_BLOCKS_PER_BYTE) = ?n"
    by (simp add: PMM_BLOCK_SIZE_def PMM_BLOCKS_PER_BYTE_def unat_div)
  have "k div 32 < unat lim div 4096 div 32" using assms(2) by (intro less_mult_imp_div_less) (simp add: mult.commute)
  also have "\<dots> = ?n div 4" by (simp add: div_mult2_eq [symmetric])
  finally have "4 * (k div 32) + 4 \<le> ?n" by linarith
  then show ?thesis
    by (simp add: pmm_init_def Let_def block_used_def n bitmap_memset_FF_def max_u32)
qed

text \<open>The memory that must not be handed out: the first megabyte, the kernel with its bitmap, and the heap.\<close>

definition reserved :: "addr \<Rightarrow> nat \<Rightarrow> bool" where
  "reserved kernel_end_addr x \<longleftrightarrow> x < 0x100000 \<or>
     0x100000 \<le> x \<and> x < unat (kernel_end_addr - KERNEL_VIRT_BASE) + 4096 \<or> 0x500000 \<le> x \<and> x < 0x1500000"

lemma kernel_end_phys:
  assumes "kernel_end AND 0xFFF = 0" "0xC0100000 \<le> (kernel_end :: u32)"
  shows "(kernel_end - KERNEL_VIRT_BASE) AND 0xFFF = 0 \<and> 0x100000 \<le> unat (kernel_end - KERNEL_VIRT_BASE) \<and>
    unat (kernel_end - KERNEL_VIRT_BASE) < 0x40000000"
proof -
  have u: "unat (kernel_end - KERNEL_VIRT_BASE) = unat kernel_end - 0xC0000000"
    using assms(2) by (subst unat_sub) (simp_all add: KERNEL_VIRT_BASE_def word_le_nat_alt)
  have "4096 dvd unat kernel_end" using assms(1) by (simp add: page_aligned_iff mod_0_imp_dvd)
  then have "4096 dvd unat kernel_end - 0xC0000000" by (intro dvd_diff_nat) simp_all
  then show ?thesis using u assms(2) unat_u32_bound [of kernel_end] by (auto simp: page_aligned_iff word_le_nat_alt)
qed

text \<open>The blocks in use after the set-up.\<close>

lemma boot_pmm_used:
  assumes "mmap_ok mem mbi n" "mb_flags mbi AND push_bit 6 1 \<noteq> 0" "kernel_end AND 0xFFF = 0" "0xC0100000 \<le> kernel_end"
  obtains s where "boot_pmm mem mbi kernel_end raw = Some s" "pmm_inv s"
    "unat (pmm_max_blocks s) = unat (boot_mem_size mbi) div 4096"
    "\<And>k. k < 32 * (unat (boot_mem_size mbi) div 4096 div 32) \<Longrightarrow> block_used s k \<longleftrightarrow>
       k < 256 \<or> k < unat (kernel_end - KERNEL_VIRT_BASE) div 4096 + 1 \<or> 0x500 \<le> k \<and> k < 0x1500 \<or>
       (\<forall>j < n. k \<notin> entry_blocks mem (boot_mem_size mbi) (map_entry mbi j))"
proof -
  let ?lim = "boot_mem_size mbi" and ?ks = "kernel_end - KERNEL_VIRT_BASE + 4096 - 0x100000"
  define s0 where "s0 = pmm_init ?lim kernel_end raw"
  define s1 where "s1 = fold (\<lambda>j. boot_entry mem ?lim (mmap_addr mbi + of_nat (24 * j))) [0..<n] s0"
  define s where "s = pmm_deinit_region 0x500000 0x1000000 (pmm_deinit_region 0x100000 ?ks (pmm_deinit_region 0 0x100000 s1))"
  have b: "boot_pmm mem mbi kernel_end raw = Some s"
    using boot_mmap_returns [OF assms(1), of n ?lim s0] assms(2) by (simp add: boot_pmm_def Let_def s0_def s1_def s_def)
  have used: "block_used s k \<longleftrightarrow> block_used s1 k \<or> k < 256 \<or> 256 \<le> k \<and> k < 256 + unat ?ks div 4096 \<or> 0x500 \<le> k \<and> k < 0x1500" for k
    by (auto simp: s_def pmm_deinit_region_used region_blocks_def)
  have mx: "unat (pmm_max_blocks s) = unat ?lim div 4096"
    using boot_entries_used [of 1 mem ?lim "\<lambda>j. mmap_addr mbi + of_nat (24 * j)" "[0..<n]" s0]
    by (simp add: s_def s1_def pmm_deinit_region_counter s0_def pmm_init_def Let_def unat_page_number)
  have inv: "pmm_inv s" using used [of 0] mx boot_mem_size_le [of mbi] by (simp add: pmm_inv_def)
  obtain c where c: "unat (kernel_end - KERNEL_VIRT_BASE) = c * 4096" and cb: "0x100000 \<le> c * 4096" "c * 4096 < 0x40000000"
    using kernel_end_phys [OF assms(3,4)] by (metis dvd_def mult.commute page_aligned_iff mod_0_imp_dvd)
  have ks: "unat ?ks div 4096 = c + 1 - 256"
    using c cb by (simp add: unat_sub_if_size word_size unat_word_ariths)
  have "block_used s k \<longleftrightarrow> k < 256 \<or> k < unat (kernel_end - KERNEL_VIRT_BASE) div 4096 + 1 \<or> 0x500 \<le> k \<and> k < 0x1500 \<or>
      (\<forall>j < n. k \<notin> entry_blocks mem ?lim (map_entry mbi j))" if k: "k < 32 * (unat ?lim div 4096 div 32)" for k
  proof (cases "k < 256")
    case True
    then show ?thesis using used [of k] by simp
  next
    case False
    have "block_used s0 k" unfolding s0_def by (rule pmm_init_used [OF boot_mem_size_le k])
    then have "block_used s1 k \<longleftrightarrow> (\<forall>j < n. k \<notin> entry_blocks mem ?lim (map_entry mbi j))"
      using False boot_entries_used [of k mem ?lim "\<lambda>j. mmap_addr mbi + of_nat (24 * j)" "[0..<n]" s0]
      by (auto simp: s1_def map_entry_def)
    then show ?thesis using used [of k] ks c False cb by auto
  qed
  then show ?thesis using that b inv mx by blast
qed

text \<open>
  C10. Memory after start-up: with a memory map of standard entries, of any number, whose available
  entries start on a page and end below 4 GB, the set-up of the physical memory manager ends, and
  however many blocks are then allocated, no byte of them is in the first megabyte, in the kernel
  image with the bitmap behind it, or in the 16 MB of the kernel heap; each byte is one that the
  boot loader reported as available, below 128 MB.
\<close>

theorem boot_memory_safe:
  assumes "mmap_ok mem mbi n" "entries_low mem mbi n" "mb_flags mbi AND push_bit 6 1 \<noteq> 0"
    and "kernel_end AND 0xFFF = 0" "0xC0100000 \<le> kernel_end"
  shows "\<exists>s. boot_pmm mem mbi kernel_end raw = Some s \<and>
    (\<forall>m as s' a x. alloc_seq pmm_alloc_block m s = (as, s') \<and> 0 \<notin> set as \<and> a \<in> set as \<and> unat a \<le> x \<and> x < unat a + 4096 \<longrightarrow>
      \<not> reserved kernel_end x \<and> available mem mbi n x \<and> x < 0x8000000)"
proof -
  let ?lim = "boot_mem_size mbi"
  obtain s where b: "boot_pmm mem mbi kernel_end raw = Some s" "pmm_inv s" "unat (pmm_max_blocks s) = unat ?lim div 4096"
    and used: "\<And>k. k < 32 * (unat ?lim div 4096 div 32) \<Longrightarrow> block_used s k \<longleftrightarrow>
       k < 256 \<or> k < unat (kernel_end - KERNEL_VIRT_BASE) div 4096 + 1 \<or> 0x500 \<le> k \<and> k < 0x1500 \<or>
       (\<forall>j < n. k \<notin> entry_blocks mem ?lim (map_entry mbi j))"
    by (rule boot_pmm_used [OF assms(1,3-5), where raw = raw]) blast
  obtain c where c: "unat (kernel_end - KERNEL_VIRT_BASE) = c * 4096"
    using kernel_end_phys [OF assms(4,5)] by (metis dvd_def mult.commute page_aligned_iff mod_0_imp_dvd)
  have "\<not> reserved kernel_end x \<and> available mem mbi n x \<and> x < 0x8000000"
    if al: "alloc_seq pmm_alloc_block m s = (as, s')" "0 \<notin> set as" "a \<in> set as" "unat a \<le> x" "x < unat a + 4096" for m as s' a x
  proof -
    obtain k where k: "a = of_nat (k * 4096)" "k < 2 ^ 20" "k < 32 * (unat ?lim div 4096 div 32)" "\<not> block_used s k"
      using alloc_seq_free [OF b(2) al(1-3)] b(3) by auto
    have ua: "unat a = k * 4096" using k(1,2) by (simp add: unat_of_nat_less del: of_nat_mult)
    have kx: "x div 4096 = k" using ua al(4,5) by (intro div_nat_eqI) auto
    have nu: "256 \<le> k" "c + 1 \<le> k" "\<not> (0x500 \<le> k \<and> k < 0x1500)" using k(4) used [OF k(3)] c by auto
    obtain j where "j < n" "x div 4096 \<in> entry_blocks mem ?lim (map_entry mbi j)" using k(4) used [OF k(3)] kx by auto
    then have "available mem mbi n x" by (rule entry_blocks_reported [OF assms(2)])
    moreover have "k < unat ?lim div 4096" using k(3) by linarith
    then have "k < 0x8000" using boot_mem_size_le [of mbi] by linarith
    moreover have "\<not> reserved kernel_end x" using nu ua al(4,5) c by (auto simp: reserved_def)
    ultimately show ?thesis using ua al(5) by auto
  qed
  then show ?thesis using b(1) by blast
qed

text \<open>A machine whose memory map has one entry, from 1 MB on.\<close>

definition boot_mem :: mem where
  "boot_mem = store32 0x9000 20 (store32 0x9004 0x100000 (store32 0x900C 0x7F00000 (store32 0x9014 1 (\<lambda>_. 0))))"

definition boot_mbi :: boot_info where
  "boot_mbi = \<lparr>mb_flags = 0x40, framebuffer_addr = 0, framebuffer_pitch = 0, framebuffer_width = 0, framebuffer_height = 0,
     framebuffer_bpp = 0, framebuffer_type = 0, mem_upper = 0x1FC00, mmap_length = 24, mmap_addr = 0x9000\<rparr>"

lemma boot_mem_words:
  "load32 0x9000 boot_mem = 20" "load32 0x9004 boot_mem = 0x100000" "load32 0x9008 boot_mem = 0"
  "load32 0x900C boot_mem = 0x7F00000" "load32 0x9010 boot_mem = 0" "load32 0x9014 boot_mem = 1"
  by (simp_all add: boot_mem_def load32_def store32_def byte_def join32_def)

lemma boot_mmap_example: "mmap_ok boot_mem boot_mbi 1" "entries_low boot_mem boot_mbi 1"
  by (simp_all add: mmap_ok_def entries_low_def map_entry_def load64_def boot_mbi_def boot_mem_words)

lemma boot_example_alloc:
  assumes "boot_pmm boot_mem boot_mbi 0xC0200000 raw = Some s"
  shows "fst (pmm_alloc_block s) \<noteq> 0"
proof -
  have lim: "boot_mem_size boot_mbi = 0x8000000" by (simp add: boot_mem_size_def boot_mbi_def)
  have f: "mb_flags boot_mbi AND push_bit 6 1 \<noteq> 0" by (simp add: boot_mbi_def)
  have "(0xC0200000 :: u32) AND 0xFFF = 0" "(0xC0100000 :: u32) \<le> 0xC0200000" by simp_all
  from boot_pmm_used [OF boot_mmap_example(1) f this, where raw = raw] obtain s' where
    s': "boot_pmm boot_mem boot_mbi 0xC0200000 raw = Some s'" "pmm_inv s'" "unat (pmm_max_blocks s') = 0x8000"
    and used: "\<And>k. k < 0x8000 \<Longrightarrow> block_used s' k \<longleftrightarrow> k < 256 \<or> k < 0x201 \<or> 0x500 \<le> k \<and> k < 0x1500 \<or>
      (\<forall>j < 1. k \<notin> entry_blocks boot_mem 0x8000000 (map_entry boot_mbi j))"
    by (simp add: lim KERNEL_VIRT_BASE_def) blast
  have "0x1500 \<in> entry_blocks boot_mem 0x8000000 (map_entry boot_mbi 0)"
    by (simp add: entry_blocks_def map_entry_def boot_mbi_def boot_mem_words MULTIBOOT_MEMORY_AVAILABLE_def region_blocks_def)
  then have "\<not> block_used s' 0x1500" using used [of "0x1500"] by auto
  moreover have "(0x1500 :: nat) < 32 * (0x8000 div 32)" by simp
  ultimately have "\<not> pmm_full s'" unfolding pmm_full_def s'(3) by blast
  then have "fst (pmm_alloc_block s') \<noteq> 0" using pmm_alloc_null_full [OF s'(2)] by blast
  then show ?thesis using s'(1) assms by simp
qed

theorem boot_memory_safe_witness:
  "\<exists>s a s'. boot_pmm boot_mem boot_mbi 0xC0200000 (\<lambda>_. 0) = Some s \<and> pmm_alloc_block s = (a, s') \<and> a \<noteq> 0 \<and>
     \<not> reserved 0xC0200000 (unat a) \<and> available boot_mem boot_mbi 1 (unat a)"
proof -
  have f: "mb_flags boot_mbi AND push_bit 6 1 \<noteq> 0" by (simp add: boot_mbi_def)
  have k: "(0xC0200000 :: u32) AND 0xFFF = 0" "(0xC0100000 :: u32) \<le> 0xC0200000" by simp_all
  obtain s where s: "boot_pmm boot_mem boot_mbi 0xC0200000 (\<lambda>_. 0) = Some s"
    "\<And>m as s' a x. alloc_seq pmm_alloc_block m s = (as, s') \<and> 0 \<notin> set as \<and> a \<in> set as \<and> unat a \<le> x \<and> x < unat a + 4096 \<Longrightarrow>
      \<not> reserved 0xC0200000 x \<and> available boot_mem boot_mbi 1 x"
    using boot_memory_safe [OF boot_mmap_example f k, of "\<lambda>_. 0"] by blast
  obtain a s' where a: "pmm_alloc_block s = (a, s')" by (cases "pmm_alloc_block s")
  then have "a \<noteq> 0" "alloc_seq pmm_alloc_block (Suc 0) s = ([a], s')" using boot_example_alloc [OF s(1)] by simp_all
  then show ?thesis using s a s(2) [of "Suc 0" "[a]" s' a "unat a"] by auto
qed

text \<open>Start-up goes on to a heap of one free block, whether or not a page directory could be allocated.\<close>

theorem boot_memory_heap:
  assumes "mmap_ok mem mbi n" "mb_flags mbi AND push_bit 6 1 \<noteq> 0"
  shows "\<exists>ok vs' hs'. boot_memory mem mbi kernel_end raw vs hs = Some (ok, vs', hs') \<and>
    heap_rep 0xC0500000 0xC1500000 hs' [(0xC0500000, 0x1000000 - HEADER_SIZE, True)]"
proof -
  obtain p where p: "boot_pmm mem mbi kernel_end raw = Some p"
    using boot_mmap_returns [OF assms(1), of n "boot_mem_size mbi" "pmm_init (boot_mem_size mbi) kernel_end raw"] assms(2)
    by (auto simp: boot_pmm_def Let_def)
  obtain ok vs1 where v: "vmm_init (vs\<lparr>pmm := p\<rparr>) = (ok, vs1)" by (cases "vmm_init (vs\<lparr>pmm := p\<rparr>)")
  obtain vs2 hs1 where "kheap_init 0xC0500000 0x1000000 vs1 hs = Some (vs2, hs1)"
    "heap_rep 0xC0500000 0xC1500000 hs1 [(0xC0500000, 0x1000000 - HEADER_SIZE, True)]"
    using kheap_init_rep [of "0xC0500000" "0x1000000" vs1 hs] by auto
  then show ?thesis using p v by (auto simp: boot_memory_def)
qed

text \<open>
  A map whose last entry has the size -4 keeps the loop where it is: the entry is read for ever.
\<close>

theorem boot_mmap_diverges:
  assumes "load32 (mmap + i) mem = - 4" "i < len"
  shows "boot_mmap_loop mem lim mmap len i s = None"
proof -
  have "False" if "boot_mmap_loop mem lim mmap len i s = Some r" for r
    using that assms
    by (induction rule: boot_mmap_loop.raw_induct [rotated, consumes 1]) (auto split: if_splits)
  then show ?thesis by (cases "boot_mmap_loop mem lim mmap len i s") auto
qed

end
