(* ===== verification/Khazar_Picture.thy ===== *)
theory Khazar_Picture
  imports Khazar_Gfx
begin

text \<open>
  What \<^verbatim>\<open>gfx_save_rect\<close> and \<^verbatim>\<open>gfx_restore_rect\<close> of \<^verbatim>\<open>kernel/drivers/gpu/gfx.c\<close> do to the picture:
  restoring a saved rectangle undoes every change inside it, also where the rectangle reaches
  over the edge of the screen.
\<close>

section \<open>Saving and restoring\<close>

lemma for_int_nat: "for_int 0 (int n) f = fold (\<lambda>k. f (int k)) [0..<n]"
proof -
  have "[0..int n - 1] = map int [0..<n]"
    by (induction n) (simp_all add: upto_rec2)
  then show ?thesis by (simp add: for_int_def fold_map comp_def)
qed

lemma on_screen_split: "on_screen v x y \<longleftrightarrow> row_on_screen v y \<and> column_on_screen v x"
  by (auto simp: on_screen_def row_on_screen_def column_on_screen_def)

text \<open>A rectangle with a colour of its own for every pixel.\<close>

definition draw_cells :: "int \<Rightarrow> int \<Rightarrow> nat \<Rightarrow> nat \<Rightarrow> (nat \<Rightarrow> nat \<Rightarrow> u32) \<Rightarrow> gfx_state \<Rightarrow> gfx_state" where
  "draw_cells x y w h f =
     fold (\<lambda>row. fold (\<lambda>col. gfx_put_pixel (x + int col) (y + int row) (f row col)) [0..<w]) [0..<h]"

definition in_rect :: "int \<Rightarrow> int \<Rightarrow> nat \<Rightarrow> nat \<Rightarrow> int \<Rightarrow> int \<Rightarrow> bool" where
  "in_rect x y w h X Y \<longleftrightarrow> x \<le> X \<and> X < x + int w \<and> y \<le> Y \<and> Y < y + int h"

lemma draws_cells: "draws (draw_cells x y w h f)"
  unfolding draw_cells_def by (intro draws_fold draws_put_pixel)

lemma pixels_put_pixel:
  "gfx_ok g \<Longrightarrow> pixels (gfx_put_pixel x y c g) X Y =
     (if X = x \<and> Y = y then map_option (\<lambda>_. c) (pixels g X Y) else pixels g X Y)"
  using paints_put_pixel unfolding paints_def by blast

lemma pixels_row:
  assumes "gfx_ok g"
  shows "pixels (fold (\<lambda>col. gfx_put_pixel (x + int col) y (f col)) [0..<n] g) X Y =
    (if Y = y \<and> x \<le> X \<and> X < x + int n then map_option (\<lambda>_. f (nat (X - x))) (pixels g X Y) else pixels g X Y)"
proof (induction n)
  case (Suc n)
  let ?g = "fold (\<lambda>col. gfx_put_pixel (x + int col) y (f col)) [0..<n] g"
  have "draws (fold (\<lambda>col. gfx_put_pixel (x + int col) y (f col)) [0..<n])" by (intro draws_fold draws_put_pixel)
  then have "gfx_ok ?g" using draws_D assms by blast
  then show ?case using Suc by (auto simp: pixels_put_pixel)
qed auto

lemma pixels_cells:
  assumes "gfx_ok g"
  shows "pixels (draw_cells x y w h f g) X Y =
    (if in_rect x y w h X Y then map_option (\<lambda>_. f (nat (Y - y)) (nat (X - x))) (pixels g X Y) else pixels g X Y)"
proof (induction h)
  case (Suc h)
  let ?g = "draw_cells x y w h f g"
  have "gfx_ok ?g" using draws_D [OF draws_cells assms] by blast
  then show ?case using Suc pixels_row [of ?g x "y + int h" "f h" w X Y]
    by (auto simp: draw_cells_def in_rect_def)
qed (auto simp: draw_cells_def in_rect_def)

lemma restore_rows_cells:
  assumes "backbuffer g \<noteq> None"
  shows "restore_rows src x y (int w) (int h) g = Some (draw_cells x y w h (\<lambda>row col. src ! (row * w + col)) g)"
proof -
  let ?put = "\<lambda>row col. gfx_put_pixel (x + int col) (y + int row) (src ! (row * w + col))"
  let ?body = "\<lambda>row col st. if column_on_screen (vbe g) (x + int col)
      then do { g1 \<leftarrow> st; b \<leftarrow> backbuffer g1;
                Some (g1\<lparr>backbuffer := Some (b[pixel_index (vbe g) (x + int col) (y + int row) := src ! nat (int row * int w + int col)])\<rparr>) }
      else st"
  have keep: "vbe (?put row col g1) = vbe g1" "backbuffer (?put row col g1) = None \<longleftrightarrow> backbuffer g1 = None" for row col g1
    by (auto simp: gfx_put_pixel_def split: option.splits)
  have ix: "nat (int row * int w + int col) = row * w + col" for row col
    by (metis nat_int of_nat_add of_nat_mult)
  have row: "fold (?body row) [0..<n] (Some g1) = Some (fold (?put row) [0..<n] g1) \<and>
      vbe (fold (?put row) [0..<n] g1) = vbe g \<and> backbuffer (fold (?put row) [0..<n] g1) \<noteq> None"
    if "row_on_screen (vbe g) (y + int row)" "vbe g1 = vbe g" "backbuffer g1 \<noteq> None" for row n g1
    using that
  proof (induction n)
    case (Suc n)
    then show ?case using keep
      by (auto simp: ix gfx_put_pixel_def on_screen_split split: option.splits)
  qed simp
  have off: "fold (?put row) [0..<n] g1 = g1"
    if "\<not> row_on_screen (vbe g) (y + int row)" "vbe g1 = vbe g" for row n g1
    using that by (induction n) (auto simp: gfx_put_pixel_def on_screen_split split: option.splits)
  have "fold (\<lambda>row st. if \<not> row_on_screen (vbe g) (y + int row) then st else fold (?body row) [0..<w] st) [0..<n] (Some g) =
      Some (fold (\<lambda>row. fold (?put row) [0..<w]) [0..<n] g) \<and>
      vbe (fold (\<lambda>row. fold (?put row) [0..<w]) [0..<n] g) = vbe g \<and>
      backbuffer (fold (\<lambda>row. fold (?put row) [0..<w]) [0..<n] g) \<noteq> None" for n
  proof (induction n)
    case (Suc n)
    then show ?case using row [of n "fold (\<lambda>row. fold (?put row) [0..<w]) [0..<n] g" w]
        off [of n "fold (\<lambda>row. fold (?put row) [0..<w]) [0..<n] g" w]
      by (cases "row_on_screen (vbe g) (y + int n)") simp_all
  qed (use assms in simp)
  then show ?thesis unfolding restore_rows_def for_int_nat draw_cells_def by blast
qed

lemma fold_cells:
  assumes "r * w + n \<le> length d"
  shows "length (fold (\<lambda>col d. d[r * w + col := f col]) [0..<n] d) = length d \<and>
    (\<forall>i<length d. fold (\<lambda>col d. d[r * w + col := f col]) [0..<n] d ! i =
       (if r * w \<le> i \<and> i < r * w + n then f (i - r * w) else d ! i))"
  using assms
proof (induction n)
  case (Suc n)
  then show ?case by (auto simp: nth_list_update less_Suc_eq)
qed auto

definition save_value :: "gfx_state \<Rightarrow> u32 list \<Rightarrow> int \<Rightarrow> int \<Rightarrow> u32" where
  "save_value g b x y = (if column_on_screen (vbe g) x then b ! pixel_index (vbe g) x y else 0)"

lemma save_rows_eq:
  assumes "backbuffer g = Some b"
  shows "save_rows d x y (int w) (int h) g =
    Some (fold (\<lambda>row d. if \<not> row_on_screen (vbe g) (y + int row) then d
      else fold (\<lambda>col d. d[row * w + col := save_value g b (x + int col) (y + int row)]) [0..<w] d) [0..<h] d)"
proof -
  let ?body = "\<lambda>row col d. if column_on_screen (vbe g) (x + int col)
      then do { b \<leftarrow> backbuffer g; d \<leftarrow> d;
                Some (d[nat (int row * int w + int col) := b ! pixel_index (vbe g) (x + int col) (y + int row)]) }
      else map_option (\<lambda>d. d[nat (int row * int w + int col) := 0]) d"
  let ?pure = "\<lambda>row col d. d[row * w + col := save_value g b (x + int col) (y + int row)]"
  have ix: "nat (int row * int w + int col) = row * w + col" for row col
    by (metis nat_int of_nat_add of_nat_mult)
  have row: "fold (?body row) [0..<n] (Some d) = Some (fold (?pure row) [0..<n] d)" for row n d
    by (induction n) (simp_all add: ix save_value_def assms)
  have "fold (\<lambda>row d. if \<not> row_on_screen (vbe g) (y + int row) then d else fold (?body row) [0..<w] d) [0..<n] (Some d) =
      Some (fold (\<lambda>row d. if \<not> row_on_screen (vbe g) (y + int row) then d else fold (?pure row) [0..<w] d) [0..<n] d)" for n
    by (induction n) (simp_all add: row)
  then show ?thesis unfolding save_rows_def for_int_nat by blast
qed

lemma save_rows_saves:
  assumes "backbuffer g = Some b" "length d = h * w"
  shows "\<exists>d'. save_rows d x y (int w) (int h) g = Some d' \<and> length d' = length d \<and>
    (\<forall>row<h. \<forall>col<w. on_screen (vbe g) (x + int col) (y + int row) \<longrightarrow>
       d' ! (row * w + col) = b ! pixel_index (vbe g) (x + int col) (y + int row))"
proof -
  let ?rows = "\<lambda>n. fold (\<lambda>row d. if \<not> row_on_screen (vbe g) (y + int row) then d
    else fold (\<lambda>col d. d[row * w + col := save_value g b (x + int col) (y + int row)]) [0..<w] d) [0..<n] d"
  have "length (?rows n) = length d \<and> (\<forall>row<n. \<forall>col<w. on_screen (vbe g) (x + int col) (y + int row) \<longrightarrow>
      ?rows n ! (row * w + col) = b ! pixel_index (vbe g) (x + int col) (y + int row))" if "n \<le> h" for n
    using that
  proof (induction n)
    case (Suc n)
    let ?f = "\<lambda>col. save_value g b (x + int col) (y + int n)"
    have "Suc n * w \<le> h * w" using Suc.prems by (rule mult_le_mono1)
    then have "n * w + w \<le> length (?rows n)" using Suc assms(2) by simp
    note cells = fold_cells [OF this, of ?f]
    show ?case
    proof (cases "row_on_screen (vbe g) (y + int n)")
      case True
      have eq: "?rows (Suc n) = fold (\<lambda>col d. d[n * w + col := ?f col]) [0..<w] (?rows n)" using True by simp
      show ?thesis
      proof (intro conjI allI impI)
        show "length (?rows (Suc n)) = length d" unfolding eq using cells Suc by simp
        fix row col
        assume *: "row < Suc n" "col < w" "on_screen (vbe g) (x + int col) (y + int row)"
        have i: "row * w + col < length (?rows n)"
          using row_major_less [OF *(2), of row h] *(1) Suc assms(2) by (simp add: mult.commute)
        show "?rows (Suc n) ! (row * w + col) = b ! pixel_index (vbe g) (x + int col) (y + int row)"
        proof (cases "row = n")
          case True
          then show ?thesis unfolding eq using cells i * by (simp add: save_value_def on_screen_split)
        next
          case False
          then have r: "row < n" using *(1) by simp
          then have "row * w + col < n * w" using row_major_less [OF *(2) r] by (simp only: mult.commute)
          then show ?thesis unfolding eq using cells i Suc * r by simp
        qed
      qed
    next
      case False
      then show ?thesis using Suc by (auto simp: less_Suc_eq on_screen_split)
    qed
  qed simp
  then show ?thesis using save_rows_eq [OF assms(1)] by blast
qed

text \<open>The picture determines the state of the back buffer.\<close>

lemma small_on_screen:
  assumes "size_ok v" "x < unat (width v)" "y < unat (height v)"
  shows "on_screen v (int x) (int y)"
proof -
  have "unat (width v) * unat (height v) < 2 ^ 30"
    using assms(1) by (simp add: size_ok_def mult.commute [of "unat (width v)"])
  moreover have "unat (width v) \<le> unat (width v) * unat (height v)" "unat (height v) \<le> unat (width v) * unat (height v)"
    using assms(2,3) by simp_all
  ultimately have "unat (width v) < 2 ^ 30" "unat (height v) < 2 ^ 30" by linarith+
  moreover have "sint w = int (unat w)" if "unat w < 2 ^ 30" for w :: u32
  proof -
    have "uint w < 2 ^ 30" using that by (metis of_nat_less_iff of_nat_numeral of_nat_power uint_nat)
    then have "signed_take_bit 31 (uint w) = uint w"
      using unsigned_greater_eq [of w] by (intro signed_take_bit_int_eq_self) (simp_all add: order_trans [of _ 0])
    then show ?thesis by (simp add: sint_uint)
  qed
  moreover have "int x < uint (width v)" "int y < uint (height v)"
    using assms(2,3) by (metis of_nat_less_iff uint_nat)+
  ultimately show ?thesis by (simp add: on_screen_def)
qed

lemma pixels_eqI:
  assumes "gfx_ok g" "gfx_ok g'" "vbe g' = vbe g" "frontbuffer g' = frontbuffer g" "vram g' = vram g"
    "backbuffer g = Some b" "backbuffer g' = Some b'" "\<And>x y. pixels g' x y = pixels g x y"
  shows "g' = g"
proof -
  let ?w = "unat (width (vbe g))" and ?h = "unat (height (vbe g))"
  have len: "length b = ?w * ?h" "length b' = ?w * ?h" "size_ok (vbe g)" using assms by (simp_all add: gfx_ok_def)
  have "b' ! i = b ! i" if "i < ?w * ?h" for i
  proof -
    have w: "0 < ?w" using that by (metis gr0I mult_0 not_less_zero)
    have s: "on_screen (vbe g) (int (i mod ?w)) (int (i div ?w))"
      using len(3) w that by (intro small_on_screen) (simp_all add: less_mult_imp_div_less mult.commute)
    then have "pixel_index (vbe g) (int (i mod ?w)) (int (i div ?w)) = i" using len(3) by (simp add: pixel_index_eq)
    then show ?thesis using assms(8) [of "int (i mod ?w)" "int (i div ?w)"] s assms(3,6,7) by (simp add: pixels_def)
  qed
  then have "b' = b" using len by (intro nth_equalityI) simp_all
  then show ?thesis using assms by simp
qed

text \<open>
  Restoring a saved rectangle undoes every change that stayed inside it.
\<close>

lemma restore_undoes:
  assumes ok: "gfx_ok g" "backbuffer g = Some b" and d: "length d = h * w"
    and change: "draws c" "\<And>X Y. \<not> in_rect x y w h X Y \<Longrightarrow> pixels (c g) X Y = pixels g X Y"
  shows "\<exists>d'. save_rows d x y (int w) (int h) g = Some d' \<and> length d' = length d \<and>
    restore_rows d' x y (int w) (int h) (c g) = Some g"
proof -
  obtain d' where s: "save_rows d x y (int w) (int h) g = Some d'" "length d' = length d"
    "\<And>row col. \<lbrakk>row < h; col < w; on_screen (vbe g) (x + int col) (y + int row)\<rbrakk> \<Longrightarrow>
       d' ! (row * w + col) = b ! pixel_index (vbe g) (x + int col) (y + int row)"
    using save_rows_saves [OF ok(2) d] by blast
  let ?g = "draw_cells x y w h (\<lambda>row col. d' ! (row * w + col)) (c g)"
  note c = draws_D [OF change(1) ok(1)]
  note r = draws_D [OF draws_cells, of "c g" x y w h "\<lambda>row col. d' ! (row * w + col)"]
  have "pixels ?g X Y = pixels g X Y" for X Y
  proof (cases "in_rect x y w h X Y \<and> on_screen (vbe g) X Y")
    case True
    then have "d' ! (nat (Y - y) * w + nat (X - x)) = b ! pixel_index (vbe g) X Y"
      using s(3) [of "nat (Y - y)" "nat (X - x)"] by (auto simp: in_rect_def)
    moreover have "pixels (c g) X Y \<noteq> None" using True c ok(2) by (simp add: pixels_def)
    ultimately show ?thesis using True c ok(2) by (auto simp: pixels_cells) (simp add: pixels_def)
  next
    case False
    then show ?thesis using c change(2) [of X Y] by (auto simp: pixels_cells) (simp_all add: pixels_def)
  qed
  moreover obtain b' where "backbuffer ?g = Some b'" using r c ok(2) by auto
  ultimately have "?g = g" using r c ok by (intro pixels_eqI [OF _ _ _ _ _ ok(2)]) auto
  moreover have "backbuffer (c g) \<noteq> None" using c ok(2) by simp
  ultimately show ?thesis using s(1,2) restore_rows_cells [of "c g" d' x y w h] by auto
qed

section \<open>Drawing inside a region\<close>

definition inside :: "(int \<Rightarrow> int \<Rightarrow> bool) \<Rightarrow> (gfx_state \<Rightarrow> gfx_state) \<Rightarrow> bool" where
  "inside P d \<longleftrightarrow> draws d \<and> (\<forall>g. gfx_ok g \<longrightarrow> (\<forall>X Y. \<not> P X Y \<longrightarrow> pixels (d g) X Y = pixels g X Y))"

lemma inside_id: "inside P (\<lambda>g. g)"
  by (simp add: inside_def draws_id)

lemma inside_comp: "\<lbrakk>inside P d; inside P e\<rbrakk> \<Longrightarrow> inside P (\<lambda>g. e (d g))"
  unfolding inside_def using draws_comp draws_D by fastforce

lemma inside_fold: "(\<And>k. k \<in> set ks \<Longrightarrow> inside P (d k)) \<Longrightarrow> inside P (fold d ks)"
proof (induction ks)
  case (Cons k ks)
  then show ?case using inside_comp [of P "d k" "fold d ks"] by (simp add: comp_def)
qed (simp add: inside_id id_def)

lemma inside_for: "(\<And>k. \<lbrakk>lo \<le> k; k < hi\<rbrakk> \<Longrightarrow> inside P (d k)) \<Longrightarrow> inside P (for_int lo hi d)"
  unfolding for_int_def by (rule inside_fold) simp

lemma inside_if: "\<lbrakk>inside P d; inside P e\<rbrakk> \<Longrightarrow> inside P (\<lambda>g. if c then d g else e g)"
  by (cases c) simp_all

lemma inside_put_pixel: "P x y \<Longrightarrow> inside P (gfx_put_pixel x y c)"
  by (auto simp: inside_def draws_put_pixel pixels_put_pixel)

lemma inside_put_pixel_alpha: "P x y \<Longrightarrow> inside P (gfx_put_pixel_alpha x y c a)"
  unfolding inside_def
proof (intro conjI allI impI draws_put_pixel_alpha)
  fix g X Y assume "P x y" "gfx_ok g" "\<not> P X Y"
  then have "pixel_index (vbe g) x y \<noteq> pixel_index (vbe g) X Y" if "on_screen (vbe g) x y" "on_screen (vbe g) X Y"
    using pixel_index_inj [OF that] by (auto simp: gfx_ok_def)
  then show "pixels (gfx_put_pixel_alpha x y c a g) X Y = pixels g X Y"
    by (auto simp: gfx_put_pixel_alpha_def pixels_def Let_def split: option.splits)
qed

end
