(* ===== verification/Khazar_Interrupts.thy ===== *)
theory Khazar_Interrupts
  imports Khazar_Process Khazar_Terminal
begin

text \<open>
  Segments and interrupts, \<^verbatim>\<open>kernel/arch/x86/gdt.c\<close>, \<^verbatim>\<open>idt.c\<close> and \<^verbatim>\<open>isr.c\<close>. Addresses the
  linker assigns (the assembly stubs, the TSS) are arguments; \<open>ports\<close> are the values written to
  I/O ports, latest last. A registered handler is a number that names the C function (0 for NULL);
  what the functions do is an argument, \<open>run\<close>.
\<close>

subsection \<open>Segments\<close>

record gdt_entry =
  limit_low :: u16
  base_low :: u16
  base_middle :: u8
  access :: u8
  granularity :: u8
  base_high :: u8

definition gdt_gate :: "u32 \<Rightarrow> u32 \<Rightarrow> u8 \<Rightarrow> u8 \<Rightarrow> gdt_entry" where
  "gdt_gate base limit acc gran =
     \<lparr>limit_low = ucast (limit AND 0xFFFF), base_low = ucast (base AND 0xFFFF),
      base_middle = ucast (drop_bit 16 base AND 0xFF), access = acc,
      granularity = ucast (drop_bit 16 limit AND 0x0F) OR (gran AND 0xF0), base_high = ucast (drop_bit 24 base AND 0xFF)\<rparr>"

definition gdt_set_gate :: "nat \<Rightarrow> u32 \<Rightarrow> u32 \<Rightarrow> u8 \<Rightarrow> u8 \<Rightarrow> gdt_entry list \<Rightarrow> gdt_entry list" where
  "gdt_set_gate num base limit acc gran gdt = gdt[num := gdt_gate base limit acc gran]"

text \<open>The fields of the TSS the kernel sets; the others are zero.\<close>

record tss_entry =
  t_esp0 :: u32
  t_ss0 :: u32
  t_cs :: u32
  t_ss :: u32
  t_ds :: u32
  t_es :: u32
  t_fs :: u32
  t_gs :: u32

definition SIZEOF_TSS :: u32 where "SIZEOF_TSS = 104"

definition gdt_write_tss :: "addr \<Rightarrow> nat \<Rightarrow> u16 \<Rightarrow> u32 \<Rightarrow> gdt_entry list \<Rightarrow> gdt_entry list \<times> tss_entry" where
  "gdt_write_tss tss_addr num ss0 esp0 gdt =
     (gdt_set_gate num tss_addr SIZEOF_TSS 0xE9 0x00 gdt,
      \<lparr>t_esp0 = esp0, t_ss0 = ucast ss0, t_cs = 0x0B, t_ss = 0x13, t_ds = 0x13, t_es = 0x13, t_fs = 0x13, t_gs = 0x13\<rparr>)"

definition GDT_ACCESS_PRESENT :: u8 where "GDT_ACCESS_PRESENT = 0x80"
definition GDT_ACCESS_RING0 :: u8 where "GDT_ACCESS_RING0 = 0x00"
definition GDT_ACCESS_RING3 :: u8 where "GDT_ACCESS_RING3 = 0x60"
definition GDT_ACCESS_DESCRIPTOR_TYPE :: u8 where "GDT_ACCESS_DESCRIPTOR_TYPE = 0x10"
definition GDT_ACCESS_EXECUTABLE :: u8 where "GDT_ACCESS_EXECUTABLE = 0x08"
definition GDT_ACCESS_RW :: u8 where "GDT_ACCESS_RW = 0x02"
definition GDT_GRAN_4K :: u8 where "GDT_GRAN_4K = 0x80"
definition GDT_GRAN_32BIT :: u8 where "GDT_GRAN_32BIT = 0x40"

definition gdt_init :: "addr \<Rightarrow> gdt_entry list \<Rightarrow> gdt_entry list \<times> tss_entry" where
  "gdt_init tss_addr gdt =
     (let flat = GDT_GRAN_4K OR GDT_GRAN_32BIT;
          seg = GDT_ACCESS_PRESENT OR GDT_ACCESS_DESCRIPTOR_TYPE;
          g = gdt_set_gate 0 0 0 0 0 gdt;
          g = gdt_set_gate 1 0 0xFFFFFFFF (seg OR GDT_ACCESS_RING0 OR GDT_ACCESS_EXECUTABLE OR GDT_ACCESS_RW) flat g;
          g = gdt_set_gate 2 0 0xFFFFFFFF (seg OR GDT_ACCESS_RING0 OR GDT_ACCESS_RW) flat g;
          g = gdt_set_gate 3 0 0xFFFFFFFF (seg OR GDT_ACCESS_RING3 OR GDT_ACCESS_EXECUTABLE OR GDT_ACCESS_RW) flat g;
          g = gdt_set_gate 4 0 0xFFFFFFFF (seg OR GDT_ACCESS_RING3 OR GDT_ACCESS_RW) flat g
      in gdt_write_tss tss_addr 5 0x10 0 g)"

subsection \<open>Gates\<close>

record idt_entry =
  gate_low :: u16
  gate_selector :: u16
  always0 :: u8
  gate_flags :: u8
  gate_high :: u16

definition zero_gate :: idt_entry where
  "zero_gate = \<lparr>gate_low = 0, gate_selector = 0, always0 = 0, gate_flags = 0, gate_high = 0\<rparr>"

definition idt_gate :: "u32 \<Rightarrow> u16 \<Rightarrow> u8 \<Rightarrow> idt_entry" where
  "idt_gate base selector flags =
     \<lparr>gate_low = ucast (base AND 0xFFFF), gate_selector = selector, always0 = 0, gate_flags = flags,
      gate_high = ucast (drop_bit 16 base AND 0xFFFF)\<rparr>"

definition idt_set_gate :: "nat \<Rightarrow> u32 \<Rightarrow> u16 \<Rightarrow> u8 \<Rightarrow> idt_entry list \<Rightarrow> idt_entry list" where
  "idt_set_gate num base selector flags idt = idt[num := idt_gate base selector flags]"

definition IDT_FLAG_PRESENT :: u8 where "IDT_FLAG_PRESENT = 0x80"
definition IDT_FLAG_RING0 :: u8 where "IDT_FLAG_RING0 = 0x00"
definition IDT_FLAG_RING3 :: u8 where "IDT_FLAG_RING3 = 0x60"
definition IDT_FLAG_GATE_32BIT :: u8 where "IDT_FLAG_GATE_32BIT = 0x0E"

type_synonym port_writes = "(u16 \<times> u8) list"

definition io_wait :: port_writes where "io_wait = [(0x80, 0)]"

definition pic_remap :: port_writes where
  "pic_remap = [(0x20, 0x11), (0xA0, 0x11)] @ io_wait @ [(0x21, 0x20), (0xA1, 0x28)] @ io_wait @
     [(0x21, 0x04), (0xA1, 0x02)] @ io_wait @ [(0x21, 0x01), (0xA1, 0x01)] @ io_wait @ [(0x21, 0xFF), (0xA1, 0xFF)]"

text \<open>\<open>stub n\<close> is the address of \<^verbatim>\<open>isr0\<close> to \<^verbatim>\<open>isr31\<close>, \<^verbatim>\<open>irq0\<close> to \<^verbatim>\<open>irq15\<close> and \<^verbatim>\<open>isr128\<close> by vector.\<close>

definition idt_init :: "(nat \<Rightarrow> u32) \<Rightarrow> port_writes \<times> idt_entry list" where
  "idt_init stub =
     (let ring0 = IDT_FLAG_PRESENT OR IDT_FLAG_RING0 OR IDT_FLAG_GATE_32BIT;
          idt = replicate 256 zero_gate;
          idt = fold (\<lambda>n. idt_set_gate n (stub n) 0x08 ring0) [0..<32] idt;
          idt = fold (\<lambda>n. idt_set_gate n (stub n) 0x08 ring0) [32..<48] idt
      in (pic_remap, idt_set_gate 0x80 (stub 0x80) 0x08 (IDT_FLAG_PRESENT OR IDT_FLAG_RING3 OR IDT_FLAG_GATE_32BIT) idt))"

subsection \<open>Handlers\<close>

record irq_state =
  ips :: proc_state
  icon :: console
  handlers :: "nat list"
  ports :: port_writes

datatype irq_result = Resume addr irq_state | Panicked string | Stuck

definition exception_messages :: "string list" where
  "exception_messages =
     [''Division By Zero'', ''Debug'', ''Non Maskable Interrupt'', ''Breakpoint'', ''Overflow'', ''Bound Range Exceeded'',
      ''Invalid Opcode'', ''Device Not Available'', ''Double Fault'', ''Coprocessor Segment Overrun'', ''Invalid TSS'',
      ''Segment Not Present'', ''Stack-Segment Fault'', ''General Protection Fault'', ''Page Fault'', ''Reserved'',
      ''x87 Floating-Point Exception'', ''Alignment Check'', ''Machine Check'', ''SIMD Floating-Point Exception'',
      ''Virtualization Exception'', ''Reserved'', ''Reserved'', ''Reserved'', ''Reserved'', ''Reserved'', ''Reserved'',
      ''Reserved'', ''Reserved'', ''Reserved'', ''Security Exception'', ''Reserved'']"

definition register_interrupt_handler :: "u8 \<Rightarrow> nat \<Rightarrow> irq_state \<Rightarrow> irq_state" where
  "register_interrupt_handler n h s = s\<lparr>handlers := (handlers s)[unat n := h]\<rparr>"

definition reschedule :: "addr \<Rightarrow> irq_state \<Rightarrow> irq_result" where
  "reschedule regs s =
     (case scheduler_schedule regs (ips s) of None \<Rightarrow> Stuck | Some (r, p) \<Rightarrow> Resume r (s\<lparr>ips := p\<rparr>))"

text \<open>Console output, dropped if the format is not defined.\<close>

definition print :: "string \<Rightarrow> fmt_arg list \<Rightarrow> irq_state \<Rightarrow> irq_state" where
  "print fmt args s = s\<lparr>icon := (case kprintf fmt args (icon s) of None \<Rightarrow> icon s | Some c \<Rightarrow> c)\<rparr>"

definition newline :: string where "newline = [char_of (10 :: nat)]"

definition isr_handler :: "(nat \<Rightarrow> addr \<Rightarrow> irq_state \<Rightarrow> irq_result) \<Rightarrow> addr \<Rightarrow> irq_state \<Rightarrow> irq_result" where
  "isr_handler run regs s =
     (let f = frames (ips s) regs;
          n = unat (int_no f);
          h = (if n < 256 then handlers s ! n else 0)
      in if 256 \<le> n then Stuck
         else if h \<noteq> 0 then
           (case run h regs s of Resume _ s1 \<Rightarrow> reschedule regs s1 | r \<Rightarrow> r)
         else if 32 \<le> n then Stuck
         else
           let s1 = s\<lparr>icon := terminal_setcolor (vga_entry_color 15 4) (icon s)\<rparr>;
               s2 = print (newline @ ''!!! EXCEPTION: %s !!!'' @ newline) [ArgStr (Some (exception_messages ! n))] s1;
               s3 = print (''INT: %d, ERR: 0x%x'' @ newline) [Arg32 (int_no f), Arg32 (err_code f)] s2;
               s4 = print (''EIP: 0x%x, CS: 0x%x, EFLAGS: 0x%x'' @ newline) [Arg32 (eip f), Arg32 (cs f), Arg32 (eflags f)] s3;
               t = scheduler_get_current_thread (ips s4);
               proc = (if t \<noteq> 0 then tprocess (tstore (ips s4) t) else 0)
           in if proc \<noteq> 0 \<and> pid (pstore (ips s4) proc) > 0
              then let s5 = print (newline @ ''User Thread %d (Process %d) caused Exception %d! Terminating.'' @ newline)
                              [Arg32 (tid (tstore (ips s4) t)), Arg32 (pid (pstore (ips s4) proc)), Arg32 (int_no f)] s4
                   in reschedule regs (s5\<lparr>ips := upd_thread t (\<lambda>x. x\<lparr>tstate := THREAD_STATE_TERMINATED\<rparr>) (ips s5)\<rparr>)
              else Panicked (exception_messages ! n))"

definition PIC_EOI :: u8 where "PIC_EOI = 0x20"

definition out8 :: "u16 \<Rightarrow> u8 \<Rightarrow> irq_state \<Rightarrow> irq_state" where
  "out8 port v s = s\<lparr>ports := ports s @ [(port, v)]\<rparr>"

text \<open>\<open>inb ws p\<close> is the byte port \<open>p\<close> answers after the writes \<open>ws\<close>.\<close>

definition irq_handler ::
  "(nat \<Rightarrow> addr \<Rightarrow> irq_state \<Rightarrow> irq_result) \<Rightarrow> (port_writes \<Rightarrow> u16 \<Rightarrow> u8) \<Rightarrow> addr \<Rightarrow> irq_state \<Rightarrow> irq_result" where
  "irq_handler run inb regs s =
     (let n = unat (int_no (frames (ips s) regs));
          s1 = (if n = 39 then out8 0x20 0x0B s else s);
          s2 = (if n = 47 then out8 0xA0 0x0B s1 else s1)
      in if n = 39 \<and> inb (ports s1) 0x20 AND 0x80 = 0 then reschedule regs s1
         else if n = 47 \<and> inb (ports s2) 0xA0 AND 0x80 = 0 then reschedule regs (out8 0x20 PIC_EOI s2)
         else
           let s3 = (if 40 \<le> n then out8 0xA0 PIC_EOI s2 else s2);
               s4 = out8 0x20 PIC_EOI s3;
               h = (if n < 256 then handlers s4 ! n else 0)
           in if 256 \<le> n then Stuck
              else if h \<noteq> 0 then (case run h regs s4 of Resume _ s5 \<Rightarrow> reschedule regs s5 | r \<Rightarrow> r)
              else reschedule regs s4)"

subsection \<open>Descriptors\<close>

text \<open>What the processor reads from a descriptor.\<close>

definition seg_base :: "gdt_entry \<Rightarrow> u32" where
  "seg_base g = ucast (base_low g) OR push_bit 16 (ucast (base_middle g)) OR push_bit 24 (ucast (base_high g))"

definition seg_limit :: "gdt_entry \<Rightarrow> u32" where
  "seg_limit g = ucast (limit_low g) OR push_bit 16 (ucast (granularity g AND 0x0F))"

definition gate_base :: "idt_entry \<Rightarrow> u32" where
  "gate_base g = ucast (gate_low g) OR push_bit 16 (ucast (gate_high g))"

lemma and_masks:
  "(x :: u32) AND 0xFFFF = take_bit 16 x" "(x :: u32) AND 0xFF = take_bit 8 x" "(x :: u32) AND 0x0F = take_bit 4 x"
  "(y :: u8) AND 0x0F = take_bit 4 y" "(y :: u8) AND 0xF0 = y AND push_bit 4 (mask 4)"
  by (simp_all add: take_bit_eq_mask mask_eq_exp_minus_1)

lemma seg_base_gate: "seg_base (gdt_gate base limit acc gran) = base"
proof (rule bit_word_eqI)
  fix n assume "n < LENGTH(32)"
  then consider "n < 16" | "16 \<le> n" "n < 24" | "24 \<le> n" "n < 32" by fastforce
  then show "bit (seg_base (gdt_gate base limit acc gran)) n = bit base n"
    by cases (auto simp: seg_base_def gdt_gate_def and_masks bit_simps)
qed

lemma seg_limit_gate: "seg_limit (gdt_gate base limit acc gran) = take_bit 20 limit"
proof (rule bit_word_eqI)
  fix n assume "n < LENGTH(32)"
  then consider "n < 16" | "16 \<le> n" "n < 20" | "20 \<le> n" "n < 32" by fastforce
  then show "bit (seg_limit (gdt_gate base limit acc gran)) n = bit (take_bit 20 limit) n"
    by cases (auto simp: seg_limit_def gdt_gate_def and_masks bit_simps)
qed

lemma gate_base_idt_gate: "gate_base (idt_gate b sel f) = b"
proof (rule bit_word_eqI)
  fix n assume "n < LENGTH(32)"
  then consider "n < 16" | "16 \<le> n" "n < 32" by fastforce
  then show "bit (gate_base (idt_gate b sel f)) n = bit b n"
    by cases (auto simp: gate_base_def idt_gate_def and_masks bit_simps)
qed

lemma fold_list_update:
  "length (fold (\<lambda>n xs. xs[n := g n]) ns xs) = length xs"
  "v < length xs \<Longrightarrow> fold (\<lambda>n xs. xs[n := g n]) ns xs ! v = (if v \<in> set ns then g v else xs ! v)"
  by (induction ns arbitrary: xs) (auto simp: nth_list_update)

text \<open>
  After \<^verbatim>\<open>idt_init\<close> every exception and hardware interrupt vector, 0 to 47, is a present 32-bit
  interrupt gate of the kernel to its stub; vector 128 is one that user code may call; every other
  vector is absent. So \<^verbatim>\<open>int 0x80\<close> is the only way into the kernel by a software interrupt.
\<close>

theorem idt_init_gates:
  "let idt = snd (idt_init stub) in length idt = 256 \<and>
     (\<forall>v < 256. (v < 48 \<or> v = 128 \<longrightarrow> gate_base (idt ! v) = stub v \<and> gate_selector (idt ! v) = 0x08 \<and>
                    gate_flags (idt ! v) = (if v = 128 then 0xEE else 0x8E)) \<and>
                (48 \<le> v \<and> v \<noteq> 128 \<longrightarrow> idt ! v = zero_gate))"
proof -
  define r0 where "r0 = IDT_FLAG_PRESENT OR IDT_FLAG_RING0 OR IDT_FLAG_GATE_32BIT"
  have r: "r0 = 0x8E" "IDT_FLAG_PRESENT OR IDT_FLAG_RING3 OR IDT_FLAG_GATE_32BIT = 0xEE"
    by (simp_all add: r0_def IDT_FLAG_PRESENT_def IDT_FLAG_RING0_def IDT_FLAG_RING3_def IDT_FLAG_GATE_32BIT_def)
  define g where "g = (\<lambda>v. idt_gate (stub v) 0x08 r0)"
  define t2 where "t2 = fold (\<lambda>n xs. xs[n := g n]) [32..<48] (fold (\<lambda>n xs. xs[n := g n]) [0..<32] (replicate 256 zero_gate))"
  have e: "snd (idt_init stub) = t2[128 := idt_gate (stub 128) 0x08 0xEE]"
    by (simp add: idt_init_def Let_def t2_def g_def r0_def [symmetric] r(2) idt_set_gate_def [abs_def] del: upt_rec_numeral)
  have l: "length t2 = 256" by (simp add: t2_def fold_list_update)
  have t: "t2 ! v = (if v < 48 then g v else zero_gate)" if "v < 256" for v
    using that by (auto simp: t2_def fold_list_update simp del: upt_rec_numeral)
  have g: "gate_base (g v) = stub v" "gate_selector (g v) = 8" "gate_flags (g v) = 0x8E" for v
    by (simp_all add: g_def gate_base_idt_gate) (simp_all add: idt_gate_def r(1))
  have h: "gate_base (idt_gate b 8 0xEE) = b" "gate_selector (idt_gate b 8 0xEE) = 8" "gate_flags (idt_gate b 8 0xEE) = 0xEE" for b
    by (simp_all add: gate_base_idt_gate) (simp_all add: idt_gate_def)
  show ?thesis unfolding Let_def e using l t g h by (simp add: nth_list_update)
qed

theorem idt_init_gates_witness:
  "gate_flags (snd (idt_init (\<lambda>_. 0xC0100000)) ! 128) = 0xEE \<and> snd (idt_init (\<lambda>_. 0xC0100000)) ! 48 = zero_gate"
proof -
  have "(128 :: nat) < 256" "(48 :: nat) < 256" by simp_all
  then show ?thesis using idt_init_gates [of "\<lambda>_. 0xC0100000"] unfolding Let_def by fastforce
qed

text \<open>
  The segments the kernel runs on: selectors \<open>0x08\<close>, \<open>0x10\<close>, \<open>0x1B\<close> and \<open>0x23\<close>, which the process
  code stores in new register frames, select flat 4 GB segments of privilege 0 and 3, and the last
  descriptor is the TSS with the kernel's data segment as its stack segment.
\<close>

lemma gdt_init_segments:
  assumes "length gdt = 6"
  shows "let (g, tss) = gdt_init a gdt in
    (\<forall>i \<in> {1, 2, 3, 4}. seg_base (g ! i) = 0 \<and> seg_limit (g ! i) = 0xFFFFF \<and> access (g ! i) AND 0x60 = (if i < 3 then 0 else 0x60)) \<and>
    seg_base (g ! 5) = a \<and> t_ss0 tss = 0x10"
  using assms unfolding gdt_init_def gdt_write_tss_def gdt_set_gate_def Let_def
  by (simp add: seg_base_gate seg_limit_gate nth_list_update)
    (simp add: gdt_gate_def GDT_ACCESS_PRESENT_def GDT_ACCESS_RING0_def GDT_ACCESS_RING3_def GDT_ACCESS_DESCRIPTOR_TYPE_def
      GDT_ACCESS_EXECUTABLE_def GDT_ACCESS_RW_def)

subsection \<open>Interrupt acknowledgement\<close>

text \<open>
  The two interrupt controllers, after the data sheet of the 8259A: in fully nested mode a
  controller interrupts only for a line of higher priority, that is of a lower number, than every
  line in service; delivering the interrupt puts the line in service; the command \<open>0x20\<close>, a
  non-specific end of interrupt, takes the line of the highest priority out of service; and after
  \<open>0x0B\<close> the command port reads the lines in service, one bit each, and after \<open>0x0A\<close> the requests.
  The slave interrupts through line 2 of the master. A request that is gone when the processor asks
  for its number is delivered as line 7 of that controller, without putting line 7 in service.
\<close>

record pic =
  in_service :: "nat set"
  requests :: "nat set"
  isr_selected :: bool

record pics =
  master :: pic
  slave :: pic

definition pic_command :: "u8 \<Rightarrow> pic \<Rightarrow> pic" where
  "pic_command v c =
     (if v = 0x20 then c\<lparr>in_service := in_service c - {Min (in_service c)}\<rparr>
      else if v = 0x0B then c\<lparr>isr_selected := True\<rparr>
      else if v = 0x0A then c\<lparr>isr_selected := False\<rparr>
      else c)"

definition pics_out :: "u16 \<times> u8 \<Rightarrow> pics \<Rightarrow> pics" where
  "pics_out w c =
     (if fst w = 0x20 then c\<lparr>master := pic_command (snd w) (master c)\<rparr>
      else if fst w = 0xA0 then c\<lparr>slave := pic_command (snd w) (slave c)\<rparr>
      else c)"

definition pic_answer :: "pic \<Rightarrow> u8" where
  "pic_answer c = horner_sum of_bool 2 (map (\<lambda>i. i \<in> (if isr_selected c then in_service c else requests c)) [0..<8])"

definition pics_in :: "u16 \<Rightarrow> pics \<Rightarrow> u8" where
  "pics_in p c = pic_answer (if p = 0x20 then master c else slave c)"

datatype irq_source = Line nat | Spurious_Master | Spurious_Slave

definition accepts :: "nat \<Rightarrow> pic \<Rightarrow> bool" where "accepts i c \<longleftrightarrow> (\<forall>j \<in> in_service c. i < j)"

definition serve :: "nat \<Rightarrow> pic \<Rightarrow> pic" where "serve i c = c\<lparr>in_service := insert i (in_service c)\<rparr>"

text \<open>An interrupt reaches the processor: its vector and the controllers afterwards.\<close>

fun deliver :: "irq_source \<Rightarrow> pics \<Rightarrow> (nat \<times> pics) option" where
  "deliver (Line i) c =
     (if i < 8 \<and> i \<noteq> 2 \<and> accepts i (master c) then Some (32 + i, c\<lparr>master := serve i (master c)\<rparr>)
      else if 8 \<le> i \<and> i < 16 \<and> accepts 2 (master c) \<and> accepts (i - 8) (slave c)
      then Some (32 + i, \<lparr>master = serve 2 (master c), slave = serve (i - 8) (slave c)\<rparr>)
      else None)"
| "deliver Spurious_Master c = (if 7 \<in> in_service (master c) then None else Some (39, c))"
| "deliver Spurious_Slave c =
     (if accepts 2 (master c) \<and> 7 \<notin> in_service (slave c) then Some (47, c\<lparr>master := serve 2 (master c)\<rparr>) else None)"

definition lines_served :: "pics \<Rightarrow> nat set \<times> nat set" where
  "lines_served c = (in_service (master c), in_service (slave c))"

lemma bit_pic_answer: "isr_selected c \<Longrightarrow> bit (pic_answer c) 7 \<longleftrightarrow> 7 \<in> in_service c"
  by (simp add: pic_answer_def bit_horner_sum_bit_word_iff)

text \<open>The end of interrupt takes out the line that was delivered last.\<close>

lemma eoi_serve:
  assumes "accepts i c" "finite (in_service c)"
  shows "in_service (pic_command 0x20 (serve i c)) = in_service c"
proof -
  have "Min (insert i (in_service c)) = i" using assms by (intro Min_eqI) (auto simp: accepts_def less_imp_le)
  moreover have "i \<notin> in_service c" using assms(1) by (auto simp: accepts_def)
  ultimately show ?thesis by (simp add: pic_command_def serve_def)
qed

lemma and_80: "(x :: u8) AND 0x80 = 0 \<longleftrightarrow> \<not> bit x 7"
proof
  assume "x AND 0x80 = 0"
  then have "\<not> bit (x AND 0x80) 7" by simp
  then show "\<not> bit x 7" by (simp add: bit_and_iff)
next
  assume *: "\<not> bit x 7"
  have "bit (0x80 :: u8) k \<longleftrightarrow> k = 7" if "k < 8" for k
    using that by (auto simp: eval_nat_numeral less_Suc_eq)
  then show "x AND 0x80 = 0" using * by (intro bit_word_eqI) (auto simp: bit_and_iff)
qed

text \<open>What happens once the commands are written: the registered handler, if any, and the scheduler.\<close>

definition after_acks :: "(nat \<Rightarrow> addr \<Rightarrow> irq_state \<Rightarrow> irq_result) \<Rightarrow> nat \<Rightarrow> addr \<Rightarrow> bool \<Rightarrow> irq_state \<Rightarrow> irq_result" where
  "after_acks run h regs spurious s =
     (if spurious \<or> h = 0 then reschedule regs s
      else case run h regs s of Resume _ s2 \<Rightarrow> reschedule regs s2 | r \<Rightarrow> r)"

lemma irq_handler_line:
  assumes "unat (int_no (frames (ips s) regs)) = n" "n < 256"
    "n = 39 \<Longrightarrow> bit (inb (ports s @ [(0x20, 0x0B)]) 0x20) 7" "n = 47 \<Longrightarrow> bit (inb (ports s @ [(0xA0, 0x0B)]) 0xA0) 7"
  shows "irq_handler run inb regs s = after_acks run (handlers s ! n) regs False
    (s\<lparr>ports := ports s @ (if n = 39 then [(0x20, 0x0B)] else []) @ (if n = 47 then [(0xA0, 0x0B)] else []) @
       (if 40 \<le> n then [(0xA0, 0x20)] else []) @ [(0x20, 0x20)]\<rparr>)"
  using assms(2-4) unfolding irq_handler_def Let_def assms(1) and_80 out8_def PIC_EOI_def after_acks_def
  by (auto split: irq_result.splits)

lemma irq_handler_spurious:
  assumes "unat (int_no (frames (ips s) regs)) = n"
  shows "n = 39 \<Longrightarrow> \<not> bit (inb (ports s @ [(0x20, 0x0B)]) 0x20) 7 \<Longrightarrow>
      irq_handler run inb regs s = after_acks run h regs True (s\<lparr>ports := ports s @ [(0x20, 0x0B)]\<rparr>)"
    "n = 47 \<Longrightarrow> \<not> bit (inb (ports s @ [(0xA0, 0x0B)]) 0xA0) 7 \<Longrightarrow>
      irq_handler run inb regs s = after_acks run h regs True (s\<lparr>ports := ports s @ [(0xA0, 0x0B), (0x20, 0x20)]\<rparr>)"
  unfolding irq_handler_def Let_def assms and_80 out8_def PIC_EOI_def after_acks_def by auto

lemmas pic_simps = lines_served_def pics_out_def pics_in_def bit_pic_answer

lemma select_isr [simp]:
  "isr_selected (pic_command 0x0B c)" "in_service (pic_command 0x0B c) = in_service c"
  "pic_command 0x0B (serve i c) = serve i (pic_command 0x0B c)" "accepts i (pic_command 0x0B c) = accepts i c"
  by (simp_all add: pic_command_def serve_def accepts_def)

lemma in_service_serve [simp]: "in_service (serve i c) = insert i (in_service c)" "isr_selected (serve i c) = isr_selected c"
  by (simp_all add: serve_def)

text \<open>
  C27. Every hardware interrupt is acknowledged as the two controllers need it: whatever lines are in
  service when it is delivered, the commands the handler writes leave exactly these lines in
  service again, so no line stays blocked and no acknowledgement is given for another interrupt,
  also when the interrupt is a spurious one of the master or of the slave. All commands are written
  before the registered handler runs; that is called once with the interrupted frame, not at all
  for a spurious interrupt; and the scheduler runs afterwards. A spurious interrupt is told apart
  from a real one when line 7 of its controller is not in service already.
\<close>

theorem irq_handler_acknowledges:
  assumes "deliver src c = Some (n, c1)" "finite (in_service (master c))" "finite (in_service (slave c))"
    "unat (int_no (frames (ips s) regs)) = n"
    "\<And>ws p. inb (ports s @ ws) p = pics_in p (fold pics_out ws c1)"
  shows "\<exists>ws. lines_served (fold pics_out ws c1) = lines_served c \<and>
    irq_handler run inb regs s =
      after_acks run (handlers s ! n) regs (src \<in> {Spurious_Master, Spurious_Slave}) (s\<lparr>ports := ports s @ ws\<rparr>)"
proof (cases src)
  case (Line i)
  let ?ws = "(if n = 39 then [(0x20, 0x0B)] else []) @ (if n = 47 then [(0xA0, 0x0B)] else []) @
    (if 40 \<le> n then [(0xA0, 0x20)] else []) @ [(0x20, 0x20 :: u8)]"
  have n: "n = 32 + i" "i < 16" using assms(1) Line by (auto split: if_splits)
  have m: "bit (inb (ports s @ [(0x20, 0x0B)]) 0x20) 7" if "n = 39"
    using assms(1) Line n that unfolding assms(5) by (auto simp: pic_simps split: if_splits)
  have v: "bit (inb (ports s @ [(0xA0, 0x0B)]) 0xA0) 7" if "n = 47"
    using assms(1) Line n that unfolding assms(5) by (auto simp: pic_simps split: if_splits)
  have "lines_served (fold pics_out ?ws c1) = lines_served c"
    using assms(1-3) Line n by (auto simp: pic_simps eoi_serve split: if_splits)
  then show ?thesis using irq_handler_line [where s = s and regs = regs and n = n and inb = inb and run = run, OF assms(4) _ m v] n(2) Line by (intro exI [of _ ?ws]) (simp add: n(1))
next
  case Spurious_Master
  then have "n = 39" "c1 = c" "\<not> bit (inb (ports s @ [(0x20, 0x0B)]) 0x20) 7"
    using assms(1) unfolding assms(5) by (auto simp: pic_simps split: if_splits)
  then show ?thesis using irq_handler_spurious(1) [OF assms(4), of inb run] Spurious_Master
    by (intro exI [of _ "[(0x20, 0x0B)]"]) (auto simp: pic_simps)
next
  case Spurious_Slave
  then have c: "n = 47" "c1 = c\<lparr>master := serve 2 (master c)\<rparr>" "accepts 2 (master c)" "\<not> bit (inb (ports s @ [(0xA0, 0x0B)]) 0xA0) 7"
    using assms(1) unfolding assms(5) by (auto simp: pic_simps split: if_splits)
  then show ?thesis using irq_handler_spurious(2) [OF assms(4), of inb run] Spurious_Slave eoi_serve [OF c(3) assms(2)]
    by (intro exI [of _ "[(0xA0, 0x0B), (0x20, 0x20)]"]) (auto simp: pic_simps)
qed

definition example_irq :: "u32 \<Rightarrow> irq_state" where
  "example_irq n = \<lparr>ips = proc_example\<lparr>frames := (\<lambda>_. zero_registers\<lparr>int_no := n\<rparr>)\<rparr>, icon = console_example,
     handlers = (replicate 256 0)[44 := 7], ports = []\<rparr>"

definition example_pics :: pics where
  "example_pics = \<lparr>master = \<lparr>in_service = {6}, requests = {}, isr_selected = False\<rparr>,
     slave = \<lparr>in_service = {7}, requests = {}, isr_selected = False\<rparr>\<rparr>"

text \<open>The mouse on line 12 while the floppy, line 6, and the second disk, line 15, are in service.\<close>

theorem irq_handler_acknowledges_witness:
  "\<exists>ws. in_service (master (fold pics_out ws (example_pics\<lparr>master := serve 2 (master example_pics), slave := serve 4 (slave example_pics)\<rparr>))) = {6} \<and>
    irq_handler (\<lambda>h r s. Resume r (s\<lparr>handlers := [h]\<rparr>))
      (\<lambda>ws p. pics_in p (fold pics_out ws (example_pics\<lparr>master := serve 2 (master example_pics), slave := serve 4 (slave example_pics)\<rparr>)))
      0x10 (example_irq 44) = reschedule 0x10 ((example_irq 44)\<lparr>ports := ws, handlers := [7]\<rparr>)"
proof -
  let ?c1 = "example_pics\<lparr>master := serve 2 (master example_pics), slave := serve 4 (slave example_pics)\<rparr>"
  have "deliver (Line 12) example_pics = Some (44, ?c1)" "finite (in_service (master example_pics))" "finite (in_service (slave example_pics))"
    "unat (int_no (frames (ips (example_irq 44)) 0x10)) = 44"
    by (simp_all add: example_pics_def example_irq_def accepts_def zero_registers_def)
  from irq_handler_acknowledges [OF this, of "\<lambda>ws p. pics_in p (fold pics_out ws ?c1)" "\<lambda>h r s. Resume r (s\<lparr>handlers := [h]\<rparr>)"]
  show ?thesis by (simp add: example_irq_def after_acks_def lines_served_def) (auto simp: example_pics_def)
qed

end
