(* ===== verification/Khazar_Timer.thy ===== *)
theory Khazar_Timer
  imports Khazar_Interrupts
begin

text \<open>
  Reading and writing I/O ports, the programmable interval timer \<^verbatim>\<open>kernel/drivers/char/pit.c\<close> and
  the real-time clock \<^verbatim>\<open>kernel/drivers/char/rtc.c\<close>. What a device answers is the argument
  \<open>dev\<close>: a function of the number of bytes read so far, the bytes written so far and the port.
  Interrupt handlers are registered by the number that names them in \<open>Khazar_Interrupts\<close>.
\<close>

section \<open>Ports\<close>

record port_state =
  irq :: irq_state
  nreads :: nat

type_synonym device = "nat \<Rightarrow> port_writes \<Rightarrow> u16 \<Rightarrow> u8"

definition outb :: "u16 \<Rightarrow> u8 \<Rightarrow> port_state \<Rightarrow> port_state" where
  "outb port v s = s\<lparr>irq := out8 port v (irq s)\<rparr>"

definition inb :: "device \<Rightarrow> u16 \<Rightarrow> port_state \<Rightarrow> u8 \<times> port_state" where
  "inb dev port s = (dev (nreads s) (ports (irq s)) port, s\<lparr>nreads := nreads s + 1\<rparr>)"

definition register_handler :: "u8 \<Rightarrow> nat \<Rightarrow> port_state \<Rightarrow> port_state" where
  "register_handler n h s = s\<lparr>irq := register_interrupt_handler n h (irq s)\<rparr>"

text \<open>Opening one line of an interrupt controller, as each driver does for its own.\<close>

definition pic_unmask :: "device \<Rightarrow> u16 \<Rightarrow> nat \<Rightarrow> port_state \<Rightarrow> port_state" where
  "pic_unmask dev port line s =
     (let (m, s1) = inb dev port s in outb port (m AND NOT (push_bit line 1)) s1)"

section \<open>The interval timer\<close>

record pit_state =
  pit_ticks :: u64
  pit_uptime_ms :: u64
  pit_freq :: u32
  pit_ms_base :: u32
  pit_ms_rem :: u32
  pit_ms_rem_acc :: u32

definition PIT_BASE_HZ :: u32 where "PIT_BASE_HZ = 1193182"
definition PIT_COMMAND :: u16 where "PIT_COMMAND = 0x43"
definition PIT_CHANNEL0 :: u16 where "PIT_CHANNEL0 = 0x40"
definition PIC1_DATA :: u16 where "PIC1_DATA = 0x21"

definition pit_irq0_handler :: "pit_state \<Rightarrow> pit_state" where
  "pit_irq0_handler p =
     (let p1 = p\<lparr>pit_ticks := pit_ticks p + 1, pit_uptime_ms := pit_uptime_ms p + ucast (pit_ms_base p),
                 pit_ms_rem_acc := pit_ms_rem_acc p + pit_ms_rem p\<rparr>
      in if pit_ms_rem_acc p1 \<ge> pit_freq p1
         then p1\<lparr>pit_uptime_ms := pit_uptime_ms p1 + 1, pit_ms_rem_acc := pit_ms_rem_acc p1 - pit_freq p1\<rparr>
         else p1)"

definition pit_divisor :: "u32 \<Rightarrow> u32" where
  "pit_divisor freq_hz =
     (let d = PIT_BASE_HZ div freq_hz;
          d = (if d = 0 then 1 else d)
      in if d > 0xFFFF then 0xFFFF else d)"

text \<open>\<open>handler\<close> names \<^verbatim>\<open>pit_irq0_handler\<close>.\<close>

definition pit_init :: "device \<Rightarrow> nat \<Rightarrow> u32 \<Rightarrow> pit_state \<Rightarrow> port_state \<Rightarrow> pit_state \<times> port_state" where
  "pit_init dev handler freq p s =
     (let freq_hz = (if freq = 0 then 60 else freq);
          p1 = p\<lparr>pit_freq := freq_hz, pit_ms_base := 1000 div freq_hz, pit_ms_rem := 1000 mod freq_hz,
                 pit_ms_rem_acc := 0\<rparr>;
          divisor = pit_divisor freq_hz;
          s1 = outb PIT_COMMAND 0x36 s;
          s2 = outb PIT_CHANNEL0 (ucast (divisor AND 0xFF)) s1;
          s3 = outb PIT_CHANNEL0 (ucast (drop_bit 8 divisor AND 0xFF)) s2;
          s4 = register_handler 32 handler s3
      in (p1, pic_unmask dev PIC1_DATA 0 s4))"

definition pit_get_ticks :: "pit_state \<Rightarrow> u64" where "pit_get_ticks p = pit_ticks p"
definition pit_get_uptime_ms :: "pit_state \<Rightarrow> u64" where "pit_get_uptime_ms p = pit_uptime_ms p"

definition sleep_ticks :: "u32 \<Rightarrow> u32 \<Rightarrow> u64" where
  "sleep_ticks freq ms =
     (let seconds = ms div 1000;
          rem_ms = ms mod 1000;
          t1 = seconds * freq;
          t2 = (rem_ms * freq + 999) div 1000;
          target = ucast t1 + ucast t2
      in if target = 0 then 1 else target)"

text \<open>The waiting loop; \<open>hlt\<close> is what happens until the processor leaves the halt instruction.\<close>

partial_function (option) sleep_loop :: "(pit_state \<Rightarrow> pit_state) \<Rightarrow> u64 \<Rightarrow> pit_state \<Rightarrow> pit_state option" where
  "sleep_loop hlt until p = (if pit_ticks p < until then sleep_loop hlt until (hlt p) else Some p)"

definition pit_sleep_ms :: "(pit_state \<Rightarrow> pit_state) \<Rightarrow> u32 \<Rightarrow> pit_state \<Rightarrow> pit_state option" where
  "pit_sleep_ms hlt ms p =
     (if pit_freq p = 0 \<or> ms = 0 then Some p
      else sleep_loop hlt (pit_ticks p + sleep_ticks (pit_freq p) ms) p)"

section \<open>The clock\<close>

record rtc_time =
  second :: u8
  minute :: u8
  hour :: u8
  day :: u8
  month :: u8
  year :: u16
  weekday :: u8

definition CMOS_ADDR :: u16 where "CMOS_ADDR = 0x70"
definition CMOS_DATA :: u16 where "CMOS_DATA = 0x71"
definition RTC_SECOND :: u8 where "RTC_SECOND = 0x00"
definition RTC_MINUTE :: u8 where "RTC_MINUTE = 0x02"
definition RTC_HOUR :: u8 where "RTC_HOUR = 0x04"
definition RTC_DAY :: u8 where "RTC_DAY = 0x07"
definition RTC_MONTH :: u8 where "RTC_MONTH = 0x08"
definition RTC_YEAR :: u8 where "RTC_YEAR = 0x09"
definition RTC_STATUS_B :: u8 where "RTC_STATUS_B = 0x0B"

definition rtc_bcd_to_bin :: "u8 \<Rightarrow> u8" where
  "rtc_bcd_to_bin bcd = drop_bit 4 bcd * 10 + (bcd AND 0x0F)"

definition rtc_read_reg :: "device \<Rightarrow> u8 \<Rightarrow> port_state \<Rightarrow> u8 \<times> port_state" where
  "rtc_read_reg dev reg s = inb dev CMOS_DATA (outb CMOS_ADDR (0x80 OR reg) s)"

text \<open>The conversions after the registers are read.\<close>

definition rtc_from_bcd :: "rtc_time \<Rightarrow> rtc_time" where
  "rtc_from_bcd t = t\<lparr>second := rtc_bcd_to_bin (second t), minute := rtc_bcd_to_bin (minute t),
     hour := rtc_bcd_to_bin (hour t), day := rtc_bcd_to_bin (day t), month := rtc_bcd_to_bin (month t),
     year := ucast (rtc_bcd_to_bin (ucast (year t)))\<rparr>"

definition rtc_convert :: "u8 \<Rightarrow> rtc_time \<Rightarrow> rtc_time" where
  "rtc_convert status_b t =
     (let t1 = (if status_b AND 0x04 = 0 then rtc_from_bcd t else t);
          t2 = (if status_b AND 0x02 = 0 \<and> hour t1 AND 0x80 \<noteq> 0
                then t1\<lparr>hour := ((hour t1 AND 0x7F) + 12) mod 24\<rparr> else t1);
          t3 = t2\<lparr>hour := hour t2 AND 0x7F\<rparr>
      in if year t3 < 100 then t3\<lparr>year := year t3 + 2000\<rparr> else t3)"

text \<open>The caller's structure is replaced as a whole; a null pointer is ignored.\<close>

definition rtc_read :: "device \<Rightarrow> rtc_time option \<Rightarrow> port_state \<Rightarrow> rtc_time option \<times> port_state" where
  "rtc_read dev out s =
     (if out = None then (None, s) else
      let (status_b, s) = rtc_read_reg dev RTC_STATUS_B s;
          (sec, s) = rtc_read_reg dev RTC_SECOND s;
          (min, s) = rtc_read_reg dev RTC_MINUTE s;
          (hr, s) = rtc_read_reg dev RTC_HOUR s;
          (d, s) = rtc_read_reg dev RTC_DAY s;
          (mon, s) = rtc_read_reg dev RTC_MONTH s;
          (yr, s) = rtc_read_reg dev RTC_YEAR s;
          (wd, s) = rtc_read_reg dev 0x06 s
      in (Some (rtc_convert status_b \<lparr>second = sec, minute = min, hour = hr, day = d, month = mon,
            year = ucast yr, weekday = wd\<rparr>), s))"

section \<open>Uptime\<close>

lemma u64_of_u32: "ucast (of_nat n :: u32) = (of_nat n :: u64)" if "n < 2 ^ 32"
  using that by (simp add: word_unat_eq_iff unsigned_ucast_eq take_bit_nat_eq_self unat_of_nat_less)

lemma pit_ticks_count:
  assumes "0 < f" "f \<le> 2 ^ 31" "p0 = p\<lparr>pit_freq := of_nat f, pit_ms_base := of_nat (1000 div f),
    pit_ms_rem := of_nat (1000 mod f), pit_ms_rem_acc := 0\<rparr>"
  shows "(pit_irq0_handler ^^ k) p0 = p0\<lparr>pit_ticks := pit_ticks p + of_nat k,
    pit_uptime_ms := pit_uptime_ms p + of_nat (1000 * k div f), pit_ms_rem_acc := of_nat (1000 * k mod f)\<rparr>"
proof (induction k)
  case 0
  then show ?case by (simp add: assms(3))
next
  case (Suc k)
  let ?a = "1000 * k mod f" and ?r = "1000 mod f"
  have b: "?a < f" "?r < f" using assms(1) by simp_all
  have two: "x div f = (if f \<le> x then 1 else 0)" "x mod f = (if f \<le> x then x - f else x)" if "x < 2 * f" for x
    using that by (auto simp: div_if mod_if)
  have step: "1000 * Suc k = 1000 * k + 1000" by simp
  have lt: "?a + ?r < 2 * f" using b by linarith
  have d: "1000 * Suc k div f = 1000 * k div f + 1000 div f + (if f \<le> ?a + ?r then 1 else 0)"
    using two(1) [OF lt] unfolding step div_add1_eq [of "1000 * k" 1000] by simp
  have m: "1000 * Suc k mod f = (if f \<le> ?a + ?r then ?a + ?r - f else ?a + ?r)"
    using two(2) [OF lt] unfolding step mod_add_eq [of "1000 * k" f 1000, symmetric] by simp
  have acc: "(of_nat ?a + of_nat ?r :: u32) \<ge> of_nat f \<longleftrightarrow> f \<le> ?a + ?r"
  proof -
    have "(of_nat ?a + of_nat ?r :: u32) = of_nat (?a + ?r)" by (simp only: of_nat_add)
    moreover have "?a + ?r < 2 ^ LENGTH(32)" "f < 2 ^ LENGTH(32)" using lt assms(2) by simp_all
    ultimately show ?thesis by (simp only: word_le_nat_alt unat_of_nat_less)
  qed
  have base: "(ucast (of_nat (1000 div f) :: u32) :: u64) = of_nat (1000 div f)"
    by (intro u64_of_u32 le_less_trans [OF div_le_dividend]) simp
  have "(pit_irq0_handler ^^ Suc k) p0 = pit_irq0_handler (p0\<lparr>pit_ticks := pit_ticks p + of_nat k,
      pit_uptime_ms := pit_uptime_ms p + of_nat (1000 * k div f), pit_ms_rem_acc := of_nat ?a\<rparr>)"
    using Suc by simp
  also have "\<dots> = p0\<lparr>pit_ticks := pit_ticks p + of_nat (Suc k),
      pit_uptime_ms := pit_uptime_ms p + of_nat (1000 * Suc k div f), pit_ms_rem_acc := of_nat (1000 * Suc k mod f)\<rparr>"
    unfolding d m by (simp add: pit_irq0_handler_def Let_def assms(3) acc base of_nat_diff del: of_nat_mod of_nat_div)
  finally show ?case .
qed

text \<open>
  The uptime is exact although the interrupt handler never divides: after \<open>k\<close> timer interrupts
  the clock started at \<open>f\<close> interrupts per second has advanced by 1000 k / f milliseconds, rounded
  down, for every frequency up to \<open>2 ^ 31\<close>: the remainders that the code accumulates never drift.
\<close>

theorem pit_uptime_exact:
  assumes "f \<noteq> 0" "f \<le> 0x80000000" "p = (pit_irq0_handler ^^ k) (fst (pit_init dev h f p0 s))"
  shows "pit_get_ticks p = pit_ticks p0 + of_nat k \<and>
    pit_get_uptime_ms p = pit_uptime_ms p0 + of_nat (1000 * k div unat f)"
proof -
  have f: "0 < unat f" "unat f \<le> 2 ^ 31" using assms(1,2) by (simp_all add: unat_gt_0 word_le_nat_alt)
  have "fst (pit_init dev h f p0 s) = p0\<lparr>pit_freq := of_nat (unat f), pit_ms_base := of_nat (1000 div unat f),
      pit_ms_rem := of_nat (1000 mod unat f), pit_ms_rem_acc := 0\<rparr>"
    using assms(1) by (simp add: pit_init_def Let_def word_arith_nat_div word_arith_nat_mod)
  from pit_ticks_count [OF f this, of k] show ?thesis
    by (simp add: assms(3) pit_get_ticks_def pit_get_uptime_ms_def)
qed

definition pit_example :: pit_state where
  "pit_example = \<lparr>pit_ticks = 0, pit_uptime_ms = 0, pit_freq = 0, pit_ms_base = 0, pit_ms_rem = 0, pit_ms_rem_acc = 0\<rparr>"

theorem pit_uptime_exact_witness:
  "pit_get_uptime_ms ((pit_irq0_handler ^^ 7) (fst (pit_init (\<lambda>_ _ _. 0xFF) 1 60 pit_example
     \<lparr>irq = (example_irq 47), nreads = 0\<rparr>))) = 116"
  using pit_uptime_exact [of 60 _ 7, OF _ _ refl] by (simp add: pit_example_def)

section \<open>Sleeping\<close>

lemma unat_sleep_ticks:
  assumes "0 < unat f" "unat f \<le> 1000" "0 < unat ms"
  shows "unat (sleep_ticks f ms) = (unat ms * unat f + 999) div 1000"
proof -
  let ?q = "unat ms div 1000" and ?r = "unat ms mod 1000"
  have "?q * unat f \<le> ?q * 1000" "?r * unat f \<le> ?r * 1000" using assms(2) by simp_all
  moreover have "?q * 1000 \<le> unat ms" "?r < 1000" by (simp_all add: div_times_less_eq_dividend)
  moreover have "unat ms < 4294967296" by (rule unat_u32_bound)
  ultimately have q: "?q * unat f < 4294967296" and r: "?r * unat f + 999 < 4294967296" by linarith+
  have t1: "unat (ms div 1000 * f) = ?q * unat f"
    using q unat_mult_lem [of "ms div 1000" f] by (simp add: unat_div)
  have rf: "unat (ms mod 1000 * f) = ?r * unat f"
    using r unat_mult_lem [of "ms mod 1000" f] by (simp add: unat_mod)
  have t2: "unat ((ms mod 1000 * f + 999) div 1000) = (?r * unat f + 999) div 1000"
    using r rf unat_plus_no_wrap [of "ms mod 1000 * f" 999] by (simp add: unat_div)
  have up: "unat (ucast x :: u64) = unat x" for x :: u32
    using unat_u32_bound [of x] by (simp add: unsigned_ucast_eq take_bit_nat_eq_self)
  have sum: "unat (ucast (ms div 1000 * f) + ucast ((ms mod 1000 * f + 999) div 1000) :: u64) =
      ?q * unat f + (?r * unat f + 999) div 1000"
    using unat_u32_bound [of "ms div 1000 * f"] unat_u32_bound [of "(ms mod 1000 * f + 999) div 1000"]
    by (subst unat_plus_no_wrap) (simp_all add: up t1 t2)
  have "unat ms * unat f + 999 = (?q * unat f) * 1000 + (?r * unat f + 999)"
  proof -
    have split: "(q * 1000 + r) * n + 999 = (q * n) * 1000 + (r * n + 999)" for q r n :: nat by (simp add: algebra_simps)
    show ?thesis using split [of ?q ?r "unat f"] by (simp only: div_mult_mod_eq)
  qed
  then have eq: "(unat ms * unat f + 999) div 1000 = ?q * unat f + (?r * unat f + 999) div 1000" by simp
  have "0 < unat ms * unat f" using assms by simp
  then have "1000 \<le> unat ms * unat f + 999" by linarith
  then have "0 < (unat ms * unat f + 999) div 1000" by (simp only: div_greater_zero_iff) simp
  then have "(ucast (ms div 1000 * f) + ucast ((ms mod 1000 * f + 999) div 1000) :: u64) \<noteq> 0"
    using sum eq by (metis unat_0 less_irrefl)
  then show ?thesis using sum eq by (simp add: sleep_ticks_def)
qed

lemma pit_handler_ticks: "pit_ticks ((pit_irq0_handler ^^ k) p) = pit_ticks p + of_nat k"
  by (induction k) (simp_all add: pit_irq0_handler_def Let_def)

lemma sleep_loop_ticks:
  assumes "unat (pit_ticks p) + n < 2 ^ 64" "until = pit_ticks p + of_nat n"
  shows "sleep_loop pit_irq0_handler until p = Some ((pit_irq0_handler ^^ n) p)"
  using assms
proof (induction n arbitrary: p)
  case 0
  then show ?case by (subst sleep_loop.simps) simp
next
  case (Suc n)
  have "n < 2 ^ LENGTH(64)" using Suc.prems(1) by simp
  have t: "pit_ticks (pit_irq0_handler p) = pit_ticks p + 1" using pit_handler_ticks [of 1 p] by simp
  have u: "unat (pit_ticks p + of_nat (Suc n)) = unat (pit_ticks p) + Suc n"
  proof -
    have "unat (of_nat (Suc n) :: u64) = Suc n" using Suc.prems(1) by (intro unat_of_nat_less) simp
    then show ?thesis using Suc.prems(1) by (subst unat_plus_no_wrap) simp_all
  qed
  then have "pit_ticks p < until" using Suc.prems(2) by (simp add: word_less_nat_alt)
  moreover have "unat (pit_ticks (pit_irq0_handler p)) + n < 2 ^ 64"
    using Suc.prems(1) t by (simp add: unat_plus_no_wrap)
  ultimately show ?case
    using Suc.IH [of "pit_irq0_handler p"] Suc.prems(2) t
    by (subst sleep_loop.simps) (simp add: funpow_swap1 add.assoc)
qed

text \<open>
  \<^verbatim>\<open>pit_sleep_ms\<close> returns, and after exactly the number of timer interrupts that cover the
  time: ms f / 1000, rounded up, for every frequency up to 1000 and every time; the two 32-bit
  products and the sum do not overflow.
\<close>

theorem pit_sleep_exact:
  assumes "0 < pit_freq p" "pit_freq p \<le> 1000" "0 < ms" "unat (pit_ticks p) < 2 ^ 63"
  shows "pit_sleep_ms pit_irq0_handler ms p =
    Some ((pit_irq0_handler ^^ ((unat ms * unat (pit_freq p) + 999) div 1000)) p)"
proof -
  let ?n = "(unat ms * unat (pit_freq p) + 999) div 1000"
  have f: "0 < unat (pit_freq p)" "unat (pit_freq p) \<le> 1000" "0 < unat ms"
    using assms by (simp_all add: unat_gt_0 word_le_nat_alt word_greater_zero_iff)
  have "unat ms * unat (pit_freq p) \<le> unat ms * 1000" using f(2) by simp
  then have "?n \<le> (unat ms * 1000 + 999) div 1000" by (intro div_le_mono) simp
  then have "?n < 2 ^ 63" using unat_u32_bound [of ms] by simp
  moreover have "sleep_ticks (pit_freq p) ms = of_nat ?n"
    unfolding unat_sleep_ticks [OF f, symmetric] by simp
  ultimately show ?thesis
    using assms sleep_loop_ticks [of p ?n] by (auto simp: pit_sleep_ms_def)
qed

theorem pit_sleep_exact_witness:
  "pit_sleep_ms pit_irq0_handler 50 (pit_example\<lparr>pit_freq := 60\<rparr>) =
     Some ((pit_irq0_handler ^^ 3) (pit_example\<lparr>pit_freq := 60\<rparr>))"
  using pit_sleep_exact [of "pit_example\<lparr>pit_freq := 60\<rparr>" 50] by (simp add: pit_example_def)

section \<open>Reading the clock\<close>

text \<open>
  The documented behaviour of the chip: the data port answers with the register whose number was
  written to the address port last (bit 7 of it masks interrupts).
\<close>

definition cmos :: "device \<Rightarrow> (u8 \<Rightarrow> u8) \<Rightarrow> bool" where
  "cmos dev regs \<longleftrightarrow> (\<forall>n ws reg. dev n (ws @ [(CMOS_ADDR, 0x80 OR reg)]) CMOS_DATA = regs reg)"

definition to_bcd :: "nat \<Rightarrow> u8" where "to_bcd n = of_nat (n div 10 * 16 + n mod 10)"

lemma rtc_bcd_roundtrip: "n < 100 \<Longrightarrow> rtc_bcd_to_bin (to_bcd n) = of_nat n"
proof -
  assume "n < 100"
  then have *: "n div 10 * 16 + n mod 10 < 256" "n div 10 < 10" by simp_all
  have u: "unat (to_bcd n) = n div 10 * 16 + n mod 10" unfolding to_bcd_def using * by (intro unat_of_nat_less) simp
  have low: "unat (to_bcd n AND 0x0F) = n mod 10"
  proof -
    have "to_bcd n AND 0x0F = take_bit 4 (to_bcd n)" by (simp add: take_bit_eq_mask mask_eq_exp_minus_1)
    moreover have "(n div 10 * 16 + n mod 10) mod 16 = n mod 10" by (simp add: mod_mult_self3 mod_less)
    ultimately show ?thesis by (simp add: take_bit_eq_mod unat_mod u)
  qed
  have high: "unat (drop_bit 4 (to_bcd n)) = n div 10" by (simp add: unat_drop_bit u)
  have "rtc_bcd_to_bin (to_bcd n) = of_nat (n div 10) * 10 + of_nat (n mod 10)"
    unfolding rtc_bcd_to_bin_def using low high by (metis of_nat_unat ucast_id)
  also have "\<dots> = of_nat (n div 10 * 10 + n mod 10)" by (simp only: of_nat_add of_nat_mult of_nat_numeral)
  finally show ?thesis by (simp only: div_mult_mod_eq)
qed

lemma rtc_read_reg_cmos:
  assumes "cmos dev regs"
  shows "fst (rtc_read_reg dev r s) = regs r"
  using assms by (simp add: rtc_read_reg_def inb_def outb_def out8_def cmos_def)

lemma rtc_read_fields:
  assumes "cmos dev regs"
  shows "fst (rtc_read dev (Some t) s) = Some (rtc_convert (regs RTC_STATUS_B) \<lparr>second = regs RTC_SECOND,
    minute = regs RTC_MINUTE, hour = regs RTC_HOUR, day = regs RTC_DAY, month = regs RTC_MONTH,
    year = ucast (regs RTC_YEAR), weekday = regs 0x06\<rparr>)"
  using rtc_read_reg_cmos [OF assms] by (simp add: rtc_read_def Let_def split_beta)

text \<open>
  On a clock that keeps binary-coded decimals in 24-hour mode, the mode the firmware sets up,
  \<^verbatim>\<open>rtc_read\<close> returns the date and time the chip holds, with the year in this century.
\<close>

theorem rtc_read_time:
  assumes "cmos dev regs" "regs RTC_STATUS_B AND 0x04 = 0" "regs RTC_STATUS_B AND 0x02 \<noteq> 0"
    "regs RTC_SECOND = to_bcd se" "regs RTC_MINUTE = to_bcd mm" "regs RTC_HOUR = to_bcd hh"
    "regs RTC_DAY = to_bcd dd" "regs RTC_MONTH = to_bcd mo" "regs RTC_YEAR = to_bcd yy"
    "se < 60" "mm < 60" "hh < 24" "dd < 32" "mo < 13" "yy < 100"
  shows "fst (rtc_read dev (Some t) s) = Some \<lparr>second = of_nat se, minute = of_nat mm, hour = of_nat hh,
    day = of_nat dd, month = of_nat mo, year = of_nat (2000 + yy), weekday = regs 0x06\<rparr>"
proof -
  have h: "(of_nat hh :: u8) AND 0x7F = of_nat hh"
  proof -
    have "unat (of_nat hh :: u8) = hh" using assms(12) by (intro unat_of_nat_less) simp
    moreover have "(of_nat hh :: u8) AND 0x7F = take_bit 7 (of_nat hh)" by (simp add: take_bit_eq_mask mask_eq_exp_minus_1)
    moreover have "hh mod 128 = hh" using assms(12) by simp
    ultimately show ?thesis by (simp only: word_unat_eq_iff take_bit_eq_mod unat_mod) simp
  qed
  have y: "(ucast (of_nat yy :: u8) :: u16) = of_nat yy"
    using assms(15) by (simp add: word_unat_eq_iff unsigned_ucast_eq take_bit_nat_eq_self unat_of_nat_less)
  have y100: "(of_nat yy :: u16) < 100"
    using assms(15) by (simp add: word_less_nat_alt unat_of_nat_less)
  have id: "ucast (ucast (x :: u8) :: u16) = x" for x by (rule bit_word_eqI) (simp add: bit_simps)
  show ?thesis unfolding rtc_read_fields [OF assms(1)]
    using assms(2-15) by (simp add: rtc_convert_def rtc_from_bcd_def Let_def rtc_bcd_roundtrip h y y100 id add.commute)
qed

definition clock_regs :: "u8 \<Rightarrow> u8" where
  "clock_regs reg = (let r = reg AND 0x7F in
      if r = 0x0B then 0x02 else if r = 0x00 then 0x58 else if r = 0x02 then 0x59 else if r = 0x04 then 0x23
      else if r = 0x07 then 0x31 else if r = 0x08 then 0x12 else if r = 0x09 then 0x25 else if r = 0x06 then 4 else 0)"

definition clock_example :: device where
  "clock_example n ws port = (if ws = [] then 0 else clock_regs (snd (last ws)))"

definition time_example :: rtc_time where
  "time_example = \<lparr>second = 0, minute = 0, hour = 0, day = 0, month = 0, year = 0, weekday = 0\<rparr>"

theorem rtc_read_time_witness:
  "fst (rtc_read clock_example (Some time_example) \<lparr>irq = (example_irq 47), nreads = 0\<rparr>) = Some \<lparr>second = 58, minute = 59, hour = 23, day = 31, month = 12,
     year = 2025, weekday = 4\<rparr>"
proof -
  have "(0x80 OR reg) AND 0x7F = reg AND (0x7F :: u8)" for reg
    by (simp add: bit.conj_disj_distrib2)
  then have "cmos clock_example clock_regs" by (simp add: cmos_def clock_example_def clock_regs_def)
  from rtc_read_time [OF this, of 58 59 23 31 12 25 time_example] show ?thesis
    by (simp add: clock_regs_def to_bcd_def RTC_STATUS_B_def RTC_SECOND_def RTC_MINUTE_def RTC_HOUR_def
      RTC_DAY_def RTC_MONTH_def RTC_YEAR_def)
qed

text \<open>
  In 12-hour mode the afternoon bit does not survive the conversion from decimals: eleven in the
  evening is read as hour 91. In binary mode noon is read as hour 0.
\<close>

lemma rtc_afternoon_lost: "hour (rtc_convert 0x00 (t\<lparr>hour := 0x91\<rparr>)) = 91"
  by (simp add: rtc_convert_def rtc_from_bcd_def rtc_bcd_to_bin_def Let_def)

lemma rtc_noon: "hour (rtc_convert 0x04 (t\<lparr>hour := 0x8C\<rparr>)) = 0"
  by (simp add: rtc_convert_def Let_def)

end
