(* ===== verification/Khazar_Input.thy ===== *)
theory Khazar_Input
  imports Khazar_Picture Khazar_Timer Khazar_Queues
begin

text \<open>
  The input devices: the keyboard \<^verbatim>\<open>kernel/drivers/input/keyboard.c\<close> and the mouse
  \<^verbatim>\<open>kernel/drivers/input/mouse.c\<close>, in front of the terminal buffer and the event queue. An
  interrupt handler is a function of the byte it reads from the data port. The cursor is drawn
  with the routines of \<open>Khazar_Gfx\<close>; positions are mathematical integers.
\<close>

section \<open>The keyboard\<close>

definition scancode_ascii :: "u8 list" where
  "scancode_ascii = [
     0, 27, 49, 50, 51, 52, 53, 54, 55, 56,
     57, 48, 45, 61, 8, 9, 113, 119, 101, 114,
     116, 121, 117, 105, 111, 112, 91, 93, 10, 0,
     97, 115, 100, 102, 103, 104, 106, 107, 108, 59,
     39, 96, 0, 92, 122, 120, 99, 118, 98, 110,
     109, 44, 46, 47, 0, 42, 0, 32, 0, 0,
     0, 0, 0, 0, 0, 0, 0, 0, 0, 0,
     0, 0, 0, 0, 45, 0, 0, 0, 43, 0,
     0, 0, 0, 0, 0, 0, 0, 0, 0, 0]"

definition SC_UP_ARROW :: u8 where "SC_UP_ARROW = 0x48"
definition SC_DOWN_ARROW :: u8 where "SC_DOWN_ARROW = 0x50"
definition SC_LEFT_ARROW :: u8 where "SC_LEFT_ARROW = 0x4B"
definition SC_RIGHT_ARROW :: u8 where "SC_RIGHT_ARROW = 0x4D"
definition SC_TAB :: u8 where "SC_TAB = 0x0F"

record kbd_state =
  shift_pressed :: bool
  caps_lock_on :: bool
  e0_prefix :: bool
  last_special_scancode :: u8
  ktty :: tty
  kevents :: event_queue

text \<open>Character codes are below 128, so \<^verbatim>\<open>char\<close> comparisons are those of bytes.\<close>

definition shift_char :: "u8 \<Rightarrow> u8" where
  "shift_char c =
     (if c = 49 then 33
     else if c = 50 then 64
     else if c = 51 then 35
     else if c = 52 then 36
     else if c = 53 then 37
     else if c = 54 then 94
     else if c = 55 then 38
     else if c = 56 then 42
     else if c = 57 then 40
     else if c = 48 then 41
     else if c = 45 then 95
     else if c = 61 then 43
     else if c = 91 then 123
     else if c = 93 then 125
     else if c = 92 then 124
     else if c = 59 then 58
     else if c = 39 then 34
     else if c = 44 then 60
     else if c = 46 then 62
     else if c = 47 then 63
     else if c = 96 then 126
     else if 97 \<le> c \<and> c \<le> 122 then c - 32
     else c)"

definition keyboard_callback :: "u8 \<Rightarrow> kbd_state \<Rightarrow> kbd_state" where
  "keyboard_callback scancode k =
     (if scancode = 0xE0 then k\<lparr>e0_prefix := True\<rparr>
      else if scancode AND 0x80 \<noteq> 0
      then let key = scancode AND 0x7F;
               k1 = (if key = 0x2A \<or> key = 0x36 then k\<lparr>shift_pressed := False\<rparr> else k)
           in k1\<lparr>e0_prefix := False\<rparr>
      else if e0_prefix k
      then let k1 = k\<lparr>e0_prefix := False\<rparr>
           in if scancode = SC_UP_ARROW \<or> scancode = SC_DOWN_ARROW \<or> scancode = SC_LEFT_ARROW \<or> scancode = SC_RIGHT_ARROW
              then k1\<lparr>last_special_scancode := scancode, ktty := tty_putc 0x01 (ktty k1)\<rparr>
              else k1
      else if scancode = 0x3A then k\<lparr>caps_lock_on := \<not> caps_lock_on k\<rparr>
      else if scancode = 0x2A \<or> scancode = 0x36 then k\<lparr>shift_pressed := True\<rparr>
      else if scancode = SC_TAB
      then k\<lparr>last_special_scancode := SC_TAB, ktty := tty_putc 9 (ktty k)\<rparr>
      else if unat scancode < length scancode_ascii
      then let c = scancode_ascii ! unat scancode
           in if c \<noteq> 0
              then let do_shift = (if 97 \<le> c \<and> c \<le> 122 \<and> caps_lock_on k then \<not> shift_pressed k else shift_pressed k);
                       c1 = (if do_shift then shift_char c else c)
                   in k\<lparr>kevents := events_push \<lparr>ev_type = EVENT_KEY_DOWN, data1 = ucast c1, data2 = 0, data3 = 0\<rparr> (kevents k)\<rparr>
              else k
      else k)"

definition keyboard_get_special :: "kbd_state \<Rightarrow> u8 \<times> kbd_state" where
  "keyboard_get_special k = (last_special_scancode k, k\<lparr>last_special_scancode := 0\<rparr>)"

text \<open>
  Draining the controller before the handler is registered. The status is read once more than
  the counter allows drains.
\<close>

primrec flush_loop :: "device \<Rightarrow> nat \<Rightarrow> port_state \<Rightarrow> port_state" where
  "flush_loop dev 0 s = snd (inb dev 0x64 s)"
| "flush_loop dev (Suc flush_timeout) s =
     (let (status, s1) = inb dev 0x64 s
      in if status AND 1 \<noteq> 0 then flush_loop dev flush_timeout (snd (inb dev 0x60 s1)) else s1)"

definition keyboard_init :: "device \<Rightarrow> nat \<Rightarrow> port_state \<Rightarrow> port_state" where
  "keyboard_init dev handler s =
     pic_unmask dev PIC1_DATA 1 (register_handler 33 handler (flush_loop dev 100000 s))"

section \<open>The mouse\<close>

definition MOUSE_PORT :: u16 where "MOUSE_PORT = 0x60"
definition MOUSE_STATUS :: u16 where "MOUSE_STATUS = 0x64"
definition CURSOR_W :: int where "CURSOR_W = 16"
definition CURSOR_H :: int where "CURSOR_H = 16"
definition CURSOR_TRANSPARENT :: u32 where "CURSOR_TRANSPARENT = 0x00FF00FF"

record mouse_state =
  mx :: int
  my :: int
  buttons :: u8
  mouse_cycle :: nat
  mouse_byte :: "u8 list"
  save_buffer :: "u32 list"
  last_cursor_x :: int
  last_cursor_y :: int

definition cursor_arrow :: "u32 list" where
  "cursor_arrow = [
     0, 0, 0xFF00FF, 0xFF00FF, 0xFF00FF, 0xFF00FF, 0xFF00FF, 0xFF00FF, 0xFF00FF, 0xFF00FF, 0xFF00FF, 0xFF00FF, 0xFF00FF, 0xFF00FF, 0xFF00FF, 0xFF00FF,
     0, 0xFFFFFF, 0, 0xFF00FF, 0xFF00FF, 0xFF00FF, 0xFF00FF, 0xFF00FF, 0xFF00FF, 0xFF00FF, 0xFF00FF, 0xFF00FF, 0xFF00FF, 0xFF00FF, 0xFF00FF, 0xFF00FF,
     0, 0xFFFFFF, 0xFFFFFF, 0, 0xFF00FF, 0xFF00FF, 0xFF00FF, 0xFF00FF, 0xFF00FF, 0xFF00FF, 0xFF00FF, 0xFF00FF, 0xFF00FF, 0xFF00FF, 0xFF00FF, 0xFF00FF,
     0, 0xFFFFFF, 0xFFFFFF, 0xFFFFFF, 0, 0xFF00FF, 0xFF00FF, 0xFF00FF, 0xFF00FF, 0xFF00FF, 0xFF00FF, 0xFF00FF, 0xFF00FF, 0xFF00FF, 0xFF00FF, 0xFF00FF,
     0, 0xFFFFFF, 0xFFFFFF, 0xFFFFFF, 0xFFFFFF, 0, 0xFF00FF, 0xFF00FF, 0xFF00FF, 0xFF00FF, 0xFF00FF, 0xFF00FF, 0xFF00FF, 0xFF00FF, 0xFF00FF, 0xFF00FF,
     0, 0xFFFFFF, 0xFFFFFF, 0xFFFFFF, 0xFFFFFF, 0xFFFFFF, 0, 0xFF00FF, 0xFF00FF, 0xFF00FF, 0xFF00FF, 0xFF00FF, 0xFF00FF, 0xFF00FF, 0xFF00FF, 0xFF00FF,
     0, 0xFFFFFF, 0xFFFFFF, 0xFFFFFF, 0xFFFFFF, 0xFFFFFF, 0xFFFFFF, 0, 0xFF00FF, 0xFF00FF, 0xFF00FF, 0xFF00FF, 0xFF00FF, 0xFF00FF, 0xFF00FF, 0xFF00FF,
     0, 0xFFFFFF, 0xFFFFFF, 0xFFFFFF, 0xFFFFFF, 0xFFFFFF, 0xFFFFFF, 0xFFFFFF, 0, 0xFF00FF, 0xFF00FF, 0xFF00FF, 0xFF00FF, 0xFF00FF, 0xFF00FF, 0xFF00FF,
     0, 0xFFFFFF, 0xFFFFFF, 0xFFFFFF, 0xFFFFFF, 0xFFFFFF, 0xFFFFFF, 0xFFFFFF, 0xFFFFFF, 0, 0xFF00FF, 0xFF00FF, 0xFF00FF, 0xFF00FF, 0xFF00FF, 0xFF00FF,
     0, 0xFFFFFF, 0xFFFFFF, 0xFFFFFF, 0xFFFFFF, 0xFFFFFF, 0, 0, 0, 0, 0xFF00FF, 0xFF00FF, 0xFF00FF, 0xFF00FF, 0xFF00FF, 0xFF00FF,
     0, 0xFFFFFF, 0xFFFFFF, 0, 0xFFFFFF, 0xFFFFFF, 0, 0xFF00FF, 0xFF00FF, 0xFF00FF, 0xFF00FF, 0xFF00FF, 0xFF00FF, 0xFF00FF, 0xFF00FF, 0xFF00FF,
     0, 0xFFFFFF, 0, 0xFF00FF, 0, 0xFFFFFF, 0xFFFFFF, 0, 0xFF00FF, 0xFF00FF, 0xFF00FF, 0xFF00FF, 0xFF00FF, 0xFF00FF, 0xFF00FF, 0xFF00FF,
     0, 0, 0xFF00FF, 0xFF00FF, 0, 0xFFFFFF, 0xFFFFFF, 0, 0xFF00FF, 0xFF00FF, 0xFF00FF, 0xFF00FF, 0xFF00FF, 0xFF00FF, 0xFF00FF, 0xFF00FF,
     0xFF00FF, 0xFF00FF, 0xFF00FF, 0xFF00FF, 0xFF00FF, 0, 0xFFFFFF, 0xFFFFFF, 0, 0xFF00FF, 0xFF00FF, 0xFF00FF, 0xFF00FF, 0xFF00FF, 0xFF00FF, 0xFF00FF,
     0xFF00FF, 0xFF00FF, 0xFF00FF, 0xFF00FF, 0xFF00FF, 0, 0xFFFFFF, 0, 0xFF00FF, 0xFF00FF, 0xFF00FF, 0xFF00FF, 0xFF00FF, 0xFF00FF, 0xFF00FF, 0xFF00FF,
     0xFF00FF, 0xFF00FF, 0xFF00FF, 0xFF00FF, 0xFF00FF, 0xFF00FF, 0, 0xFF00FF, 0xFF00FF, 0xFF00FF, 0xFF00FF, 0xFF00FF, 0xFF00FF, 0xFF00FF, 0xFF00FF, 0xFF00FF]"

text \<open>The polling loops of \<^verbatim>\<open>mouse_wait\<close>: for output of the controller, or for room in its input.\<close>

primrec mouse_poll :: "(u8 \<Rightarrow> bool) \<Rightarrow> device \<Rightarrow> nat \<Rightarrow> port_state \<Rightarrow> port_state" where
  "mouse_poll ready dev 0 s = s"
| "mouse_poll ready dev (Suc timeout) s =
     (let (status, s1) = inb dev MOUSE_STATUS s
      in if ready status then s1 else mouse_poll ready dev timeout (outb 0x80 0 s1))"

definition mouse_wait :: "device \<Rightarrow> u8 \<Rightarrow> port_state \<Rightarrow> port_state" where
  "mouse_wait dev kind s =
     (if kind = 0 then mouse_poll (\<lambda>status. status AND 1 = 1) dev 100000 s
      else mouse_poll (\<lambda>status. status AND 2 = 0) dev 100000 s)"

definition mouse_write :: "device \<Rightarrow> u8 \<Rightarrow> port_state \<Rightarrow> port_state" where
  "mouse_write dev b s = outb MOUSE_PORT b (mouse_wait dev 1 (outb MOUSE_STATUS 0xD4 (mouse_wait dev 1 s)))"

definition mouse_read :: "device \<Rightarrow> port_state \<Rightarrow> u8 \<times> port_state" where
  "mouse_read dev s = inb dev MOUSE_PORT (mouse_wait dev 0 s)"

text \<open>A movement: the byte as \<^verbatim>\<open>int8_t\<close>, with the upper bits set by the sign flag of the first byte.\<close>

definition mouse_move :: "u8 \<Rightarrow> bool \<Rightarrow> int" where
  "mouse_move b negative =
     (let m = scast b :: u32 in sint (if negative then m OR 0xFFFFFF00 else m))"

definition push_if :: "bool \<Rightarrow> event_type_t \<Rightarrow> u32 \<Rightarrow> u32 \<Rightarrow> u32 \<Rightarrow> event_queue \<Rightarrow> event_queue" where
  "push_if c t d1 d2 d3 q = (if c then events_push \<lparr>ev_type = t, data1 = d1, data2 = d2, data3 = d3\<rparr> q else q)"

text \<open>A complete packet.\<close>

definition mouse_packet :: "vbe_info \<Rightarrow> mouse_state \<Rightarrow> event_queue \<Rightarrow> mouse_state \<times> event_queue" where
  "mouse_packet v m q =
     (let b0 = mouse_byte m ! 0;
          x0 = mx m + mouse_move (mouse_byte m ! 1) (b0 AND 0x10 \<noteq> 0);
          y0 = my m - mouse_move (mouse_byte m ! 2) (b0 AND 0x20 \<noteq> 0);
          x1 = (if x0 < 0 then 0 else x0);
          y1 = (if y0 < 0 then 0 else y0);
          x = (if x1 \<ge> sint (width v) then sint (width v - 1) else x1);
          y = (if y1 \<ge> sint (height v) then sint (height v - 1) else y1);
          old = buttons m;
          new = b0 AND 0x07;
          X = of_int x;
          Y = of_int y;
          q1 = push_if (new AND 1 \<noteq> 0 \<and> old AND 1 = 0) EVENT_MOUSE_CLICK 1 X Y q;
          q2 = push_if (new AND 1 = 0 \<and> old AND 1 \<noteq> 0) EVENT_MOUSE_RELEASE 1 X Y q1;
          q3 = push_if (new AND 2 \<noteq> 0 \<and> old AND 2 = 0) EVENT_MOUSE_CLICK 2 X Y q2;
          q4 = push_if (new AND 2 = 0 \<and> old AND 2 \<noteq> 0) EVENT_MOUSE_RELEASE 2 X Y q3
      in (m\<lparr>mouse_cycle := 0, mx := x, my := y, buttons := new\<rparr>,
          push_if True EVENT_MOUSE_MOVE X Y 0 q4))"

definition mouse_handler :: "vbe_info \<Rightarrow> u8 \<Rightarrow> mouse_state \<times> event_queue \<Rightarrow> mouse_state \<times> event_queue" where
  "mouse_handler v b = (\<lambda>(m, q).
     if mouse_cycle m = 0 \<and> b AND 0x08 = 0 then (m, q)
     else let m1 = m\<lparr>mouse_byte := (mouse_byte m)[mouse_cycle m := b], mouse_cycle := mouse_cycle m + 1\<rparr>
          in if mouse_cycle m1 = 3 then mouse_packet v m1 q else (m1, q))"

definition mouse_init :: "device \<Rightarrow> nat \<Rightarrow> mouse_state \<Rightarrow> port_state \<Rightarrow> mouse_state \<times> port_state" where
  "mouse_init dev handler m s =
     (let m1 = m\<lparr>mx := 512, my := 384, buttons := 0, last_cursor_x := - 1, last_cursor_y := - 1\<rparr>;
          s = outb MOUSE_STATUS 0xA8 (mouse_wait dev 1 s);
          s = outb MOUSE_STATUS 0x20 (mouse_wait dev 1 s);
          (b, s) = inb dev MOUSE_PORT (mouse_wait dev 0 s);
          s = outb MOUSE_STATUS 0x60 (mouse_wait dev 1 s);
          s = outb MOUSE_PORT (b OR 2) (mouse_wait dev 1 s);
          s = snd (mouse_read dev (mouse_write dev 0xF6 s));
          s = snd (mouse_read dev (mouse_write dev 0xF4 s));
          s = pic_unmask dev 0xA1 4 s;
          s = pic_unmask dev 0x21 2 s
      in (m1, register_handler 44 handler s))"

section \<open>The cursor\<close>

definition cursor_draw_sprite :: "int \<Rightarrow> int \<Rightarrow> gfx_state \<Rightarrow> gfx_state" where
  "cursor_draw_sprite x y g =
     for_int 0 CURSOR_H (\<lambda>row.
       if y + row < 0 \<or> y + row \<ge> sint (height (vbe g)) then (\<lambda>g. g)
       else for_int 0 CURSOR_W (\<lambda>col g1.
         if x + col < 0 \<or> x + col \<ge> sint (width (vbe g)) then g1
         else let px = cursor_arrow ! nat (row * CURSOR_W + col)
              in if px = CURSOR_TRANSPARENT then g1
                 else if px = 0 then gfx_put_pixel (x + col) (y + row) px g1
                 else gfx_put_pixel_alpha (x + col) (y + row) (px AND 0xFFFFFF) 255 g1)) g"

text \<open>A null back buffer faults in the save and restore routines: the result \<open>None\<close>.\<close>

definition mouse_draw_cursor :: "mouse_state \<Rightarrow> gfx_state \<Rightarrow> (mouse_state \<times> gfx_state) option" where
  "mouse_draw_cursor m g =
     do { g1 \<leftarrow> (if last_cursor_x m \<ge> 0 \<and> last_cursor_y m \<ge> 0
                 then gfx_restore_rect (Some (save_buffer m)) (last_cursor_x m) (last_cursor_y m) CURSOR_W CURSOR_H g
                 else Some g);
          saved \<leftarrow> gfx_save_rect (Some (save_buffer m)) (mx m) (my m) CURSOR_W CURSOR_H g1;
          Some (m\<lparr>save_buffer := the saved, last_cursor_x := mx m, last_cursor_y := my m\<rparr>,
                cursor_draw_sprite (mx m) (my m) g1) }"

definition mouse_invalidate_cursor :: "mouse_state \<Rightarrow> mouse_state" where
  "mouse_invalidate_cursor m = m\<lparr>last_cursor_x := - 1, last_cursor_y := - 1\<rparr>"

section \<open>The cursor leaves no trail\<close>

lemma CURSOR_size: "CURSOR_W = int 16" "CURSOR_H = int 16"
  by (simp_all add: CURSOR_W_def CURSOR_H_def)

definition sprite :: "vbe_info \<Rightarrow> int \<Rightarrow> int \<Rightarrow> gfx_state \<Rightarrow> gfx_state" where
  "sprite v x y =
     for_int 0 CURSOR_H (\<lambda>row.
       if y + row < 0 \<or> y + row \<ge> sint (height v) then (\<lambda>g. g)
       else for_int 0 CURSOR_W (\<lambda>col g1.
         if x + col < 0 \<or> x + col \<ge> sint (width v) then g1
         else let px = cursor_arrow ! nat (row * CURSOR_W + col)
              in if px = CURSOR_TRANSPARENT then g1
                 else if px = 0 then gfx_put_pixel (x + col) (y + row) px g1
                 else gfx_put_pixel_alpha (x + col) (y + row) (px AND 0xFFFFFF) 255 g1))"

lemma cursor_draw_sprite_eq: "cursor_draw_sprite x y g = sprite (vbe g) x y g"
  by (simp add: cursor_draw_sprite_def sprite_def)

lemma inside_sprite: "inside (in_rect x y 16 16) (sprite v x y)"
  unfolding sprite_def
proof (rule inside_for)
  fix row assume row: "0 \<le> row" "row < CURSOR_H"
  let ?P = "in_rect x y 16 16"
  have "inside ?P (\<lambda>g1. if x + col < 0 \<or> x + col \<ge> sint (width v) then g1
      else let px = cursor_arrow ! nat (row * CURSOR_W + col)
           in if px = CURSOR_TRANSPARENT then g1
              else if px = 0 then gfx_put_pixel (x + col) (y + row) px g1
              else gfx_put_pixel_alpha (x + col) (y + row) (px AND 0xFFFFFF) 255 g1)"
    if "0 \<le> col" "col < CURSOR_W" for col
    unfolding Let_def
    by (intro inside_if inside_id inside_put_pixel inside_put_pixel_alpha)
      (use row that in \<open>simp_all add: in_rect_def CURSOR_W_def CURSOR_H_def\<close>)
  note cols = inside_for [of 0 CURSOR_W, OF this]
  show "inside ?P (if y + row < 0 \<or> sint (height v) \<le> y + row then (\<lambda>g. g)
      else for_int 0 CURSOR_W (\<lambda>col g1. if x + col < 0 \<or> sint (width v) \<le> x + col then g1
        else let px = cursor_arrow ! nat (row * CURSOR_W + col)
             in if px = CURSOR_TRANSPARENT then g1
                else if px = 0 then gfx_put_pixel (x + col) (y + row) px g1
                else gfx_put_pixel_alpha (x + col) (y + row) (px AND 0xFFFFFF) 255 g1))"
    using cols inside_id by (cases "y + row < 0 \<or> sint (height v) \<le> y + row") simp_all
qed

text \<open>Drawing the cursor at one position after the other.\<close>

primrec draw_cursors :: "(int \<times> int) list \<Rightarrow> mouse_state \<times> gfx_state \<Rightarrow> (mouse_state \<times> gfx_state) option" where
  "draw_cursors [] s = Some s"
| "draw_cursors (p # ps) s =
     do { s1 \<leftarrow> mouse_draw_cursor ((fst s)\<lparr>mx := fst p, my := snd p\<rparr>) (snd s); draw_cursors ps s1 }"

text \<open>The cursor was drawn onto the picture \<open>g0\<close>, which the save buffer can bring back.\<close>

definition cursor_on :: "gfx_state \<Rightarrow> mouse_state \<Rightarrow> gfx_state \<Rightarrow> bool" where
  "cursor_on g0 m g \<longleftrightarrow> 0 \<le> last_cursor_x m \<and> 0 \<le> last_cursor_y m \<and> length (save_buffer m) = 256 \<and>
     restore_rows (save_buffer m) (last_cursor_x m) (last_cursor_y m) 16 16 g = Some g0"

lemma save_then_draw:
  assumes "gfx_ok g0" "backbuffer g0 = Some b" "length d = 256" "0 \<le> x" "0 \<le> y"
  shows "\<exists>d'. save_rows d x y 16 16 g0 = Some d' \<and> length d' = 256 \<and>
    restore_rows d' x y 16 16 (cursor_draw_sprite x y g0) = Some g0"
  using restore_undoes [OF assms(1,2), of d 16 16 "sprite (vbe g0) x y" x y] assms(1,3) inside_sprite [of x y "vbe g0"]
  unfolding inside_def cursor_draw_sprite_eq by auto

lemma mouse_draw_cursor_moves:
  assumes g0: "gfx_ok g0" "backbuffer g0 = Some b" and pos: "0 \<le> mx m" "0 \<le> my m"
    and before: "cursor_on g0 m g \<or> last_cursor_x m < 0 \<and> g = g0 \<and> length (save_buffer m) = 256"
  shows "\<exists>m'. mouse_draw_cursor m g = Some (m', cursor_draw_sprite (mx m) (my m) g0) \<and>
    cursor_on g0 m' (cursor_draw_sprite (mx m) (my m) g0)"
proof -
  have len: "length (save_buffer m) = 256" using before by (auto simp: cursor_on_def)
  have r: "(if last_cursor_x m \<ge> 0 \<and> last_cursor_y m \<ge> 0
      then gfx_restore_rect (Some (save_buffer m)) (last_cursor_x m) (last_cursor_y m) CURSOR_W CURSOR_H g
      else Some g) = Some g0"
    using before by (auto simp: cursor_on_def gfx_restore_rect_def CURSOR_W_def CURSOR_H_def)
  obtain d' where d': "save_rows (save_buffer m) (mx m) (my m) 16 16 g0 = Some d'" "length d' = 256"
    "restore_rows d' (mx m) (my m) 16 16 (cursor_draw_sprite (mx m) (my m) g0) = Some g0"
    using save_then_draw [OF g0 len pos] by blast
  show ?thesis unfolding mouse_draw_cursor_def r
    using d' pos by (simp add: gfx_save_rect_def cursor_on_def CURSOR_W_def CURSOR_H_def)
qed

lemma draw_cursors_on:
  assumes "gfx_ok g0" "backbuffer g0 = Some b" "cursor_on g0 m g" "list_all (\<lambda>p. 0 \<le> fst p \<and> 0 \<le> snd p) ps" "ps \<noteq> []"
  shows "\<exists>m'. draw_cursors ps (m, g) = Some (m', cursor_draw_sprite (fst (last ps)) (snd (last ps)) g0)"
  using assms(3-5)
proof (induction ps arbitrary: m g)
  case (Cons p ps)
  have on: "cursor_on g0 (m\<lparr>mx := fst p, my := snd p\<rparr>) g" using Cons.prems(1) by (simp add: cursor_on_def)
  obtain m' where m': "mouse_draw_cursor (m\<lparr>mx := fst p, my := snd p\<rparr>) g = Some (m', cursor_draw_sprite (fst p) (snd p) g0)"
    "cursor_on g0 m' (cursor_draw_sprite (fst p) (snd p) g0)"
    using mouse_draw_cursor_moves [OF assms(1,2), of "m\<lparr>mx := fst p, my := snd p\<rparr>" g] on Cons.prems(2) by auto
  then show ?case using Cons.IH [OF m'(2)] Cons.prems(2) by (cases "ps = []") simp_all
qed simp

text \<open>
  C33. The moving cursor leaves no trail: drawn at any positions one after the other, also over the
  right and lower edge of the screen, the picture is always the original one with the cursor at
  the last position, pixel by pixel, and no step faults.
\<close>

theorem cursor_no_trail:
  assumes "gfx_ok g" "backbuffer g \<noteq> None" "length (save_buffer m) = 256"
    "list_all (\<lambda>(x, y). 0 \<le> x \<and> 0 \<le> y) ps" "ps \<noteq> []" "(x, y) = last ps"
  shows "\<exists>m'. draw_cursors ps (mouse_invalidate_cursor m, g) = Some (m', cursor_draw_sprite x y g)"
proof (cases ps)
  case (Cons p qs)
  obtain b where b: "backbuffer g = Some b" using assms(2) by blast
  have ps: "list_all (\<lambda>p. 0 \<le> fst p \<and> 0 \<le> snd p) ps" using assms(4) by (simp add: case_prod_unfold)
  let ?m = "(mouse_invalidate_cursor m)\<lparr>mx := fst p, my := snd p\<rparr>"
  obtain m' where m': "mouse_draw_cursor ?m g = Some (m', cursor_draw_sprite (fst p) (snd p) g)"
    "cursor_on g m' (cursor_draw_sprite (fst p) (snd p) g)"
    using mouse_draw_cursor_moves [OF assms(1) b, of ?m g] ps Cons assms(3) by (auto simp: mouse_invalidate_cursor_def)
  then show ?thesis using draw_cursors_on [OF assms(1) b m'(2), of qs] ps Cons assms(6)
    by (cases "qs = []") (auto simp: prod_eq_iff)
qed (use assms in simp)

definition mouse_example :: mouse_state where
  "mouse_example = \<lparr>mx = 512, my = 384, buttons = 0, mouse_cycle = 0, mouse_byte = [0, 0, 0],
     save_buffer = replicate 256 0, last_cursor_x = 5, last_cursor_y = 5\<rparr>"

definition screen_example :: gfx_state where
  "screen_example = \<lparr>vbe = vbe_example, backbuffer = Some [1, 2], frontbuffer = None, vram = (\<lambda>_. 0)\<rparr>"

theorem cursor_no_trail_witness:
  "\<exists>m'. draw_cursors [(0, 0), (1, 0)] (mouse_invalidate_cursor mouse_example, screen_example) =
     Some (m', cursor_draw_sprite 1 0 screen_example)"
proof -
  have "gfx_ok screen_example" by (simp add: gfx_ok_def size_ok_def screen_example_def vbe_example_def)
  then show ?thesis
    using cursor_no_trail [of screen_example mouse_example "[(0, 0), (1, 0)]" 1 0]
    by (simp add: screen_example_def mouse_example_def)
qed

section \<open>The position stays on the screen\<close>

definition mouse_ok :: "vbe_info \<Rightarrow> mouse_state \<Rightarrow> bool" where
  "mouse_ok v m \<longleftrightarrow> mouse_cycle m < 3 \<and> length (mouse_byte m) = 3 \<and>
     0 \<le> mx m \<and> mx m < sint (width v) \<and> 0 \<le> my m \<and> my m < sint (height v)"

lemma sint_pred:
  assumes "0 < sint (w :: u32)"
  shows "sint (w - 1) = sint w - 1"
proof -
  have "sint w < 2 ^ 31" using sint_lt [of w] by simp
  then have "signed_take_bit 31 (sint w - 1) = sint w - 1" using assms by (intro signed_take_bit_int_eq_self) linarith+
  then show ?thesis by (simp add: sint_word_diff)
qed

lemma events_inv_push [simp]: "events_inv q \<Longrightarrow> events_inv (push_if c t d1 d2 d3 q)"
  by (simp add: push_if_def events_push_laws)

lemma mouse_packet_ok:
  assumes "0 < sint (width v)" "0 < sint (height v)" "length (mouse_byte m) = 3" "events_inv q"
  shows "mouse_ok v (fst (mouse_packet v m q)) \<and> events_inv (snd (mouse_packet v m q))"
  using assms by (simp add: mouse_packet_def Let_def mouse_ok_def sint_pred)

lemma mouse_handler_ok:
  assumes "0 < sint (width v)" "0 < sint (height v)" "mouse_ok v m" "events_inv q"
  shows "mouse_ok v (fst (mouse_handler v b (m, q))) \<and> events_inv (snd (mouse_handler v b (m, q)))"
proof -
  let ?m = "m\<lparr>mouse_byte := (mouse_byte m)[mouse_cycle m := b], mouse_cycle := mouse_cycle m + 1\<rparr>"
  have "mouse_ok v (fst (mouse_packet v ?m q)) \<and> events_inv (snd (mouse_packet v ?m q))"
    using assms by (intro mouse_packet_ok) (simp_all add: mouse_ok_def)
  then show ?thesis using assms(3,4) by (auto simp: mouse_handler_def Let_def mouse_ok_def)
qed

text \<open>
  C34. Whatever bytes the device sends, in step or out of step, lost or garbled, the state of the
  mouse stays well formed: the byte counter indexes the packet buffer, the position is on the
  screen after every byte, and the event queue keeps its invariant.
\<close>

theorem mouse_on_screen:
  assumes "0 < sint (width v)" "0 < sint (height v)" "mouse_ok v m" "events_inv q"
  shows "mouse_ok v (fst (fold (mouse_handler v) bs (m, q))) \<and> events_inv (snd (fold (mouse_handler v) bs (m, q)))"
  using assms(3,4)
proof (induction bs arbitrary: m q)
  case (Cons b bs)
  obtain m' q' where "mouse_handler v b (m, q) = (m', q')" by fastforce
  then show ?case using mouse_handler_ok [OF assms(1,2) Cons.prems, of b] Cons.IH [of m' q'] by simp
qed simp

theorem mouse_on_screen_witness:
  "mouse_ok vbe_example (fst (fold (mouse_handler vbe_example) [0xFA, 0x19, 0x80, 5] (mouse_example\<lparr>mx := 0, my := 0\<rparr>, events_init)))"
  using mouse_on_screen [of vbe_example "mouse_example\<lparr>mx := 0, my := 0\<rparr>" events_init "[0xFA, 0x19, 0x80, 5]"]
  by (simp add: mouse_ok_def mouse_example_def vbe_example_def)

text \<open>
  A packet moves the position by its two movements, cut off at the edges; the first byte of a
  packet is recognised by bit 3.
\<close>

lemma mouse_packet_moves:
  assumes "0 < sint (width v)" "0 < sint (height v)" "mouse_cycle m = 0" "length (mouse_byte m) = 3" "b0 AND 0x08 \<noteq> 0"
  shows "let m' = fst (fold (mouse_handler v) [b0, b1, b2] (m, q)) in
    mx m' = max 0 (min (sint (width v) - 1) (mx m + mouse_move b1 (b0 AND 0x10 \<noteq> 0))) \<and>
    my m' = max 0 (min (sint (height v) - 1) (my m - mouse_move b2 (b0 AND 0x20 \<noteq> 0))) \<and>
    buttons m' = b0 AND 0x07 \<and> mouse_cycle m' = 0"
proof -
  have l: "mouse_byte m = [mouse_byte m ! 0, mouse_byte m ! 1, mouse_byte m ! 2]"
    using assms(4) by (auto simp: numeral_3_eq_3 numeral_2_eq_2 length_Suc_conv)
  have "(mouse_byte m)[0 := b0, Suc 0 := b1, Suc (Suc 0) := b2] = [b0, b1, b2]"
    by (subst l) simp
  then show ?thesis using assms
    by (simp add: mouse_handler_def mouse_packet_def Let_def sint_pred max_def min_def)
qed

text \<open>
  A movement of 128 to 255 steps to the right is sent as a byte above 127 with the sign flag clear;
  the conversion to \<^verbatim>\<open>int8_t\<close> reads it as a movement to the left.
\<close>

lemma mouse_move_misread: "mouse_move 0x80 False = - 128"
  by (simp add: mouse_move_def)

lemma mouse_move_left: "mouse_move 0x05 True = - 251"
  by (simp add: mouse_move_def)

section \<open>Keys\<close>

text \<open>Letters are capitals when exactly one of shift and caps lock is on.\<close>

lemma shift_char_letter: "\<lbrakk>97 \<le> c; c \<le> 122\<rbrakk> \<Longrightarrow> shift_char c = c - 32"
  by (auto simp: shift_char_def)

lemma make_code: "scancode < 0x80 \<Longrightarrow> scancode AND 0x80 = (0 :: u8)"
proof -
  assume "scancode < 0x80"
  then have "unat (drop_bit 7 scancode) = 0" by (simp add: unat_drop_bit word_less_nat_alt)
  then have "\<not> bit scancode 7" by (simp add: bit_iff_odd_drop_bit unat_eq_0)
  then show ?thesis using bit_and_exp [of scancode 7] by simp
qed

lemma keyboard_letter:
  assumes "scancode < 0x3A" "97 \<le> scancode_ascii ! unat scancode" "scancode_ascii ! unat scancode \<le> 122" "\<not> e0_prefix k"
    "scancode \<noteq> 0x2A" "scancode \<noteq> 0x36" "scancode \<noteq> SC_TAB"
  shows "keyboard_callback scancode k = k\<lparr>kevents := events_push \<lparr>ev_type = EVENT_KEY_DOWN,
    data1 = ucast (if shift_pressed k \<noteq> caps_lock_on k then scancode_ascii ! unat scancode - 32
      else scancode_ascii ! unat scancode), data2 = 0, data3 = 0\<rparr> (kevents k)\<rparr>"
proof -
  let ?c = "scancode_ascii ! unat scancode"
  have lt: "scancode < 0x80" "scancode \<noteq> 0xE0" "scancode \<noteq> 0x3A" using assms(1) by (auto simp: word_less_nat_alt)
  have len: "unat scancode < length scancode_ascii" using assms(1) by (simp add: scancode_ascii_def word_less_nat_alt)
  have c: "?c \<noteq> 0" using assms(2) by auto
  show ?thesis using assms lt len c
    by (simp add: keyboard_callback_def Let_def make_code shift_char_letter)
qed

text \<open>
  A keyboard wraps an arrow key in a release and a press of shift while shift is held; both carry
  the prefix, but only the press is ignored: the key stays held and shift is off.
\<close>

lemma shift_lost_after_arrow:
  "\<not> shift_pressed (fold keyboard_callback [0x2A, 0xE0, 0xAA, 0xE0, 0x48, 0xE0, 0xC8, 0xE0, 0x2A] k)"
  by (simp add: keyboard_callback_def Let_def SC_UP_ARROW_def SC_DOWN_ARROW_def SC_LEFT_ARROW_def SC_RIGHT_ARROW_def)

end
