(* ===== verification/Khazar_Wm.thy ===== *)
theory Khazar_Wm
  imports Khazar_Input "HOL-Library.Multiset"
begin

text \<open>
  The window manager, \<^verbatim>\<open>kernel/core/gui/wm.c\<close>: the doubly linked list of windows in the order
  they cover each other, the events of keyboard and mouse, the notepads and the terminals behind
  the windows. Windows and their data live in the kernel heap; \<open>windows s a\<close> is the
  \<^verbatim>\<open>window_t\<close> and \<open>notepads s a\<close> the \<^verbatim>\<open>notepad_data_t\<close> at address \<open>a\<close>. The console numbers its
  terminals: the terminal at address \<open>d\<close> has the number \<open>unat d\<close> and the default terminal the
  number 0. Coordinates are mathematical integers. A write through a null pointer and a loop
  that does not end are the result \<open>None\<close>. Function pointers are values of \<open>wm_action\<close>.
\<close>

section \<open>Windows, menu and icons\<close>

datatype window_type_t =
    WINDOW_TYPE_MAIN | WINDOW_TYPE_TERMINAL | WINDOW_TYPE_FILES | WINDOW_TYPE_SETTINGS
  | WINDOW_TYPE_ABOUT | WINDOW_TYPE_TASKMAN | WINDOW_TYPE_NOTEPAD

record window_t =
  wx :: int
  wy :: int
  ww :: int
  wh :: int
  title :: "u8 list"
  is_dragging :: bool
  is_resizing :: bool
  drag_off_x :: int
  drag_off_y :: int
  is_visible :: bool
  is_minimized :: bool
  is_maximized :: bool
  last_x :: int
  last_y :: int
  last_w :: int
  last_h :: int
  wtype :: window_type_t
  wdata :: addr
  wnext :: addr
  wprev :: addr

record notepad_data_t =
  ntext :: "u8 list"
  ncursor :: int

text \<open>The functions that menu entries, icons and start menu entries of the desktop point to.\<close>

datatype wm_action = Open_terminal | Open_notepad | Open_files | Open_settings | Open_about

record menu_item_t =
  mi_label :: "u8 list"
  mi_action :: wm_action

record menu_t =
  menu_x :: int
  menu_y :: int
  menu_w :: int
  menu_h :: int
  item_count :: int
  items :: "menu_item_t list"
  menu_visible :: bool

record desktop_icon_t =
  icon_x :: int
  icon_y :: int
  icon_label :: "u8 list"
  icon_action :: wm_action
  hovered :: bool

text \<open>
  \<^verbatim>\<open>sizeof\<close> of the three structures on the 32-bit target: 64 bytes of title, eleven 4-byte fields
  and pointers besides the four leading ones, and five flags padded to 8 bytes; 2048 bytes of
  text and a cursor; a \<^verbatim>\<open>virtual_terminal_t\<close> of 4010 bytes padded to 4.
\<close>

definition SIZEOF_WINDOW :: u32 where "SIZEOF_WINDOW = 128"
definition SIZEOF_NOTEPAD :: u32 where "SIZEOF_NOTEPAD = 2052"
definition SIZEOF_TERMINAL :: u32 where "SIZEOF_TERMINAL = 4012"

text \<open>A window whose bytes are all zero, as \<^verbatim>\<open>memset\<close> leaves it.\<close>

definition window_zero :: window_t where
  "window_zero = \<lparr>wx = 0, wy = 0, ww = 0, wh = 0, title = replicate 64 0, is_dragging = False,
     is_resizing = False, drag_off_x = 0, drag_off_y = 0, is_visible = False, is_minimized = False,
     is_maximized = False, last_x = 0, last_y = 0, last_w = 0, last_h = 0, wtype = WINDOW_TYPE_MAIN,
     wdata = 0, wnext = 0, wprev = 0\<rparr>"

text \<open>\<open>desktop_icons\<close> are the first \<^verbatim>\<open>desktop_icon_count\<close> entries of the array of six.\<close>

record wm_state =
  windows :: "addr \<Rightarrow> window_t"
  notepads :: "addr \<Rightarrow> notepad_data_t"
  windows_head :: addr
  windows_tail :: addr
  active_window :: addr
  desktop_menu :: menu_t
  desktop_icons :: "desktop_icon_t list"
  con :: console
  key_tty :: tty
  events :: event_queue
  heap :: kheap_state

definition upd_win :: "addr \<Rightarrow> (window_t \<Rightarrow> window_t) \<Rightarrow> wm_state \<Rightarrow> wm_state" where
  "upd_win a f s = s\<lparr>windows := (windows s)(a := f (windows s a))\<rparr>"

text \<open>\<^verbatim>\<open>kstrncpy(field, "literal", n)\<close> on an array of characters in a structure.\<close>

definition set_label :: "nat \<Rightarrow> string \<Rightarrow> u8 list \<Rightarrow> u8 list" where
  "set_label n lit field = take n (map of_char lit @ replicate n 0) @ drop n field"

section \<open>The list of windows\<close>

definition wm_alloc_window :: "wm_state \<Rightarrow> (addr \<times> wm_state) option" where
  "wm_alloc_window s0 =
     do { (win, h) \<leftarrow> kmalloc SIZEOF_WINDOW (heap s0);
          let s = s0\<lparr>heap := h\<rparr>;
          if win = 0 then Some (0, s)
          else let s1 = upd_win win (\<lambda>_. window_zero\<lparr>wnext := windows_head s\<rparr>) s;
                   s2 = (if windows_head s1 \<noteq> 0 then upd_win (windows_head s1) (\<lambda>w. w\<lparr>wprev := win\<rparr>) s1 else s1);
                   s3 = s2\<lparr>windows_head := win\<rparr>;
                   s4 = (if windows_tail s3 = 0 then s3\<lparr>windows_tail := win\<rparr> else s3)
               in Some (win, s4) }"

text \<open>
  The two lines both \<^verbatim>\<open>wm_bring_to_front\<close> and \<^verbatim>\<open>wm_close_window\<close> have: the neighbours are linked to
  each other.
\<close>

definition wm_unlink :: "addr \<Rightarrow> wm_state \<Rightarrow> wm_state" where
  "wm_unlink win s =
     (let s1 = (if wprev (windows s win) \<noteq> 0
                then upd_win (wprev (windows s win)) (\<lambda>w. w\<lparr>wnext := wnext (windows s win)\<rparr>) s else s)
      in if wnext (windows s1 win) \<noteq> 0
         then upd_win (wnext (windows s1 win)) (\<lambda>w. w\<lparr>wprev := wprev (windows s1 win)\<rparr>) s1 else s1)"

definition wm_bring_to_front :: "addr \<Rightarrow> wm_state \<Rightarrow> wm_state" where
  "wm_bring_to_front win s =
     (if win = 0 \<or> win = windows_head s then s
      else let s1 = wm_unlink win s;
               s2 = (if win = windows_tail s1 then s1\<lparr>windows_tail := wprev (windows s1 win)\<rparr> else s1);
               s3 = upd_win win (\<lambda>w. w\<lparr>wnext := windows_head s2, wprev := 0\<rparr>) s2;
               s4 = (if windows_head s3 \<noteq> 0 then upd_win (windows_head s3) (\<lambda>w. w\<lparr>wprev := win\<rparr>) s3 else s3)
           in s4\<lparr>windows_head := win\<rparr>)"

definition wm_activate_terminal :: "addr \<Rightarrow> wm_state \<Rightarrow> wm_state" where
  "wm_activate_terminal win s =
     (if win \<noteq> 0 \<and> wtype (windows s win) = WINDOW_TYPE_TERMINAL \<and> wdata (windows s win) \<noteq> 0
      then s\<lparr>con := terminal_set_active (Some (unat (wdata (windows s win)))) (con s)\<rparr>
      else s\<lparr>con := terminal_set_active (Some 0) (con s)\<rparr>)"

definition wm_close_window :: "addr \<Rightarrow> wm_state \<Rightarrow> wm_state" where
  "wm_close_window win s =
     (if win = 0 then s
      else let w = windows s win;
               closing_active_terminal =
                 (wtype w = WINDOW_TYPE_TERMINAL \<and> wdata w \<noteq> 0 \<and> active_terminal (con s) = unat (wdata w));
               s1 = (if wdata w \<noteq> 0 \<and> (wtype w = WINDOW_TYPE_NOTEPAD \<or> wtype w = WINDOW_TYPE_TERMINAL)
                     then s\<lparr>heap := kfree (wdata w) (heap s)\<rparr> else s);
               s2 = wm_unlink win s1;
               s3 = (if win = windows_head s2 then s2\<lparr>windows_head := wnext (windows s2 win)\<rparr> else s2);
               s4 = (if win = windows_tail s3 then s3\<lparr>windows_tail := wprev (windows s3 win)\<rparr> else s3);
               s5 = s4\<lparr>heap := kfree win (heap s4)\<rparr>
           in if closing_active_terminal then wm_activate_terminal (windows_head s5) s5 else s5)"

text \<open>The screen's width and height are unsigned; the height less the task bar is computed so.\<close>

definition toggle_maximized :: "vbe_info \<Rightarrow> window_t \<Rightarrow> window_t" where
  "toggle_maximized v w =
     (if is_maximized w
      then w\<lparr>wx := last_x w, wy := last_y w, ww := last_w w, wh := last_h w, is_maximized := False\<rparr>
      else w\<lparr>last_x := wx w, last_y := wy w, last_w := ww w, last_h := wh w,
             wx := 0, wy := 0, ww := sint (width v), wh := sint (height v - 40), is_maximized := True\<rparr>)"

definition wm_maximize_window :: "vbe_info \<Rightarrow> addr \<Rightarrow> wm_state \<Rightarrow> wm_state" where
  "wm_maximize_window v win s = (if win = 0 then s else upd_win win (toggle_maximized v) s)"

definition wm_minimize_window :: "addr \<Rightarrow> wm_state \<Rightarrow> wm_state" where
  "wm_minimize_window win s =
     (if win = 0 then s else upd_win win (\<lambda>w. w\<lparr>is_visible := False, is_minimized := True\<rparr>) s)"

section \<open>Opening windows\<close>

definition place :: "int \<Rightarrow> int \<Rightarrow> int \<Rightarrow> int \<Rightarrow> window_type_t \<Rightarrow> string \<Rightarrow> window_t \<Rightarrow> window_t" where
  "place x y w h t name win =
     win\<lparr>wx := x, wy := y, ww := w, wh := h, is_visible := True, wtype := t, title := set_label 63 name (title win)\<rparr>"

definition wm_open_terminal :: "wm_state \<Rightarrow> wm_state option" where
  "wm_open_terminal s =
     do { (w, s1) \<leftarrow> wm_alloc_window s;
          if w = 0 then Some s1
          else do { let s2 = upd_win w (place 60 60 660 420 WINDOW_TYPE_TERMINAL ''Khazar Terminal'') s1;
                    (d, h) \<leftarrow> kmalloc SIZEOF_TERMINAL (heap s2);
                    let s3 = s2\<lparr>heap := h\<rparr>;
                    if d = 0 then Some (wm_close_window w s3)
                    else let s4 = s3\<lparr>con := upd_term (unat d) terminal_init_virtual (con s3)\<rparr>;
                             s5 = upd_win w (\<lambda>w. w\<lparr>wdata := d\<rparr>) s4
                         in Some (wm_activate_terminal w s5) } }"

text \<open>The result of the second allocation is not tested: \<^verbatim>\<open>memset\<close> then writes at address 0.\<close>

definition wm_open_notepad :: "wm_state \<Rightarrow> wm_state option" where
  "wm_open_notepad s =
     do { (w, s1) \<leftarrow> wm_alloc_window s;
          if w = 0 then Some s1
          else do { let s2 = upd_win w (place 200 100 500 400 WINDOW_TYPE_NOTEPAD ''Khazar Notepad'') s1;
                    (d, h) \<leftarrow> kmalloc SIZEOF_NOTEPAD (heap s2);
                    if d = 0 then None
                    else let s3 = s2\<lparr>heap := h, notepads := (notepads s2)(d := \<lparr>ntext = replicate 2048 0, ncursor = 0\<rparr>)\<rparr>
                         in Some (upd_win w (\<lambda>w. w\<lparr>wdata := d\<rparr>) s3) } }"

definition wm_open_files :: "wm_state \<Rightarrow> wm_state option" where
  "wm_open_files s =
     do { (w, s1) \<leftarrow> wm_alloc_window s;
          Some (if w = 0 then s1 else upd_win w (place 150 130 460 380 WINDOW_TYPE_FILES ''Fayllar'') s1) }"

definition wm_open_settings :: "wm_state \<Rightarrow> wm_state option" where
  "wm_open_settings s =
     do { (w, s1) \<leftarrow> wm_alloc_window s;
          Some (if w = 0 then s1 else upd_win w (place 220 160 420 320 WINDOW_TYPE_SETTINGS ''Ayarlar'') s1) }"

definition wm_open_about :: "wm_state \<Rightarrow> wm_state option" where
  "wm_open_about s =
     do { (w, s1) \<leftarrow> wm_alloc_window s;
          Some (if w = 0 then s1 else upd_win w (place 260 210 420 240 WINDOW_TYPE_ABOUT ''Hakkinda'') s1) }"

text \<open>A call through one of the function pointers.\<close>

primrec run_action :: "wm_action \<Rightarrow> wm_state \<Rightarrow> wm_state option" where
  "run_action Open_terminal = wm_open_terminal"
| "run_action Open_notepad = wm_open_notepad"
| "run_action Open_files = wm_open_files"
| "run_action Open_settings = wm_open_settings"
| "run_action Open_about = wm_open_about"

definition wm_refresh_desktop :: "wm_state \<Rightarrow> wm_state" where "wm_refresh_desktop s = s"

definition windows_get_head :: "wm_state \<Rightarrow> addr" where "windows_get_head s = windows_head s"

definition wm_show_menu :: "int \<Rightarrow> int \<Rightarrow> wm_state \<Rightarrow> wm_state" where
  "wm_show_menu x y s = s\<lparr>desktop_menu := (desktop_menu s)\<lparr>menu_x := x, menu_y := y, menu_visible := True\<rparr>\<rparr>"

section \<open>Start-up\<close>

text \<open>The label of a new icon is copied over what the array entry held, of which \<open>old\<close> is the text.\<close>

definition desktop_icon_add :: "u8 list \<Rightarrow> int \<Rightarrow> int \<Rightarrow> string \<Rightarrow> wm_action \<Rightarrow> wm_state \<Rightarrow> wm_state" where
  "desktop_icon_add old x y name fn s =
     (if length (desktop_icons s) \<ge> 6 then s
      else s\<lparr>desktop_icons := desktop_icons s @
             [\<lparr>icon_x = x, icon_y = y, icon_label = set_label 19 name old, icon_action = fn, hovered = False\<rparr>]\<rparr>)"

definition menu_item :: "string \<Rightarrow> wm_action \<Rightarrow> menu_item_t \<Rightarrow> menu_item_t" where
  "menu_item name fn i = i\<lparr>mi_label := set_label 31 name (mi_label i), mi_action := fn\<rparr>"

text \<open>The icon array is static and zero before the first call.\<close>

definition wm_init :: "wm_state \<Rightarrow> wm_state" where
  "wm_init s =
     (let z = replicate 20 0;
          s1 = s\<lparr>windows_head := 0, windows_tail := 0, desktop_icons := []\<rparr>;
          s2 = desktop_icon_add z 20 50 ''Terminal'' Open_terminal s1;
          s3 = desktop_icon_add z 20 140 ''Fayllar'' Open_files s2;
          s4 = desktop_icon_add z 20 230 ''Notepad'' Open_notepad s3;
          s5 = desktop_icon_add z 20 320 ''Hakkinda'' Open_about s4;
          m = desktop_menu s5;
          m1 = m\<lparr>menu_visible := False, menu_w := 160, item_count := 4,
                 items := (items m)[0 := menu_item ''Terminal Ac'' Open_terminal (items m ! 0),
                                    1 := menu_item ''Notepad'' Open_notepad (items m ! 1),
                                    2 := menu_item ''Fayllar'' Open_files (items m ! 2),
                                    3 := menu_item ''Hakkinda'' Open_about (items m ! 3)]\<rparr>
      in s5\<lparr>desktop_menu := m1\<lparr>menu_h := item_count m1 * 22 + 10\<rparr>\<rparr>)"

section \<open>Events\<close>

definition notepad_key :: "u8 \<Rightarrow> notepad_data_t \<Rightarrow> notepad_data_t" where
  "notepad_key c d =
     (if c = 8
      then if ncursor d > 0
           then d\<lparr>ncursor := ncursor d - 1, ntext := (ntext d)[nat (ncursor d - 1) := 0]\<rparr> else d
      else if ncursor d < 2047
      then d\<lparr>ncursor := ncursor d + 1, ntext := (ntext d)[nat (ncursor d) := c, nat (ncursor d + 1) := 0]\<rparr>
      else d)"

definition wm_handle_key :: "u8 \<Rightarrow> wm_state \<Rightarrow> wm_state option" where
  "wm_handle_key c s =
     (let w = windows s (windows_head s) in
      if windows_head s = 0 then Some (s\<lparr>key_tty := tty_putc c (key_tty s)\<rparr>)
      else if wtype w = WINDOW_TYPE_TERMINAL
      then let s1 = wm_activate_terminal (windows_head s) s in Some (s1\<lparr>key_tty := tty_putc c (key_tty s1)\<rparr>)
      else if wtype w = WINDOW_TYPE_NOTEPAD
      then if wdata w = 0 then None
           else Some (s\<lparr>notepads := (notepads s)(wdata w := notepad_key c (notepads s (wdata w)))\<rparr>)
      else Some s)"

text \<open>The parts of a window a click can hit, in the order the loop tests them.\<close>

datatype hit = Hit_close | Hit_maximize | Hit_minimize | Hit_resize | Hit_title | Hit_focus

definition window_hit :: "int \<Rightarrow> int \<Rightarrow> window_t \<Rightarrow> hit option" where
  "window_hit px py w =
     (if px \<ge> wx w + ww w - 22 \<and> py \<ge> wy w + 4 \<and> px \<le> wx w + ww w - 4 \<and> py \<le> wy w + 22 then Some Hit_close
      else if px \<ge> wx w + ww w - 42 \<and> py \<ge> wy w + 4 \<and> px \<le> wx w + ww w - 24 \<and> py \<le> wy w + 22 then Some Hit_maximize
      else if px \<ge> wx w + ww w - 62 \<and> py \<ge> wy w + 4 \<and> px \<le> wx w + ww w - 44 \<and> py \<le> wy w + 22 then Some Hit_minimize
      else if px \<ge> wx w + ww w - 16 \<and> px \<le> wx w + ww w \<and> py \<ge> wy w + wh w - 16 \<and> py \<le> wy w + wh w then Some Hit_resize
      else if px \<ge> wx w \<and> px \<le> wx w + ww w \<and> py \<ge> wy w \<and> py \<le> wy w + 25 then Some Hit_title
      else if px \<ge> wx w \<and> px \<le> wx w + ww w \<and> py \<ge> wy w \<and> py \<le> wy w + wh w then Some Hit_focus
      else None)"

text \<open>
  The loop over the windows stops at the first visible window that is hit, and acts on it; the search
  and the action are separate here.
\<close>

partial_function (option) hit_loop :: "int \<Rightarrow> int \<Rightarrow> wm_state \<Rightarrow> addr \<Rightarrow> (addr \<times> hit) option option" where
  "hit_loop px py s cur =
     (if cur = 0 then Some None
      else if \<not> is_visible (windows s cur) then hit_loop px py s (wnext (windows s cur))
      else case window_hit px py (windows s cur) of
             Some r \<Rightarrow> Some (Some (cur, r))
           | None \<Rightarrow> hit_loop px py s (wnext (windows s cur)))"

primrec hit_action :: "vbe_info \<Rightarrow> int \<Rightarrow> int \<Rightarrow> addr \<Rightarrow> hit \<Rightarrow> wm_state \<Rightarrow> wm_state" where
  "hit_action v px py cur Hit_close s = wm_close_window cur s"
| "hit_action v px py cur Hit_maximize s = wm_maximize_window v cur s"
| "hit_action v px py cur Hit_minimize s = wm_minimize_window cur s"
| "hit_action v px py cur Hit_resize s =
     (let s1 = wm_bring_to_front cur s
      in if \<not> is_maximized (windows s1 cur)
         then (upd_win cur (\<lambda>w. w\<lparr>is_resizing := True\<rparr>) s1)\<lparr>active_window := cur\<rparr> else s1)"
| "hit_action v px py cur Hit_title s =
     (let s1 = wm_activate_terminal cur (wm_bring_to_front cur s)
      in if \<not> is_maximized (windows s1 cur)
         then (upd_win cur (\<lambda>w. w\<lparr>is_dragging := True, drag_off_x := px - wx w, drag_off_y := py - wy w\<rparr>) s1)
                \<lparr>active_window := cur\<rparr>
         else s1)"
| "hit_action v px py cur Hit_focus s = wm_activate_terminal cur (wm_bring_to_front cur s)"

text \<open>Division of C rounds towards zero: the five pixels above the first entry belong to it.\<close>

definition menu_click :: "int \<Rightarrow> int \<Rightarrow> wm_state \<Rightarrow> (bool \<times> wm_state) option" where
  "menu_click px py s =
     (let m = desktop_menu s;
          hide = (\<lambda>s. s\<lparr>desktop_menu := (desktop_menu s)\<lparr>menu_visible := False\<rparr>\<rparr>)
      in if \<not> menu_visible m then Some (False, s)
         else if px \<ge> menu_x m \<and> px < menu_x m + menu_w m \<and> py \<ge> menu_y m \<and> py < menu_y m + menu_h m
         then let idx = (py - menu_y m - 5) sdiv 22
              in do { s1 \<leftarrow> (if idx \<ge> 0 \<and> idx < item_count m then run_action (mi_action (items m ! nat idx)) s else Some s);
                      Some (True, hide s1) }
         else Some (False, hide s))"

definition over_icon :: "int \<Rightarrow> int \<Rightarrow> desktop_icon_t \<Rightarrow> bool" where
  "over_icon px py i \<longleftrightarrow> px \<ge> icon_x i \<and> px < icon_x i + 48 \<and> py \<ge> icon_y i \<and> py < icon_y i + 48"

definition icon_click :: "int \<Rightarrow> int \<Rightarrow> wm_state \<Rightarrow> wm_state option" where
  "icon_click px py s =
     (case find (over_icon px py) (desktop_icons s) of
        None \<Rightarrow> Some s
      | Some i \<Rightarrow> run_action (icon_action i) s)"

definition wm_click :: "vbe_info \<Rightarrow> u32 \<Rightarrow> int \<Rightarrow> int \<Rightarrow> wm_state \<Rightarrow> wm_state option" where
  "wm_click v button px py s =
     do { (handled, s1) \<leftarrow> menu_click px py s;
          let (handled, s2) = (if button = 2 then (True, wm_show_menu px py s1) else (handled, s1));
          if handled then Some s2
          else do { r \<leftarrow> hit_loop px py s2 (windows_head s2);
                    case r of
                      Some (cur, h) \<Rightarrow> Some (hit_action v px py cur h s2)
                    | None \<Rightarrow> icon_click px py s2 } }"

definition wm_release :: "wm_state \<Rightarrow> wm_state" where
  "wm_release s =
     (let s1 = (if active_window s \<noteq> 0
                then upd_win (active_window s) (\<lambda>w. w\<lparr>is_dragging := False, is_resizing := False\<rparr>) s else s)
      in s1\<lparr>active_window := 0\<rparr>)"

definition wm_event :: "vbe_info \<Rightarrow> event_t \<Rightarrow> wm_state \<Rightarrow> wm_state option" where
  "wm_event v ev s =
     (case ev_type ev of
        EVENT_KEY_DOWN \<Rightarrow> wm_handle_key (ucast (data1 ev)) s
      | EVENT_MOUSE_CLICK \<Rightarrow> wm_click v (data1 ev) (sint (data2 ev)) (sint (data3 ev)) s
      | EVENT_MOUSE_RELEASE \<Rightarrow> Some (wm_release s)
      | _ \<Rightarrow> Some s)"

partial_function (option) event_loop :: "vbe_info \<Rightarrow> wm_state \<Rightarrow> wm_state option" where
  "event_loop v s =
     (case events_pop (events s) of
        None \<Rightarrow> Some s
      | Some (ev, q) \<Rightarrow> do { s1 \<leftarrow> wm_event v ev (s\<lparr>events := q\<rparr>); event_loop v s1 })"

text \<open>The window being dragged or resized follows the mouse.\<close>

definition follow_mouse :: "int \<Rightarrow> int \<Rightarrow> window_t \<Rightarrow> window_t" where
  "follow_mouse px py w =
     (if is_dragging w then w\<lparr>wx := px - drag_off_x w, wy := py - drag_off_y w\<rparr>
      else if is_resizing w
      then let w1 = w\<lparr>ww := px - wx w, wh := py - wy w\<rparr>;
               w2 = (if ww w1 < 100 then w1\<lparr>ww := 100\<rparr> else w1)
           in if wh w2 < 60 then w2\<lparr>wh := 60\<rparr> else w2
      else w)"

definition wm_track :: "int \<Rightarrow> int \<Rightarrow> wm_state \<Rightarrow> wm_state" where
  "wm_track px py s =
     (if active_window s \<noteq> 0 then upd_win (active_window s) (follow_mouse px py) s else s)"

definition wm_hover :: "int \<Rightarrow> int \<Rightarrow> wm_state \<Rightarrow> wm_state" where
  "wm_hover px py s = s\<lparr>desktop_icons := map (\<lambda>i. i\<lparr>hovered := over_icon px py i\<rparr>) (desktop_icons s)\<rparr>"

definition wm_update :: "vbe_info \<Rightarrow> mouse_state \<Rightarrow> wm_state \<Rightarrow> wm_state option" where
  "wm_update v ms s =
     do { s1 \<leftarrow> event_loop v s;
          Some (wm_hover (mx ms) (my ms) (wm_track (mx ms) (my ms) s1)) }"

section \<open>The linked list stands for the order of the windows\<close>

definition head_of :: "addr \<Rightarrow> addr list \<Rightarrow> addr" where
  "head_of q ws = (case ws of [] \<Rightarrow> q | a # _ \<Rightarrow> a)"

definition end_of :: "addr \<Rightarrow> addr list \<Rightarrow> addr" where
  "end_of p ws = (if ws = [] then p else last ws)"

text \<open>The windows \<open>ws\<close> are linked in this order, from predecessor \<open>p\<close> to successor \<open>q\<close>.\<close>

primrec wseg :: "(addr \<Rightarrow> window_t) \<Rightarrow> addr \<Rightarrow> addr list \<Rightarrow> addr \<Rightarrow> bool" where
  "wseg w p [] q \<longleftrightarrow> True"
| "wseg w p (a # ws) q \<longleftrightarrow> wprev (w a) = p \<and> wnext (w a) = head_of q ws \<and> wseg w a ws q"

definition wlist :: "wm_state \<Rightarrow> addr list \<Rightarrow> bool" where
  "wlist s ws \<longleftrightarrow> wseg (windows s) 0 ws 0 \<and> distinct ws \<and> 0 \<notin> set ws \<and>
     windows_head s = head_of 0 ws \<and> windows_tail s = end_of 0 ws"

text \<open>A window without its links.\<close>

definition content :: "window_t \<Rightarrow> window_t" where
  "content w = w\<lparr>wnext := 0, wprev := 0\<rparr>"

text \<open>
  The desktop: the windows with their addresses, from the front to the back.
\<close>

definition desktop :: "wm_state \<Rightarrow> (addr \<times> window_t) list \<Rightarrow> bool" where
  "desktop s z \<longleftrightarrow> wlist s (map fst z) \<and> (\<forall>(a, w) \<in> set z. content (windows s a) = w)"

lemma head_of_simps [simp]: "head_of q [] = q" "head_of q (a # ws) = a"
  by (simp_all add: head_of_def)

lemma end_of_simps [simp]: "end_of p [] = p" "end_of p (ws @ [a]) = a" "end_of p (a # ws) = end_of a ws"
  by (simp_all add: end_of_def)

lemma head_of_append: "head_of q (xs @ ys) = head_of (head_of q ys) xs"
  by (cases xs) simp_all

lemma end_of_append: "end_of p (xs @ ys) = end_of (end_of p xs) ys"
  by (simp add: end_of_def)

lemma head_of_in: "head_of 0 ws \<noteq> 0 \<Longrightarrow> head_of 0 ws \<in> set ws"
  by (cases ws) simp_all

lemma end_of_in: "end_of 0 ws \<noteq> 0 \<Longrightarrow> end_of 0 ws \<in> set ws"
  by (simp add: end_of_def split: if_splits)

lemma wseg_append: "wseg w p (xs @ ys) q \<longleftrightarrow> wseg w p xs (head_of q ys) \<and> wseg w (end_of p xs) ys q"
  by (induction xs arbitrary: p) (auto simp: head_of_append)

lemma wseg_cong:
  "(\<And>a. a \<in> set ws \<Longrightarrow> wnext (w' a) = wnext (w a) \<and> wprev (w' a) = wprev (w a)) \<Longrightarrow> wseg w' p ws q = wseg w p ws q"
  by (induction ws arbitrary: p) auto

lemma wseg_frame [simp]: "a \<notin> set ws \<Longrightarrow> wseg (w(a := u)) p ws q = wseg w p ws q"
  by (rule wseg_cong) auto

definition link_next :: "addr \<Rightarrow> addr \<Rightarrow> (addr \<Rightarrow> window_t) \<Rightarrow> addr \<Rightarrow> window_t" where
  "link_next a n w = (if a = 0 then w else w(a := (w a)\<lparr>wnext := n\<rparr>))"

definition link_prev :: "addr \<Rightarrow> addr \<Rightarrow> (addr \<Rightarrow> window_t) \<Rightarrow> addr \<Rightarrow> window_t" where
  "link_prev a p w = (if a = 0 then w else w(a := (w a)\<lparr>wprev := p\<rparr>))"

lemma link_content [simp]: "content (link_next a n w b) = content (w b)" "content (link_prev a n w b) = content (w b)"
  by (simp_all add: link_next_def link_prev_def content_def)

lemma content_links [simp]:
  "content (w\<lparr>wnext := n\<rparr>) = content w" "content (w\<lparr>wprev := p\<rparr>) = content w"
  "content (w\<lparr>wnext := n, wprev := p\<rparr>) = content w"
  by (simp_all add: content_def)

lemma link_other [simp]: "b \<noteq> a \<Longrightarrow> link_next a n w b = w b" "b \<noteq> a \<Longrightarrow> link_prev a n w b = w b"
  by (simp_all add: link_next_def link_prev_def)

lemma wseg_link_other:
  assumes "a \<in> set ws \<longrightarrow> a = 0"
  shows "wseg (link_next a n w) p ws q = wseg w p ws q" "wseg (link_prev a n w) p ws q = wseg w p ws q"
  using assms by (auto simp: link_next_def link_prev_def)

lemma wseg_link_prev:
  "\<lbrakk>wseg w p ws q; distinct ws; 0 \<notin> set ws\<rbrakk> \<Longrightarrow> wseg (link_prev (head_of 0 ws) p' w) p' ws q"
  by (cases ws) (auto simp: link_prev_def)

lemma wseg_link_next:
  assumes "wseg w p ws q" "distinct ws" "0 \<notin> set ws"
  shows "wseg (link_next (end_of 0 ws) q' w) p ws q'"
  using assms by (cases ws rule: rev_cases) (auto simp: wseg_append link_next_def)

subsection \<open>Taking a window out and putting it in front\<close>

lemma wlist_split:
  assumes "wlist s (xs @ a # ys)"
  shows "wseg (windows s) 0 xs a" "wseg (windows s) a ys 0" "wprev (windows s a) = end_of 0 xs"
    "wnext (windows s a) = head_of 0 ys" "a \<noteq> 0" "a \<notin> set xs" "a \<notin> set ys" "distinct xs" "distinct ys"
    "0 \<notin> set xs" "0 \<notin> set ys" "set xs \<inter> set ys = {}"
  using assms by (auto simp: wlist_def wseg_append)

lemma unlink_windows:
  assumes "wlist s (xs @ a # ys)"
  shows "windows (wm_unlink a s) = link_prev (head_of 0 ys) (end_of 0 xs) (link_next (end_of 0 xs) (head_of 0 ys) (windows s))"
proof -
  note S = wlist_split [OF assms]
  have "end_of 0 xs \<noteq> a" using S(5,6) end_of_in [of xs] by fastforce
  then show ?thesis using S(3,4) by (auto simp: wm_unlink_def upd_win_def link_prev_def link_next_def)
qed

lemma unlink_fields [simp]:
  "windows_head (wm_unlink a s) = windows_head s" "windows_tail (wm_unlink a s) = windows_tail s"
  "active_window (wm_unlink a s) = active_window s" "con (wm_unlink a s) = con s" "heap (wm_unlink a s) = heap s"
  "notepads (wm_unlink a s) = notepads s" "desktop_menu (wm_unlink a s) = desktop_menu s"
  "desktop_icons (wm_unlink a s) = desktop_icons s" "key_tty (wm_unlink a s) = key_tty s" "events (wm_unlink a s) = events s"
  by (simp_all add: wm_unlink_def upd_win_def Let_def)

lemma unlink_seg:
  assumes "wlist s (xs @ a # ys)"
  shows "wseg (windows (wm_unlink a s)) 0 (xs @ ys) 0" "windows (wm_unlink a s) a = windows s a"
    "content (windows (wm_unlink a s) b) = content (windows s b)"
proof -
  note S = wlist_split [OF assms]
  have d: "end_of 0 xs \<in> set ys \<longrightarrow> end_of 0 xs = 0" "head_of 0 ys \<in> set xs \<longrightarrow> head_of 0 ys = 0"
    using S(12) end_of_in [of xs] head_of_in [of ys] by blast+
  have "a \<noteq> end_of 0 xs" "a \<noteq> head_of 0 ys" using S(5,6,7) end_of_in [of xs] head_of_in [of ys] by blast+
  then show "windows (wm_unlink a s) a = windows s a" by (simp add: unlink_windows [OF assms])
  show "content (windows (wm_unlink a s) b) = content (windows s b)" by (simp add: unlink_windows [OF assms])
  have "wseg (link_next (end_of 0 xs) (head_of 0 ys) (windows s)) 0 xs (head_of 0 ys)"
    by (rule wseg_link_next [OF S(1,8,10)])
  moreover have "wseg (link_next (end_of 0 xs) (head_of 0 ys) (windows s)) a ys 0"
    using S(2) d by (simp add: wseg_link_other)
  ultimately show "wseg (windows (wm_unlink a s)) 0 (xs @ ys) 0"
    unfolding unlink_windows [OF assms] wseg_append using d wseg_link_prev [OF _ S(9,11)] by (simp add: wseg_link_other)
qed

lemma bring_windows:
  assumes "wlist s (xs @ a # ys)" "xs \<noteq> []"
  shows "windows (wm_bring_to_front a s) =
    link_prev (head_of 0 xs) a ((windows (wm_unlink a s))(a := (windows s a)\<lparr>wnext := head_of 0 xs, wprev := 0\<rparr>))"
    "windows_head (wm_bring_to_front a s) = a" "windows_tail (wm_bring_to_front a s) = end_of 0 (a # xs @ ys)"
proof -
  note S = wlist_split [OF assms(1)]
  obtain x xs' where xs: "xs = x # xs'" using assms(2) by (cases xs) auto
  have h: "windows_head s = x" "windows_tail s = end_of 0 (xs @ a # ys)" "x \<noteq> a" "x \<noteq> 0"
    using assms(1) xs S by (auto simp: wlist_def)
  have t: "a = windows_tail s \<longleftrightarrow> ys = []" using h(2) S(7) end_of_in [of ys] by (auto simp: end_of_append end_of_def)
  show "windows (wm_bring_to_front a s) =
    link_prev (head_of 0 xs) a ((windows (wm_unlink a s))(a := (windows s a)\<lparr>wnext := head_of 0 xs, wprev := 0\<rparr>))"
    using h xs S(5) unlink_seg(2) [OF assms(1)]
    by (simp add: wm_bring_to_front_def Let_def upd_win_def link_prev_def)
  show "windows_head (wm_bring_to_front a s) = a"
    using h S(5) by (simp add: wm_bring_to_front_def Let_def upd_win_def)
  show "windows_tail (wm_bring_to_front a s) = end_of 0 (a # xs @ ys)"
    using h S(3,5) t xs unlink_seg(2) [OF assms(1)]
    by (auto simp: wm_bring_to_front_def Let_def upd_win_def end_of_append end_of_def)
qed

lemma wlist_bring:
  assumes "wlist s (xs @ a # ys)"
  shows "wlist (wm_bring_to_front a s) (a # xs @ ys)" "content (windows (wm_bring_to_front a s) b) = content (windows s b)"
proof -
  note S = wlist_split [OF assms]
  have "wlist (wm_bring_to_front a s) (a # xs @ ys) \<and> content (windows (wm_bring_to_front a s) b) = content (windows s b)"
  proof (cases xs)
    case Nil
    then have "wm_bring_to_front a s = s" using assms by (simp add: wm_bring_to_front_def wlist_def)
    then show ?thesis using Nil assms by simp
  next
    case (Cons x xs')
    then have ne: "xs \<noteq> []" by simp
    note W = bring_windows [OF assms ne]
    have d: "distinct (xs @ ys)" "0 \<notin> set (xs @ ys)" "a \<notin> set (xs @ ys)" "head_of 0 xs = head_of 0 (xs @ ys)"
      using S Cons by (auto simp: head_of_append)
    have "wseg (windows (wm_bring_to_front a s)) a (xs @ ys) 0"
      unfolding W(1) d(4) by (rule wseg_link_prev [OF _ d(1,2)]) (use d(3) unlink_seg(1) [OF assms] in simp)
    moreover have "windows (wm_bring_to_front a s) a = (windows s a)\<lparr>wnext := head_of 0 xs, wprev := 0\<rparr>"
      unfolding W(1) using S(6) Cons by simp
    moreover have "content (windows (wm_bring_to_front a s) b) = content (windows s b)"
      unfolding W(1) using unlink_seg(3) [OF assms] by simp
    ultimately show ?thesis using W(2,3) d S(5) Cons by (auto simp: wlist_def)
  qed
  then show "wlist (wm_bring_to_front a s) (a # xs @ ys)"
    "content (windows (wm_bring_to_front a s) b) = content (windows s b)" by simp_all
qed

lemma bring_fields [simp]:
  "active_window (wm_bring_to_front a s) = active_window s" "con (wm_bring_to_front a s) = con s"
  "heap (wm_bring_to_front a s) = heap s" "notepads (wm_bring_to_front a s) = notepads s"
  "desktop_menu (wm_bring_to_front a s) = desktop_menu s" "desktop_icons (wm_bring_to_front a s) = desktop_icons s"
  "key_tty (wm_bring_to_front a s) = key_tty s" "events (wm_bring_to_front a s) = events s"
  by (simp_all add: wm_bring_to_front_def upd_win_def Let_def)

lemma activate_fields [simp]:
  "windows (wm_activate_terminal a s) = windows s" "windows_head (wm_activate_terminal a s) = windows_head s"
  "windows_tail (wm_activate_terminal a s) = windows_tail s"
  "active_window (wm_activate_terminal a s) = active_window s"
  "heap (wm_activate_terminal a s) = heap s" "notepads (wm_activate_terminal a s) = notepads s"
  "desktop_menu (wm_activate_terminal a s) = desktop_menu s" "desktop_icons (wm_activate_terminal a s) = desktop_icons s"
  "key_tty (wm_activate_terminal a s) = key_tty s" "events (wm_activate_terminal a s) = events s"
  by (simp_all add: wm_activate_terminal_def)

lemma unlink_heap: "wm_unlink a (s\<lparr>heap := h\<rparr>) = (wm_unlink a s)\<lparr>heap := h\<rparr>"
  by (simp add: wm_unlink_def upd_win_def Let_def)

text \<open>What closing does before it looks for another terminal.\<close>

definition close_core :: "addr \<Rightarrow> wm_state \<Rightarrow> wm_state" where
  "close_core a s = s\<lparr>windows := windows (wm_unlink a s),
     windows_head := (if a = windows_head s then wnext (windows (wm_unlink a s) a) else windows_head s),
     windows_tail := (if a = windows_tail s then wprev (windows (wm_unlink a s) a) else windows_tail s),
     heap := kfree a (if wdata (windows s a) \<noteq> 0 \<and> (wtype (windows s a) = WINDOW_TYPE_NOTEPAD \<or>
        wtype (windows s a) = WINDOW_TYPE_TERMINAL) then kfree (wdata (windows s a)) (heap s) else heap s)\<rparr>"

lemma unlink_eq: "wm_unlink a s = s\<lparr>windows := windows (wm_unlink a s)\<rparr>"
  by (simp add: wm_unlink_def upd_win_def Let_def)

lemma if_update:
  "(if c then s\<lparr>heap := h\<rparr> else s) = s\<lparr>heap := if c then h else heap s\<rparr>"
  "(if c then s\<lparr>windows_head := a\<rparr> else s) = s\<lparr>windows_head := if c then a else windows_head s\<rparr>"
  "(if c then s\<lparr>windows_tail := a\<rparr> else s) = s\<lparr>windows_tail := if c then a else windows_tail s\<rparr>"
  by simp_all

lemma close_eq:
  assumes "a \<noteq> 0"
  shows "wm_close_window a s =
    (if wtype (windows s a) = WINDOW_TYPE_TERMINAL \<and> wdata (windows s a) \<noteq> 0 \<and>
        active_terminal (con s) = unat (wdata (windows s a))
     then wm_activate_terminal (windows_head (close_core a s)) (close_core a s) else close_core a s)"
proof -
  define w where "w = windows (wm_unlink a s)"
  have u: "wm_unlink a s = s\<lparr>windows := w\<rparr>" unfolding w_def by (rule unlink_eq)
  have uh: "wm_unlink a (s\<lparr>heap := h\<rparr>) = s\<lparr>heap := h, windows := w\<rparr>" for h
    unfolding unlink_heap u by simp
  show ?thesis unfolding wm_close_window_def Let_def if_update uh close_core_def w_def [symmetric]
    using assms by simp
qed

lemma close_fields:
  assumes "a \<noteq> 0"
  shows "windows (wm_close_window a s) = windows (close_core a s)"
    "windows_head (wm_close_window a s) = windows_head (close_core a s)"
    "windows_tail (wm_close_window a s) = windows_tail (close_core a s)"
    "heap (wm_close_window a s) = heap (close_core a s)"
    "active_window (wm_close_window a s) = active_window s" "notepads (wm_close_window a s) = notepads s"
    "desktop_menu (wm_close_window a s) = desktop_menu s" "desktop_icons (wm_close_window a s) = desktop_icons s"
    "key_tty (wm_close_window a s) = key_tty s" "events (wm_close_window a s) = events s"
  unfolding close_eq [OF assms] by (simp_all add: close_core_def)

lemma wlist_close:
  assumes "wlist s (xs @ a # ys)"
  shows "wlist (wm_close_window a s) (xs @ ys)" "content (windows (wm_close_window a s) b) = content (windows s b)"
proof -
  note S = wlist_split [OF assms] and U = unlink_seg [OF assms]
  note C = close_fields(1,2,3) [OF S(5), of s, unfolded close_core_def, simplified]
  have hd: "windows_head s = head_of 0 (xs @ a # ys)" and tl: "windows_tail s = end_of 0 (xs @ a # ys)"
    using assms by (simp_all add: wlist_def)
  have "windows_head (wm_close_window a s) = head_of 0 (xs @ ys)"
    using hd S(4,6) U(2) C(2) by (cases xs) auto
  moreover have "a = windows_tail s \<longleftrightarrow> ys = []"
    using tl S(7) by (cases ys rule: rev_cases) (auto simp: end_of_append)
  then have "windows_tail (wm_close_window a s) = end_of 0 (xs @ ys)"
    using tl S(3) U(2) C(3) by (cases ys rule: rev_cases) (auto simp: end_of_append)
  ultimately show "wlist (wm_close_window a s) (xs @ ys)"
    using U(1) C(1) S by (auto simp: wlist_def)
  show "content (windows (wm_close_window a s) b) = content (windows s b)"
    using U(3) C(1) by simp
qed

subsection \<open>The operations on the order of the windows\<close>

definition remove_win :: "addr \<Rightarrow> (addr \<times> window_t) list \<Rightarrow> (addr \<times> window_t) list" where
  "remove_win a z = filter (\<lambda>x. fst x \<noteq> a) z"

definition raise_win :: "addr \<Rightarrow> (addr \<times> window_t) list \<Rightarrow> (addr \<times> window_t) list" where
  "raise_win a z = filter (\<lambda>x. fst x = a) z @ remove_win a z"

definition change_win :: "addr \<Rightarrow> (window_t \<Rightarrow> window_t) \<Rightarrow> (addr \<times> window_t) list \<Rightarrow> (addr \<times> window_t) list" where
  "change_win a f z = map (\<lambda>(b, w). (b, if b = a then f w else w)) z"

text \<open>A change of a window that neither reads nor writes its links.\<close>

definition keeps_links :: "(window_t \<Rightarrow> window_t) \<Rightarrow> bool" where
  "keeps_links f \<longleftrightarrow> (\<forall>w n p. f (w\<lparr>wnext := n, wprev := p\<rparr>) = (f w)\<lparr>wnext := n, wprev := p\<rparr>)"

lemma keeps_links_D:
  assumes "keeps_links f"
  shows "wnext (f w) = wnext w" "wprev (f w) = wprev w" "content (f w) = f (content w)"
proof -
  have "f (w\<lparr>wnext := wnext w, wprev := wprev w\<rparr>) = (f w)\<lparr>wnext := wnext w, wprev := wprev w\<rparr>"
    using assms unfolding keeps_links_def by blast
  then have e: "f w = (f w)\<lparr>wnext := wnext w, wprev := wprev w\<rparr>" by simp
  show "wnext (f w) = wnext w" "wprev (f w) = wprev w"
    by (subst e, simp)+
  show "content (f w) = f (content w)"
    using assms by (simp add: keeps_links_def content_def)
qed

lemma in_desktop_split:
  assumes "desktop s z" "(a, w) \<in> set z"
  obtains xs ys where "z = xs @ (a, w) # ys" "a \<notin> fst ` set xs" "a \<notin> fst ` set ys" "a \<noteq> 0"
    "remove_win a z = xs @ ys" "raise_win a z = (a, w) # xs @ ys"
proof -
  obtain xs ys where z: "z = xs @ (a, w) # ys" using assms(2) by (auto dest: split_list)
  have n: "a \<notin> fst ` set xs" "a \<notin> fst ` set ys" "a \<noteq> 0" using assms(1) z by (auto simp: desktop_def wlist_def)
  have k: "filter (\<lambda>x. fst x \<noteq> a) xs = xs" "filter (\<lambda>x. fst x \<noteq> a) ys = ys"
    "filter (\<lambda>x. fst x = a) xs = []" "filter (\<lambda>x. fst x = a) ys = []"
    using n by (auto simp: filter_id_conv filter_empty_conv image_iff)
  show ?thesis using that [OF z n] k z by (simp add: remove_win_def raise_win_def)
qed

lemma desktop_bring:
  assumes "desktop s z" "(a, w) \<in> set z"
  shows "desktop (wm_bring_to_front a s) (raise_win a z)"
proof -
  obtain xs ys where z: "z = xs @ (a, w) # ys" "raise_win a z = (a, w) # xs @ ys"
    by (rule in_desktop_split [OF assms])
  then have "wlist s (map fst xs @ a # map fst ys)" using assms(1) by (simp add: desktop_def)
  from wlist_bring [OF this] show ?thesis using assms(1) z by (auto simp: desktop_def)
qed

lemma desktop_close:
  assumes "desktop s z" "(a, w) \<in> set z"
  shows "desktop (wm_close_window a s) (remove_win a z)"
proof -
  obtain xs ys where z: "z = xs @ (a, w) # ys" "remove_win a z = xs @ ys"
    by (rule in_desktop_split [OF assms])
  then have "wlist s (map fst xs @ a # map fst ys)" using assms(1) by (simp add: desktop_def)
  from wlist_close [OF this] show ?thesis using assms(1) z by (auto simp: desktop_def)
qed

lemma change_win_fst [simp]: "map fst (change_win a f z) = map fst z"
  by (simp add: change_win_def split_def)

lemma change_win_set: "(b, u) \<in> set (change_win a f z) \<longleftrightarrow> (\<exists>w. (b, w) \<in> set z \<and> u = (if b = a then f w else w))"
  by (auto simp: change_win_def image_iff split: prod.splits)

lemma desktop_change:
  assumes "desktop s z" "keeps_links f"
  shows "desktop (upd_win a f s) (change_win a f z)"
proof -
  have "wseg (windows (upd_win a f s)) p ws q = wseg (windows s) p ws q" for p ws q
    by (rule wseg_cong) (simp add: upd_win_def keeps_links_D [OF assms(2)])
  then have "wlist (upd_win a f s) (map fst z)" using assms(1) by (simp add: desktop_def wlist_def) (simp add: upd_win_def)
  moreover have "content (windows (upd_win a f s) b) = u" if m: "(b, u) \<in> set (change_win a f z)" for b u
  proof -
    obtain w where "(b, w) \<in> set z" "u = (if b = a then f w else w)" using m unfolding change_win_set by blast
    then show ?thesis using assms(1) keeps_links_D(3) [OF assms(2)] by (auto simp: desktop_def upd_win_def)
  qed
  ultimately show ?thesis by (auto simp: desktop_def)
qed

text \<open>Fields of the window manager the order of the windows does not depend on.\<close>

lemma desktop_cong:
  "\<lbrakk>windows s' = windows s; windows_head s' = windows_head s; windows_tail s' = windows_tail s\<rbrakk> \<Longrightarrow>
     desktop s' z = desktop s z"
  by (simp add: desktop_def wlist_def)

lemma desktop_activate [simp]: "desktop (wm_activate_terminal a s) z = desktop s z"
  by (rule desktop_cong) simp_all

lemma desktop_update [simp]:
  "desktop (s\<lparr>active_window := a\<rparr>) z = desktop s z" "desktop (s\<lparr>con := c\<rparr>) z = desktop s z"
  "desktop (s\<lparr>heap := h\<rparr>) z = desktop s z" "desktop (s\<lparr>notepads := n\<rparr>) z = desktop s z"
  "desktop (s\<lparr>key_tty := t\<rparr>) z = desktop s z" "desktop (s\<lparr>events := q\<rparr>) z = desktop s z"
  "desktop (s\<lparr>desktop_menu := m\<rparr>) z = desktop s z" "desktop (s\<lparr>desktop_icons := i\<rparr>) z = desktop s z"
  by (simp_all add: desktop_def wlist_def)

definition push_window :: "addr \<Rightarrow> wm_state \<Rightarrow> wm_state" where
  "push_window p s = s\<lparr>windows := link_prev (windows_head s) p ((windows s)(p := window_zero\<lparr>wnext := windows_head s\<rparr>)),
     windows_head := p, windows_tail := (if windows_tail s = 0 then p else windows_tail s)\<rparr>"

lemma wm_alloc_window_eq:
  assumes "kmalloc SIZEOF_WINDOW (heap s) = Some (p, h)"
  shows "wm_alloc_window s = Some (p, if p = 0 then s\<lparr>heap := h\<rparr> else push_window p (s\<lparr>heap := h\<rparr>))"
  using assms by (auto simp: wm_alloc_window_def Let_def upd_win_def push_window_def link_prev_def)

lemma desktop_push:
  assumes "desktop s z" "p \<notin> fst ` set z" "p \<noteq> 0"
  shows "desktop (push_window p s) ((p, window_zero) # z)"
proof -
  have W: "wlist s (map fst z)" "0 \<notin> fst ` set z" "distinct (map fst z)" using assms(1) by (auto simp: desktop_def wlist_def)
  let ?w = "(windows s)(p := window_zero\<lparr>wnext := windows_head s\<rparr>)"
  have h: "windows_head s = head_of 0 (map fst z)" "windows_tail s = end_of 0 (map fst z)"
    using W(1) by (simp_all add: wlist_def)
  have ph: "p \<noteq> windows_head s" using assms(2,3) h(1) head_of_in [of "map fst z"] by auto
  have "wseg ?w 0 (map fst z) 0" using W(1) assms(2) by (simp add: wlist_def)
  then have "wseg (link_prev (windows_head s) p ?w) p (map fst z) 0"
    unfolding h(1) using wseg_link_prev W(2,3) by simp
  moreover have "end_of p (map fst z) = (if windows_tail s = 0 then p else windows_tail s)"
    using h(2) W(2) last_in_set [of "map fst z"] by (auto simp: end_of_def simp del: last_in_set)
  moreover have "content (link_prev (windows_head s) p ?w a) = u" if "(a, u) \<in> set z" for a u
    using that assms(1,2) by (force simp: desktop_def)
  moreover have "link_prev (windows_head s) p ?w p = window_zero\<lparr>wnext := windows_head s\<rparr>" using ph by simp
  moreover have "content window_zero = window_zero" by (simp add: content_def window_zero_def)
  moreover have "wprev (window_zero\<lparr>wnext := x\<rparr>) = 0" for x by (simp add: window_zero_def)
  ultimately show ?thesis using W assms h by (auto simp: desktop_def wlist_def push_window_def)
qed

section \<open>The memory behind the windows\<close>

definition data_block :: "window_t \<Rightarrow> (addr \<times> u32) list" where
  "data_block w =
     (if wdata w = 0 then []
      else if wtype w = WINDOW_TYPE_NOTEPAD then [(wdata w, SIZEOF_NOTEPAD)]
      else if wtype w = WINDOW_TYPE_TERMINAL then [(wdata w, SIZEOF_TERMINAL)] else [])"

definition blocks :: "(addr \<times> window_t) list \<Rightarrow> (addr \<times> u32) list" where
  "blocks z = concat (map (\<lambda>(a, w). (a, SIZEOF_WINDOW) # data_block w) z)"

text \<open>
  The blocks are different allocations of the heap, each at least as large as asked for. The heap
  may have other users.
\<close>

definition mem_ok :: "nat \<Rightarrow> nat \<Rightarrow> kheap_state \<Rightarrow> (addr \<times> u32) list \<Rightarrow> bool" where
  "mem_ok lo hi h bs \<longleftrightarrow> distinct (map fst bs) \<and>
     (\<exists>L. kheap_live lo hi h L \<and> (\<forall>(a, n) \<in> set bs. 0 < n \<and> (\<exists>m. (a, m) \<in> L \<and> n \<le> m)))"

lemma mem_ok_alloc:
  assumes "mem_ok lo hi h bs" "0 < n" "unat n \<le> 2 ^ 32 - 8"
  obtains (null) "kmalloc n h = Some (0, h)"
    | (ok) p h' where "kmalloc n h = Some (p, h')" "p \<noteq> 0" "mem_ok lo hi h' ((p, n) # bs)"
proof -
  obtain L where L: "kheap_live lo hi h L" "\<forall>(a, n) \<in> set bs. 0 < n \<and> (\<exists>m. (a, m) \<in> L \<and> n \<le> m)"
    and d: "distinct (map fst bs)" using assms(1) by (auto simp: mem_ok_def)
  obtain p h' where k: "kmalloc n h = Some (p, h')" using kheap.alloc_total [OF L(1)] by blast
  show ?thesis
  proof (cases "p = 0")
    case True
    then show ?thesis using null k kheap.alloc_null [OF L(1), of n h'] by simp
  next
    case False
    obtain m where m: "kheap_live lo hi h' (insert (p, m) L)" "\<forall>x \<in> L. disj x (p, m)" "n \<le> m"
      using kheap.alloc_live [OF L(1) k False] assms(3) by blast
    have "p \<notin> fst ` set bs"
    proof
      assume "p \<in> fst ` set bs"
      then obtain k where "(p, k) \<in> set bs" by auto
      then obtain j where j: "(p, j) \<in> L" "0 < k" "k \<le> j" using L(2) by fastforce
      then have "disj (p, j) (p, m)" using m(2) by blast
      moreover have "0 < unat j" "0 < unat m" using j(2,3) m(3) assms(2) by (simp_all add: word_less_nat_alt word_le_nat_alt)
      ultimately show False by (simp add: disj_def)
    qed
    then have "mem_ok lo hi h' ((p, n) # bs)" using m d L(2) assms(2) unfolding mem_ok_def by fastforce
    then show ?thesis using ok k False by blast
  qed
qed

lemma mem_ok_free:
  assumes "mem_ok lo hi h (xs @ (p, n) # ys)"
  shows "mem_ok lo hi (kfree p h) (xs @ ys)"
proof -
  obtain L where L: "kheap_live lo hi h L" "\<forall>(a, n) \<in> set (xs @ (p, n) # ys). 0 < n \<and> (\<exists>m. (a, m) \<in> L \<and> n \<le> m)"
    and d: "distinct (map fst (xs @ (p, n) # ys))" using assms by (auto simp: mem_ok_def)
  then obtain m where m: "(p, m) \<in> L" by auto
  have "\<exists>m. (a, m) \<in> L - {(p, m')} \<and> k \<le> m" if mem: "(a, k) \<in> set (xs @ ys)" for a k m'
  proof -
    have "a \<noteq> p" using mem d by (auto simp: image_iff)
    moreover obtain m where "(a, m) \<in> L" "k \<le> m" using bspec [OF L(2), of "(a, k)"] mem by auto
    ultimately show ?thesis by blast
  qed
  moreover have "0 < k" if "(a, k) \<in> set (xs @ ys)" for a k using bspec [OF L(2), of "(a, k)"] that by auto
  ultimately have "\<forall>(a, k) \<in> set (xs @ ys). 0 < k \<and> (\<exists>m'. (a, m') \<in> L - {(p, m)} \<and> k \<le> m')" by blast
  moreover have "distinct (map fst (xs @ ys))" using d by auto
  ultimately show ?thesis using kheap.free_live [OF L(1) m] unfolding mem_ok_def by blast
qed

lemma blocks_simps [simp]:
  "blocks [] = []" "blocks ((a, w) # z) = (a, SIZEOF_WINDOW) # data_block w @ blocks z" "blocks (z @ y) = blocks z @ blocks y"
  by (simp_all add: blocks_def)

lemma blocks_fst: "fst ` set z \<subseteq> fst ` set (blocks z)"
  by (force simp: blocks_def)

lemma mem_ok_perm:
  assumes "mem_ok lo hi h bs" "mset bs' = mset bs"
  shows "mem_ok lo hi h bs'"
proof -
  have "distinct (map fst bs') = distinct (map fst bs)"
    using assms(2) by (metis mset_map mset_eq_imp_distinct_iff)
  then show ?thesis using assms mset_eq_setD [OF assms(2)] by (simp add: mem_ok_def)
qed

text \<open>Closing gives back the window's block and the block of its data.\<close>

lemma mem_ok_close:
  assumes "mem_ok lo hi (heap s) (blocks z)" "desktop s z" "(a, w) \<in> set z"
  shows "mem_ok lo hi (heap (wm_close_window a s)) (blocks (remove_win a z))"
proof -
  obtain xs ys where z: "z = xs @ (a, w) # ys" "a \<noteq> 0" "remove_win a z = xs @ ys"
    by (rule in_desktop_split [OF assms(2,3)])
  have w: "content (windows s a) = w" using assms(2,3) by (auto simp: desktop_def)
  have f: "wdata (windows s a) = wdata w" "wtype (windows s a) = wtype w"
    unfolding w [symmetric] by (simp_all add: content_def)
  let ?h = "if wdata w \<noteq> 0 \<and> (wtype w = WINDOW_TYPE_NOTEPAD \<or> wtype w = WINDOW_TYPE_TERMINAL)
    then kfree (wdata w) (heap s) else heap s"
  have "mem_ok lo hi ?h ((blocks xs @ [(a, SIZEOF_WINDOW)]) @ blocks ys)"
    using assms(1) z mem_ok_free [of lo hi "heap s" "blocks xs @ [(a, SIZEOF_WINDOW)]" "wdata w"]
    by (auto simp: data_block_def split: if_splits)
  then have "mem_ok lo hi (kfree a ?h) (blocks (xs @ ys))" using mem_ok_free by simp
  moreover have "heap (wm_close_window a s) = kfree a ?h" 
    by (simp add: close_fields(4) [OF z(2)] close_core_def f)
  ultimately show ?thesis by (simp only: z(3))
qed

end
