(* ===== verification/Khazar_Desktop.thy ===== *)
theory Khazar_Desktop
  imports Khazar_Wm
begin

text \<open>
  The window manager keeps its desktop in order: the invariant over the linked list of windows, the
  heap blocks behind them, the terminals and the notepads, that every operation and every event keeps;
  what clicks and keys do in terms of the order of the windows; and that the event loop ends.
\<close>


section \<open>The invariant of the desktop\<close>

definition win_ok :: "window_t \<Rightarrow> bool" where
  "win_ok w \<longleftrightarrow> 100 \<le> ww w \<and> 60 \<le> wh w \<and> (is_maximized w \<longrightarrow> 100 \<le> last_w w \<and> 60 \<le> last_h w) \<and>
     (wtype w = WINDOW_TYPE_NOTEPAD \<or> wtype w = WINDOW_TYPE_TERMINAL \<longrightarrow> wdata w \<noteq> 0)"

definition note_ok :: "notepad_data_t \<Rightarrow> bool" where
  "note_ok d \<longleftrightarrow> length (ntext d) = 2048 \<and> 0 \<le> ncursor d \<and> ncursor d \<le> 2047 \<and> ntext d ! nat (ncursor d) = 0"

text \<open>The terminals whose memory is in use: the default one and those of the terminal windows.\<close>

definition live_terminals :: "(addr \<times> window_t) list \<Rightarrow> nat set" where
  "live_terminals z = insert 0 {unat (wdata w) | a w. (a, w) \<in> set z \<and> wtype w = WINDOW_TYPE_TERMINAL}"

definition wm_inv :: "nat \<Rightarrow> nat \<Rightarrow> wm_state \<Rightarrow> (addr \<times> window_t) list \<Rightarrow> bool" where
  "wm_inv lo hi s z \<longleftrightarrow> desktop s z \<and> mem_ok lo hi (heap s) (blocks z) \<and> (\<forall>(a, w) \<in> set z. win_ok w) \<and>
     (\<forall>(a, w) \<in> set z. wtype w = WINDOW_TYPE_NOTEPAD \<longrightarrow> note_ok (notepads s (wdata w))) \<and>
     active_terminal (con s) \<in> live_terminals z \<and> terminal_buffer (con s) = active_terminal (con s) \<and>
     active_window s \<in> insert 0 (fst ` set z) \<and> item_count (desktop_menu s) = 4 \<and> length (items (desktop_menu s)) = 8"

lemma set_active_terminal [simp]:
  "active_terminal (terminal_set_active (Some n) c) = n" "terminal_buffer (terminal_set_active (Some n) c) = n"
  by (simp_all add: terminal_set_active_def terminal_flush_to_hardware_def cursor_at_active_def update_cursor_def)

lemma content_sel [simp]:
  "wx (content w) = wx w" "wy (content w) = wy w" "ww (content w) = ww w" "wh (content w) = wh w"
  "wtype (content w) = wtype w" "wdata (content w) = wdata w" "is_visible (content w) = is_visible w"
  "is_maximized (content w) = is_maximized w" "is_minimized (content w) = is_minimized w"
  by (simp_all add: content_def)

lemma window_hit_content: "window_hit px py (content w) = window_hit px py w"
  by (simp only: window_hit_def content_sel)

lemma desktop_content: "\<lbrakk>desktop s z; (a, w) \<in> set z\<rbrakk> \<Longrightarrow> content (windows s a) = w"
  by (auto simp: desktop_def)

lemma desktop_window:
  assumes "desktop s z" "(a, w) \<in> set z"
  shows "wtype (windows s a) = wtype w" "wdata (windows s a) = wdata w" "is_visible (windows s a) = is_visible w"
    "is_maximized (windows s a) = is_maximized w" "is_minimized (windows s a) = is_minimized w"
    "window_hit px py (windows s a) = window_hit px py w" "a \<noteq> 0"
proof -
  have w: "w = content (windows s a)" using desktop_content [OF assms] by simp
  show "wtype (windows s a) = wtype w" "wdata (windows s a) = wdata w" "is_visible (windows s a) = is_visible w"
    "is_maximized (windows s a) = is_maximized w" "is_minimized (windows s a) = is_minimized w"
    "window_hit px py (windows s a) = window_hit px py w"
    unfolding w window_hit_content by simp_all
  show "a \<noteq> 0" using assms by (force simp: desktop_def wlist_def)
qed

lemma windows_head_in: "\<lbrakk>desktop s z; windows_head s \<noteq> 0\<rbrakk> \<Longrightarrow> \<exists>w z'. z = (windows_head s, w) # z'"
  by (cases z) (auto simp: desktop_def wlist_def)

lemma activate_live:
  assumes "desktop s z" "a = 0 \<or> a \<in> fst ` set z"
  shows "active_terminal (con (wm_activate_terminal a s)) \<in> live_terminals z"
    "terminal_buffer (con (wm_activate_terminal a s)) = active_terminal (con (wm_activate_terminal a s))"
proof -
  show "active_terminal (con (wm_activate_terminal a s)) \<in> live_terminals z"
  proof (cases "a = 0")
    case True then show ?thesis by (simp add: wm_activate_terminal_def live_terminals_def)
  next
    case False
    then obtain w where "(a, w) \<in> set z" using assms(2) by auto
    then show ?thesis using desktop_window [OF assms(1), of a w]
      by (auto simp: wm_activate_terminal_def live_terminals_def)
  qed
  show "terminal_buffer (con (wm_activate_terminal a s)) = active_terminal (con (wm_activate_terminal a s))"
    by (simp add: wm_activate_terminal_def)
qed

subsection \<open>Operations on an open window\<close>

text \<open>Raising a window changes nothing but the order.\<close>

lemma raise_perm:
  assumes "desktop s z" "(a, w) \<in> set z"
  shows "set (raise_win a z) = set z" "mset (blocks (raise_win a z)) = mset (blocks z)"
proof -
  obtain xs ys where "z = xs @ (a, w) # ys" "raise_win a z = (a, w) # xs @ ys" by (rule in_desktop_split [OF assms])
  then show "set (raise_win a z) = set z" "mset (blocks (raise_win a z)) = mset (blocks z)" by auto
qed

lemma wm_inv_bring:
  assumes "wm_inv lo hi s z" "(a, w) \<in> set z"
  shows "wm_inv lo hi (wm_bring_to_front a s) (raise_win a z)"
proof -
  have d: "desktop s z" using assms(1) by (simp add: wm_inv_def)
  note P = raise_perm [OF d assms(2)]
  have "mem_ok lo hi (heap s) (blocks (raise_win a z))"
    using mem_ok_perm [OF _ P(2)] assms(1) by (simp add: wm_inv_def)
  moreover have "live_terminals (raise_win a z) = live_terminals z" by (simp add: live_terminals_def P(1))
  ultimately show ?thesis using desktop_bring [OF d assms(2)] assms(1) by (simp add: wm_inv_def P(1))
qed

lemma wm_inv_activate:
  assumes "wm_inv lo hi s z" "a = 0 \<or> a \<in> fst ` set z"
  shows "wm_inv lo hi (wm_activate_terminal a s) z"
proof -
  have "desktop s z" using assms(1) by (simp add: wm_inv_def)
  from activate_live [OF this assms(2)] show ?thesis using assms(1) by (simp add: wm_inv_def)
qed

text \<open>A change that keeps the window's links, type and data.\<close>

definition keeps_data :: "(window_t \<Rightarrow> window_t) \<Rightarrow> bool" where
  "keeps_data f \<longleftrightarrow> (\<forall>w. wtype (f w) = wtype w \<and> wdata (f w) = wdata w)"

lemma keeps_data_blocks: "keeps_data f \<Longrightarrow> blocks (change_win a f z) = blocks z"
  by (induction z) (auto simp: keeps_data_def change_win_def data_block_def)

lemma wm_inv_change:
  assumes "wm_inv lo hi s z" "keeps_links f" "keeps_data f" "\<And>w. win_ok w \<Longrightarrow> win_ok (f w)"
  shows "wm_inv lo hi (upd_win a f s) (change_win a f z)"
proof -
  have d: "desktop (upd_win a f s) (change_win a f z)" using desktop_change [OF _ assms(2)] assms(1) by (simp add: wm_inv_def)
  have k: "wtype (f w) = wtype w" "wdata (f w) = wdata w" for w using assms(3) by (simp_all add: keeps_data_def)
  have "live_terminals (change_win a f z) = live_terminals z"
    unfolding live_terminals_def change_win_set using k by (auto split: if_splits) metis+
  moreover have "fst ` set (change_win a f z) = fst ` set z" by (metis change_win_fst set_map)
  moreover have "\<forall>(b, w) \<in> set (change_win a f z). win_ok w"
    "\<forall>(b, w) \<in> set (change_win a f z). wtype w = WINDOW_TYPE_NOTEPAD \<longrightarrow> note_ok (notepads s (wdata w))"
    using assms(1,4) k by (auto simp: wm_inv_def change_win_set split: if_splits) fastforce+
  ultimately show ?thesis using d assms(1) keeps_data_blocks [OF assms(3)] by (simp add: wm_inv_def upd_win_def)
qed

text \<open>Closing: the active terminal is not one whose memory was just freed.\<close>

lemma remove_win_set: "(b, u) \<in> set (remove_win a z) \<longleftrightarrow> (b, u) \<in> set z \<and> b \<noteq> a"
  by (auto simp: remove_win_def)

lemma activate_con: "con (wm_activate_terminal a s) =
    terminal_set_active (Some (if a \<noteq> 0 \<and> wtype (windows s a) = WINDOW_TYPE_TERMINAL then unat (wdata (windows s a)) else 0)) (con s)"
  by (simp add: wm_activate_terminal_def)

lemma close_con:
  assumes "a \<noteq> 0"
  shows "con (wm_close_window a s) =
    (if wtype (windows s a) = WINDOW_TYPE_TERMINAL \<and> wdata (windows s a) \<noteq> 0 \<and>
        active_terminal (con s) = unat (wdata (windows s a))
     then con (wm_activate_terminal (windows_head (close_core a s)) (close_core a s)) else con s)"
  unfolding close_eq [OF assms] by (simp add: close_core_def)

lemma close_core_con [simp]: "con (close_core a s) = con s"
  by (simp add: close_core_def)

lemma wm_inv_close:
  assumes "wm_inv lo hi s z" "(a, w) \<in> set z" "active_window s \<noteq> a"
  shows "wm_inv lo hi (wm_close_window a s) (remove_win a z)"
proof -
  have d: "desktop s z" using assms(1) by (simp add: wm_inv_def)
  note W = desktop_window [OF d assms(2)] and D = desktop_close [OF d assms(2)]
  have "active_terminal (con (wm_close_window a s)) \<in> live_terminals (remove_win a z) \<and>
    terminal_buffer (con (wm_close_window a s)) = active_terminal (con (wm_close_window a s))"
  proof (cases "wtype w = WINDOW_TYPE_TERMINAL \<and> wdata w \<noteq> 0 \<and> active_terminal (con s) = unat (wdata w)")
    case True
    have D': "desktop (close_core a s) (remove_win a z)"
      using D desktop_cong [of "wm_close_window a s" "close_core a s"] close_fields(1,2,3) [OF W(7), of s] by simp
    have "windows_head (close_core a s) = 0 \<or> windows_head (close_core a s) \<in> fst ` set (remove_win a z)"
      using windows_head_in [OF D'] by force
    from activate_live [OF D' this] show ?thesis using close_con [OF W(7), of s] W True by simp
  next
    case False
    then have c: "con (wm_close_window a s) = con s" using close_con [OF W(7), of s] W by auto
    have "active_terminal (con s) \<in> live_terminals z" using assms(1) by (simp add: wm_inv_def)
    moreover have "w' = w" if "(a, w') \<in> set z" for w' using desktop_content [OF d] assms(2) that by blast
    ultimately have "active_terminal (con s) \<in> live_terminals (remove_win a z)"
      using False unfolding live_terminals_def remove_win_set by (auto simp: unat_eq_0) metis+
    then show ?thesis using c assms(1) by (simp add: wm_inv_def)
  qed
  moreover have "active_window s \<in> insert 0 (fst ` set (remove_win a z))"
    using assms(1,3) by (auto simp: wm_inv_def remove_win_def)
  moreover have "\<forall>(b, w) \<in> set (remove_win a z). win_ok w"
    "\<forall>(b, w) \<in> set (remove_win a z). wtype w = WINDOW_TYPE_NOTEPAD \<longrightarrow> note_ok (notepads s (wdata w))"
    using assms(1) by (auto simp: wm_inv_def remove_win_def)
  ultimately show ?thesis
    using D mem_ok_close [OF _ d assms(2)] assms(1) close_fields(5,6,7) [OF W(7), of s] by (simp add: wm_inv_def)
qed

subsection \<open>Opening windows\<close>

lemma sizes: "0 < SIZEOF_WINDOW" "unat SIZEOF_WINDOW \<le> 2 ^ 32 - 8" "0 < SIZEOF_NOTEPAD" "unat SIZEOF_NOTEPAD \<le> 2 ^ 32 - 8"
  "0 < SIZEOF_TERMINAL" "unat SIZEOF_TERMINAL \<le> 2 ^ 32 - 8"
  by (simp_all add: SIZEOF_WINDOW_def SIZEOF_NOTEPAD_def SIZEOF_TERMINAL_def)

lemma push_fields [simp]:
  "active_window (push_window p s) = active_window s" "con (push_window p s) = con s"
  "heap (push_window p s) = heap s" "notepads (push_window p s) = notepads s"
  "desktop_menu (push_window p s) = desktop_menu s" "desktop_icons (push_window p s) = desktop_icons s"
  "key_tty (push_window p s) = key_tty s" "events (push_window p s) = events s"
  by (simp_all add: push_window_def)

lemma upd_win_fields [simp]:
  "windows_head (upd_win a f s) = windows_head s" "windows_tail (upd_win a f s) = windows_tail s"
  "active_window (upd_win a f s) = active_window s" "con (upd_win a f s) = con s"
  "heap (upd_win a f s) = heap s" "notepads (upd_win a f s) = notepads s"
  "desktop_menu (upd_win a f s) = desktop_menu s" "desktop_icons (upd_win a f s) = desktop_icons s"
  "key_tty (upd_win a f s) = key_tty s" "events (upd_win a f s) = events s"
  by (simp_all add: upd_win_def)

lemma alloc_window_cases [consumes 1]:
  assumes "wm_inv lo hi s z"
  obtains (null) "wm_alloc_window s = Some (0, s)" "kmalloc SIZEOF_WINDOW (heap s) = Some (0, heap s)"
    | (ok) p h where "wm_alloc_window s = Some (p, push_window p (s\<lparr>heap := h\<rparr>))" "p \<noteq> 0"
      "kmalloc SIZEOF_WINDOW (heap s) = Some (p, h)"
      "desktop (push_window p (s\<lparr>heap := h\<rparr>)) ((p, window_zero) # z)" "p \<notin> fst ` set z"
      "mem_ok lo hi h ((p, SIZEOF_WINDOW) # blocks z)"
proof -
  have M: "mem_ok lo hi (heap s) (blocks z)" and D: "desktop s z" using assms by (simp_all add: wm_inv_def)
  show ?thesis
  proof (rule mem_ok_alloc [OF M sizes(1,2)], goal_cases)
    case 1
    then show ?thesis using null wm_alloc_window_eq [of s 0 "heap s"] by simp
  next
    case (2 p h)
    then have "p \<notin> fst ` set z" using blocks_fst [of z] by (auto simp: mem_ok_def)
    then show ?thesis using ok 2 wm_alloc_window_eq [of s p h] desktop_push [of "s\<lparr>heap := h\<rparr>" z p] D by simp
  qed
qed

text \<open>What the invariant needs of a window that is added in front.\<close>

lemma wm_inv_add:
  assumes "wm_inv lo hi s z" "desktop t ((p, w) # z)" "mem_ok lo hi (heap t) (blocks ((p, w) # z))" "win_ok w"
    "\<forall>(a, w) \<in> set ((p, w) # z). wtype w = WINDOW_TYPE_NOTEPAD \<longrightarrow> note_ok (notepads t (wdata w))"
    "active_terminal (con t) \<in> live_terminals ((p, w) # z)" "terminal_buffer (con t) = active_terminal (con t)"
    "active_window t = active_window s" "desktop_menu t = desktop_menu s"
  shows "wm_inv lo hi t ((p, w) # z)"
  using assms by (auto simp: wm_inv_def)

lemma live_terminals_Cons: "live_terminals z \<subseteq> live_terminals (x # z)"
  by (auto simp: live_terminals_def)

lemma change_win_new: "p \<notin> fst ` set z \<Longrightarrow> change_win p f ((p, w) # z) = (p, f w) # z"
  by (force simp: change_win_def intro!: map_idI)

lemma keeps_links_place [simp]: "keeps_links (place x y w h t name)"
  by (simp add: keeps_links_def place_def)

lemma place_sel [simp]:
  "wtype (place x y w h t name u) = t" "wdata (place x y w h t name u) = wdata u"
  "ww (place x y w h t name u) = w" "wh (place x y w h t name u) = h" "is_maximized (place x y w h t name u) = is_maximized u"
  by (simp_all add: place_def)

lemma window_zero_sel [simp]: "wdata window_zero = 0" "is_maximized window_zero = False"
  by (simp_all add: window_zero_def)

text \<open>The order of the windows after an operation that may open one.\<close>

definition opened :: "(addr \<times> window_t) list \<Rightarrow> (addr \<times> window_t) list \<Rightarrow> bool" where
  "opened z z' \<longleftrightarrow> z' = z \<or> (\<exists>p w. z' = (p, w) # z \<and> is_visible w)"

lemma open_plain:
  assumes "wm_inv lo hi s z" "t \<noteq> WINDOW_TYPE_NOTEPAD" "t \<noteq> WINDOW_TYPE_TERMINAL" "100 \<le> w" "60 \<le> h"
  shows "\<exists>s' z'. do { (p, s1) \<leftarrow> wm_alloc_window s; Some (if p = 0 then s1 else upd_win p (place x y w h t name) s1) } = Some s' \<and>
    wm_inv lo hi s' z' \<and> opened z z'"
  using assms(1)
proof (cases rule: alloc_window_cases)
  case null
  then show ?thesis using assms(1) by (auto simp: opened_def)
next
  case (ok p k)
  let ?f = "place x y w h t name" and ?t = "push_window p (s\<lparr>heap := k\<rparr>)"
  have "desktop (upd_win p ?f ?t) ((p, ?f window_zero) # z)"
    using desktop_change [OF ok(4), of ?f p] ok(5) by (simp add: change_win_new)
  moreover have "mem_ok lo hi (heap (upd_win p ?f ?t)) (blocks ((p, ?f window_zero) # z))"
    using ok(6) by (simp add: data_block_def)
  ultimately have "wm_inv lo hi (upd_win p ?f ?t) ((p, ?f window_zero) # z)"
    using assms live_terminals_Cons [of z "(p, ?f window_zero)"]
    by (intro wm_inv_add [OF assms(1)]) (auto simp: wm_inv_def win_ok_def)
  moreover have "is_visible (?f window_zero)" by (simp add: place_def)
  ultimately show ?thesis using ok unfolding opened_def by auto
qed

lemma mem_ok_new_data:
  "mem_ok lo hi h ((d, n) # (p, SIZEOF_WINDOW) # bs) \<Longrightarrow> mem_ok lo hi h ((p, SIZEOF_WINDOW) # [(d, n)] @ bs)"
  by (erule mem_ok_perm) simp

lemma data_in_blocks:
  "\<lbrakk>(a, w) \<in> set z; wtype w = WINDOW_TYPE_NOTEPAD \<or> wtype w = WINDOW_TYPE_TERMINAL; wdata w \<noteq> 0\<rbrakk> \<Longrightarrow>
     wdata w \<in> fst ` set (blocks z)"
  by (force simp: blocks_def data_block_def)

definition notepad_room :: "wm_state \<Rightarrow> bool" where
  "notepad_room s =
     (case kmalloc SIZEOF_WINDOW (heap s) of
        None \<Rightarrow> False
      | Some (p, h) \<Rightarrow> p = 0 \<or> (case kmalloc SIZEOF_NOTEPAD h of None \<Rightarrow> False | Some (d, h') \<Rightarrow> d \<noteq> 0))"

lemma open_notepad:
  assumes "wm_inv lo hi s z" "notepad_room s"
  shows "\<exists>s' z'. wm_open_notepad s = Some s' \<and> wm_inv lo hi s' z' \<and> opened z z'"
  using assms(1)
proof (cases rule: alloc_window_cases)
  case null
  then show ?thesis using assms(1) by (auto simp: opened_def wm_open_notepad_def)
next
  case (ok p k)
  let ?f = "place 200 100 500 400 WINDOW_TYPE_NOTEPAD ''Khazar Notepad''" and ?t = "push_window p (s\<lparr>heap := k\<rparr>)"
  show ?thesis
  proof (rule mem_ok_alloc [OF ok(6) sizes(3,4)], goal_cases)
    case 1
    then show ?thesis using assms(2) ok(2,3) by (simp add: notepad_room_def)
  next
    case (2 d h)
    let ?w = "(?f window_zero)\<lparr>wdata := d\<rparr>"
    let ?n = "(notepads s)(d := \<lparr>ntext = replicate 2048 0, ncursor = 0\<rparr>)"
    let ?s = "upd_win p (\<lambda>w. w\<lparr>wdata := d\<rparr>) ((upd_win p ?f ?t)\<lparr>heap := h, notepads := ?n\<rparr>)"
    have "desktop ((upd_win p ?f ?t)\<lparr>heap := h, notepads := ?n\<rparr>) ((p, ?f window_zero) # z)"
      using desktop_change [OF ok(4), of ?f p] ok(5) by (simp add: change_win_new)
    from desktop_change [OF this, of "\<lambda>w. w\<lparr>wdata := d\<rparr>" p] have D: "desktop ?s ((p, ?w) # z)"
      using ok(5) by (simp add: change_win_new keeps_links_def)
    have M: "mem_ok lo hi (heap ?s) (blocks ((p, ?w) # z))"
      using mem_ok_new_data [OF 2(3)] 2(2) by (simp add: data_block_def)
    have "d \<notin> fst ` set (blocks z)" using 2(3) by (auto simp: mem_ok_def)
    then have "note_ok (?n (wdata w))" if "(a, w) \<in> set z" "wtype w = WINDOW_TYPE_NOTEPAD" for a w
      using that assms(1) data_in_blocks [OF that(1)] by (force simp: wm_inv_def win_ok_def)
    then have "wm_inv lo hi ?s ((p, ?w) # z)"
      using assms(1) live_terminals_Cons [of z "(p, ?w)"] 2(2)
      by (intro wm_inv_add [OF assms(1) D M]) (auto simp: wm_inv_def win_ok_def note_ok_def)
    moreover have "wm_open_notepad s = Some ?s" using ok(1,2) 2(1,2) by (simp add: wm_open_notepad_def Let_def)
    moreover have "is_visible ?w" by (simp add: place_def)
    ultimately show ?thesis unfolding opened_def by blast
  qed
qed

lemma open_terminal:
  assumes "wm_inv lo hi s z"
  shows "\<exists>s' z'. wm_open_terminal s = Some s' \<and> wm_inv lo hi s' z' \<and> opened z z'"
  using assms
proof (cases rule: alloc_window_cases)
  case null
  then show ?thesis using assms by (auto simp: opened_def wm_open_terminal_def)
next
  case (ok p k)
  let ?f = "place 60 60 660 420 WINDOW_TYPE_TERMINAL ''Khazar Terminal''" and ?t = "push_window p (s\<lparr>heap := k\<rparr>)"
  have U: "desktop ((upd_win p ?f ?t)\<lparr>heap := h\<rparr>) ((p, ?f window_zero) # z)" for h
    using desktop_change [OF ok(4), of ?f p] ok(5) by (simp add: change_win_new)
  show ?thesis
  proof (rule mem_ok_alloc [OF ok(6) sizes(5,6)], goal_cases)
    case 1
    let ?s = "(upd_win p ?f ?t)\<lparr>heap := k\<rparr>"
    have m: "(p, ?f window_zero) \<in> set ((p, ?f window_zero) # z)" by simp
    have r: "remove_win p ((p, ?f window_zero) # z) = z" using ok(5) by (force simp: remove_win_def filter_id_conv)
    have "mem_ok lo hi (heap ?s) (blocks ((p, ?f window_zero) # z))" using ok(6) by (simp add: data_block_def)
    from mem_ok_close [OF this U m] desktop_close [OF U m]
    have "mem_ok lo hi (heap (wm_close_window p ?s)) (blocks z)" "desktop (wm_close_window p ?s) z" by (simp_all only: r)
    moreover have "con (wm_close_window p ?s) = con s"
      using close_con [OF ok(2), of ?s] desktop_window(2) [OF U m] by simp
    ultimately have "wm_inv lo hi (wm_close_window p ?s) z"
      using assms close_fields [OF ok(2), of ?s] by (simp add: wm_inv_def)
    moreover have "wm_open_terminal s = Some (wm_close_window p ?s)"
      using ok(1,2) 1 by (simp add: wm_open_terminal_def Let_def)
    ultimately show ?thesis by (auto simp: opened_def)
  next
    case (2 d h)
    let ?w = "(?f window_zero)\<lparr>wdata := d\<rparr>" and ?g = "\<lambda>w. w\<lparr>wdata := d\<rparr>"
    let ?c = "upd_term (unat d) terminal_init_virtual (con s)"
    let ?s = "upd_win p ?g ((upd_win p ?f ?t)\<lparr>heap := h, con := ?c\<rparr>)"
    have "desktop ((upd_win p ?f ?t)\<lparr>heap := h, con := ?c\<rparr>) ((p, ?f window_zero) # z)" using U by simp
    from desktop_change [OF this, of ?g p] have D: "desktop ?s ((p, ?w) # z)"
      using ok(5) by (simp add: change_win_new keeps_links_def)
    have M: "mem_ok lo hi (heap ?s) (blocks ((p, ?w) # z))"
      using mem_ok_new_data [OF 2(3)] 2(2) by (simp add: data_block_def)
    have "wm_inv lo hi ?s ((p, ?w) # z)"
      using assms live_terminals_Cons [of z "(p, ?w)"] 2(2)
      by (intro wm_inv_add [OF assms D M]) (auto simp: wm_inv_def win_ok_def upd_term_def)
    then have "wm_inv lo hi (wm_activate_terminal p ?s) ((p, ?w) # z)" by (rule wm_inv_activate) simp
    moreover have "wm_open_terminal s = Some (wm_activate_terminal p ?s)"
      using ok(1,2) 2(1,2) by (simp add: wm_open_terminal_def Let_def)
    moreover have "is_visible ?w" by (simp add: place_def)
    ultimately show ?thesis unfolding opened_def by blast
  qed
qed

lemma run_action_inv:
  assumes "wm_inv lo hi s z" "fn = Open_notepad \<longrightarrow> notepad_room s"
  shows "\<exists>s' z'. run_action fn s = Some s' \<and> wm_inv lo hi s' z' \<and> opened z z'"
proof (cases fn)
  case Open_terminal
  then show ?thesis using open_terminal [OF assms(1)] by simp
next
  case Open_notepad
  then show ?thesis using open_notepad [OF assms(1)] assms(2) by simp
next
  case Open_files
  then show ?thesis using open_plain [OF assms(1)] by (simp add: wm_open_files_def)
next
  case Open_settings
  then show ?thesis using open_plain [OF assms(1)] by (simp add: wm_open_settings_def)
next
  case Open_about
  then show ?thesis using open_plain [OF assms(1)] by (simp add: wm_open_about_def)
qed

section \<open>Events on the desktop\<close>

text \<open>The window is hit somewhere exactly when the point is inside its frame, borders included.\<close>

definition inside :: "int \<Rightarrow> int \<Rightarrow> window_t \<Rightarrow> bool" where
  "inside px py w \<longleftrightarrow> wx w \<le> px \<and> px \<le> wx w + ww w \<and> wy w \<le> py \<and> py \<le> wy w + wh w"

lemma window_hit_inside: "win_ok w \<Longrightarrow> window_hit px py w \<noteq> None \<longleftrightarrow> inside px py w"
  by (auto simp: window_hit_def inside_def win_ok_def)

text \<open>The first visible window, from the front, that contains the point.\<close>

definition topmost :: "int \<Rightarrow> int \<Rightarrow> (addr \<times> window_t) list \<Rightarrow> (addr \<times> window_t) option" where
  "topmost px py z = find (\<lambda>(a, w). is_visible w \<and> inside px py w) z"

lemma topmost_Some: "topmost px py z = Some (a, w) \<Longrightarrow> (a, w) \<in> set z \<and> is_visible w \<and> inside px py w"
  unfolding topmost_def by (induction z) (auto split: if_splits)

lemma hit_loop_seg:
  "\<lbrakk>wseg (windows s) p (map fst z) 0; 0 \<notin> fst ` set z; \<forall>(a, w) \<in> set z. content (windows s a) = w \<and> win_ok w\<rbrakk> \<Longrightarrow>
     hit_loop px py s (head_of 0 (map fst z)) =
       Some (map_option (\<lambda>(a, w). (a, the (window_hit px py w))) (topmost px py z))"
proof (induction z arbitrary: p)
  case Nil
  then show ?case by (simp add: hit_loop.simps topmost_def)
next
  case (Cons x z)
  obtain a w where x: "x = (a, w)" by (cases x)
  have w: "w = content (windows s a)" "win_ok w" "a \<noteq> 0" using Cons.prems x by auto
  have h: "window_hit px py (windows s a) = window_hit px py w" "is_visible (windows s a) = is_visible w"
    unfolding w(1) by (simp_all add: window_hit_content)
  have rest: "hit_loop px py s (wnext (windows s a)) =
      Some (map_option (\<lambda>(a, w). (a, the (window_hit px py w))) (topmost px py z))"
    using Cons.IH [of a] Cons.prems x by auto
  show ?case
  proof (cases "is_visible w \<and> inside px py w")
    case True
    then obtain r where "window_hit px py w = Some r" using window_hit_inside [OF w(2)] by blast
    then show ?thesis using x w(3) h True by (simp add: hit_loop.simps topmost_def)
  next
    case False
    then have "is_visible w \<Longrightarrow> window_hit px py w = None" using window_hit_inside [OF w(2)] by blast
    then show ?thesis using x w(3) h rest False
      by (subst hit_loop.simps) (auto simp: topmost_def)
  qed
qed

lemma hit_loop_topmost:
  assumes "wm_inv lo hi s z"
  shows "hit_loop px py s (windows_head s) =
    Some (map_option (\<lambda>(a, w). (a, the (window_hit px py w))) (topmost px py z))"
proof -
  have d: "wseg (windows s) 0 (map fst z) 0" "0 \<notin> fst ` set z" "windows_head s = head_of 0 (map fst z)"
    "\<forall>(a, w) \<in> set z. content (windows s a) = w \<and> win_ok w"
    using assms by (auto simp: wm_inv_def desktop_def wlist_def)
  then show ?thesis using hit_loop_seg by simp
qed

text \<open>What a click on a part of a window means for the order of the windows.\<close>

primrec hit_desktop :: "vbe_info \<Rightarrow> int \<Rightarrow> int \<Rightarrow> addr \<times> window_t \<Rightarrow> hit \<Rightarrow> (addr \<times> window_t) list \<Rightarrow> (addr \<times> window_t) list" where
  "hit_desktop v px py x Hit_close z = remove_win (fst x) z"
| "hit_desktop v px py x Hit_maximize z = change_win (fst x) (toggle_maximized v) z"
| "hit_desktop v px py x Hit_minimize z = change_win (fst x) (\<lambda>w. w\<lparr>is_visible := False, is_minimized := True\<rparr>) z"
| "hit_desktop v px py x Hit_resize z =
     (if is_maximized (snd x) then raise_win (fst x) z
      else change_win (fst x) (\<lambda>w. w\<lparr>is_resizing := True\<rparr>) (raise_win (fst x) z))"
| "hit_desktop v px py x Hit_title z =
     (if is_maximized (snd x) then raise_win (fst x) z
      else change_win (fst x) (\<lambda>w. w\<lparr>is_dragging := True, drag_off_x := px - wx w, drag_off_y := py - wy w\<rparr>)
             (raise_win (fst x) z))"
| "hit_desktop v px py x Hit_focus z = raise_win (fst x) z"

definition roomy :: "vbe_info \<Rightarrow> bool" where
  "roomy v \<longleftrightarrow> 100 \<le> sint (width v) \<and> 60 \<le> sint (height v - 40)"

lemma change_rules:
  "keeps_links (toggle_maximized v)" "keeps_data (toggle_maximized v)"
  "keeps_links (\<lambda>w. w\<lparr>is_visible := b, is_minimized := c\<rparr>)" "keeps_data (\<lambda>w. w\<lparr>is_visible := b, is_minimized := c\<rparr>)"
  "keeps_links (\<lambda>w. w\<lparr>is_resizing := b\<rparr>)" "keeps_data (\<lambda>w. w\<lparr>is_resizing := b\<rparr>)"
  "keeps_links (\<lambda>w. w\<lparr>is_dragging := b, drag_off_x := px - wx w, drag_off_y := py - wy w\<rparr>)"
  "keeps_data (\<lambda>w. w\<lparr>is_dragging := b, drag_off_x := px - wx w, drag_off_y := py - wy w\<rparr>)"
  "keeps_links (\<lambda>w. w\<lparr>is_dragging := b, is_resizing := c\<rparr>)" "keeps_data (\<lambda>w. w\<lparr>is_dragging := b, is_resizing := c\<rparr>)"
  "keeps_links (follow_mouse px py)" "keeps_data (follow_mouse px py)"
  by (simp_all add: keeps_links_def keeps_data_def toggle_maximized_def follow_mouse_def Let_def)

lemma win_ok_rules:
  "\<lbrakk>win_ok w; roomy v\<rbrakk> \<Longrightarrow> win_ok (toggle_maximized v w)"
  "win_ok w \<Longrightarrow> win_ok (w\<lparr>is_visible := b, is_minimized := c\<rparr>)" "win_ok w \<Longrightarrow> win_ok (w\<lparr>is_resizing := b\<rparr>)"
  "win_ok w \<Longrightarrow> win_ok (w\<lparr>is_dragging := b, drag_off_x := px - wx w, drag_off_y := py - wy w\<rparr>)"
  "win_ok w \<Longrightarrow> win_ok (w\<lparr>is_dragging := b, is_resizing := c\<rparr>)" "win_ok w \<Longrightarrow> win_ok (follow_mouse px py w)"
  by (auto simp: win_ok_def toggle_maximized_def follow_mouse_def roomy_def Let_def)

lemma wm_inv_active_window: "\<lbrakk>wm_inv lo hi s z; a \<in> fst ` set z\<rbrakk> \<Longrightarrow> wm_inv lo hi (s\<lparr>active_window := a\<rparr>) z"
  by (simp add: wm_inv_def)

lemma hit_action_inv:
  assumes "wm_inv lo hi s z" "(a, w) \<in> set z" "r = Hit_close \<longrightarrow> active_window s \<noteq> a" "roomy v"
  shows "wm_inv lo hi (hit_action v px py a r s) (hit_desktop v px py (a, w) r z)"
proof -
  have d: "desktop s z" using assms(1) by (simp add: wm_inv_def)
  note W = desktop_window [OF d assms(2)] and B = wm_inv_bring [OF assms(1,2)]
  have m: "(a, w) \<in> set (raise_win a z)" using raise_perm(1) [OF d assms(2)] assms(2) by simp
  then have am: "a = 0 \<or> a \<in> fst ` set (raise_win a z)" by force
  note A = wm_inv_activate [OF B am]
  have mx: "is_maximized (windows (wm_bring_to_front a s) a) = is_maximized w"
    using desktop_window(4) [OF desktop_bring [OF d assms(2)] m] .
  have fs: "a \<in> fst ` set (change_win a f (raise_win a z))" for f
    using m change_win_fst [of a f "raise_win a z"] by (metis fst_conv image_eqI set_map)
  show ?thesis
  proof (cases r)
    case Hit_close
    then show ?thesis using wm_inv_close [OF assms(1,2)] assms(3) by simp
  next
    case Hit_maximize
    then show ?thesis using wm_inv_change [OF assms(1) change_rules(1,2)] win_ok_rules(1) assms(4) W(7)
      by (simp add: wm_maximize_window_def)
  next
    case Hit_minimize
    then show ?thesis using wm_inv_change [OF assms(1) change_rules(3,4)] win_ok_rules(2) W(7)
      by (simp add: wm_minimize_window_def)
  next
    case Hit_resize
    then show ?thesis
      using B mx wm_inv_change [OF B change_rules(5,6)] win_ok_rules(3) fs
      by (auto simp: Let_def intro!: wm_inv_active_window)
  next
    case Hit_title
    then show ?thesis
      using A mx wm_inv_change [OF A change_rules(7,8)] win_ok_rules(4) fs
      by (auto simp: Let_def intro!: wm_inv_active_window)
  next
    case Hit_focus
    then show ?thesis using A by simp
  qed
qed

subsection \<open>Keys, menu, icons and tracking keep the invariant\<close>

lemma note_ok_key:
  assumes "note_ok d"
  shows "note_ok (notepad_key c d)"
proof -
  have n: "length (ntext d) = 2048" "0 \<le> ncursor d" "ncursor d \<le> 2047" using assms by (simp_all add: note_ok_def)
  then have "nat (ncursor d - 1) < 2048" "nat (ncursor d + 1) < 2048 \<or> ncursor d = 2047" by linarith+
  then show ?thesis using assms n by (auto simp: note_ok_def notepad_key_def)
qed

lemma wm_handle_key_inv:
  assumes "wm_inv lo hi s z"
  shows "\<exists>s'. wm_handle_key c s = Some s' \<and> wm_inv lo hi s' z \<and> active_window s' = active_window s"
proof (cases "windows_head s = 0")
  case True
  then show ?thesis using assms by (simp add: wm_handle_key_def wm_inv_def)
next
  case False
  have d: "desktop s z" using assms by (simp add: wm_inv_def)
  obtain w z' where z: "z = (windows_head s, w) # z'" using windows_head_in [OF d False] by blast
  then have m: "(windows_head s, w) \<in> set z" by simp
  note W = desktop_window [OF d m]
  have ok: "win_ok w" using assms m by (auto simp: wm_inv_def)
  show ?thesis
  proof (cases "wtype w = WINDOW_TYPE_TERMINAL")
    case True
    have "wm_inv lo hi (wm_activate_terminal (windows_head s) s) z"
      by (rule wm_inv_activate [OF assms]) (use m in force)
    then show ?thesis using True False W by (simp add: wm_handle_key_def Let_def wm_inv_def)
  next
    case no_term: False
    show ?thesis
    proof (cases "wtype w = WINDOW_TYPE_NOTEPAD")
      case True
      let ?n = "(notepads s)(wdata w := notepad_key c (notepads s (wdata w)))"
      have "note_ok (notepads s (wdata w))" using assms m True by (auto simp: wm_inv_def)
      then have "note_ok (notepad_key c (notepads s (wdata w)))" by (rule note_ok_key)
      then have "wm_inv lo hi (s\<lparr>notepads := ?n\<rparr>) z" using assms by (auto simp: wm_inv_def)
      then show ?thesis using True False ok W by (simp add: wm_handle_key_def Let_def win_ok_def)
    next
      case False
      then show ?thesis using no_term \<open>windows_head s \<noteq> 0\<close> W assms by (simp add: wm_handle_key_def Let_def)
    qed
  qed
qed

lemma wm_inv_menu:
  "wm_inv lo hi s z \<Longrightarrow> wm_inv lo hi (s\<lparr>desktop_menu := (desktop_menu s)\<lparr>menu_visible := b\<rparr>\<rparr>) z"
  "wm_inv lo hi s z \<Longrightarrow> wm_inv lo hi (wm_show_menu x y s) z"
  by (simp_all add: wm_inv_def wm_show_menu_def)

lemma run_action_active: "run_action fn s = Some s' \<Longrightarrow> active_window s' = active_window s"
  by (cases fn) (auto simp: wm_open_terminal_def wm_open_notepad_def wm_open_files_def wm_open_settings_def
    wm_open_about_def wm_alloc_window_def Let_def upd_win_def bind_eq_Some_conv close_fields split: if_splits)

text \<open>
  Opening a notepad fails when the heap has room for the window but not for its text; nothing else fails.
\<close>

lemma wm_open_notepad_Some:
  assumes "wm_inv lo hi s z" "wm_open_notepad s = Some s'"
  shows "notepad_room s"
  using assms(1)
proof (cases rule: alloc_window_cases)
  case null
  then show ?thesis by (simp add: notepad_room_def)
next
  case (ok p h)
  then show ?thesis using assms(2)
    by (auto simp: notepad_room_def wm_open_notepad_def Let_def bind_eq_Some_conv split: if_splits)
qed

lemma run_action_cases [consumes 1]:
  assumes "wm_inv lo hi s z"
  obtains (fails) "run_action fn s = None" "\<not> notepad_room s"
    | (runs) s' z' where "run_action fn s = Some s'" "wm_inv lo hi s' z'" "opened z z'" "active_window s' = active_window s"
proof (cases "fn = Open_notepad \<longrightarrow> notepad_room s")
  case True
  then show ?thesis using runs run_action_inv [OF assms True] run_action_active by blast
next
  case False
  then show ?thesis using fails wm_open_notepad_Some [OF assms] by (cases "run_action fn s") auto
qed

lemma menu_click_cases [consumes 1]:
  assumes "wm_inv lo hi s z"
  obtains (fails) "menu_click px py s = None" "\<not> notepad_room s"
    | (ok) b s' z' where "menu_click px py s = Some (b, s')" "wm_inv lo hi s' z'" "active_window s' = active_window s"
      "\<not> b \<longrightarrow> z' = z \<and> heap s' = heap s"
proof -
  let ?m = "desktop_menu s"
  let ?idx = "(py - menu_y ?m - 5) sdiv 22"
  let ?fn = "mi_action (items ?m ! nat ?idx)"
  let ?in = "px \<ge> menu_x ?m \<and> px < menu_x ?m + menu_w ?m \<and> py \<ge> menu_y ?m \<and> py < menu_y ?m + menu_h ?m"
  show ?thesis
  proof (cases "menu_visible ?m \<and> ?in \<and> ?idx \<ge> 0 \<and> ?idx < item_count ?m")
    case True
    from assms show ?thesis
    proof (cases rule: run_action_cases [where fn = ?fn])
      case fails
      then have "menu_click px py s = None" using True by (simp add: menu_click_def Let_def)
      then show ?thesis using that(1) fails by blast
    next
      case (runs s1 z1)
      let ?s = "s1\<lparr>desktop_menu := (desktop_menu s1)\<lparr>menu_visible := False\<rparr>\<rparr>"
      have "menu_click px py s = Some (True, ?s)" using True runs(1) by (simp add: menu_click_def Let_def)
      then show ?thesis using that(2) [of True ?s z1] wm_inv_menu(1) [OF runs(2)] runs(4) by simp
    qed
  next
    case False
    then have "\<exists>b. menu_click px py s = Some (b, s) \<or>
        menu_click px py s = Some (b, s\<lparr>desktop_menu := (desktop_menu s)\<lparr>menu_visible := False\<rparr>\<rparr>)"
      by (auto simp: menu_click_def Let_def)
    then show ?thesis using that(2) assms wm_inv_menu(1) [OF assms, of False] by fastforce
  qed
qed

text \<open>The outcome of an event: it keeps the invariant, or fails for want of memory for a notepad.\<close>

definition handled :: "nat \<Rightarrow> nat \<Rightarrow> wm_state \<Rightarrow> wm_state option \<Rightarrow> bool" where
  "handled lo hi s r \<longleftrightarrow> (case r of None \<Rightarrow> \<not> notepad_room s | Some s' \<Rightarrow> \<exists>z'. wm_inv lo hi s' z')"

lemma icon_click_handled:
  assumes "wm_inv lo hi s z"
  shows "handled lo hi s (icon_click px py s)"
proof (cases "find (over_icon px py) (desktop_icons s)")
  case None
  then show ?thesis using assms by (auto simp: handled_def icon_click_def)
next
  case (Some i)
  from assms show ?thesis
    by (cases rule: run_action_cases [where fn = "icon_action i"]) (auto simp: handled_def icon_click_def Some)
qed

text \<open>
  A press of the left button on the close button of the window that follows the mouse. It needs a
  press without a release after the one before: the queue of events drops a release when it is
  full. The window is then freed and \<^verbatim>\<open>active_window\<close> still points to it.
\<close>

definition closes_held :: "int \<Rightarrow> int \<Rightarrow> wm_state \<Rightarrow> bool" where
  "closes_held px py s \<longleftrightarrow> active_window s \<noteq> 0 \<and> hit_loop px py s (windows_head s) = Some (Some (active_window s, Hit_close))"

lemma not_closes_held:
  assumes "wm_inv lo hi s z" "topmost px py z = Some (a, w)" "\<not> closes_held px py s"
  shows "the (window_hit px py w) = Hit_close \<longrightarrow> active_window s \<noteq> a"
proof -
  have "a \<noteq> 0" using topmost_Some [OF assms(2)] assms(1) by (force simp: wm_inv_def desktop_def wlist_def)
  then show ?thesis using assms(3) hit_loop_topmost [OF assms(1), of px py] assms(2) by (auto simp: closes_held_def)
qed

lemma wm_click_handled:
  assumes "wm_inv lo hi s z" "roomy v" "button \<noteq> 2 \<longrightarrow> \<not> closes_held px py s"
  shows "handled lo hi s (wm_click v button px py s)"
  using assms(1)
proof (cases rule: menu_click_cases [where px = px and py = py])
  case fails
  then show ?thesis by (simp add: handled_def wm_click_def)
next
  case m: (ok b s1 z1)
  show ?thesis
  proof (cases "button = 2 \<or> b")
    case True
    then show ?thesis using m wm_inv_menu(2) [OF m(2)] by (auto simp: handled_def wm_click_def Let_def)
  next
    case False
    then have h: "wm_click v button px py s =
      do { r \<leftarrow> hit_loop px py s1 (windows_head s1);
           case r of Some (cur, h) \<Rightarrow> Some (hit_action v px py cur h s1) | None \<Rightarrow> icon_click px py s1 }"
      using m(1) by (simp add: wm_click_def Let_def)
    have room: "notepad_room s1 = notepad_room s" using m(4) False by (simp add: notepad_room_def)
    show ?thesis
    proof (cases "topmost px py z1")
      case None
      then have "wm_click v button px py s = icon_click px py s1" using h hit_loop_topmost [OF m(2)] by simp
      then show ?thesis using icon_click_handled [OF m(2), of px py] room
        by (cases "icon_click px py s1") (simp_all add: handled_def)
    next
      case (Some x)
      obtain a w where x: "x = (a, w)" by (cases x)
      then have "the (window_hit px py w) = Hit_close \<longrightarrow> active_window s1 \<noteq> a"
        using not_closes_held [OF assms(1), of px py a w] Some m(3,4) assms(3) False by simp
      moreover have "(a, w) \<in> set z1" using topmost_Some [of px py z1 a w] Some x by simp
      ultimately have "wm_inv lo hi (hit_action v px py a (the (window_hit px py w)) s1) (hit_desktop v px py (a, w) (the (window_hit px py w)) z1)"
        using hit_action_inv [OF m(2) _ _ assms(2)] by blast
      then show ?thesis using x h hit_loop_topmost [OF m(2)] Some by (auto simp: handled_def)
    qed
  qed
qed

lemma wm_inv_release:
  assumes "wm_inv lo hi s z"
  shows "\<exists>z'. wm_inv lo hi (wm_release s) z'"
proof -
  have "wm_inv lo hi (upd_win (active_window s) (\<lambda>w. w\<lparr>is_dragging := False, is_resizing := False\<rparr>) s)
      (change_win (active_window s) (\<lambda>w. w\<lparr>is_dragging := False, is_resizing := False\<rparr>) z)" (is "wm_inv _ _ ?s ?z")
    using wm_inv_change [OF assms change_rules(9,10)] win_ok_rules(5) by blast
  then have "wm_inv lo hi (?s\<lparr>active_window := 0\<rparr>) ?z" "wm_inv lo hi (s\<lparr>active_window := 0\<rparr>) z"
    using assms by (simp_all add: wm_inv_def)
  then show ?thesis by (cases "active_window s = 0") (auto simp: wm_release_def Let_def)
qed

text \<open>Every event but the one that frees the window that follows the mouse.\<close>

definition expected :: "event_t \<Rightarrow> wm_state \<Rightarrow> bool" where
  "expected ev s \<longleftrightarrow> \<not> (ev_type ev = EVENT_MOUSE_CLICK \<and> data1 ev \<noteq> 2 \<and> closes_held (sint (data2 ev)) (sint (data3 ev)) s)"

lemma wm_event_handled:
  assumes "wm_inv lo hi s z" "roomy v" "expected ev s"
  shows "handled lo hi s (wm_event v ev s)"
proof (cases "ev_type ev")
  case EVENT_KEY_DOWN
  then show ?thesis
    using wm_handle_key_inv [OF assms(1), of "ucast (data1 ev)"] by (auto simp: wm_event_def handled_def)
next
  case EVENT_MOUSE_CLICK
  then show ?thesis using wm_click_handled [OF assms(1,2), of "data1 ev" "sint (data2 ev)" "sint (data3 ev)"] assms(3)
    by (auto simp: wm_event_def expected_def)
next
  case EVENT_MOUSE_RELEASE
  then show ?thesis using wm_inv_release [OF assms(1)] by (auto simp: wm_event_def handled_def)
qed (use assms(1) in \<open>auto simp: wm_event_def handled_def\<close>)

lemma wm_inv_track:
  assumes "wm_inv lo hi s z"
  shows "\<exists>z'. wm_inv lo hi (wm_hover px py (wm_track px py s)) z'"
proof -
  have h: "wm_inv lo hi (wm_hover x y t) y' = wm_inv lo hi t y'" for x y t y' by (simp add: wm_hover_def wm_inv_def)
  show ?thesis
    using assms wm_inv_change [OF assms change_rules(11,12) win_ok_rules(6)]
    unfolding h wm_track_def by auto
qed

section \<open>The event loop\<close>

primrec handle_all :: "vbe_info \<Rightarrow> event_t list \<Rightarrow> wm_state \<Rightarrow> wm_state option" where
  "handle_all v [] s = Some s"
| "handle_all v (e # es) s =
     do { s1 \<leftarrow> wm_event v e (s\<lparr>events := snd (the (events_pop (events s)))\<rparr>); handle_all v es s1 }"

lemma run_action_events: "run_action fn s = Some s' \<Longrightarrow> events s' = events s"
  by (cases fn) (auto simp: wm_open_terminal_def wm_open_notepad_def wm_open_files_def wm_open_settings_def
    wm_open_about_def wm_alloc_window_def Let_def upd_win_def bind_eq_Some_conv close_fields split: if_splits)

lemma hit_action_events: "events (hit_action v px py a r s) = events s"
  by (cases "a = 0"; cases r)
    (simp_all add: Let_def close_fields wm_maximize_window_def wm_minimize_window_def wm_close_window_def)

lemma wm_event_events:
  assumes "wm_event v ev s = Some s'"
  shows "events s' = events s"
proof (cases "ev_type ev")
  case EVENT_KEY_DOWN
  then show ?thesis using assms by (auto simp: wm_event_def wm_handle_key_def Let_def split: if_splits)
next
  case EVENT_MOUSE_CLICK
  then obtain b s1 where m: "menu_click (sint (data2 ev)) (sint (data3 ev)) s = Some (b, s1)"
    using assms by (auto simp: wm_event_def wm_click_def bind_eq_Some_conv)
  then have "events s1 = events s"
    by (auto simp: menu_click_def Let_def bind_eq_Some_conv run_action_events split: if_splits)
  then show ?thesis using assms EVENT_MOUSE_CLICK m
    by (auto simp: wm_event_def wm_click_def Let_def bind_eq_Some_conv icon_click_def wm_show_menu_def
      run_action_events hit_action_events split: if_splits option.splits)
next
  case EVENT_MOUSE_RELEASE
  then show ?thesis using assms by (auto simp: wm_event_def wm_release_def Let_def)
qed (use assms in \<open>auto simp: wm_event_def\<close>)

lemma event_loop_handles:
  "events_inv (events s) \<Longrightarrow> event_loop v s = handle_all v (events_elems (events s)) s"
proof (induction "events_elems (events s)" arbitrary: s)
  case Nil
  then have "events_pop (events s) = None" using events_pop_laws [OF Nil(2)] by (simp split: list.splits)
  then show ?case using Nil by (subst event_loop.simps) simp
next
  case (Cons e es)
  obtain q where q: "events_pop (events s) = Some (e, q)" "events_elems q = es" "events_inv q"
    using events_pop_laws [OF Cons.prems] Cons.hyps(2) by (simp split: list.splits) blast
  have "event_loop v s1 = handle_all v es s1" if "wm_event v e (s\<lparr>events := q\<rparr>) = Some s1" for s1
    using Cons.hyps(1) [of s1] wm_event_events [OF that] q by simp
  then show ?case unfolding Cons.hyps(2) [symmetric]
    by (cases "wm_event v e (s\<lparr>events := q\<rparr>)") (simp_all add: q(1) event_loop.simps [of v s])
qed

section \<open>Typing into a notepad\<close>

text \<open>The line editor a notepad stands for: backspace drops the last character, a full text takes no more.\<close>

definition edit :: "u8 list \<Rightarrow> u8 \<Rightarrow> u8 list" where
  "edit line c = (if c = 8 then butlast line else if length line < 2047 then line @ [c] else line)"

definition note_rep :: "notepad_data_t \<Rightarrow> u8 list \<Rightarrow> bool" where
  "note_rep d line \<longleftrightarrow> length (ntext d) = 2048 \<and> ncursor d = int (length line) \<and> length line \<le> 2047 \<and>
     take (length line) (ntext d) = line \<and> ntext d ! length line = 0"

lemma note_rep_key:
  assumes "note_rep d line"
  shows "note_rep (notepad_key c d) (edit line c)"
proof -
  have r: "length (ntext d) = 2048" "ncursor d = int (length line)" "length line \<le> 2047" "take (length line) (ntext d) = line"
    "ntext d ! length line = 0" using assms by (simp_all add: note_rep_def)
  show ?thesis
  proof (cases "c = 8")
    case True
    show ?thesis
    proof (cases line rule: rev_cases)
      case Nil
      then show ?thesis using True assms r by (simp add: notepad_key_def edit_def note_rep_def)
    next
      case (snoc xs x)
      have "take (length xs) (ntext d) = xs" using r(4) snoc by (metis append_eq_conv_conj take_take length_append_singleton min_def Suc_n_not_le_n nat_le_linear)
      then show ?thesis using True r snoc by (simp add: notepad_key_def edit_def note_rep_def)
    qed
  next
    case False
    then show ?thesis using r
      by (auto simp: notepad_key_def edit_def note_rep_def nat_add_distrib take_Suc_conv_app_nth)
  qed
qed

primrec type_keys :: "u8 list \<Rightarrow> wm_state \<Rightarrow> wm_state option" where
  "type_keys [] s = Some s"
| "type_keys (c # line) s = do { s1 \<leftarrow> wm_handle_key c s; type_keys line s1 }"

text \<open>Keys go to the window in front; a notepad takes them.\<close>

lemma handle_key_notepad:
  assumes "desktop s ((a, w) # z)" "wtype w = WINDOW_TYPE_NOTEPAD" "wdata w \<noteq> 0"
  shows "wm_handle_key c s = Some (s\<lparr>notepads := (notepads s)(wdata w := notepad_key c (notepads s (wdata w)))\<rparr>)"
proof -
  have "windows_head s = a" using assms(1) by (simp add: desktop_def wlist_def)
  then show ?thesis using desktop_window [OF assms(1), of a w] assms(2,3) by (simp add: wm_handle_key_def)
qed

text \<open>
  C31. Typing into a notepad in front of the desktop edits its text: after any keys the buffer holds
  the zero-terminated text that the line editor makes of the old text, the cursor is its end, never
  more than 2047 characters are stored, and nothing else of the desktop changes.
\<close>

theorem notepad_edits:
  assumes "desktop s ((a, w) # z)" "wtype w = WINDOW_TYPE_NOTEPAD" "wdata w \<noteq> 0" "note_rep (notepads s (wdata w)) line"
  shows "\<exists>d. type_keys keys s = Some (s\<lparr>notepads := (notepads s)(wdata w := d)\<rparr>) \<and> note_rep d (foldl edit line keys)"
  using assms(1,4)
proof (induction keys arbitrary: s line)
  case Nil
  then show ?case by (intro exI [of _ "notepads s (wdata w)"]) simp
next
  case (Cons c keys)
  let ?s = "s\<lparr>notepads := (notepads s)(wdata w := notepad_key c (notepads s (wdata w)))\<rparr>"
  have "desktop ?s ((a, w) # z)" "note_rep (notepads ?s (wdata w)) (edit line c)"
    using Cons.prems note_rep_key by simp_all
  from Cons.IH [OF this] obtain d where
    d: "type_keys keys ?s = Some (?s\<lparr>notepads := (notepads ?s)(wdata w := d)\<rparr>)" "note_rep d (foldl edit (edit line c) keys)"
    by blast
  have "?s\<lparr>notepads := (notepads ?s)(wdata w := d)\<rparr> = s\<lparr>notepads := (notepads s)(wdata w := d)\<rparr>" by simp
  then have "type_keys (c # keys) s = Some (s\<lparr>notepads := (notepads s)(wdata w := d)\<rparr>)"
    using d(1) handle_key_notepad [OF Cons.prems(1) assms(2,3)] by simp
  then show ?case unfolding foldl.simps using d(2) by blast
qed

section \<open>Clicks reach the window in front\<close>

definition over_menu :: "int \<Rightarrow> int \<Rightarrow> wm_state \<Rightarrow> bool" where
  "over_menu px py s \<longleftrightarrow> (let m = desktop_menu s in menu_visible m \<and>
     px \<ge> menu_x m \<and> px < menu_x m + menu_w m \<and> py \<ge> menu_y m \<and> py < menu_y m + menu_h m)"

definition hide_menu :: "wm_state \<Rightarrow> wm_state" where
  "hide_menu s = s\<lparr>desktop_menu := (desktop_menu s)\<lparr>menu_visible := False\<rparr>\<rparr>"

lemma menu_click_beside: "\<not> over_menu px py s \<Longrightarrow> menu_click px py s = Some (False, hide_menu s)"
  by (auto simp: menu_click_def over_menu_def hide_menu_def Let_def)


text \<open>The press that is excluded leaves \<^verbatim>\<open>active_window\<close> pointing to freed memory.\<close>

theorem close_held_dangles:
  assumes "wm_inv lo hi s z" "\<not> over_menu px py s" "closes_held px py s" "button \<noteq> 2"
  shows "\<exists>s'. wm_click v button px py s = Some s' \<and> desktop s' (remove_win (active_window s') z) \<and>
    active_window s' \<noteq> 0 \<and> active_window s' \<notin> fst ` set (remove_win (active_window s') z)"
proof -
  let ?a = "active_window s" and ?s = "hide_menu s"
  have i: "wm_inv lo hi ?s z" using wm_inv_menu(1) [OF assms(1)] by (simp add: hide_menu_def)
  obtain w where w: "topmost px py z = Some (?a, w)" "the (window_hit px py w) = Hit_close"
    using assms(3) hit_loop_topmost [OF assms(1), of px py] by (auto simp: closes_held_def)
  then have m: "(?a, w) \<in> set z" using topmost_Some by blast
  have d: "desktop ?s z" using i by (simp add: wm_inv_def)
  have "active_window (wm_close_window ?a ?s) = ?a"
    using close_fields [OF desktop_window(7) [OF d m], of ?s] by (simp add: hide_menu_def)
  moreover have "wm_click v button px py s = Some (wm_close_window ?a ?s)"
    using w assms(4) by (simp add: wm_click_def menu_click_beside [OF assms(2)] hit_loop_topmost [OF i])
  ultimately show ?thesis using desktop_close [OF d m] assms(3) by (auto simp: closes_held_def remove_win_def)
qed

text \<open>A desktop of 1024 by 768 pixels with one window on a heap of 1 KB.\<close>

definition about_window :: window_t where
  "about_window = place 260 210 420 240 WINDOW_TYPE_ABOUT ''Hakkinda'' window_zero"

definition desk_example :: wm_state where
  "desk_example = \<lparr>windows = (\<lambda>_. about_window), notepads = (\<lambda>_. \<lparr>ntext = replicate 2048 0, ncursor = 0\<rparr>),
     windows_head = 0x1014, windows_tail = 0x1014, active_window = 0,
     desktop_menu = \<lparr>menu_x = 0, menu_y = 0, menu_w = 160, menu_h = 98, item_count = 4,
       items = replicate 8 \<lparr>mi_label = replicate 32 0, mi_action = Open_about\<rparr>, menu_visible = False\<rparr>,
     desktop_icons = [], con = console_example, key_tty = tty_init, events = events_init,
     heap = \<lparr>heap_start = 0x1000, hdr = (\<lambda>a. if a = 0x1000
       then \<lparr>magic = KHEAP_MAGIC, hsize = 128, is_free = 0, hnext = 0x1094, hprev = 0\<rparr>
       else \<lparr>magic = KHEAP_MAGIC, hsize = 856, is_free = 1, hnext = 0, hprev = 0x1000\<rparr>)\<rparr>\<rparr>"

definition screen_1024 :: vbe_info where
  "screen_1024 = \<lparr>lfb = 0xE0000000, width = 1024, height = 768, pitch = 4096, bpp = 32\<rparr>"

lemma about_window_sel [simp]:
  "wnext about_window = 0" "wprev about_window = 0" "content about_window = about_window" "wdata about_window = 0"
  "wtype about_window = WINDOW_TYPE_ABOUT" "win_ok about_window" "is_visible about_window"
  "wx about_window = 260" "wy about_window = 210" "ww about_window = 420" "wh about_window = 240"
  "is_maximized about_window = False"
  by (simp_all add: about_window_def place_def window_zero_def content_def win_ok_def)

lemma desk_example_inv: "wm_inv 0x1000 0x1400 desk_example [(0x1014, about_window)]"
proof -
  have "heap_rep 0x1000 0x1400 (heap desk_example) [(0x1000, 128, False), (0x1094, 856, True)]"
    by (simp add: heap_rep_def desk_example_def)
  moreover have "payloads [(0x1000, 128, False), (0x1094, 856, True)] = {(0x1014, 128)}"
    by (simp add: payloads_Cons HEADER_SIZE_def)
  ultimately have "kheap_live 0x1000 0x1400 (heap desk_example) {(0x1014, 128)}" unfolding kheap_live_def by metis
  then have "mem_ok 0x1000 0x1400 (heap desk_example) (blocks [(0x1014, about_window)])"
    unfolding mem_ok_def by (auto simp: data_block_def SIZEOF_WINDOW_def)
  moreover have "desktop desk_example [(0x1014, about_window)]"
    by (simp add: desktop_def wlist_def desk_example_def)
  ultimately show ?thesis
    by (simp add: wm_inv_def live_terminals_def) (simp add: desk_example_def console_example_def)
qed


definition notepad_example :: wm_state where
  "notepad_example = desk_example\<lparr>windows := \<lambda>_. about_window\<lparr>wtype := WINDOW_TYPE_NOTEPAD, wdata := 0x2000\<rparr>\<rparr>"

theorem notepad_edits_witness:
  "\<exists>d. type_keys [72, 105, 8] notepad_example = Some (notepad_example\<lparr>notepads := (notepads notepad_example)(0x2000 := d)\<rparr>) \<and>
     note_rep d [72]"
proof -
  let ?w = "about_window\<lparr>wtype := WINDOW_TYPE_NOTEPAD, wdata := 0x2000\<rparr>"
  have "content ?w = ?w" by (simp add: about_window_def place_def window_zero_def content_def)
  then have "desktop notepad_example [(0x1014, ?w)]"
    by (simp add: desktop_def wlist_def notepad_example_def desk_example_def)
  moreover have "note_rep (notepads notepad_example (wdata ?w)) []"
    by (simp add: note_rep_def notepad_example_def desk_example_def)
  ultimately show ?thesis
    using notepad_edits [of notepad_example "0x1014" ?w "[]" "[]" "[72, 105, 8]"] by (simp add: edit_def)
qed

end
