(* ===== verification/Khazar_Taskbar.thy ===== *)
theory Khazar_Taskbar
  imports Khazar_Desktop Khazar_Ethernet Khazar_Vfs
begin

text \<open>
  The picture of the desktop and the task bar: the drawing functions of \<^verbatim>\<open>kernel/core/gui/wm.c\<close>,
  the task bar with its start menu, clock and window buttons, \<^verbatim>\<open>kernel/core/gui/taskbar.c\<close>, and
  switching off, \<^verbatim>\<open>kernel/drivers/power/power.c\<close>. Drawing is on the picture of \<open>Khazar_Gfx\<close>. What the
  windows show of the machine (memory, bus devices, the adapter, the files of the root directory)
  comes from the states of those components. \<open>None\<close> is a null pointer read, an undefined conversion
  in a format, or a loop that does not end.
\<close>

section \<open>Power\<close>

text \<open>\<open>words_out\<close> are the 16-bit values written to ports, latest last. Both functions end in \<^verbatim>\<open>hlt\<close>.\<close>

type_synonym words_out = "(u16 \<times> u16) list"

definition power_try_acpi :: "words_out \<Rightarrow> words_out" where
  "power_try_acpi p = p @ [(0xB004, 0x2000), (0x604, 0x2000), (0x4004, 0x3400)]"

definition str :: "string \<Rightarrow> u8 list" where "str s = map of_char s"

definition power_shutdown :: "gfx_state \<Rightarrow> words_out \<Rightarrow> gfx_state \<times> words_out" where
  "power_shutdown g p =
     (let cx = sint (width (vbe g) div 2 - 140);
          cy = sint (height (vbe g) div 2 + 20);
          g1 = gfx_swap_buffers (gfx_puts cx cy (str ''[*] Stopping disk subsystem...'') 0x00AAAAAA g);
          g2 = gfx_swap_buffers (gfx_puts cx (cy + 12) (str ''[*] Stopping input devices...'') 0x00AAAAAA g1);
          g3 = gfx_swap_buffers (gfx_puts cx (cy + 24) (str ''[*] Flushing graphics buffer...'') 0x00AAAAAA g2);
          g4 = gfx_swap_buffers (gfx_puts cx (cy + 36) (str ''[OK] All subsystems halted.'') 0x0080FF80 g3)
      in (g4, power_try_acpi p))"

partial_function (option) wait_input_empty :: "device \<Rightarrow> port_state \<Rightarrow> port_state option" where
  "wait_input_empty dev s =
     (let (temp, s1) = inb dev 0x64 s in if temp AND 0x02 \<noteq> 0 then wait_input_empty dev s1 else Some s1)"

definition power_reboot :: "device \<Rightarrow> port_state \<Rightarrow> port_state option" where
  "power_reboot dev s = map_option (outb 0x64 0xFE) (wait_input_empty dev s)"

section \<open>The task bar\<close>

definition TASKBAR_HEIGHT :: int where "TASKBAR_HEIGHT = 40"
definition TASKBAR_COLOR :: u32 where "TASKBAR_COLOR = 0x002B2B2B"
definition TASKBAR_START_BTN_WIDTH :: int where "TASKBAR_START_BTN_WIDTH = 80"
definition START_MENU_X :: int where "START_MENU_X = 5"
definition START_MENU_WIDTH :: int where "START_MENU_WIDTH = 220"
definition START_MENU_PADDING :: int where "START_MENU_PADDING = 10"
definition START_MENU_HEADER_HEIGHT :: int where "START_MENU_HEADER_HEIGHT = 26"
definition START_MENU_ITEM_HEIGHT :: int where "START_MENU_ITEM_HEIGHT = 22"
definition START_MENU_ITEM_GAP :: int where "START_MENU_ITEM_GAP = 4"

lemmas bar_consts = TASKBAR_HEIGHT_def TASKBAR_START_BTN_WIDTH_def START_MENU_X_def START_MENU_WIDTH_def
  START_MENU_PADDING_def START_MENU_HEADER_HEIGHT_def START_MENU_ITEM_HEIGHT_def START_MENU_ITEM_GAP_def

definition COLOR_WHITE :: u32 where "COLOR_WHITE = 0x00FFFFFF"

record taskbar_state =
  taskbar_y :: int
  start_button_hover :: bool
  start_button_pressed :: bool
  start_menu_active :: bool
  start_menu_h :: int
  last_left_click :: bool

definition calc_start_menu_height :: "int \<Rightarrow> int" where
  "calc_start_menu_height n =
     (if n \<le> 0 then START_MENU_PADDING * 2 + START_MENU_HEADER_HEIGHT
      else let item_block = n * (START_MENU_ITEM_HEIGHT + START_MENU_ITEM_GAP) - START_MENU_ITEM_GAP
           in START_MENU_PADDING * 2 + START_MENU_HEADER_HEIGHT + item_block)"

definition start_action_shutdown :: "gfx_state \<Rightarrow> words_out \<Rightarrow> gfx_state \<times> words_out" where
  "start_action_shutdown g p =
     (let cx = width (vbe g) div 2;
          cy = height (vbe g) div 2;
          g1 = gfx_draw_rect (sint (cx - 150)) (sint (cy - 50)) 300 100 0x00202020 g;
          g2 = gfx_draw_rect (sint (cx - 150)) (sint (cy - 50)) 300 1 0x00808080 g1;
          g3 = gfx_draw_rect (sint (cx - 150)) (sint (cy - 50)) 1 100 0x00808080 g2;
          g4 = gfx_puts (sint (cx - 100)) (sint (cy - 30)) (str ''Sistem Kapatiliyor...'') COLOR_WHITE g3;
          g5 = gfx_puts (sint (cx - 80)) (sint cy) (str ''Khazar OS'') 0x0087CEEB g4
      in power_shutdown (gfx_swap_buffers g5) p)"

text \<open>The entries of the start menu: windows to open, and the last one that switches off.\<close>

datatype start_action = Start wm_action | Start_shutdown

definition start_items :: "(string \<times> start_action) list" where
  "start_items = [(''Terminal'', Start Open_terminal), (''Dosyalar'', Start Open_files), (''Ayarlar'', Start Open_settings),
     (''Notepad'', Start Open_notepad), (''Kapat'', Start_shutdown)]"

definition start_item_count :: int where "start_item_count = 5"

text \<open>The eight characters of the clock and their terminating zero.\<close>

definition format_time :: "rtc_time \<Rightarrow> u8 list" where
  "format_time t =
     (if hour t < 12
      then let h = (if hour t = 0 then 12 else hour t)
           in [h div 10 + 48, h mod 10 + 48, 58, minute t div 10 + 48, minute t mod 10 + 48, 32, 65, 77, 0]
      else let h = (if hour t = 12 then 12 else hour t - 12)
           in [h div 10 + 48, h mod 10 + 48, 58, minute t div 10 + 48, minute t mod 10 + 48, 32, 80, 77, 0])"

definition taskbar_init :: "vbe_info \<Rightarrow> taskbar_state \<Rightarrow> taskbar_state" where
  "taskbar_init v t = t\<lparr>taskbar_y := sint (height v - 40)\<rparr>"

text \<open>
  \<open>Halted\<close> is the end of a shutdown: the last picture and the words sent to the ports.
\<close>

datatype bar_result = Running wm_state taskbar_state | Halted gfx_state words_out

definition start_item_at :: "int \<Rightarrow> int \<Rightarrow> int option" where
  "start_item_at items_start_y py =
     find (\<lambda>i. let item_y = items_start_y + i * (START_MENU_ITEM_HEIGHT + START_MENU_ITEM_GAP)
               in py \<ge> item_y \<and> py < item_y + START_MENU_ITEM_HEIGHT) [0..start_item_count - 1]"

text \<open>The button of a window: the window under the mouse, counted from the first button.\<close>

partial_function (option) bar_find :: "int \<Rightarrow> int \<Rightarrow> wm_state \<Rightarrow> addr \<Rightarrow> addr option" where
  "bar_find px bx s cur =
     (if cur = 0 then Some 0
      else if px \<ge> bx \<and> px < bx + 150 then Some cur
      else bar_find px (bx + 160) s (wnext (windows s cur)))"

definition bar_button :: "addr \<Rightarrow> wm_state \<Rightarrow> wm_state" where
  "bar_button cur s =
     (if is_minimized (windows s cur)
      then wm_bring_to_front cur (upd_win cur (\<lambda>w. w\<lparr>is_visible := True, is_minimized := False\<rparr>) s)
      else if cur = windows_get_head s
      then upd_win cur (\<lambda>w. w\<lparr>is_visible := False, is_minimized := True\<rparr>) s
      else wm_bring_to_front cur s)"

definition in_start_menu :: "int \<Rightarrow> int \<Rightarrow> int \<Rightarrow> int \<Rightarrow> bool" where
  "in_start_menu px py y0 h \<longleftrightarrow>
     px \<ge> START_MENU_X \<and> px < START_MENU_X + START_MENU_WIDTH \<and> py \<ge> y0 \<and> py < y0 + h"

text \<open>What the part of the update outside the start button runs: the entry hit, if any.\<close>

definition start_menu_click :: "int \<Rightarrow> int \<Rightarrow> int \<Rightarrow> int \<Rightarrow> int option" where
  "start_menu_click px py y0 h =
     (let items_start_y = y0 + START_MENU_PADDING + START_MENU_HEADER_HEIGHT
      in if px \<ge> START_MENU_X + START_MENU_PADDING \<and> px < START_MENU_X + START_MENU_WIDTH - START_MENU_PADDING \<and>
            py \<ge> items_start_y \<and> py < items_start_y + h
         then start_item_at items_start_y py else None)"

text \<open>The end of the update: the state of the mouse button is kept and the window buttons are looked at.\<close>

definition bar_windows :: "mouse_state \<Rightarrow> bool \<Rightarrow> bool \<Rightarrow> wm_state \<Rightarrow> taskbar_state \<Rightarrow> bar_result option" where
  "bar_windows ms left_click just_pressed s t0 =
     (let t = t0\<lparr>last_left_click := left_click\<rparr>
      in if just_pressed \<and> my ms \<ge> taskbar_y t
         then do { cur \<leftarrow> bar_find (mx ms) 110 s (windows_get_head s);
                   Some (Running (if cur = 0 then s else bar_button cur s) t) }
         else Some (Running s t))"

definition taskbar_update :: "mouse_state \<Rightarrow> gfx_state \<Rightarrow> words_out \<Rightarrow> wm_state \<Rightarrow> taskbar_state \<Rightarrow> bar_result option" where
  "taskbar_update ms g p s t =
     (let left_click = (buttons ms AND 1 \<noteq> 0);
          just_pressed = (left_click \<and> \<not> last_left_click t);
          t0 = t\<lparr>start_menu_h := calc_start_menu_height start_item_count\<rparr>;
          y0 = taskbar_y t0 - start_menu_h t0 - 5;
          on_button = (my ms \<ge> taskbar_y t0 \<and> my ms < taskbar_y t0 + TASKBAR_HEIGHT \<and> mx ms \<ge> 0 \<and>
            mx ms < TASKBAR_START_BTN_WIDTH)
      in if on_button
         then bar_windows ms left_click just_pressed s (t0\<lparr>start_button_hover := True,
                start_menu_active := (if just_pressed then \<not> start_menu_active t0 else start_menu_active t0),
                start_button_pressed := left_click\<rparr>)
         else let t1 = t0\<lparr>start_button_hover := False, start_button_pressed := False\<rparr>;
                  t2 = (if just_pressed \<and> start_menu_active t1 \<and> \<not> in_start_menu (mx ms) (my ms) y0 (start_menu_h t1)
                        then t1\<lparr>start_menu_active := False\<rparr> else t1)
              in if start_menu_active t2 \<and> just_pressed
                 then (case start_menu_click (mx ms) (my ms) y0 (start_menu_h t2) of
                         None \<Rightarrow> bar_windows ms left_click just_pressed s t2
                       | Some i \<Rightarrow> (case snd (start_items ! nat i) of
                           Start_shutdown \<Rightarrow> (case start_action_shutdown g p of (g', p') \<Rightarrow> Some (Halted g' p'))
                         | Start fn \<Rightarrow> do { s1 \<leftarrow> run_action fn s; bar_windows ms left_click just_pressed s1 (t2\<lparr>start_menu_active := False\<rparr>) }))
                 else bar_windows ms left_click just_pressed s t2)"

definition draw_start_item :: "mouse_state \<Rightarrow> int \<Rightarrow> int \<Rightarrow> gfx_state \<Rightarrow> gfx_state" where
  "draw_start_item ms items_start_y i g =
     (let item_y = items_start_y + i * (START_MENU_ITEM_HEIGHT + START_MENU_ITEM_GAP);
          item_x = START_MENU_X + START_MENU_PADDING;
          item_w = START_MENU_WIDTH - 2 * START_MENU_PADDING;
          hover = (mx ms \<ge> item_x \<and> mx ms < item_x + item_w \<and> my ms \<ge> item_y \<and> my ms < item_y + START_MENU_ITEM_HEIGHT);
          bg = (if hover then 0x000f3460 else 0x001a1a2e)
      in gfx_puts (item_x + 8) (item_y + 6) (str (fst (start_items ! nat i))) COLOR_WHITE
           (gfx_draw_rounded_rect item_x item_y item_w START_MENU_ITEM_HEIGHT 4 bg g))"

text \<open>The height \<^verbatim>\<open>draw_start_menu\<close> stores is computed again before every other use of it.\<close>

definition draw_start_menu :: "mouse_state \<Rightarrow> taskbar_state \<Rightarrow> gfx_state \<Rightarrow> gfx_state" where
  "draw_start_menu ms t g =
     (if \<not> start_menu_active t then g
      else let h = calc_start_menu_height start_item_count;
               y0 = taskbar_y t - h - 5;
               g1 = gfx_draw_gradient_rect START_MENU_X y0 START_MENU_WIDTH h 0x0016213e 0x000f3460 True g;
               g2 = gfx_draw_rect (START_MENU_X + START_MENU_WIDTH) (y0 + 4) 4 h 0x00202020 g1;
               g3 = gfx_draw_rect (START_MENU_X + 4) (y0 + h) START_MENU_WIDTH 4 0x00202020 g2;
               header_y = y0 + START_MENU_PADDING;
               g4 = gfx_puts (START_MENU_X + START_MENU_PADDING) header_y (str ''KHAZAR OS'') 0x0087CEEB g3
           in for_int 0 start_item_count (draw_start_item ms (header_y + START_MENU_HEADER_HEIGHT)) g4)"

definition draw_wave_icon :: "int \<Rightarrow> int \<Rightarrow> gfx_state \<Rightarrow> gfx_state" where
  "draw_wave_icon x y g =
     gfx_draw_rect x (y + 12) 16 4 0x0040E0D0 (gfx_draw_rect x (y + 8) 16 4 0x0087CEEB
       (gfx_draw_rect x (y + 4) 16 4 COLOR_WHITE g))"

text \<open>
  The label of a window's button. \<^verbatim>\<open>kstrncpy\<close> fills 15 bytes of \<^verbatim>\<open>title_trim\<close> and leaves the
  sixteenth as it is; \<open>stack\<close> is that byte and what follows it on the stack.
\<close>

definition title_trim :: "u8 list \<Rightarrow> u8 list \<Rightarrow> u8 list" where
  "title_trim stack name = take 15 (takeWhile (\<lambda>c. c \<noteq> 0) name @ replicate 15 0) @ stack"

definition bar_draw_button :: "u8 list \<Rightarrow> int \<Rightarrow> int \<Rightarrow> wm_state \<Rightarrow> addr \<Rightarrow> gfx_state \<Rightarrow> gfx_state" where
  "bar_draw_button stack ty bx s cur g =
     (let w = windows s cur;
          btn_bg = (if is_minimized w then 0x00222222 else if cur = windows_get_head s then 0x004A78C8 else 0x00333333)
      in gfx_puts (bx + 10) (ty + 12) (title_trim stack (title w)) COLOR_WHITE
           (gfx_draw_rect bx (ty + 4) 150 1 0x00555555 (gfx_draw_rect bx (ty + 4) 150 (TASKBAR_HEIGHT - 8) btn_bg g)))"

partial_function (option) bar_draw_loop :: "u8 list \<Rightarrow> int \<Rightarrow> int \<Rightarrow> wm_state \<Rightarrow> addr \<Rightarrow> gfx_state \<Rightarrow> gfx_state option" where
  "bar_draw_loop stack ty bx s cur g =
     (if cur = 0 then Some g
      else bar_draw_loop stack ty (bx + 160) s (wnext (windows s cur)) (bar_draw_button stack ty bx s cur g))"

definition taskbar_draw ::
  "device \<Rightarrow> u8 list \<Rightarrow> mouse_state \<Rightarrow> taskbar_state \<Rightarrow> wm_state \<Rightarrow> port_state \<Rightarrow> gfx_state \<Rightarrow> (port_state \<times> gfx_state) option" where
  "taskbar_draw dev stack ms t s ps g =
     (let ty = taskbar_y t;
          w = sint (width (vbe g));
          g1 = gfx_draw_rect 0 ty w 1 0x00404040 (gfx_draw_rect 0 ty w TASKBAR_HEIGHT TASKBAR_COLOR g);
          start_bg = (if start_button_pressed t then 0x00151515 else if start_button_hover t then 0x00404040 else 0x00333333);
          g2 = gfx_draw_rect 2 (ty + 2) (TASKBAR_START_BTN_WIDTH - 4) (TASKBAR_HEIGHT - 4) start_bg g1;
          g3 = gfx_puts 28 (ty + 15) (str ''Start'') COLOR_WHITE (draw_wave_icon 8 (ty + 10) g2);
          clock_x = sint (width (vbe g) - 110);
          (time, ps1) = rtc_read dev (Some \<lparr>second = 0, minute = 0, hour = 0, day = 0, month = 0, year = 0, weekday = 0\<rparr>) ps;
          g4 = gfx_puts (clock_x + 5) (ty + 15) (format_time (the time)) COLOR_WHITE g3
      in map_option (\<lambda>g5. (ps1, draw_start_menu ms t g5)) (bar_draw_loop stack ty 110 s (windows_get_head s) g4))"

section \<open>The picture of the desktop\<close>

definition draw_icon_terminal :: "int \<Rightarrow> int \<Rightarrow> gfx_state \<Rightarrow> gfx_state" where
  "draw_icon_terminal x y g =
     gfx_puts (x + 4) (y + 6) (str ''> _'') 0x0000FF88 (gfx_draw_rect x y 48 2 0x0000CC88 (gfx_draw_rect x y 48 48 0x00222222 g))"

definition draw_icon_files :: "int \<Rightarrow> int \<Rightarrow> gfx_state \<Rightarrow> gfx_state" where
  "draw_icon_files x y g =
     gfx_draw_rect (x + 4) (y + 14) 40 26 0x00FFD700 (gfx_draw_rect x (y + 8) 20 8 0x00B8860B
       (gfx_draw_rect x (y + 8) 48 36 0x00D4A017 g))"

definition draw_icon_notepad :: "int \<Rightarrow> int \<Rightarrow> gfx_state \<Rightarrow> gfx_state" where
  "draw_icon_notepad x y g =
     gfx_draw_rect (x + 5) (y + 24) 25 2 0x00333333 (gfx_draw_rect (x + 5) (y + 16) 38 2 0x00333333
       (gfx_draw_rect (x + 5) (y + 8) 38 2 0x00333333 (gfx_draw_rect x y 48 48 0x00EEEEEE g)))"

text \<open>The characters of a zero-terminated array.\<close>

definition c_string :: "u8 list \<Rightarrow> u8 list" where "c_string a = takeWhile (\<lambda>c. c \<noteq> 0) a"

definition draw_desktop_icon :: "desktop_icon_t \<Rightarrow> gfx_state \<Rightarrow> gfx_state" where
  "draw_desktop_icon ic g =
     (let x = icon_x ic;
          y = icon_y ic;
          name = c_string (icon_label ic);
          g1 = (if hovered ic then gfx_draw_rect (x - 4) (y - 4) 56 70 0x33FFFFFF g else g);
          g2 = gfx_draw_rect x y 48 48 0x00404040 g1;
          g3 = (if name = str ''Terminal'' then draw_icon_terminal x y g2
                else if name = str ''Fayllar'' then draw_icon_files x y g2
                else if name = str ''Notepad'' then draw_icon_notepad x y g2
                else gfx_draw_rect (x + 10) (y + 10) 28 28 0x00AAAAAA g2);
          label_x = x + (48 - int (length name) * 8) sdiv 2
      in gfx_puts label_x (y + 52) (icon_label ic) (if hovered ic then 0x00FFFFFF else 0x00DDDDDD) g3)"

text \<open>The cells of a terminal that hold printable characters.\<close>

definition draw_cells :: "int \<Rightarrow> int \<Rightarrow> u16 list \<Rightarrow> gfx_state \<Rightarrow> gfx_state" where
  "draw_cells x cy cells =
     for_int 0 (int VGA_HEIGHT) (\<lambda>r. for_int 0 (int VGA_WIDTH) (\<lambda>c g.
       let ch = ucast (cells ! nat (r * int VGA_WIDTH + c) AND 0xFF) :: u8
       in if 32 \<le> ch \<and> ch \<le> 126 then gfx_put_char (x + 8 + c * 8) (cy + 4 + r * 12) ch 0xFFFFFFFF g else g))"

definition draw_terminal :: "window_t \<Rightarrow> int \<Rightarrow> int \<Rightarrow> console \<Rightarrow> gfx_state \<Rightarrow> gfx_state" where
  "draw_terminal w cy ch c g =
     draw_cells (wx w) cy (if wdata w \<noteq> 0 then vbuffer (terms c (unat (wdata w))) else terminal_get_buffer c)
       (gfx_draw_rect (wx w + 2) cy (ww w - 4) (ch - 2) 0x00111111 g)"

definition draw_notepad :: "window_t \<Rightarrow> int \<Rightarrow> int \<Rightarrow> (addr \<Rightarrow> notepad_data_t) \<Rightarrow> gfx_state \<Rightarrow> gfx_state" where
  "draw_notepad w cy ch ns g =
     (let g1 = gfx_draw_rect (wx w + 2) cy (ww w - 4) (ch - 2) 0x00FFFFFF g;
          t = ntext (ns (wdata w))
      in if wdata w = 0 then g1
         else gfx_draw_rect (wx w + 10 + int (length (c_string t)) * 8) (cy + 10) 2 12 0x00000000
                (gfx_puts (wx w + 10) (cy + 10) t 0x00333333 g1))"

text \<open>The machine as the settings window shows it.\<close>

record machine =
  mpmm :: pmm_state
  mpci :: "pci_device_t list"
  meth :: eth_state

text \<open>The memory line and its bar. All arithmetic is unsigned, as \<^verbatim>\<open>size_t\<close> is.\<close>

definition draw_memory :: "int \<Rightarrow> int \<Rightarrow> pmm_state \<Rightarrow> gfx_state \<Rightarrow> gfx_state option" where
  "draw_memory x cy pm g =
     (let tot = pmm_get_block_count pm * 4 div 1024;
          fre = pmm_get_free_block_count pm * 4 div 1024
      in do { buf \<leftarrow> ksprintf ''RAM: %d MB / %d MB'' [Arg32 (tot - fre), Arg32 tot];
              let g1 = gfx_puts (x + 20) (cy + 20) buf 0x00333333 g;
              let g2 = gfx_draw_rect (x + 20) (cy + 35) 300 10 0x00CCCCCC g1;
              Some (if tot > 0 then gfx_draw_rect (x + 20) (cy + 35) (sint (300 * (tot - fre) div tot)) 10 0x003A78C8 g2 else g2) })"

text \<open>The network controllers of the bus: the number shown and the picture.\<close>

definition draw_network_devices :: "int \<Rightarrow> int \<Rightarrow> pci_device_t list \<Rightarrow> gfx_state \<Rightarrow> (int \<times> gfx_state) option" where
  "draw_network_devices x cy devs g =
     fold (\<lambda>d r. do { (shown, g) \<leftarrow> r;
         if class_code d = 2
         then do { buf \<leftarrow> ksprintf ''- Bus %d, Dev %d (Ven: %x, Dev: %x)''
                     [Arg32 (ucast (pbus d)), Arg32 (ucast (pdev d)), Arg32 (ucast (vendor_id d)), Arg32 (ucast (device_id d))];
                   Some (shown + 1, gfx_puts (x + 30) (cy + 110 + shown * 15) buf 0x003A78C8 g) }
         else Some (shown, g) }) devs (Some (0, g))"

definition driver_name :: "pci_device_t \<Rightarrow> string" where
  "driver_name d =
     (if vendor_id d = 0x10EC then ''Realtek RTL8136 (Active)''
      else if vendor_id d = 0x8086 then ''Intel E1000 (Active)'' else ''Unknown'')"

definition draw_driver_status :: "int \<Rightarrow> int \<Rightarrow> eth_state \<Rightarrow> gfx_state \<Rightarrow> gfx_state option" where
  "draw_driver_status x net_status_y e g =
     (let g1 = gfx_puts (x + 20) net_status_y (str ''Driver Status:'') 0x00333333 g
      in if ethernet_is_ready e
         then if eth_initialized e \<and> eth_pci_dev e \<noteq> None
              then let d = the (eth_pci_dev e);
                       m = (\<lambda>i. Arg32 (ucast (eth_mac e ! i)))
                   in do { buf \<leftarrow> ksprintf ''- Driver: %s'' [ArgStr (Some (driver_name d))];
                           let g2 = gfx_puts (x + 30) (net_status_y + 15) buf 0x0022AA22 g1;
                           buf2 \<leftarrow> ksprintf ''- MAC: %02X:%02X:%02X:%02X:%02X:%02X'' [m 0, m 1, m 2, m 3, m 4, m 5];
                           Some (gfx_puts (x + 30) (net_status_y + 30) buf2 0x00333333 g2) }
              else Some (gfx_puts (x + 30) (net_status_y + 15) (str ''- Driver: Loaded but not bound'') 0x00CCCC22 g1)
         else Some (gfx_puts (x + 30) (net_status_y + 15) (str ''- Driver: Not active / No card match'') 0x00CC2222 g1))"

text \<open>At most six of the other devices.\<close>

definition draw_other_devices :: "int \<Rightarrow> int \<Rightarrow> pci_device_t list \<Rightarrow> gfx_state \<Rightarrow> (int \<times> gfx_state) option" where
  "draw_other_devices x other_y devs g =
     fold (\<lambda>d r. do { (shown, g) \<leftarrow> r;
         if shown < 6 \<and> class_code d \<noteq> 2
         then do { buf \<leftarrow> ksprintf ''- Bus %d, Dev %d (Ven: %x, Dev: %x, Cls: %x)''
                     [Arg32 (ucast (pbus d)), Arg32 (ucast (pdev d)), Arg32 (ucast (vendor_id d)),
                      Arg32 (ucast (device_id d)), Arg32 (ucast (class_code d))];
                   Some (shown + 1, gfx_puts (x + 30) (other_y + shown * 15) buf 0x00666666 g) }
         else Some (shown, g) }) devs (Some (0, g))"

definition draw_settings :: "window_t \<Rightarrow> int \<Rightarrow> int \<Rightarrow> machine \<Rightarrow> gfx_state \<Rightarrow> gfx_state option" where
  "draw_settings w cy ch m g =
     do { let g1 = gfx_draw_rect (wx w + 2) cy (ww w - 4) (ch - 2) 0x00F0F0F0 g;
          g2 \<leftarrow> draw_memory (wx w) cy (mpmm m) g1;
          let g3 = gfx_puts (wx w + 20) (cy + 60) (str ''CPU: x86 Generic (32-bit)'') 0x00333333 g2;
          let g4 = gfx_puts (wx w + 20) (cy + 90) (str ''Network Hardware:'') 0x00333333 g3;
          (shown0, g5) \<leftarrow> draw_network_devices (wx w) cy (mpci m) g4;
          let (shown, g6) = (if shown0 = 0
            then (1, gfx_puts (wx w + 30) (cy + 110) (str ''No PCI Network cards found!'') 0x00CC2222 g5) else (shown0, g5));
          g7 \<leftarrow> draw_driver_status (wx w) (cy + 110 + shown * 15 + 5) (meth m) g6;
          let g8 = gfx_puts (wx w + 20) (cy + 110 + (shown + 3) * 15 + 10) (str ''Other Hardware:'') 0x00333333 g7;
          (n, g9) \<leftarrow> draw_other_devices (wx w) (cy + 110 + (shown + 3) * 15 + 25) (mpci m) g8;
          Some g9 }"

text \<open>
  The first eight entries of the root directory; each node is freed after its name was drawn.
\<close>

record 'w paint =
  pic :: gfx_state
  pvfs :: "'w vfs_state"
  pheap :: kheap_state

primrec draw_files_loop :: "'w fs_ops \<Rightarrow> int \<Rightarrow> int \<Rightarrow> nat \<Rightarrow> nat \<Rightarrow> 'w paint \<Rightarrow> 'w paint" where
  "draw_files_loop fs x cy i 0 p = p"
| "draw_files_loop fs x cy i (Suc k) p =
     (let root = vfs_root (pvfs p);
          (n, vs) = op_readdir fs (freaddir (nodes (pvfs p) root)) root (of_nat i) (pvfs p)
      in if n = 0 then p\<lparr>pvfs := vs\<rparr>
         else draw_files_loop fs x cy (i + 1) k
                \<lparr>pic = gfx_puts (x + 15) (cy + 35 + int i * 20) (str (vname (nodes vs n))) 0x00444444 (pic p),
                 pvfs = vs, pheap = kfree n (pheap p)\<rparr>)"

definition draw_files :: "'w fs_ops \<Rightarrow> window_t \<Rightarrow> int \<Rightarrow> int \<Rightarrow> 'w paint \<Rightarrow> 'w paint" where
  "draw_files fs w cy ch p =
     (let p1 = p\<lparr>pic := gfx_puts (wx w + 10) (cy + 10) (str ''Fayllar Siyahisi:'') 0x00222222
                  (gfx_draw_rect (wx w + 2) cy (ww w - 4) (ch - 2) 0x00F8F8F8 (pic p))\<rparr>;
          root = vfs_root (pvfs p)
      in if root \<noteq> 0 \<and> freaddir (nodes (pvfs p) root) \<noteq> FN_NULL then draw_files_loop fs (wx w) cy 0 8 p1 else p1)"

definition draw_about :: "window_t \<Rightarrow> int \<Rightarrow> int \<Rightarrow> gfx_state \<Rightarrow> gfx_state" where
  "draw_about w cy ch g =
     gfx_puts (wx w + 20) (cy + 50) (str ''Dinamik Pencere & Yaddas Sistemi'') 0x00AAAAAA
       (gfx_puts (wx w + 20) (cy + 20) (str ''Khazar OS v0.2.0'') 0x004A90D9
         (gfx_draw_rect (wx w + 2) cy (ww w - 4) (ch - 2) 0x001A2A3A g))"

definition wm_draw_window_content :: "'w fs_ops \<Rightarrow> machine \<Rightarrow> wm_state \<Rightarrow> window_t \<Rightarrow> 'w paint \<Rightarrow> 'w paint option" where
  "wm_draw_window_content fs m s w p =
     (let cy = wy w + 26;
          ch = wh w - 26
      in case wtype w of
           WINDOW_TYPE_TERMINAL \<Rightarrow> Some (p\<lparr>pic := draw_terminal w cy ch (con s) (pic p)\<rparr>)
         | WINDOW_TYPE_NOTEPAD \<Rightarrow> Some (p\<lparr>pic := draw_notepad w cy ch (notepads s) (pic p)\<rparr>)
         | WINDOW_TYPE_SETTINGS \<Rightarrow> map_option (\<lambda>g. p\<lparr>pic := g\<rparr>) (draw_settings w cy ch m (pic p))
         | WINDOW_TYPE_FILES \<Rightarrow> Some (draw_files fs w cy ch p)
         | WINDOW_TYPE_ABOUT \<Rightarrow> Some (p\<lparr>pic := draw_about w cy ch (pic p)\<rparr>)
         | _ \<Rightarrow> Some p)"

text \<open>The frame of a window: shadow, background, title bar, buttons and the resize handle.\<close>

definition draw_frame :: "bool \<Rightarrow> window_t \<Rightarrow> gfx_state \<Rightarrow> gfx_state" where
  "draw_frame front w g =
     (let x = wx w;
          y = wy w;
          r = wx w + ww w;
          b = wy w + wh w;
          g1 = (if \<not> is_maximized w then gfx_draw_shadow x y (ww w) (wh w) 8 g else g);
          g2 = gfx_draw_rect x y (ww w) (wh w) 0xF2F2F2 g1;
          g3 = gfx_draw_rect (x + 1) (y + 1) (ww w - 2) 24 (if front then 0x3A78C8 else 0x424242) g2;
          g4 = gfx_puts (x + 10) (y + 8) (title w) 0xFFFFFF g3;
          g5 = gfx_puts (r - 17) (y + 8) (str ''X'') 0xFFFFFF (gfx_draw_rect (r - 22) (y + 4) 18 18 0xCC2222 g4);
          g6 = gfx_puts (r - 37) (y + 8) (str ''M'') 0xFFFFFF (gfx_draw_rect (r - 42) (y + 4) 18 18 0x22CC22 g5);
          g7 = gfx_puts (r - 57) (y + 8) (str ''_'') 0xFFFFFF (gfx_draw_rect (r - 62) (y + 4) 18 18 0xCCCC22 g6)
      in if \<not> is_maximized w
         then gfx_draw_rect (r - 2) (b - 10) 1 8 0x888888 (gfx_draw_rect (r - 6) (b - 6) 4 1 0x888888
                (gfx_draw_rect (r - 10) (b - 2) 8 1 0x888888 g7))
         else g7)"

text \<open>From the last window to the first, so that the front ones cover the others.\<close>

partial_function (option) draw_loop :: "'w fs_ops \<Rightarrow> machine \<Rightarrow> wm_state \<Rightarrow> addr \<Rightarrow> 'w paint \<Rightarrow> 'w paint option" where
  "draw_loop fs m s cur p =
     (if cur = 0 then Some p
      else let w = windows s cur
           in do { p1 \<leftarrow> (if is_visible w
                          then wm_draw_window_content fs m s w (p\<lparr>pic := draw_frame (cur = windows_head s) w (pic p)\<rparr>)
                          else Some p);
                   draw_loop fs m s (wprev w) p1 })"

definition draw_menu :: "menu_t \<Rightarrow> gfx_state \<Rightarrow> gfx_state" where
  "draw_menu m g =
     (if menu_visible m
      then for_int 0 (item_count m) (\<lambda>i. gfx_puts (menu_x m + 5) (menu_y m + 5 + i * 22) (mi_label (items m ! nat i)) 0x333333)
             (gfx_draw_rect (menu_x m) (menu_y m) (menu_w m) (menu_h m) 0xEEEEEE g)
      else g)"

definition wm_draw :: "'w fs_ops \<Rightarrow> machine \<Rightarrow> wm_state \<Rightarrow> 'w paint \<Rightarrow> 'w paint option" where
  "wm_draw fs m s p =
     do { p1 \<leftarrow> draw_loop fs m s (windows_tail s) (p\<lparr>pic := fold draw_desktop_icon (desktop_icons s) (pic p)\<rparr>);
          Some (p1\<lparr>pic := draw_menu (desktop_menu s) (pic p1)\<rparr>) }"

section \<open>The task bar keeps the desktop in order\<close>

lemma bar_find_seg:
  "\<lbrakk>wseg (windows s) p ws 0; 0 \<notin> set ws\<rbrakk> \<Longrightarrow>
     \<exists>cur. bar_find px bx s (head_of 0 ws) = Some cur \<and> (cur = 0 \<or> cur \<in> set ws)"
proof (induction ws arbitrary: p bx)
  case Nil
  then show ?case by (simp add: bar_find.simps)
next
  case (Cons a ws)
  show ?case
  proof (cases "px \<ge> bx \<and> px < bx + 150")
    case True
    then show ?thesis using Cons.prems by (simp add: bar_find.simps)
  next
    case False
    then have "bar_find px bx s a = bar_find px (bx + 160) s (head_of 0 ws)"
      using Cons.prems by (subst bar_find.simps) auto
    then show ?thesis using Cons.IH [of a "bx + 160"] Cons.prems by auto
  qed
qed

lemma bar_find_in:
  assumes "desktop s z"
  obtains cur where "bar_find px bx s (windows_get_head s) = Some cur" "cur = 0 \<or> (\<exists>w. (cur, w) \<in> set z)"
proof -
  have "wseg (windows s) 0 (map fst z) 0" "0 \<notin> set (map fst z)" "windows_head s = head_of 0 (map fst z)"
    using assms by (auto simp: desktop_def wlist_def)
  then obtain cur where "bar_find px bx s (windows_get_head s) = Some cur" "cur = 0 \<or> cur \<in> set (map fst z)"
    using bar_find_seg [of s 0 "map fst z" px bx] by (auto simp: windows_get_head_def)
  moreover from this(2) have "cur = 0 \<or> (\<exists>w. (cur, w) \<in> set z)" by auto
  ultimately show ?thesis using that by blast
qed

text \<open>The button of a window shows it in front, or hides it when it is in front already.\<close>

lemma bar_button_inv:
  assumes "wm_inv lo hi s z" "(a, w) \<in> set z"
  shows "\<exists>z'. wm_inv lo hi (bar_button a s) z'"
proof -
  let ?f = "\<lambda>w. w\<lparr>is_visible := True, is_minimized := False\<rparr>" and ?h = "\<lambda>w. w\<lparr>is_visible := False, is_minimized := True\<rparr>"
  have c: "wm_inv lo hi (upd_win a ?f s) (change_win a ?f z)" "wm_inv lo hi (upd_win a ?h s) (change_win a ?h z)"
    using wm_inv_change [OF assms(1) change_rules(3,4)] win_ok_rules(2) by blast+
  have "(a, ?f w) \<in> set (change_win a ?f z)" using assms(2) by (auto simp: change_win_set)
  then have "wm_inv lo hi (wm_bring_to_front a (upd_win a ?f s)) (raise_win a (change_win a ?f z))"
    by (rule wm_inv_bring [OF c(1)])
  then show ?thesis using c(2) wm_inv_bring [OF assms] by (auto simp: bar_button_def)
qed

lemma bar_windows_inv:
  assumes "wm_inv lo hi s z"
  shows "\<exists>s' t' z'. bar_windows ms click press s t = Some (Running s' t') \<and> wm_inv lo hi s' z'"
proof -
  have "desktop s z" using assms by (simp add: wm_inv_def)
  then obtain cur where "bar_find (mx ms) 110 s (windows_get_head s) = Some cur" "cur = 0 \<or> (\<exists>w. (cur, w) \<in> set z)"
    by (rule bar_find_in)
  then show ?thesis using assms bar_button_inv [OF assms, of cur] by (auto simp: bar_windows_def Let_def)
qed

lemma taskbar_update_handled:
  assumes "wm_inv lo hi s z"
  shows "case taskbar_update ms g p s t of
      None \<Rightarrow> \<not> notepad_room s | Some (Running s' t') \<Rightarrow> \<exists>z'. wm_inv lo hi s' z' | Some (Halted g' p') \<Rightarrow> True"
proof -
  let ?click = "buttons ms AND 1 \<noteq> 0"
  let ?rest = "bar_windows ms ?click (?click \<and> \<not> last_left_click t)"
  have R: "\<exists>s' t' z'. ?rest s1 t1 = Some (Running s' t') \<and> wm_inv lo hi s' z'" if "wm_inv lo hi s1 z1" for s1 z1 t1
    using bar_windows_inv [OF that] .
  have "(\<exists>t1. taskbar_update ms g p s t = ?rest s t1) \<or>
      (\<exists>fn t2. taskbar_update ms g p s t = do { s1 \<leftarrow> run_action fn s; ?rest s1 t2 }) \<or>
      (\<exists>g' p'. taskbar_update ms g p s t = Some (Halted g' p'))"
    unfolding taskbar_update_def Let_def
    by (simp split: option.split start_action.split prod.split) blast
  then show ?thesis
  proof (elim disjE exE)
    fix t1 assume "taskbar_update ms g p s t = ?rest s t1"
    then show ?thesis using R [OF assms, of t1] by auto
  next
    fix fn t2 assume e: "taskbar_update ms g p s t = do { s1 \<leftarrow> run_action fn s; ?rest s1 t2 }"
    from assms show ?thesis
    proof (cases rule: run_action_cases [where fn = fn])
      case (runs s1 z1)
      then show ?thesis using e R [OF runs(2), of t2] by auto
    qed (simp add: e)
  next
    fix g' p' assume "taskbar_update ms g p s t = Some (Halted g' p')"
    then show ?thesis by simp
  qed
qed

section \<open>The desktop over time\<close>

text \<open>
  The steps of the desktop, in any order: an event from the queue (but for the press on the close
  button of a window that follows the mouse, which frees it), the mouse moving a window, an
  update of the task bar, input arriving in the two queues, other users of the heap who leave the
  blocks of the windows alone, and output to the active terminal.
\<close>

inductive desk_reach :: "nat \<Rightarrow> nat \<Rightarrow> vbe_info \<Rightarrow> wm_state \<Rightarrow> taskbar_state \<Rightarrow> bool" for lo hi v where
  start: "\<lbrakk>kheap_live lo hi (heap s) L; active_terminal (con s) = 0; terminal_buffer (con s) = 0;
     active_window s = 0; length (items (desktop_menu s)) = 8\<rbrakk> \<Longrightarrow> desk_reach lo hi v (wm_init s) (taskbar_init v t)"
| event: "\<lbrakk>desk_reach lo hi v s t; expected ev s; wm_event v ev s = Some s'\<rbrakk> \<Longrightarrow> desk_reach lo hi v s' t"
| track: "desk_reach lo hi v s t \<Longrightarrow> desk_reach lo hi v (wm_hover x y (wm_track x y s)) t"
| bar: "\<lbrakk>desk_reach lo hi v s t; taskbar_update ms g p s t = Some (Running s' t')\<rbrakk> \<Longrightarrow> desk_reach lo hi v s' t'"
| input: "desk_reach lo hi v s t \<Longrightarrow> desk_reach lo hi v (s\<lparr>key_tty := k, events := q\<rparr>) t"
| others: "\<lbrakk>desk_reach lo hi v s t; kheap_live lo hi h L;
     \<And>z a n. \<lbrakk>desktop s z; (a, n) \<in> set (blocks z)\<rbrakk> \<Longrightarrow> \<exists>m. (a, m) \<in> L \<and> n \<le> m\<rbrakk> \<Longrightarrow> desk_reach lo hi v (s\<lparr>heap := h\<rparr>) t"
| prints: "\<lbrakk>desk_reach lo hi v s t; active_terminal c = active_terminal (con s); terminal_buffer c = terminal_buffer (con s)\<rbrakk> \<Longrightarrow>
     desk_reach lo hi v (s\<lparr>con := c\<rparr>) t"

lemma wm_init_inv:
  assumes "kheap_live lo hi (heap s) L" "active_terminal (con s) = 0" "terminal_buffer (con s) = 0"
    "active_window s = 0" "length (items (desktop_menu s)) = 8"
  shows "wm_inv lo hi (wm_init s) []"
  using assms
  by (auto simp: wm_inv_def wm_init_def Let_def desktop_icon_add_def desktop_def wlist_def mem_ok_def live_terminals_def)

lemma desk_reach_inv: "\<lbrakk>desk_reach lo hi v s t; roomy v\<rbrakk> \<Longrightarrow> \<exists>z. wm_inv lo hi s z"
proof (induction rule: desk_reach.induct)
  case (start s L t)
  then show ?case using wm_init_inv by blast
next
  case (event s t ev s')
  then show ?case using wm_event_handled [of lo hi s _ v ev] by (fastforce simp: handled_def)
next
  case (track s t x y)
  then show ?case using wm_inv_track by blast
next
  case (bar s t ms g p s' t')
  then obtain z where "wm_inv lo hi s z" by blast
  from taskbar_update_handled [OF this, of ms g p t] show ?case using bar(2) by simp
next
  case (input s t k q)
  then show ?case by (auto simp: wm_inv_def)
next
  case (others s t h L)
  then obtain z where z: "wm_inv lo hi s z" by blast
  then have d: "desktop s z" and m: "mem_ok lo hi (heap s) (blocks z)" by (simp_all add: wm_inv_def)
  have "\<forall>(a, n) \<in> set (blocks z). 0 < n \<and> (\<exists>m. (a, m) \<in> L \<and> n \<le> m)"
    using m others(3) [OF d] by (fastforce simp: mem_ok_def)
  then have "mem_ok lo hi h (blocks z)" using m others(2) unfolding mem_ok_def by blast
  then show ?case using z by (auto simp: wm_inv_def)
next
  case (prints s t c)
  then show ?case by (auto simp: wm_inv_def)
qed

text \<open>
  C30. The desktop stays in order: after any sequence of events, mouse movements, task bar updates
  and steps of the rest of the kernel, with the one exception below, the windows form one doubly
  linked list in heap blocks of their own, the active terminal and the window that follows the mouse
  are open ones, windows are at least 100 by 60 pixels, and every notepad's text is terminated
  inside its buffer. Every event and every task bar update returns, unless the heap cannot hold a
  notepad. The exception is a press of the left button on the close button of the window that
  follows the mouse, which is possible when the release before it was lost: \<^const>\<open>expected\<close> excludes it,
  because it leaves a pointer to the freed window.
\<close>

theorem desktop_safe:
  assumes "desk_reach lo hi v s t" "roomy v"
  shows "\<exists>z. wm_inv lo hi s z \<and>
    (\<forall>ev. expected ev s \<longrightarrow> notepad_room s \<longrightarrow> wm_event v ev s \<noteq> None) \<and>
    (\<forall>ms g p. notepad_room s \<longrightarrow> taskbar_update ms g p s t \<noteq> None)"
proof -
  obtain z where z: "wm_inv lo hi s z" using desk_reach_inv [OF assms] by blast
  have "wm_event v ev s \<noteq> None" if "expected ev s" "notepad_room s" for ev
    using wm_event_handled [OF z assms(2) that(1)] that(2) by (cases "wm_event v ev s") (simp_all add: handled_def)
  moreover have "taskbar_update ms g p s t \<noteq> None" if "notepad_room s" for ms g p
    using taskbar_update_handled [OF z, of ms g p t] that by (cases "taskbar_update ms g p s t") simp_all
  ultimately show ?thesis using z by blast
qed

definition bar_example :: taskbar_state where
  "bar_example = \<lparr>taskbar_y = 0, start_button_hover = False, start_button_pressed = False, start_menu_active = False,
     start_menu_h = 180, last_left_click = False\<rparr>"

text \<open>A press on the fourth icon opens a window.\<close>

definition about_click :: event_t where
  "about_click = \<lparr>ev_type = EVENT_MOUSE_CLICK, data1 = 1, data2 = 30, data3 = 330\<rparr>"

lemma about_click_example:
  "\<exists>s'. wm_event screen_1024 about_click (wm_init desk_example) = Some s' \<and> windows_head s' = 0x10A8 \<and>
     wtype (windows s' 0x10A8) = WINDOW_TYPE_ABOUT"
proof -
  have r: "kmalloc_round SIZEOF_WINDOW = SIZEOF_WINDOW" by (simp add: kmalloc_round_def SIZEOF_WINDOW_def)
  have "heap_rep 0x1000 0x1400 (heap desk_example) [(0x1000, 128, False), (0x1094, 856, True)]"
    by (simp add: heap_rep_def desk_example_def)
  then obtain h where h: "kmalloc SIZEOF_WINDOW (heap desk_example) = Some (0x10A8, h)"
    using kmalloc_refines [of "0x1000" "0x1400" "heap desk_example" _ SIZEOF_WINDOW] r
    by (fastforce simp: HEADER_SIZE_def SIZEOF_WINDOW_def)
  let ?s = "wm_init desk_example"
  have i: "heap ?s = heap desk_example" "windows_head ?s = 0" "\<not> menu_visible (desktop_menu ?s)" "windows_tail ?s = 0"
    "find (over_icon 30 330) (desktop_icons ?s) = Some (desktop_icons ?s ! 3)" "icon_action (desktop_icons ?s ! 3) = Open_about"
    by (simp_all add: wm_init_def Let_def desktop_icon_add_def desk_example_def over_icon_def)
  have "wm_event screen_1024 about_click ?s = wm_open_about ?s"
    using i by (simp add: wm_event_def about_click_def wm_click_def menu_click_def hit_loop.simps icon_click_def)
  moreover have "wm_open_about ?s = Some (upd_win 0x10A8 (place 260 210 420 240 WINDOW_TYPE_ABOUT ''Hakkinda'') (push_window 0x10A8 (?s\<lparr>heap := h\<rparr>)))"
    using wm_alloc_window_eq [of ?s "0x10A8" h] h i(1) by (simp add: wm_open_about_def)
  ultimately show ?thesis by (simp add: push_window_def upd_win_def place_def)
qed

theorem desktop_safe_witness:
  "\<exists>s z. wm_event screen_1024 about_click (wm_init desk_example) = Some s \<and> windows_head s = 0x10A8 \<and> wm_inv 0x1000 0x1400 s z \<and>
    (\<forall>ev. expected ev s \<longrightarrow> notepad_room s \<longrightarrow> wm_event screen_1024 ev s \<noteq> None) \<and>
    (\<forall>ms g p. notepad_room s \<longrightarrow> taskbar_update ms g p s (taskbar_init screen_1024 bar_example) \<noteq> None)"
proof -
  obtain L where "kheap_live 0x1000 0x1400 (heap desk_example) L"
    using desk_example_inv by (auto simp: wm_inv_def mem_ok_def)
  then have r: "desk_reach 0x1000 0x1400 screen_1024 (wm_init desk_example) (taskbar_init screen_1024 bar_example)"
    by (rule desk_reach.start) (simp_all add: desk_example_def console_example_def)
  obtain s where s: "wm_event screen_1024 about_click (wm_init desk_example) = Some s" "windows_head s = 0x10A8"
    using about_click_example by blast
  have "active_window (wm_init desk_example) = 0" by (simp add: wm_init_def Let_def desktop_icon_add_def desk_example_def)
  then have "expected about_click (wm_init desk_example)" by (simp add: expected_def closes_held_def)
  from desk_reach.event [OF r this s(1)] have "desk_reach 0x1000 0x1400 screen_1024 s (taskbar_init screen_1024 bar_example)" .
  moreover have "roomy screen_1024" by (simp add: roomy_def screen_1024_def)
  ultimately show ?thesis using s desktop_safe by blast
qed

section \<open>Painting\<close>

text \<open>Every drawing function changes the back buffer only; the list of windows is walked to its end.\<close>

lemma draws_step: "\<lbrakk>draws d; draws e\<rbrakk> \<Longrightarrow> draws (\<lambda>g. d (e g))"
  by (rule draws_comp)

lemma draws_eta: "draws (\<lambda>g. d g) \<Longrightarrow> draws d"
  by simp

lemmas draws_rules = draws_step [OF draws_puts] draws_step [OF draws_rect] draws_step [OF draws_rounded_rect]
  draws_step [OF draws_gradient_rect] draws_step [OF draws_shadow] draws_step [OF draws_for] draws_if draws_id
  draws_puts draws_rect draws_put_char draws_for draws_shadow draws_gradient_rect draws_rounded_rect

lemma draws_bar:
  "draws (draw_start_item ms y i)" "draws (draw_start_menu ms t)" "draws (draw_wave_icon x y)"
  "draws (bar_draw_button stack ty bx s cur)"
proof -
  show i: "draws (draw_start_item ms y i)" for y i
    unfolding draw_start_item_def [abs_def] Let_def by (intro draws_rules)
  show "draws (draw_start_menu ms t)"
    unfolding draw_start_menu_def [abs_def] Let_def by (intro draws_rules i)
  show "draws (draw_wave_icon x y)" unfolding draw_wave_icon_def [abs_def] by (intro draws_rules)
  show "draws (bar_draw_button stack ty bx s cur)"
    unfolding bar_draw_button_def [abs_def] Let_def by (intro draws_rules)
qed

lemma draws_icons:
  "draws (draw_icon_terminal x y)" "draws (draw_icon_files x y)" "draws (draw_icon_notepad x y)" "draws (draw_desktop_icon ic)"
proof -
  show t: "draws (draw_icon_terminal x y)" for x y unfolding draw_icon_terminal_def [abs_def] by (intro draws_rules)
  show f: "draws (draw_icon_files x y)" for x y unfolding draw_icon_files_def [abs_def] by (intro draws_rules)
  show n: "draws (draw_icon_notepad x y)" for x y unfolding draw_icon_notepad_def [abs_def] by (intro draws_rules)
  let ?pic = "\<lambda>g. if c_string (icon_label ic) = str ''Terminal'' then draw_icon_terminal (icon_x ic) (icon_y ic) g
    else if c_string (icon_label ic) = str ''Fayllar'' then draw_icon_files (icon_x ic) (icon_y ic) g
    else if c_string (icon_label ic) = str ''Notepad'' then draw_icon_notepad (icon_x ic) (icon_y ic) g
    else gfx_draw_rect (icon_x ic + 10) (icon_y ic + 10) 28 28 0x00AAAAAA g"
  have p: "draws ?pic" by (intro draws_if t f n draws_rect)
  show "draws (draw_desktop_icon ic)"
    unfolding draw_desktop_icon_def [abs_def] Let_def
    by (intro draws_step [OF draws_puts] draws_step [OF p, simplified] draws_step [OF draws_rect] draws_if draws_rect draws_id)
qed

lemma draws_windows:
  "draws (draw_cells x cy cells)" "draws (draw_terminal w cy ch c)" "draws (draw_notepad w cy ch ns)"
  "draws (draw_about w cy ch)" "draws (draw_frame front w)" "draws (draw_menu m)"
proof -
  show c: "draws (draw_cells x cy cells)" for x cy cells
    unfolding draw_cells_def Let_def by (intro draws_for draws_if draws_id draws_put_char)
  show "draws (draw_terminal w cy ch c)"
    unfolding draw_terminal_def [abs_def] by (intro draws_step [OF c] draws_rect)
  show "draws (draw_notepad w cy ch ns)"
    unfolding draw_notepad_def [abs_def] Let_def by (intro draws_rules)
  show "draws (draw_about w cy ch)" unfolding draw_about_def [abs_def] by (intro draws_rules)
  show "draws (draw_frame front w)" unfolding draw_frame_def [abs_def] Let_def by (intro draws_rules)
  show "draws (draw_menu m)" unfolding draw_menu_def [abs_def] by (intro draws_rules)
qed

definition repainted :: "gfx_state \<Rightarrow> gfx_state \<Rightarrow> bool" where
  "repainted g g' \<longleftrightarrow> (gfx_ok g \<longrightarrow> gfx_ok g' \<and> vbe g' = vbe g \<and> frontbuffer g' = frontbuffer g \<and> vram g' = vram g \<and>
     (backbuffer g' = None \<longleftrightarrow> backbuffer g = None))"

lemma repainted_draws: "draws d \<Longrightarrow> repainted g (d g)"
  using draws_D [of d g] by (simp add: repainted_def)

lemma repainted_refl [simp]: "repainted g g"
  by (simp add: repainted_def)

lemma repainted_trans: "\<lbrakk>repainted g h; repainted h k\<rbrakk> \<Longrightarrow> repainted g k"
  by (auto simp: repainted_def)

lemma fold_option_repaints:
  assumes "\<And>x n g. \<exists>n' g'. f x (Some (n, g)) = Some (n', g') \<and> repainted g g'"
  shows "\<exists>n' g'. fold f xs (Some (n, g)) = Some (n' :: int, g') \<and> repainted g g'"
proof (induction xs arbitrary: n g)
  case (Cons x xs)
  obtain n1 g1 where "f x (Some (n, g)) = Some (n1, g1)" "repainted g g1" using assms by blast
  then show ?case using Cons.IH [of n1 g1] repainted_trans by fastforce
qed simp

text \<open>All formats of the settings window are defined on their arguments.\<close>

lemma format_lines:
  "\<exists>b. ksprintf ''RAM: %d MB / %d MB'' [Arg32 x, Arg32 y] = Some b"
  "\<exists>b. ksprintf ''- Bus %d, Dev %d (Ven: %x, Dev: %x)'' [Arg32 x, Arg32 y, Arg32 u, Arg32 w] = Some b"
  "\<exists>b. ksprintf ''- Bus %d, Dev %d (Ven: %x, Dev: %x, Cls: %x)'' [Arg32 x, Arg32 y, Arg32 u, Arg32 w, Arg32 v] = Some b"
  "\<exists>b. ksprintf ''- Driver: %s'' [ArgStr (Some n)] = Some b"
  by (simp_all add: ksprintf_def kvprintf.simps convert_def is_digit_def)

text \<open>
  The formatter has no conversion \<^verbatim>\<open>%X\<close>: the line that should show the adapter's address shows the
  conversion characters, whatever the address is.
\<close>

lemma mac_line_is_constant:
  "ksprintf ''- MAC: %02X:%02X:%02X:%02X:%02X:%02X'' args = Some (str ''- MAC: %X:%X:%X:%X:%X:%X'' @ [0])"
  by (simp add: ksprintf_def kvprintf.simps convert_def is_digit_def str_def)

lemma draw_settings_repaints: "\<exists>g'. draw_settings w cy ch m g = Some g' \<and> repainted g g'"
proof -
  note R = repainted_draws [OF draws_puts] repainted_draws [OF draws_rect]
  have M: "\<exists>g'. draw_memory x y pm g = Some g' \<and> repainted g g'" for x y pm g
  proof -
    have "repainted g (gfx_draw_rect a b c d e (gfx_draw_rect a' b' c' d' e' (gfx_puts i j k l g)))"
      "repainted g (gfx_draw_rect a' b' c' d' e' (gfx_puts i j k l g))" for a b c d e a' b' c' d' e' i j k l
      using R repainted_trans by metis+
    note P = this
    obtain b where "ksprintf ''RAM: %d MB / %d MB'' [Arg32 (pmm_get_block_count pm * 4 div 1024 - pmm_get_free_block_count pm * 4 div 1024),
        Arg32 (pmm_get_block_count pm * 4 div 1024)] = Some b" using format_lines(1) by blast
    then show ?thesis by (simp add: draw_memory_def Let_def P)
  qed
  have N: "\<exists>n g'. draw_network_devices x y devs g = Some (n, g') \<and> repainted g g'" for x y devs g
    unfolding draw_network_devices_def
  proof (rule fold_option_repaints, goal_cases)
    case (1 d n g)
    obtain b where "ksprintf ''- Bus %d, Dev %d (Ven: %x, Dev: %x)''
        [Arg32 (ucast (pbus d)), Arg32 (ucast (pdev d)), Arg32 (ucast (vendor_id d)), Arg32 (ucast (device_id d))] = Some b"
      using format_lines(2) by blast
    then show ?case by (cases "class_code d = 2") (simp_all add: R(1))
  qed
  have O: "\<exists>n g'. draw_other_devices x y devs g = Some (n, g') \<and> repainted g g'" for x y devs g
    unfolding draw_other_devices_def
  proof (rule fold_option_repaints, goal_cases)
    case (1 d n g)
    obtain b where "ksprintf ''- Bus %d, Dev %d (Ven: %x, Dev: %x, Cls: %x)'' [Arg32 (ucast (pbus d)), Arg32 (ucast (pdev d)),
        Arg32 (ucast (vendor_id d)), Arg32 (ucast (device_id d)), Arg32 (ucast (class_code d))] = Some b"
      using format_lines(3) by blast
    then show ?case by (cases "n < 6 \<and> class_code d \<noteq> 2") (auto simp: R(1))
  qed
  have D: "\<exists>g'. draw_driver_status x y e g = Some g' \<and> repainted g g'" for x y e g
  proof -
    have "repainted g (gfx_puts a b c d (gfx_puts a' b' c' d' (gfx_puts i j k l g)))"
      "repainted g (gfx_puts a' b' c' d' (gfx_puts i j k l g))" for a b c d a' b' c' d' i j k l
      using R repainted_trans by metis+
    note P = this
    obtain b where b: "ksprintf ''- Driver: %s'' [ArgStr (Some (driver_name (the (eth_pci_dev e))))] = Some b"
      using format_lines(4) by blast
    show ?thesis
    proof (cases "ethernet_is_ready e \<and> eth_initialized e \<and> eth_pci_dev e \<noteq> None")
      case True
      then show ?thesis using b by (simp add: draw_driver_status_def Let_def mac_line_is_constant P)
    next
      case False
      then show ?thesis by (auto simp: draw_driver_status_def Let_def P)
    qed
  qed
  let ?x = "wx w"
  let ?g1 = "gfx_draw_rect (?x + 2) cy (ww w - 4) (ch - 2) 0x00F0F0F0 g"
  obtain g2 where g2: "draw_memory ?x cy (mpmm m) ?g1 = Some g2" "repainted ?g1 g2" using M by blast
  let ?g4 = "gfx_puts (?x + 20) (cy + 90) (str ''Network Hardware:'') 0x00333333
     (gfx_puts (?x + 20) (cy + 60) (str ''CPU: x86 Generic (32-bit)'') 0x00333333 g2)"
  obtain n g5 where g5: "draw_network_devices ?x cy (mpci m) ?g4 = Some (n, g5)" "repainted ?g4 g5" using N by blast
  define sg where "sg = (if n = 0
    then (1, gfx_puts (?x + 30) (cy + 110) (str ''No PCI Network cards found!'') 0x00CC2222 g5) else (n, g5))"
  have s: "repainted g5 (snd sg)" by (simp add: sg_def R(1))
  obtain g7 where g7: "draw_driver_status ?x (cy + 110 + fst sg * 15 + 5) (meth m) (snd sg) = Some g7" "repainted (snd sg) g7"
    using D by blast
  let ?g8 = "gfx_puts (?x + 20) (cy + 110 + (fst sg + 3) * 15 + 10) (str ''Other Hardware:'') 0x00333333 g7"
  obtain k g9 where g9: "draw_other_devices ?x (cy + 110 + (fst sg + 3) * 15 + 25) (mpci m) ?g8 = Some (k, g9)" "repainted ?g8 g9"
    using O by blast
  have "draw_settings w cy ch m g = Some g9"
    using g2(1) g5(1) g7(1) g9(1) by (cases "n = 0") (simp_all add: draw_settings_def Let_def sg_def)
  moreover have "repainted g g9"
    by (rule repainted_trans [OF R(2) repainted_trans [OF g2(2) repainted_trans [OF R(1) repainted_trans [OF R(1)
      repainted_trans [OF g5(2) repainted_trans [OF s repainted_trans [OF g7(2) repainted_trans [OF R(1) g9(2)]]]]]]]])
  ultimately show ?thesis by blast
qed

lemma draw_files_repaints: "repainted (pic p) (pic (draw_files fs w cy ch p))"
proof -
  have L: "repainted (pic p) (pic (draw_files_loop fs x cy i k p))" for x i k p
  proof (induction k arbitrary: i p)
    case (Suc k)
    let ?root = "vfs_root (pvfs p)"
    obtain n vs where r: "op_readdir fs (freaddir (nodes (pvfs p) ?root)) ?root (of_nat i) (pvfs p) = (n, vs)"
      by (cases "op_readdir fs (freaddir (nodes (pvfs p) ?root)) ?root (of_nat i) (pvfs p)")
    let ?p = "\<lparr>pic = gfx_puts (x + 15) (cy + 35 + int i * 20) (str (vname (nodes vs n))) 0x00444444 (pic p),
      pvfs = vs, pheap = kfree n (pheap p)\<rparr>"
    have "repainted (pic p) (pic ?p)" by (simp add: repainted_draws draws_puts)
    from repainted_trans [OF this Suc.IH] show ?case by (simp add: r)
  qed simp
  have "repainted g (gfx_puts a b c d (gfx_draw_rect i j k l n g))" for a b c d i j k l n g
    using repainted_draws [OF draws_puts] repainted_draws [OF draws_rect] repainted_trans by metis
  moreover have "repainted g (pic (draw_files_loop fs x cy i k (p\<lparr>pic := h\<rparr>)))" if "repainted g h" for g h x i k
    using L [where p = "p\<lparr>pic := h\<rparr>"] that repainted_trans by fastforce
  ultimately show ?thesis by (simp add: draw_files_def Let_def)
qed

lemma window_content_repaints:
  "\<exists>p'. wm_draw_window_content fs m s w p = Some p' \<and> repainted (pic p) (pic p')"
proof -
  obtain g' where "draw_settings w (wy w + 26) (wh w - 26) m (pic p) = Some g'" "repainted (pic p) g'"
    using draw_settings_repaints by blast
  then show ?thesis
    by (cases "wtype w") (simp_all add: wm_draw_window_content_def Let_def repainted_draws draws_windows draw_files_repaints)
qed

lemma draw_loop_repaints:
  "\<lbrakk>wseg (windows s) 0 ws q; 0 \<notin> set ws\<rbrakk> \<Longrightarrow>
     \<exists>p'. draw_loop fs m s (end_of 0 ws) p = Some p' \<and> repainted (pic p) (pic p')"
proof (induction ws arbitrary: q p rule: rev_induct)
  case Nil
  then show ?case by (simp add: draw_loop.simps)
next
  case (snoc a ws)
  let ?w = "windows s a" and ?f = "p\<lparr>pic := draw_frame (a = windows_head s) (windows s a) (pic p)\<rparr>"
  have a: "a \<noteq> 0" "wprev ?w = end_of 0 ws" "wseg (windows s) 0 ws a" "0 \<notin> set ws" using snoc.prems by (auto simp: wseg_append)
  obtain p1 where p1: "wm_draw_window_content fs m s ?w ?f = Some p1" "repainted (pic ?f) (pic p1)"
    using window_content_repaints by blast
  have f: "repainted (pic p) (pic ?f)" by (simp add: repainted_draws draws_windows)
  define p2 where "p2 = (if is_visible ?w then p1 else p)"
  have p2: "repainted (pic p) (pic p2)" using repainted_trans [OF f p1(2)] by (simp add: p2_def)
  obtain p' where p': "draw_loop fs m s (end_of 0 ws) p2 = Some p'" "repainted (pic p2) (pic p')"
    using snoc.IH [OF a(3,4)] by blast
  have "draw_loop fs m s a p = Some p'" using a(1,2) p1(1) p'(1) by (subst draw_loop.simps) (simp add: p2_def Let_def split: if_splits)
  then show ?case using repainted_trans [OF p2 p'(2)] by simp
qed

text \<open>
  Drawing the desktop returns on every desktop in order, and touches nothing but the back buffer, so
  that the next swap shows the whole picture.
\<close>

lemma wm_draw_returns:
  assumes "wm_inv lo hi s z"
  shows "\<exists>p'. wm_draw fs m s p = Some p' \<and> repainted (pic p) (pic p')"
proof -
  have d: "wseg (windows s) 0 (map fst z) 0" "0 \<notin> set (map fst z)" "windows_tail s = end_of 0 (map fst z)"
    using assms by (auto simp: wm_inv_def desktop_def wlist_def)
  let ?p = "p\<lparr>pic := fold draw_desktop_icon (desktop_icons s) (pic p)\<rparr>"
  obtain p1 where p1: "draw_loop fs m s (windows_tail s) ?p = Some p1" "repainted (pic ?p) (pic p1)"
    using draw_loop_repaints [OF d(1,2)] d(3) by metis
  have "repainted (pic p) (pic ?p)" by (simp add: repainted_draws draws_fold draws_icons)
  moreover have "repainted (pic p1) (draw_menu (desktop_menu s) (pic p1))" by (simp add: repainted_draws draws_windows)
  ultimately have "repainted (pic p) (draw_menu (desktop_menu s) (pic p1))" using p1(2) repainted_trans by blast
  then show ?thesis using p1(1) by (simp add: wm_draw_def)
qed

lemma taskbar_draw_returns:
  assumes "wm_inv lo hi s z"
  shows "\<exists>ps' g'. taskbar_draw dev stack ms t s ps g = Some (ps', g') \<and> repainted g g'"
proof -
  have L: "\<exists>g'. bar_draw_loop stack ty bx s (head_of 0 ws) g = Some g' \<and> repainted g g'"
    if "wseg (windows s) p ws 0" "0 \<notin> set ws" for ty bx ws p g
    using that
  proof (induction ws arbitrary: p bx g)
    case Nil
    then show ?case by (simp add: bar_draw_loop.simps)
  next
    case (Cons a ws)
    let ?g = "bar_draw_button stack ty bx s a g"
    obtain g' where "bar_draw_loop stack ty (bx + 160) s (head_of 0 ws) ?g = Some g'" "repainted ?g g'"
      using Cons.IH [of a] Cons.prems by fastforce
    moreover have "repainted g ?g" by (simp add: repainted_draws draws_bar)
    ultimately show ?case using Cons.prems repainted_trans by (subst bar_draw_loop.simps) auto
  qed
  have d: "wseg (windows s) 0 (map fst z) 0" "0 \<notin> set (map fst z)" "windows_get_head s = head_of 0 (map fst z)"
    using assms by (auto simp: wm_inv_def desktop_def wlist_def windows_get_head_def)
  define g4 where "g4 = gfx_puts (sint (width (vbe g) - 110) + 5) (taskbar_y t + 15) (format_time (the (fst (rtc_read dev
      (Some \<lparr>second = 0, minute = 0, hour = 0, day = 0, month = 0, year = 0, weekday = 0\<rparr>) ps)))) COLOR_WHITE
    (gfx_puts 28 (taskbar_y t + 15) (str ''Start'') COLOR_WHITE (draw_wave_icon 8 (taskbar_y t + 10)
      (gfx_draw_rect 2 (taskbar_y t + 2) (TASKBAR_START_BTN_WIDTH - 4) (TASKBAR_HEIGHT - 4)
        (if start_button_pressed t then 0x00151515 else if start_button_hover t then 0x00404040 else 0x00333333)
      (gfx_draw_rect 0 (taskbar_y t) (sint (width (vbe g))) 1 0x00404040
        (gfx_draw_rect 0 (taskbar_y t) (sint (width (vbe g))) TASKBAR_HEIGHT TASKBAR_COLOR g)))))"
  have "draws (\<lambda>h. gfx_puts a1 a2 a3 a4 (gfx_puts b1 b2 b3 b4 (draw_wave_icon c1 c2 (gfx_draw_rect d1 d2 d3 d4 d5
      (gfx_draw_rect e1 e2 e3 e4 e5 (gfx_draw_rect f1 f2 f3 f4 f5 h))))))" for a1 a2 a3 a4 b1 b2 b3 b4 c1 c2 d1 d2 d3 d4 d5 e1 e2 e3 e4 e5 f1 f2 f3 f4 f5
    by (intro draws_rules draws_step [OF draws_bar(3)])
  from repainted_draws [OF this] have g4: "repainted g g4" unfolding g4_def .
  obtain g5 where g5: "bar_draw_loop stack (taskbar_y t) 110 s (windows_get_head s) g4 = Some g5" "repainted g4 g5"
    using L [OF d(1,2)] d(3) by metis
  then have "repainted g (draw_start_menu ms t g5)"
    using g4 repainted_draws [OF draws_bar(2)] repainted_trans by metis
  then show ?thesis using g5(1) by (simp add: taskbar_draw_def Let_def split_beta g4_def)
qed

section \<open>The clock and the labels\<close>

text \<open>The clock shows hours from 1 to 12 and minutes as two digits each.\<close>

lemma digits_u8: "unat (n :: u8) < 100 \<Longrightarrow> unat (n div 10 + 48) = unat n div 10 + 48 \<and> unat (n mod 10 + 48) = unat n mod 10 + 48"
  using unat_plus_no_wrap [of "n div 10" 48] unat_plus_no_wrap [of "n mod 10" 48]
  by (simp add: unat_div unat_mod)

text \<open>
  A title of 15 characters or more fills the label without a terminating zero: the text drawn goes on
  with whatever the stack holds. The title of a terminal has exactly 15 characters.
\<close>

lemma title_trim_overread:
  "c_string (title_trim stack (map of_char ''Khazar Terminal'' @ replicate 49 0)) = str ''Khazar Terminal'' @ c_string stack"
  by (simp add: title_trim_def c_string_def str_def)

lemma title_trim_short:
  "length (c_string name) < 15 \<Longrightarrow> c_string (title_trim stack name) = c_string name"
proof -
  assume l: "length (c_string name) < 15"
  have "take 15 (c_string name @ replicate 15 0) = c_string name @ 0 # replicate (14 - length (c_string name)) 0"
    using l by (simp add: replicate_Suc [symmetric] del: replicate_Suc)
  moreover have "takeWhile (\<lambda>c. c \<noteq> 0) (c_string name @ 0 # r) = c_string name" for r
    by (rule takeWhile_append2 [THEN trans]) (auto simp: c_string_def dest: set_takeWhileD)
  ultimately show ?thesis by (simp add: title_trim_def c_string_def)
qed

end
