(* ===== verification/Spec2Isabelle.thy ===== *)
theory Spec2Isabelle
  imports Khazar_Ata Khazar_Pkg Khazar_User Khazar_Boot Khazar_Taskbar
begin

text \<open>
  A verification library for the KhazarOS kernel, a 32-bit x86 kernel in C with paging,
  processes, a FAT32 file system, a small IPv4 stack and a graphical desktop. Paths below are
  relative to the source tree.

  \<^bold>\<open>The program and its theories.\<close> Each theory models one part of the kernel: the static
  variables and structures of a file are a record, its enumerations and tagged unions datatypes,
  each C function one definition of the same name. Unsigned integers keep their width as words;
  \<^verbatim>\<open>int\<close> values that cannot overflow in the code's use are mathematical integers, and where a
  theory takes that step its text says so. Failures of the machine (a null pointer read, a write
  outside a mapping, a kernel panic) are values of the model, so a theorem that a function
  returns also says that it does not fault.

    \<^item> \<open>Khazar_Prelude\<close>: names of the machine integers, theorem collections, lemmas on words, lists
      and options that several theories use. \<open>Khazar_Bytes\<close>: little-endian and network-order
      fields in byte buffers.
    \<^item> \<open>Khazar_Pmm\<close> (\<^verbatim>\<open>kernel/mm/allocator/pmm.c\<close>): the frame bitmap. The locale
      \<open>frame_allocator\<close> is the contract the page tables and processes rely on; its
      interpretation discharges it for \<open>pmm_alloc_block\<close> and \<open>pmm_free_block\<close>.
    \<^item> \<open>Khazar_Vmm\<close> (\<^verbatim>\<open>kernel/mm/paging/vmm.c\<close>): two-level page tables in an explicit store of
      32-bit words reached through the direct map. The specification is the walk of the tables,
      \<open>vmm_get_phys\<close>; the lemmas say what each operation does to it.
    \<^item> \<open>Khazar_Kheap\<close> (\<^verbatim>\<open>kernel/mm/allocator/kheap.c\<close>): the doubly linked block list. Its
      abstraction is the list of (offset, size, free) blocks that tile the heap; \<open>kmalloc\<close> and
      \<open>kfree\<close> refine first fit and merging on that list. The locale \<open>heap_allocator\<close> is the
      contract of its clients.
    \<^item> \<open>Khazar_String\<close> (\<^verbatim>\<open>kernel/include/libk/string.h\<close>): memory and string routines on a byte
      store, with the word-at-a-time loops and their equivalence with byte-wise copies.
    \<^item> \<open>Khazar_Queues\<close> (\<^verbatim>\<open>kernel/drivers/char/tty.c\<close>, \<^verbatim>\<open>kernel/core/events.c\<close>): the two ring
      buffers, both interpretations of the locale \<open>bounded_queue\<close>.
    \<^item> \<open>Khazar_Process\<close> (\<^verbatim>\<open>kernel/proc/task/process.c\<close>, \<^verbatim>\<open>kernel/proc/scheduler/scheduler.c\<close>,
      \<^verbatim>\<open>kernel/proc/wait.c\<close>, \<^verbatim>\<open>kernel/mm/paging/fault.c\<close>): the process table, the circular
      ready queue, blocking and waking. It builds on the frame and heap contracts.
    \<^item> \<open>Khazar_Terminal\<close> (\<^verbatim>\<open>kernel/drivers/gpu/vga.c\<close>, \<^verbatim>\<open>kernel/drivers/char/serial.c\<close>): the text
      console with its scrolling shadow, the formatting engine, the serial port.
    \<^item> \<open>Khazar_Vfs\<close> (\<^verbatim>\<open>kernel/fs/vfs/vfs.c\<close>, \<^verbatim>\<open>kernel/fs/devfs/devfs.c\<close>): nodes with their operation
      tables, mounts, path walking, the device directory.
    \<^item> \<open>Khazar_Fat32\<close> (\<^verbatim>\<open>kernel/fs/fat32/fat32.c\<close>, and from \<^verbatim>\<open>kernel/drivers/block\<close> the sector counts
      of the transfers): the volume as an array of sectors, the allocation table, cluster
      chains, directories, short names.
    \<^item> \<open>Khazar_Pci\<close> (\<^verbatim>\<open>kernel/drivers/pci.c\<close>), \<open>Khazar_Ethernet\<close>
      (\<^verbatim>\<open>kernel/net/ethernet/ethernet.c\<close>, \<^verbatim>\<open>kernel/drivers/net/rtl8169.c\<close>): bus scan, configuration
      access, and the descriptor rings of the two adapters, with the card's writes as steps.
    \<^item> \<open>Khazar_Net\<close> (\<^verbatim>\<open>kernel/net/arp\<close>, \<^verbatim>\<open>ipv4\<close>, \<^verbatim>\<open>udp\<close>, \<^verbatim>\<open>net.c\<close>), \<open>Khazar_Dns\<close> (\<^verbatim>\<open>kernel/net/dns.c\<close>):
      frames built and taken apart byte by byte. The locale \<open>resolver\<close> is the contract of the
      address cache.
    \<^item> \<open>Khazar_Pe\<close> (\<^verbatim>\<open>kernel/core/pe.c\<close>): user memory through the page tables and the loader of
      executables into it.
    \<^item> \<open>Khazar_Syscall\<close> (\<^verbatim>\<open>kernel/syscall/table.c\<close>): the system call handler over the process table,
      the file system and user memory.
    \<^item> \<open>Khazar_Interrupts\<close> (\<^verbatim>\<open>kernel/arch/x86/gdt.c\<close>, \<^verbatim>\<open>idt.c\<close>, \<^verbatim>\<open>isr.c\<close>): descriptor encodings, the
      interrupt controllers' initialisation and acknowledgement, exception dispatch; the two
      8259A controllers with their lines in service are the specification of the acknowledgement.
    \<^item> \<open>Khazar_Gfx\<close> (\<^verbatim>\<open>kernel/drivers/gpu/gfx.c\<close>, the glyph table's reader, \<^verbatim>\<open>tga.h\<close>): the frame
      buffer and its back buffer, clipped pixels, rectangles, lines, blending, gradients, text
      and images. \<open>Khazar_Vbe\<close> (\<^verbatim>\<open>kernel/drivers/gpu/vbe.c\<close>): the mapping of the frame buffer.
      \<open>Khazar_Picture\<close>: saving a rectangle of pixels and putting it back.
    \<^item> \<open>Khazar_Timer\<close> (\<^verbatim>\<open>kernel/drivers/char/pit.c\<close>, \<^verbatim>\<open>rtc.c\<close>): port access, the tick counter
      with its millisecond accumulator, the clock chip's registers.
    \<^item> \<open>Khazar_Input\<close> (\<^verbatim>\<open>kernel/drivers/input/keyboard.c\<close>, \<^verbatim>\<open>mouse.c\<close>): scan codes to characters,
      three-byte mouse packets, the cursor drawn over saved pixels.
    \<^item> \<open>Khazar_Ata\<close> (\<^verbatim>\<open>kernel/drivers/block/ata.c\<close>): the whole programmed-I/O driver over a bus whose
      registers are a record of the drive's behaviour.
    \<^item> \<open>Khazar_Wm\<close>, \<open>Khazar_Desktop\<close> (\<^verbatim>\<open>kernel/core/gui/wm.c\<close>): the doubly linked list of windows
      with its stacking order, then the event loop's handlers and the built-in applications.
      \<open>Khazar_Taskbar\<close> (\<^verbatim>\<open>kernel/core/gui/taskbar.c\<close>, \<^verbatim>\<open>kernel/core/power.c\<close>): the bar, its menu,
      and the desktop as a step relation over all of them.
    \<^item> \<open>Khazar_Pkg\<close> (\<^verbatim>\<open>kernel/core/pkg.c\<close>): the package client over UDP and the file system.
    \<^item> \<open>Khazar_User\<close> (\<^verbatim>\<open>userland/libc\<close>, \<^verbatim>\<open>userland/bin\<close>): the user C library and the programs. The
      locales \<open>user_console\<close> and \<open>user_process\<close> are what the programs rely on; they are
      interpreted on the kernel's system calls.
    \<^item> \<open>Khazar_Boot\<close> (\<^verbatim>\<open>kernel/core/kernel.c\<close>): how the memory map becomes the frame bitmap, the page
      tables and the heap, and the choice of the frame buffer.

  \<^bold>\<open>How the parts interact.\<close> A system call runs on the current process of the scheduler, finds
  its descriptors in the process table, resolves paths in the virtual file system, whose nodes
  are provided by FAT32 and by the device file system, and copies between kernel and user
  memory through the page tables. A new process takes frames from the physical allocator, a
  page directory cloned from the kernel's, structures from the heap and its image from the
  loader. Received frames pass from a descriptor ring through the Ethernet type to ARP or IPv4,
  from there to ICMP or a UDP port's buffer; the resolver is a client of UDP, and so is the package client, which
  writes what it receives through the virtual file system. Interrupt handlers of the keyboard
  and the mouse put events into the queue that the desktop's loop takes them from; it changes
  the window list, writes to the terminals and draws with the graphics routines. User programs
  reach all of this through the system call handler only.

  \<^bold>\<open>What the theorems show.\<close>
    \<^item> Memory: frames and heap blocks handed out are fresh and disjoint, first fit is the lowest
      hole, freeing merges with free neighbours; mapping changes the
      translation of exactly one page; a cloned directory keeps the kernel's
      half of the address space and has an empty user half.
    \<^item> Scheduling: as long as no zombie process is without a living parent, a choice is the next
      ready thread of the ring and every ready thread runs within one round; a process is created completely or not at all; terminating a live
      process whose thread is in the ring does not return.
    \<^item> Files: reads return the bytes of the cluster chain (on drivers that move a whole cluster, for
      ranges that do not wrap), allocation takes the lowest free
      cluster, a created entry is found again, freeing a chain ends and frees it; a path walk
      is the fold of the directory lookups, and starts at the root again behind a double slash.
    \<^item> Network: checksums are those of RFC 1071, a datagram sent to a bound local port is
      received unchanged, the cache returns the latest binding, rings keep their indices and the
      adapter's tail registers agree with them.
    \<^item> Calls and loading: a system call keeps the descriptor table well formed, rejects buffers
      that fail the pointer check and unknown numbers; the check accepts what lies in user space
      and, wrongly, buffers that wrap around 4 GB; a loaded image is the file's sections and zeros.
    \<^item> Interrupts and terminals: an interrupt leaves the controllers' lines in service as
      they were before it; the console's
      shadow and the screen agree; formatted output stays inside its buffer.
    \<^item> Screen and input: a line's loop ends and connects its ends, without overflow; swapping
      buffers is a copy of the back buffer; moving the cursor leaves no trail; the mouse
      position stays on the screen.
    \<^item> Devices: the uptime is exact to the millisecond and a sleep ends; sectors
      written through the disk driver are read back unchanged, on drives of which nothing is
      assumed while they are busy.
    \<^item> Desktop: a click acts on the frontmost window under the mouse; the notepad is a bounded line
      editor; whatever events arrive, but for one press that closes the window
      following the mouse, the window list stays in order and its memory owned.
    \<^item> Packages: with a server that follows the protocol a download writes each chunk once, in
      order; installing unpacks every file of the archive to its path.
    \<^item> Programs: the calculator, run over the kernel's own system calls, prints its result and
      returns 0; the library's string and memory routines agree with the kernel's.
    \<^item> Start-up: no frame handed out later overlaps low memory, the kernel or the heap, and each was
      reported as available, for memory maps below 4 GB with entries that start on a page.

  \<^bold>\<open>Bounds, fuel and loops.\<close> Loops with a counter are structural recursions over the counter or
  a list of indices. Loops that follow pointers or cluster numbers, or that poll hardware, are
  partial functions with option results: no result means the loop does not end, and the theorems
  on them prove a result. Timeouts in the code are the code's own counters. Where a bound of the
  code is also a bound of the model (64 processes, 16 descriptors, 128 events, 128 devices) it is
  the constant of the source.

  \<^bold>\<open>Parameters.\<close> Hardware is a parameter: the configuration space, the card's replies, the disk's
  contents, the values ports return. So are addresses the linker assigns and the operations a
  file system driver installs in a node.

  \<^bold>\<open>Not modelled.\<close> Assembly (\<^verbatim>\<open>boot\<close>, \<^verbatim>\<open>kernel/boot\<close>, \<^verbatim>\<open>kernel/arch/x86/*.s\<close>): the model starts
  where C does. The order of initialisation and the console messages of
  \<^verbatim>\<open>kernel/core/kernel.c\<close> around the memory set-up; the panic screen, the command shell and the
  HTML viewer, which are text and drawing over the parts above; the USB host and audio drivers,
  whose effect is the device's; command issue of the AHCI driver, of which the transfer sizes are
  modelled. Timing, caches and the translation buffer have no counterpart in the model.

  \<^bold>\<open>Plan.\<close> The next components are the AHCI driver's command lists, the shell's command parser,
  the panic screen and the layout of the HTML viewer.
\<close>

end
